(* ===== verification/PRS_Prelude.thy ===== *)
theory PRS_Prelude
  imports Main "HOL-Library.Word" "HOL-Library.AList"
begin

text \<open>
  Shared vocabulary of the development.

  A JavaScript string is a sequence of UTF-16 code units, so a string of the model is a
  list of 16-bit words; \<open>js ''abc''\<close> is the literal with these ASCII units and
  \<open>ch c\<close> one of its units. The theory then holds the string operations of the language
  that several components use (searching, splitting, trimming, lower-casing, decimal
  numerals), the result type of code that throws, the ordered association list that models
  a JavaScript \<open>Map\<close>, and the interfaces (locales) more than one component implements.
\<close>

named_theorems js_eval \<open>unfolds string literals and character classes to numerals\<close>

section \<open>Strings as UTF-16 code units\<close>

type_synonym unit16 = "16 word"
type_synonym jstr = "unit16 list"

definition ch :: "char \<Rightarrow> unit16" where
  "ch c = of_char c"

definition js :: "string \<Rightarrow> jstr" where
  "js s = map ch s"

lemma js_Nil [simp]: "js [] = []"
  by (simp add: js_def)

lemma js_Cons [simp]: "js (c # s) = ch c # js s"
  by (simp add: js_def)

lemma js_append [simp]: "js (s @ t) = js s @ js t"
  by (simp add: js_def)

lemma length_js [simp]: "length (js s) = length s"
  by (simp add: js_def)

lemma unat_ch: "unat (ch c) = of_char c"
proof -
  have "of_char c < (256::nat)" by simp
  then have "of_char c < (65536::nat)" by linarith
  moreover have "ch c = word_of_nat (of_char c)"
    by (simp only: ch_def of_nat_of_char)
  ultimately show ?thesis
    by (simp add: unat_of_nat take_bit_nat_eq_self)
qed

lemma ch_eq_iff [simp]: "ch a = ch b \<longleftrightarrow> a = b"
  by (metis unat_ch of_char_eq_iff)

lemma js_eq_iff [simp]: "js s = js t \<longleftrightarrow> s = t"
  by (auto simp: js_def inj_map_eq_map inj_def)

declare ch_def [js_eval]

text \<open>The apostrophe, which a literal cannot hold, and a text between two of them.\<close>

definition apos :: jstr where
  "apos = [ch (CHR 0x27)]"

definition in_quotes :: "jstr \<Rightarrow> jstr" where
  "in_quotes s = apos @ s @ apos"

subsection \<open>Character classes\<close>

definition is_digit :: "unit16 \<Rightarrow> bool" where
  "is_digit c \<longleftrightarrow> 48 \<le> c \<and> c \<le> 57"

definition is_upper :: "unit16 \<Rightarrow> bool" where
  "is_upper c \<longleftrightarrow> 65 \<le> c \<and> c \<le> 90"

definition is_lower :: "unit16 \<Rightarrow> bool" where
  "is_lower c \<longleftrightarrow> 97 \<le> c \<and> c \<le> 122"

definition is_letter :: "unit16 \<Rightarrow> bool" where
  "is_letter c \<longleftrightarrow> is_upper c \<or> is_lower c"

definition is_hex_lower :: "unit16 \<Rightarrow> bool" where
  "is_hex_lower c \<longleftrightarrow> is_digit c \<or> (97 \<le> c \<and> c \<le> 102)"

definition is_hex_any :: "unit16 \<Rightarrow> bool" where
  "is_hex_any c \<longleftrightarrow> is_hex_lower c \<or> (65 \<le> c \<and> c \<le> 70)"

text \<open>The white space of the regular expression class \<open>\s\<close> and of \<open>trim\<close>.\<close>

definition is_space :: "unit16 \<Rightarrow> bool" where
  "is_space c \<longleftrightarrow> (9 \<le> c \<and> c \<le> 13) \<or> c = 32 \<or> c = 160 \<or> c = 5760 \<or>
     (8192 \<le> c \<and> c \<le> 8202) \<or> c = 8232 \<or> c = 8233 \<or> c = 8239 \<or> c = 8287 \<or>
     c = 12288 \<or> c = 65279"

lemmas char_class_defs [js_eval] = is_digit_def is_upper_def is_lower_def is_letter_def
  is_hex_lower_def is_hex_any_def is_space_def

lemma digit_not_space: "is_digit c \<Longrightarrow> \<not> is_space c"
  unfolding is_digit_def is_space_def by unat_arith

lemma digit_hex [simp]: "is_digit c \<Longrightarrow> is_hex_lower c"
  by (simp add: is_hex_lower_def)

subsection \<open>Lower-casing\<close>

text \<open>
  \<open>toLowerCase\<close> on the ASCII letters. The code lower-cases hexadecimal digests, host
  names and repository slugs, which it then tests against ASCII patterns; units outside
  ASCII stay as they are, and such a string fails those patterns either way.
\<close>

definition lower_unit :: "unit16 \<Rightarrow> unit16" where
  "lower_unit c = (if is_upper c then c + 32 else c)"

definition to_lower :: "jstr \<Rightarrow> jstr" where
  "to_lower s = map lower_unit s"

lemma length_to_lower [simp]: "length (to_lower s) = length s"
  by (simp add: to_lower_def)

lemma to_lower_append [simp]: "to_lower (s @ t) = to_lower s @ to_lower t"
  by (simp add: to_lower_def)

lemma to_lower_eq_Nil [simp]: "to_lower s = [] \<longleftrightarrow> s = []"
  by (simp add: to_lower_def)

lemma lower_unit_not_upper: "\<not> is_upper (lower_unit c)"
  unfolding lower_unit_def is_upper_def by unat_arith

lemma lower_unit_idem [simp]: "lower_unit (lower_unit c) = lower_unit c"
  by (simp add: lower_unit_def[of "lower_unit c"] lower_unit_not_upper)

lemma to_lower_idem [simp]: "to_lower (to_lower s) = to_lower s"
  by (simp add: to_lower_def)

lemma hex_lower_not_upper: "is_hex_lower c \<Longrightarrow> \<not> is_upper c"
  unfolding is_hex_lower_def is_digit_def is_upper_def by unat_arith

lemma to_lower_hex [simp]: "list_all is_hex_lower s \<Longrightarrow> to_lower s = s"
  by (induction s) (auto simp: to_lower_def lower_unit_def hex_lower_not_upper)

subsection \<open>Searching and slicing\<close>

text \<open>\<open>startsWith\<close> and \<open>endsWith\<close>.\<close>

definition starts_with :: "'a list \<Rightarrow> 'a list \<Rightarrow> bool" where
  "starts_with p s \<longleftrightarrow> take (length p) s = p"

definition ends_with :: "'a list \<Rightarrow> 'a list \<Rightarrow> bool" where
  "ends_with p s \<longleftrightarrow> length p \<le> length s \<and> drop (length s - length p) s = p"

lemma starts_with_append [simp]: "starts_with p (p @ s)"
  by (simp add: starts_with_def)

lemma starts_with_iff: "starts_with p s \<longleftrightarrow> (\<exists>t. s = p @ t)"
  by (metis append_eq_conv_conj starts_with_def)

lemma starts_with_Nil [simp]: "starts_with [] s"
  by (simp add: starts_with_def)

lemma starts_with_Cons [simp]: "starts_with (a # p) (b # s) \<longleftrightarrow> a = b \<and> starts_with p s"
  by (auto simp: starts_with_def)

lemma starts_with_Cons_Nil [simp]: "\<not> starts_with (a # p) []"
  by (simp add: starts_with_def)

lemma starts_with_single: "starts_with [x] s \<longleftrightarrow> (\<exists>t. s = x # t)"
  by (simp add: starts_with_iff)

text \<open>\<open>indexOf\<close> of a single unit: the position of the first element with a property.\<close>

fun find_index :: "('a \<Rightarrow> bool) \<Rightarrow> 'a list \<Rightarrow> nat option" where
  "find_index P [] = None"
| "find_index P (x # xs) = (if P x then Some 0 else map_option Suc (find_index P xs))"

lemma find_index_None [simp]: "find_index P xs = None \<longleftrightarrow> (\<forall>x \<in> set xs. \<not> P x)"
  by (induction xs) auto

lemma find_index_Some_iff:
  "find_index P xs = Some i \<longleftrightarrow>
     i < length xs \<and> P (xs ! i) \<and> (\<forall>x \<in> set (take i xs). \<not> P x)"
proof (induction xs arbitrary: i)
  case Nil
  then show ?case by simp
next
  case (Cons x xs)
  then show ?case by (cases i) auto
qed

lemma find_index_append:
  assumes "\<forall>x \<in> set xs. \<not> P x" and "P y"
  shows "find_index P (xs @ y # ys) = Some (length xs)"
  using assms by (induction xs) auto

text \<open>\<open>indexOf\<close> of a string.\<close>

lemma find_append: "find P (xs @ ys) = (case find P xs of None \<Rightarrow> find P ys | Some x \<Rightarrow> Some x)"
  by (induction xs) auto

fun find_sub :: "'a list \<Rightarrow> 'a list \<Rightarrow> nat option" where
  "find_sub p [] = (if p = [] then Some 0 else None)"
| "find_sub p (c # s) = (if starts_with p (c # s) then Some 0 else map_option Suc (find_sub p s))"

definition contains_sub :: "'a list \<Rightarrow> 'a list \<Rightarrow> bool" where
  "contains_sub p s \<longleftrightarrow> find_sub p s \<noteq> None"

lemma find_sub_SomeD: "find_sub p s = Some i \<Longrightarrow> i \<le> length s \<and> starts_with p (drop i s)"
  by (induction p s arbitrary: i rule: find_sub.induct) (auto split: if_splits)

text \<open>\<open>split\<close> on a separating unit and \<open>join\<close> with it.\<close>

fun split_on :: "'a \<Rightarrow> 'a list \<Rightarrow> 'a list list" where
  "split_on d [] = [[]]"
| "split_on d (c # s) =
     (if c = d then [] # split_on d s
      else (case split_on d s of [] \<Rightarrow> [[c]] | w # ws \<Rightarrow> (c # w) # ws))"

fun join_with :: "'a list \<Rightarrow> 'a list list \<Rightarrow> 'a list" where
  "join_with sep [] = []"
| "join_with sep [w] = w"
| "join_with sep (w # ws) = w @ sep @ join_with sep ws"

lemma split_on_not_Nil [simp]: "split_on d s \<noteq> []"
  by (induction s) (auto split: list.splits)

lemma join_with_Cons: "ws \<noteq> [] \<Longrightarrow> join_with sep (w # ws) = w @ sep @ join_with sep ws"
  by (cases ws) auto

lemma join_split_on [simp]: "join_with [d] (split_on d s) = s"
proof (induction s)
  case Nil
  then show ?case by simp
next
  case (Cons c s)
  show ?case
  proof (cases "split_on d s")
    case Nil
    then show ?thesis by simp
  next
    case (Cons w ws)
    with Cons.IH show ?thesis by (cases ws) auto
  qed
qed

lemma split_on_no_sep: "d \<notin> set w \<Longrightarrow> split_on d w = [w]"
  by (induction w) auto

lemma split_on_append: "d \<notin> set w \<Longrightarrow> split_on d (w @ d # s) = w # split_on d s"
  by (induction w) auto

lemma split_on_join:
  assumes "ws \<noteq> []" and "\<forall>w \<in> set ws. d \<notin> set w"
  shows "split_on d (join_with [d] ws) = ws"
  using assms
proof (induction ws rule: list_nonempty_induct)
  case (single w)
  then show ?case by (simp add: split_on_no_sep)
next
  case (cons w ws)
  then show ?case by (simp add: join_with_Cons split_on_append)
qed

text \<open>A text up to the first separator.\<close>

lemma append_sep_inject:
  assumes "d \<notin> set a" "d \<notin> set b" "a @ d # x = b @ d # y"
  shows "a = b \<and> x = y"
proof -
  have "a # split_on d x = b # split_on d y"
    using assms(3) split_on_append[OF assms(1), of x] split_on_append[OF assms(2), of y] by simp
  with assms(3) show ?thesis by simp
qed

lemma split_on_parts: "w \<in> set (split_on d s) \<Longrightarrow> d \<notin> set w"
  by (induction s arbitrary: w) (auto split: list.splits if_splits)

lemma length_split_on: "length (split_on d s) = Suc (count_list s d)"
  by (induction s) (auto split: list.splits)

lemma set_join_with: "set (join_with sep ws) \<subseteq> (\<Union>w \<in> set ws. set w) \<union> set sep"
  by (induction sep ws rule: join_with.induct) auto

text \<open>\<open><\<close> on strings: the order of the first differing unit.\<close>

fun str_less :: "jstr \<Rightarrow> jstr \<Rightarrow> bool" where
  "str_less s [] = False"
| "str_less [] (d # t) = True"
| "str_less (c # s) (d # t) = (c < d \<or> (c = d \<and> str_less s t))"

text \<open>\<open>trim\<close>.\<close>

definition trim_start :: "jstr \<Rightarrow> jstr" where
  "trim_start s = dropWhile is_space s"

definition trim :: "jstr \<Rightarrow> jstr" where
  "trim s = rev (dropWhile is_space (rev (dropWhile is_space s)))"

lemma trim_Nil [simp]: "trim [] = []"
  by (simp add: trim_def)

lemma hd_dropWhile_not: "dropWhile P s \<noteq> [] \<Longrightarrow> \<not> P (hd (dropWhile P s))"
  by (rule hd_dropWhile)

lemma trim_id: "s = [] \<or> (\<not> is_space (hd s) \<and> \<not> is_space (last s)) \<Longrightarrow> trim s = s"
proof (cases "s = []")
  case False
  assume "s = [] \<or> (\<not> is_space (hd s) \<and> \<not> is_space (last s))"
  with False have h: "\<not> is_space (hd s)" and l: "\<not> is_space (last s)" by auto
  from False h have a: "dropWhile is_space s = s" by (cases s) auto
  from False l have "dropWhile is_space (rev s) = rev s"
    by (cases "rev s") (auto simp: last_rev hd_rev[symmetric])
  with a show ?thesis by (simp add: trim_def)
qed simp

lemma trim_no_space: "\<forall>c \<in> set s. \<not> is_space c \<Longrightarrow> trim s = s"
  by (rule trim_id) (cases "s = []", auto)

section \<open>Decimal numerals\<close>

definition digit_unit :: "nat \<Rightarrow> unit16" where
  "digit_unit d = word_of_nat (48 + d)"

definition digit_val :: "unit16 \<Rightarrow> nat" where
  "digit_val c = unat c - 48"

text \<open>\<open>String(n)\<close> of a non-negative integer, and \<open>Number(s)\<close> of a string of digits.\<close>

fun show_nat :: "nat \<Rightarrow> jstr" where
  "show_nat n = (if n < 10 then [digit_unit n] else show_nat (n div 10) @ [digit_unit (n mod 10)])"

declare show_nat.simps [simp del]

definition dec_value :: "jstr \<Rightarrow> nat" where
  "dec_value s = foldl (\<lambda>a c. 10 * a + digit_val c) 0 s"

definition digits_of_length :: "nat \<Rightarrow> jstr \<Rightarrow> bool" where
  "digits_of_length n s \<longleftrightarrow> length s = n \<and> list_all is_digit s"

definition all_digits :: "jstr \<Rightarrow> bool" where
  "all_digits s \<longleftrightarrow> s \<noteq> [] \<and> list_all is_digit s"

lemma unat_digit_unit: "d < 10 \<Longrightarrow> unat (digit_unit d) = 48 + d"
  by (simp only: digit_unit_def unat_of_nat) (simp add: take_bit_nat_eq_self)

lemma digit_val_unit [simp]: "d < 10 \<Longrightarrow> digit_val (digit_unit d) = d"
  by (simp add: digit_val_def unat_digit_unit)

lemma is_digit_unit [simp]: "d < 10 \<Longrightarrow> is_digit (digit_unit d)"
  by (simp add: is_digit_def word_le_nat_alt unat_digit_unit)

lemma digit_val_less: "is_digit c \<Longrightarrow> digit_val c < 10"
  by (auto simp: is_digit_def word_le_nat_alt digit_val_def)

lemma digit_unit_val [simp]: "is_digit c \<Longrightarrow> digit_unit (digit_val c) = c"
  by (simp add: is_digit_def word_le_nat_alt digit_val_def digit_unit_def)

lemma dec_value_Nil [simp]: "dec_value [] = 0"
  by (simp add: dec_value_def)

lemma dec_value_snoc [simp]: "dec_value (s @ [c]) = 10 * dec_value s + digit_val c"
  by (simp add: dec_value_def)

lemma show_nat_not_Nil [simp]: "show_nat n \<noteq> []"
  by (subst show_nat.simps) simp

lemma show_nat_digits: "list_all is_digit (show_nat n)"
proof (induction n rule: show_nat.induct)
  case (1 n)
  then show ?case by (cases "n < 10") (simp_all add: show_nat.simps[of n])
qed

lemma all_digits_show [simp]: "all_digits (show_nat n)"
  by (simp add: all_digits_def show_nat_digits)

lemma dec_value_show [simp]: "dec_value (show_nat n) = n"
proof (induction n rule: show_nat.induct)
  case (1 n)
  show ?case
  proof (cases "n < 10")
    case True
    then show ?thesis by (simp add: show_nat.simps[of n] dec_value_def)
  next
    case False
    with "1.IH" show ?thesis by (simp add: show_nat.simps[of n])
  qed
qed

lemma show_nat_eq_iff [simp]: "show_nat m = show_nat n \<longleftrightarrow> m = n"
  by (metis dec_value_show)

lemma show_nat_hd: "0 < n \<Longrightarrow> hd (show_nat n) \<noteq> ch CHR ''0''"
proof (induction n rule: show_nat.induct)
  case (1 n)
  show ?case
  proof (cases "n < 10")
    case True
    with "1.prems" have "unat (hd (show_nat n)) = 48 + n" by (simp add: show_nat.simps[of n] unat_digit_unit)
    moreover have "unat (ch CHR ''0'') = 48" by (simp add: unat_ch)
    ultimately show ?thesis using "1.prems" by auto
  next
    case False
    with "1.IH" show ?thesis by (simp add: show_nat.simps[of n])
  qed
qed

lemma dec_value_pos: "list_all is_digit s \<Longrightarrow> s \<noteq> [] \<Longrightarrow> hd s \<noteq> ch CHR ''0'' \<Longrightarrow> 0 < dec_value s"
proof (induction s rule: rev_induct)
  case Nil
  then show ?case by simp
next
  case (snoc c s)
  show ?case
  proof (cases "s = []")
    case True
    with snoc.prems have "unat c \<noteq> unat (ch CHR ''0'')" and "is_digit c"
      by (auto simp: word_unat_eq_iff)
    then have "0 < digit_val c"
      by (simp add: unat_ch digit_val_def is_digit_def word_le_nat_alt)
    with True show ?thesis by (simp add: dec_value_def)
  next
    case False
    with snoc show ?thesis by simp
  qed
qed

text \<open>A numeral without a leading zero is the one \<open>String\<close> prints.\<close>

lemma show_dec_value:
  "list_all is_digit s \<Longrightarrow> s \<noteq> [] \<Longrightarrow> hd s \<noteq> ch CHR ''0'' \<Longrightarrow> show_nat (dec_value s) = s"
proof (induction s rule: rev_induct)
  case Nil
  then show ?case by simp
next
  case (snoc c s)
  then have c: "is_digit c" "digit_val c < 10" by (auto simp: digit_val_less)
  show ?case
  proof (cases "s = []")
    case True
    with c show ?thesis by (simp add: dec_value_def show_nat.simps[of "digit_val c"])
  next
    case False
    with snoc have s: "show_nat (dec_value s) = s" and p: "0 < dec_value s"
      by (auto intro!: dec_value_pos)
    from p have "\<not> 10 * dec_value s + digit_val c < 10" by simp
    with c s show ?thesis
      by (simp add: show_nat.simps[of "10 * dec_value s + digit_val c"])
  qed
qed

lemma length_show_nat: "n < 10 ^ Suc w \<Longrightarrow> length (show_nat n) \<le> Suc w"
proof (induction w arbitrary: n)
  case 0
  then show ?case by (simp add: show_nat.simps[of n])
next
  case (Suc w)
  then have "n div 10 < 10 ^ Suc w" by (simp add: less_mult_imp_div_less)
  with Suc.IH[of "n div 10"] show ?case by (simp add: show_nat.simps[of n])
qed

lemma dec_value_append: "dec_value (s @ t) = dec_value s * 10 ^ length t + dec_value t"
proof (induction t rule: rev_induct)
  case Nil
  then show ?case by simp
next
  case (snoc c t)
  have "dec_value ((s @ t) @ [c]) = 10 * dec_value (s @ t) + digit_val c" by (rule dec_value_snoc)
  with snoc show ?case by (simp add: algebra_simps)
qed

lemma dec_value_single [simp]: "dec_value [c] = digit_val c"
  by (simp add: dec_value_def)

lemma dec_value_Cons: "dec_value (c # s) = digit_val c * 10 ^ length s + dec_value s"
  using dec_value_append[of "[c]" s] by simp

lemma dec_value_bound: "list_all is_digit s \<Longrightarrow> dec_value s < 10 ^ length s"
proof (induction s rule: rev_induct)
  case Nil
  then show ?case by simp
next
  case (snoc c s)
  then have "dec_value s < 10 ^ length s" "digit_val c < 10" by (simp_all add: digit_val_less)
  then show ?case by simp
qed

lemma digit_val_zero [simp]: "digit_val (ch CHR ''0'') = 0"
  by (simp add: digit_val_def unat_ch)

lemma is_digit_zero [simp]: "is_digit (ch CHR ''0'')"
  by (simp add: is_digit_def ch_def)

lemma not_digit_hyphen [simp]: "\<not> is_digit (ch CHR ''-'')"
  by (simp add: is_digit_def ch_def)

lemma digits_no_hyphen: "list_all is_digit s \<Longrightarrow> ch CHR ''-'' \<notin> set s"
  by (auto simp: list_all_iff)

lemma digit_unit_zero: "digit_unit 0 = ch CHR ''0''"
  by (simp add: digit_unit_def ch_def)

lemma dec_value_zeros [simp]: "dec_value (replicate k (ch CHR ''0'') @ s) = dec_value s"
  by (induction k) (simp_all add: dec_value_Cons)

text \<open>\<open>String(n).padStart(w, '0')\<close>, the numeral of a fixed width.\<close>

definition pad_nat :: "nat \<Rightarrow> nat \<Rightarrow> jstr" where
  "pad_nat w n = replicate (w - length (show_nat n)) (ch CHR ''0'') @ show_nat n"

lemma pad_nat_digits [simp]: "list_all is_digit (pad_nat w n)"
  using show_nat_digits[of n] by (auto simp: pad_nat_def list_all_iff)

lemma dec_value_pad [simp]: "dec_value (pad_nat w n) = n"
  by (simp add: pad_nat_def)

lemma length_pad_nat: "n < 10 ^ Suc w \<Longrightarrow> length (pad_nat (Suc w) n) = Suc w"
  using length_show_nat[of n w] by (simp add: pad_nat_def)

lemma pad_dec_value: "list_all is_digit s \<Longrightarrow> s \<noteq> [] \<Longrightarrow> pad_nat (length s) (dec_value s) = s"
proof (induction s)
  case Nil
  then show ?case by simp
next
  case (Cons c s)
  show ?case
  proof (cases "c = ch CHR ''0''")
    case False
    with Cons.prems have "show_nat (dec_value (c # s)) = c # s" by (intro show_dec_value) auto
    then show ?thesis by (simp add: pad_nat_def)
  next
    case True
    show ?thesis
    proof (cases s)
      case Nil
      with True show ?thesis by (simp add: pad_nat_def show_nat.simps[of 0] digit_unit_zero)
    next
      case (Cons d s')
      with Cons.prems have "dec_value s < 10 ^ Suc (length s')"
        using dec_value_bound[of s] by simp
      then have "length (show_nat (dec_value s)) \<le> length s"
        using length_show_nat[of "dec_value s" "length s'"] Cons by simp
      moreover have "dec_value (c # s) = dec_value s" using True by (simp add: dec_value_Cons)
      moreover have "pad_nat (length s) (dec_value s) = s" using Cons Cons.IH Cons.prems by simp
      ultimately show ?thesis using True by (simp add: pad_nat_def Suc_diff_le)
    qed
  qed
qed

lemma digits_pad_nat: "0 < w \<Longrightarrow> n < 10 ^ w \<Longrightarrow> digits_of_length w (pad_nat w n)"
  using length_pad_nat[of n "w - 1"] by (simp add: digits_of_length_def)

lemma length_show_nat_lower:
  assumes "10 ^ w \<le> n"
  shows "w < length (show_nat n)"
proof -
  have "n < 10 ^ length (show_nat n)" using dec_value_bound[OF show_nat_digits[of n]] by simp
  with assms have "(10::nat) ^ w < 10 ^ length (show_nat n)" by (rule le_less_trans)
  then show ?thesis by simp
qed

lemma digits_of_length_value:
  assumes "digits_of_length n s" and "0 < n"
  shows "pad_nat n (dec_value s) = s" and "dec_value s < 10 ^ n"
  using assms pad_dec_value[of s] dec_value_bound[of s] by (auto simp: digits_of_length_def)

definition show_int :: "int \<Rightarrow> jstr" where
  "show_int i = (if i < 0 then ch CHR ''-'' # show_nat (nat (- i)) else show_nat (nat i))"

text \<open>The largest integer \<open>Number.isSafeInteger\<close> accepts.\<close>

definition max_safe_integer :: int where
  "max_safe_integer = 9007199254740991"

definition is_safe_integer :: "int \<Rightarrow> bool" where
  "is_safe_integer i \<longleftrightarrow> - max_safe_integer \<le> i \<and> i \<le> max_safe_integer"

section \<open>Results of code that throws\<close>

type_synonym ('e, 'a) result = "'e + 'a"

fun bind_result :: "('e, 'a) result \<Rightarrow> ('a \<Rightarrow> ('e, 'b) result) \<Rightarrow> ('e, 'b) result" where
  "bind_result (Inl e) f = Inl e"
| "bind_result (Inr x) f = f x"

lemma bind_result_Inr_iff [simp]:
  "bind_result r f = Inr y \<longleftrightarrow> (\<exists>x. r = Inr x \<and> f x = Inr y)"
  by (cases r) auto

lemma bind_result_Inl_iff:
  "bind_result r f = Inl e \<longleftrightarrow> r = Inl e \<or> (\<exists>x. r = Inr x \<and> f x = Inl e)"
  by (cases r) auto

section \<open>The interfaces\<close>

text \<open>A printer and a parser of the same strings.\<close>

locale codec =
  fixes render :: "'a \<Rightarrow> jstr" and parse :: "jstr \<Rightarrow> 'a option" and wf :: "'a \<Rightarrow> bool"
  assumes parse_render: "wf x \<Longrightarrow> parse (render x) = Some x"
begin

lemma render_eq_iff: "wf x \<Longrightarrow> wf y \<Longrightarrow> render x = render y \<longleftrightarrow> x = y"
  by (metis option.inject parse_render)

lemma inj_on_render: "inj_on render (Collect wf)"
  by (auto simp: inj_on_def render_eq_iff)

end

text \<open>Strings that the parser accepts and the printer produces are the same.\<close>

locale canonical_codec = codec +
  assumes parse_wf: "parse s = Some x \<Longrightarrow> wf x"
    and render_parse: "parse s = Some x \<Longrightarrow> render x = s"
begin

lemma parse_Some_iff: "parse s = Some x \<longleftrightarrow> wf x \<and> s = render x"
  by (metis parse_render parse_wf render_parse)

lemma parse_determines: "parse s = Some x \<Longrightarrow> parse t = Some x \<Longrightarrow> s = t"
  by (metis render_parse)

end

text \<open>A transition system and its reachable states.\<close>

inductive reaches :: "('s \<Rightarrow> bool) \<Rightarrow> ('s \<Rightarrow> 's \<Rightarrow> bool) \<Rightarrow> 's \<Rightarrow> bool"
  for init :: "'s \<Rightarrow> bool" and step :: "'s \<Rightarrow> 's \<Rightarrow> bool" where
  start: "init s \<Longrightarrow> reaches init step s"
| step: "reaches init step s \<Longrightarrow> step s t \<Longrightarrow> reaches init step t"

text \<open>For runs written out state by state.\<close>

lemma reaches_next: "reaches init step s \<Longrightarrow> step s t \<Longrightarrow> t = t' \<Longrightarrow> reaches init step t'"
  by (auto intro: reaches.step)

locale invariant_system =
  fixes init :: "'s \<Rightarrow> bool" and step :: "'s \<Rightarrow> 's \<Rightarrow> bool" and inv :: "'s \<Rightarrow> bool"
  assumes init_inv: "init s \<Longrightarrow> inv s"
    and step_inv: "inv s \<Longrightarrow> step s t \<Longrightarrow> inv t"
begin

lemma reaches_inv: "reaches init step s \<Longrightarrow> inv s"
  by (induction rule: reaches.induct) (auto intro: init_inv step_inv)

end

end
