(* ===== verification/Query_Syntax.thy ===== *)
theory Query_Syntax
  imports PRS_Prelude
begin

text \<open>
  The vocabulary of the query language (\<open>packages/query/src/keys.ts\<close>, \<open>ast.ts\<close> and
  \<open>errors.ts\<close>): the search keys and their classes, the syntax tree, and the error value the
  parser throws. Keys are a datatype; \<open>key_name\<close> is the text of a key and \<open>key_of_name\<close> the
  test \<open>isQueryKey\<close> together with the narrowing of its argument.
\<close>

section \<open>Keys\<close>

datatype query_key =
    Repo | Org | Author | Team | Author_team | Reviewer | Label | Base | Head | State
  | Merged | Created | Seq | Release | Path | Is | Kind | Changed_files | Changed_lines
  | Pr_number | Mnum

definition QUERY_KEYS :: "query_key list" where
  "QUERY_KEYS =
     [Repo, Org, Author, Team, Author_team, Reviewer, Label, Base, Head, State, Merged,
      Created, Seq, Release, Path, Is, Kind, Changed_files, Changed_lines, Pr_number, Mnum]"

fun key_text :: "query_key \<Rightarrow> string" where
  "key_text Repo = ''repo''"
| "key_text Org = ''org''"
| "key_text Author = ''author''"
| "key_text Team = ''team''"
| "key_text Author_team = ''author_team''"
| "key_text Reviewer = ''reviewer''"
| "key_text Label = ''label''"
| "key_text Base = ''base''"
| "key_text Head = ''head''"
| "key_text State = ''state''"
| "key_text Merged = ''merged''"
| "key_text Created = ''created''"
| "key_text Seq = ''seq''"
| "key_text Release = ''release''"
| "key_text Path = ''path''"
| "key_text Is = ''is''"
| "key_text Kind = ''kind''"
| "key_text Changed_files = ''changed_files''"
| "key_text Changed_lines = ''changed_lines''"
| "key_text Pr_number = ''pr_number''"
| "key_text Mnum = ''mnum''"

definition key_name :: "query_key \<Rightarrow> jstr" where
  "key_name k = js (key_text k)"

definition key_of_name :: "jstr \<Rightarrow> query_key option" where
  "key_of_name s = find (\<lambda>k. key_name k = s) QUERY_KEYS"

definition NUMERIC_RANGE_KEYS :: "query_key list" where
  "NUMERIC_RANGE_KEYS = [Seq, Changed_files, Changed_lines, Pr_number, Mnum]"

definition TEMPORAL_RANGE_KEYS :: "query_key list" where
  "TEMPORAL_RANGE_KEYS = [Merged, Created]"

definition is_numeric_range_key :: "query_key \<Rightarrow> bool" where
  "is_numeric_range_key k \<longleftrightarrow> k \<in> set NUMERIC_RANGE_KEYS"

definition is_temporal_range_key :: "query_key \<Rightarrow> bool" where
  "is_temporal_range_key k \<longleftrightarrow> k \<in> set TEMPORAL_RANGE_KEYS"

definition is_range_key :: "query_key \<Rightarrow> bool" where
  "is_range_key k \<longleftrightarrow> is_numeric_range_key k \<or> is_temporal_range_key k"

definition SINGLE_VALUE_RANGE_KEYS :: "query_key list" where
  "SINGLE_VALUE_RANGE_KEYS = [Mnum]"

definition accepts_single_value :: "query_key \<Rightarrow> bool" where
  "accepts_single_value k \<longleftrightarrow> k \<in> set SINGLE_VALUE_RANGE_KEYS"

fun MIN_RANGE_VALUE :: "query_key \<Rightarrow> int option" where
  "MIN_RANGE_VALUE Pr_number = Some 1"
| "MIN_RANGE_VALUE Mnum = Some 1"
| "MIN_RANGE_VALUE _ = None"

fun RANGE_KEY_EXAMPLE :: "query_key \<Rightarrow> jstr" where
  "RANGE_KEY_EXAMPLE Seq = js ''seq:1200..1350''"
| "RANGE_KEY_EXAMPLE Merged = js ''merged:2026-08-10..2026-08-19''"
| "RANGE_KEY_EXAMPLE Created = js ''created:2026-08-10..2026-08-19''"
| "RANGE_KEY_EXAMPLE Changed_files = js ''changed_files:2..5''"
| "RANGE_KEY_EXAMPLE Changed_lines = js ''changed_lines:51..200''"
| "RANGE_KEY_EXAMPLE Pr_number = js ''repo:acme/payments pr_number:100..200''"
| "RANGE_KEY_EXAMPLE Mnum = js ''repo:acme/payments base:main mnum:1..50''"
| "RANGE_KEY_EXAMPLE _ = []"

fun ENUMERATED_VALUES :: "query_key \<Rightarrow> jstr list option" where
  "ENUMERATED_VALUES Is = Some [js ''merged'', js ''open'', js ''closed'', js ''reverted'']"
| "ENUMERATED_VALUES Kind = Some [js ''pull_request'', js ''commit'']"
| "ENUMERATED_VALUES _ = None"

lemmas key_class_defs = is_numeric_range_key_def is_temporal_range_key_def is_range_key_def
  accepts_single_value_def NUMERIC_RANGE_KEYS_def TEMPORAL_RANGE_KEYS_def SINGLE_VALUE_RANGE_KEYS_def

lemma key_of_name_name [simp]: "key_of_name (key_name k) = Some k"
  by (cases k) (simp_all add: key_of_name_def key_name_def QUERY_KEYS_def del: js_Cons)

lemma key_of_name_SomeD: "key_of_name s = Some k \<Longrightarrow> s = key_name k"
  by (auto simp: key_of_name_def find_Some_iff)

lemma key_name_eq_iff [simp]: "key_name a = key_name b \<longleftrightarrow> a = b"
  by (metis key_of_name_name option.inject)

lemma numeric_not_temporal: "is_numeric_range_key k \<Longrightarrow> \<not> is_temporal_range_key k"
  by (cases k) (simp_all add: key_class_defs)

lemma accepts_single_numeric: "accepts_single_value k \<Longrightarrow> is_numeric_range_key k"
  by (cases k) (simp_all add: key_class_defs)

text \<open>The texts of the keys are printed and read back without loss.\<close>

interpretation key_codec: canonical_codec key_name key_of_name "\<lambda>_. True"
  by unfold_locales (auto dest: key_of_name_SomeD)

section \<open>The syntax tree\<close>

datatype eq_op = Eq | Not_eq
datatype range_op = Range | Not_range

datatype query_filter =
    Equality_filter query_key eq_op "jstr list"
  | Numeric_range_filter query_key range_op int int
  | Temporal_range_filter query_key range_op jstr jstr "jstr option"

record query_ast =
  filters :: "query_filter list"
  text_of :: "jstr option"

fun filter_key :: "query_filter \<Rightarrow> query_key" where
  "filter_key (Equality_filter k _ _) = k"
| "filter_key (Numeric_range_filter k _ _ _) = k"
| "filter_key (Temporal_range_filter k _ _ _ _) = k"

fun is_range_filter :: "query_filter \<Rightarrow> bool" where
  "is_range_filter (Equality_filter _ _ _) = False"
| "is_range_filter _ = True"

fun is_negated :: "query_filter \<Rightarrow> bool" where
  "is_negated (Equality_filter _ p _) = (p = Not_eq)"
| "is_negated (Numeric_range_filter _ p _ _) = (p = Not_range)"
| "is_negated (Temporal_range_filter _ p _ _ _) = (p = Not_range)"

definition EMPTY_QUERY :: query_ast where
  "EMPTY_QUERY = \<lparr>filters = [], text_of = None\<rparr>"

section \<open>Errors\<close>

datatype query_error_code = Query_syntax_error | Query_too_short

record query_error =
  err_code :: query_error_code
  err_message :: jstr
  err_token :: jstr
  offset_start :: nat
  offset_end :: nat
  supported_keys :: "query_key list option"
  allowed_values :: "jstr list option"

definition syntax_error :: "jstr \<Rightarrow> jstr \<Rightarrow> nat \<Rightarrow> nat \<Rightarrow> query_error" where
  "syntax_error message token start stop =
     \<lparr>err_code = Query_syntax_error, err_message = message, err_token = token,
      offset_start = start, offset_end = stop, supported_keys = None, allowed_values = None\<rparr>"

definition unsupported_key :: "jstr \<Rightarrow> jstr \<Rightarrow> nat \<Rightarrow> nat \<Rightarrow> query_error" where
  "unsupported_key key token start stop =
     (syntax_error (js ''Unsupported search key: '' @ in_quotes key) token start stop)
       \<lparr>supported_keys := Some QUERY_KEYS\<rparr>"

definition range_only_key :: "query_key \<Rightarrow> jstr \<Rightarrow> nat \<Rightarrow> nat \<Rightarrow> query_error" where
  "range_only_key key token start stop =
     syntax_error
       (in_quotes (key_name key) @ js '' only supports ranges (for example: '' @
        RANGE_KEY_EXAMPLE key @ js '')'')
       token start stop"

lemmas error_defs = syntax_error_def unsupported_key_def range_only_key_def

end
