(* ===== verification/Query_Tokenizer.thy ===== *)
theory Query_Tokenizer
  imports Query_Syntax
begin

text \<open>
  The tokenizer (\<open>packages/query/src/tokenizer.ts\<close>). The code moves a cursor over the input;
  the model carries the text from the cursor on, so the cursor is the length of the input
  minus the length of that text. \<open>read_token\<close> is one round of the loop of \<open>tokenize\<close>.
\<close>

record raw_token =
  raw :: jstr
  tok_start :: nat
  tok_end :: nat
  negated :: bool
  tok_key :: "jstr option"
  tok_value :: jstr
  quoted :: bool

abbreviation dquote :: unit16 where "dquote \<equiv> ch (CHR 0x22)"
abbreviation backslash :: unit16 where "backslash \<equiv> ch (CHR 0x5C)"
abbreviation colon :: unit16 where "colon \<equiv> ch (CHR '':'')"
abbreviation hyphen :: unit16 where "hyphen \<equiv> ch (CHR ''-'')"
abbreviation blank_unit :: unit16 where "blank_unit \<equiv> ch (CHR '' '')"

definition key_unit :: "unit16 \<Rightarrow> bool" where
  "key_unit c \<longleftrightarrow> is_letter c \<or> is_digit c \<or> c = ch (CHR ''_'')"

fun KEY_PATTERN :: "jstr \<Rightarrow> bool" where
  "KEY_PATTERN [] = False"
| "KEY_PATTERN (c # cs) = (is_letter c \<and> list_all key_unit cs)"

definition skip_space :: "jstr \<Rightarrow> jstr" where
  "skip_space rest = dropWhile is_space rest"

text \<open>
  \<open>readQuoted\<close>, from just after the opening quotation mark: the value and the text after the
  closing mark, or \<open>None\<close> where the code throws because there is none.
\<close>

fun read_quoted :: "jstr \<Rightarrow> (jstr \<times> jstr) option" where
  "read_quoted [] = None"
| "read_quoted (c # cs) =
     (if c = backslash then
        (case cs of
           [] \<Rightarrow> None
         | e # es \<Rightarrow> map_option (\<lambda>(v, r). (e # v, r)) (read_quoted es))
      else if c = dquote then Some ([], cs)
      else map_option (\<lambda>(v, r). (c # v, r)) (read_quoted cs))"

definition read_bare :: "jstr \<Rightarrow> jstr \<times> jstr" where
  "read_bare rest = (takeWhile (\<lambda>c. \<not> is_space c) rest, dropWhile (\<lambda>c. \<not> is_space c) rest)"

definition split_key :: "jstr \<Rightarrow> jstr option \<times> jstr" where
  "split_key rest =
     (if starts_with [dquote] rest then (None, rest)
      else (case find_index (\<lambda>c. c = colon) rest of
              None \<Rightarrow> (None, rest)
            | Some i \<Rightarrow>
                if 0 < i \<and> KEY_PATTERN (take i rest) then (Some (take i rest), drop (Suc i) rest)
                else (None, rest)))"

text \<open>The sign, the key and the value of one token, and the text after it.\<close>

definition read_parts :: "jstr \<Rightarrow> (bool \<times> jstr option \<times> jstr \<times> bool \<times> jstr) option" where
  "read_parts rest =
     (let neg = starts_with [hyphen] rest;
          r1 = (if neg then tl rest else rest);
          (key, r2) = split_key r1;
          quo = starts_with [dquote] r2
      in map_option (\<lambda>(v, r3). (neg, key, v, quo, r3))
           (if quo then read_quoted (tl r2) else Some (read_bare r2)))"

definition read_token :: "nat \<Rightarrow> jstr \<Rightarrow> (query_error, raw_token option \<times> jstr) result" where
  "read_token n rest =
     (case read_parts rest of
        None \<Rightarrow> Inl (syntax_error (js ''Unclosed quotation mark'') rest (n - length rest) n)
      | Some (neg, key, v, quo, r3) \<Rightarrow>
          Inr (if v \<noteq> [] \<or> quo \<or> key \<noteq> None
               then Some \<lparr>raw = take (length rest - length r3) rest,
                          tok_start = n - length rest, tok_end = n - length r3,
                          negated = neg, tok_key = key, tok_value = v, quoted = quo\<rparr>
               else None, r3))"

lemma read_quoted_shorter: "read_quoted s = Some (v, r) \<Longrightarrow> \<exists>p. s = p @ r \<and> p \<noteq> []"
proof (induction s arbitrary: v rule: read_quoted.induct)
  case 1
  then show ?case by simp
next
  case (2 c cs)
  show ?case
  proof (cases "c = backslash")
    case True
    with "2.prems" obtain e es v' where cs: "cs = e # es" and "read_quoted es = Some (v', r)"
      by (auto split: list.splits)
    with "2.IH"(1)[OF True] obtain p where "es = p @ r" by auto
    with cs show ?thesis by (intro exI[of _ "c # e # p"]) simp
  next
    case False
    show ?thesis
    proof (cases "c = dquote")
      case True
      with False "2.prems" show ?thesis by (intro exI[of _ "[c]"]) simp
    next
      case nq: False
      with False "2.prems" obtain v' where "read_quoted cs = Some (v', r)" by auto
      with "2.IH"(2)[OF False nq] obtain p where "cs = p @ r" by auto
      then show ?thesis by (intro exI[of _ "c # p"]) simp
    qed
  qed
qed

lemma read_bare_append: "read_bare s = (v, r) \<Longrightarrow> s = v @ r"
  by (auto simp: read_bare_def)

lemma split_key_Some:
  "split_key s = (Some k, r) \<Longrightarrow> s = k @ colon # r \<and> KEY_PATTERN k \<and> colon \<notin> set k"
  by (auto simp: split_key_def find_index_Some_iff split: if_splits option.splits)
    (metis id_take_nth_drop)

lemma split_key_None: "split_key s = (None, r) \<Longrightarrow> r = s"
  by (auto simp: split_key_def split: if_splits option.splits)

lemma split_key_suffix: "split_key s = (k, r) \<Longrightarrow> \<exists>p. s = p @ r \<and> (p = [] \<longleftrightarrow> k = None)"
proof (cases k)
  case None
  assume "split_key s = (k, r)"
  with None show ?thesis by (auto dest: split_key_None)
next
  case (Some key)
  assume "split_key s = (k, r)"
  with Some have "s = (key @ [colon]) @ r" by (auto dest: split_key_Some)
  with Some show ?thesis by blast
qed

lemma read_parts_suffix:
  assumes "read_parts rest = Some (neg, key, v, quo, r3)"
  shows "\<exists>p. rest = p @ r3 \<and> (p = [] \<longrightarrow> \<not> quo \<and> key = None \<and> v = [] \<and> \<not> neg)"
proof -
  obtain r1 where r1: "r1 = (if starts_with [hyphen] rest then tl rest else rest)" by blast
  obtain k r2 where sk: "split_key r1 = (k, r2)" by (cases "split_key r1")
  from assms sk r1 have key: "key = k" "neg = starts_with [hyphen] rest" "quo = starts_with [dquote] r2"
    and read: "(if quo then read_quoted (tl r2) else Some (read_bare r2)) = Some (v, r3)"
    by (auto simp: read_parts_def Let_def)
  from split_key_suffix[OF sk] obtain p1 where p1: "r1 = p1 @ r2" "p1 = [] \<longleftrightarrow> k = None" by auto
  have "rest = (if neg then [hyphen] else []) @ r1"
    unfolding key(2) r1 by (auto simp: starts_with_single)
  then obtain p0 where p0: "rest = p0 @ r1" "p0 = [] \<longleftrightarrow> \<not> neg" by fastforce
  have "\<exists>p2. r2 = p2 @ r3 \<and> (p2 = [] \<longrightarrow> \<not> quo \<and> v = [])"
  proof (cases quo)
    case True
    with read read_quoted_shorter obtain p where "tl r2 = p @ r3" "p \<noteq> []" by fastforce
    moreover from True key(3) obtain t where "r2 = dquote # t" by (auto simp: starts_with_single)
    ultimately show ?thesis by (intro exI[of _ "dquote # p"]) simp
  next
    case False
    with read show ?thesis by (auto dest: read_bare_append)
  qed
  then obtain p2 where p2: "r2 = p2 @ r3" "p2 = [] \<longrightarrow> \<not> quo \<and> v = []" by blast
  have "rest = (p0 @ p1 @ p2) @ r3" using p0(1) p1(1) p2(1) by simp
  moreover have "p0 @ p1 @ p2 = [] \<longrightarrow> \<not> quo \<and> key = None \<and> v = [] \<and> \<not> neg"
    using p0(2) p1(2) p2(2) key(1) by simp
  ultimately show ?thesis by blast
qed

lemma read_parts_progress:
  assumes "read_parts rest = Some (neg, key, v, quo, r3)" and "rest \<noteq> []"
  shows "length (skip_space r3) < length rest"
proof -
  from read_parts_suffix[OF assms(1)] obtain p where p: "rest = p @ r3"
    "p = [] \<longrightarrow> \<not> quo \<and> key = None \<and> v = [] \<and> \<not> neg" by blast
  show ?thesis
  proof (cases "p = []")
    case False
    with p(1) show ?thesis
      by (metis append_eq_append_conv2 length_append length_dropWhile_le skip_space_def
          add_less_same_cancel2 le_less_trans less_add_same_cancel2 length_greater_0_conv)
  next
    case True
    with p have r: "rest = r3" and "\<not> quo" "key = None" "v = []" "\<not> neg" by auto
    with assms(1) have "read_bare rest = ([], rest)"
      by (auto simp: read_parts_def Let_def split: prod.splits if_splits dest!: split_key_suffix)
    with assms(2) have "is_space (hd rest)" by (cases rest) (auto simp: read_bare_def split: if_splits)
    with assms(2) r show ?thesis
      by (cases rest) (auto simp: skip_space_def le_imp_less_Suc length_dropWhile_le)
  qed
qed

function tokenize_loop :: "nat \<Rightarrow> jstr \<Rightarrow> (query_error, raw_token list) result" where
  "tokenize_loop n rest =
     (if rest = [] then Inr []
      else (case read_token n rest of
              Inl e \<Rightarrow> Inl e
            | Inr (tok, r) \<Rightarrow>
                bind_result (tokenize_loop n (skip_space r))
                  (\<lambda>ts. Inr (case tok of None \<Rightarrow> ts | Some t \<Rightarrow> t # ts))))"
  by pat_completeness auto
termination
  by (relation "measure (\<lambda>(n, rest). length rest)")
    (auto simp: read_token_def split: option.splits prod.splits intro: read_parts_progress)

declare tokenize_loop.simps [simp del]

lemma tokenize_loop_Nil [simp]: "tokenize_loop n [] = Inr []"
  by (simp add: tokenize_loop.simps)

definition tokenize :: "jstr \<Rightarrow> (query_error, raw_token list) result" where
  "tokenize input = tokenize_loop (length input) (skip_space input)"

section \<open>Properties\<close>

text \<open>What one round contributes: the offsets of its token address the text it read.\<close>

definition token_fits :: "jstr \<Rightarrow> raw_token \<Rightarrow> bool" where
  "token_fits input t \<longleftrightarrow>
     tok_start t < tok_end t \<and> tok_end t \<le> length input \<and>
     raw t = take (tok_end t - tok_start t) (drop (tok_start t) input)"

lemma read_token_fits:
  assumes "read_token (length input) rest = Inr (tok, r)" and "input = pre @ rest"
  shows "\<exists>p. rest = p @ r \<and>
    (\<forall>t. tok = Some t \<longrightarrow> token_fits input t \<and> tok_start t = length pre \<and>
       tok_end t = length pre + length p)"
proof -
  from assms(1) obtain neg key v quo where rp: "read_parts rest = Some (neg, key, v, quo, r)"
    and tok: "tok = (if v \<noteq> [] \<or> quo \<or> key \<noteq> None
               then Some \<lparr>raw = take (length rest - length r) rest,
                          tok_start = length input - length rest, tok_end = length input - length r,
                          negated = neg, tok_key = key, tok_value = v, quoted = quo\<rparr>
               else None)"
    by (auto simp: read_token_def split: option.splits)
  from read_parts_suffix[OF rp] obtain p where p: "rest = p @ r"
    "p = [] \<longrightarrow> \<not> quo \<and> key = None \<and> v = [] \<and> \<not> neg" by blast
  have "p \<noteq> []" if "tok = Some t" for t
    using that p(2) by (auto simp: tok split: if_splits)
  with p(1) assms(2) have "tok = Some t \<longrightarrow> token_fits input t \<and> tok_start t = length pre \<and>
       tok_end t = length pre + length p" for t
    by (auto simp: tok token_fits_def split: if_splits)
  with p(1) show ?thesis by blast
qed

lemma tokenize_loop_fits:
  assumes "tokenize_loop (length input) rest = Inr ts" and "input = pre @ rest"
  shows "(\<forall>t \<in> set ts. token_fits input t \<and> length pre \<le> tok_start t) \<and>
    sorted_wrt (\<lambda>a b. tok_end a \<le> tok_start b) ts"
  using assms
proof (induction "length input" rest arbitrary: ts pre rule: tokenize_loop.induct)
  case (1 rest)
  show ?case
  proof (cases "rest = []")
    case True
    with "1.prems" show ?thesis by (simp add: tokenize_loop.simps[of _ rest])
  next
    case False
    from "1.prems"(1) False obtain tok r ts' where rt: "read_token (length input) rest = Inr (tok, r)"
      and rec: "tokenize_loop (length input) (skip_space r) = Inr ts'"
      and ts: "ts = (case tok of None \<Rightarrow> ts' | Some t \<Rightarrow> t # ts')"
      by (auto simp: tokenize_loop.simps[of _ rest] split: sum.splits)
    from read_token_fits[OF rt "1.prems"(2)] obtain p where p: "rest = p @ r"
      and tok: "\<And>t. tok = Some t \<Longrightarrow> token_fits input t \<and> tok_start t = length pre \<and>
        tok_end t = length pre + length p" by blast
    obtain q where q: "r = q @ skip_space r" by (metis skip_space_def takeWhile_dropWhile_id)
    have "input = (pre @ p @ q) @ skip_space r" using "1.prems"(2) p q by simp
    from "1.hyps"[OF False rt refl rec this]
    have IH: "(\<forall>t \<in> set ts'. token_fits input t \<and> length (pre @ p @ q) \<le> tok_start t) \<and>
       sorted_wrt (\<lambda>a b. tok_end a \<le> tok_start b) ts'" .
    show ?thesis
    proof (cases tok)
      case None
      with IH ts show ?thesis by auto
    next
      case (Some t)
      with IH tok ts show ?thesis by fastforce
    qed
  qed
qed

lemma skip_space_split: "\<exists>q. s = q @ skip_space s"
  by (metis skip_space_def takeWhile_dropWhile_id)

text \<open>Every token carries the place it was read from: its offsets are a non-empty range within the
  input, its raw text is the input between them, and tokens follow one another without
  overlap, so that an error message marks the text it is about.\<close>

theorem tokenize_offsets:
  assumes "tokenize input = Inr ts"
  shows "(\<forall>t \<in> set ts. tok_start t < tok_end t \<and> tok_end t \<le> length input \<and>
            raw t = take (tok_end t - tok_start t) (drop (tok_start t) input)) \<and>
    sorted_wrt (\<lambda>a b. tok_end a \<le> tok_start b) ts"
proof -
  obtain q where "input = q @ skip_space input" using skip_space_split by blast
  from tokenize_loop_fits[OF assms[unfolded tokenize_def] this] show ?thesis
    by (simp add: token_fits_def)
qed

theorem tokenize_offsets_witness:
  "\<exists>a b. tokenize (js ''is:open  x'') = Inr [a, b] \<and> tok_end a \<le> tok_start b \<and>
     raw b = take (tok_end b - tok_start b) (drop (tok_start b) (js ''is:open  x''))"
proof -
  let ?a = "\<lparr>raw = js ''is:open'', tok_start = 0, tok_end = 7, negated = False, tok_key = Some (js ''is''),
     tok_value = js ''open'', quoted = False\<rparr>"
  let ?b = "\<lparr>raw = js ''x'', tok_start = 9, tok_end = 10, negated = False, tok_key = None,
     tok_value = js ''x'', quoted = False\<rparr>"
  have "tokenize (js ''is:open  x'') = Inr [?a, ?b]" by code_simp
  from this tokenize_offsets[OF this] show ?thesis by (intro exI[of _ ?a] exI[of _ ?b]) simp
qed

lemma tokenize_loop_error:
  assumes "tokenize_loop (length input) rest = Inl e" and "input = pre @ rest"
  shows "offset_start e < length input \<and> err_token e = drop (offset_start e) input \<and>
    offset_end e = length input \<and> err_code e = Query_syntax_error"
  using assms
proof (induction "length input" rest arbitrary: pre rule: tokenize_loop.induct)
  case (1 rest)
  from "1.prems"(1) have ne: "rest \<noteq> []" by (auto simp: tokenize_loop.simps[of _ rest])
  show ?case
  proof (cases "read_token (length input) rest")
    case (Inl e')
    with "1.prems" ne show ?thesis
      by (auto simp: tokenize_loop.simps[of _ rest] read_token_def syntax_error_def split: option.splits)
  next
    case (Inr tr)
    then obtain tok r where rt: "read_token (length input) rest = Inr (tok, r)" by (cases tr) auto
    with "1.prems"(1) ne have rec: "tokenize_loop (length input) (skip_space r) = Inl e"
      by (auto simp: tokenize_loop.simps[of _ rest] bind_result_Inl_iff)
    from read_token_fits[OF rt "1.prems"(2)] obtain p where p: "rest = p @ r" by blast
    obtain q where "r = q @ skip_space r" using skip_space_split by blast
    with p "1.prems"(2) have "input = (pre @ p @ q) @ skip_space r" by simp
    from "1.hyps"[OF ne rt refl rec this] show ?thesis .
  qed
qed

end
