(* ===== verification/JS_Date.thy ===== *)
theory JS_Date
  imports PRS_Prelude
begin

text \<open>
  The date arithmetic of the language, as ECMA-262 defines it over the proleptic Gregorian
  calendar: day numbers from civil dates (\<open>make_day\<close>), civil dates from day numbers
  (\<open>civil_from_day\<close>, what \<open>getUTCFullYear\<close>, \<open>getUTCMonth\<close> and \<open>getUTCDate\<close> read), and
  \<open>Date.UTC\<close> with its reading of the years 0 to 99. The two directions are inverse on the
  dates that exist; the components use that to show which dates their checks accept.
\<close>

definition day_ms :: int where
  "day_ms = 86400000"

definition is_leap :: "int \<Rightarrow> bool" where
  "is_leap y \<longleftrightarrow> y mod 4 = 0 \<and> (y mod 100 \<noteq> 0 \<or> y mod 400 = 0)"

definition days_in_year :: "int \<Rightarrow> int" where
  "days_in_year y = (if is_leap y then 366 else 365)"

text \<open>\<open>DayFromYear\<close>: the day number of 1 January of a year.\<close>

definition day_from_year :: "int \<Rightarrow> int" where
  "day_from_year y = 365 * (y - 1970) + (y - 1969) div 4 - (y - 1901) div 100 + (y - 1601) div 400"

lemma div_add_one:
  fixes x k :: int
  assumes "0 < k"
  shows "(x + 1) div k = x div k + (if k dvd x + 1 then 1 else 0)"
proof (cases "k dvd x + 1")
  case True
  then obtain q where "x + 1 = k * q" by (auto simp: dvd_def)
  then have x: "x = (k - 1) + k * (q - 1)" by (simp add: algebra_simps)
  have "x div k = q - 1" using assms by (subst x) (simp add: div_pos_pos_trivial)
  moreover have "(x + 1) div k = q" using \<open>x + 1 = k * q\<close> assms by simp
  ultimately show ?thesis using True by simp
next
  case False
  have "x + 1 = (x mod k + 1) + k * (x div k)" by simp
  moreover have "x mod k + 1 < k"
  proof (rule ccontr)
    assume "\<not> x mod k + 1 < k"
    with pos_mod_bound[OF assms, of x] have "x mod k = k - 1" by simp
    with \<open>x + 1 = (x mod k + 1) + k * (x div k)\<close> have "x + 1 = k * (x div k + 1)"
      by (simp add: algebra_simps)
    with False show False by (metis dvd_triv_left)
  qed
  ultimately have "(x + 1) div k = x div k"
    using pos_mod_sign[OF assms, of x] assms
    by (metis add.commute div_mult_self4 div_pos_pos_trivial add_0 add_nonneg_nonneg less_irrefl zero_le_one)
  with False show ?thesis by simp
qed

lemma dvd_diff_cancel: "k dvd c \<Longrightarrow> k dvd (y - c) \<longleftrightarrow> k dvd (y :: int)"
  using dvd_add_left_iff[of k c "y - c"] by simp

lemma leap_split:
  "(B \<longrightarrow> A) \<Longrightarrow> (C \<longrightarrow> B) \<Longrightarrow> (if A \<and> (\<not> B \<or> C) then 366 else 365) =
     365 + (if A then 1 else 0) - (if B then 1 else 0) + (if C then 1 else (0::int))"
  by (cases A; cases B; cases C; simp)

lemma day_from_year_Suc: "day_from_year (y + 1) = day_from_year y + days_in_year y"
proof -
  have a: "(y + 1 - 1969) div 4 = (y - 1969) div 4 + (if y mod 4 = 0 then 1 else 0)"
    using div_add_one[of 4 "y - 1969"] dvd_diff_cancel[of 4 1968 y] by (simp add: mod_eq_0_iff_dvd)
  have b: "(y + 1 - 1901) div 100 = (y - 1901) div 100 + (if y mod 100 = 0 then 1 else 0)"
    using div_add_one[of 100 "y - 1901"] dvd_diff_cancel[of 100 1900 y] by (simp add: mod_eq_0_iff_dvd)
  have c: "(y + 1 - 1601) div 400 = (y - 1601) div 400 + (if y mod 400 = 0 then 1 else 0)"
    using div_add_one[of 400 "y - 1601"] dvd_diff_cancel[of 400 1600 y] by (simp add: mod_eq_0_iff_dvd)
  have "y mod 100 = 0 \<longrightarrow> y mod 4 = 0" "y mod 400 = 0 \<longrightarrow> y mod 100 = 0"
    using dvd_trans[of 4 100 y] dvd_trans[of 100 400 y] by (simp_all add: mod_eq_0_iff_dvd)
  then have leap: "days_in_year y = 365 + (if y mod 4 = 0 then 1 else 0)
      - (if y mod 100 = 0 then 1 else 0) + (if y mod 400 = 0 then 1 else 0)"
    unfolding days_in_year_def is_leap_def by (rule leap_split)
  have "365 * (y + 1 - 1970) = 365 * (y - 1970) + (365 :: int)" by simp
  then show ?thesis unfolding day_from_year_def leap a b c by linarith
qed

lemma days_in_year_bounds: "365 \<le> days_in_year y" "days_in_year y \<le> 366"
  by (auto simp: days_in_year_def)

lemma day_from_year_less: "a < b \<Longrightarrow> day_from_year a + days_in_year a \<le> day_from_year b"
proof (induction "nat (b - a)" arbitrary: b)
  case 0
  then show ?case by simp
next
  case (Suc n)
  show ?case
  proof (cases "b = a + 1")
    case True
    then show ?thesis by (simp add: day_from_year_Suc)
  next
    case False
    with Suc have "day_from_year a + days_in_year a \<le> day_from_year (b - 1)" by simp
    moreover have "day_from_year b = day_from_year (b - 1) + days_in_year (b - 1)"
      using day_from_year_Suc[of "b - 1"] by simp
    ultimately show ?thesis using days_in_year_bounds(1)[of "b - 1"] by simp
  qed
qed

lemma day_from_year_unique:
  assumes "day_from_year y \<le> d" "d < day_from_year y + days_in_year y"
    and "day_from_year z \<le> d" "d < day_from_year z + days_in_year z"
  shows "y = z"
proof (rule ccontr)
  assume "y \<noteq> z"
  then consider "y < z" | "z < y" by linarith
  then show False using assms by cases (use day_from_year_less[of y z] day_from_year_less[of z y] in linarith)+
qed

text \<open>\<open>YearFromTime\<close>: the year a day number lies in, by search from below.\<close>

function year_search :: "int \<Rightarrow> int \<Rightarrow> int" where
  "year_search y d = (if day_from_year (y + 1) \<le> d then year_search (y + 1) d else y)"
  by pat_completeness auto
termination
proof (relation "measure (\<lambda>(y, d). nat (d - day_from_year y))")
  show "wf (measure (\<lambda>(y, d). nat (d - day_from_year y)))" by simp
next
  fix y d :: int
  assume "day_from_year (y + 1) \<le> d"
  then show "((y + 1, d), y, d) \<in> measure (\<lambda>(y, d). nat (d - day_from_year y))"
    using days_in_year_bounds(1)[of y] by (simp add: day_from_year_Suc)
qed

declare year_search.simps [simp del]

definition year_from_day :: "int \<Rightarrow> int" where
  "year_from_day d = year_search (1970 + (if d < 0 then d div 365 else d div 366)) d"

lemma year_search_sound:
  "day_from_year y \<le> d \<Longrightarrow>
   day_from_year (year_search y d) \<le> d \<and> d < day_from_year (year_search y d) + days_in_year (year_search y d)"
proof (induction y d rule: year_search.induct)
  case (1 y d)
  show ?case
  proof (cases "day_from_year (y + 1) \<le> d")
    case True
    with "1.IH" show ?thesis by (simp add: year_search.simps[of y d])
  next
    case False
    with "1.prems" show ?thesis by (simp add: year_search.simps[of y d] day_from_year_Suc)
  qed
qed

lemma day_from_year_1970: "day_from_year 1970 = 0"
  by (simp add: day_from_year_def)

lemma day_from_year_upper: "0 \<le> n \<Longrightarrow> day_from_year (1970 + n) \<le> 366 * n"
proof (induction n rule: int_ge_induct)
  case base
  then show ?case by (simp add: day_from_year_1970)
next
  case (step n)
  with day_from_year_Suc[of "1970 + n"] days_in_year_bounds(2)[of "1970 + n"]
  show ?case by (simp add: algebra_simps)
qed

lemma day_from_year_lower: "n \<le> 0 \<Longrightarrow> day_from_year (1970 + n) \<le> 365 * n"
proof (induction n rule: int_le_induct)
  case base
  then show ?case by (simp add: day_from_year_1970)
next
  case (step n)
  with day_from_year_Suc[of "1970 + (n - 1)"] days_in_year_bounds(1)[of "1970 + (n - 1)"]
  show ?case by (simp add: algebra_simps)
qed

lemma year_from_day_sound:
  "day_from_year (year_from_day d) \<le> d \<and> d < day_from_year (year_from_day d) + days_in_year (year_from_day d)"
proof -
  have "day_from_year (1970 + (if d < 0 then d div 365 else d div 366)) \<le> d"
  proof (cases "d < 0")
    case True
    then have "d div 365 < 0" by (simp add: pos_imp_zdiv_neg_iff)
    moreover have "365 * (d div 365) \<le> d" using pos_mod_sign[of 365 d] by (simp add: minus_mod_eq_mult_div[symmetric])
    ultimately show ?thesis using day_from_year_lower[of "d div 365"] True by simp
  next
    case False
    then have "0 \<le> d div 366" by (simp add: pos_imp_zdiv_nonneg_iff)
    moreover have "366 * (d div 366) \<le> d" using pos_mod_sign[of 366 d] by (simp add: minus_mod_eq_mult_div[symmetric])
    ultimately show ?thesis using day_from_year_upper[of "d div 366"] False by simp
  qed
  then show ?thesis unfolding year_from_day_def by (rule year_search_sound)
qed

lemma year_from_day_eq:
  assumes "0 \<le> k" "k < days_in_year y"
  shows "year_from_day (day_from_year y + k) = y"
  using year_from_day_sound[of "day_from_year y + k"] assms
  by (intro day_from_year_unique[of _ "day_from_year y + k"]) auto

subsection \<open>Months\<close>

definition month_lengths :: "int \<Rightarrow> int list" where
  "month_lengths y = [31, if is_leap y then 29 else 28, 31, 30, 31, 30, 31, 31, 30, 31, 30, 31]"

definition days_in_month :: "int \<Rightarrow> int \<Rightarrow> int" where
  "days_in_month y m = month_lengths y ! nat (m - 1)"

fun walk_months :: "int list \<Rightarrow> int \<Rightarrow> int \<times> int" where
  "walk_months [] k = (1, k + 1)"
| "walk_months (l # ls) k =
     (if k < l then (1, k + 1) else (case walk_months ls (k - l) of (m, d) \<Rightarrow> (m + 1, d)))"

lemma walk_months_eq:
  "m < length ls \<Longrightarrow> 0 \<le> k \<Longrightarrow> k < ls ! m \<Longrightarrow> \<forall>l \<in> set ls. 0 < l \<Longrightarrow>
   walk_months ls (sum_list (take m ls) + k) = (int m + 1, k + 1)"
proof (induction m arbitrary: ls)
  case 0
  then show ?case by (cases ls) auto
next
  case (Suc m)
  then obtain l ls' where ls: "ls = l # ls'" by (cases ls) auto
  with Suc.prems have "0 \<le> sum_list (take m ls')"
    by (auto intro!: sum_list_nonneg dest: in_set_takeD less_imp_le)
  with Suc.IH[of ls'] Suc.prems ls show ?case by (simp add: algebra_simps)
qed

lemma walk_months_bounds:
  "0 \<le> k \<Longrightarrow> k < sum_list ls \<Longrightarrow> walk_months ls k = (m, d) \<Longrightarrow>
   1 \<le> m \<and> m \<le> int (length ls) \<and> 1 \<le> d \<and> d \<le> ls ! nat (m - 1) \<and>
   sum_list (take (nat (m - 1)) ls) + d - 1 = k"
proof (induction ls k arbitrary: m d rule: walk_months.induct)
  case (1 k)
  then show ?case by simp
next
  case (2 l ls k)
  show ?case
  proof (cases "k < l")
    case True
    with 2 show ?thesis by auto
  next
    case False
    obtain m' d' where w: "walk_months ls (k - l) = (m', d')" by (cases "walk_months ls (k - l)")
    with False 2 have IH: "1 \<le> m' \<and> m' \<le> int (length ls) \<and> 1 \<le> d' \<and> d' \<le> ls ! nat (m' - 1) \<and>
       sum_list (take (nat (m' - 1)) ls) + d' - 1 = k - l" by simp
    from w False "2.prems" have m: "m = m' + 1" "d = d'" by auto
    from IH have "nat m' = Suc (nat (m' - 1))" by linarith
    with m IH show ?thesis by simp
  qed
qed

lemma sum_month_lengths [simp]: "sum_list (month_lengths y) = days_in_year y"
  by (simp add: month_lengths_def days_in_year_def)

lemma length_month_lengths [simp]: "length (month_lengths y) = 12"
  by (simp add: month_lengths_def)

lemma month_lengths_pos: "\<forall>l \<in> set (month_lengths y). 0 < l"
  by (simp add: month_lengths_def)

subsection \<open>Day numbers and civil dates\<close>

text \<open>\<open>MakeDay\<close>: the month counts from 0 and may lie outside 0 to 11.\<close>

definition make_day :: "int \<Rightarrow> int \<Rightarrow> int \<Rightarrow> int" where
  "make_day y mon dt =
     (let ym = y + mon div 12; mn = nat (mon mod 12)
      in day_from_year ym + sum_list (take mn (month_lengths ym)) + dt - 1)"

definition civil_from_day :: "int \<Rightarrow> int \<times> int \<times> int" where
  "civil_from_day n =
     (let y = year_from_day n; md = walk_months (month_lengths y) (n - day_from_year y)
      in (y, fst md, snd md))"

definition valid_date :: "int \<Rightarrow> int \<Rightarrow> int \<Rightarrow> bool" where
  "valid_date y m d \<longleftrightarrow> 1 \<le> m \<and> m \<le> 12 \<and> 1 \<le> d \<and> d \<le> days_in_month y m"

lemma days_in_month_bounds: "1 \<le> m \<Longrightarrow> m \<le> 12 \<Longrightarrow> 28 \<le> days_in_month y m \<and> days_in_month y m \<le> 31"
proof -
  assume "1 \<le> m" "m \<le> 12"
  then have "nat (m - 1) \<in> {0..<12}" by auto
  then show ?thesis
    by (auto simp: days_in_month_def month_lengths_def atLeastLessThan_nat_numeral nth_Cons' numeral_eq_Suc
        elim!: less_SucE)
qed

lemma take_month_bound:
  "m < 12 \<Longrightarrow> sum_list (take m (month_lengths y)) + month_lengths y ! m \<le> days_in_year y"
proof -
  assume m: "m < 12"
  have "sum_list (take (Suc m) (month_lengths y)) \<le> sum_list (month_lengths y)"
    by (metis append_take_drop_id sum_list_append le_add_same_cancel1 sum_list_nonneg
        in_set_dropD less_imp_le month_lengths_pos)
  with m show ?thesis by (simp add: take_Suc_conv_app_nth)
qed

theorem civil_from_make_day:
  assumes "valid_date y m d"
  shows "civil_from_day (make_day y (m - 1) d) = (y, m, d)"
proof -
  let ?i = "nat (m - 1)"
  from assms have m: "?i < 12" "1 \<le> m" "m \<le> 12" and d: "1 \<le> d" "d \<le> month_lengths y ! ?i"
    by (auto simp: valid_date_def days_in_month_def)
  let ?k = "sum_list (take ?i (month_lengths y)) + (d - 1)"
  have md: "make_day y (m - 1) d = day_from_year y + ?k"
    using m by (simp add: make_day_def Let_def div_pos_pos_trivial)
  have "0 \<le> sum_list (take ?i (month_lengths y))"
    using month_lengths_pos by (auto intro!: sum_list_nonneg dest: in_set_takeD less_imp_le)
  with d take_month_bound[OF m(1), of y] have k: "0 \<le> ?k" "?k < days_in_year y" by auto
  have y: "year_from_day (day_from_year y + ?k) = y" using k by (rule year_from_day_eq)
  have "walk_months (month_lengths y) ?k = (int ?i + 1, d - 1 + 1)"
    using m d month_lengths_pos by (intro walk_months_eq) auto
  with md y m show ?thesis by (simp add: civil_from_day_def Let_def)
qed

theorem make_day_from_civil:
  assumes "civil_from_day n = (y, m, d)"
  shows "valid_date y m d \<and> make_day y (m - 1) d = n"
proof -
  let ?y = "year_from_day n"
  obtain m' d' where w: "walk_months (month_lengths ?y) (n - day_from_year ?y) = (m', d')"
    by (cases "walk_months (month_lengths ?y) (n - day_from_year ?y)")
  with assms have e: "y = ?y" "m = m'" "d = d'" by (auto simp: civil_from_day_def Let_def)
  from walk_months_bounds[OF _ _ w] year_from_day_sound[of n]
  have b: "1 \<le> m' \<and> m' \<le> 12 \<and> 1 \<le> d' \<and> d' \<le> month_lengths ?y ! nat (m' - 1) \<and>
    sum_list (take (nat (m' - 1)) (month_lengths ?y)) + d' - 1 = n - day_from_year ?y"
    by simp
  then have "(m' - 1) div 12 = 0" "(m' - 1) mod 12 = m' - 1" by (auto simp: div_pos_pos_trivial)
  with b e show ?thesis by (simp add: valid_date_def days_in_month_def make_day_def Let_def)
qed

lemma civil_round_trip_iff:
  "civil_from_day (make_day y (m - 1) d) = (y, m, d) \<longleftrightarrow> valid_date y m d"
  using civil_from_make_day make_day_from_civil by blast

text \<open>\<open>Date.UTC(y, mon, d)\<close> in days: a year from 0 to 99 means 1900 to 1999.\<close>

definition utc_year :: "int \<Rightarrow> int" where
  "utc_year y = (if 0 \<le> y \<and> y \<le> 99 then 1900 + y else y)"

end
