(* ===== verification/Query_Calendar.thy ===== *)
theory Query_Calendar
  imports JS_Date
begin

text \<open>
  Calendar dates and time zones (\<open>packages/query/src/calendar.ts\<close>). What the runtime's
  \<open>Intl\<close> knows of a zone is a parameter: \<open>fmt zone\<close> is \<open>None\<close> for an unknown zone (the code
  gets a \<open>RangeError\<close>) and otherwise gives the year, month, day, hour, minute and second that
  the formatter prints for an instant; \<open>resolve\<close> is the canonical spelling of a zone name.
  Thrown \<open>RangeError\<close>s are \<open>None\<close>.
\<close>

section \<open>Dates as text\<close>

text \<open>\<open>pad\<close>: \<open>String(value).padStart(width, '0')\<close>.\<close>

definition pad :: "nat \<Rightarrow> int \<Rightarrow> jstr" where
  "pad width value =
     replicate (width - length (show_int value)) (ch CHR ''0'') @ show_int value"

text \<open>
  \<open>^(\d{4})-(\d{2})-(\d{2})$\<close>: digits hold no hyphen, so the groups are the parts between
  the hyphens.
\<close>

definition date_groups :: "jstr \<Rightarrow> (jstr \<times> jstr \<times> jstr) option" where
  "date_groups s =
     (case split_on (ch CHR ''-'') s of
        [a, b, c] \<Rightarrow>
          if digits_of_length 4 a \<and> digits_of_length 2 b \<and> digits_of_length 2 c then Some (a, b, c)
          else None
      | _ \<Rightarrow> None)"

definition DATE_ONLY :: "jstr \<Rightarrow> bool" where
  "DATE_ONLY s \<longleftrightarrow> date_groups s \<noteq> None"

definition split_date :: "jstr \<Rightarrow> (int \<times> int \<times> int) option" where
  "split_date value =
     map_option (\<lambda>(a, b, c). (int (dec_value a), int (dec_value b), int (dec_value c)))
       (date_groups value)"

definition make_time :: "int \<Rightarrow> int \<Rightarrow> int \<Rightarrow> int \<Rightarrow> int" where
  "make_time h mi s ms = h * 3600000 + mi * 60000 + s * 1000 + ms"

text \<open>
  \<open>utcWall\<close>: the time of day is set on a day of the year 2000, then the day is replaced, which
  keeps the time within its day.
\<close>

definition utc_wall :: "int \<Rightarrow> int \<Rightarrow> int \<Rightarrow> int \<Rightarrow> int \<Rightarrow> int \<Rightarrow> int \<Rightarrow> int" where
  "utc_wall year month day hour minute second ms =
     (let at = make_day 2000 (month - 1) day * day_ms + make_time hour minute second ms
      in make_day year (month - 1) day * day_ms + at mod day_ms)"

definition day_of_ms :: "int \<Rightarrow> int" where
  "day_of_ms t = t div day_ms"

definition is_calendar_date :: "jstr \<Rightarrow> bool" where
  "is_calendar_date value =
     (case split_date value of
        None \<Rightarrow> False
      | Some (year, month, day) \<Rightarrow>
          \<not> (year < 1 \<or> month < 1 \<or> month > 12 \<or> day < 1) \<and>
          civil_from_day (day_of_ms (utc_wall year month day 0 0 0 0)) = (year, month, day))"

definition require_date :: "jstr \<Rightarrow> (int \<times> int \<times> int) option" where
  "require_date value =
     (case split_date value of
        None \<Rightarrow> None
      | Some parts \<Rightarrow> if is_calendar_date value then Some parts else None)"

definition date_text :: "int \<times> int \<times> int \<Rightarrow> jstr" where
  "date_text ymd =
     (case ymd of (y, m, d) \<Rightarrow> join_with [ch CHR ''-''] [pad 4 y, pad 2 m, pad 2 d])"

definition add_days :: "jstr \<Rightarrow> int \<Rightarrow> jstr option" where
  "add_days date days =
     (case require_date date of
        None \<Rightarrow> None
      | Some (year, month, day) \<Rightarrow>
          let at = utc_wall year month day 0 0 0 0 + days * day_ms
          in Some (date_text (civil_from_day (day_of_ms at))))"

definition end_of_month :: "jstr \<Rightarrow> jstr option" where
  "end_of_month date =
     (case require_date date of
        None \<Rightarrow> None
      | Some (year, month, _) \<Rightarrow>
          let next_month = (if month = 12 then date_text (year + 1, 1, 1)
                            else date_text (year, month + 1, 1))
          in add_days next_month (- 1))"

section \<open>Zones\<close>

definition zone_unit :: "unit16 \<Rightarrow> bool" where
  "zone_unit c \<longleftrightarrow> is_letter c \<or> is_digit c \<or> c = ch CHR ''_'' \<or> c = ch CHR ''+'' \<or> c = ch CHR ''-''"

text \<open>\<open>ZONE_NAME\<close>: segments separated by slashes, the first starting with a letter.\<close>

definition ZONE_NAME :: "jstr \<Rightarrow> bool" where
  "ZONE_NAME name =
     (case name of
        [] \<Rightarrow> False
      | c # _ \<Rightarrow> is_letter c \<and>
          list_all (\<lambda>seg. seg \<noteq> [] \<and> list_all zone_unit seg) (split_on (ch CHR ''/'') name))"

definition canonical_time_zone :: "(jstr \<Rightarrow> jstr option) \<Rightarrow> jstr \<Rightarrow> jstr option" where
  "canonical_time_zone resolve name = (if ZONE_NAME name then resolve name else None)"

record zoned_parts =
  zp_year :: int
  zp_month :: int
  zp_day :: int
  zp_hour :: int
  zp_minute :: int
  zp_second :: int
  zp_millisecond :: int

type_synonym formatter = "int \<Rightarrow> int \<times> int \<times> int \<times> int \<times> int \<times> int"

definition zoned_parts_of :: "formatter \<Rightarrow> int \<Rightarrow> zoned_parts" where
  "zoned_parts_of f epoch =
     (case f epoch of (y, mo, d, h, mi, s) \<Rightarrow>
        \<lparr>zp_year = y, zp_month = mo, zp_day = d, zp_hour = h mod 24, zp_minute = mi,
         zp_second = s, zp_millisecond = epoch mod 1000\<rparr>)"

definition wall_clock :: "formatter \<Rightarrow> int \<Rightarrow> int" where
  "wall_clock f epoch =
     (let p = zoned_parts_of f epoch
      in utc_wall (zp_year p) (zp_month p) (zp_day p) (zp_hour p) (zp_minute p) (zp_second p)
           (zp_millisecond p))"

definition zoned_date :: "formatter \<Rightarrow> int \<Rightarrow> jstr" where
  "zoned_date f epoch =
     (let p = zoned_parts_of f epoch in date_text (zp_year p, zp_month p, zp_day p))"

definition SEARCH_WINDOW_MS :: int where
  "SEARCH_WINDOW_MS = 26 * 3600000"

text \<open>The bisection of \<open>startOfZonedDay\<close>: the loop narrows \<open>(before, after]\<close> to one instant.\<close>

function bisect_day :: "(int \<Rightarrow> int) \<Rightarrow> int \<Rightarrow> int \<Rightarrow> int \<Rightarrow> int" where
  "bisect_day wall midnight before after =
     (if after - before > 1 then
        (let middle = (before + after) div 2
         in if wall middle \<ge> midnight then bisect_day wall midnight before middle
            else bisect_day wall midnight middle after)
      else after)"
  by pat_completeness auto
termination
  by (relation "measure (\<lambda>(w, m, before, after). nat (after - before))") auto

declare bisect_day.simps [simp del]

text \<open>
  The candidates are kept in a list; the code's \<open>Set\<close> only drops repetitions, which do not
  change the least element that passes the filter.
\<close>

definition start_candidates :: "(int \<Rightarrow> int) \<Rightarrow> int \<Rightarrow> int list" where
  "start_candidates wall midnight =
     map (\<lambda>probe. midnight - (wall probe - probe)) [midnight - day_ms, midnight, midnight + day_ms]"

definition start_of_zoned_day :: "(jstr \<Rightarrow> formatter option) \<Rightarrow> jstr \<Rightarrow> jstr \<Rightarrow> int option" where
  "start_of_zoned_day fmt date zone =
     (case require_date date of
        None \<Rightarrow> None
      | Some (year, month, day) \<Rightarrow>
          (case fmt zone of
             None \<Rightarrow> None
           | Some f \<Rightarrow>
               let midnight = utc_wall year month day 0 0 0 0;
                   exact = filter (\<lambda>at. wall_clock f at = midnight)
                             (start_candidates (wall_clock f) midnight)
               in case sort exact of
                    earliest # _ \<Rightarrow> Some earliest
                  | [] \<Rightarrow> Some (bisect_day (wall_clock f) midnight
                            (midnight - SEARCH_WINDOW_MS) (midnight + SEARCH_WINDOW_MS))))"

text \<open>The half-open range of instants; the code prints both ends with \<open>toISOString\<close>.\<close>

definition calendar_range_to_utc ::
    "(jstr \<Rightarrow> formatter option) \<Rightarrow> jstr \<Rightarrow> jstr \<Rightarrow> jstr \<Rightarrow> (int \<times> int) option" where
  "calendar_range_to_utc fmt from_date to_date zone =
     (case start_of_zoned_day fmt from_date zone of
        None \<Rightarrow> None
      | Some gte \<Rightarrow>
          (case add_days to_date 1 of
             None \<Rightarrow> None
           | Some next_day \<Rightarrow>
               (case start_of_zoned_day fmt next_day zone of
                  None \<Rightarrow> None
                | Some lt \<Rightarrow> Some (gte, lt))))"

section \<open>Properties of dates\<close>

lemma pad_eq_pad_nat: "0 \<le> v \<Longrightarrow> pad w v = pad_nat w (nat v)"
  by (simp add: pad_def pad_nat_def show_int_def)

definition date_fields :: "int \<times> int \<times> int \<Rightarrow> bool" where
  "date_fields ymd = (case ymd of (y, m, d) \<Rightarrow>
     0 \<le> y \<and> y \<le> 9999 \<and> 0 \<le> m \<and> m \<le> 99 \<and> 0 \<le> d \<and> d \<le> 99)"

lemma split_on_date_text:
  assumes "0 \<le> y" "0 \<le> m" "0 \<le> d"
  shows "split_on (ch CHR ''-'') (date_text (y, m, d)) =
    [pad_nat 4 (nat y), pad_nat 2 (nat m), pad_nat 2 (nat d)]"
  unfolding date_text_def prod.case using assms
  by (subst split_on_join) (auto simp: pad_eq_pad_nat digits_no_hyphen)

lemma split_date_text:
  assumes "date_fields ymd"
  shows "split_date (date_text ymd) = Some ymd"
proof -
  obtain y m d where ymd: "ymd = (y, m, d)" by (cases ymd)
  with assms have n: "0 \<le> y" "0 \<le> m" "0 \<le> d" "nat y < 10 ^ 4" "nat m < 10 ^ 2" "nat d < 10 ^ 2"
    by (auto simp: date_fields_def)
  then have "digits_of_length 4 (pad_nat 4 (nat y))" "digits_of_length 2 (pad_nat 2 (nat m))"
    "digits_of_length 2 (pad_nat 2 (nat d))" by (simp_all add: digits_pad_nat)
  with n ymd show ?thesis by (simp add: split_date_def date_groups_def split_on_date_text)
qed

lemma split_date_text_range:
  assumes "split_date (date_text (y, m, d)) \<noteq> None" and "0 \<le> m" "0 \<le> d"
  shows "0 \<le> y \<and> y \<le> 9999"
proof (cases "y < 0")
  case True
  have "ch CHR ''-'' \<in> set (pad 4 y)" using True by (simp add: pad_def show_int_def)
  then have "0 < count_list (pad 4 y) (ch CHR ''-'')" using count_list_0_iff[of "pad 4 y"] by auto
  then have "4 \<le> length (split_on (ch CHR ''-'') (date_text (y, m, d)))"
    by (simp add: length_split_on date_text_def)
  with assms(1) show ?thesis
    by (auto simp: split_date_def date_groups_def split: list.splits)
next
  case False
  then have "split_on (ch CHR ''-'') (date_text (y, m, d)) =
    [pad_nat 4 (nat y), pad_nat 2 (nat m), pad_nat 2 (nat d)]" using assms by (simp add: split_on_date_text)
  with assms(1) have "length (pad_nat 4 (nat y)) = 4"
    by (auto simp: split_date_def date_groups_def digits_of_length_def split: if_splits)
  then have "length (show_nat (nat y)) \<le> 4" by (simp add: pad_nat_def)
  then have "nat y < 10 ^ 4" using length_show_nat_lower[of 4 "nat y"] by linarith
  with False show ?thesis by simp
qed

lemma split_date_SomeD:
  assumes "split_date s = Some ymd"
  shows "date_fields ymd \<and> date_text ymd = s"
proof -
  from assms obtain a b c where sp: "split_on (ch CHR ''-'') s = [a, b, c]"
    and l: "digits_of_length 4 a" "digits_of_length 2 b" "digits_of_length 2 c"
    and ymd: "ymd = (int (dec_value a), int (dec_value b), int (dec_value c))"
    by (auto simp: split_date_def date_groups_def split: list.splits if_splits)
  have s: "s = join_with [ch CHR ''-''] [a, b, c]" using join_split_on[of "ch CHR ''-''" s] sp by simp
  note v = digits_of_length_value[OF l(1)] digits_of_length_value[OF l(2)] digits_of_length_value[OF l(3)]
  have "dec_value a < 10000" "dec_value b < 100" "dec_value c < 100" using v by simp_all
  with v s show ?thesis
    by (simp add: ymd date_fields_def date_text_def pad_eq_pad_nat)
qed

interpretation date_codec: canonical_codec date_text split_date date_fields
  by unfold_locales (auto simp: split_date_text dest: split_date_SomeD)

lemma utc_wall_midnight: "utc_wall y m d 0 0 0 0 = make_day y (m - 1) d * day_ms"
  by (simp add: utc_wall_def make_time_def Let_def)

lemma day_of_midnight [simp]: "day_of_ms (k * day_ms) = k"
  by (simp add: day_of_ms_def day_ms_def)

lemma day_of_shifted [simp]: "day_of_ms (k * day_ms + n * day_ms) = k + n"
  by (simp only: day_of_ms_def distrib_right[symmetric]) (simp add: day_ms_def)

lemma is_calendar_date_iff:
  "is_calendar_date s \<longleftrightarrow> (\<exists>y m d. split_date s = Some (y, m, d) \<and> 1 \<le> y \<and> valid_date y m d)"
  by (auto simp: is_calendar_date_def utc_wall_midnight civil_round_trip_iff split: option.splits)
    (auto simp: valid_date_def)

lemma require_date_split: "require_date s = Some ymd \<longleftrightarrow> split_date s = Some ymd \<and> is_calendar_date s"
  by (auto simp: require_date_def split: option.splits)

lemma valid_date_fields: "valid_date y m d \<Longrightarrow> 0 \<le> y \<Longrightarrow> y \<le> 9999 \<Longrightarrow> date_fields (y, m, d)"
  using days_in_month_bounds[of m y] by (auto simp: valid_date_def date_fields_def)

lemma require_date_iff:
  "require_date s = Some (y, m, d) \<longleftrightarrow> s = date_text (y, m, d) \<and> 1 \<le> y \<and> y \<le> 9999 \<and> valid_date y m d"
proof -
  have "require_date s = Some (y, m, d) \<longleftrightarrow> split_date s = Some (y, m, d) \<and> 1 \<le> y \<and> valid_date y m d"
    unfolding require_date_split is_calendar_date_iff by auto
  also have "\<dots> \<longleftrightarrow> date_fields (y, m, d) \<and> s = date_text (y, m, d) \<and> 1 \<le> y \<and> valid_date y m d"
    unfolding date_codec.parse_Some_iff by blast
  also have "\<dots> \<longleftrightarrow> s = date_text (y, m, d) \<and> 1 \<le> y \<and> y \<le> 9999 \<and> valid_date y m d"
    using valid_date_fields[of y m d] by (auto simp: date_fields_def)
  finally show ?thesis .
qed

lemma add_days_eq:
  assumes "1 \<le> y" "y \<le> 9999" "valid_date y m d"
  shows "add_days (date_text (y, m, d)) n = Some (date_text (civil_from_day (make_day y (m - 1) d + n)))"
proof -
  have "require_date (date_text (y, m, d)) = Some (y, m, d)" using assms by (simp add: require_date_iff)
  then show ?thesis by (simp add: add_days_def utc_wall_midnight Let_def)
qed

text \<open>Adding days is undone by subtracting them.\<close>

theorem add_days_inverse:
  assumes "add_days date n = Some date'" and "is_calendar_date date'"
  shows "add_days date' (- n) = Some date"
proof -
  from assms(1) obtain y m d where r: "require_date date = Some (y, m, d)"
    by (auto simp: add_days_def split: option.splits)
  then have d: "date = date_text (y, m, d)" "1 \<le> y" "y \<le> 9999" "valid_date y m d"
    by (simp_all add: require_date_iff)
  let ?k = "make_day y (m - 1) d"
  obtain y' m' d' where c: "civil_from_day (?k + n) = (y', m', d')" by (cases "civil_from_day (?k + n)")
  from make_day_from_civil[OF c] have k: "valid_date y' m' d'" "make_day y' (m' - 1) d' = ?k + n" by auto
  from assms(1) add_days_eq[OF d(2-4), of n] d(1) c have date': "date' = date_text (y', m', d')" by simp
  from assms(2) have "split_date (date_text (y', m', d')) \<noteq> None"
    unfolding date' by (auto simp: is_calendar_date_iff)
  with k(1) have "0 \<le> y'" "y' \<le> 9999"
    using split_date_text_range[of y' m' d'] by (auto simp: valid_date_def)
  with k(1) have "split_date date' = Some (y', m', d')"
    unfolding date' by (intro split_date_text valid_date_fields)
  with assms(2) have "1 \<le> y'" by (auto simp: is_calendar_date_iff)
  from add_days_eq[OF this \<open>y' \<le> 9999\<close> k(1), of "- n"] k(2) d civil_from_make_day[OF d(4)] date'
  show ?thesis by simp
qed

text \<open>The end of the month of a date is the last day of that month, leap years included, for every
  date the code accepts, except in December 9999, where the following month is out of range
  and the code fails.\<close>

theorem end_of_month_last_day:
  assumes "1 \<le> y" "y \<le> 9999" "valid_date y m d"
  shows "end_of_month (date_text (y, m, d)) =
    (if y = 9999 \<and> m = 12 then None else Some (date_text (y, m, days_in_month y m)))"
proof -
  have r: "require_date (date_text (y, m, d)) = Some (y, m, d)" using assms by (simp add: require_date_iff)
  from assms have m: "1 \<le> m" "m \<le> 12" by (auto simp: valid_date_def)
  define k where "k = make_day y (m - 1) (days_in_month y m)"
  have last: "valid_date y m (days_in_month y m)"
    using m days_in_month_bounds[of m y] by (simp add: valid_date_def)
  then have c: "civil_from_day k = (y, m, days_in_month y m)"
    unfolding k_def by (rule civil_from_make_day)
  show ?thesis
  proof (cases "m = 12")
    case True
    have first: "valid_date (y + 1) 1 1" by (simp add: valid_date_def days_in_month_def month_lengths_def)
    have "make_day (y + 1) 0 1 - 1 = k"
      using day_from_year_Suc[of y] True sum_month_lengths[of y]
      by (simp add: k_def make_day_def days_in_month_def month_lengths_def is_leap_def Let_def eval_nat_numeral)
    moreover have "split_date (date_text (10000, 1, 1)) = None"
      by (rule ccontr) (use split_date_text_range[of 10000 1 1] in simp)
    ultimately show ?thesis
      using r True c add_days_eq[OF _ _ first, of "- 1"] assms
      by (auto simp: end_of_month_def add_days_def require_date_def split: option.splits)
  next
    case False
    with m have "valid_date y (m + 1) 1" using days_in_month_bounds[of "m + 1" y]
      by (simp add: valid_date_def)
    moreover have "make_day y (m + 1 - 1) 1 - 1 = k"
    proof -
      have "nat m = Suc (nat (m - 1))" "nat (m - 1) < 12" using m by auto
      then have "take (nat m) (month_lengths y) = take (nat (m - 1)) (month_lengths y) @ [days_in_month y m]"
        using m by (simp add: take_Suc_conv_app_nth days_in_month_def)
      with m False show ?thesis by (simp add: k_def make_day_def Let_def div_pos_pos_trivial)
    qed
    ultimately show ?thesis
      using r False c add_days_eq[of y "m + 1" 1 "- 1"] assms by (simp add: end_of_month_def)
  qed
qed

section \<open>Properties of the start of a day\<close>

lemma bisect_day_first:
  assumes "before < after" "wall before < midnight" "midnight \<le> wall after"
  shows "midnight \<le> wall (bisect_day wall midnight before after) \<and>
    wall (bisect_day wall midnight before after - 1) < midnight"
  using assms
proof (induction wall midnight before after rule: bisect_day.induct)
  case (1 wall midnight before after)
  let ?m = "(before + after) div 2"
  show ?case
  proof (cases "after - before > 1")
    case False
    with "1.prems" have "after - 1 = before" by simp
    with False "1.prems" show ?thesis by (simp add: bisect_day.simps[of wall midnight before after])
  next
    case True
    then have m: "before < ?m" "?m < after" by auto
    with True "1.IH"(1)[OF True refl] "1.IH"(2)[OF True refl] "1.prems" show ?thesis
      by (cases "wall ?m \<ge> midnight") (simp_all add: bisect_day.simps[of wall midnight before after] Let_def)
  qed
qed

lemma bisect_day_bounded: "before \<le> after \<Longrightarrow> bisect_day wall midnight before after \<le> after"
proof (induction wall midnight before after rule: bisect_day.induct)
  case (1 wall midnight before after)
  let ?m = "(before + after) div 2"
  show ?case
  proof (cases "after - before > 1")
    case True
    then have "before \<le> ?m" "?m \<le> after" by auto
    with True "1.IH"(1)[OF True refl] "1.IH"(2)[OF True refl] show ?thesis
      by (cases "wall ?m \<ge> midnight") (auto simp: bisect_day.simps[of wall midnight before after] Let_def)
  qed (simp add: bisect_day.simps[of wall midnight before after])
qed

text \<open>
  A clock whose offset is never more than a day and changes at most once within the search window
  around a midnight. The first candidate that shows midnight is the first instant of the day, and
  without one the bisection finds it.
\<close>

definition changes_once :: "(int \<Rightarrow> int) \<Rightarrow> int \<Rightarrow> int \<Rightarrow> int \<Rightarrow> int \<Rightarrow> bool" where
  "changes_once wall midnight T a b \<longleftrightarrow>
     (\<forall>t. \<bar>wall t - t\<bar> \<le> day_ms) \<and>
     (\<forall>t. \<bar>t - midnight\<bar> \<le> SEARCH_WINDOW_MS \<longrightarrow> wall t = t + (if t < T then a else b))"

lemma changes_onceD:
  assumes "changes_once wall midnight T a b"
  shows "\<bar>wall t - t\<bar> \<le> day_ms" "\<bar>t - midnight\<bar> \<le> SEARCH_WINDOW_MS \<Longrightarrow> wall t = t + (if t < T then a else b)"
    and "t < midnight - day_ms \<Longrightarrow> wall t < midnight"
proof -
  from assms have "\<bar>wall t - t\<bar> \<le> day_ms" for t by (simp add: changes_once_def)
  from this[of t] show "\<bar>wall t - t\<bar> \<le> day_ms" "t < midnight - day_ms \<Longrightarrow> wall t < midnight" by simp_all
  show "\<bar>t - midnight\<bar> \<le> SEARCH_WINDOW_MS \<Longrightarrow> wall t = t + (if t < T then a else b)"
    using assms by (simp add: changes_once_def)
qed

lemma window: "day_ms = 86400000" "SEARCH_WINDOW_MS = 93600000"
  by (simp_all add: day_ms_def SEARCH_WINDOW_MS_def)

lemma changes_once_offsets:
  assumes "changes_once wall midnight T a b" "midnight - day_ms < T" "T \<le> midnight + day_ms"
  shows "\<bar>a\<bar> \<le> day_ms" "\<bar>b\<bar> \<le> day_ms"
    and "midnight - a \<in> set (start_candidates wall midnight)" "midnight - b \<in> set (start_candidates wall midnight)"
  using changes_onceD(1,2)[OF assms(1), of "midnight - day_ms"] changes_onceD(1,2)[OF assms(1), of "midnight + day_ms"] assms(2,3)
  by (auto simp: window start_candidates_def split: if_splits)

lemma first_candidate:
  assumes "changes_once wall midnight T a b"
    and e: "e \<in> set (start_candidates wall midnight)" "wall e = midnight"
    and least: "\<And>x. x \<in> set (start_candidates wall midnight) \<Longrightarrow> wall x = midnight \<Longrightarrow> e \<le> x" and "t < e"
  shows "wall t < midnight"
proof (rule ccontr)
  note wall = changes_onceD[OF assms(1)]
  assume "\<not> wall t < midnight"
  then have late: "midnight \<le> wall t" by simp
  have e_bounds: "midnight - day_ms \<le> e" "e \<le> midnight + day_ms" using wall(1)[of e] e(2) by auto
  have t_bounds: "midnight - day_ms \<le> t" using wall(3)[of t] late by force
  have we: "e + (if e < T then a else b) = midnight" and wt: "wall t = t + (if t < T then a else b)"
    using wall(2)[of e] wall(2)[of t] e(2) e_bounds t_bounds assms(5) by (simp_all add: window)
  with late assms(5) have T: "t < T" "T \<le> e" "midnight - a \<le> t" by (auto split: if_splits)
  have range: "midnight - day_ms < T" "T \<le> midnight + day_ms" using T t_bounds e_bounds by simp_all
  have "midnight - a \<in> set (start_candidates wall midnight)" by (rule changes_once_offsets(3)[OF assms(1) range])
  moreover have "wall (midnight - a) = midnight"
    using wall(2)[of "midnight - a"] changes_once_offsets(1)[OF assms(1) range] T by (simp add: window)
  ultimately show False using least[of "midnight - a"] T assms(5) by simp
qed

lemma some_candidate_or_gap:
  assumes "changes_once wall midnight T a b" and "\<And>x. x \<in> set (start_candidates wall midnight) \<Longrightarrow> wall x \<noteq> midnight"
  shows "midnight - day_ms < T" "T \<le> midnight + day_ms" "T \<le> midnight - a" "midnight - b < T"
proof -
  note wall = changes_onceD[OF assms(1)]
  have same: False if "\<And>t. \<bar>t - midnight\<bar> \<le> day_ms \<Longrightarrow> wall t = t + c" for c
  proof -
    have "\<bar>c\<bar> \<le> day_ms" using that[of midnight] wall(1)[of midnight] by (simp add: window)
    then have "wall (midnight - c) = midnight" using that[of "midnight - c"] by simp
    moreover have "midnight - c \<in> set (start_candidates wall midnight)"
      using that[of midnight] by (simp add: start_candidates_def window)
    ultimately show False using assms(2) by blast
  qed
  have in_window: "wall t = t + (if t < T then a else b)" if "\<bar>t - midnight\<bar> \<le> day_ms" for t
    using that wall(2)[of t] by (simp add: window)
  have range: "midnight - day_ms < T \<and> T \<le> midnight + day_ms"
  proof (rule ccontr)
    assume "\<not> (midnight - day_ms < T \<and> T \<le> midnight + day_ms)"
    then consider "T \<le> midnight - day_ms" | "midnight + day_ms < T" by linarith
    then show False
    proof cases
      case 1
      then have "wall t = t + b" if "\<bar>t - midnight\<bar> \<le> day_ms" for t using in_window[OF that] that by auto
      with same[of b] show False by blast
    next
      case 2
      then have "wall t = t + a" if "\<bar>t - midnight\<bar> \<le> day_ms" for t using in_window[OF that] that by auto
      with same[of a] show False by blast
    qed
  qed
  then show "midnight - day_ms < T" "T \<le> midnight + day_ms" by simp_all
  note offsets = changes_once_offsets[OF assms(1) range[THEN conjunct1] range[THEN conjunct2]]
  show "T \<le> midnight - a" "midnight - b < T"
    using assms(2)[OF offsets(3)] assms(2)[OF offsets(4)] in_window[of "midnight - a"] in_window[of "midnight - b"] offsets(1,2)
    by (auto split: if_splits)
qed

text \<open>C29: The start of a calendar day in a time zone is the first instant of that day: for a zone
  whose offset from UTC is never more than a day and changes at most once within the 26 hours
  before and after midnight in UTC, the function returns an instant whose wall clock has
  reached midnight, and at every earlier instant the wall clock is before midnight. So a
  skipped midnight gives the first instant after the gap and a repeated one the first of both.
  Other changes of the offset, as in zones with daylight saving, do not matter.\<close>

theorem start_of_zoned_day_first:
  assumes "fmt zone = Some f" and "require_date date = Some (y, m, d)"
    and midnight: "midnight = make_day y (m - 1) d * day_ms"
    and bounded: "\<And>t. \<bar>wall_clock f t - t\<bar> \<le> day_ms"
    and wall: "\<And>t. \<bar>t - midnight\<bar> \<le> SEARCH_WINDOW_MS \<Longrightarrow> wall_clock f t = t + (if t < T then a else b)"
  shows "\<exists>r. start_of_zoned_day fmt date zone = Some r \<and> midnight \<le> wall_clock f r \<and>
    (\<forall>t < r. wall_clock f t < midnight)"
proof -
  define w where "w = wall_clock f"
  define exact where "exact = filter (\<lambda>at. w at = midnight) (start_candidates w midnight)"
  have once: "changes_once w midnight T a b" using bounded wall by (simp add: changes_once_def w_def)
  have eq: "start_of_zoned_day fmt date zone =
    (case sort exact of e # _ \<Rightarrow> Some e
     | [] \<Rightarrow> Some (bisect_day w midnight (midnight - SEARCH_WINDOW_MS) (midnight + SEARCH_WINDOW_MS)))"
    using assms(1,2) midnight
    by (simp add: start_of_zoned_day_def utc_wall_midnight exact_def w_def Let_def split: list.split)
  show ?thesis
  proof (cases "sort exact")
    case (Cons e es)
    then have e: "e \<in> set exact" and least: "\<forall>x \<in> set exact. e \<le> x"
      using sorted_sort[of exact] by (metis set_sort list.set_intros(1), metis set_ConsD set_sort sorted_simps(2) order_refl)
    then have "w t < midnight" if "t < e" for t
      by (intro first_candidate[OF once _ _ _ that]) (auto simp: exact_def)
    with eq Cons e show ?thesis by (auto simp: w_def exact_def)
  next
    case Nil
    then have none: "exact = []" by (metis set_empty set_sort)
    define r where "r = bisect_day w midnight (midnight - SEARCH_WINDOW_MS) (midnight + SEARCH_WINDOW_MS)"
    have gap: "midnight - day_ms < T" "T \<le> midnight + day_ms" "T \<le> midnight - a" "midnight - b < T"
      using some_candidate_or_gap[OF once] none by (auto simp: exact_def filter_empty_conv)
    have "w (midnight - SEARCH_WINDOW_MS) < midnight" "midnight \<le> w (midnight + SEARCH_WINDOW_MS)"
      using changes_onceD(1)[OF once, of "midnight - SEARCH_WINDOW_MS"] changes_onceD(1)[OF once, of "midnight + SEARCH_WINDOW_MS"]
      by (auto simp: window)
    then have r: "midnight \<le> w r" "w (r - 1) < midnight"
      using bisect_day_first[of "midnight - SEARCH_WINDOW_MS" "midnight + SEARCH_WINDOW_MS" w midnight]
      by (simp_all add: r_def window)
    have r_le: "r \<le> midnight + SEARCH_WINDOW_MS"
      unfolding r_def by (rule bisect_day_bounded) (simp add: window)
    have "w t < midnight" if "t < r" for t
    proof (cases "t < midnight - day_ms")
      case False
      then have t: "w t = t + (if t < T then a else b)" and r1: "w (r - 1) = r - 1 + (if r - 1 < T then a else b)"
        using changes_onceD(2)[OF once] that r_le by (simp_all add: window)
      with gap that r(2) show ?thesis by (auto split: if_splits)
    qed (rule changes_onceD(3)[OF once])
    with eq Nil r(1) show ?thesis by (auto simp: w_def r_def)
  qed
qed

text \<open>
  A formatter that prints the wall clock \<open>g\<close>, for the witnesses: what \<open>Intl\<close> prints of a zone
  whose clock shows \<open>g t\<close> at the instant \<open>t\<close>.
\<close>

definition clock_formatter :: "(int \<Rightarrow> int) \<Rightarrow> formatter" where
  "clock_formatter g t =
     (let k = g t; r = k mod day_ms; ymd = civil_from_day (k div day_ms)
      in (fst ymd, fst (snd ymd), snd (snd ymd), r div 3600000, r mod 3600000 div 60000,
          r mod 60000 div 1000))"

lemma wall_clock_formatter:
  assumes "g t mod 1000 = t mod 1000"
  shows "wall_clock (clock_formatter g) t = g t"
proof -
  obtain y m d where c: "civil_from_day (g t div day_ms) = (y, m, d)"
    by (cases "civil_from_day (g t div day_ms)")
  define r where "r = g t mod day_ms"
  have rb: "0 \<le> r" "r < 86400000" by (simp_all add: r_def day_ms_def)
  then have hour: "r div 3600000 mod 24 = r div 3600000" by (simp add: mod_pos_pos_trivial pos_imp_zdiv_nonneg_iff)
  have "r mod 1000 = t mod 1000"
    unfolding r_def day_ms_def using assms by (simp add: mod_mod_cancel)
  moreover have "make_time (r div 3600000) (r mod 3600000 div 60000) (r mod 60000 div 1000) (r mod 1000) = r"
  proof -
    have "r mod 3600000 mod 60000 = r mod 60000" "r mod 60000 mod 1000 = r mod 1000"
      by (simp_all add: mod_mod_cancel)
    then show ?thesis unfolding make_time_def
      using div_mult_mod_eq[of r 3600000] div_mult_mod_eq[of "r mod 3600000" 60000]
        div_mult_mod_eq[of "r mod 60000" 1000] by linarith
  qed
  ultimately have "utc_wall y m d (r div 3600000 mod 24) (r mod 3600000 div 60000)
      (r mod 60000 div 1000) (t mod 1000) =
      make_day y (m - 1) d * day_ms + (make_day 2000 (m - 1) d * day_ms + r) mod day_ms"
    by (simp only: utc_wall_def Let_def hour)
  moreover have "wall_clock (clock_formatter g) t =
      utc_wall y m d (r div 3600000 mod 24) (r mod 3600000 div 60000) (r mod 60000 div 1000) (t mod 1000)"
    by (simp only: wall_clock_def zoned_parts_of_def clock_formatter_def Let_def c r_def
        prod.case fst_conv snd_conv zoned_parts.simps)
  moreover have "(make_day 2000 (m - 1) d * day_ms + r) mod day_ms = r"
    using rb by (simp add: day_ms_def)
  moreover have "make_day y (m - 1) d = g t div day_ms" using make_day_from_civil[OF c] by simp
  ultimately have "wall_clock (clock_formatter g) t = g t div day_ms * day_ms + r" by (simp only:)
  then show ?thesis unfolding r_def by (simp only: div_mult_mod_eq)
qed

theorem add_days_inverse_witness:
  "add_days (date_text (2024, 3, 1)) (-1) = Some (date_text (2024, 2, 29))"
proof -
  have "civil_from_day (make_day 2024 (2 - 1) 29 + 1) = (2024, 3, 1)" by code_simp
  with add_days_eq[of 2024 2 29 1] have "add_days (date_text (2024, 2, 29)) 1 = Some (date_text (2024, 3, 1))"
    by (simp add: valid_date_def days_in_month_def month_lengths_def is_leap_def)
  moreover have "is_calendar_date (date_text (2024, 3, 1))"
    using require_date_iff[of "date_text (2024, 3, 1)" 2024 3 1]
    by (simp add: require_date_split valid_date_def days_in_month_def month_lengths_def)
  ultimately show ?thesis by (rule add_days_inverse)
qed

theorem end_of_month_last_day_witness:
  "end_of_month (date_text (9999, 12, 5)) = None \<and>
   end_of_month (date_text (2024, 2, 5)) = Some (date_text (2024, 2, 29))"
  using end_of_month_last_day[of 9999 12 5] end_of_month_last_day[of 2024 2 5]
  by (simp add: valid_date_def days_in_month_def month_lengths_def is_leap_def)

text \<open>
  The clock of a zone with daylight saving in the years 2018 and 2019: it skips from 00:00 to 01:00 on
  2018-11-04 and goes back on 2019-02-16.
\<close>

definition summer_clock :: "int \<Rightarrow> int" where
  "summer_clock t = t + (if 1541300400000 \<le> t \<and> t < 1550368800000 then -7200000 else -10800000)"

theorem start_of_zoned_day_first_witness:
  "\<exists>r. start_of_zoned_day (\<lambda>_. Some (clock_formatter summer_clock)) (js ''2018-11-04'') [] = Some r \<and>
     1541289600000 \<le> wall_clock (clock_formatter summer_clock) r"
proof -
  have req: "require_date (js ''2018-11-04'') = Some (2018, 11, 4)" by code_simp
  have mid: "1541289600000 = make_day 2018 (11 - 1) 4 * day_ms" by code_simp
  have shift: "(t - 10800000) mod 1000 = t mod 1000" "(t - 7200000) mod 1000 = t mod 1000" for t :: int
    using mod_mult_self1[of t "-10800" 1000] mod_mult_self1[of t "-7200" 1000] by simp_all
  have clock: "wall_clock (clock_formatter summer_clock) t = summer_clock t" for t
    by (rule wall_clock_formatter) (use shift in \<open>auto simp: summer_clock_def\<close>)
  have "\<exists>r. start_of_zoned_day (\<lambda>_. Some (clock_formatter summer_clock)) (js ''2018-11-04'') [] = Some r \<and>
      1541289600000 \<le> wall_clock (clock_formatter summer_clock) r \<and>
      (\<forall>t < r. wall_clock (clock_formatter summer_clock) t < 1541289600000)"
  proof (rule start_of_zoned_day_first[OF refl req mid])
    show "\<bar>wall_clock (clock_formatter summer_clock) t - t\<bar> \<le> day_ms" for t
      unfolding clock by (simp add: summer_clock_def day_ms_def)
    show "wall_clock (clock_formatter summer_clock) t = t + (if t < 1541300400000 then -10800000 else -7200000)"
      if "\<bar>t - 1541289600000\<bar> \<le> SEARCH_WINDOW_MS" for t
      unfolding clock using that by (auto simp: summer_clock_def SEARCH_WINDOW_MS_def)
  qed
  then show ?thesis by blast
qed

end
