(* ===== verification/Query_Parse.thy ===== *)
theory Query_Parse
  imports Query_Tokenizer Query_Calendar
begin

text \<open>
  The parser (\<open>packages/query/src/parse.ts\<close>): tokens to a syntax tree, every check and every
  error with its message and offsets. The canonical spelling of a time zone is the parameter
  \<open>resolve\<close> (see \<open>Query_Calendar\<close>). Of \<open>Date.parse\<close> the code uses whether a text of one of
  its two shapes denotes an instant, and which; a time without a zone only ever reaches it
  with a \<open>Z\<close> appended, so it is read as UTC here.
\<close>

section \<open>Lengths and bounds\<close>

definition MIN_TEXT_LENGTH :: nat where
  "MIN_TEXT_LENGTH = 2"

definition is_high_surrogate :: "unit16 \<Rightarrow> bool" where
  "is_high_surrogate c \<longleftrightarrow> 0xD800 \<le> c \<and> c \<le> 0xDBFF"

definition is_low_surrogate :: "unit16 \<Rightarrow> bool" where
  "is_low_surrogate c \<longleftrightarrow> 0xDC00 \<le> c \<and> c \<le> 0xDFFF"

fun count_code_points :: "jstr \<Rightarrow> nat" where
  "count_code_points [] = 0"
| "count_code_points [c] = 1"
| "count_code_points (c # d # s) =
     (if is_high_surrogate c \<and> is_low_surrogate d then Suc (count_code_points s)
      else Suc (count_code_points (d # s)))"

definition at_token :: "jstr \<Rightarrow> raw_token \<Rightarrow> query_error" where
  "at_token message t = syntax_error message (raw t) (tok_start t) (tok_end t)"

text \<open>\<open>Number\<close> of a text \<open>-?\d+\<close>; beyond the safe integers only its unsafety is used.\<close>

definition integer_text :: "jstr \<Rightarrow> int option" where
  "integer_text s =
     (if starts_with [hyphen] s
      then (if all_digits (tl s) then Some (- int (dec_value (tl s))) else None)
      else (if all_digits s then Some (int (dec_value s)) else None))"

definition parse_numeric_bound :: "jstr \<Rightarrow> raw_token \<Rightarrow> (query_error, int) result" where
  "parse_numeric_bound r token =
     (case integer_text r of
        None \<Rightarrow> Inl (at_token (js ''Range bound must be an integer: '' @ in_quotes r) token)
      | Some parsed \<Rightarrow>
          if is_safe_integer parsed then Inr parsed
          else Inl (at_token (js ''Range bound is too large: '' @ in_quotes r) token))"

subsection \<open>Dates and times\<close>

datatype zone_suffix = No_zone | Zulu | Offset bool nat nat

record date_time =
  dt_date :: "int \<times> int \<times> int"
  dt_hour :: nat
  dt_minute :: nat
  dt_second :: nat
  dt_ms :: nat
  dt_zone :: zone_suffix

definition take_digits :: "nat \<Rightarrow> jstr \<Rightarrow> (nat \<times> jstr) option" where
  "take_digits n s =
     (if digits_of_length n (take n s) then Some (dec_value (take n s), drop n s) else None)"

text \<open>\<open>(Z|[+-]\d{2}:?\d{2})?$\<close>\<close>

definition zone_of_text :: "jstr \<Rightarrow> zone_suffix option" where
  "zone_of_text s =
     (if s = [] then Some No_zone
      else if s = js ''Z'' then Some Zulu
      else if starts_with (js ''+'') s \<or> starts_with (js ''-'') s then
        (case take_digits 2 (tl s) of
           None \<Rightarrow> None
         | Some (hh, r) \<Rightarrow>
             (case take_digits 2 (if starts_with [colon] r then tl r else r) of
                Some (mm, []) \<Rightarrow> Some (Offset (starts_with (js ''-'') s) hh mm)
              | _ \<Rightarrow> None))
      else None)"

text \<open>\<open>(\.\d{1,3})?\<close>: milliseconds, the digits read as a decimal fraction.\<close>

definition fraction_of_text :: "jstr \<Rightarrow> (nat \<times> jstr) option" where
  "fraction_of_text s =
     (if starts_with (js ''.'') s then
        (let ds = takeWhile is_digit (tl s) in
         if 1 \<le> length ds \<and> length ds \<le> 3
         then Some (dec_value ds * 10 ^ (3 - length ds), drop (length ds) (tl s)) else None)
      else Some (0, s))"

definition seconds_of_text :: "jstr \<Rightarrow> (nat \<times> nat \<times> jstr) option" where
  "seconds_of_text s =
     (if starts_with [colon] s then
        (case take_digits 2 (tl s) of
           None \<Rightarrow> None
         | Some (sec, r) \<Rightarrow>
             (case fraction_of_text r of None \<Rightarrow> None | Some (ms, r') \<Rightarrow> Some (sec, ms, r')))
      else Some (0, 0, s))"

text \<open>The pattern \<open>DATE_TIME\<close>, with the values of its fields.\<close>

definition DATE_TIME :: "jstr \<Rightarrow> date_time option" where
  "DATE_TIME s =
     (case split_date (take 10 s) of
        None \<Rightarrow> None
      | Some date \<Rightarrow>
          if starts_with (js ''T'') (drop 10 s) \<or> starts_with (js '' '') (drop 10 s) then
            (case take_digits 2 (drop 11 s) of
               None \<Rightarrow> None
             | Some (h, r) \<Rightarrow>
                 if \<not> starts_with [colon] r then None
                 else (case take_digits 2 (tl r) of
                         None \<Rightarrow> None
                       | Some (mi, r1) \<Rightarrow>
                           (case seconds_of_text r1 of
                              None \<Rightarrow> None
                            | Some (sec, ms, r2) \<Rightarrow>
                                map_option
                                  (\<lambda>z. \<lparr>dt_date = date, dt_hour = h, dt_minute = mi,
                                        dt_second = sec, dt_ms = ms, dt_zone = z\<rparr>)
                                  (zone_of_text r2))))
          else None)"

text \<open>\<open>Date.parse\<close>: the fields must be in range; 24:00 is the end of the day.\<close>

definition instant_of_parts :: "date_time \<Rightarrow> int option" where
  "instant_of_parts p =
     (case dt_date p of (y, m, d) \<Rightarrow>
        let time_ok = (dt_hour p < 24 \<or> (dt_hour p = 24 \<and> dt_minute p = 0 \<and> dt_second p = 0 \<and> dt_ms p = 0))
                      \<and> dt_minute p < 60 \<and> dt_second p < 60;
            zone_ok = (case dt_zone p of Offset _ hh mm \<Rightarrow> hh < 24 \<and> mm < 60 | _ \<Rightarrow> True);
            shift = (case dt_zone p of
                       Offset neg hh mm \<Rightarrow>
                         (if neg then -1 else 1) * (int hh * 3600000 + int mm * 60000)
                     | _ \<Rightarrow> 0)
        in if 1 \<le> m \<and> m \<le> 12 \<and> 1 \<le> d \<and> d \<le> 31 \<and> time_ok \<and> zone_ok
           then Some (make_day y (m - 1) d * day_ms +
                      make_time (int (dt_hour p)) (int (dt_minute p)) (int (dt_second p)) (int (dt_ms p)) - shift)
           else None)"

definition date_time_of :: "jstr \<Rightarrow> date_time option" where
  "date_time_of bound =
     (case split_date bound of
        Some date \<Rightarrow> Some \<lparr>dt_date = date, dt_hour = 0, dt_minute = 0, dt_second = 0, dt_ms = 0,
                          dt_zone = Zulu\<rparr>
      | None \<Rightarrow> DATE_TIME bound)"

definition instant_of :: "jstr \<Rightarrow> int option" where
  "instant_of bound = Option.bind (date_time_of bound) instant_of_parts"

definition check_temporal_bound :: "jstr \<Rightarrow> raw_token \<Rightarrow> (query_error, jstr) result" where
  "check_temporal_bound r token =
     (case date_time_of r of
        None \<Rightarrow>
          Inl (at_token (js ''Invalid date format: '' @ in_quotes r @
                 js '' (for example: 2026-08-10 or 2026-08-10T05:02:11Z)'') token)
      | Some p \<Rightarrow>
          (case dt_date p of (year, month, day) \<Rightarrow>
             if civil_from_day (make_day (utc_year year) (month - 1) day) \<noteq> (year, month, day) \<or>
                instant_of r = None
             then Inl (at_token (js ''Invalid calendar date: '' @ in_quotes r) token)
             else Inr r))"

section \<open>Range tokens\<close>

definition time_zone_mark :: unit16 where
  "time_zone_mark = ch CHR ''@''"

definition zoned_example :: jstr where
  "zoned_example = js '' (for example: 2026-09-27..2026-09-27@Asia/Seoul)''"

definition split_time_zone ::
    "(jstr \<Rightarrow> jstr option) \<Rightarrow> jstr \<Rightarrow> jstr \<Rightarrow> raw_token \<Rightarrow>
     (query_error, (jstr \<times> jstr \<times> jstr) option) result" where
  "split_time_zone resolve lo hi token =
     (if time_zone_mark \<in> set lo then
        Inl (at_token (js ''The time zone goes after the range: '' @ in_quotes (tok_value token) @
               zoned_example) token)
      else
        (case find_index (\<lambda>c. c = time_zone_mark) hi of
           None \<Rightarrow> Inr None
         | Some mark \<Rightarrow>
             (let high = take mark hi; zone = drop (Suc mark) hi in
              if high = [] then
                Inl (at_token (js ''Both range bounds are required: '' @ in_quotes (tok_value token) @
                       zoned_example) token)
              else if \<not> DATE_ONLY lo \<or> \<not> DATE_ONLY high then
                Inl (at_token (js ''A time zone applies to calendar dates only: '' @
                       in_quotes (tok_value token) @ zoned_example) token)
              else
                bind_result (check_temporal_bound lo token) (\<lambda>_.
                bind_result (check_temporal_bound high token) (\<lambda>_.
                  (case canonical_time_zone resolve zone of
                     None \<Rightarrow>
                       Inl (at_token (js ''Unknown time zone: '' @ in_quotes zone @
                              js '' (for example: Asia/Seoul)'') token)
                   | Some timezone \<Rightarrow>
                       if str_less high lo then
                         Inl (at_token (js ''Range bounds are reversed: '' @
                                in_quotes (tok_value token)) token)
                       else Inr (Some (lo, high, timezone))))))))"

definition range_separator :: jstr where
  "range_separator = js ''..''"

definition range_op_of :: "raw_token \<Rightarrow> range_op" where
  "range_op_of token = (if negated token then Not_range else Range)"

definition reversed_error :: "raw_token \<Rightarrow> query_error" where
  "reversed_error token =
     at_token (js ''Range bounds are reversed: '' @ in_quotes (tok_value token)) token"

definition to_numeric_range ::
    "query_key \<Rightarrow> jstr \<Rightarrow> jstr \<Rightarrow> raw_token \<Rightarrow> (query_error, query_filter) result" where
  "to_numeric_range key lo hi token =
     bind_result (parse_numeric_bound lo token) (\<lambda>low.
     bind_result (parse_numeric_bound hi token) (\<lambda>high.
       if low > high then Inl (reversed_error token)
       else
         (case MIN_RANGE_VALUE key of
            Some minimum \<Rightarrow>
              if low < minimum then
                Inl (at_token (js ''Range bound is below the minimum for '' @
                       in_quotes (key_name key) @ js '' ('' @ show_int minimum @ js ''): '' @
                       in_quotes (tok_value token)) token)
              else Inr (Numeric_range_filter key (range_op_of token) low high)
          | None \<Rightarrow> Inr (Numeric_range_filter key (range_op_of token) low high))))"

definition to_temporal_range ::
    "(jstr \<Rightarrow> jstr option) \<Rightarrow> query_key \<Rightarrow> jstr \<Rightarrow> jstr \<Rightarrow> raw_token \<Rightarrow>
     (query_error, query_filter) result" where
  "to_temporal_range resolve key lo hi token =
     bind_result (split_time_zone resolve lo hi token) (\<lambda>zoned.
       (case zoned of
          Some (f, t, timezone) \<Rightarrow>
            Inr (Temporal_range_filter key (range_op_of token) f t (Some timezone))
        | None \<Rightarrow>
            bind_result (check_temporal_bound lo token) (\<lambda>low.
            bind_result (check_temporal_bound hi token) (\<lambda>high.
              (case (instant_of low, instant_of high) of
                 (Some a, Some b) \<Rightarrow>
                   if a > b then Inl (reversed_error token)
                   else Inr (Temporal_range_filter key (range_op_of token) low high None)
               | _ \<Rightarrow> Inr (Temporal_range_filter key (range_op_of token) low high None))))))"

definition to_range_filter ::
    "(jstr \<Rightarrow> jstr option) \<Rightarrow> query_key \<Rightarrow> raw_token \<Rightarrow> (query_error, query_filter) result" where
  "to_range_filter resolve key token =
     (let separator = (case find_sub range_separator (tok_value token) of None \<Rightarrow> 0 | Some i \<Rightarrow> i);
          lo = take separator (tok_value token);
          hi = drop (separator + length range_separator) (tok_value token)
      in if lo = [] \<or> hi = [] then
           Inl (at_token (js ''Both range bounds are required: '' @ in_quotes (tok_value token) @
                  js '' (for example: 1200..1350)'') token)
         else if is_numeric_range_key key then to_numeric_range key lo hi token
         else if is_temporal_range_key key then to_temporal_range resolve key lo hi token
         else Inl (at_token (js ''This key does not support ranges: '' @ in_quotes (key_name key)) token))"

definition to_single_value_range_filter :: "query_key \<Rightarrow> raw_token \<Rightarrow> (query_error, query_filter) result" where
  "to_single_value_range_filter key token =
     bind_result (parse_numeric_bound (tok_value token) token) (\<lambda>v.
       (case MIN_RANGE_VALUE key of
          Some minimum \<Rightarrow>
            if v < minimum then
              Inl (at_token (js ''Value is below the minimum for '' @ in_quotes (key_name key) @
                     js '' ('' @ show_int minimum @ js ''): '' @ in_quotes (tok_value token)) token)
            else Inr (Numeric_range_filter key (range_op_of token) v v)
        | None \<Rightarrow> Inr (Numeric_range_filter key (range_op_of token) v v)))"

definition check_enumerated_value :: "query_key \<Rightarrow> raw_token \<Rightarrow> (query_error, unit) result" where
  "check_enumerated_value key token =
     (case ENUMERATED_VALUES key of
        None \<Rightarrow> Inr ()
      | Some allowed \<Rightarrow>
          if tok_value token \<in> set allowed then Inr ()
          else Inl ((at_token (js ''Invalid value for '' @ in_quotes (key_name key) @ js '': '' @
                       in_quotes (tok_value token)) token)\<lparr>allowed_values := Some allowed\<rparr>))"

section \<open>The loop over the tokens\<close>

record parse_state =
  ps_filters :: "query_filter list"
  ps_terms :: "jstr list"
  ps_first_text :: "nat option"

definition initial_parse_state :: parse_state where
  "initial_parse_state = \<lparr>ps_filters = [], ps_terms = [], ps_first_text = None\<rparr>"

text \<open>
  The map \<open>equalities\<close> of the code holds, for a key and operator, the very array that the
  filter node of that key and operator carries, so pushing to it updates the node in place.
\<close>

fun add_equality_value :: "query_key \<Rightarrow> eq_op \<Rightarrow> jstr \<Rightarrow> query_filter list \<Rightarrow> query_filter list" where
  "add_equality_value key op v [] = [Equality_filter key op [v]]"
| "add_equality_value key op v (f # fs) =
     (case f of
        Equality_filter k p vs \<Rightarrow>
          if k = key \<and> p = op
          then Equality_filter k p (if v \<in> set vs then vs else vs @ [v]) # fs
          else f # add_equality_value key op v fs
      | _ \<Rightarrow> f # add_equality_value key op v fs)"

definition push_filter :: "query_filter \<Rightarrow> parse_state \<Rightarrow> parse_state" where
  "push_filter f st = st\<lparr>ps_filters := ps_filters st @ [f]\<rparr>"

definition parse_key_token ::
    "(jstr \<Rightarrow> jstr option) \<Rightarrow> parse_state \<Rightarrow> raw_token \<Rightarrow> jstr \<Rightarrow> (query_error, parse_state) result" where
  "parse_key_token resolve st token name =
     (case key_of_name name of
        None \<Rightarrow> Inl (unsupported_key name (raw token) (tok_start token) (tok_end token))
      | Some key \<Rightarrow>
          if \<not> quoted token \<and> is_range_key key \<and> contains_sub range_separator (tok_value token) then
            bind_result (to_range_filter resolve key token) (\<lambda>f. Inr (push_filter f st))
          else if tok_value token = [] then
            Inl (at_token (js ''The value for '' @ in_quotes name @ js '' is empty'') token)
          else if is_range_key key then
            (if accepts_single_value key then
               bind_result (to_single_value_range_filter key token) (\<lambda>f. Inr (push_filter f st))
             else Inl (range_only_key key (raw token) (tok_start token) (tok_end token)))
          else
            bind_result (check_enumerated_value key token) (\<lambda>_.
              Inr (st\<lparr>ps_filters := add_equality_value key (if negated token then Not_eq else Eq)
                                   (tok_value token) (ps_filters st)\<rparr>)))"

definition parse_token ::
    "(jstr \<Rightarrow> jstr option) \<Rightarrow> parse_state \<Rightarrow> raw_token \<Rightarrow> (query_error, parse_state) result" where
  "parse_token resolve st token =
     (case tok_key token of
        None \<Rightarrow>
          Inr (st\<lparr>ps_first_text := (case ps_first_text st of None \<Rightarrow> Some (tok_start token) | Some i \<Rightarrow> Some i),
                  ps_terms := ps_terms st @
                    [if negated token then hyphen # tok_value token else tok_value token]\<rparr>)
      | Some name \<Rightarrow> parse_key_token resolve st token name)"

fun parse_tokens ::
    "(jstr \<Rightarrow> jstr option) \<Rightarrow> parse_state \<Rightarrow> raw_token list \<Rightarrow> (query_error, parse_state) result" where
  "parse_tokens resolve st [] = Inr st"
| "parse_tokens resolve st (t # ts) =
     bind_result (parse_token resolve st t) (\<lambda>st'. parse_tokens resolve st' ts)"

definition finish_parse :: "parse_state \<Rightarrow> (query_error, query_ast) result" where
  "finish_parse st =
     (if ps_terms st = [] then Inr \<lparr>filters = ps_filters st, text_of = None\<rparr>
      else
        (let txt = join_with [blank_unit] (ps_terms st) in
         if count_code_points txt < MIN_TEXT_LENGTH then
           (let start = (case ps_first_text st of None \<Rightarrow> 0 | Some i \<Rightarrow> i) in
            Inl \<lparr>err_code = Query_too_short,
                 err_message = js ''Search text must contain at least '' @ show_nat MIN_TEXT_LENGTH @ js '' characters'',
                 err_token = txt, offset_start = start, offset_end = start + length txt,
                 supported_keys = None, allowed_values = None\<rparr>)
         else Inr \<lparr>filters = ps_filters st, text_of = Some txt\<rparr>))"

definition parse_query :: "(jstr \<Rightarrow> jstr option) \<Rightarrow> jstr \<Rightarrow> (query_error, query_ast) result" where
  "parse_query resolve input =
     bind_result (tokenize input) (\<lambda>ts.
     bind_result (parse_tokens resolve initial_parse_state ts) finish_parse)"

end
