(* ===== verification/Query_Serialize.thy ===== *)
theory Query_Serialize
  imports Query_Parse
begin

text \<open>
  The printer of syntax trees and the edits on them (\<open>packages/query/src/serialize.ts\<close>), the
  invariant that parsed trees satisfy, and the meaning of the numeric ranges of a tree that
  the edits are judged against.
\<close>

section \<open>Printing\<close>

definition needs_quotes :: "jstr \<Rightarrow> bool" where
  "needs_quotes v \<longleftrightarrow> v = [] \<or> list_ex is_space v \<or> dquote \<in> set v \<or> backslash \<in> set v \<or>
     colon \<in> set v \<or> starts_with [hyphen] v"

text \<open>The two global replacements, one after the other.\<close>

definition double_backslashes :: "jstr \<Rightarrow> jstr" where
  "double_backslashes v = concat (map (\<lambda>c. if c = backslash then [backslash, backslash] else [c]) v)"

definition escape_dquotes :: "jstr \<Rightarrow> jstr" where
  "escape_dquotes v = concat (map (\<lambda>c. if c = dquote then [backslash, dquote] else [c]) v)"

definition quote_value :: "jstr \<Rightarrow> jstr" where
  "quote_value v = [dquote] @ escape_dquotes (double_backslashes v) @ [dquote]"

definition render_value :: "jstr \<Rightarrow> jstr" where
  "render_value v = (if needs_quotes v then quote_value v else v)"

definition sign_prefix :: "bool \<Rightarrow> jstr" where
  "sign_prefix neg = (if neg then [hyphen] else [])"

fun render_filter :: "query_filter \<Rightarrow> jstr list" where
  "render_filter (Equality_filter key op vs) =
     map (\<lambda>v. sign_prefix (op = Not_eq) @ key_name key @ [colon] @ render_value v) vs"
| "render_filter (Numeric_range_filter key op a b) =
     [sign_prefix (op = Not_range) @ key_name key @ [colon] @ show_int a @ range_separator @ show_int b]"
| "render_filter (Temporal_range_filter key op f t zone) =
     [sign_prefix (op = Not_range) @ key_name key @ [colon] @ f @ range_separator @ t @
      (case zone of None \<Rightarrow> [] | Some z \<Rightarrow> time_zone_mark # z)]"

definition render_text :: "jstr \<Rightarrow> jstr list" where
  "render_text txt =
     map (\<lambda>term. if needs_quotes term \<and> \<not> starts_with [hyphen] term then quote_value term else term)
       (filter (\<lambda>term. term \<noteq> []) (split_on blank_unit txt))"

definition serialize_parts :: "query_ast \<Rightarrow> jstr list" where
  "serialize_parts ast =
     concat (map render_filter (filters ast)) @
     (case text_of ast of None \<Rightarrow> [] | Some txt \<Rightarrow> render_text txt)"

definition serialize_query :: "query_ast \<Rightarrow> jstr" where
  "serialize_query ast = join_with [blank_unit] (serialize_parts ast)"

section \<open>Edits\<close>

fun is_equality_on :: "query_key \<Rightarrow> eq_op \<Rightarrow> query_filter \<Rightarrow> bool" where
  "is_equality_on key op (Equality_filter k p _) = (k = key \<and> p = op)"
| "is_equality_on key op _ = False"

fun is_range_on :: "query_key \<Rightarrow> range_op \<Rightarrow> query_filter \<Rightarrow> bool" where
  "is_range_on key op (Equality_filter _ _ _) = False"
| "is_range_on key op f = (filter_key f = key \<and> is_negated f = (op = Not_range))"

definition replace_equality :: "query_ast \<Rightarrow> query_key \<Rightarrow> jstr \<Rightarrow> query_ast" where
  "replace_equality ast key v =
     ast\<lparr>filters := filter (\<lambda>f. \<not> is_equality_on key Eq f) (filters ast) @ [Equality_filter key Eq [v]]\<rparr>"

definition intersect_numeric_range :: "query_ast \<Rightarrow> query_key \<Rightarrow> int \<Rightarrow> int \<Rightarrow> query_ast" where
  "intersect_numeric_range ast key lo hi =
     (let base = (case find (is_range_on key Range) (filters ast) of
                    Some (Numeric_range_filter _ _ a b) \<Rightarrow> (max a lo, min b hi)
                  | _ \<Rightarrow> (lo, hi))
      in ast\<lparr>filters := filter (\<lambda>f. \<not> is_range_on key Range f) (filters ast) @
                [Numeric_range_filter key Range (fst base) (snd base)]\<rparr>)"

text \<open>\<open>addEquality\<close> changes the first equality node of the key.\<close>

fun push_value :: "jstr \<Rightarrow> query_filter \<Rightarrow> query_filter" where
  "push_value v (Equality_filter k p vs) = Equality_filter k p (vs @ [v])"
| "push_value v f = f"

fun filter_values :: "query_filter \<Rightarrow> jstr list" where
  "filter_values (Equality_filter _ _ vs) = vs"
| "filter_values _ = []"

definition add_equality :: "query_ast \<Rightarrow> query_key \<Rightarrow> jstr \<Rightarrow> query_ast" where
  "add_equality ast key v =
     (case find_index (is_equality_on key Eq) (filters ast) of
        None \<Rightarrow> ast\<lparr>filters := filters ast @ [Equality_filter key Eq [v]]\<rparr>
      | Some i \<Rightarrow>
          if v \<in> set (filter_values (filters ast ! i)) then ast
          else ast\<lparr>filters := (filters ast)[i := push_value v (filters ast ! i)]\<rparr>)"

section \<open>The invariant of parsed trees\<close>

definition bound_ok :: "jstr \<Rightarrow> bool" where
  "bound_ok r \<longleftrightarrow>
     (case date_time_of r of
        None \<Rightarrow> False
      | Some p \<Rightarrow> (case dt_date p of (y, m, d) \<Rightarrow>
          civil_from_day (make_day (utc_year y) (m - 1) d) = (y, m, d) \<and> instant_of r \<noteq> None))"

definition no_space :: "jstr \<Rightarrow> bool" where
  "no_space s \<longleftrightarrow> list_all (\<lambda>c. \<not> is_space c) s"

fun wf_filter :: "(jstr \<Rightarrow> jstr option) \<Rightarrow> query_filter \<Rightarrow> bool" where
  "wf_filter resolve (Equality_filter key op vs) =
     (\<not> is_range_key key \<and> vs \<noteq> [] \<and> distinct vs \<and> [] \<notin> set vs \<and>
      (case ENUMERATED_VALUES key of None \<Rightarrow> True | Some allowed \<Rightarrow> set vs \<subseteq> set allowed))"
| "wf_filter resolve (Numeric_range_filter key op a b) =
     (is_numeric_range_key key \<and> a \<le> b \<and> is_safe_integer a \<and> is_safe_integer b \<and>
      (case MIN_RANGE_VALUE key of None \<Rightarrow> True | Some minimum \<Rightarrow> minimum \<le> a))"
| "wf_filter resolve (Temporal_range_filter key op f t zone) =
     (is_temporal_range_key key \<and> bound_ok f \<and> bound_ok t \<and>
      (case zone of
         None \<Rightarrow> no_space f \<and> no_space t \<and> time_zone_mark \<notin> set f \<and> time_zone_mark \<notin> set t \<and>
           find_sub range_separator (f @ range_separator @ t) = Some (length f) \<and>
           the (instant_of f) \<le> the (instant_of t)
       | Some z \<Rightarrow> DATE_ONLY f \<and> DATE_ONLY t \<and> \<not> str_less t f \<and>
           canonical_time_zone resolve z = Some z))"

definition equality_buckets :: "query_filter list \<Rightarrow> (query_key \<times> eq_op) list" where
  "equality_buckets fs = concat (map (\<lambda>f. case f of Equality_filter k p _ \<Rightarrow> [(k, p)] | _ \<Rightarrow> []) fs)"

definition wf_ast :: "(jstr \<Rightarrow> jstr option) \<Rightarrow> query_ast \<Rightarrow> bool" where
  "wf_ast resolve ast \<longleftrightarrow>
     list_all (wf_filter resolve) (filters ast) \<and> distinct (equality_buckets (filters ast)) \<and>
     (case text_of ast of None \<Rightarrow> True | Some txt \<Rightarrow> MIN_TEXT_LENGTH \<le> count_code_points txt)"

lemma equality_buckets_simps [simp]:
  "equality_buckets [] = []"
  "equality_buckets (Equality_filter k p vs # fs) = (k, p) # equality_buckets fs"
  "equality_buckets (Numeric_range_filter k q a b # fs) = equality_buckets fs"
  "equality_buckets (Temporal_range_filter k q f t z # fs) = equality_buckets fs"
  "equality_buckets (fs @ gs) = equality_buckets fs @ equality_buckets gs"
  by (simp_all add: equality_buckets_def)

lemma add_value_buckets:
  "equality_buckets (add_equality_value k p v fs) =
     (if (k, p) \<in> set (equality_buckets fs) then equality_buckets fs else equality_buckets fs @ [(k, p)])"
  by (induction fs) (auto split: query_filter.splits)

lemma add_value_wf:
  assumes "list_all (wf_filter resolve) fs" and "wf_filter resolve (Equality_filter k p [v])"
  shows "list_all (wf_filter resolve) (add_equality_value k p v fs)"
  using assms
proof (induction fs)
  case Nil
  then show ?case by simp
next
  case (Cons f fs)
  then show ?case by (cases f) (auto split: option.splits)
qed

lemma add_value_new:
  "(k, p) \<notin> set (equality_buckets fs) \<Longrightarrow> add_equality_value k p v fs = fs @ [Equality_filter k p [v]]"
  by (induction fs) (auto split: query_filter.splits)

lemma add_value_last:
  "(k, p) \<notin> set (equality_buckets fs) \<Longrightarrow> v \<notin> set vs \<Longrightarrow>
   add_equality_value k p v (fs @ [Equality_filter k p vs]) = fs @ [Equality_filter k p (vs @ [v])]"
  by (induction fs) (auto split: query_filter.splits)

end
