(* ===== verification/Query_Roundtrip.thy ===== *)
theory Query_Roundtrip
  imports Query_Serialize
begin

text \<open>
  Parsing after printing. A printed tree is a list of parts joined by blanks; each part is
  read back as one token whatever follows it (\<open>chunk\<close>), and each token adds to the parser's
  state what the part was printed from.
\<close>

section \<open>Parts are read back as single tokens\<close>

definition chunk :: "jstr \<Rightarrow> bool \<times> jstr option \<times> jstr \<times> bool \<Rightarrow> bool" where
  "chunk w c \<longleftrightarrow> w \<noteq> [] \<and> \<not> is_space (hd w) \<and>
     (case c of (neg, key, v, quo) \<Rightarrow>
        (v \<noteq> [] \<or> quo \<or> key \<noteq> None) \<and>
        (\<forall>rest. (rest = [] \<or> is_space (hd rest)) \<longrightarrow> read_parts (w @ rest) = Some (neg, key, v, quo, rest)))"

definition core :: "raw_token \<Rightarrow> bool \<times> jstr option \<times> jstr \<times> bool" where
  "core t = (negated t, tok_key t, tok_value t, quoted t)"

lemma blank_is_space [simp]: "is_space blank_unit"
  by (simp add: js_eval)

lemma skip_space_blank_chunk:
  "ps \<noteq> [] \<Longrightarrow> \<forall>p \<in> set ps. p \<noteq> [] \<and> \<not> is_space (hd p) \<Longrightarrow>
   skip_space (blank_unit # join_with [blank_unit] ps) = join_with [blank_unit] ps"
  "ps \<noteq> [] \<Longrightarrow> \<forall>p \<in> set ps. p \<noteq> [] \<and> \<not> is_space (hd p) \<Longrightarrow>
   skip_space (join_with [blank_unit] ps) = join_with [blank_unit] ps"
proof -
  assume ne: "ps \<noteq> []" and ok: "\<forall>p \<in> set ps. p \<noteq> [] \<and> \<not> is_space (hd p)"
  from ne obtain p qs where ps: "ps = p # qs" by (cases ps) auto
  with ok obtain c p' where p: "p = c # p'" "\<not> is_space c" by (cases p) auto
  have "\<exists>r. join_with [blank_unit] ps = c # r" using ps p by (cases qs) auto
  with p(2) show "skip_space (blank_unit # join_with [blank_unit] ps) = join_with [blank_unit] ps"
    and "skip_space (join_with [blank_unit] ps) = join_with [blank_unit] ps"
    by (auto simp: skip_space_def)
qed

lemma read_token_chunk:
  assumes "chunk w c" and "rest = [] \<or> is_space (hd rest)"
  shows "\<exists>t. read_token n (w @ rest) = Inr (Some t, rest) \<and> core t = c"
proof -
  obtain neg key v quo where c: "c = (neg, key, v, quo)" by (cases c)
  with assms have "read_parts (w @ rest) = Some (neg, key, v, quo, rest)" "v \<noteq> [] \<or> quo \<or> key \<noteq> None"
    by (auto simp: chunk_def)
  then show ?thesis by (auto simp: read_token_def core_def c)
qed

lemma tokenize_loop_chunks:
  "list_all2 chunk ps cs \<Longrightarrow> \<exists>ts. tokenize_loop n (join_with [blank_unit] ps) = Inr ts \<and> map core ts = cs"
proof (induction ps cs rule: list_all2_induct)
  case Nil
  then show ?case by simp
next
  case (Cons p ps c cs)
  have ok: "\<forall>q \<in> set (p # ps). q \<noteq> [] \<and> \<not> is_space (hd q)"
    using Cons.hyps by (fastforce simp: chunk_def list_all2_conv_all_nth in_set_conv_nth)
  from Cons.IH obtain ts where ts: "tokenize_loop n (join_with [blank_unit] ps) = Inr ts" "map core ts = cs"
    by blast
  define rest where "rest = (if ps = [] then [] else blank_unit # join_with [blank_unit] ps)"
  have w: "join_with [blank_unit] (p # ps) = p @ rest"
    by (cases ps) (auto simp: rest_def)
  have "rest = [] \<or> is_space (hd rest)" by (simp add: rest_def)
  from read_token_chunk[OF Cons.hyps(1) this] obtain t where
    t: "read_token n (p @ rest) = Inr (Some t, rest)" "core t = c" by blast
  have "skip_space rest = join_with [blank_unit] ps"
    using skip_space_blank_chunk(1)[of ps] ok by (simp add: rest_def skip_space_def)
  with t ts ok show ?case
    by (auto simp: w tokenize_loop.simps[of n "p @ rest"])
qed

lemma tokenize_chunks:
  assumes "list_all2 chunk ps cs"
  shows "\<exists>ts. tokenize (join_with [blank_unit] ps) = Inr ts \<and> map core ts = cs"
proof -
  have ok: "\<forall>q \<in> set ps. q \<noteq> [] \<and> \<not> is_space (hd q)"
    using assms by (fastforce simp: chunk_def list_all2_conv_all_nth in_set_conv_nth)
  have "skip_space (join_with [blank_unit] ps) = join_with [blank_unit] ps"
    using skip_space_blank_chunk(2)[OF _ ok] by (cases "ps = []") (auto simp: skip_space_def)
  with tokenize_loop_chunks[OF assms] show ?thesis by (simp add: tokenize_def)
qed

subsection \<open>The shapes of parts\<close>

lemma key_unit_props:
  assumes "key_unit c"
  shows "\<not> is_space c \<and> c \<noteq> colon \<and> c \<noteq> dquote \<and> c \<noteq> hyphen"
proof -
  have "\<not> is_space c" using assms unfolding key_unit_def js_eval by unat_arith
  moreover have "\<not> key_unit colon" "\<not> key_unit dquote" "\<not> key_unit hyphen"
    by (simp_all add: key_unit_def js_eval)
  ultimately show ?thesis using assms by metis
qed

lemma KEY_PATTERN_units: "KEY_PATTERN k \<Longrightarrow> k \<noteq> [] \<and> (\<forall>c \<in> set k. key_unit c)"
  by (cases k) (auto simp: list_all_iff key_unit_def)

lemma KEY_PATTERN_name [simp]: "KEY_PATTERN (key_name k)"
  by (cases k) (simp_all add: key_name_def key_unit_def js_eval)

lemma split_key_named:
  assumes "KEY_PATTERN k"
  shows "split_key (k @ colon # r) = (Some k, r)"
proof -
  from KEY_PATTERN_units[OF assms] have k: "k \<noteq> []" "\<forall>c \<in> set k. \<not> c = colon" "key_unit (hd k)"
    using key_unit_props by (blast, blast, simp)
  from k(3) have "hd k \<noteq> dquote" by (auto dest: key_unit_props)
  from k(2) have "find_index (\<lambda>c. c = colon) (k @ colon # r) = Some (length k)"
    by (intro find_index_append) auto
  moreover have "\<not> starts_with [dquote] (k @ colon # r)"
    using k(1) \<open>hd k \<noteq> dquote\<close> by (cases k) auto
  ultimately show ?thesis using k(1) assms by (simp add: split_key_def)
qed

text \<open>A word without a colon has no key, even when a colon follows in a later word.\<close>

lemma split_key_word:
  assumes "colon \<notin> set w" and "rest = [] \<or> is_space (hd rest)"
  shows "split_key (w @ rest) = (None, w @ rest)"
proof (rule ccontr)
  assume "split_key (w @ rest) \<noteq> (None, w @ rest)"
  moreover obtain a r where ar: "split_key (w @ rest) = (a, r)" by (cases "split_key (w @ rest)")
  ultimately obtain k where sk: "split_key (w @ rest) = (Some k, r)"
    by (cases a) (auto dest: split_key_None)
  from split_key_Some[OF sk] have s: "w @ rest = k @ colon # r" and kp: "KEY_PATTERN k" by auto
  have "length w \<le> length k"
  proof (rule ccontr)
    assume "\<not> length w \<le> length k"
    then have "w ! length k = colon" by (metis s nth_append nth_append_length linorder_not_le)
    with assms(1) \<open>\<not> length w \<le> length k\<close> show False by (metis nth_mem linorder_not_le)
  qed
  with s have "w = take (length w) k" "rest = drop (length w) k @ colon # r"
    by (auto simp: append_eq_append_conv_if)
  then obtain u where u: "k = w @ u" "rest = u @ colon # r" by (metis append_take_drop_id)
  from assms(2) u(2) have "is_space (hd rest)" by auto
  show False
  proof (cases u)
    case Nil
    with u(2) \<open>is_space (hd rest)\<close> show False by (simp add: js_eval)
  next
    case (Cons a u')
    with u \<open>is_space (hd rest)\<close> KEY_PATTERN_units[OF kp] key_unit_props[of a] show False by auto
  qed
qed

lemma read_bare_word:
  assumes "no_space v" and "rest = [] \<or> is_space (hd rest)"
  shows "read_bare (v @ rest) = (v, rest)"
proof -
  have "\<forall>c \<in> set v. \<not> is_space c" using assms(1) by (simp add: no_space_def list_all_iff)
  with assms(2) show ?thesis
    by (cases rest) (auto simp: read_bare_def takeWhile_append2 dropWhile_append2)
qed

lemma read_quoted_escaped:
  "read_quoted (escape_dquotes (double_backslashes v) @ dquote # rest) = Some (v, rest)"
proof (induction v)
  case Nil
  then show ?case by (simp add: escape_dquotes_def double_backslashes_def)
next
  case (Cons c v)
  have "escape_dquotes (double_backslashes (c # v)) =
    (if c = backslash then [backslash, backslash] else if c = dquote then [backslash, dquote] else [c]) @
      escape_dquotes (double_backslashes v)"
    by (simp add: escape_dquotes_def double_backslashes_def)
  with Cons show ?case by auto
qed

lemma hd_key_name: "hd (key_name k) \<noteq> hyphen" "\<not> is_space (hd (key_name k))" "key_name k \<noteq> []"
  using KEY_PATTERN_units[OF KEY_PATTERN_name, of k] key_unit_props list.set_sel(1) by metis+

lemma starts_with_hd: "s \<noteq> [] \<Longrightarrow> starts_with [x] s \<longleftrightarrow> hd s = x"
  by (cases s) auto

lemma chunk_sign:
  assumes "w \<noteq> []" "\<not> is_space (hd w)" "neg \<or> hd w \<noteq> hyphen"
    and "v \<noteq> [] \<or> quo \<or> key \<noteq> None"
    and "\<And>rest. rest = [] \<or> is_space (hd rest) \<Longrightarrow>
      \<exists>r2. split_key (w @ rest) = (key, r2) \<and> quo = starts_with [dquote] r2 \<and>
        (if quo then read_quoted (tl r2) else Some (read_bare r2)) = Some (v, rest)"
  shows "chunk (sign_prefix neg @ w) (neg, key, v, quo)"
proof -
  have "\<not> is_space hyphen" by (simp add: js_eval)
  have "read_parts (sign_prefix neg @ w @ rest) = Some (neg, key, v, quo, rest)"
    if r: "rest = [] \<or> is_space (hd rest)" for rest
  proof -
    from assms(5)[OF r] obtain r2 where r2: "split_key (w @ rest) = (key, r2)"
      "quo = starts_with [dquote] r2" "(if quo then read_quoted (tl r2) else Some (read_bare r2)) = Some (v, rest)"
      by blast
    have "starts_with [hyphen] (sign_prefix neg @ w @ rest) = neg"
      using assms(1,3) by (cases w) (auto simp: sign_prefix_def)
    moreover have "(if neg then tl (sign_prefix neg @ w @ rest) else sign_prefix neg @ w @ rest) = w @ rest"
      by (simp add: sign_prefix_def)
    ultimately show ?thesis using r2 by (simp add: read_parts_def Let_def)
  qed
  with assms \<open>\<not> is_space hyphen\<close> show ?thesis by (simp add: chunk_def sign_prefix_def)
qed

lemma chunk_keyed_bare:
  assumes "v \<noteq> []" "no_space v" "hd v \<noteq> dquote"
  shows "chunk (sign_prefix neg @ key_name k @ colon # v) (neg, Some (key_name k), v, False)"
proof (rule chunk_sign)
  show "key_name k @ colon # v \<noteq> []" by simp
  show "\<not> is_space (hd (key_name k @ colon # v))" "neg \<or> hd (key_name k @ colon # v) \<noteq> hyphen"
    using hd_key_name[of k] by auto
  fix rest :: jstr
  assume r: "rest = [] \<or> is_space (hd rest)"
  have "\<not> starts_with [dquote] (v @ rest)" using assms by (simp add: starts_with_hd)
  with r assms(2) show "\<exists>r2. split_key ((key_name k @ colon # v) @ rest) = (Some (key_name k), r2) \<and>
     False = starts_with [dquote] r2 \<and> (if False then read_quoted (tl r2) else Some (read_bare r2)) = Some (v, rest)"
    by (simp add: split_key_named read_bare_word)
qed simp

lemma chunk_keyed_quoted:
  "chunk (sign_prefix neg @ key_name k @ colon # quote_value v) (neg, Some (key_name k), v, True)"
proof (rule chunk_sign)
  show "\<not> is_space (hd (key_name k @ colon # quote_value v))"
    "neg \<or> hd (key_name k @ colon # quote_value v) \<noteq> hyphen"
    using hd_key_name[of k] by auto
  fix rest :: jstr
  show "\<exists>r2. split_key ((key_name k @ colon # quote_value v) @ rest) = (Some (key_name k), r2) \<and>
     True = starts_with [dquote] r2 \<and> (if True then read_quoted (tl r2) else Some (read_bare r2)) = Some (v, rest)"
    by (simp add: split_key_named quote_value_def read_quoted_escaped)
qed simp_all

text \<open>Words of the search text: bare, quoted, and with a sign.\<close>

lemma chunk_bare_word:
  assumes "w \<noteq> []" "no_space w" "colon \<notin> set w" "hd w \<noteq> dquote" "neg \<or> hd w \<noteq> hyphen"
  shows "chunk (sign_prefix neg @ w) (neg, None, w, False)"
proof (rule chunk_sign)
  show "\<not> is_space (hd w)" using assms by (cases w) (auto simp: no_space_def)
  fix rest :: jstr
  assume r: "rest = [] \<or> is_space (hd rest)"
  have "\<not> starts_with [dquote] (w @ rest)" using assms by (simp add: starts_with_hd)
  with r assms show "\<exists>r2. split_key (w @ rest) = (None, r2) \<and> False = starts_with [dquote] r2 \<and>
     (if False then read_quoted (tl r2) else Some (read_bare r2)) = Some (w, rest)"
    by (simp add: split_key_word read_bare_word)
qed (use assms in auto)

lemma chunk_quoted_word: "chunk (sign_prefix False @ quote_value w) (False, None, w, True)"
proof (rule chunk_sign)
  show "\<not> is_space (hd (quote_value w))" "False \<or> hd (quote_value w) \<noteq> hyphen"
    by (simp_all add: quote_value_def js_eval)
  fix rest :: jstr
  show "\<exists>r2. split_key (quote_value w @ rest) = (None, r2) \<and> True = starts_with [dquote] r2 \<and>
     (if True then read_quoted (tl r2) else Some (read_bare r2)) = Some (w, rest)"
    by (simp add: split_key_def quote_value_def read_quoted_escaped)
qed (simp_all add: quote_value_def)

text \<open>
  The words of a search text that survive printing: no word is empty, and a word that starts
  with a hyphen is a sign before a plain word.
\<close>

definition plain_word :: "jstr \<Rightarrow> bool" where
  "plain_word w \<longleftrightarrow> w \<noteq> [] \<and> no_space w \<and> colon \<notin> set w \<and> hd w \<noteq> dquote"

definition stable_word :: "jstr \<Rightarrow> bool" where
  "stable_word w \<longleftrightarrow> w \<noteq> [] \<and> (hd w = hyphen \<longrightarrow> plain_word (tl w))"

definition stable_text :: "jstr \<Rightarrow> bool" where
  "stable_text txt \<longleftrightarrow> list_all stable_word (split_on blank_unit txt)"

definition word_core :: "jstr \<Rightarrow> bool \<times> jstr option \<times> jstr \<times> bool" where
  "word_core w = (if hd w = hyphen then (True, None, tl w, False) else (False, None, w, needs_quotes w))"

lemma no_quotes_word:
  assumes "\<not> needs_quotes w"
  shows "w \<noteq> [] \<and> no_space w \<and> colon \<notin> set w \<and> hd w \<noteq> dquote \<and> hd w \<noteq> hyphen"
  using assms by (cases w) (auto simp: needs_quotes_def no_space_def list_all_iff list_ex_iff)

lemma chunk_word:
  assumes "stable_word w"
  shows "chunk (if needs_quotes w \<and> \<not> starts_with [hyphen] w then quote_value w else w) (word_core w)"
proof (cases "hd w = hyphen")
  case True
  with assms have p: "plain_word (tl w)" and w: "w = sign_prefix True @ tl w"
    by (auto simp: stable_word_def sign_prefix_def) (metis list.collapse)
  have "chunk (sign_prefix True @ tl w) (True, None, tl w, False)"
    by (rule chunk_bare_word) (use p in \<open>auto simp: plain_word_def\<close>)
  moreover have "starts_with [hyphen] w" using True assms by (simp add: starts_with_hd stable_word_def)
  ultimately show ?thesis using True w by (simp add: word_core_def)
next
  case False
  with assms have "\<not> starts_with [hyphen] w" by (simp add: starts_with_hd stable_word_def)
  with False show ?thesis
    using chunk_quoted_word[of w] chunk_bare_word[of w False] no_quotes_word[of w]
    by (auto simp: word_core_def sign_prefix_def)
qed

section \<open>What a token adds to the parser's state\<close>

lemma core_fields: "core t = (neg, key, v, quo) \<Longrightarrow>
    negated t = neg \<and> tok_key t = key \<and> tok_value t = v \<and> quoted t = quo"
  by (auto simp: core_def)

lemma parse_token_equality:
  assumes "core t = (neg, Some (key_name k), v, quo)" and "\<not> is_range_key k" "v \<noteq> []"
    and "case ENUMERATED_VALUES k of None \<Rightarrow> True | Some allowed \<Rightarrow> v \<in> set allowed"
  shows "parse_token resolve st t = Inr (st\<lparr>ps_filters :=
    add_equality_value k (if neg then Not_eq else Eq) v (ps_filters st)\<rparr>)"
  using assms core_fields[OF assms(1)]
  by (cases "ENUMERATED_VALUES k")
    (simp_all add: parse_token_def parse_key_token_def check_enumerated_value_def)

lemma contains_sub_found: "find_sub p s = Some i \<Longrightarrow> contains_sub p s"
  by (simp add: contains_sub_def)

lemma range_op_of_core: "core t = (q = Not_range, key, v, quo) \<Longrightarrow> range_op_of t = q"
  by (cases q) (auto simp: core_def range_op_of_def)

lemma parse_token_range:
  assumes "core t = (q = Not_range, Some (key_name k), lo @ range_separator @ hi, False)"
    and "find_sub range_separator (lo @ range_separator @ hi) = Some (length lo)"
    and "is_range_key k" "lo \<noteq> []" "hi \<noteq> []"
    and "is_numeric_range_key k \<Longrightarrow> to_numeric_range k lo hi t = Inr f"
    and "is_temporal_range_key k \<Longrightarrow> to_temporal_range resolve k lo hi t = Inr f"
  shows "parse_token resolve st t = Inr (push_filter f st)"
proof -
  note c = core_fields[OF assms(1)]
  have "to_range_filter resolve k t = Inr f"
    using c assms(2-7) by (auto simp: to_range_filter_def Let_def is_range_key_def dest: numeric_not_temporal)
  with c assms(2,3) show ?thesis
    by (simp add: parse_token_def parse_key_token_def contains_sub_found)
qed

subsection \<open>Numeric ranges\<close>

lemma integer_text_show [simp]: "integer_text (show_int a) = Some a"
proof (cases "a < 0")
  case True
  then show ?thesis by (simp add: integer_text_def show_int_def starts_with_single)
next
  case False
  have "\<not> starts_with [hyphen] (show_nat (nat a))"
    using show_nat_digits[of "nat a"] not_digit_hyphen by (auto simp: starts_with_single)
  with False show ?thesis by (simp add: integer_text_def show_int_def)
qed

lemma find_sub_separator:
  "ch CHR ''.'' \<notin> set x \<Longrightarrow> find_sub range_separator (x @ range_separator @ y) = Some (length x)"
  by (induction x) (auto simp: range_separator_def)

lemma not_digit_dot [simp]: "\<not> is_digit (ch CHR ''.'')"
  by (simp add: js_eval)

lemma show_int_units: "c \<in> set (show_int a) \<Longrightarrow> is_digit c \<or> c = hyphen"
  using show_nat_digits[of "nat a"] show_nat_digits[of "nat (- a)"]
  by (auto simp: show_int_def list_all_iff split: if_splits)

lemma show_int_props:
  "show_int a \<noteq> []" "ch CHR ''.'' \<notin> set (show_int a)" "no_space (show_int a)" "dquote \<notin> set (show_int a)"
proof -
  show "show_int a \<noteq> []" by (simp add: show_int_def)
  have "\<not> is_digit dquote" "\<not> is_space hyphen" by (simp_all add: js_eval)
  then show "ch CHR ''.'' \<notin> set (show_int a)" "no_space (show_int a)" "dquote \<notin> set (show_int a)"
    by (auto simp: no_space_def list_all_iff digit_not_space dest!: show_int_units)
qed

lemma no_space_append [simp]: "no_space (s @ t) \<longleftrightarrow> no_space s \<and> no_space t"
  by (simp add: no_space_def)

lemma no_space_separator [simp]: "no_space range_separator" "range_separator \<noteq> []"
  by (simp_all add: no_space_def range_separator_def js_eval)

lemma parse_token_numeric:
  assumes "core t = (q = Not_range, Some (key_name k), show_int a @ range_separator @ show_int b, False)"
    and wf: "wf_filter resolve (Numeric_range_filter k q a b)"
  shows "parse_token resolve st t = Inr (push_filter (Numeric_range_filter k q a b) st)"
proof (rule parse_token_range[OF assms(1)])
  show "find_sub range_separator (show_int a @ range_separator @ show_int b) = Some (length (show_int a))"
    by (rule find_sub_separator) (rule show_int_props)
  show "is_range_key k" using wf by (simp add: is_range_key_def)
  show "to_numeric_range k (show_int a) (show_int b) t = Inr (Numeric_range_filter k q a b)"
    using wf range_op_of_core[OF assms(1)]
    by (auto simp: to_numeric_range_def parse_numeric_bound_def split: option.splits)
  show "is_temporal_range_key k \<Longrightarrow>
    to_temporal_range resolve k (show_int a) (show_int b) t = Inr (Numeric_range_filter k q a b)"
    using wf numeric_not_temporal by auto
qed (simp_all add: show_int_props)

lemma chunk_numeric:
  "chunk (sign_prefix neg @ key_name k @ [colon] @ show_int a @ range_separator @ show_int b)
     (neg, Some (key_name k), show_int a @ range_separator @ show_int b, False)"
proof -
  have "hd (show_int a @ range_separator @ show_int b) \<noteq> dquote"
    using show_int_props(1,4)[of a] by (cases "show_int a") auto
  then show ?thesis
    using chunk_keyed_bare[of "show_int a @ range_separator @ show_int b" neg k]
    by (simp add: show_int_props)
qed

subsection \<open>Temporal ranges\<close>

lemma DATE_ONLY_units:
  assumes "DATE_ONLY s"
  shows "s \<noteq> [] \<and> (\<forall>c \<in> set s. is_digit c \<or> c = hyphen)"
proof -
  from assms obtain ymd where "split_date s = Some ymd"
    by (auto simp: DATE_ONLY_def split_date_def)
  from split_date_SomeD[OF this] obtain y m d where s: "s = date_text (y, m, d)"
    and f: "0 \<le> y" "0 \<le> m" "0 \<le> d" by (cases ymd) (auto simp: date_fields_def)
  have "list_all is_digit (pad_nat w n)" for w n
    using show_nat_digits[of n] by (auto simp: pad_nat_def list_all_iff js_eval)
  with f show ?thesis
    unfolding s date_text_def by (auto simp: pad_eq_pad_nat list_all_iff)
qed

lemma bound_ok_first_digit: "bound_ok f \<Longrightarrow> f \<noteq> [] \<and> is_digit (hd f)"
proof -
  have dg: "\<And>s. split_date s \<noteq> None \<Longrightarrow> s \<noteq> [] \<and> is_digit (hd s)"
  proof -
    fix s assume "split_date s \<noteq> None"
    then obtain a b c where sp: "split_on (ch CHR ''-'') s = [a, b, c]" and l: "digits_of_length 4 a"
      by (auto simp: split_date_def date_groups_def split: list.splits if_splits)
    have "s = join_with [ch CHR ''-''] [a, b, c]" using join_split_on[of "ch CHR ''-''" s] sp by simp
    with l show "s \<noteq> [] \<and> is_digit (hd s)" by (cases a) (auto simp: digits_of_length_def)
  qed
  assume "bound_ok f"
  then obtain p where "date_time_of f = Some p" by (auto simp: bound_ok_def split: option.splits)
  then have "split_date f \<noteq> None \<or> split_date (take 10 f) \<noteq> None"
    by (auto simp: date_time_of_def DATE_TIME_def split: option.splits)
  then show ?thesis using dg[of f] dg[of "take 10 f"] by (cases f) auto
qed

lemma check_bound_ok: "check_temporal_bound r t = Inr x \<longleftrightarrow> bound_ok r \<and> x = r"
  by (auto simp: check_temporal_bound_def bound_ok_def split: option.splits prod.splits)

lemma zone_no_space:
  assumes "canonical_time_zone resolve z = Some z'"
  shows "no_space z"
proof -
  from assms have zn: "list_all (\<lambda>seg. seg \<noteq> [] \<and> list_all zone_unit seg) (split_on (ch CHR ''/'') z)"
    by (auto simp: canonical_time_zone_def ZONE_NAME_def split: if_splits list.splits)
  have units: "set (join_with [x] segs) \<subseteq> insert x (\<Union> (set ` set segs))" for x :: unit16 and segs
    by (induction segs rule: induct_list012) auto
  have z: "join_with [ch CHR ''/''] (split_on (ch CHR ''/'') z) = z" by simp
  have "\<not> is_space c" if "c \<in> set z" for c
  proof -
    from that units[of "ch CHR ''/''" "split_on (ch CHR ''/'') z"]
    have "c = ch CHR ''/'' \<or> (\<exists>seg \<in> set (split_on (ch CHR ''/'') z). c \<in> set seg)" unfolding z by blast
    with zn have "c = ch CHR ''/'' \<or> zone_unit c" by (auto simp: list_all_iff)
    then show ?thesis unfolding zone_unit_def js_eval by unat_arith
  qed
  then show ?thesis by (simp add: no_space_def list_all_iff)
qed

lemma find_index_SomeD: "find_index P xs = Some i \<Longrightarrow> \<exists>x \<in> set xs. P x"
  by (metis find_index_None not_None_eq)

lemma chunk_temporal:
  assumes "wf_filter resolve (Temporal_range_filter k q f t zone)"
  shows "chunk (sign_prefix neg @ key_name k @ [colon] @ f @ range_separator @ t @
      (case zone of None \<Rightarrow> [] | Some z \<Rightarrow> time_zone_mark # z))
    (neg, Some (key_name k), f @ range_separator @ t @
      (case zone of None \<Rightarrow> [] | Some z \<Rightarrow> time_zone_mark # z), False)"
proof -
  have f: "f \<noteq> []" "is_digit (hd f)" using assms bound_ok_first_digit by auto
  then have "hd f \<noteq> dquote" by (auto simp: js_eval)
  have ds: "no_space s" if "DATE_ONLY s" for s
  proof -
    have "\<not> is_space hyphen" by (simp add: js_eval)
    with DATE_ONLY_units[OF that] show ?thesis by (auto simp: no_space_def list_all_iff digit_not_space)
  qed
  have "\<not> is_space time_zone_mark" by (simp add: time_zone_mark_def js_eval)
  then have "no_space (f @ range_separator @ t @ (case zone of None \<Rightarrow> [] | Some z \<Rightarrow> time_zone_mark # z))"
    using assms ds zone_no_space by (auto simp: no_space_def no_space_separator[unfolded no_space_def] split: option.splits)
  with f \<open>hd f \<noteq> dquote\<close> show ?thesis by (simp add: chunk_keyed_bare)
qed

lemma parse_token_temporal:
  assumes core: "core tok = (q = Not_range, Some (key_name k), f @ range_separator @ t @
      (case zone of None \<Rightarrow> [] | Some z \<Rightarrow> time_zone_mark # z), False)"
    and wf: "wf_filter resolve (Temporal_range_filter k q f t zone)"
  shows "parse_token resolve st tok = Inr (push_filter (Temporal_range_filter k q f t zone) st)"
proof (rule parse_token_range[OF core])
  note op = range_op_of_core[OF core]
  have tk: "is_temporal_range_key k" and b: "bound_ok f" "bound_ok t" using wf by auto
  then show "is_range_key k" "f \<noteq> []" "t @ (case zone of None \<Rightarrow> [] | Some z \<Rightarrow> time_zone_mark # z) \<noteq> []"
    using bound_ok_first_digit by (auto simp: is_range_key_def)
  show "is_numeric_range_key k \<Longrightarrow> to_numeric_range k f
      (t @ (case zone of None \<Rightarrow> [] | Some z \<Rightarrow> time_zone_mark # z)) tok =
    Inr (Temporal_range_filter k q f t zone)"
    using tk numeric_not_temporal by auto
  show "find_sub range_separator (f @ range_separator @ t @
      (case zone of None \<Rightarrow> [] | Some z \<Rightarrow> time_zone_mark # z)) = Some (length f)"
    using wf DATE_ONLY_units[of f] by (auto intro!: find_sub_separator split: option.splits)
  have marks: "time_zone_mark \<notin> set s" if "DATE_ONLY s" for s
    using DATE_ONLY_units[OF that] by (auto simp: time_zone_mark_def js_eval)
  have chk: "check_temporal_bound f tok = Inr f" "check_temporal_bound t tok = Inr t"
    using b by (simp_all add: check_bound_ok)
  show "to_temporal_range resolve k f (t @ (case zone of None \<Rightarrow> [] | Some z \<Rightarrow> time_zone_mark # z)) tok =
    Inr (Temporal_range_filter k q f t zone)"
  proof (cases zone)
    case None
    with wf have "split_time_zone resolve f t tok = Inr None"
      by (auto simp: split_time_zone_def split: option.split dest!: find_index_SomeD)
    moreover obtain a b where "instant_of f = Some a" "instant_of t = Some b"
      using b by (auto simp: bound_ok_def split: option.splits)
    ultimately show ?thesis using None wf chk op by (simp add: to_temporal_range_def)
  next
    case (Some z)
    with wf have z: "DATE_ONLY f" "DATE_ONLY t" "\<not> str_less t f" "canonical_time_zone resolve z = Some z" by auto
    have "find_index (\<lambda>c. c = time_zone_mark) (t @ time_zone_mark # z) = Some (length t)"
      using marks[OF z(2)] by (intro find_index_append) auto
    with z marks[OF z(1)] chk op DATE_ONLY_units[OF z(2)] show ?thesis
      by (simp add: Some to_temporal_range_def split_time_zone_def)
  qed
qed

section \<open>Whole trees\<close>

lemma chunk_value:
  assumes "v \<noteq> []"
  shows "chunk (sign_prefix neg @ key_name k @ [colon] @ render_value v)
    (neg, Some (key_name k), v, needs_quotes v)"
  using assms chunk_keyed_quoted[of neg k v] chunk_keyed_bare[of v neg k] no_quotes_word[of v]
  by (auto simp: render_value_def)

fun filter_cores :: "query_filter \<Rightarrow> (bool \<times> jstr option \<times> jstr \<times> bool) list" where
  "filter_cores (Equality_filter k p vs) =
     map (\<lambda>v. (p = Not_eq, Some (key_name k), v, needs_quotes v)) vs"
| "filter_cores (Numeric_range_filter k q a b) =
     [(q = Not_range, Some (key_name k), show_int a @ range_separator @ show_int b, False)]"
| "filter_cores (Temporal_range_filter k q f t zone) =
     [(q = Not_range, Some (key_name k), f @ range_separator @ t @
        (case zone of None \<Rightarrow> [] | Some z \<Rightarrow> time_zone_mark # z), False)]"

lemma chunks_filter:
  assumes "wf_filter resolve f"
  shows "list_all2 chunk (render_filter f) (filter_cores f)"
proof (cases f)
  case (Equality_filter k p vs)
  with assms have "\<forall>v \<in> set vs. v \<noteq> []" by auto
  then show ?thesis using chunk_value[of _ "p = Not_eq" k]
    by (simp add: Equality_filter list_all2_conv_all_nth del: append_assoc)
next
  case (Numeric_range_filter k q a b)
  then show ?thesis using chunk_numeric by simp
next
  case (Temporal_range_filter k q f t zone)
  with assms show ?thesis using chunk_temporal by simp
qed

lemma parse_tokens_append:
  "parse_tokens resolve st (ts @ us) =
   bind_result (parse_tokens resolve st ts) (\<lambda>st'. parse_tokens resolve st' us)"
proof (induction ts arbitrary: st)
  case (Cons t ts)
  then show ?case by (cases "parse_token resolve st t") auto
qed simp

lemma parse_more_values:
  assumes "wf_filter resolve (Equality_filter k p (us @ ws))" and "(k, p) \<notin> set (equality_buckets fs)"
    and "map core ts = filter_cores (Equality_filter k p ws)"
    and "ps_filters st = fs @ [Equality_filter k p us]"
  shows "parse_tokens resolve st ts = Inr (st\<lparr>ps_filters := fs @ [Equality_filter k p (us @ ws)]\<rparr>)"
  using assms
proof (induction ws arbitrary: us ts st)
  case Nil
  then show ?case by simp
next
  case (Cons w ws)
  from Cons.prems(3) obtain t ts' where ts: "ts = t # ts'"
    and t: "core t = (p = Not_eq, Some (key_name k), w, needs_quotes w)"
    and ts': "map core ts' = filter_cores (Equality_filter k p ws)" by (cases ts) auto
  have "(if p = Not_eq then Not_eq else Eq) = p" by (cases p) auto
  with Cons.prems(1,2,4) have "parse_token resolve st t =
      Inr (st\<lparr>ps_filters := fs @ [Equality_filter k p (us @ [w])]\<rparr>)"
    by (subst parse_token_equality[OF t]) (auto simp: add_value_last split: option.splits)
  with Cons.IH[of "us @ [w]" ts' "st\<lparr>ps_filters := fs @ [Equality_filter k p (us @ [w])]\<rparr>"]
    Cons.prems(1,2) ts ts' show ?case by simp
qed

lemma parse_filter_tokens:
  assumes "wf_filter resolve f" and "distinct (equality_buckets (ps_filters st @ [f]))"
    and "map core ts = filter_cores f"
  shows "parse_tokens resolve st ts = Inr (st\<lparr>ps_filters := ps_filters st @ [f]\<rparr>)"
proof (cases f)
  case (Equality_filter k p vs)
  with assms obtain w ws where vs: "vs = w # ws" by (cases vs) auto
  from assms(3) Equality_filter vs obtain t ts' where ts: "ts = t # ts'"
    and t: "core t = (p = Not_eq, Some (key_name k), w, needs_quotes w)"
    and ts': "map core ts' = filter_cores (Equality_filter k p ws)" by (cases ts) auto
  have new: "(k, p) \<notin> set (equality_buckets (ps_filters st))" using assms(2) Equality_filter by auto
  have "(if p = Not_eq then Not_eq else Eq) = p" by (cases p) auto
  with assms(1) new Equality_filter vs have "parse_token resolve st t =
      Inr (st\<lparr>ps_filters := ps_filters st @ [Equality_filter k p [w]]\<rparr>)"
    by (subst parse_token_equality[OF t]) (auto simp: add_value_new split: option.splits)
  with parse_more_values[of resolve k p "[w]" ws "ps_filters st" ts'
      "st\<lparr>ps_filters := ps_filters st @ [Equality_filter k p [w]]\<rparr>"]
    assms(1) new ts ts' Equality_filter vs show ?thesis by simp
next
  case (Numeric_range_filter k q a b)
  with assms obtain t where "ts = [t]"
    "core t = (q = Not_range, Some (key_name k), show_int a @ range_separator @ show_int b, False)"
    by (auto simp: map_eq_Cons_conv)
  with parse_token_numeric assms(1) Numeric_range_filter show ?thesis by (simp add: push_filter_def)
next
  case (Temporal_range_filter k q f t zone)
  with assms obtain tok where "ts = [tok]"
    "core tok = (q = Not_range, Some (key_name k), f @ range_separator @ t @
        (case zone of None \<Rightarrow> [] | Some z \<Rightarrow> time_zone_mark # z), False)"
    by (auto simp: map_eq_Cons_conv)
  with parse_token_temporal assms(1) Temporal_range_filter show ?thesis by (simp add: push_filter_def)
qed

lemma parse_filters_tokens:
  assumes "list_all (wf_filter resolve) fs" and "distinct (equality_buckets (ps_filters st @ fs))"
    and "map core ts = concat (map filter_cores fs)"
  shows "parse_tokens resolve st ts = Inr (st\<lparr>ps_filters := ps_filters st @ fs\<rparr>)"
  using assms
proof (induction fs arbitrary: st ts)
  case Nil
  then show ?case by simp
next
  case (Cons f fs)
  from Cons.prems(3) obtain us vs where ts: "ts = us @ vs" and us: "map core us = filter_cores f"
    and vs: "map core vs = concat (map filter_cores fs)" by (auto simp: map_eq_append_conv)
  have "distinct (equality_buckets (ps_filters st @ [f]))" using Cons.prems(2)
    by (cases f) auto
  with parse_filter_tokens[OF _ _ us] Cons.prems(1)
  have "parse_tokens resolve st us = Inr (st\<lparr>ps_filters := ps_filters st @ [f]\<rparr>)" by simp
  moreover have "distinct (equality_buckets ((ps_filters st @ [f]) @ fs))" using Cons.prems(2) by simp
  ultimately show ?case
    using Cons.IH[OF _ _ vs, of "st\<lparr>ps_filters := ps_filters st @ [f]\<rparr>"] Cons.prems(1)
    by (simp add: ts parse_tokens_append)
qed

lemma parse_text_tokens:
  assumes "list_all stable_word ws" and "map core ts = map word_core ws"
  shows "\<exists>st'. parse_tokens resolve st ts = Inr st' \<and> ps_filters st' = ps_filters st \<and>
    ps_terms st' = ps_terms st @ ws"
  using assms
proof (induction ws arbitrary: st ts)
  case Nil
  then show ?case by simp
next
  case (Cons w ws)
  from Cons.prems obtain t ts' where ts: "ts = t # ts'" and t: "core t = word_core w"
    and ts': "map core ts' = map word_core ws" by (cases ts) auto
  have "w \<noteq> []" using Cons.prems(1) by (simp add: stable_word_def)
  then obtain st1 where st1: "parse_token resolve st t = Inr st1" "ps_filters st1 = ps_filters st"
    "ps_terms st1 = ps_terms st @ [w]"
    using t by (cases w) (auto simp: parse_token_def core_def word_core_def split: if_splits)
  from Cons.IH[OF _ ts', of st1] Cons.prems(1) st1 show ?case by (auto simp: ts)
qed

lemma chunks_text:
  assumes "stable_text txt"
  shows "list_all2 chunk (render_text txt) (map word_core (split_on blank_unit txt))"
proof -
  have ok: "list_all stable_word (split_on blank_unit txt)" using assms by (simp add: stable_text_def)
  then have "filter (\<lambda>w. w \<noteq> []) (split_on blank_unit txt) = split_on blank_unit txt"
    by (auto simp: filter_id_conv list_all_iff stable_word_def)
  with ok show ?thesis
    by (auto simp: render_text_def list_all2_map1 list_all2_map2 list_all_iff chunk_word
      intro!: list.rel_refl_strong)
qed

lemma chunks_filters:
  "list_all (wf_filter resolve) fs \<Longrightarrow>
   list_all2 chunk (concat (map render_filter fs)) (concat (map filter_cores fs))"
  by (induction fs) (auto intro: list_all2_appendI chunks_filter)

definition stable_ast :: "query_ast \<Rightarrow> bool" where
  "stable_ast ast \<longleftrightarrow> (case text_of ast of None \<Rightarrow> True | Some txt \<Rightarrow> stable_text txt)"

lemma parse_of_serialized:
  assumes wf: "wf_ast resolve ast" and st: "stable_ast ast"
  shows "parse_query resolve (serialize_query ast) = Inr ast"
proof -
  let ?ws = "case text_of ast of None \<Rightarrow> [] | Some txt \<Rightarrow> split_on blank_unit txt"
  let ?cs = "concat (map filter_cores (filters ast)) @ map word_core ?ws"
  have fs: "list_all (wf_filter resolve) (filters ast)" "distinct (equality_buckets (filters ast))"
    using wf by (auto simp: wf_ast_def)
  have ws: "list_all stable_word ?ws" using st by (auto simp: stable_ast_def stable_text_def split: option.splits)
  have "list_all2 chunk (serialize_parts ast) ?cs"
    unfolding serialize_parts_def using chunks_filters[OF fs(1)] chunks_text st
    by (auto simp: stable_ast_def split: option.splits intro!: list_all2_appendI)
  from tokenize_chunks[OF this] obtain ts where ts: "tokenize (serialize_query ast) = Inr ts"
    "map core ts = ?cs" by (auto simp: serialize_query_def)
  from ts(2) obtain us vs where uv: "ts = us @ vs" and us: "map core us = concat (map filter_cores (filters ast))"
    and vs: "map core vs = map word_core ?ws" by (auto simp: map_eq_append_conv)
  have "parse_tokens resolve initial_parse_state us = Inr (initial_parse_state\<lparr>ps_filters := filters ast\<rparr>)"
    using parse_filters_tokens[OF fs(1) _ us, of initial_parse_state] fs(2) by (simp add: initial_parse_state_def)
  moreover from parse_text_tokens[OF ws vs] obtain st' where
    "parse_tokens resolve (initial_parse_state\<lparr>ps_filters := filters ast\<rparr>) vs = Inr st'"
    "ps_filters st' = filters ast" "ps_terms st' = ?ws" by (fastforce simp: initial_parse_state_def)
  moreover have "finish_parse st' = Inr ast"
    if "ps_filters st' = filters ast" "ps_terms st' = ?ws" for st'
    using that wf split_on_not_Nil[of blank_unit]
    by (cases "text_of ast") (auto simp: finish_parse_def wf_ast_def Let_def)
  ultimately show ?thesis using ts(1) uv by (simp add: parse_query_def parse_tokens_append)
qed

section \<open>The parser's trees satisfy the invariant\<close>

lemma read_parts_bare: "read_parts rest = Some (neg, key, v, quo, r) \<Longrightarrow> quo \<or> no_space v"
  by (auto simp: read_parts_def Let_def read_bare_def no_space_def list_all_iff
      split: prod.splits if_splits dest: set_takeWhileD)

lemma tokenize_loop_bare:
  "tokenize_loop n rest = Inr ts \<Longrightarrow> \<forall>t \<in> set ts. quoted t \<or> no_space (tok_value t)"
proof (induction n rest arbitrary: ts rule: tokenize_loop.induct)
  case (1 n rest)
  show ?case
  proof (cases "rest = []")
    case True
    with "1.prems" show ?thesis by simp
  next
    case False
    with "1.prems" obtain tok r ts' where rt: "read_token n rest = Inr (tok, r)"
      and rec: "tokenize_loop n (skip_space r) = Inr ts'"
      and ts: "ts = (case tok of None \<Rightarrow> ts' | Some t \<Rightarrow> t # ts')"
      by (auto simp: tokenize_loop.simps[of _ rest] split: sum.splits)
    from "1.IH"[OF False rt refl rec] have "\<forall>t \<in> set ts'. quoted t \<or> no_space (tok_value t)" .
    moreover have "\<forall>t. tok = Some t \<longrightarrow> quoted t \<or> no_space (tok_value t)"
      using rt by (auto simp: read_token_def dest!: read_parts_bare split: option.splits if_splits)
    ultimately show ?thesis by (auto simp: ts split: option.splits)
  qed
qed

lemma find_sub_split: "find_sub p s = Some i \<Longrightarrow> s = take i s @ p @ drop (i + length p) s"
proof (induction s arbitrary: i)
  case Nil
  then show ?case by (auto split: if_splits)
next
  case (Cons c s)
  show ?case
  proof (cases "starts_with p (c # s)")
    case True
    with Cons.prems show ?thesis by (auto simp: starts_with_iff)
  next
    case False
    with Cons.prems obtain j where "find_sub p s = Some j" "i = Suc j" by auto
    with Cons.IH[of j] show ?thesis by auto
  qed
qed

lemma find_sub_le: "find_sub p s = Some i \<Longrightarrow> i \<le> length s"
  by (induction s arbitrary: i) (fastforce split: if_splits)+

definition stable_zones :: "(jstr \<Rightarrow> jstr option) \<Rightarrow> bool" where
  "stable_zones resolve \<longleftrightarrow>
     (\<forall>name z. canonical_time_zone resolve name = Some z \<longrightarrow> canonical_time_zone resolve z = Some z)"

lemma numeric_bound_safe: "parse_numeric_bound r t = Inr a \<Longrightarrow> is_safe_integer a"
  by (auto simp: parse_numeric_bound_def split: option.splits if_splits)

lemma to_numeric_range_wf:
  assumes "to_numeric_range k lo hi t = Inr f" and "is_numeric_range_key k"
  shows "wf_filter resolve f \<and> is_range_filter f"
  using assms
  by (auto simp: to_numeric_range_def dest: numeric_bound_safe split: if_splits option.splits)

lemma to_single_value_wf:
  assumes "to_single_value_range_filter k t = Inr f" and "accepts_single_value k"
  shows "wf_filter resolve f \<and> is_range_filter f"
proof -
  from assms(1) obtain v where "parse_numeric_bound (tok_value t) t = Inr v"
    by (auto simp: to_single_value_range_filter_def)
  with assms accepts_single_numeric[OF assms(2)] numeric_bound_safe show ?thesis
    by (cases "MIN_RANGE_VALUE k") (auto simp: to_single_value_range_filter_def split: if_splits)
qed

lemma split_time_zone_None:
  "split_time_zone resolve lo hi t = Inr None \<Longrightarrow> time_zone_mark \<notin> set lo \<and> time_zone_mark \<notin> set hi"
  by (auto simp: split_time_zone_def Let_def split: if_splits option.splits)

lemma split_time_zone_Some:
  assumes "split_time_zone resolve lo hi t = Inr (Some (f, u, z))" and "stable_zones resolve"
  shows "DATE_ONLY f \<and> DATE_ONLY u \<and> bound_ok f \<and> bound_ok u \<and> \<not> str_less u f \<and>
    canonical_time_zone resolve z = Some z"
  using assms
  by (auto simp: split_time_zone_def Let_def check_bound_ok stable_zones_def split: if_splits option.splits)

lemma bound_ok_instant: "bound_ok f \<Longrightarrow> \<exists>i. instant_of f = Some i"
  by (auto simp: bound_ok_def split: option.splits)

lemma to_temporal_range_wf:
  assumes f: "to_temporal_range resolve k lo hi t = Inr f" and k: "is_temporal_range_key k"
    and z: "stable_zones resolve" and v: "no_space (lo @ range_separator @ hi)"
    and sep: "find_sub range_separator (lo @ range_separator @ hi) = Some (length lo)"
  shows "wf_filter resolve f \<and> is_range_filter f"
proof -
  from f obtain zoned where sp: "split_time_zone resolve lo hi t = Inr zoned"
    by (auto simp: to_temporal_range_def)
  show ?thesis
  proof (cases zoned)
    case None
    with f sp obtain "bound_ok lo" "bound_ok hi" by (auto simp: to_temporal_range_def check_bound_ok)
    moreover from this bound_ok_instant obtain a b where "instant_of lo = Some a" "instant_of hi = Some b"
      by blast
    ultimately show ?thesis using None f sp k v sep split_time_zone_None[of resolve lo hi t]
      by (auto simp: to_temporal_range_def check_bound_ok split: if_splits)
  next
    case (Some c)
    with f sp k split_time_zone_Some[OF _ z] show ?thesis
      by (cases c) (auto simp: to_temporal_range_def)
  qed
qed

lemma to_range_filter_wf:
  assumes f: "to_range_filter resolve k t = Inr f" and k: "is_range_key k" and z: "stable_zones resolve"
    and c: "contains_sub range_separator (tok_value t)" and v: "no_space (tok_value t)"
  shows "wf_filter resolve f \<and> is_range_filter f"
proof -
  from c obtain i where i: "find_sub range_separator (tok_value t) = Some i"
    by (auto simp: contains_sub_def)
  define lo where "lo = take i (tok_value t)"
  define hi where "hi = drop (i + length range_separator) (tok_value t)"
  have val: "tok_value t = lo @ range_separator @ hi" using find_sub_split[OF i] by (simp add: lo_def hi_def)
  have "length lo = i" using find_sub_le[OF i] by (simp add: lo_def)
  with i val v have sep: "find_sub range_separator (lo @ range_separator @ hi) = Some (length lo)"
    and nv: "no_space (lo @ range_separator @ hi)" by auto
  from f i consider "is_numeric_range_key k" "to_numeric_range k lo hi t = Inr f"
    | "is_temporal_range_key k" "to_temporal_range resolve k lo hi t = Inr f"
    by (auto simp: to_range_filter_def lo_def hi_def Let_def split: if_splits)
  then show ?thesis
    using to_numeric_range_wf to_temporal_range_wf[OF _ _ z nv sep] by cases auto
qed

definition state_ok :: "(jstr \<Rightarrow> jstr option) \<Rightarrow> parse_state \<Rightarrow> bool" where
  "state_ok resolve st \<longleftrightarrow>
     list_all (wf_filter resolve) (ps_filters st) \<and> distinct (equality_buckets (ps_filters st))"

lemma state_ok_push:
  "state_ok resolve st \<Longrightarrow> wf_filter resolve f \<and> is_range_filter f \<Longrightarrow> state_ok resolve (push_filter f st)"
  by (cases f) (auto simp: state_ok_def push_filter_def)

lemma state_ok_add:
  "state_ok resolve st \<Longrightarrow> wf_filter resolve (Equality_filter k p [v]) \<Longrightarrow>
   state_ok resolve (st\<lparr>ps_filters := add_equality_value k p v (ps_filters st)\<rparr>)"
  by (auto simp: state_ok_def add_value_buckets intro!: add_value_wf)

lemma parse_token_ok:
  assumes "parse_token resolve st t = Inr st'" and "state_ok resolve st" and z: "stable_zones resolve"
    and v: "quoted t \<or> no_space (tok_value t)"
  shows "state_ok resolve st'"
proof (cases "tok_key t")
  case None
  with assms show ?thesis by (auto simp: parse_token_def state_ok_def)
next
  case (Some name)
  with assms(1) obtain k where key: "key_of_name name = Some k"
    and p: "parse_key_token resolve st t name = Inr st'"
    by (auto simp: parse_token_def parse_key_token_def split: option.splits)
  from p key v consider
      f where "to_range_filter resolve k t = Inr f" "st' = push_filter f st" "is_range_key k"
        "contains_sub range_separator (tok_value t)" "no_space (tok_value t)"
    | f where "to_single_value_range_filter k t = Inr f" "st' = push_filter f st" "accepts_single_value k"
    | op where "st' = st\<lparr>ps_filters := add_equality_value k op (tok_value t) (ps_filters st)\<rparr>"
        "\<not> is_range_key k" "tok_value t \<noteq> []" "check_enumerated_value k t = Inr ()"
    by (auto simp: parse_key_token_def split: if_splits)
  then show ?thesis
  proof cases
    case 1
    with assms(2) to_range_filter_wf[OF 1(1,3) z 1(4,5)] show ?thesis by (simp add: state_ok_push)
  next
    case 2
    with assms(2) to_single_value_wf[OF 2(1,3)] show ?thesis by (simp add: state_ok_push)
  next
    case 3
    then have "wf_filter resolve (Equality_filter k op [tok_value t])"
      by (auto simp: check_enumerated_value_def split: option.splits if_splits)
    with 3 assms(2) show ?thesis by (simp add: state_ok_add)
  qed
qed

lemma parse_tokens_ok:
  assumes "parse_tokens resolve st ts = Inr st'" and "state_ok resolve st" and "stable_zones resolve"
    and "\<forall>t \<in> set ts. quoted t \<or> no_space (tok_value t)"
  shows "state_ok resolve st'"
  using assms by (induction ts arbitrary: st) (auto dest: parse_token_ok)

lemma parsed_wf:
  assumes "parse_query resolve input = Inr ast" and "stable_zones resolve"
  shows "wf_ast resolve ast"
proof -
  from assms(1) obtain ts st where ts: "tokenize input = Inr ts"
    and st: "parse_tokens resolve initial_parse_state ts = Inr st" and fin: "finish_parse st = Inr ast"
    by (auto simp: parse_query_def)
  have "state_ok resolve initial_parse_state" by (simp add: state_ok_def initial_parse_state_def)
  with parse_tokens_ok[OF st _ assms(2)] tokenize_loop_bare ts have "state_ok resolve st"
    by (simp add: tokenize_def)
  with fin show ?thesis
    by (auto simp: finish_parse_def wf_ast_def state_ok_def Let_def split: if_splits)
qed

end
