(* ===== verification/Query_Edits.thy ===== *)
theory Query_Edits
  imports Query_Roundtrip
begin

text \<open>
  The properties of printing and editing syntax trees: the round trip of accepted queries, the
  edits of the search screen and of the drill-downs (\<open>addEquality\<close>, \<open>replaceEquality\<close>,
  \<open>intersectNumericRange\<close>), and the queries for which the round trip fails.
\<close>

section \<open>Edits keep the invariant\<close>

lemma add_equality_is_add_value:
  "add_equality ast key v = ast\<lparr>filters := add_equality_value key Eq v (filters ast)\<rparr>"
proof -
  have "(case find_index (is_equality_on key Eq) fs of
        None \<Rightarrow> fs @ [Equality_filter key Eq [v]]
      | Some i \<Rightarrow> if v \<in> set (filter_values (fs ! i)) then fs else fs[i := push_value v (fs ! i)]) =
    add_equality_value key Eq v fs" for fs
  proof (induction fs)
    case (Cons f fs)
    then show ?case
      by (cases f) (auto simp del: find_index_None split: option.splits)
  qed simp
  note fs = this[of "filters ast", symmetric]
  show ?thesis unfolding fs by (simp add: add_equality_def del: find_index_None split: option.split)
qed

definition equality_value_ok :: "query_key \<Rightarrow> jstr \<Rightarrow> bool" where
  "equality_value_ok key v \<longleftrightarrow> \<not> is_range_key key \<and> v \<noteq> [] \<and>
     (case ENUMERATED_VALUES key of None \<Rightarrow> True | Some allowed \<Rightarrow> v \<in> set allowed)"

lemma wf_single_value: "wf_filter resolve (Equality_filter key op [v]) \<longleftrightarrow> equality_value_ok key v"
  by (auto simp: equality_value_ok_def split: option.splits)

lemma add_equality_wf:
  assumes "wf_ast resolve ast" and "equality_value_ok key v"
  shows "wf_ast resolve (add_equality ast key v)"
proof -
  have "list_all (wf_filter resolve) (add_equality_value key Eq v (filters ast))"
    using assms by (intro add_value_wf) (simp_all add: wf_ast_def wf_single_value del: wf_filter.simps)
  with assms(1) show ?thesis
    by (simp add: add_equality_is_add_value wf_ast_def add_value_buckets)
qed

lemma buckets_without:
  "equality_buckets (filter (\<lambda>f. \<not> is_equality_on key op f) fs) =
   filter (\<lambda>b. b \<noteq> (key, op)) (equality_buckets fs)"
proof (induction fs)
  case (Cons f fs)
  then show ?case by (cases f) auto
qed simp

lemma replace_equality_wf:
  assumes "wf_ast resolve ast" and "equality_value_ok key v"
  shows "wf_ast resolve (replace_equality ast key v)"
  using assms
  by (auto simp: wf_ast_def replace_equality_def buckets_without wf_single_value list_all_iff
      simp del: wf_filter.simps)

lemma edits_keep_text:
  "stable_ast (add_equality ast key v) = stable_ast ast"
  "stable_ast (replace_equality ast key v) = stable_ast ast"
  "stable_ast (intersect_numeric_range ast key a b) = stable_ast ast"
  by (simp_all add: stable_ast_def add_equality_is_add_value replace_equality_def
      intersect_numeric_range_def Let_def)

text \<open>
  Intersecting narrows every predicate on filters that reads a range of the key as a bound on
  one number, as long as the tree has at most one such range.
\<close>

definition range_count :: "query_ast \<Rightarrow> query_key \<Rightarrow> nat" where
  "range_count ast key = length (filter (is_range_on key Range) (filters ast))"

lemma is_range_on_numeric:
  assumes "is_range_on key Range f" "wf_filter resolve f" "is_numeric_range_key key"
  obtains a b where "f = Numeric_range_filter key Range a b"
proof (cases f)
  case (Numeric_range_filter k op a b)
  with assms(1) have "k = key" "op = Range" by (cases op; simp)+
  with Numeric_range_filter that show ?thesis by simp
qed (use assms numeric_not_temporal in auto)

lemma find_filter: "find P xs = (case filter P xs of [] \<Rightarrow> None | x # _ \<Rightarrow> Some x)"
  by (induction xs) auto

lemma list_all_split: "list_all P xs \<longleftrightarrow> list_all P (filter (\<lambda>x. \<not> Q x) xs) \<and> list_all P (filter Q xs)"
  by (auto simp: list_all_iff)

lemma intersect_list_all:
  assumes wf: "wf_ast resolve ast" and key: "is_numeric_range_key key" and one: "range_count ast key \<le> 1"
    and P: "\<And>a b. P (Numeric_range_filter key Range a b) \<longleftrightarrow> a \<le> n \<and> n \<le> b"
  shows "list_all P (filters (intersect_numeric_range ast key lo hi)) \<longleftrightarrow>
    list_all P (filters ast) \<and> lo \<le> n \<and> n \<le> hi"
proof -
  note split = list_all_split[of P "filters ast" "is_range_on key Range"]
  show ?thesis
  proof (cases "filter (is_range_on key Range) (filters ast)")
    case Nil
    then show ?thesis unfolding split by (auto simp: intersect_numeric_range_def find_filter P)
  next
    case (Cons f rest)
    with one have rest: "rest = []" by (simp add: range_count_def)
    have "is_range_on key Range f" "f \<in> set (filters ast)" using Cons by (auto simp: filter_eq_Cons_iff)
    with wf key obtain a b where "f = Numeric_range_filter key Range a b"
      by (auto simp: wf_ast_def list_all_iff elim: is_range_on_numeric)
    with Cons rest show ?thesis unfolding split by (auto simp: intersect_numeric_range_def find_filter P)
  qed
qed

section \<open>The values of a key\<close>

text \<open>
  The values a query gives for a key and polarity, in the order of its tokens, and those the tree has.
  \<open>remdups\<close> keeps the last of equal elements, so between two reversals it keeps the first.
\<close>

definition token_values :: "query_key \<Rightarrow> eq_op \<Rightarrow> raw_token list \<Rightarrow> jstr list" where
  "token_values key op ts =
     map tok_value (filter (\<lambda>t. tok_key t = Some (key_name key) \<and> op = (if negated t then Not_eq else Eq)) ts)"

definition values_of :: "query_key \<Rightarrow> eq_op \<Rightarrow> query_filter list \<Rightarrow> jstr list" where
  "values_of key op fs = (case find (is_equality_on key op) fs of None \<Rightarrow> [] | Some f \<Rightarrow> filter_values f)"

definition add_last :: "'a \<Rightarrow> 'a list \<Rightarrow> 'a list" where
  "add_last v vs = (if v \<in> set vs then vs else vs @ [v])"

lemma fold_add_last: "fold add_last xs [] = rev (remdups (rev xs))"
proof (induction xs rule: rev_induct)
  case (snoc x xs)
  then show ?case by (simp add: add_last_def)
qed simp

lemma values_of_add:
  "values_of key op (add_equality_value k p v fs) =
     (if k = key \<and> p = op then add_last v (values_of key op fs) else values_of key op fs)"
proof (induction fs)
  case (Cons f fs)
  then show ?case by (cases f) (auto simp: values_of_def add_last_def)
qed (simp add: values_of_def add_last_def)

lemma values_of_push: "is_range_filter f \<Longrightarrow> values_of key op (fs @ [f]) = values_of key op fs"
  by (cases f) (auto simp: values_of_def find_append split: option.splits)

lemma compared_bounds:
  "(case (x, y) of (Some u, Some v) \<Rightarrow> if u > v then Inl e else Inr f | _ \<Rightarrow> Inr f) = Inr g \<Longrightarrow> g = f"
  for x y :: "int option"
  by (cases x; cases y) (auto split: if_splits)

lemma to_temporal_range_is_range: "to_temporal_range resolve k lo hi t = Inr f \<Longrightarrow> is_range_filter f"
proof -
  assume "to_temporal_range resolve k lo hi t = Inr f"
  then obtain zoned where rest: "(case zoned of
      Some (u, v, zone) \<Rightarrow> Inr (Temporal_range_filter k (range_op_of t) u v (Some zone))
    | None \<Rightarrow>
        bind_result (check_temporal_bound lo t) (\<lambda>low.
        bind_result (check_temporal_bound hi t) (\<lambda>high.
          (case (instant_of low, instant_of high) of
             (Some a, Some b) \<Rightarrow>
               if a > b then Inl (reversed_error t)
               else Inr (Temporal_range_filter k (range_op_of t) low high None)
           | _ \<Rightarrow> Inr (Temporal_range_filter k (range_op_of t) low high None))))) = Inr f"
    by (cases "split_time_zone resolve lo hi t") (auto simp: to_temporal_range_def)
  show ?thesis
  proof (cases zoned)
    case None
    with rest obtain low high where "(case (instant_of low, instant_of high) of
        (Some a, Some b) \<Rightarrow>
          if a > b then Inl (reversed_error t) else Inr (Temporal_range_filter k (range_op_of t) low high None)
      | _ \<Rightarrow> Inr (Temporal_range_filter k (range_op_of t) low high None)) = Inr f"
      by (cases "check_temporal_bound lo t"; cases "check_temporal_bound hi t") auto
    from compared_bounds[OF this] show ?thesis by simp
  qed (use rest in auto)
qed

lemma to_range_filter_is_range: "to_range_filter resolve k t = Inr f \<Longrightarrow> is_range_filter f"
  by (auto simp: to_range_filter_def to_numeric_range_def Let_def dest: to_temporal_range_is_range
      split: if_splits option.split_asm)

lemma to_single_value_is_range: "to_single_value_range_filter k t = Inr f \<Longrightarrow> is_range_filter f"
  by (auto simp: to_single_value_range_filter_def split: if_splits option.splits)

lemma parse_token_values:
  assumes "parse_token resolve st t = Inr st'" and "\<not> is_range_key key"
  shows "values_of key op (ps_filters st') = fold add_last (token_values key op [t]) (values_of key op (ps_filters st))"
proof (cases "tok_key t")
  case None
  with assms show ?thesis by (auto simp: parse_token_def token_values_def)
next
  case (Some name)
  with assms(1) obtain k where k: "key_of_name name = Some k" and p: "parse_key_token resolve st t name = Inr st'"
    by (auto simp: parse_token_def parse_key_token_def split: option.splits)
  have name: "name = key_name k" by (rule key_of_name_SomeD[OF k])
  from p k consider
      (pushed) f where "is_range_filter f" "st' = push_filter f st" "is_range_key k"
    | (added) "st' = st\<lparr>ps_filters := add_equality_value k (if negated t then Not_eq else Eq) (tok_value t) (ps_filters st)\<rparr>"
    by (auto simp: parse_key_token_def dest: to_range_filter_is_range to_single_value_is_range split: if_splits)
  then show ?thesis
  proof cases
    case pushed
    with assms(2) Some name show ?thesis by (auto simp: push_filter_def values_of_push token_values_def)
  next
    case added
    with Some name show ?thesis by (auto simp: values_of_add token_values_def)
  qed
qed

lemma parse_tokens_values:
  assumes "parse_tokens resolve st ts = Inr st'" and "\<not> is_range_key key"
  shows "values_of key op (ps_filters st') = fold add_last (token_values key op ts) (values_of key op (ps_filters st))"
  using assms(1)
proof (induction ts arbitrary: st)
  case (Cons t ts)
  then obtain st1 where "parse_token resolve st t = Inr st1" "parse_tokens resolve st1 ts = Inr st'" by auto
  with parse_token_values[OF _ assms(2), of resolve st t st1 op] Cons.IH[of st1] show ?case
    by (simp add: token_values_def)
qed (simp add: token_values_def)

lemma parsed_values:
  assumes "parse_query resolve input = Inr ast" and "\<not> is_range_key key"
  shows "\<exists>ts. tokenize input = Inr ts \<and> values_of key op (filters ast) = rev (remdups (rev (token_values key op ts)))"
proof -
  from assms(1) obtain ts st where "tokenize input = Inr ts" "parse_tokens resolve initial_parse_state ts = Inr st" "finish_parse st = Inr ast"
    by (auto simp: parse_query_def)
  with parse_tokens_values[OF this(2) assms(2), of op] show ?thesis
    by (auto simp: finish_parse_def initial_parse_state_def values_of_def fold_add_last Let_def split: if_splits)
qed

section \<open>Properties\<close>

text \<open>C1: Printing a search query and parsing it again gives the same syntax tree: for every well-
  formed tree (a filter per key and polarity with its values in order, bounds in order,
  accepted values and zones, a text long enough) whose search text is stable, parseQuery
  (serializeQuery ast) is ast. A stable text is a list of words separated by single spaces
  none of which reads as a filter or, like a lone minus sign or a minus sign before a
  quotation mark, as something else than itself. This covers quoting and escaping of values,
  negation, ranges of numbers and of dates with their time zone, and enumerated values.\<close>

theorem parse_serialize_roundtrip:
  assumes "wf_ast resolve ast" and "stable_ast ast"
  shows "parse_query resolve (serialize_query ast) = Inr ast"
  using assms by (rule parse_of_serialized)

text \<open>C27: Every syntax tree the parser returns is well formed: values of one key and polarity
  collected in one filter, range keys only with checked bounds, enumerated keys only with
  their values, single-valued keys accepted as ranges, and a text of at least the minimal
  length. And the tree has, for each key that is no range key and each polarity, exactly the
  values its tokens give, in their first order without repetition. The canonical names of time
  zones that the platform gives are assumed to resolve to themselves.\<close>

theorem parse_yields_wf:
  assumes "parse_query resolve input = Inr ast" and "stable_zones resolve"
  shows "wf_ast resolve ast \<and>
    (\<forall>key op. is_range_key key \<or>
       (\<exists>ts. tokenize input = Inr ts \<and> values_of key op (filters ast) = rev (remdups (rev (token_values key op ts)))))"
  using parsed_wf[OF assms] parsed_values[OF assms(1)] by blast

text \<open>The two edits the facet panel makes, adding an equality value to a query and replacing the
  values of a key, give trees that print to texts which parse back to them, whenever the tree
  came from the parser with a stable text and the value is one the key accepts.\<close>

theorem facet_edits_reparse:
  assumes "parse_query resolve input = Inr ast" and "stable_zones resolve" and "stable_ast ast"
    and "equality_value_ok key v"
  shows "parse_query resolve (serialize_query (add_equality ast key v)) = Inr (add_equality ast key v) \<and>
    parse_query resolve (serialize_query (replace_equality ast key v)) = Inr (replace_equality ast key v)"
  using assms parsed_wf
  by (auto intro!: parse_of_serialized add_equality_wf replace_equality_wf simp: edits_keep_text)

definition sample_zones :: "jstr \<Rightarrow> jstr option" where
  "sample_zones z = (if z = js ''Asia/Seoul'' then Some z else None)"

lemma sample_zones_stable: "stable_zones sample_zones"
  by (auto simp: stable_zones_def canonical_time_zone_def sample_zones_def split: if_splits)

definition sample_input :: jstr where
  "sample_input = js ''author:kim seq:1..20 pay -x''"

definition sample_ast :: query_ast where
  "sample_ast = \<lparr>filters = [Equality_filter Author Eq [js ''kim''], Numeric_range_filter Seq Range 1 20],
     text_of = Some (js ''pay -x'')\<rparr>"

lemma sample_parses: "parse_query sample_zones sample_input = Inr sample_ast"
  by code_simp

lemma sample_stable: "stable_ast sample_ast"
  by code_simp

lemma sample_wf: "wf_ast sample_zones sample_ast"
  using parsed_wf[OF sample_parses sample_zones_stable] .

theorem parse_serialize_roundtrip_witness:
  "parse_query sample_zones (serialize_query sample_ast) = Inr sample_ast"
  by (rule parse_serialize_roundtrip[OF sample_wf sample_stable])

definition sample_repeated :: jstr where
  "sample_repeated = js ''author:kim -author:lee author:ann author:kim seq:1..20''"

definition sample_repeated_ast :: query_ast where
  "sample_repeated_ast = \<lparr>filters = [Equality_filter Author Eq [js ''kim'', js ''ann''], Equality_filter Author Not_eq [js ''lee''],
     Numeric_range_filter Seq Range 1 20], text_of = None\<rparr>"

lemma sample_repeated_parses: "parse_query sample_zones sample_repeated = Inr sample_repeated_ast"
  by code_simp

theorem parse_yields_wf_witness:
  "wf_ast sample_zones sample_repeated_ast \<and>
   (\<exists>ts. tokenize sample_repeated = Inr ts \<and> rev (remdups (rev (token_values Author Eq ts))) = [js ''kim'', js ''ann''])"
proof -
  note wf = parse_yields_wf[OF sample_repeated_parses sample_zones_stable]
  have "\<not> is_range_key Author" by (simp add: key_class_defs)
  with wf obtain ts where "tokenize sample_repeated = Inr ts"
    "values_of Author Eq (filters sample_repeated_ast) = rev (remdups (rev (token_values Author Eq ts)))" by blast
  moreover have "values_of Author Eq (filters sample_repeated_ast) = [js ''kim'', js ''ann'']" by code_simp
  ultimately show ?thesis using wf by metis
qed

theorem facet_edits_reparse_witness:
  "parse_query sample_zones (serialize_query (add_equality sample_ast Author (js ''a b''))) =
     Inr (add_equality sample_ast Author (js ''a b'')) \<and>
   parse_query sample_zones (serialize_query (replace_equality sample_ast Author (js ''a b''))) =
     Inr (replace_equality sample_ast Author (js ''a b''))"
  by (rule facet_edits_reparse[OF sample_parses sample_zones_stable sample_stable])
    (simp add: equality_value_ok_def key_class_defs)

text \<open>Search texts that are not stable change when they are printed and read back: a quoted text
  loses its double space, and a text that starts with a minus sign and reads as a filter
  becomes a negated filter.\<close>

theorem serialize_loses_text:
  "parse_query Some (js [CHR 0x22] @ js ''a  b'' @ js [CHR 0x22]) = Inr \<lparr>filters = [], text_of = Some (js ''a  b'')\<rparr> \<and>
   parse_query Some (serialize_query \<lparr>filters = [], text_of = Some (js ''a  b'')\<rparr>) =
     Inr \<lparr>filters = [], text_of = Some (js ''a b'')\<rparr> \<and>
   parse_query Some (js [CHR ''-'', CHR 0x22] @ js ''is:open'' @ js [CHR 0x22]) =
     Inr \<lparr>filters = [], text_of = Some (js ''-is:open'')\<rparr> \<and>
   parse_query Some (serialize_query \<lparr>filters = [], text_of = Some (js ''-is:open'')\<rparr>) =
     Inr \<lparr>filters = [Equality_filter Is Not_eq [js ''open'']], text_of = None\<rparr>"
  by (intro conjI; code_simp)

text \<open>A drill-down whose range does not meet the existing range prints a reversed range, which the
  parser rejects as an error.\<close>

theorem empty_drill_down_rejected:
  "let ast = \<lparr>filters = [Numeric_range_filter Changed_files Range 9 10], text_of = None\<rparr>;
       next_query = serialize_query (intersect_numeric_range ast Changed_files 0 1)
   in parse_query Some (js ''changed_files:9..10'') = Inr ast \<and>
      (case parse_query Some next_query of
         Inl e \<Rightarrow> err_message e = js ''Range bounds are reversed: '' @ in_quotes (js ''9..1'')
       | Inr _ \<Rightarrow> False)"
  by code_simp

end
