(* ===== verification/Query_Binding.thy ===== *)
theory Query_Binding
  imports Query_Syntax
begin

text \<open>
  Which sequence space or repository a query is bound to
  (\<open>packages/query/src/sequence-binding.ts\<close>). A JavaScript \<open>Set\<close> of strings is the list of its
  members in insertion order.
\<close>

section \<open>Sets of strings\<close>

definition set_add :: "jstr list \<Rightarrow> jstr \<Rightarrow> jstr list" where
  "set_add xs v = (if v \<in> set xs then xs else xs @ [v])"

definition set_add_all :: "jstr list \<Rightarrow> jstr list \<Rightarrow> jstr list" where
  "set_add_all xs vs = foldl set_add xs vs"

lemma set_add_all_Nil [simp]: "set_add_all xs [] = xs"
  by (simp add: set_add_all_def)

lemma set_add_all_Cons [simp]: "set_add_all xs (v # vs) = set_add_all (set_add xs v) vs"
  by (simp add: set_add_all_def)

lemma set_set_add [simp]: "set (set_add xs v) = insert v (set xs)"
  by (auto simp: set_add_def)

lemma set_set_add_all [simp]: "set (set_add_all xs vs) = set xs \<union> set vs"
  by (induction vs arbitrary: xs) auto

lemma distinct_set_add_all: "distinct xs \<Longrightarrow> distinct (set_add_all xs vs)"
  by (induction vs arbitrary: xs) (auto simp: set_add_def)

section \<open>The analysis\<close>

datatype binding_problem = Sequence_space_required | Sequence_space_ambiguous

datatype space_binding =
    Space_none
  | Space_bound jstr jstr
  | Space_repository_only jstr
  | Space_invalid binding_problem

datatype repository_problem = Repository_required | Repository_ambiguous

datatype repository_binding =
    Repository_none
  | Repository_bound jstr
  | Repository_invalid repository_problem

fun equality_values :: "query_key \<Rightarrow> query_filter \<Rightarrow> jstr list" where
  "equality_values key (Equality_filter k op vs) = (if k \<noteq> key \<or> op \<noteq> Eq then [] else vs)"
| "equality_values key _ = []"

definition positive_values :: "query_ast \<Rightarrow> query_key \<Rightarrow> jstr list" where
  "positive_values ast key = foldl (\<lambda>values f. set_add_all values (equality_values key f)) [] (filters ast)"

definition has_range_filter :: "query_key \<Rightarrow> query_ast \<Rightarrow> bool" where
  "has_range_filter key ast \<longleftrightarrow> list_ex (\<lambda>f. is_range_filter f \<and> filter_key f = key) (filters ast)"

definition has_sequence_range_filter :: "query_ast \<Rightarrow> bool" where
  "has_sequence_range_filter ast \<longleftrightarrow> has_range_filter Seq ast"

definition has_merge_number_range_filter :: "query_ast \<Rightarrow> bool" where
  "has_merge_number_range_filter ast \<longleftrightarrow> has_range_filter Mnum ast"

definition has_pr_number_range_filter :: "query_ast \<Rightarrow> bool" where
  "has_pr_number_range_filter ast \<longleftrightarrow> has_range_filter Pr_number ast"

definition analyze_space_binding :: "query_ast \<Rightarrow> bool \<Rightarrow> space_binding" where
  "analyze_space_binding ast has_filter =
     (if \<not> has_filter then Space_none
      else
        (let repositories = positive_values ast Repo; base_branches = positive_values ast Base in
         if length repositories = 0 \<or> length base_branches = 0 then Space_invalid Sequence_space_required
         else if length repositories > 1 \<or> length base_branches > 1 then Space_invalid Sequence_space_ambiguous
         else Space_bound (hd repositories) (hd base_branches)))"

definition analyze_sequence_binding :: "query_ast \<Rightarrow> space_binding" where
  "analyze_sequence_binding ast = analyze_space_binding ast (has_sequence_range_filter ast)"

definition analyze_merge_number_binding :: "query_ast \<Rightarrow> space_binding" where
  "analyze_merge_number_binding ast =
     (if \<not> has_merge_number_range_filter ast then Space_none
      else
        (let repositories = positive_values ast Repo; base_branches = positive_values ast Base in
         if length repositories = 0 then Space_invalid Sequence_space_required
         else if length repositories > 1 \<or> length base_branches > 1 then Space_invalid Sequence_space_ambiguous
         else if length base_branches = 0 then Space_repository_only (hd repositories)
         else Space_bound (hd repositories) (hd base_branches)))"

definition analyze_pr_number_binding :: "query_ast \<Rightarrow> repository_binding" where
  "analyze_pr_number_binding ast =
     (if \<not> has_pr_number_range_filter ast then Repository_none
      else
        (let repositories = positive_values ast Repo in
         if length repositories = 0 then Repository_invalid Repository_required
         else if length repositories > 1 then Repository_invalid Repository_ambiguous
         else Repository_bound (hd repositories)))"

section \<open>What a binding says of the filters\<close>

lemma positive_values_fold:
  "set (foldl (\<lambda>values f. set_add_all values (equality_values key f)) xs fs) =
     set xs \<union> (\<Union>f \<in> set fs. set (equality_values key f))"
  "distinct xs \<Longrightarrow> distinct (foldl (\<lambda>values f. set_add_all values (equality_values key f)) xs fs)"
  by (induction fs arbitrary: xs) (auto simp: distinct_set_add_all)

lemma set_positive_values: "set (positive_values ast key) = (\<Union>f \<in> set (filters ast). set (equality_values key f))"
  by (simp add: positive_values_def positive_values_fold)

lemma distinct_positive_values: "distinct (positive_values ast key)"
  by (simp add: positive_values_def positive_values_fold)

lemma positive_values_single:
  "length (positive_values ast key) = 1 \<and> hd (positive_values ast key) = v \<longleftrightarrow> set (positive_values ast key) = {v}"
proof
  assume "set (positive_values ast key) = {v}"
  moreover from this distinct_card[OF distinct_positive_values[of ast key]]
  have "length (positive_values ast key) = 1" by simp
  ultimately show "length (positive_values ast key) = 1 \<and> hd (positive_values ast key) = v"
    by (cases "positive_values ast key") auto
qed (auto simp: length_Suc_conv)

lemma analyze_sequence_bound:
  "analyze_sequence_binding ast = Space_bound r b \<longleftrightarrow>
     has_sequence_range_filter ast \<and> set (positive_values ast Repo) = {r} \<and> set (positive_values ast Base) = {b}"
  unfolding positive_values_single[symmetric]
  by (auto simp: analyze_sequence_binding_def analyze_space_binding_def Let_def not_less le_Suc_eq)

lemma analyze_merge_number_bound:
  "analyze_merge_number_binding ast = Space_bound r b \<longleftrightarrow>
     has_merge_number_range_filter ast \<and> set (positive_values ast Repo) = {r} \<and> set (positive_values ast Base) = {b}"
  unfolding positive_values_single[symmetric]
  by (auto simp: analyze_merge_number_binding_def Let_def not_less le_Suc_eq)

end
