(* ===== verification/Es_Query_Builder.thy ===== *)
theory Es_Query_Builder
  imports Query_Binding Query_Calendar
begin

text \<open>
  Syntax trees to Elasticsearch queries (\<open>packages/es/src/query-builder.ts\<close>). The query DSL is
  a datatype with the clauses the builder makes. What Elasticsearch does with a query is not
  in the repository: \<open>matches d q\<close> is a parameter, and the locale \<open>search_engine\<close> states the
  documented meaning of the clauses; \<open>doc_matches\<close> is one engine, over documents that map
  field names to their values. \<open>fmt\<close> is the zone formatter of \<open>Query_Calendar\<close>.
\<close>

section \<open>The query language\<close>

datatype es_value = Es_text jstr | Es_number int | Es_flag bool

datatype es_range = Between_numbers int int | Between_dates jstr jstr | Between_instants int int

datatype multi_match_type = Phrase | Best_fields

datatype es_query =
    Match_all
  | Match_none
  | Term jstr es_value
  | Terms jstr "es_value list"
  | Exists jstr
  | Range_clause jstr es_range
  | Multi_match jstr "jstr list" multi_match_type
  | Bool_query "es_query list" "es_query list" "es_query list"
  | Should_any "es_query list"
  | Filter_should "es_query list" "es_query list"

section \<open>Tables\<close>

fun TERM_FIELDS :: "query_key \<Rightarrow> jstr option" where
  "TERM_FIELDS Repo = Some (js ''repository'')"
| "TERM_FIELDS Author = Some (js ''author'')"
| "TERM_FIELDS Reviewer = Some (js ''reviewers'')"
| "TERM_FIELDS Label = Some (js ''labels'')"
| "TERM_FIELDS Base = Some (js ''base_branch'')"
| "TERM_FIELDS Head = Some (js ''head_branch'')"
| "TERM_FIELDS State = Some (js ''state'')"
| "TERM_FIELDS Release = Some (js ''release_tags'')"
| "TERM_FIELDS _ = None"

fun RANGE_FIELDS :: "query_key \<Rightarrow> jstr option" where
  "RANGE_FIELDS Seq = Some (js ''merge_seq'')"
| "RANGE_FIELDS Merged = Some (js ''merged_at'')"
| "RANGE_FIELDS Created = Some (js ''created_at'')"
| "RANGE_FIELDS Changed_files = Some (js ''changed_files_count'')"
| "RANGE_FIELDS Changed_lines = Some (js ''changed_lines'')"
| "RANGE_FIELDS Pr_number = Some (js ''pr_number'')"
| "RANGE_FIELDS Mnum = Some (js ''merge_number'')"
| "RANGE_FIELDS _ = None"

definition PATH_FIELD :: jstr where
  "PATH_FIELD = js ''changed_paths''"

definition DERIVED_STATE :: "jstr \<Rightarrow> es_query option" where
  "DERIVED_STATE v =
     (if v = js ''merged'' then Some (Term (js ''state'') (Es_text (js ''merged'')))
      else if v = js ''open'' then Some (Term (js ''state'') (Es_text (js ''open'')))
      else if v = js ''closed'' then Some (Term (js ''state'') (Es_text (js ''closed'')))
      else if v = js ''reverted'' then Some (Term (js ''link_summary.is_reverted'') (Es_flag True))
      else None)"

record name_resolution =
  org_ids :: "jstr \<Rightarrow> int option"
  team_ids :: "jstr \<Rightarrow> int list option"

record built_query =
  query_of :: es_query
  unresolved_of :: "(query_key \<times> jstr) list"

record build_options =
  sequence_epoch :: "int option"
  merge_number_epoch :: "int option"
  merge_number_base_branch :: "jstr option"

datatype build_error =
    Sequence_epoch_required
  | Merge_number_epoch_required
  | Merge_number_branch_required
  | Kind_filter_not_applied
  | Range_key_equality query_key
  | Bad_calendar_range

datatype entity_alias = Pull_requests | Commits

definition KIND_ALIAS :: "jstr \<Rightarrow> entity_alias option" where
  "KIND_ALIAS v = (if v = js ''pull_request'' then Some Pull_requests
                   else if v = js ''commit'' then Some Commits else None)"

section \<open>The search target\<close>

fun is_kind_filter :: "query_filter \<Rightarrow> bool" where
  "is_kind_filter (Equality_filter k _ _) = (k = Kind)"
| "is_kind_filter _ = False"

fun narrow_kind :: "entity_alias list \<Rightarrow> query_filter \<Rightarrow> entity_alias list" where
  "narrow_kind allowed (Equality_filter k op vs) =
     (if k \<noteq> Kind then allowed
      else let named = List.map_filter KIND_ALIAS vs in
           if op = Eq then filter (\<lambda>a. a \<in> set named) allowed
           else filter (\<lambda>a. a \<notin> set named) allowed)"
| "narrow_kind allowed _ = allowed"

definition alias_set :: "entity_alias list \<Rightarrow> entity_alias list" where
  "alias_set xs = foldl (\<lambda>acc x. if x \<in> set acc then acc else acc @ [x]) [] xs"

definition resolve_search_target ::
    "query_ast \<Rightarrow> entity_alias list \<Rightarrow> entity_alias list option \<times> query_ast" where
  "resolve_search_target ast base =
     (if \<not> list_ex is_kind_filter (filters ast) then (Some base, ast)
      else
        (let allowed = foldl narrow_kind (alias_set base) (filters ast) in
         (if allowed = [] then None else Some allowed,
          ast\<lparr>filters := filter (\<lambda>f. \<not> is_kind_filter f) (filters ast)\<rparr>)))"

section \<open>Clauses\<close>

definition FIRST_PARENT_COMMIT_ROLES :: "jstr list" where
  "FIRST_PARENT_COMMIT_ROLES = [js ''merge_commit'', js ''direct_push'']"

definition FULL_TEXT_FIELDS :: "jstr list" where
  "FULL_TEXT_FIELDS =
     [js ''title^3'', js ''title.partial^1.5'', js ''body'', js ''message'', js ''message.partial^0.5'',
      js ''base_branch.text'', js ''base_branch.partial^0.5'', js ''head_branch.text'',
      js ''head_branch.partial^0.5'']"

definition NON_FIRST_PARENT_COMMIT :: es_query where
  "NON_FIRST_PARENT_COMMIT =
     Bool_query [] [Exists (js ''role'')] [Terms (js ''role'') (map Es_text FIRST_PARENT_COMMIT_ROLES)]"

definition build_text_clause :: "jstr \<Rightarrow> es_query" where
  "build_text_clause txt =
     Multi_match txt FULL_TEXT_FIELDS
       (if \<not> list_ex is_space (trim txt) then Phrase else Best_fields)"

definition terms_clause :: "jstr \<Rightarrow> jstr list \<Rightarrow> es_query" where
  "terms_clause field vs = Terms field (map Es_text vs)"

definition ids_clause :: "jstr \<Rightarrow> int list \<Rightarrow> es_query" where
  "ids_clause field ids = (if ids = [] then Match_none else Terms field (map Es_number ids))"

definition path_clause :: "jstr list \<Rightarrow> es_query" where
  "path_clause vs = Should_any (map (\<lambda>v. Term PATH_FIELD (Es_text v)) vs)"

definition derived_state_clause :: "jstr list \<Rightarrow> es_query" where
  "derived_state_clause vs =
     (case List.map_filter DERIVED_STATE vs of [c] \<Rightarrow> c | cs \<Rightarrow> Should_any cs)"

text \<open>\<open>rangeClause\<close>: \<open>None\<close> for the code's \<open>null\<close>, an error where the calendar throws.\<close>

fun range_clause ::
    "(jstr \<Rightarrow> formatter option) \<Rightarrow> query_filter \<Rightarrow> (build_error, es_query option) result" where
  "range_clause fmt (Equality_filter _ _ _) = Inr None"
| "range_clause fmt (Numeric_range_filter key _ a b) =
     (case RANGE_FIELDS key of
        None \<Rightarrow> Inr None
      | Some field \<Rightarrow> Inr (Some (Range_clause field (Between_numbers a b))))"
| "range_clause fmt (Temporal_range_filter key _ f t zone) =
     (case RANGE_FIELDS key of
        None \<Rightarrow> Inr None
      | Some field \<Rightarrow>
          (case zone of
             None \<Rightarrow> Inr (Some (Range_clause field (Between_dates f t)))
           | Some z \<Rightarrow>
               (case calendar_range_to_utc fmt f t z of
                  None \<Rightarrow> Inl Bad_calendar_range
                | Some (gte, lt) \<Rightarrow> Inr (Some (Range_clause field (Between_instants gte lt))))))"

text \<open>\<open>equalityClause\<close> with the names it adds to \<open>unresolved\<close>.\<close>

fun equality_clause ::
    "name_resolution \<Rightarrow> query_filter \<Rightarrow> (build_error, es_query \<times> (query_key \<times> jstr) list) result" where
  "equality_clause res (Equality_filter key op vs) =
     (if RANGE_FIELDS key \<noteq> None then Inl (Range_key_equality key)
      else (case TERM_FIELDS key of
              Some field \<Rightarrow> Inr (terms_clause field vs, [])
            | None \<Rightarrow>
                if key = Path then Inr (path_clause vs, [])
                else if key = Is then Inr (derived_state_clause vs, [])
                else if key = Org then
                  Inr (ids_clause (js ''org_id'') (List.map_filter (org_ids res) vs),
                       map (\<lambda>v. (Org, v)) (filter (\<lambda>v. org_ids res v = None) vs))
                else if key = Team \<or> key = Author_team then
                  Inr (ids_clause (if key = Team then js ''allowed_team_ids'' else js ''author_team_ids'')
                         (concat (map (\<lambda>v. case team_ids res v of None \<Rightarrow> [] | Some ids \<Rightarrow> ids) vs)),
                       map (\<lambda>v. (key, v)) (filter (\<lambda>v. team_ids res v = None) vs))
                else if key = Kind then Inl Kind_filter_not_applied
                else Inr (Match_none, [])))"
| "equality_clause res f = Inr (Match_none, [])"

definition to_clause ::
    "(jstr \<Rightarrow> formatter option) \<Rightarrow> name_resolution \<Rightarrow> query_filter \<Rightarrow>
     (build_error, es_query \<times> (query_key \<times> jstr) list) result" where
  "to_clause fmt res f =
     bind_result (range_clause fmt f) (\<lambda>c.
       (case c of Some q \<Rightarrow> Inr (q, []) | None \<Rightarrow> equality_clause res f))"

section \<open>The builder\<close>

definition epoch_clauses :: "query_ast \<Rightarrow> build_options \<Rightarrow> (build_error, es_query list) result" where
  "epoch_clauses ast opts =
     bind_result
       (if has_sequence_range_filter ast then
          (case sequence_epoch opts of
             None \<Rightarrow> Inl Sequence_epoch_required
           | Some e \<Rightarrow> Inr [Term (js ''seq_epoch'') (Es_number e)])
        else Inr [])
       (\<lambda>seq.
         if has_merge_number_range_filter ast then
           (case merge_number_epoch opts of
              None \<Rightarrow> Inl Merge_number_epoch_required
            | Some e \<Rightarrow>
                (case merge_number_base_branch opts of
                   None \<Rightarrow> Inl Merge_number_branch_required
                 | Some b \<Rightarrow> Inr (seq @ [Term (js ''merge_number_epoch'') (Es_number e),
                                       Term (js ''base_branch'') (Es_text b)])))
         else Inr seq)"

text \<open>The loop over the filters: the clauses of \<open>filter\<close> and \<open>must_not\<close>, the names not resolved.\<close>

fun filter_clauses ::
    "(jstr \<Rightarrow> formatter option) \<Rightarrow> name_resolution \<Rightarrow> query_filter list \<Rightarrow>
     (build_error, es_query list \<times> es_query list \<times> (query_key \<times> jstr) list) result" where
  "filter_clauses fmt res [] = Inr ([], [], [])"
| "filter_clauses fmt res (f # fs) =
     bind_result (to_clause fmt res f) (\<lambda>(c, u).
     bind_result (filter_clauses fmt res fs) (\<lambda>(pos, negs, us).
       Inr (if is_negated f then (pos, c # negs, u @ us) else (c # pos, negs, u @ us))))"

definition build_query ::
    "(jstr \<Rightarrow> formatter option) \<Rightarrow> query_ast \<Rightarrow> name_resolution \<Rightarrow> build_options \<Rightarrow>
     (build_error, built_query) result" where
  "build_query fmt ast res opts =
     bind_result (epoch_clauses ast opts) (\<lambda>epochs.
     bind_result (filter_clauses fmt res (filters ast)) (\<lambda>(pos, negs, us).
       let has_text = (case text_of ast of None \<Rightarrow> False | Some txt \<Rightarrow> txt \<noteq> []);
           must = (if has_text then [build_text_clause (the (text_of ast))] else []);
           must_not = negs @ (if has_text then [NON_FIRST_PARENT_COMMIT] else [])
       in Inr (if epochs @ pos = [] \<and> must_not = [] \<and> must = []
               then \<lparr>query_of = Match_all, unresolved_of = us\<rparr>
               else \<lparr>query_of = Bool_query must (epochs @ pos) must_not, unresolved_of = us\<rparr>)))"

definition collect_names :: "query_ast \<Rightarrow> jstr list \<times> jstr list" where
  "collect_names ast =
     foldl (\<lambda>(orgs, teams) f.
              (case f of
                 Equality_filter k _ vs \<Rightarrow>
                   (if k = Org then set_add_all orgs vs else orgs,
                    if k = Team \<or> k = Author_team then set_add_all teams vs else teams)
               | _ \<Rightarrow> (orgs, teams)))
       ([], []) (filters ast)"

end
