(* ===== verification/Es_Query_Meaning.thy ===== *)
theory Es_Query_Meaning
  imports Es_Query_Builder Query_Edits
begin

text \<open>
  What the queries of \<open>Es_Query_Builder\<close> select. \<open>search_engine\<close> states the documented meaning
  of the clauses for a document; \<open>filter_holds\<close> and \<open>query_holds\<close> are the meaning of a syntax
  tree, and inside the locale the builder is shown to translate the one into the other.
\<close>

section \<open>Engines\<close>

locale search_engine =
  fixes matches :: "'d \<Rightarrow> es_query \<Rightarrow> bool" and field :: "'d \<Rightarrow> jstr \<Rightarrow> es_value list"
  assumes matches_all: "matches d Match_all"
    and matches_none: "\<not> matches d Match_none"
    and matches_term: "matches d (Term f v) \<longleftrightarrow> v \<in> set (field d f)"
    and matches_terms: "matches d (Terms f vs) \<longleftrightarrow> (\<exists>v \<in> set vs. v \<in> set (field d f))"
    and matches_exists: "matches d (Exists f) \<longleftrightarrow> field d f \<noteq> []"
    and matches_numbers: "matches d (Range_clause f (Between_numbers a b)) \<longleftrightarrow>
          (\<exists>v \<in> set (field d f). case v of Es_number n \<Rightarrow> a \<le> n \<and> n \<le> b | _ \<Rightarrow> False)"
    and matches_bool: "matches d (Bool_query must flt must_not) \<longleftrightarrow>
          list_all (matches d) must \<and> list_all (matches d) flt \<and> list_all (\<lambda>q. \<not> matches d q) must_not"
    and matches_should: "qs \<noteq> [] \<Longrightarrow> matches d (Should_any qs) \<longleftrightarrow> list_ex (matches d) qs"
    and matches_filter_should: "qs \<noteq> [] \<Longrightarrow> matches d (Filter_should flt qs) \<longleftrightarrow>
          list_all (matches d) flt \<and> list_ex (matches d) qs"

text \<open>
  One engine: documents are functions from field names to values. The scoring clauses and the
  date ranges, whose analysis is the engine's own, are parameters of it.
\<close>

fun doc_matches ::
    "(jstr \<Rightarrow> multi_match_type \<Rightarrow> (jstr \<Rightarrow> es_value list) \<Rightarrow> bool) \<Rightarrow>
     (jstr \<Rightarrow> es_range \<Rightarrow> (jstr \<Rightarrow> es_value list) \<Rightarrow> bool) \<Rightarrow>
     (jstr \<Rightarrow> es_value list) \<Rightarrow> es_query \<Rightarrow> bool" where
  "doc_matches txt dates d Match_all = True"
| "doc_matches txt dates d Match_none = False"
| "doc_matches txt dates d (Term f v) = (v \<in> set (d f))"
| "doc_matches txt dates d (Terms f vs) = list_ex (\<lambda>v. v \<in> set (d f)) vs"
| "doc_matches txt dates d (Exists f) = (d f \<noteq> [])"
| "doc_matches txt dates d (Range_clause f r) =
     (case r of
        Between_numbers a b \<Rightarrow> list_ex (\<lambda>v. case v of Es_number n \<Rightarrow> a \<le> n \<and> n \<le> b | _ \<Rightarrow> False) (d f)
      | _ \<Rightarrow> dates f r d)"
| "doc_matches txt dates d (Multi_match q fs ty) = txt q ty d"
| "doc_matches txt dates d (Bool_query must flt must_not) =
     (list_all (doc_matches txt dates d) must \<and> list_all (doc_matches txt dates d) flt \<and>
      list_all (\<lambda>q. \<not> doc_matches txt dates d q) must_not)"
| "doc_matches txt dates d (Should_any qs) = (qs = [] \<or> list_ex (doc_matches txt dates d) qs)"
| "doc_matches txt dates d (Filter_should flt qs) =
     (list_all (doc_matches txt dates d) flt \<and> (qs = [] \<or> list_ex (doc_matches txt dates d) qs))"

interpretation doc_engine: search_engine "doc_matches txt dates" "\<lambda>d. d"
  by unfold_locales (auto simp: list_ex_iff)

section \<open>The meaning of a syntax tree\<close>

definition state_holds :: "('d \<Rightarrow> jstr \<Rightarrow> es_value list) \<Rightarrow> 'd \<Rightarrow> jstr \<Rightarrow> bool" where
  "state_holds field d v \<longleftrightarrow>
     (if v = js ''reverted'' then Es_flag True \<in> set (field d (js ''link_summary.is_reverted''))
      else Es_text v \<in> set (field d (js ''state'')))"

definition team_holds :: "('d \<Rightarrow> jstr \<Rightarrow> es_value list) \<Rightarrow> name_resolution \<Rightarrow> jstr \<Rightarrow> 'd \<Rightarrow> jstr \<Rightarrow> bool" where
  "team_holds field res fld d v \<longleftrightarrow>
     (case team_ids res v of None \<Rightarrow> False | Some ids \<Rightarrow> list_ex (\<lambda>i. Es_number i \<in> set (field d fld)) ids)"

fun filter_holds ::
    "('d \<Rightarrow> es_query \<Rightarrow> bool) \<Rightarrow> ('d \<Rightarrow> jstr \<Rightarrow> es_value list) \<Rightarrow> (jstr \<Rightarrow> formatter option) \<Rightarrow>
     name_resolution \<Rightarrow> 'd \<Rightarrow> query_filter \<Rightarrow> bool" where
  "filter_holds matches field fmt res d (Equality_filter key op vs) =
     list_ex (\<lambda>v.
       (case TERM_FIELDS key of
          Some fld \<Rightarrow> Es_text v \<in> set (field d fld)
        | None \<Rightarrow>
            (case key of
               Path \<Rightarrow> Es_text v \<in> set (field d (js ''changed_paths''))
             | Is \<Rightarrow> state_holds field d v
             | Org \<Rightarrow> (case org_ids res v of None \<Rightarrow> False
                        | Some i \<Rightarrow> Es_number i \<in> set (field d (js ''org_id'')))
             | Team \<Rightarrow> team_holds field res (js ''allowed_team_ids'') d v
             | Author_team \<Rightarrow> team_holds field res (js ''author_team_ids'') d v
             | _ \<Rightarrow> False))) vs"
| "filter_holds matches field fmt res d (Numeric_range_filter key op a b) =
     list_ex (\<lambda>v. case v of Es_number n \<Rightarrow> a \<le> n \<and> n \<le> b | _ \<Rightarrow> False) (field d (the (RANGE_FIELDS key)))"
| "filter_holds matches field fmt res d (Temporal_range_filter key op f t zone) =
     (case zone of
        None \<Rightarrow> matches d (Range_clause (the (RANGE_FIELDS key)) (Between_dates f t))
      | Some z \<Rightarrow>
          (case calendar_range_to_utc fmt f t z of
             None \<Rightarrow> False
           | Some (gte, lt) \<Rightarrow> matches d (Range_clause (the (RANGE_FIELDS key)) (Between_instants gte lt))))"

definition epoch_holds :: "('d \<Rightarrow> jstr \<Rightarrow> es_value list) \<Rightarrow> build_options \<Rightarrow> query_ast \<Rightarrow> 'd \<Rightarrow> bool" where
  "epoch_holds field opts ast d \<longleftrightarrow>
     (has_sequence_range_filter ast \<longrightarrow>
        Es_number (the (sequence_epoch opts)) \<in> set (field d (js ''seq_epoch''))) \<and>
     (has_merge_number_range_filter ast \<longrightarrow>
        Es_number (the (merge_number_epoch opts)) \<in> set (field d (js ''merge_number_epoch'')) \<and>
        Es_text (the (merge_number_base_branch opts)) \<in> set (field d (js ''base_branch'')))"

definition text_holds :: "('d \<Rightarrow> es_query \<Rightarrow> bool) \<Rightarrow> ('d \<Rightarrow> jstr \<Rightarrow> es_value list) \<Rightarrow> query_ast \<Rightarrow> 'd \<Rightarrow> bool" where
  "text_holds matches field ast d \<longleftrightarrow>
     (case text_of ast of
        None \<Rightarrow> True
      | Some txt \<Rightarrow> txt = [] \<or>
          matches d (build_text_clause txt) \<and>
          (field d (js ''role'') \<noteq> [] \<longrightarrow>
             Es_text (js ''merge_commit'') \<in> set (field d (js ''role'')) \<or>
             Es_text (js ''direct_push'') \<in> set (field d (js ''role''))))"

definition query_holds ::
    "('d \<Rightarrow> es_query \<Rightarrow> bool) \<Rightarrow> ('d \<Rightarrow> jstr \<Rightarrow> es_value list) \<Rightarrow> (jstr \<Rightarrow> formatter option) \<Rightarrow>
     name_resolution \<Rightarrow> build_options \<Rightarrow> query_ast \<Rightarrow> 'd \<Rightarrow> bool" where
  "query_holds matches field fmt res opts ast d \<longleftrightarrow>
     epoch_holds field opts ast d \<and>
     list_all (\<lambda>f. filter_holds matches field fmt res d f \<noteq> is_negated f) (filters ast) \<and>
     text_holds matches field ast d"

section \<open>The builder translates the meaning\<close>

lemma range_key_fields: "RANGE_FIELDS key \<noteq> None \<longleftrightarrow> is_range_key key"
  by (cases key) (simp_all add: key_class_defs)

lemma list_ex_map_filter: "list_ex P (List.map_filter f xs) \<longleftrightarrow> list_ex (\<lambda>x. case f x of None \<Rightarrow> False | Some y \<Rightarrow> P y) xs"
  by (induction xs) (auto simp: map_filter_simps split: option.splits)

lemma list_ex_concat_map: "list_ex P (concat (map g xs)) \<longleftrightarrow> list_ex (\<lambda>x. list_ex P (g x)) xs"
  by (auto simp: list_ex_iff)

lemma list_ex_map: "list_ex P (map g xs) \<longleftrightarrow> list_ex (\<lambda>x. P (g x)) xs"
  by (induction xs) auto

lemma map_filter_Nil_iff: "List.map_filter f xs = [] \<longleftrightarrow> (\<forall>x \<in> set xs. f x = None)"
  by (induction xs) (auto simp: map_filter_simps split: option.splits)

text \<open>What the translation needs of a filter; parsed trees and their edits have it.\<close>

fun translatable :: "query_filter \<Rightarrow> bool" where
  "translatable (Equality_filter key op vs) =
     (vs \<noteq> [] \<and> (key = Is \<longrightarrow> set vs \<subseteq> set [js ''merged'', js ''open'', js ''closed'', js ''reverted'']))"
| "translatable (Numeric_range_filter key op a b) = is_range_key key"
| "translatable (Temporal_range_filter key op f t zone) = is_range_key key"

lemma wf_translatable: "wf_filter resolve f \<Longrightarrow> translatable f"
  by (cases f) (auto simp: is_range_key_def simp del: js_Cons)

lemma wf_ast_translatable: "wf_ast resolve ast \<Longrightarrow> list_all translatable (filters ast)"
  by (auto simp: wf_ast_def list_all_iff intro: wf_translatable)

context search_engine
begin

lemma matches_derived:
  "v \<in> set [js ''merged'', js ''open'', js ''closed'', js ''reverted''] \<Longrightarrow>
   \<exists>q. DERIVED_STATE v = Some q \<and> (matches d q \<longleftrightarrow> state_holds field d v)"
  by (auto simp: DERIVED_STATE_def state_holds_def matches_term)

lemma matches_derived_clause:
  assumes "vs \<noteq> []" and "set vs \<subseteq> set [js ''merged'', js ''open'', js ''closed'', js ''reverted'']"
  shows "matches d (derived_state_clause vs) \<longleftrightarrow> list_ex (state_holds field d) vs"
proof -
  let ?cs = "List.map_filter DERIVED_STATE vs"
  have m: "\<exists>q. DERIVED_STATE v = Some q \<and> (matches d q \<longleftrightarrow> state_holds field d v)" if "v \<in> set vs" for v
    using that assms(2) by (intro matches_derived) blast
  have "hd vs \<in> set vs" using assms(1) by simp
  with m have ne: "?cs \<noteq> []" unfolding map_filter_Nil_iff by (metis option.distinct(1))
  have "matches d (derived_state_clause vs) \<longleftrightarrow> list_ex (matches d) ?cs"
    using ne by (auto simp: derived_state_clause_def matches_should split: list.split)
  also have "\<dots> \<longleftrightarrow> list_ex (state_holds field d) vs"
    unfolding list_ex_map_filter unfolding list_ex_iff
    by (rule bex_cong[OF refl]) (use m in \<open>fastforce split: option.split\<close>)
  finally show ?thesis .
qed

lemma matches_ids: "matches d (ids_clause fld ids) \<longleftrightarrow> list_ex (\<lambda>i. Es_number i \<in> set (field d fld)) ids"
  by (auto simp: ids_clause_def matches_none matches_terms list_ex_iff)

lemma matches_teams:
  "list_ex (\<lambda>i. Es_number i \<in> set (field d fld))
     (concat (map (\<lambda>v. case team_ids res v of None \<Rightarrow> [] | Some ids \<Rightarrow> ids) vs)) \<longleftrightarrow>
   list_ex (team_holds field res fld d) vs"
  by (induction vs) (auto simp: team_holds_def split: option.splits)

lemma matches_terms_ex:
  "matches d (Terms fld (map Es_text vs)) \<longleftrightarrow> list_ex (\<lambda>v. Es_text v \<in> set (field d fld)) vs"
  by (auto simp: matches_terms list_ex_iff)

lemma matches_equality:
  assumes "equality_clause res (Equality_filter key op vs) = Inr (q, us)"
    and "translatable (Equality_filter key op vs)"
  shows "matches d q \<longleftrightarrow> filter_holds matches field fmt res d (Equality_filter key op vs)"
proof (cases "key = Is")
  case True
  with assms show ?thesis by (auto simp: matches_derived_clause)
next
  case False
  have "vs \<noteq> []" "RANGE_FIELDS key = None" using assms by (auto split: if_splits)
  with assms(1) False show ?thesis
    by (cases key)
      (auto simp: terms_clause_def matches_terms_ex path_clause_def PATH_FIELD_def matches_should matches_term
        matches_ids matches_teams list_ex_map_filter list_ex_map o_def simp del: js_Cons)
qed

lemma matches_to_clause:
  assumes "to_clause fmt res f = Inr (q, us)" and "translatable f"
  shows "matches d q \<longleftrightarrow> filter_holds matches field fmt res d f"
proof (cases f)
  case (Equality_filter key op vs)
  with assms show ?thesis using matches_equality[of res key op vs q us]
    by (simp add: to_clause_def)
next
  case (Numeric_range_filter key op a b)
  with assms(2) obtain fld where "RANGE_FIELDS key = Some fld"
    using range_key_fields[of key] by auto
  with assms(1) Numeric_range_filter show ?thesis
    by (auto simp: to_clause_def matches_numbers list_ex_iff)
next
  case (Temporal_range_filter key op f t zone)
  with assms(2) obtain fld where "RANGE_FIELDS key = Some fld"
    using range_key_fields[of key] by auto
  with assms(1) Temporal_range_filter show ?thesis
    by (cases zone; cases "calendar_range_to_utc fmt f t (the zone)") (auto simp: to_clause_def)
qed

lemma matches_filter_clauses:
  assumes "filter_clauses fmt res fs = Inr (pos, negs, us)" and "list_all translatable fs"
  shows "list_all (matches d) pos \<and> list_all (\<lambda>q. \<not> matches d q) negs \<longleftrightarrow>
    list_all (\<lambda>f. filter_holds matches field fmt res d f \<noteq> is_negated f) fs"
  using assms
proof (induction fs arbitrary: pos negs us)
  case (Cons f fs)
  from Cons.prems(1) obtain c u pos' negs' us' where c: "to_clause fmt res f = Inr (c, u)"
    and rec: "filter_clauses fmt res fs = Inr (pos', negs', us')"
    and pn: "(pos, negs) = (if is_negated f then (pos', c # negs') else (c # pos', negs'))"
    by (auto split: if_splits)
  have "translatable f" "list_all translatable fs" using Cons.prems(2) by auto
  note m = matches_to_clause[OF c this(1), of d] Cons.IH[OF rec this(2)]
  show ?case
  proof (cases "is_negated f")
    case True
    with pn m show ?thesis by simp blast
  next
    case False
    with pn m show ?thesis by (simp add: conj_assoc)
  qed
qed simp

lemma matches_epochs:
  assumes "epoch_clauses ast opts = Inr qs"
  shows "list_all (matches d) qs \<longleftrightarrow> epoch_holds field opts ast d"
  using assms
  by (auto simp: epoch_clauses_def epoch_holds_def matches_term simp del: js_Cons
      split: if_splits option.splits)

lemma matches_non_first_parent:
  "matches d NON_FIRST_PARENT_COMMIT \<longleftrightarrow> field d (js ''role'') \<noteq> [] \<and>
     Es_text (js ''merge_commit'') \<notin> set (field d (js ''role'')) \<and>
     Es_text (js ''direct_push'') \<notin> set (field d (js ''role''))"
  by (auto simp: NON_FIRST_PARENT_COMMIT_def FIRST_PARENT_COMMIT_ROLES_def matches_bool matches_exists
      matches_terms simp del: js_Cons)

lemma build_query_meaning:
  assumes "build_query fmt ast res opts = Inr built" and "list_all translatable (filters ast)"
  shows "matches d (query_of built) \<longleftrightarrow> query_holds matches field fmt res opts ast d"
proof -
  from assms(1) obtain epochs pos negs us where e: "epoch_clauses ast opts = Inr epochs"
    and f: "filter_clauses fmt res (filters ast) = Inr (pos, negs, us)"
    by (auto simp: build_query_def)
  note m = matches_epochs[OF e, of d] matches_filter_clauses[OF f assms(2), of d] matches_non_first_parent[of d]
  let ?clauses = "\<lambda>must must_not. if epochs @ pos = [] \<and> negs @ must_not = [] \<and> must = [] then Match_all
      else Bool_query must (epochs @ pos) (negs @ must_not)"
  have bool: "matches d (?clauses must must_not) \<longleftrightarrow> list_all (matches d) must \<and>
      list_all (matches d) epochs \<and> list_all (matches d) pos \<and> list_all (\<lambda>q. \<not> matches d q) negs \<and>
      list_all (\<lambda>q. \<not> matches d q) must_not" for must must_not
    by (auto simp: matches_bool matches_all)
  show ?thesis
  proof (cases "text_of ast = None \<or> text_of ast = Some []")
    case True
    then have "query_of built = ?clauses [] []"
      using assms(1) e f by (auto simp: build_query_def Let_def)
    moreover from True have "text_holds matches field ast d" by (auto simp: text_holds_def)
    ultimately show ?thesis using m(1,2) unfolding query_holds_def by (simp only: bool list.pred_inject) blast
  next
    case False
    then obtain t where t: "text_of ast = Some t" "t \<noteq> []" by auto
    then have "query_of built = ?clauses [build_text_clause t] [NON_FIRST_PARENT_COMMIT]"
      using assms(1) e f by (auto simp: build_query_def Let_def)
    moreover have "text_holds matches field ast d \<longleftrightarrow>
        matches d (build_text_clause t) \<and> \<not> matches d NON_FIRST_PARENT_COMMIT"
      unfolding text_holds_def m(3) using t by (auto simp del: js_Cons)
    ultimately show ?thesis using m(1,2) unfolding query_holds_def by (simp only: bool list.pred_inject) blast
  qed
qed

lemma holds_positive_values:
  assumes "query_holds matches field fmt res opts ast d" and "set (positive_values ast key) = {v}"
    and "TERM_FIELDS key = Some fld"
  shows "Es_text v \<in> set (field d fld)"
proof -
  from assms(2) obtain f where f: "f \<in> set (filters ast)" "v \<in> set (equality_values key f)"
    and sub: "set (equality_values key f) \<subseteq> {v}"
    unfolding set_positive_values by blast
  from f(2) sub have "\<exists>vs. f = Equality_filter key Eq vs \<and> set vs = {v}"
    by (cases f) (auto split: if_splits)
  then obtain vs where vs: "f = Equality_filter key Eq vs" "set vs = {v}" by blast
  have "filter_holds matches field fmt res d f \<noteq> is_negated f"
    using f(1) assms(1) unfolding query_holds_def list_all_iff by blast
  then have "list_ex (\<lambda>v. Es_text v \<in> set (field d fld)) vs" by (simp add: vs assms(3))
  with vs(2) show ?thesis by (simp add: list_ex_iff)
qed

lemma holds_intersection:
  assumes "wf_ast resolve ast" "range_count ast key \<le> 1"
    and key: "key \<in> {Changed_files, Changed_lines, Pr_number}"
    and single: "field d (the (RANGE_FIELDS key)) = [Es_number n]"
  shows "query_holds matches field fmt res opts (intersect_numeric_range ast key lo hi) d \<longleftrightarrow>
    query_holds matches field fmt res opts ast d \<and> lo \<le> n \<and> n \<le> hi"
proof -
  let ?P = "\<lambda>f. filter_holds matches field fmt res d f \<noteq> is_negated f"
  have num: "is_numeric_range_key key" using key by (auto simp: key_class_defs)
  have "list_all ?P (filters (intersect_numeric_range ast key lo hi)) \<longleftrightarrow>
      list_all ?P (filters ast) \<and> lo \<le> n \<and> n \<le> hi"
    using single by (intro intersect_list_all[OF assms(1) num assms(2)]) simp
  moreover have "has_range_filter k (intersect_numeric_range ast key lo hi) = has_range_filter k ast"
    if "k \<noteq> key" for k
  proof -
    have "is_range_on key Range f \<Longrightarrow> filter_key f = key" for f by (cases f) auto
    with that show ?thesis
      by (auto simp: has_range_filter_def intersect_numeric_range_def list_ex_iff Let_def)
  qed
  then have "epoch_holds field opts (intersect_numeric_range ast key lo hi) d = epoch_holds field opts ast d"
    using key by (auto simp: epoch_holds_def has_sequence_range_filter_def has_merge_number_range_filter_def)
  moreover have "text_of (intersect_numeric_range ast key lo hi) = text_of ast"
    by (simp add: intersect_numeric_range_def Let_def)
  ultimately show ?thesis by (auto simp: query_holds_def text_holds_def)
qed

lemma translatable_intersection:
  assumes "wf_ast resolve ast" and "is_numeric_range_key key"
  shows "list_all translatable (filters (intersect_numeric_range ast key lo hi))"
  using wf_ast_translatable[OF assms(1)] assms(2)
  by (auto simp: intersect_numeric_range_def list_all_iff is_range_key_def Let_def)

end

section \<open>Properties\<close>

text \<open>C2: The Elasticsearch query built from a syntax tree means what the tree means: against any
  engine that evaluates the documented clause types (bool, term, terms, range, multi_match,
  ids), a document matches the query exactly when it satisfies every filter of the tree
  (equality filters as the disjunction of their values, negated filters as their negation,
  ranges on the mapped fields, path and derived-state filters), the text, and the visibility
  and epoch clauses of the options.\<close>

theorem build_query_correct:
  assumes "search_engine matches field" and "wf_ast resolve ast"
    and "build_query fmt ast res opts = Inr built"
  shows "matches d (query_of built) \<longleftrightarrow> query_holds matches field fmt res opts ast d"
  using search_engine.build_query_meaning[OF assms(1,3) wf_ast_translatable[OF assms(2)]] .

text \<open>C4: A query with a range of sequence numbers or merge numbers that the binding analysis accepts
  for a repository and branch only finds documents of that repository and branch, under the
  epoch passed to the query builder: sequence numbers of another space or of an earlier epoch
  are never compared.\<close>

theorem bound_query_stays_in_space:
  assumes "search_engine matches field" and "wf_ast resolve ast"
    and "build_query fmt ast res opts = Inr built" and "matches d (query_of built)"
  shows "(analyze_sequence_binding ast = Space_bound r b \<longrightarrow>
      Es_text r \<in> set (field d (js ''repository'')) \<and> Es_text b \<in> set (field d (js ''base_branch'')) \<and>
      (\<exists>e. sequence_epoch opts = Some e \<and> Es_number e \<in> set (field d (js ''seq_epoch'')))) \<and>
    (analyze_merge_number_binding ast = Space_bound r b \<longrightarrow>
      Es_text r \<in> set (field d (js ''repository'')) \<and> Es_text b \<in> set (field d (js ''base_branch'')) \<and>
      (\<exists>e. merge_number_epoch opts = Some e \<and> Es_number e \<in> set (field d (js ''merge_number_epoch''))))"
proof -
  have q: "query_holds matches field fmt res opts ast d"
    using search_engine.build_query_meaning[OF assms(1,3) wf_ast_translatable[OF assms(2)]] assms(4) by simp
  have fields: "TERM_FIELDS Repo = Some (js ''repository'')" "TERM_FIELDS Base = Some (js ''base_branch'')"
    by simp_all
  note vals = search_engine.holds_positive_values[OF assms(1) q _ fields(1)]
    search_engine.holds_positive_values[OF assms(1) q _ fields(2)]
  have "\<exists>e. sequence_epoch opts = Some e" if "has_sequence_range_filter ast"
    using assms(3) that by (auto simp: build_query_def epoch_clauses_def split: option.splits)
  moreover have "\<exists>e. merge_number_epoch opts = Some e" if "has_merge_number_range_filter ast"
    using assms(3) that by (auto simp: build_query_def epoch_clauses_def split: option.splits if_splits)
  ultimately show ?thesis
    using vals q unfolding analyze_sequence_bound analyze_merge_number_bound
    by (auto simp: query_holds_def epoch_holds_def simp del: js_Cons)
qed

text \<open>C28: Intersecting a query that has at most one range on the key with a further range narrows it
  exactly, for the numbers of changed files, of changed lines and of the pull request: a
  document with one value in that field matches the new query when it matches the old one and
  the value lies in the further range. The other two numeric keys, sequence and merge numbers,
  are left out, since a first range on them adds a clause for the epoch.\<close>

theorem drill_down_narrows:
  assumes "search_engine matches field" and "wf_ast resolve ast" and "range_count ast key \<le> 1"
    and "key \<in> {Changed_files, Changed_lines, Pr_number}" and "field d (the (RANGE_FIELDS key)) = [Es_number n]"
    and "build_query fmt ast res opts = Inr built"
    and "build_query fmt (intersect_numeric_range ast key lo hi) res opts = Inr drilled"
  shows "matches d (query_of drilled) \<longleftrightarrow> matches d (query_of built) \<and> lo \<le> n \<and> n \<le> hi"
proof -
  have num: "is_numeric_range_key key" using assms(4) by (auto simp: key_class_defs)
  show ?thesis
    using assms(4,5) search_engine.holds_intersection[OF assms(1-3)]
      search_engine.build_query_meaning[OF assms(1,6) wf_ast_translatable[OF assms(2)]]
      search_engine.build_query_meaning[OF assms(1,7) search_engine.translatable_intersection[OF assms(1,2) num]]
    by auto
qed

subsection \<open>At a concrete query\<close>

definition sample_doc :: "jstr \<Rightarrow> es_value list" where
  "sample_doc f =
     (if f = js ''repository'' then [Es_text (js ''a/b'')] else if f = js ''base_branch'' then [Es_text (js ''m'')]
      else if f = js ''merge_seq'' then [Es_number 7] else if f = js ''seq_epoch'' then [Es_number 3]
      else if f = js ''changed_files_count'' then [Es_number 3] else [])"

definition sample_space_ast :: query_ast where
  "sample_space_ast = \<lparr>filters = [Equality_filter Repo Eq [js ''a/b''], Equality_filter Base Eq [js ''m''],
     Numeric_range_filter Seq Range 1 9, Numeric_range_filter Changed_files Range 1 5], text_of = None\<rparr>"

definition sample_resolution :: name_resolution where
  "sample_resolution = \<lparr>org_ids = \<lambda>_. None, team_ids = \<lambda>_. None\<rparr>"

definition sample_options :: build_options where
  "sample_options = \<lparr>sequence_epoch = Some 3, merge_number_epoch = None, merge_number_base_branch = None\<rparr>"

definition no_text :: "jstr \<Rightarrow> multi_match_type \<Rightarrow> (jstr \<Rightarrow> es_value list) \<Rightarrow> bool" where
  "no_text q ty d = False"

definition no_dates :: "jstr \<Rightarrow> es_range \<Rightarrow> (jstr \<Rightarrow> es_value list) \<Rightarrow> bool" where
  "no_dates f r d = False"

definition sample_query :: es_query where
  "sample_query = Bool_query [] [Term (js ''seq_epoch'') (Es_number 3), Terms (js ''repository'') [Es_text (js ''a/b'')],
     Terms (js ''base_branch'') [Es_text (js ''m'')], Range_clause (js ''merge_seq'') (Between_numbers 1 9),
     Range_clause (js ''changed_files_count'') (Between_numbers 1 5)] []"

definition sample_drilled :: es_query where
  "sample_drilled = Bool_query [] [Term (js ''seq_epoch'') (Es_number 3), Terms (js ''repository'') [Es_text (js ''a/b'')],
     Terms (js ''base_branch'') [Es_text (js ''m'')], Range_clause (js ''merge_seq'') (Between_numbers 1 9),
     Range_clause (js ''changed_files_count'') (Between_numbers 2 5)] []"

lemma sample_space_wf: "wf_ast Some sample_space_ast"
  by code_simp

lemma sample_builds: "build_query (\<lambda>_. None) sample_space_ast sample_resolution sample_options =
    Inr \<lparr>query_of = sample_query, unresolved_of = []\<rparr>"
  by code_simp

lemma sample_drills:
  "build_query (\<lambda>_. None) (intersect_numeric_range sample_space_ast Changed_files 2 8) sample_resolution
     sample_options = Inr \<lparr>query_of = sample_drilled, unresolved_of = []\<rparr>"
  by code_simp

lemma sample_matches: "doc_matches no_text no_dates sample_doc sample_query"
  by code_simp

theorem build_query_correct_witness:
  "query_holds (doc_matches no_text no_dates) (\<lambda>d. d) (\<lambda>_. None) sample_resolution sample_options
     sample_space_ast sample_doc"
  using build_query_correct[OF doc_engine.search_engine_axioms sample_space_wf sample_builds] sample_matches
  by simp

theorem bound_query_stays_in_space_witness:
  "Es_text (js ''a/b'') \<in> set (sample_doc (js ''repository'')) \<and> Es_number 3 \<in> set (sample_doc (js ''seq_epoch''))"
proof -
  have "analyze_sequence_binding sample_space_ast = Space_bound (js ''a/b'') (js ''m'')" by code_simp
  with bound_query_stays_in_space[OF doc_engine.search_engine_axioms sample_space_wf sample_builds,
      of no_text no_dates sample_doc "js ''a/b''" "js ''m''"] sample_matches
  show ?thesis by (simp add: sample_options_def)
qed

theorem drill_down_narrows_witness: "doc_matches no_text no_dates sample_doc sample_drilled"
proof -
  have "range_count sample_space_ast Changed_files \<le> 1" "sample_doc (the (RANGE_FIELDS Changed_files)) = [Es_number 3]"
    by code_simp+
  with drill_down_narrows[OF doc_engine.search_engine_axioms sample_space_wf _ _ _ sample_builds sample_drills,
      of sample_doc 3 no_text no_dates] sample_matches
  show ?thesis by simp
qed

definition two_ranges_ast :: query_ast where
  "two_ranges_ast = \<lparr>filters = [Numeric_range_filter Changed_files Range 1 5,
     Numeric_range_filter Changed_files Range 4 9], text_of = None\<rparr>"

text \<open>With two ranges on one key the intersection drops the second one: a document that the query
  excludes is found by the drill-down of that query.\<close>

theorem drill_down_widens_two_ranges:
  "parse_query Some (js ''changed_files:1..5 changed_files:4..9'') = Inr two_ranges_ast \<and>
   (case build_query (\<lambda>_. None) two_ranges_ast sample_resolution sample_options of
      Inr built \<Rightarrow> \<not> doc_matches no_text no_dates sample_doc (query_of built) | Inl _ \<Rightarrow> False) \<and>
   (case build_query (\<lambda>_. None) (intersect_numeric_range two_ranges_ast Changed_files 2 3) sample_resolution sample_options of
      Inr built \<Rightarrow> doc_matches no_text no_dates sample_doc (query_of built) | Inl _ \<Rightarrow> False)"
  by (intro conjI; code_simp)

end
