(* ===== verification/Domain_MNumber.thy ===== *)
theory Domain_MNumber
  imports PRS_Prelude
begin

text \<open>
  M numbers (\<open>packages/domain/src/mnumber.ts\<close>): the code of a repository, and the label
  \<open>M-<code>-<number>\<close> of a merge, printed and parsed.
\<close>

definition MERGE_NUMBER_MAX :: int where
  "MERGE_NUMBER_MAX = 9007199254740991"

datatype code_problem = No_digits | Multiple_digit_runs

text \<open>\<open>repositoryName.match(/[0-9]+/g)\<close>: the maximal runs of digits, in order.\<close>

fun digit_runs :: "jstr \<Rightarrow> jstr list" where
  "digit_runs [] = []"
| "digit_runs (c # s) =
     (if is_digit c then
        (if s \<noteq> [] \<and> is_digit (hd s)
         then (case digit_runs s of [] \<Rightarrow> [[c]] | r # rs \<Rightarrow> (c # r) # rs)
         else [c] # digit_runs s)
      else digit_runs s)"

definition repository_code_of :: "jstr \<Rightarrow> (code_problem, jstr) result" where
  "repository_code_of name =
     (let runs = digit_runs name in
      if length runs = 0 then Inl No_digits
      else if length runs > 1 then Inl Multiple_digit_runs
      else Inr (hd runs))"

datatype format_error = Code_not_digits | Number_out_of_range

definition format_merge_number :: "jstr \<Rightarrow> int \<Rightarrow> (format_error, jstr) result" where
  "format_merge_number code number =
     (if \<not> all_digits code then Inl Code_not_digits
      else if \<not> is_safe_integer number \<or> number < 1 then Inl Number_out_of_range
      else Inr (js ''M-'' @ code @ js ''-'' @ show_int number))"

text \<open>The groups of \<open>MERGE_NUMBER_PATTERN\<close>: no group holds a hyphen.\<close>

definition MERGE_NUMBER_PATTERN :: "jstr \<Rightarrow> (jstr \<times> jstr) option" where
  "MERGE_NUMBER_PATTERN s =
     (case split_on (ch CHR ''-'') s of
        [m, code, digits] \<Rightarrow>
          if m = js ''M'' \<and> all_digits code \<and> all_digits digits \<and> hd digits \<noteq> ch CHR ''0''
          then Some (code, digits) else None
      | _ \<Rightarrow> None)"

definition parse_merge_number :: "jstr \<Rightarrow> (jstr \<times> int) option" where
  "parse_merge_number s =
     (case MERGE_NUMBER_PATTERN s of
        None \<Rightarrow> None
      | Some (code, digits) \<Rightarrow>
          if length digits > 16 then None
          else let value = int (dec_value digits) in
               if value < 1 \<or> value > MERGE_NUMBER_MAX then None else Some (code, value))"

datatype block_reason =
    Pr_evidence_pending | Negative_evidence_unavailable | Partial_lookup | Profile_unverified
  | Unsupported_merge_profile | Mapping_conflict | Fetch_failed | Number_capacity_exceeded
  | Canonical_mismatch

definition MERGE_NUMBER_BLOCK_REASONS :: "(jstr \<times> block_reason) list" where
  "MERGE_NUMBER_BLOCK_REASONS =
     [(js ''pr_evidence_pending'', Pr_evidence_pending),
      (js ''negative_evidence_unavailable'', Negative_evidence_unavailable),
      (js ''partial_lookup'', Partial_lookup), (js ''profile_unverified'', Profile_unverified),
      (js ''unsupported_merge_profile'', Unsupported_merge_profile),
      (js ''mapping_conflict'', Mapping_conflict), (js ''fetch_failed'', Fetch_failed),
      (js ''number_capacity_exceeded'', Number_capacity_exceeded),
      (js ''canonical_mismatch'', Canonical_mismatch)]"

definition is_merge_number_block_reason :: "jstr \<Rightarrow> bool" where
  "is_merge_number_block_reason v \<longleftrightarrow> v \<in> fst ` set MERGE_NUMBER_BLOCK_REASONS"

section \<open>Properties\<close>

definition merge_number_ok :: "jstr \<times> int \<Rightarrow> bool" where
  "merge_number_ok cn \<longleftrightarrow> all_digits (fst cn) \<and> 1 \<le> snd cn \<and> snd cn \<le> MERGE_NUMBER_MAX"

definition merge_label :: "jstr \<times> int \<Rightarrow> jstr" where
  "merge_label cn = js ''M-'' @ fst cn @ js ''-'' @ show_int (snd cn)"

lemma format_merge_number_iff:
  "format_merge_number code n = Inr s \<longleftrightarrow> merge_number_ok (code, n) \<and> s = merge_label (code, n)"
  by (auto simp: format_merge_number_def merge_number_ok_def merge_label_def is_safe_integer_def
      max_safe_integer_def MERGE_NUMBER_MAX_def)

lemma show_pos_int: "1 \<le> n \<Longrightarrow> show_int n = show_nat (nat n)"
  by (simp add: show_int_def)

lemma split_merge_label:
  assumes "merge_number_ok (code, n)"
  shows "split_on (ch CHR ''-'') (merge_label (code, n)) = [js ''M'', code, show_nat (nat n)]"
proof -
  have "merge_label (code, n) = join_with [ch CHR ''-''] [js ''M'', code, show_nat (nat n)]"
    using assms by (simp add: merge_label_def merge_number_ok_def show_pos_int)
  moreover have "ch CHR ''-'' \<notin> set code" "ch CHR ''-'' \<notin> set (show_nat (nat n))"
    using assms digits_no_hyphen show_nat_digits by (auto simp: merge_number_ok_def all_digits_def)
  ultimately show ?thesis by (simp only:) (rule split_on_join, auto)
qed

lemma parse_merge_label:
  assumes "merge_number_ok cn"
  shows "parse_merge_number (merge_label cn) = Some cn"
proof -
  obtain code n where cn: "cn = (code, n)" by (cases cn)
  have n: "1 \<le> n" "n \<le> MERGE_NUMBER_MAX" and code: "all_digits code"
    using assms by (auto simp: cn merge_number_ok_def)
  then have "nat n < 10 ^ Suc 15" by (simp add: MERGE_NUMBER_MAX_def)
  then have "length (show_nat (nat n)) \<le> 16" using length_show_nat[of "nat n" 15] by simp
  moreover have "hd (show_nat (nat n)) \<noteq> ch CHR ''0''" using n by (intro show_nat_hd) simp
  ultimately show ?thesis using n code split_merge_label assms
    by (simp add: cn parse_merge_number_def MERGE_NUMBER_PATTERN_def)
qed

lemma parse_merge_number_SomeD:
  assumes "parse_merge_number s = Some cn"
  shows "merge_number_ok cn \<and> merge_label cn = s"
proof -
  from assms obtain code ds where sp: "split_on (ch CHR ''-'') s = [js ''M'', code, ds]"
    and code: "all_digits code" and ds: "all_digits ds" "hd ds \<noteq> ch CHR ''0''"
    and v: "1 \<le> int (dec_value ds)" "int (dec_value ds) \<le> MERGE_NUMBER_MAX"
    and cn: "cn = (code, int (dec_value ds))"
    by (auto simp: parse_merge_number_def MERGE_NUMBER_PATTERN_def Let_def split: list.splits if_splits)
  have "s = join_with [ch CHR ''-''] [js ''M'', code, ds]" using join_split_on[of "ch CHR ''-''" s] sp by simp
  moreover have "show_int (int (dec_value ds)) = ds"
    using ds show_dec_value by (simp add: show_int_def all_digits_def)
  ultimately show ?thesis using code v by (simp add: cn merge_number_ok_def merge_label_def)
qed

interpretation mnumber_codec: canonical_codec merge_label parse_merge_number merge_number_ok
  by unfold_locales (auto simp: parse_merge_label dest: parse_merge_number_SomeD)

lemma digit_runs_digits: "list_all all_digits (digit_runs s)"
proof (induction s)
  case (Cons c s)
  then show ?case
    by (cases "digit_runs s") (simp_all add: all_digits_def)
qed simp

text \<open>C36: Parsing a merge number label gives a repository code and a number exactly when formatting
  them gives that label, so every number has one spelling and every accepted spelling is one
  the code writes.\<close>

theorem parse_iff_format_merge_number:
  "parse_merge_number s = Some (code, n) \<longleftrightarrow> format_merge_number code n = Inr s"
  unfolding format_merge_number_iff mnumber_codec.parse_Some_iff by auto

text \<open>A code a repository name yields can be used in a label.\<close>

lemma repository_code_formats:
  "repository_code_of name = Inr code \<Longrightarrow> all_digits code"
  using digit_runs_digits[of name]
  by (cases "digit_runs name") (auto simp: repository_code_of_def split: if_splits)

end
