(* ===== verification/JSON_Value.thy ===== *)
theory JSON_Value
  imports PRS_Prelude
begin

text \<open>
  JSON values as the code receives them from \<open>JSON.parse\<close>. A number is an integer, or a value
  of which the code only uses that it is no integer. An object is the list of its members;
  a later member replaces an earlier one of the same name, as \<open>JSON.parse\<close> does.
\<close>

datatype json =
    J_null
  | J_bool bool
  | J_int int
  | J_fraction int nat
  | J_string jstr
  | J_array "json list"
  | J_object "(jstr \<times> json) list"

text \<open>\<open>value as Record\<close> where \<open>value\<close> is an object that is no array, and a member of it.\<close>

fun as_record :: "json \<Rightarrow> (jstr \<times> json) list option" where
  "as_record (J_object ms) = Some ms"
| "as_record _ = None"

definition member :: "(jstr \<times> json) list \<Rightarrow> jstr \<Rightarrow> json option" where
  "member ms key = map_of (rev ms) key"

fun as_string :: "json option \<Rightarrow> jstr option" where
  "as_string (Some (J_string s)) = Some s"
| "as_string _ = None"

fun as_positive_int :: "json option \<Rightarrow> int option" where
  "as_positive_int (Some (J_int n)) = (if 0 < n then Some n else None)"
| "as_positive_int _ = None"

end
