(* ===== verification/Domain_Sequence.thy ===== *)
theory Domain_Sequence
  imports JSON_Value
begin

text \<open>
  Sequence spaces: the target of a push (\<open>packages/domain/src/sequence.ts\<close>), the label of a
  space, and the check of stored sequence entries against the branch
  (\<open>packages/domain/src/integrity.ts\<close>). Reasons of skips and rejections are constructors; the
  code's \<open>toLowerCase\<close> is only ever compared against hexadecimal texts, for which the ASCII
  mapping of \<open>PRS_Prelude\<close> decides.
\<close>

section \<open>Pushes\<close>

definition ZERO_SHA :: jstr where
  "ZERO_SHA = replicate 40 (ch CHR ''0'')"

definition FULL_SHA :: "jstr \<Rightarrow> bool" where
  "FULL_SHA s \<longleftrightarrow> length s = 40 \<and> list_all is_hex_lower s"

definition BRANCH_PREFIX :: jstr where
  "BRANCH_PREFIX = js ''refs/heads/''"

definition branch_from_ref :: "jstr \<Rightarrow> jstr option" where
  "branch_from_ref ref =
     (if \<not> starts_with BRANCH_PREFIX ref then None
      else let name = drop (length BRANCH_PREFIX) ref in if name = [] then None else Some name)"

record push_target =
  repository_id :: int
  base_branch :: jstr
  head_sha :: jstr

datatype push_skip = Not_a_branch jstr | Branch_deleted jstr

datatype push_invalid =
    Payload_not_object | No_ref | No_after | After_not_sha jstr | No_repository | Bad_repository_id

datatype push_outcome = Push_target push_target | Push_skip push_skip | Push_invalid push_invalid

definition extract_push_target :: "json \<Rightarrow> push_outcome" where
  "extract_push_target payload =
     (case as_record payload of
        None \<Rightarrow> Push_invalid Payload_not_object
      | Some root \<Rightarrow>
          (case as_string (member root (js ''ref'')) of
             None \<Rightarrow> Push_invalid No_ref
           | Some ref \<Rightarrow>
               (case branch_from_ref ref of
                  None \<Rightarrow> Push_skip (Not_a_branch ref)
                | Some branch \<Rightarrow>
                    if member root (js ''deleted'') = Some (J_bool True) then Push_skip (Branch_deleted branch)
                    else
                      (case map_option to_lower (as_string (member root (js ''after''))) of
                         None \<Rightarrow> Push_invalid No_after
                       | Some after \<Rightarrow>
                           if after = ZERO_SHA then Push_skip (Branch_deleted branch)
                           else if \<not> FULL_SHA after then Push_invalid (After_not_sha after)
                           else
                             (case Option.bind (member root (js ''repository'')) as_record of
                                None \<Rightarrow> Push_invalid No_repository
                              | Some repository \<Rightarrow>
                                  (case as_positive_int (member repository (js ''id'')) of
                                     None \<Rightarrow> Push_invalid Bad_repository_id
                                   | Some rid \<Rightarrow>
                                       Push_target \<lparr>repository_id = rid, base_branch = branch,
                                                    head_sha = after\<rparr>))))))"

text \<open>A push event is turned into a sequence target only when it names a branch that was not
  deleted, with a full non-zero head commit and a positive repository id.\<close>

theorem push_target_valid:
  assumes "extract_push_target payload = Push_target t"
  shows "0 < repository_id t \<and> base_branch t \<noteq> [] \<and> FULL_SHA (head_sha t) \<and> head_sha t \<noteq> ZERO_SHA \<and>
    (\<exists>root. payload = J_object root \<and>
       member root (js ''ref'') = Some (J_string (js ''refs/heads/'' @ base_branch t)) \<and>
       member root (js ''deleted'') \<noteq> Some (J_bool True))"
proof -
  have str: "as_string j = Some s \<Longrightarrow> j = Some (J_string s)" for j s
    by (cases j rule: as_string.cases) auto
  have rec: "as_record j = Some ms \<Longrightarrow> j = J_object ms" for j ms by (cases j) auto
  have pos: "as_positive_int j = Some n \<Longrightarrow> 0 < n" for j n
    by (cases j rule: as_positive_int.cases) (auto split: if_splits)
  have br: "branch_from_ref ref = Some b \<Longrightarrow> b \<noteq> [] \<and> ref = js ''refs/heads/'' @ b" for ref b
    by (auto simp: branch_from_ref_def BRANCH_PREFIX_def starts_with_iff Let_def simp del: js_Cons split: if_splits)
  from assms show ?thesis unfolding extract_push_target_def
    by (auto dest!: str rec pos br simp del: js_Cons split: option.splits if_splits)
qed

section \<open>Space labels\<close>

definition sequence_partition_key :: "int \<Rightarrow> jstr \<Rightarrow> jstr" where
  "sequence_partition_key rid branch = show_int rid @ js '':'' @ branch"

definition sequence_space_label :: "jstr \<Rightarrow> jstr \<Rightarrow> jstr" where
  "sequence_space_label slug branch = slug @ js ''@'' @ branch"

definition parse_sequence_space_label :: "jstr \<Rightarrow> (jstr \<times> jstr \<times> jstr) option" where
  "parse_sequence_space_label label =
     (case find_index (\<lambda>c. c = ch CHR ''@'') label of
        None \<Rightarrow> None
      | Some at \<Rightarrow>
          let slug = take at label; branch = drop (Suc at) label in
          if branch = [] then None
          else
            (case find_index (\<lambda>c. c = ch CHR ''/'') slug of
               None \<Rightarrow> None
             | Some slash \<Rightarrow>
                 let owner = take slash slug; name = drop (Suc slash) slug in
                 if owner = [] \<or> name = [] then None else Some (owner, name, branch)))"

definition space_parts_ok :: "jstr \<times> jstr \<times> jstr \<Rightarrow> bool" where
  "space_parts_ok p = (case p of (owner, name, branch) \<Rightarrow>
     owner \<noteq> [] \<and> name \<noteq> [] \<and> branch \<noteq> [] \<and> ch CHR ''/'' \<notin> set owner \<and>
     ch CHR ''@'' \<notin> set owner \<and> ch CHR ''@'' \<notin> set name)"

definition space_label :: "jstr \<times> jstr \<times> jstr \<Rightarrow> jstr" where
  "space_label p = (case p of (owner, name, branch) \<Rightarrow> sequence_space_label (owner @ js ''/'' @ name) branch)"

lemma find_unit: "c \<notin> set p \<Longrightarrow> find_index (\<lambda>x. x = c) (p @ c # r) = Some (length p)"
  by (intro find_index_append) auto

lemma find_unit_split:
  assumes "find_index (\<lambda>x. x = c) s = Some i"
  shows "s = take i s @ c # drop (Suc i) s \<and> c \<notin> set (take i s)"
proof -
  from assms have i: "i < length s" "s ! i = c" "c \<notin> set (take i s)" by (auto simp: find_index_Some_iff)
  then show ?thesis using id_take_nth_drop[OF i(1)] by simp
qed

interpretation space_codec: canonical_codec space_label parse_sequence_space_label space_parts_ok
proof unfold_locales
  fix x :: "jstr \<times> jstr \<times> jstr"
  assume "space_parts_ok x"
  then show "parse_sequence_space_label (space_label x) = Some x"
    using find_unit[of "ch CHR ''@''" "fst x @ ch CHR ''/'' # fst (snd x)" "snd (snd x)"]
      find_unit[of "ch CHR ''/''" "fst x" "fst (snd x)"]
    by (cases x) (auto simp: space_parts_ok_def space_label_def sequence_space_label_def
        parse_sequence_space_label_def Let_def)
next
  fix s x
  assume p: "parse_sequence_space_label s = Some x"
  obtain owner name branch where x: "x = (owner, name, branch)" by (cases x)
  from p x obtain at slash where at: "find_index (\<lambda>c. c = ch CHR ''@'') s = Some at"
    and sl: "find_index (\<lambda>c. c = ch CHR ''/'') (take at s) = Some slash"
    and parts: "branch = drop (Suc at) s" "owner = take slash (take at s)" "name = drop (Suc slash) (take at s)"
    and ne: "branch \<noteq> []" "owner \<noteq> []" "name \<noteq> []"
    by (auto simp: parse_sequence_space_label_def Let_def split: option.splits if_splits)
  have a: "s = take at s @ ch CHR ''@'' # branch" "ch CHR ''@'' \<notin> set (take at s)"
    using find_unit_split[OF at] parts(1) by auto
  have b: "take at s = owner @ ch CHR ''/'' # name" "ch CHR ''/'' \<notin> set owner"
    using find_unit_split[OF sl] parts(2,3) by auto
  from a(2) b(1) have "ch CHR ''@'' \<notin> set owner" "ch CHR ''@'' \<notin> set name" by auto
  with ne b(2) show "space_parts_ok x" by (simp add: x space_parts_ok_def)
  have "s = (owner @ ch CHR ''/'' # name) @ ch CHR ''@'' # branch" using a(1) unfolding b(1) .
  then show "space_label x = s" by (simp add: x space_label_def sequence_space_label_def)
qed

text \<open>A sequence space label parses to an owner, a name and a branch exactly when it is the label
  printed for them, all three are non-empty, the owner has no slash and neither owner nor name
  an at sign: a branch may contain both.\<close>

theorem parse_iff_space_label:
  "parse_sequence_space_label label = Some (owner, name, branch) \<longleftrightarrow>
     label = sequence_space_label (owner @ js ''/'' @ name) branch \<and>
     owner \<noteq> [] \<and> name \<noteq> [] \<and> branch \<noteq> [] \<and> ch CHR ''/'' \<notin> set owner \<and>
     ch CHR ''@'' \<notin> set owner \<and> ch CHR ''@'' \<notin> set name"
  unfolding space_codec.parse_Some_iff by (auto simp: space_parts_ok_def space_label_def)

section \<open>Integrity\<close>

record stored_entry =
  merge_seq :: int
  commit_sha :: jstr

record sequence_mismatch =
  at_seq :: int
  stored_commit :: jstr
  actual_commit :: "jstr option"

text \<open>\<open>actualOldestFirst[mergeSeq - 1] ?? null\<close>: a negative index gives \<open>undefined\<close>.\<close>

definition js_index :: "'a list \<Rightarrow> int \<Rightarrow> 'a option" where
  "js_index xs i = (if 0 \<le> i \<and> nat i < length xs then Some (xs ! nat i) else None)"

fun check_entries :: "stored_entry list \<Rightarrow> jstr list \<Rightarrow> sequence_mismatch option" where
  "check_entries [] actual = None"
| "check_entries (e # es) actual =
     (case js_index actual (merge_seq e - 1) of
        None \<Rightarrow> Some \<lparr>at_seq = merge_seq e, stored_commit = commit_sha e, actual_commit = None\<rparr>
      | Some a \<Rightarrow>
          if to_lower a \<noteq> to_lower (commit_sha e)
          then Some \<lparr>at_seq = merge_seq e, stored_commit = commit_sha e, actual_commit = Some a\<rparr>
          else check_entries es actual)"

definition first_sequence_mismatch :: "stored_entry list \<Rightarrow> jstr list \<Rightarrow> sequence_mismatch option" where
  "first_sequence_mismatch stored actual = check_entries (sort_key merge_seq stored) actual"

definition sample_from_seq :: "int \<Rightarrow> int \<Rightarrow> int" where
  "sample_from_seq head_seq sample_size = max 1 (head_seq - sample_size + 1)"

definition entry_agrees :: "jstr list \<Rightarrow> stored_entry \<Rightarrow> bool" where
  "entry_agrees actual e \<longleftrightarrow>
     (case js_index actual (merge_seq e - 1) of None \<Rightarrow> False | Some a \<Rightarrow> to_lower a = to_lower (commit_sha e))"

lemma check_entries_find:
  "check_entries es actual =
     map_option (\<lambda>e. \<lparr>at_seq = merge_seq e, stored_commit = commit_sha e,
                     actual_commit = js_index actual (merge_seq e - 1)\<rparr>)
       (find (\<lambda>e. \<not> entry_agrees actual e) es)"
  by (induction es) (auto simp: entry_agrees_def split: option.splits)

lemma find_sorted_least:
  assumes "find P (sort_key f xs) = Some x" and "y \<in> set xs" and "P y"
  shows "f x \<le> f y"
proof -
  from assms(1) obtain i where i: "i < length xs" "x = sort_key f xs ! i" "\<forall>j < i. \<not> P (sort_key f xs ! j)"
    by (auto simp: find_Some_iff)
  from assms(2) have "y \<in> set (sort_key f xs)" by simp
  then obtain j where j: "j < length xs" "y = sort_key f xs ! j" by (metis in_set_conv_nth length_sort)
  with i assms(3) have "i \<le> j" by (metis not_less)
  with sorted_sort_key[of f xs] i j show ?thesis
    using sorted_nth_mono[of "map f (sort_key f xs)" i j] by simp
qed

text \<open>The integrity check reports no mismatch exactly when every stored entry agrees with the
  chain, and otherwise reports an entry that disagrees, with the stored and the actual commit,
  before which all entries agree.\<close>

theorem first_mismatch_exact:
  "(first_sequence_mismatch stored actual = None \<longleftrightarrow> (\<forall>e \<in> set stored. entry_agrees actual e)) \<and>
   (\<forall>m. first_sequence_mismatch stored actual = Some m \<longrightarrow>
      (\<exists>e \<in> set stored. \<not> entry_agrees actual e \<and> at_seq m = merge_seq e \<and> stored_commit m = commit_sha e \<and>
         actual_commit m = js_index actual (merge_seq e - 1)) \<and>
      (\<forall>e \<in> set stored. merge_seq e < at_seq m \<longrightarrow> entry_agrees actual e))"
proof (intro conjI allI impI)
  show "first_sequence_mismatch stored actual = None \<longleftrightarrow> (\<forall>e \<in> set stored. entry_agrees actual e)"
    by (auto simp: first_sequence_mismatch_def check_entries_find find_None_iff)
next
  fix m assume "first_sequence_mismatch stored actual = Some m"
  then obtain e where e: "find (\<lambda>e. \<not> entry_agrees actual e) (sort_key merge_seq stored) = Some e"
    and m: "m = \<lparr>at_seq = merge_seq e, stored_commit = commit_sha e,
                actual_commit = js_index actual (merge_seq e - 1)\<rparr>"
    by (auto simp: first_sequence_mismatch_def check_entries_find)
  from e have "e \<in> set stored" "\<not> entry_agrees actual e"
    by (auto simp: find_Some_iff) (metis length_sort nth_mem set_sort)
  with m show "\<exists>e \<in> set stored. \<not> entry_agrees actual e \<and> at_seq m = merge_seq e \<and>
      stored_commit m = commit_sha e \<and> actual_commit m = js_index actual (merge_seq e - 1)" by auto
  show "\<forall>e \<in> set stored. merge_seq e < at_seq m \<longrightarrow> entry_agrees actual e"
    using find_sorted_least[OF e] m by fastforce
qed

definition sample_stored :: "stored_entry list" where
  "sample_stored = [\<lparr>merge_seq = 2, commit_sha = js ''B''\<rparr>, \<lparr>merge_seq = 1, commit_sha = js ''a''\<rparr>]"

theorem first_mismatch_exact_witness:
  "first_sequence_mismatch sample_stored [js ''a'', js ''c''] =
     Some \<lparr>at_seq = 2, stored_commit = js ''B'', actual_commit = Some (js ''c'')\<rparr> \<and>
   entry_agrees [js ''a'', js ''c''] \<lparr>merge_seq = 1, commit_sha = js ''a''\<rparr>"
proof -
  have m: "first_sequence_mismatch sample_stored [js ''a'', js ''c''] =
     Some \<lparr>at_seq = 2, stored_commit = js ''B'', actual_commit = Some (js ''c'')\<rparr>" by code_simp
  with first_mismatch_exact[of sample_stored "[js ''a'', js ''c'']"] show ?thesis
    by (simp add: sample_stored_def)
qed

definition sample_push :: json where
  "sample_push = J_object [(js ''ref'', J_string (js ''refs/heads/a'')), (js ''after'', J_string (replicate 40 (ch CHR ''1''))),
     (js ''repository'', J_object [(js ''id'', J_int 7)])]"

theorem push_target_valid_witness:
  "extract_push_target sample_push =
     Push_target \<lparr>repository_id = 7, base_branch = js ''a'', head_sha = replicate 40 (ch CHR ''1'')\<rparr> \<and>
   FULL_SHA (replicate 40 (ch CHR ''1''))"
proof -
  have t: "extract_push_target sample_push =
     Push_target \<lparr>repository_id = 7, base_branch = js ''a'', head_sha = replicate 40 (ch CHR ''1'')\<rparr>" by code_simp
  with push_target_valid[OF t] show ?thesis by simp
qed

end
