(* ===== verification/Github_Scheduler.thy ===== *)
theory Github_Scheduler
  imports PRS_Prelude
begin

text \<open>
  The request scheduler (\<open>packages/github/src/scheduler.ts\<close>). The code runs on one thread and
  is interrupted only at its \<open>await\<close>s, so the operations of the model are the pieces between
  them: \<open>acquire\<close> up to its first \<open>await\<close>, \<open>resume\<close> for the rest of \<open>#acquire\<close> after the
  waiter's promise was resolved, \<open>release\<close>, and \<open>abort_waiter\<close> for the listener. A waiter whose
  promise is resolved but whose continuation has not run yet is in \<open>granted\<close>; \<open>running\<close> lists the
  calls whose task is under way (it is not part of the code's state). \<open>sched_step\<close> lets these
  pieces happen in any order in which the event loop may run them.
\<close>

section \<open>State and operations\<close>

datatype request_priority = Realtime | Backfill

record waiter =
  waiter_id :: nat
  priority_of :: request_priority
  enqueued_at :: nat

record scheduler =
  max_concurrent :: int
  realtime_queue :: "waiter list"
  backfill_queue :: "waiter list"
  in_flight :: int
  sequence_no :: nat
  granted :: "waiter list"
  running :: "nat list"

definition new_scheduler :: "int \<Rightarrow> scheduler" where
  "new_scheduler max_option =
     \<lparr>max_concurrent = max 1 max_option, realtime_queue = [], backfill_queue = [], in_flight = 0,
      sequence_no = 0, granted = [], running = []\<rparr>"

definition queued :: "scheduler \<Rightarrow> nat" where
  "queued s = length (realtime_queue s) + length (backfill_queue s)"

datatype acquire_outcome = Aborted_before | Acquired | Waiting

definition enqueue :: "waiter \<Rightarrow> scheduler \<Rightarrow> scheduler" where
  "enqueue w s =
     (case priority_of w of
        Realtime \<Rightarrow> s\<lparr>realtime_queue := realtime_queue s @ [w]\<rparr>
      | Backfill \<Rightarrow> s\<lparr>backfill_queue := backfill_queue s @ [w]\<rparr>)"

definition acquire :: "nat \<Rightarrow> request_priority \<Rightarrow> bool \<Rightarrow> scheduler \<Rightarrow> acquire_outcome \<times> scheduler" where
  "acquire i p aborted s =
     (if aborted then (Aborted_before, s)
      else if in_flight s < max_concurrent s \<and> queued s = 0
      then (Acquired, s\<lparr>in_flight := in_flight s + 1, running := running s @ [i]\<rparr>)
      else (Waiting, enqueue \<lparr>waiter_id = i, priority_of = p, enqueued_at = Suc (sequence_no s)\<rparr>
                       (s\<lparr>sequence_no := Suc (sequence_no s)\<rparr>)))"

text \<open>The listener removes the waiter if it still is in its queue.\<close>

definition abort_waiter :: "waiter \<Rightarrow> scheduler \<Rightarrow> scheduler" where
  "abort_waiter w s =
     (case priority_of w of
        Realtime \<Rightarrow> s\<lparr>realtime_queue := remove1 w (realtime_queue s)\<rparr>
      | Backfill \<Rightarrow> s\<lparr>backfill_queue := remove1 w (backfill_queue s)\<rparr>)"

definition next_waiter :: "scheduler \<Rightarrow> (waiter \<times> scheduler) option" where
  "next_waiter s =
     (case realtime_queue s of
        w # ws \<Rightarrow> Some (w, s\<lparr>realtime_queue := ws\<rparr>)
      | [] \<Rightarrow> (case backfill_queue s of
                 w # ws \<Rightarrow> Some (w, s\<lparr>backfill_queue := ws\<rparr>)
               | [] \<Rightarrow> None))"

definition release :: "nat \<Rightarrow> scheduler \<Rightarrow> scheduler" where
  "release i s =
     (let s1 = s\<lparr>in_flight := in_flight s - 1, running := remove1 i (running s)\<rparr> in
      case next_waiter s1 of
        None \<Rightarrow> s1
      | Some (w, s2) \<Rightarrow> s2\<lparr>granted := granted s2 @ [w]\<rparr>)"

text \<open>Promise jobs run in the order in which they were resolved.\<close>

definition resume :: "scheduler \<Rightarrow> scheduler option" where
  "resume s =
     (case granted s of
        [] \<Rightarrow> None
      | w # ws \<Rightarrow> Some (s\<lparr>granted := ws, in_flight := in_flight s + 1,
                          running := running s @ [waiter_id w]\<rparr>))"

inductive sched_step :: "scheduler \<Rightarrow> scheduler \<Rightarrow> bool" where
  call: "sched_step s (snd (acquire i p aborted s))"
| finish: "i \<in> set (running s) \<Longrightarrow> sched_step s (release i s)"
| woken: "resume s = Some t \<Longrightarrow> sched_step s t"
| abort: "w \<in> set (realtime_queue s) \<union> set (backfill_queue s) \<Longrightarrow> sched_step s (abort_waiter w s)"

text \<open>The same, when a call never happens between a grant and the resumption of the waiter.\<close>

inductive prompt_step :: "scheduler \<Rightarrow> scheduler \<Rightarrow> bool" where
  call: "granted s = [] \<Longrightarrow> prompt_step s (snd (acquire i p aborted s))"
| finish: "i \<in> set (running s) \<Longrightarrow> prompt_step s (release i s)"
| woken: "resume s = Some t \<Longrightarrow> prompt_step s t"
| abort: "w \<in> set (realtime_queue s) \<union> set (backfill_queue s) \<Longrightarrow> prompt_step s (abort_waiter w s)"

inductive_cases sched_stepE: "sched_step s t"
inductive_cases prompt_stepE: "prompt_step s t"
inductive_simps resume_step: "sched_step s (s\<lparr>granted := ws\<rparr>)"

lemmas scheduler_ops = acquire_def release_def resume_def abort_waiter_def enqueue_def next_waiter_def
  queued_def new_scheduler_def

section \<open>Invariants\<close>

text \<open>
  The counter counts the running tasks, and the scheduler conserves work: while anyone waits,
  the slots are all taken or granted.
\<close>

definition sched_inv :: "scheduler \<Rightarrow> bool" where
  "sched_inv s \<longleftrightarrow>
     1 \<le> max_concurrent s \<and> in_flight s = int (length (running s)) \<and>
     (0 < queued s \<longrightarrow> max_concurrent s \<le> in_flight s + int (length (granted s)))"

text \<open>Each queue holds the waiters of its priority, oldest first.\<close>

definition queue_inv :: "request_priority \<Rightarrow> nat \<Rightarrow> waiter list \<Rightarrow> bool" where
  "queue_inv p n ws \<longleftrightarrow>
     sorted_wrt (<) (map enqueued_at ws) \<and> (\<forall>w \<in> set ws. priority_of w = p \<and> enqueued_at w \<le> n)"

definition order_inv :: "scheduler \<Rightarrow> bool" where
  "order_inv s \<longleftrightarrow> queue_inv Realtime (sequence_no s) (realtime_queue s) \<and>
     queue_inv Backfill (sequence_no s) (backfill_queue s)"

lemma queue_inv_add:
  "queue_inv p n ws \<Longrightarrow> queue_inv p (Suc n) (ws @ [\<lparr>waiter_id = i, priority_of = p, enqueued_at = Suc n\<rparr>])"
  by (fastforce simp: queue_inv_def sorted_wrt_append)

lemma queue_inv_later: "queue_inv p n ws \<Longrightarrow> queue_inv p (Suc n) ws"
  by (auto simp: queue_inv_def)

lemma sorted_wrt_remove1: "sorted_wrt P xs \<Longrightarrow> sorted_wrt P (remove1 x xs)"
  by (induction xs) (auto dest: notin_set_remove1)

lemma queue_inv_remove: "queue_inv p n ws \<Longrightarrow> queue_inv p n (remove1 w ws)"
  by (auto simp: queue_inv_def sorted_wrt_map sorted_wrt_remove1 dest: notin_set_remove1)

lemma queue_inv_tl: "queue_inv p n (w # ws) \<Longrightarrow> queue_inv p n ws"
  by (auto simp: queue_inv_def)

lemma order_new: "order_inv (new_scheduler m)"
  by (simp add: order_inv_def queue_inv_def new_scheduler_def)

lemma order_step: "order_inv s \<Longrightarrow> sched_step s t \<Longrightarrow> order_inv t"
  by (auto elim!: sched_stepE simp: order_inv_def scheduler_ops Let_def queue_inv_add queue_inv_later
      queue_inv_remove intro: queue_inv_tl split: request_priority.splits list.splits)

interpretation scheduling_order: invariant_system "\<lambda>s. s = new_scheduler m" sched_step order_inv
  by unfold_locales (auto simp: order_new elim: order_step)

lemma length_remove1_int: "i \<in> set xs \<Longrightarrow> int (length (remove1 i xs)) = int (length xs) - 1"
  using length_pos_if_in_set[of i xs] by (auto simp: length_remove1 of_nat_diff Suc_leI)

lemma sched_inv_new: "sched_inv (new_scheduler m)"
  by (simp add: sched_inv_def scheduler_ops)

lemma sched_inv_acquire: "sched_inv s \<Longrightarrow> sched_inv (snd (acquire i p aborted s))"
  by (auto simp: sched_inv_def scheduler_ops split: request_priority.splits)

lemma sched_inv_abort: "sched_inv s \<Longrightarrow> sched_inv (abort_waiter w s)"
  by (auto simp: sched_inv_def scheduler_ops length_remove1 split: request_priority.splits if_splits)

lemma sched_inv_release: "sched_inv s \<Longrightarrow> i \<in> set (running s) \<Longrightarrow> sched_inv (release i s)"
  by (auto simp: sched_inv_def scheduler_ops length_remove1_int Let_def split: list.splits)

lemma sched_inv_resume: "sched_inv s \<Longrightarrow> resume s = Some t \<Longrightarrow> sched_inv t"
  by (auto simp: sched_inv_def scheduler_ops split: list.splits)

lemmas sched_inv_ops = sched_inv_acquire sched_inv_abort sched_inv_release sched_inv_resume

interpretation scheduling: invariant_system "\<lambda>s. s = new_scheduler m" sched_step sched_inv
  by unfold_locales (auto simp: sched_inv_new elim!: sched_stepE intro: sched_inv_ops)

definition bounded_inv :: "scheduler \<Rightarrow> bool" where
  "bounded_inv s \<longleftrightarrow> sched_inv s \<and> in_flight s + int (length (granted s)) \<le> max_concurrent s"

lemma bounded_acquire:
  "bounded_inv s \<Longrightarrow> granted s = [] \<Longrightarrow> bounded_inv (snd (acquire i p aborted s))"
  using sched_inv_acquire[of s i p aborted]
  by (auto simp: bounded_inv_def) (auto simp: scheduler_ops split: request_priority.splits)

lemma bounded_abort: "bounded_inv s \<Longrightarrow> bounded_inv (abort_waiter w s)"
  using sched_inv_abort[of s w]
  by (auto simp: bounded_inv_def) (auto simp: scheduler_ops split: request_priority.splits)

lemma bounded_release: "bounded_inv s \<Longrightarrow> i \<in> set (running s) \<Longrightarrow> bounded_inv (release i s)"
  using sched_inv_release[of s i]
  by (auto simp: bounded_inv_def) (auto simp: scheduler_ops Let_def split: list.splits)

lemma bounded_resume: "bounded_inv s \<Longrightarrow> resume s = Some t \<Longrightarrow> bounded_inv t"
  using sched_inv_resume[of s t]
  by (auto simp: bounded_inv_def) (auto simp: scheduler_ops split: list.splits)

lemmas bounded_ops = bounded_acquire bounded_abort bounded_release bounded_resume

lemma bounded_new: "bounded_inv (new_scheduler m)"
  by (simp add: bounded_inv_def sched_inv_new) (simp add: scheduler_ops)

interpretation prompt_scheduling: invariant_system "\<lambda>s. s = new_scheduler m" prompt_step bounded_inv
  by unfold_locales (auto simp: bounded_new elim!: prompt_stepE intro: bounded_ops)

section \<open>Exceeding the limit\<close>

lemma max_concurrent_const: "sched_step s t \<Longrightarrow> max_concurrent t = max_concurrent s"
  by (auto elim!: sched_stepE simp: scheduler_ops Let_def split: request_priority.splits list.splits)

definition quiet :: "scheduler \<Rightarrow> nat \<Rightarrow> nat \<Rightarrow> nat \<Rightarrow> bool" where
  "quiet s n g q \<longleftrightarrow> reaches (\<lambda>s. s = new_scheduler 1) sched_step s \<and> max_concurrent s = 1 \<and>
     in_flight s = int n \<and> length (running s) = n \<and> length (granted s) = g \<and>
     realtime_queue s = [] \<and> length (backfill_queue s) = q"

lemma quiet_call:
  assumes "quiet s n g q" "0 < n \<or> 0 < q" shows "\<exists>t. quiet t n g (Suc q)"
proof -
  have "sched_step s (snd (acquire 0 Backfill False s))" by (rule sched_step.call)
  moreover have "quiet (snd (acquire 0 Backfill False s)) n g (Suc q)"
    if "reaches (\<lambda>s. s = new_scheduler 1) sched_step (snd (acquire 0 Backfill False s))"
    using assms that by (auto simp: quiet_def scheduler_ops)
  ultimately show ?thesis using assms(1) reaches.step by (fastforce simp: quiet_def)
qed

lemma quiet_start:
  assumes "quiet s 0 g 0" shows "\<exists>t. quiet t 1 g 0"
proof -
  have "sched_step s (snd (acquire 0 Backfill False s))" by (rule sched_step.call)
  moreover have "quiet (snd (acquire 0 Backfill False s)) 1 g 0"
    if "reaches (\<lambda>s. s = new_scheduler 1) sched_step (snd (acquire 0 Backfill False s))"
    using assms that by (auto simp: quiet_def scheduler_ops)
  ultimately show ?thesis using assms(1) reaches.step by (fastforce simp: quiet_def)
qed

lemma quiet_release:
  assumes "quiet s (Suc n) g (Suc q)" shows "\<exists>t. quiet t n (Suc g) q"
proof -
  obtain i r where r: "running s = i # r" using assms by (cases "running s") (auto simp: quiet_def)
  obtain w ws where w: "backfill_queue s = w # ws" using assms by (cases "backfill_queue s") (auto simp: quiet_def)
  have "sched_step s (release i s)" by (rule sched_step.finish) (simp add: r)
  moreover have "quiet (release i s) n (Suc g) q"
    if "reaches (\<lambda>s. s = new_scheduler 1) sched_step (release i s)"
    using assms that r w by (auto simp: quiet_def scheduler_ops Let_def)
  ultimately show ?thesis using assms(1) reaches.step by (fastforce simp: quiet_def)
qed

lemma quiet_resume:
  assumes "quiet s n (Suc g) q" shows "\<exists>t. quiet t (Suc n) g q"
proof -
  obtain w ws where w: "granted s = w # ws" using assms by (cases "granted s") (auto simp: quiet_def)
  then obtain t where t: "resume s = Some t" by (auto simp: resume_def)
  moreover have "quiet t (Suc n) g q" if "reaches (\<lambda>s. s = new_scheduler 1) sched_step t"
    using assms that t w by (auto simp: quiet_def resume_def)
  ultimately show ?thesis using assms(1) reaches.step sched_step.woken by (fastforce simp: quiet_def)
qed

lemma quiet_calls: "quiet s (Suc n) 0 0 \<Longrightarrow> \<exists>t. quiet t (Suc n) 0 q"
  by (induction q) (use quiet_call in \<open>blast+\<close>)

lemma quiet_releases: "quiet s n g n \<Longrightarrow> \<exists>t. quiet t 0 (g + n) 0"
proof (induction n arbitrary: s g)
  case (Suc n)
  from quiet_release[OF Suc.prems] obtain t where "quiet t n (Suc g) n" ..
  from Suc.IH[OF this] show ?case by simp
qed auto

lemma quiet_resumes: "quiet s n g 0 \<Longrightarrow> \<exists>t. quiet t (n + g) 0 0"
proof (induction g arbitrary: s n)
  case (Suc g)
  from quiet_resume[OF Suc.prems] obtain t where "quiet t (Suc n) g 0" ..
  from Suc.IH[OF this] show ?case by simp
qed auto

lemma quiet_grows: "\<exists>s. quiet s (Suc n) 0 0"
proof (induction n)
  case 0
  have "quiet (new_scheduler 1) 0 0 0" by (auto simp: quiet_def new_scheduler_def intro: reaches.start)
  from quiet_start[OF this] show ?case by simp
next
  case (Suc n)
  then obtain s where "quiet s (Suc n) 0 0" ..
  from quiet_calls[OF this, of "Suc n"] obtain a where "quiet a (Suc n) 0 (Suc n)" ..
  from quiet_releases[OF this] obtain b where "quiet b 0 (Suc n) 0" by auto
  from quiet_start[OF this] obtain c where "quiet c 1 (Suc n) 0" ..
  from quiet_resumes[OF this] show ?case by simp
qed

section \<open>Properties\<close>

text \<open>C31: In every state reachable from a new scheduler, the counter of requests in flight is the
  number of running ones, and requests wait only when the slots that run or are granted reach
  the limit.\<close>

theorem scheduler_conserves_work:
  assumes "reaches (\<lambda>s. s = new_scheduler m) sched_step s"
  shows "in_flight s = int (length (running s)) \<and>
    (queued s = 0 \<or> max_concurrent s \<le> in_flight s + int (length (granted s)))"
  using scheduling.reaches_inv[OF assms] by (auto simp: sched_inv_def)

text \<open>A slot that becomes free is granted to the oldest waiter of the highest priority: a backfill
  request only gets it when no realtime request waits, and no waiter of the same priority was
  enqueued earlier.\<close>

theorem release_grants_oldest:
  assumes "reaches (\<lambda>s. s = new_scheduler m) sched_step s" and "granted (release i s) = granted s @ [w]"
  shows "(priority_of w = Backfill \<longrightarrow> realtime_queue s = []) \<and>
    (\<forall>v \<in> set (realtime_queue s) \<union> set (backfill_queue s).
       priority_of v = priority_of w \<longrightarrow> enqueued_at w \<le> enqueued_at v)"
proof -
  have "order_inv s" using scheduling_order.reaches_inv[OF assms(1)] .
  with assms(2) show ?thesis
    by (fastforce simp: order_inv_def queue_inv_def release_def next_waiter_def Let_def split: list.splits)
qed

text \<open>When every request that was granted a slot resumes before another event, the number of
  requests in flight never exceeds the limit.\<close>

theorem prompt_scheduler_respects_limit:
  assumes "reaches (\<lambda>s. s = new_scheduler m) prompt_step s"
  shows "0 \<le> in_flight s \<and> in_flight s \<le> max_concurrent s"
  using prompt_scheduling.reaches_inv[OF assms] by (auto simp: bounded_inv_def sched_inv_def)

text \<open>C30: When slots are granted before an earlier grant resumes, the limit is not kept: with a limit
  of one, any number of requests can run at once.\<close>

theorem scheduler_exceeds_any_limit:
  "\<exists>s. reaches (\<lambda>s. s = new_scheduler 1) sched_step s \<and> max_concurrent s = 1 \<and> length (running s) = Suc n"
  using quiet_grows[of n] by (auto simp: quiet_def)

definition sample_first :: scheduler where
  "sample_first = snd (acquire 0 Backfill False (new_scheduler 1))"

definition sample_waiting :: scheduler where
  "sample_waiting = snd (acquire 2 Realtime False (snd (acquire 1 Backfill False sample_first)))"

lemma new_reaches: "reaches (\<lambda>s. s = new_scheduler m) step (new_scheduler m)"
  by (rule reaches.start) simp

lemma sample_first_reaches: "reaches (\<lambda>s. s = new_scheduler 1) prompt_step sample_first"
proof -
  have "prompt_step (new_scheduler 1) sample_first"
    unfolding sample_first_def by (rule prompt_step.call) (simp add: new_scheduler_def)
  then show ?thesis by (rule reaches.step[OF new_reaches])
qed

lemma call_reaches:
  assumes "reaches init sched_step s"
  shows "reaches init sched_step (snd (acquire i p aborted s))"
  by (rule reaches.step[where s = s and step = sched_step, OF assms]) (rule sched_step.call)

lemma sample_waiting_reaches: "reaches (\<lambda>s. s = new_scheduler 1) sched_step sample_waiting"
  unfolding sample_waiting_def sample_first_def by (intro call_reaches new_reaches)

lemmas sample_states = sample_waiting_def sample_first_def scheduler_ops

theorem scheduler_conserves_work_witness:
  "in_flight sample_waiting = 1 \<and> 1 \<le> in_flight sample_waiting + int (length (granted sample_waiting))"
  using scheduler_conserves_work[OF sample_waiting_reaches] by (simp add: sample_states)

theorem release_grants_oldest_witness:
  "granted (release 0 sample_waiting) = [\<lparr>waiter_id = 2, priority_of = Realtime, enqueued_at = 2\<rparr>]"
proof -
  have "granted (release 0 sample_waiting) =
      granted sample_waiting @ [\<lparr>waiter_id = 2, priority_of = Realtime, enqueued_at = 2\<rparr>]"
    by (simp add: release_def sample_states)
  with release_grants_oldest[OF sample_waiting_reaches this] show ?thesis by (simp add: sample_states)
qed

theorem prompt_scheduler_respects_limit_witness: "in_flight sample_first \<le> 1"
  using prompt_scheduler_respects_limit[OF sample_first_reaches] by (simp add: sample_states)

end
