(* ===== verification/Github_RateLimit.thy ===== *)
theory Github_RateLimit
  imports PRS_Prelude Complex_Main
begin

text \<open>
  Rate limits and the token pool (\<open>packages/github/src/rate-limit.ts\<close>, \<open>token-pool.ts\<close>).
  Instants are milliseconds; the numbers of the headers are exact rationals, and the reading of
  a text as a finite number or as a date is a parameter (\<open>number\<close>, \<open>date\<close>).
\<close>

section \<open>The state of one token\<close>

record snapshot =
  limit_of :: rat
  remaining_of :: rat
  reset_at :: rat
  observed_at :: rat

definition parse_rate_limit_headers ::
    "(jstr \<Rightarrow> rat option) \<Rightarrow> (jstr \<Rightarrow> jstr option) \<Rightarrow> rat \<Rightarrow> snapshot option" where
  "parse_rate_limit_headers number headers now =
     (case (headers (js ''x-ratelimit-limit''), headers (js ''x-ratelimit-remaining''),
            headers (js ''x-ratelimit-reset'')) of
        (Some l, Some r, Some t) \<Rightarrow>
          (case (number l, number r, number t) of
             (Some limit, Some remaining, Some reset) \<Rightarrow>
               Some \<lparr>limit_of = limit, remaining_of = remaining, reset_at = reset * 1000, observed_at = now\<rparr>
           | _ \<Rightarrow> None)
      | _ \<Rightarrow> None)"

definition parse_retry_after ::
    "(jstr \<Rightarrow> rat option) \<Rightarrow> (jstr \<Rightarrow> rat option) \<Rightarrow> (jstr \<Rightarrow> jstr option) \<Rightarrow> rat \<Rightarrow> rat option" where
  "parse_retry_after number date headers now =
     (case headers (js ''retry-after'') of
        None \<Rightarrow> None
      | Some raw \<Rightarrow>
          if trim raw = [] then None
          else (case number raw of
                  Some seconds \<Rightarrow> if 0 \<le> seconds then Some (now + seconds * 1000) else date raw
                | None \<Rightarrow> date raw))"

datatype quarantine_reason = Primary_exhausted | Secondary_limit

record token_state =
  snapshot_of :: "snapshot option"
  quarantined_until :: "rat option"
  reason_of :: "quarantine_reason option"

definition INITIAL_STATE :: token_state where
  "INITIAL_STATE = \<lparr>snapshot_of = None, quarantined_until = None, reason_of = None\<rparr>"

definition below_threshold :: "rat \<Rightarrow> snapshot \<Rightarrow> bool" where
  "below_threshold threshold s \<longleftrightarrow> 0 < limit_of s \<and> remaining_of s / limit_of s < threshold"

definition apply_response :: "token_state \<Rightarrow> snapshot option \<Rightarrow> rat \<Rightarrow> token_state" where
  "apply_response st snap threshold =
     (case snap of
        None \<Rightarrow> st
      | Some s \<Rightarrow>
          if below_threshold threshold s
          then \<lparr>snapshot_of = Some s, quarantined_until = Some (reset_at s), reason_of = Some Primary_exhausted\<rparr>
          else if reason_of st = Some Secondary_limit then st\<lparr>snapshot_of := Some s\<rparr>
          else \<lparr>snapshot_of = Some s, quarantined_until = None, reason_of = None\<rparr>)"

definition apply_secondary_limit :: "token_state \<Rightarrow> rat \<Rightarrow> token_state" where
  "apply_secondary_limit st retry_at =
     st\<lparr>quarantined_until :=
          (case quarantined_until st of
             Some current \<Rightarrow> if current > retry_at then Some current else Some retry_at
           | None \<Rightarrow> Some retry_at),
        reason_of := Some Secondary_limit\<rparr>"

definition is_available :: "token_state \<Rightarrow> rat \<Rightarrow> bool" where
  "is_available st now \<longleftrightarrow>
     (case quarantined_until st of None \<Rightarrow> True | Some until \<Rightarrow> until \<le> now)"

section \<open>The pool\<close>

record pool =
  by_org :: "(jstr \<times> int) list"
  state_map :: "(int \<times> token_state) list"
  threshold_of :: rat

definition new_pool :: "(jstr \<times> int) list \<Rightarrow> rat \<Rightarrow> pool" where
  "new_pool installations threshold =
     foldl (\<lambda>p (org, i). p\<lparr>by_org := AList.update org i (by_org p),
                          state_map := AList.update i INITIAL_STATE (state_map p)\<rparr>)
       \<lparr>by_org = [], state_map = [], threshold_of = threshold\<rparr> installations"

definition installation_for :: "pool \<Rightarrow> jstr \<Rightarrow> int option" where
  "installation_for p org = map_of (by_org p) org"

definition token_state_of :: "pool \<Rightarrow> int \<Rightarrow> token_state" where
  "token_state_of p i = (case map_of (state_map p) i of None \<Rightarrow> INITIAL_STATE | Some st \<Rightarrow> st)"

definition pool_available :: "pool \<Rightarrow> rat \<Rightarrow> jstr \<Rightarrow> bool" where
  "pool_available p now org =
     (case installation_for p org of None \<Rightarrow> False | Some i \<Rightarrow> is_available (token_state_of p i) now)"

definition available_at :: "pool \<Rightarrow> rat \<Rightarrow> jstr \<Rightarrow> rat option" where
  "available_at p now org =
     (case installation_for p org of
        None \<Rightarrow> None
      | Some i \<Rightarrow>
          (case quarantined_until (token_state_of p i) of
             None \<Rightarrow> None
           | Some until \<Rightarrow> if until > now then Some until else None))"

definition observe_response :: "int \<Rightarrow> snapshot option \<Rightarrow> pool \<Rightarrow> pool" where
  "observe_response i snap p =
     p\<lparr>state_map := AList.update i (apply_response (token_state_of p i) snap (threshold_of p)) (state_map p)\<rparr>"

definition observe_secondary_limit :: "int \<Rightarrow> rat \<Rightarrow> pool \<Rightarrow> pool" where
  "observe_secondary_limit i retry_at p =
     p\<lparr>state_map := AList.update i (apply_secondary_limit (token_state_of p i) retry_at) (state_map p)\<rparr>"

definition remaining_by_installation :: "pool \<Rightarrow> (int \<times> rat) list" where
  "remaining_by_installation p =
     List.map_filter (\<lambda>(i, st). map_option (\<lambda>s. (i, remaining_of s)) (snapshot_of st)) (state_map p)"

section \<open>Properties\<close>

datatype observation = Response int "snapshot option" | Secondary int rat

fun observe :: "pool \<Rightarrow> observation \<Rightarrow> pool" where
  "observe p (Response i snap) = observe_response i snap p"
| "observe p (Secondary i retry_at) = observe_secondary_limit i retry_at p"

lemma token_state_observe:
  "token_state_of (observe_response i snap p) j =
     (if j = i then apply_response (token_state_of p i) snap (threshold_of p) else token_state_of p j)"
  "token_state_of (observe_secondary_limit i t p) j =
     (if j = i then apply_secondary_limit (token_state_of p i) t else token_state_of p j)"
  by (simp_all add: token_state_of_def observe_response_def observe_secondary_limit_def update_conv')

lemma threshold_observe [simp]: "threshold_of (observe p e) = threshold_of p"
  by (cases e) (simp_all add: observe_response_def observe_secondary_limit_def)

lemma by_org_observe [simp]: "by_org (observe p e) = by_org p"
  by (cases e) (simp_all add: observe_response_def observe_secondary_limit_def)

text \<open>A secondary quarantine that lasts at least until \<open>t\<close>.\<close>

definition secondary_until :: "rat \<Rightarrow> token_state \<Rightarrow> bool" where
  "secondary_until t st \<longleftrightarrow> reason_of st = Some Secondary_limit \<and>
     (case quarantined_until st of None \<Rightarrow> False | Some u \<Rightarrow> t \<le> u)"

fun keeps_secondary :: "rat \<Rightarrow> int \<Rightarrow> observation \<Rightarrow> bool" where
  "keeps_secondary threshold i (Response j (Some s)) = (j = i \<longrightarrow> \<not> below_threshold threshold s)"
| "keeps_secondary threshold i _ = True"

lemma secondary_step:
  assumes "secondary_until t (token_state_of p i)" and "keeps_secondary (threshold_of p) i e"
  shows "secondary_until t (token_state_of (observe p e) i)"
  using assms
  by (cases "(threshold_of p, i, e)" rule: keeps_secondary.cases)
    (auto simp: token_state_observe secondary_until_def apply_response_def apply_secondary_limit_def
      split: option.splits if_splits)

lemma secondary_run:
  assumes "secondary_until t (token_state_of p i)" and "list_all (keeps_secondary (threshold_of p) i) es"
  shows "secondary_until t (token_state_of (foldl observe p es) i)"
  using assms
proof (induction es arbitrary: p)
  case (Cons e es)
  then show ?case using secondary_step[of t p i e] by simp
qed simp

lemma by_org_run: "by_org (foldl observe p es) = by_org p"
  by (induction es arbitrary: p) simp_all

text \<open>An installation quarantined by a secondary rate limit is not used before the time GitHub
  asked to wait for, whatever responses are observed meanwhile, as long as none of them
  exhausts the primary limit.\<close>

theorem secondary_quarantine_holds:
  assumes "installation_for p org = Some i" and "list_all (keeps_secondary (threshold_of p) i) es"
    and "now < retry_at"
  shows "\<not> pool_available (foldl observe (observe_secondary_limit i retry_at p) es) now org"
proof -
  let ?p = "observe_secondary_limit i retry_at p"
  have "secondary_until retry_at (token_state_of ?p i)"
    by (auto simp: token_state_observe secondary_until_def apply_secondary_limit_def split: option.splits)
  moreover have "threshold_of ?p = threshold_of p" "by_org ?p = by_org p"
    by (simp_all add: observe_secondary_limit_def)
  ultimately have "secondary_until retry_at (token_state_of (foldl observe ?p es) i)"
    "installation_for (foldl observe ?p es) org = Some i"
    using assms(1,2) secondary_run[of retry_at ?p i es] by (simp_all add: installation_for_def by_org_run)
  with assms(3) show ?thesis
    by (auto simp: pool_available_def is_available_def secondary_until_def split: option.splits)
qed

definition healthy :: snapshot where
  "healthy = \<lparr>limit_of = 5000, remaining_of = 4000, reset_at = 9000, observed_at = 0\<rparr>"

definition exhausted :: snapshot where
  "exhausted = \<lparr>limit_of = 5000, remaining_of = 0, reset_at = 2000, observed_at = 0\<rparr>"

definition sample_pool :: pool where
  "sample_pool = new_pool [(js ''acme'', 7)] (1 / 10)"

theorem secondary_quarantine_holds_witness:
  "\<not> pool_available (foldl observe (observe_secondary_limit 7 60000 sample_pool) [Response 7 (Some healthy)])
     3000 (js ''acme'')"
  by (rule secondary_quarantine_holds)
    (simp_all add: sample_pool_def new_pool_def installation_for_def healthy_def below_threshold_def)

text \<open>A response that exhausts the primary limit replaces the quarantine of a secondary limit even
  when it ends earlier, so the installation is used again before the time GitHub asked to wait
  for.\<close>

theorem primary_exhaustion_lifts_secondary:
  "\<not> pool_available (observe_secondary_limit 7 60000 sample_pool) 3000 (js ''acme'') \<and>
   pool_available (foldl observe (observe_secondary_limit 7 60000 sample_pool) [Response 7 (Some exhausted)])
     3000 (js ''acme'')"
  by (simp add: sample_pool_def new_pool_def pool_available_def installation_for_def token_state_of_def
      observe_response_def observe_secondary_limit_def apply_response_def apply_secondary_limit_def
      exhausted_def below_threshold_def is_available_def INITIAL_STATE_def)

end
