(* ===== verification/Github_Graph.thy ===== *)
theory Github_Graph
  imports PRS_Prelude
begin

text \<open>
  The pure part of reading a commit graph (\<open>packages/github/src/graph-plan.ts\<close>): the arguments
  handed to git, the parsing of its output, and the reconstruction of a first-parent chain from
  a list of commits. \<open>instant\<close> is \<open>Date.parse\<close> of a text with an explicit zone.
\<close>

section \<open>Arguments\<close>

definition is_full_sha :: "jstr \<Rightarrow> bool" where
  "is_full_sha s \<longleftrightarrow> length s = 40 \<and> list_all is_hex_lower s"

definition branch_head_unit :: "unit16 \<Rightarrow> bool" where
  "branch_head_unit c \<longleftrightarrow> is_digit c \<or> is_letter c \<or> c = ch CHR ''_''"

definition branch_unit :: "unit16 \<Rightarrow> bool" where
  "branch_unit c \<longleftrightarrow> branch_head_unit c \<or> c = ch CHR ''.'' \<or> c = ch CHR ''-'' \<or> c = ch CHR ''/''"

definition SAFE_BRANCH :: "jstr \<Rightarrow> bool" where
  "SAFE_BRANCH s \<longleftrightarrow> (case s of [] \<Rightarrow> False | c # cs \<Rightarrow> branch_head_unit c \<and> list_all branch_unit cs)"

definition is_safe_branch :: "jstr \<Rightarrow> bool" where
  "is_safe_branch s \<longleftrightarrow>
     \<not> contains_sub (js ''..'') s \<and> \<not> ends_with (js ''.lock'') s \<and> \<not> ends_with (js ''/'') s \<and> SAFE_BRANCH s"

datatype graph_error =
    Range_end_not_sha jstr
  | Range_start_not_sha jstr
  | Unsafe_branch jstr
  | Line_without_instant jstr
  | Line_without_sha jstr
  | Bad_instant jstr
  | Unexpected_exit int
  | Broken_chain jstr
  | Start_not_on_chain jstr

record rev_range =
  range_from :: "jstr option"
  range_to :: jstr

definition rev_range_arg :: "rev_range \<Rightarrow> (graph_error, jstr) result" where
  "rev_range_arg r =
     (if \<not> is_full_sha (range_to r) then Inl (Range_end_not_sha (range_to r))
      else (case range_from r of
              None \<Rightarrow> Inr (range_to r)
            | Some f \<Rightarrow> if \<not> is_full_sha f then Inl (Range_start_not_sha f)
                        else Inr (f @ js ''..'' @ range_to r)))"

definition mirror_path :: "jstr \<Rightarrow> int \<Rightarrow> jstr" where
  "mirror_path root rid =
     (if ends_with (js ''/'') root then butlast root else root) @ js ''/'' @ show_int rid @ js ''.git''"

definition branch_ref :: "jstr \<Rightarrow> (graph_error, jstr) result" where
  "branch_ref b = (if \<not> is_safe_branch b then Inl (Unsafe_branch b) else Inr (js ''refs/heads/'' @ b))"

section \<open>Output of git\<close>

abbreviation newline :: unit16 where "newline \<equiv> ch (CHR 0x0A)"

definition parse_rev_list :: "jstr \<Rightarrow> jstr list" where
  "parse_rev_list out = filter (\<lambda>l. l \<noteq> []) (map trim (split_on newline out))"

text \<open>\<open>[Zz]$|[+-]\d{2}:?\d{2}$\<close>\<close>

definition has_zone :: "jstr \<Rightarrow> bool" where
  "has_zone s \<longleftrightarrow>
     ends_with (js ''Z'') s \<or> ends_with (js ''z'') s \<or>
     (let n = length s;
          sign = (\<lambda>i. s ! i = ch CHR ''+'' \<or> s ! i = ch CHR ''-'');
          digits = (\<lambda>i. is_digit (s ! i) \<and> is_digit (s ! Suc i))
      in (5 \<le> n \<and> sign (n - 5) \<and> digits (n - 4) \<and> digits (n - 2)) \<or>
         (6 \<le> n \<and> sign (n - 6) \<and> digits (n - 5) \<and> s ! (n - 3) = ch CHR '':'' \<and> digits (n - 2)))"

definition is_iso_instant :: "(jstr \<Rightarrow> int option) \<Rightarrow> jstr \<Rightarrow> bool" where
  "is_iso_instant instant v \<longleftrightarrow> has_zone v \<and> instant v \<noteq> None"

fun parse_commit_lines ::
    "(jstr \<Rightarrow> int option) \<Rightarrow> jstr list \<Rightarrow> (graph_error, (jstr \<times> jstr) list) result" where
  "parse_commit_lines instant [] = Inr []"
| "parse_commit_lines instant (r # rs) =
     (let line = trim r in
      if line = [] then parse_commit_lines instant rs
      else (case find_index (\<lambda>c. c = ch CHR '' '') line of
              None \<Rightarrow> Inl (Line_without_instant (take 60 line))
            | Some space \<Rightarrow>
                let sha = take space line; committed_at = trim (drop (Suc space) line) in
                if \<not> is_full_sha sha then Inl (Line_without_sha (take 60 sha))
                else if \<not> is_iso_instant instant committed_at then Inl (Bad_instant (take 60 committed_at))
                else bind_result (parse_commit_lines instant rs) (\<lambda>cs. Inr ((sha, committed_at) # cs))))"

definition parse_first_parent_commits ::
    "(jstr \<Rightarrow> int option) \<Rightarrow> jstr \<Rightarrow> (graph_error, (jstr \<times> jstr) list) result" where
  "parse_first_parent_commits instant out = parse_commit_lines instant (split_on newline out)"

definition parse_patch_id :: "jstr \<Rightarrow> jstr option" where
  "parse_patch_id out =
     (let first = trim (hd (split_on newline out)); ident = takeWhile (\<lambda>c. \<not> is_space c) first
      in if is_full_sha ident then Some ident else None)"

definition read_ancestor_exit :: "int \<Rightarrow> (graph_error, bool) result" where
  "read_ancestor_exit code =
     (if code = 0 then Inr True else if code = 1 then Inr False else Inl (Unexpected_exit code))"

section \<open>First-parent chains\<close>

text \<open>
  A commit and the SHAs of its parents. The loop follows the first parents from \<open>to\<close>; with
  commits whose first parents form a cycle it does not return, which is the outer \<open>None\<close>.
\<close>

type_synonym commit_links = "(jstr \<times> jstr list) list"

definition first_parent :: "jstr list \<Rightarrow> jstr option" where
  "first_parent ps = (case ps of [] \<Rightarrow> None | p # _ \<Rightarrow> Some p)"

definition node_of :: "commit_links \<Rightarrow> jstr \<Rightarrow> jstr list option" where
  "node_of commits c = map_of (rev commits) c"

partial_function (option) chain_loop ::
    "commit_links \<Rightarrow> jstr option \<Rightarrow> jstr list \<Rightarrow> jstr option \<Rightarrow>
     (graph_error, jstr list \<times> jstr option) result option" where
  "chain_loop commits from_sha chain cursor =
     (if cursor = None \<or> cursor = from_sha then Some (Inr (chain, cursor))
      else if node_of commits (the cursor) = None then Some (Inl (Broken_chain (the cursor)))
      else chain_loop commits from_sha (chain @ [the cursor]) (first_parent (the (node_of commits (the cursor)))))"

declare chain_loop.simps [code]

definition first_parent_chain ::
    "commit_links \<Rightarrow> jstr \<Rightarrow> jstr option \<Rightarrow> (graph_error, jstr list) result option" where
  "first_parent_chain commits to_sha from_sha =
     map_option
       (\<lambda>r. bind_result r (\<lambda>(chain, cursor).
          (case from_sha of
             Some f \<Rightarrow> if cursor \<noteq> Some f then Inl (Start_not_on_chain f) else Inr (rev chain)
           | None \<Rightarrow> Inr (rev chain))))
       (chain_loop commits from_sha [] (Some to_sha))"

section \<open>Properties of chains\<close>

text \<open>The walk along first parents from a cursor, through the commits listed, to an end.\<close>

fun fp_walk :: "commit_links \<Rightarrow> jstr option \<Rightarrow> jstr list \<Rightarrow> jstr option \<Rightarrow> bool" where
  "fp_walk commits c [] e = (c = e)"
| "fp_walk commits c (x # xs) e =
     (c = Some x \<and> (case node_of commits x of None \<Rightarrow> False | Some ps \<Rightarrow> fp_walk commits (first_parent ps) xs e))"

lemma chain_loop_walk:
  assumes "chain_loop commits from_sha chain cursor = Some r"
  shows "\<forall>out stop. r = Inr (out, stop) \<longrightarrow>
     (\<exists>xs. out = chain @ xs \<and> fp_walk commits cursor xs stop \<and> (stop = None \<or> stop = from_sha) \<and>
       from_sha \<notin> Some ` set xs)"
  using assms
proof (rule chain_loop.raw_induct[rotated])
  fix loop and commits :: commit_links and from_sha chain cursor r
  assume IH: "\<And>commits from_sha chain cursor r. loop commits from_sha chain cursor = Some r \<Longrightarrow>
      \<forall>out stop. r = Inr (out, stop) \<longrightarrow>
        (\<exists>xs. out = chain @ xs \<and> fp_walk commits cursor xs stop \<and> (stop = None \<or> stop = from_sha) \<and>
          from_sha \<notin> Some ` set xs)"
    and body: "(if cursor = None \<or> cursor = from_sha then Some (Inr (chain, cursor))
      else if node_of commits (the cursor) = None then Some (Inl (Broken_chain (the cursor)))
      else loop commits from_sha (chain @ [the cursor]) (first_parent (the (node_of commits (the cursor))))) = Some r"
  show "\<forall>out stop. r = Inr (out, stop) \<longrightarrow>
        (\<exists>xs. out = chain @ xs \<and> fp_walk commits cursor xs stop \<and> (stop = None \<or> stop = from_sha) \<and>
          from_sha \<notin> Some ` set xs)"
  proof (cases "cursor = None \<or> cursor = from_sha")
    case True
    with body show ?thesis by (auto intro!: exI[of _ "[]"])
  next
    case False
    then obtain c where c: "cursor = Some c" by auto
    show ?thesis
    proof (cases "node_of commits c")
      case None
      with body False c show ?thesis by auto
    next
      case (Some ps)
      with body False c have rec: "loop commits from_sha (chain @ [c]) (first_parent ps) = Some r" by auto
      show ?thesis
      proof (intro allI impI)
        fix out stop
        assume "r = Inr (out, stop)"
        with IH[OF rec] obtain xs where "out = (chain @ [c]) @ xs" "fp_walk commits (first_parent ps) xs stop"
          "stop = None \<or> stop = from_sha" "from_sha \<notin> Some ` set xs" by blast
        with c Some False show "\<exists>xs. out = chain @ xs \<and> fp_walk commits cursor xs stop \<and>
            (stop = None \<or> stop = from_sha) \<and> from_sha \<notin> Some ` set xs"
          by (intro exI[of _ "c # xs"]) auto
      qed
    qed
  qed
qed

lemma walk_chain_loop:
  "fp_walk commits cursor xs stop \<Longrightarrow> stop = None \<or> stop = from_sha \<Longrightarrow> from_sha \<notin> Some ` set xs \<Longrightarrow>
   chain_loop commits from_sha chain cursor = Some (Inr (chain @ xs, stop))"
proof (induction xs arbitrary: chain cursor)
  case Nil
  then show ?case by (cases cursor) (auto simp: chain_loop.simps)
next
  case (Cons x xs)
  then obtain ps where "node_of commits x = Some ps" "fp_walk commits (first_parent ps) xs stop"
    by (auto split: option.splits)
  with Cons show ?case by (subst chain_loop.simps) auto
qed

lemma first_parent_chain_iff:
  "first_parent_chain commits to_sha from_sha = Some (Inr out) \<longleftrightarrow>
     fp_walk commits (Some to_sha) (rev out) from_sha \<and> from_sha \<notin> Some ` set out"
proof
  assume "first_parent_chain commits to_sha from_sha = Some (Inr out)"
  then obtain stop where "chain_loop commits from_sha [] (Some to_sha) = Some (Inr (rev out, stop))"
    "from_sha = None \<or> stop = from_sha"
    by (cases from_sha) (auto simp: first_parent_chain_def split: if_splits)
  with chain_loop_walk[of commits from_sha "[]" "Some to_sha" "Inr (rev out, stop)"]
  show "fp_walk commits (Some to_sha) (rev out) from_sha \<and> from_sha \<notin> Some ` set out" by auto
next
  assume w: "fp_walk commits (Some to_sha) (rev out) from_sha \<and> from_sha \<notin> Some ` set out"
  then have "chain_loop commits from_sha [] (Some to_sha) = Some (Inr (rev out, from_sha))"
    using walk_chain_loop[of commits "Some to_sha" "rev out" from_sha from_sha "[]"] by auto
  then show "first_parent_chain commits to_sha from_sha = Some (Inr out)"
    by (auto simp: first_parent_chain_def split: option.splits)
qed

lemma fp_walk_unique:
  "fp_walk commits c xs e \<Longrightarrow> fp_walk commits c ys e \<Longrightarrow> e \<notin> Some ` set xs \<Longrightarrow> e \<notin> Some ` set ys \<Longrightarrow> xs = ys"
proof (induction xs arbitrary: c ys)
  case Nil
  then show ?case by (cases ys) auto
next
  case (Cons x xs)
  then show ?case by (cases ys) (auto split: option.splits)
qed

lemma fp_walk_append:
  "fp_walk commits c (xs @ y # ys) e \<Longrightarrow> fp_walk commits (Some y) (y # ys) e"
proof (induction xs arbitrary: c)
  case (Cons x xs)
  then obtain ps where "fp_walk commits (first_parent ps) (xs @ y # ys) e" by (auto split: option.splits)
  then show ?case by (rule Cons.IH)
qed simp

lemma fp_walk_distinct:
  assumes "fp_walk commits c xs e" and "e \<notin> Some ` set xs"
  shows "distinct xs"
proof (rule ccontr)
  assume "\<not> distinct xs"
  then obtain as y bs cs where xs: "xs = as @ [y] @ bs @ [y] @ cs" using not_distinct_decomp by blast
  have "fp_walk commits (Some y) (y # bs @ y # cs) e" "fp_walk commits (Some y) (y # cs) e"
    using assms(1) fp_walk_append[of commits c as y "bs @ y # cs" e]
      fp_walk_append[of commits c "as @ y # bs" y cs e] by (auto simp: xs)
  from fp_walk_unique[OF this] assms(2) have "y # bs @ y # cs = y # cs" by (auto simp: xs)
  then have "length (bs @ y # cs) = length cs" by (metis list.inject)
  then show False by simp
qed

lemma chain_loop_returns:
  fixes rank :: "jstr \<Rightarrow> nat"
  assumes "\<And>c ps p. node_of commits c = Some ps \<Longrightarrow> first_parent ps = Some p \<Longrightarrow> rank p < rank c"
  shows "chain_loop commits from_sha chain (Some c) \<noteq> None"
proof (induction "rank c" arbitrary: c chain rule: less_induct)
  case less
  show ?case
  proof (cases "from_sha = Some c \<or> node_of commits c = None")
    case True
    then show ?thesis by (subst chain_loop.simps) auto
  next
    case False
    then obtain ps where ps: "node_of commits c = Some ps" by auto
    show ?thesis
    proof (cases "first_parent ps")
      case None
      with False ps show ?thesis by (subst chain_loop.simps) (simp add: chain_loop.simps)
    next
      case (Some p)
      with less[OF assms[OF ps Some]] False ps show ?thesis by (subst chain_loop.simps) simp
    qed
  qed
qed

text \<open>C32: The first-parent chain the code returns, in its order from the oldest commit, is exactly the
  path of first parents from the head down to the last known commit, that commit excluded and
  no commit twice, and whenever such a path exists the code returns it.\<close>

theorem first_parent_chain_correct:
  "first_parent_chain commits to_sha from_sha = Some (Inr out) \<longleftrightarrow>
     fp_walk commits (Some to_sha) (rev out) from_sha \<and> from_sha \<notin> Some ` set out \<and> distinct out"
  unfolding first_parent_chain_iff using fp_walk_distinct[of commits "Some to_sha" "rev out" from_sha] by auto

text \<open>C33: Following first parents ends on every commit graph in which a commit's first parent is
  strictly older than it.\<close>

theorem first_parent_chain_returns:
  fixes rank :: "jstr \<Rightarrow> nat"
  assumes "\<And>c p ps. node_of commits c = Some (p # ps) \<Longrightarrow> rank p < rank c"
  shows "first_parent_chain commits to_sha from_sha \<noteq> None"
proof -
  have "chain_loop commits from_sha [] (Some to_sha) \<noteq> None"
    by (rule chain_loop_returns[where rank = rank])
      (use assms in \<open>auto simp: first_parent_def split: list.splits\<close>)
  then show ?thesis by (simp add: first_parent_chain_def)
qed

definition sample_commits :: commit_links where
  "sample_commits = [(js ''c'', [js ''b'', js ''x'']), (js ''b'', [js ''a'']), (js ''a'', [])]"

theorem first_parent_chain_returns_witness:
  "first_parent_chain sample_commits (js ''c'') (Some (js ''a'')) \<noteq> None"
  by (rule first_parent_chain_returns[where rank = "\<lambda>s. if s = js ''c'' then 2 else if s = js ''b'' then 1 else 0"])
    (auto simp: sample_commits_def node_of_def split: if_splits)

end
