(* ===== verification/Worker_Sequence.thy ===== *)
theory Worker_Sequence
  imports Domain_MNumber
begin

text \<open>
  The numbering decisions of the pipeline worker: sequence numbers
  (\<open>apps/pipeline-worker/src/sequence-plan.ts\<close>) and M numbers
  (\<open>apps/pipeline-worker/src/mnumber-plan.ts\<close>). \<open>late row\<close> is whether the clock read at the row is
  past the deadline of the pass; a pass without a budget has \<open>late = (\<lambda>_. False)\<close>. Each row is
  looked at once, so its reading is a function of the row.
\<close>

section \<open>Sequence numbers\<close>

definition is_sequence_branch :: "jstr list \<Rightarrow> jstr \<Rightarrow> bool" where
  "is_sequence_branch branches b \<longleftrightarrow> b \<in> set branches"

record numbered_commit =
  nc_seq :: int
  nc_sha :: jstr
  nc_committed_at :: jstr

definition number_commits :: "int \<Rightarrow> (jstr \<times> jstr) list \<Rightarrow> numbered_commit list" where
  "number_commits head_seq commits =
     map (\<lambda>(index, sha, at). \<lparr>nc_seq = head_seq + int index + 1, nc_sha = sha, nc_committed_at = at\<rparr>)
       (zip [0..<length commits] commits)"

section \<open>M numbers\<close>

datatype plan_decision = Pr_confirmed | Direct_confirmed | Unresolved

record plan_row =
  row_seq :: int
  row_sha :: jstr
  decision :: plan_decision
  pr_number :: "int option"
  row_reason :: "block_reason option"
  existing_number :: "int option"
  existing_pr :: "int option"
  merged_at :: "int option"

record plan_assignment =
  pa_seq :: int
  pa_pr :: int
  pa_number :: int
  pa_merged_at :: "int option"

record plan_result =
  assignments :: "plan_assignment list"
  next_head_seq :: int
  next_head_number :: int
  blocked :: "(int \<times> block_reason) option"
  order_mismatches :: nat
  order_unknown :: nat
  budget_exhausted :: bool

datatype plan_error =
    Bad_checkpoint | More_numbers_than_rows | Not_consecutive int int | Missing_pr int

text \<open>The variables of the loop.\<close>

record plan_state =
  head_seq :: int
  head_number :: int
  assigned :: "plan_assignment list"
  numbered :: "int list"
  previous_merged_at :: "int option"
  mismatches :: nat
  unknown :: nat

definition finish_plan :: "plan_state \<Rightarrow> (int \<times> block_reason) option \<Rightarrow> bool \<Rightarrow> plan_result" where
  "finish_plan st blk budget =
     \<lparr>assignments = assigned st, next_head_seq = head_seq st, next_head_number = head_number st,
      blocked = blk, order_mismatches = mismatches st, order_unknown = unknown st,
      budget_exhausted = budget\<rparr>"

definition row_idempotent :: "plan_state \<Rightarrow> plan_row \<Rightarrow> bool" where
  "row_idempotent st row \<longleftrightarrow>
     decision row = Pr_confirmed \<and> pr_number row \<noteq> None \<and> existing_pr row = pr_number row \<and>
     existing_number row = Some (head_number st + 1)"

text \<open>What one round of the loop does with a row that is not late.\<close>

datatype row_outcome = Row_error plan_error | Row_blocked block_reason | Row_passed | Row_numbered int

definition row_outcome_of :: "(int \<Rightarrow> bool) \<Rightarrow> plan_state \<Rightarrow> plan_row \<Rightarrow> row_outcome" where
  "row_outcome_of already st row =
     (if existing_number row \<noteq> None \<and> \<not> row_idempotent st row then Row_blocked Canonical_mismatch
      else
        (case decision row of
           Unresolved \<Rightarrow>
             Row_blocked (case row_reason row of None \<Rightarrow> Pr_evidence_pending | Some r \<Rightarrow> r)
         | Direct_confirmed \<Rightarrow> Row_passed
         | Pr_confirmed \<Rightarrow>
             (case pr_number row of
                None \<Rightarrow> Row_error (Missing_pr (row_seq row))
              | Some pr \<Rightarrow>
                  if existing_pr row \<noteq> None \<and> existing_pr row \<noteq> Some pr then Row_blocked Canonical_mismatch
                  else if pr \<in> set (numbered st) \<or> already pr then Row_blocked Mapping_conflict
                  else if head_number st + 1 > MERGE_NUMBER_MAX then Row_blocked Number_capacity_exceeded
                  else Row_numbered pr)))"

definition note_order :: "plan_row \<Rightarrow> plan_state \<Rightarrow> plan_state" where
  "note_order row st =
     (case merged_at row of
        None \<Rightarrow> st\<lparr>unknown := Suc (unknown st)\<rparr>
      | Some at \<Rightarrow>
          st\<lparr>mismatches := (case previous_merged_at st of
                              Some p \<Rightarrow> if at < p then Suc (mismatches st) else mismatches st
                            | None \<Rightarrow> mismatches st),
             previous_merged_at := Some at\<rparr>)"

definition number_row :: "plan_row \<Rightarrow> int \<Rightarrow> plan_state \<Rightarrow> plan_state" where
  "number_row row pr st =
     (let st' = note_order row st; n = head_number st + 1 in
      st'\<lparr>assigned := assigned st' @ [\<lparr>pa_seq = row_seq row, pa_pr = pr, pa_number = n,
                                      pa_merged_at = merged_at row\<rparr>],
          numbered := numbered st' @ [pr], head_seq := row_seq row, head_number := n\<rparr>)"

fun plan_loop ::
    "(int \<Rightarrow> bool) \<Rightarrow> (plan_row \<Rightarrow> bool) \<Rightarrow> plan_state \<Rightarrow> plan_row list \<Rightarrow> (plan_error, plan_result) result" where
  "plan_loop already late st [] = Inr (finish_plan st None False)"
| "plan_loop already late st (row # rows) =
     (if \<not> is_safe_integer (row_seq row) \<or> row_seq row \<noteq> head_seq st + 1
      then Inl (Not_consecutive (head_seq st + 1) (row_seq row))
      else if late row then Inr (finish_plan st None True)
      else
        (case row_outcome_of already st row of
           Row_error e \<Rightarrow> Inl e
         | Row_blocked reason \<Rightarrow> Inr (finish_plan st (Some (row_seq row, reason)) False)
         | Row_passed \<Rightarrow> plan_loop already late (st\<lparr>head_seq := row_seq row\<rparr>) rows
         | Row_numbered pr \<Rightarrow> plan_loop already late (number_row row pr st) rows))"

definition start_plan :: "int \<Rightarrow> int \<Rightarrow> int option \<Rightarrow> plan_state" where
  "start_plan seq number previous =
     \<lparr>head_seq = seq, head_number = number, assigned = [], numbered = [],
      previous_merged_at = previous, mismatches = 0, unknown = 0\<rparr>"

definition plan_merge_numbers ::
    "int \<Rightarrow> int \<Rightarrow> int option \<Rightarrow> (int \<Rightarrow> bool) \<Rightarrow> (plan_row \<Rightarrow> bool) \<Rightarrow> plan_row list \<Rightarrow>
     (plan_error, plan_result) result" where
  "plan_merge_numbers seq number previous already late rows =
     (if \<not> is_safe_integer seq \<or> seq < 0 \<or> \<not> is_safe_integer number \<or> number < 0 then Inl Bad_checkpoint
      else if number > seq then Inl More_numbers_than_rows
      else plan_loop already late (start_plan seq number previous) rows)"

section \<open>Numbers without gaps\<close>

text \<open>What the loop keeps true of the assignments it has made since it started at \<open>(seq, number)\<close>.\<close>

definition plan_inv :: "int \<Rightarrow> int \<Rightarrow> (int \<Rightarrow> bool) \<Rightarrow> plan_state \<Rightarrow> bool" where
  "plan_inv seq number already st \<longleftrightarrow>
     map pa_number (assigned st) = map (\<lambda>i. number + 1 + int i) [0..<length (assigned st)] \<and>
     head_number st = number + int (length (assigned st)) \<and>
     map pa_pr (assigned st) = numbered st \<and> distinct (numbered st) \<and>
     list_all (\<lambda>pr. \<not> already pr) (numbered st) \<and>
     sorted_wrt (<) (map pa_seq (assigned st)) \<and>
     list_all (\<lambda>a. seq < pa_seq a \<and> pa_seq a \<le> head_seq st) (assigned st) \<and>
     seq \<le> head_seq st \<and> head_number st - number \<le> head_seq st - seq"

lemma note_order_simps [simp]:
  "head_seq (note_order row st) = head_seq st" "head_number (note_order row st) = head_number st"
  "assigned (note_order row st) = assigned st" "numbered (note_order row st) = numbered st"
  by (simp_all add: note_order_def split: option.split)

lemma plan_inv_start: "plan_inv seq number already (start_plan seq number previous)"
  by (simp add: plan_inv_def start_plan_def)

lemma plan_inv_pass: "plan_inv seq number already st \<Longrightarrow>
    plan_inv seq number already (st\<lparr>head_seq := head_seq st + 1\<rparr>)"
  by (auto simp: plan_inv_def list_all_iff)

lemma plan_inv_number:
  assumes "plan_inv seq number already st" and "row_seq row = head_seq st + 1"
    and "row_outcome_of already st row = Row_numbered pr"
  shows "plan_inv seq number already (number_row row pr st)"
proof -
  have "pr \<notin> set (numbered st)" "\<not> already pr"
    using assms(3) by (auto simp: row_outcome_of_def split: if_splits plan_decision.splits option.splits)
  with assms(1,2) show ?thesis
    by (auto simp: plan_inv_def number_row_def Let_def sorted_wrt_append list_all_iff)
qed

lemma plan_loop_inv:
  assumes "plan_loop already late st rows = Inr r" and "plan_inv seq number already st"
  shows "\<exists>st'. plan_inv seq number already st' \<and> assignments r = assigned st' \<and>
    next_head_seq r = head_seq st' \<and> next_head_number r = head_number st'"
  using assms
proof (induction rows arbitrary: st)
  case Nil
  then show ?case by (auto simp: finish_plan_def)
next
  case (Cons row rows)
  then show ?case
    by (auto simp: finish_plan_def plan_inv_pass plan_inv_number split: if_splits row_outcome.splits)
qed

section \<open>Resuming\<close>

text \<open>Prefixing the work of an earlier round to the result of a later one.\<close>

definition prefix_result :: "plan_state \<Rightarrow> plan_result \<Rightarrow> plan_result" where
  "prefix_result st r = r\<lparr>assignments := assigned st @ assignments r,
     order_mismatches := mismatches st + order_mismatches r, order_unknown := unknown st + order_unknown r\<rparr>"

definition fresh_state :: "plan_state \<Rightarrow> plan_state" where
  "fresh_state st = start_plan (head_seq st) (head_number st) (previous_merged_at st)"

definition with_work :: "plan_state \<Rightarrow> plan_state \<Rightarrow> plan_state" where
  "with_work st0 st = st\<lparr>assigned := assigned st0 @ assigned st, numbered := numbered st0 @ numbered st,
     mismatches := mismatches st0 + mismatches st, unknown := unknown st0 + unknown st\<rparr>"

lemma with_work_simps [simp]:
  "head_seq (with_work st0 st) = head_seq st" "head_number (with_work st0 st) = head_number st"
  "numbered (with_work st0 st) = numbered st0 @ numbered st"
  "previous_merged_at (with_work st0 st) = previous_merged_at st"
  by (simp_all add: with_work_def)

lemma with_work_fresh: "with_work st (fresh_state st) = st"
  by (simp add: with_work_def fresh_state_def start_plan_def)

lemma outcome_with_work:
  "row_outcome_of already (with_work st0 st) row =
   row_outcome_of (\<lambda>pr. pr \<in> set (numbered st0) \<or> already pr) st row"
  by (auto simp: row_outcome_of_def row_idempotent_def split: option.split plan_decision.split)

lemma number_with_work: "number_row row pr (with_work st0 st) = with_work st0 (number_row row pr st)"
  by (auto simp: number_row_def note_order_def with_work_def Let_def split: option.split)

lemma finish_with_work: "finish_plan (with_work st0 st) b x = prefix_result st0 (finish_plan st b x)"
  by (simp add: finish_plan_def prefix_result_def with_work_def)

lemma plan_loop_with_work:
  "plan_loop already late (with_work st0 st) rows =
   map_sum id (prefix_result st0) (plan_loop (\<lambda>pr. pr \<in> set (numbered st0) \<or> already pr) late st rows)"
proof (induction rows arbitrary: st)
  case Nil
  then show ?case by (simp add: finish_with_work)
next
  case (Cons row rows)
  have "(with_work st0 st)\<lparr>head_seq := x\<rparr> = with_work st0 (st\<lparr>head_seq := x\<rparr>)" for x
    by (simp add: with_work_def)
  with Cons show ?case
    by (auto simp: finish_with_work outcome_with_work number_with_work split: row_outcome.split)
qed

text \<open>What a resumed round starts from.\<close>

definition last_merged :: "int option \<Rightarrow> plan_assignment list \<Rightarrow> int option" where
  "last_merged previous as =
     foldl (\<lambda>p a. case pa_merged_at a of None \<Rightarrow> p | Some at \<Rightarrow> Some at) previous as"

definition resume_inv :: "int option \<Rightarrow> plan_state \<Rightarrow> bool" where
  "resume_inv previous st \<longleftrightarrow>
     previous_merged_at st = last_merged previous (assigned st) \<and>
     numbered st = map pa_pr (assigned st) \<and>
     is_safe_integer (head_seq st) \<and> 0 \<le> head_seq st \<and> is_safe_integer (head_number st) \<and>
     0 \<le> head_number st \<and> head_number st \<le> head_seq st"

lemma resume_inv_number:
  assumes "resume_inv previous st" and "row_seq row = head_seq st + 1" and "is_safe_integer (head_seq st + 1)"
    and "row_outcome_of already st row = Row_numbered pr"
  shows "resume_inv previous (number_row row pr st)"
proof -
  have "head_number st + 1 \<le> MERGE_NUMBER_MAX"
    using assms(4) by (auto simp: row_outcome_of_def split: if_splits plan_decision.splits option.splits)
  with assms(1-3) show ?thesis
    by (auto simp: resume_inv_def number_row_def note_order_def last_merged_def Let_def is_safe_integer_def
        max_safe_integer_def MERGE_NUMBER_MAX_def split: option.split)
qed

lemma resume_inv_pass: "resume_inv previous st \<Longrightarrow> is_safe_integer (head_seq st + 1) \<Longrightarrow>
    resume_inv previous (st\<lparr>head_seq := head_seq st + 1\<rparr>)"
  by (auto simp: resume_inv_def)

lemma plan_loop_append:
  assumes "plan_loop already late st rows = Inr r" and "blocked r = None" and "\<not> budget_exhausted r"
    and "resume_inv previous st"
  shows "\<exists>st'. r = finish_plan st' None False \<and> resume_inv previous st' \<and>
    plan_loop already late st (rows @ rest) = plan_loop already late st' rest"
  using assms
proof (induction rows arbitrary: st)
  case Nil
  then show ?case by auto
next
  case (Cons row rows)
  then show ?case
    by (auto simp: finish_plan_def resume_inv_number resume_inv_pass split: if_splits row_outcome.splits)
qed

section \<open>Properties\<close>

text \<open>What a plan ends with is the state of its loop.\<close>

lemma plan_merge_numbers_inv:
  assumes "plan_merge_numbers seq number previous already late rows = Inr r"
  obtains st where "plan_inv seq number already st" "assignments r = assigned st" "next_head_seq r = head_seq st"
    "next_head_number r = head_number st" "number \<le> seq" "plan_loop already late (start_plan seq number previous) rows = Inr r"
proof -
  from assms have "number \<le> seq" and l: "plan_loop already late (start_plan seq number previous) rows = Inr r"
    by (auto simp: plan_merge_numbers_def split: if_splits)
  with plan_loop_inv[OF l plan_inv_start] that show ?thesis by blast
qed

text \<open>C34: A plan of merge numbers continues the head without gaps: the numbers assigned are
  consecutive from the head's next one, no pull request is numbered twice or was numbered
  before, the sequence positions increase past the head, and the merge number never exceeds
  the sequence position.\<close>

theorem plan_numbers_without_gaps:
  assumes "plan_merge_numbers seq number previous already late rows = Inr r"
  shows "map pa_number (assignments r) = map (\<lambda>i. number + 1 + int i) [0..<length (assignments r)] \<and>
    next_head_number r = number + int (length (assignments r)) \<and>
    distinct (map pa_pr (assignments r)) \<and> sorted_wrt (<) (map pa_seq (assignments r)) \<and>
    list_all (\<lambda>a. \<not> already (pa_pr a) \<and> seq < pa_seq a \<and> pa_seq a \<le> next_head_seq r) (assignments r) \<and>
    next_head_number r \<le> next_head_seq r"
  using assms
proof (rule plan_merge_numbers_inv)
  fix st assume st: "plan_inv seq number already st" "assignments r = assigned st" "next_head_seq r = head_seq st"
    "next_head_number r = head_number st" "number \<le> seq"
  then have "numbered st = map pa_pr (assigned st)" "list_all (\<lambda>pr. \<not> already pr) (numbered st)"
    by (simp_all add: plan_inv_def)
  then have "list_all (\<lambda>a. \<not> already (pa_pr a)) (assigned st)" by (simp add: list_all_iff)
  with st show ?thesis unfolding plan_inv_def by (auto simp: list_all_iff)
qed

text \<open>C35: Planning in batches is planning at once: after a batch that neither blocked nor ran out of
  budget, planning the whole list gives what the batch gave followed by the plan of the rest
  from the batch's head, with the pull requests of the batch counted as numbered.\<close>

theorem plan_resumes:
  assumes "plan_merge_numbers seq number previous already late rows = Inr r"
    and "blocked r = None" and "\<not> budget_exhausted r"
  shows "plan_merge_numbers seq number previous already late (rows @ rest) =
    map_sum id (\<lambda>r2. r2\<lparr>assignments := assignments r @ assignments r2,
                       order_mismatches := order_mismatches r + order_mismatches r2,
                       order_unknown := order_unknown r + order_unknown r2\<rparr>)
      (plan_merge_numbers (next_head_seq r) (next_head_number r) (last_merged previous (assignments r))
         (\<lambda>pr. pr \<in> pa_pr ` set (assignments r) \<or> already pr) late rest)"
proof -
  from assms(1) have ok: "\<not> (\<not> is_safe_integer seq \<or> seq < 0 \<or> \<not> is_safe_integer number \<or> number < 0)"
    "\<not> number > seq" and l: "plan_loop already late (start_plan seq number previous) rows = Inr r"
    by (auto simp: plan_merge_numbers_def split: if_splits)
  have "resume_inv previous (start_plan seq number previous)"
    using ok by (auto simp: resume_inv_def start_plan_def last_merged_def)
  from plan_loop_append[OF l assms(2,3) this, of rest] obtain st where
    r: "r = finish_plan st None False" and inv: "resume_inv previous st"
    and app: "plan_loop already late (start_plan seq number previous) (rows @ rest) = plan_loop already late st rest"
    by blast
  have fresh: "fresh_state st = start_plan (next_head_seq r) (next_head_number r) (last_merged previous (assignments r))"
    using inv by (simp add: r fresh_state_def finish_plan_def resume_inv_def)
  have nums: "set (numbered st) = pa_pr ` set (assignments r)"
    using inv by (simp add: r finish_plan_def resume_inv_def)
  have "plan_merge_numbers (next_head_seq r) (next_head_number r) (last_merged previous (assignments r)) a late rest =
      plan_loop a late (fresh_state st) rest" for a
    unfolding fresh using inv by (auto simp: r finish_plan_def plan_merge_numbers_def resume_inv_def)
  moreover have "plan_loop already late st rest =
      map_sum id (prefix_result st) (plan_loop (\<lambda>pr. pr \<in> set (numbered st) \<or> already pr) late (fresh_state st) rest)"
    using plan_loop_with_work[of already late st "fresh_state st" rest] by (simp add: with_work_fresh)
  moreover have "prefix_result st = (\<lambda>r2. r2\<lparr>assignments := assignments r @ assignments r2,
      order_mismatches := order_mismatches r + order_mismatches r2,
      order_unknown := order_unknown r + order_unknown r2\<rparr>)"
    by (simp add: fun_eq_iff prefix_result_def r finish_plan_def)
  ultimately show ?thesis using ok app by (simp add: plan_merge_numbers_def nums)
qed

definition sample_row :: "int \<Rightarrow> int option \<Rightarrow> plan_row" where
  "sample_row n pr = \<lparr>row_seq = n, row_sha = [], decision = (if pr = None then Direct_confirmed else Pr_confirmed),
     pr_number = pr, row_reason = None, existing_number = None, existing_pr = None, merged_at = Some n\<rparr>"

definition sample_rows :: "plan_row list" where
  "sample_rows = [sample_row 11 (Some 5), sample_row 12 None, sample_row 13 (Some 4)]"

definition sample_result :: plan_result where
  "sample_result = \<lparr>assignments = [\<lparr>pa_seq = 11, pa_pr = 5, pa_number = 8, pa_merged_at = Some 11\<rparr>,
       \<lparr>pa_seq = 13, pa_pr = 4, pa_number = 9, pa_merged_at = Some 13\<rparr>],
     next_head_seq = 13, next_head_number = 9, blocked = None, order_mismatches = 0, order_unknown = 0,
     budget_exhausted = False\<rparr>"

lemma sample_plan: "plan_merge_numbers 10 7 None (\<lambda>_. False) (\<lambda>_. False) sample_rows = Inr sample_result"
  by code_simp

theorem plan_numbers_without_gaps_witness: "map pa_number (assignments sample_result) = [8, 9]"
  using plan_numbers_without_gaps[OF sample_plan] by (simp add: sample_result_def upt_rec)

theorem plan_resumes_witness:
  "plan_merge_numbers 10 7 None (\<lambda>_. False) (\<lambda>_. False) (sample_rows @ [sample_row 14 (Some 5)]) =
     Inr (sample_result\<lparr>blocked := Some (14, Mapping_conflict)\<rparr>)"
proof -
  have again: "plan_merge_numbers 13 9 (Some 13) (\<lambda>pr. pr \<in> {5, 4}) (\<lambda>_. False) [sample_row 14 (Some 5)] =
      Inr \<lparr>assignments = [], next_head_seq = 13, next_head_number = 9, blocked = Some (14, Mapping_conflict),
           order_mismatches = 0, order_unknown = 0, budget_exhausted = False\<rparr>" by code_simp
  show ?thesis
    using plan_resumes[OF sample_plan, of "[sample_row 14 (Some 5)]"] again
    by (simp add: sample_result_def last_merged_def)
qed

text \<open>The rerun of a row that already has its number passes only when its pull request is not
  reported as numbered; with the test the worker passes, which includes the row itself, the
  rerun blocks with a mapping conflict.\<close>

theorem idempotent_rerun_blocks:
  "let row = (sample_row 11 (Some 5))\<lparr>existing_number := Some 8, existing_pr := Some 5\<rparr>;
       numbered_prs = (\<lambda>pr. pr = 5)
   in map_sum id assignments (plan_merge_numbers 10 7 None (\<lambda>_. False) (\<lambda>_. False) [row]) =
        Inr [\<lparr>pa_seq = 11, pa_pr = 5, pa_number = 8, pa_merged_at = Some 11\<rparr>] \<and>
      map_sum id blocked (plan_merge_numbers 10 7 None numbered_prs (\<lambda>_. False) [row]) =
        Inr (Some (11, Mapping_conflict))"
  by code_simp

end
