(* ===== verification/GhCli_Pointer.thy ===== *)
theory GhCli_Pointer
  imports JSON_Value
begin

text \<open>
  JSON Pointers (\<open>packages/gh-cli/src/json-pointer.ts\<close>): the text of a pointer to its tokens,
  and the value a pointer selects in a document.
\<close>

definition JSON_POINTER_MAX_LENGTH :: nat where
  "JSON_POINTER_MAX_LENGTH = 128"

definition JSON_POINTER_MAX_TOKENS :: nat where
  "JSON_POINTER_MAX_TOKENS = 8"

definition FORBIDDEN_TOKENS :: "jstr list" where
  "FORBIDDEN_TOKENS = [js ''__proto__'', js ''constructor'', js ''prototype'']"

datatype pointer_error =
    Too_long | Bad_syntax | Invalid_escape jstr | Too_deep | Forbidden_token jstr
  | Nonexistent_member jstr | Not_a_container jstr | Invalid_array_index jstr
  | End_of_array jstr | Index_out_of_range jstr

abbreviation tilde :: unit16 where "tilde \<equiv> ch CHR ''~''"
abbreviation slash :: unit16 where "slash \<equiv> ch CHR ''/''"

text \<open>\<open>/~(?![01])/\<close>\<close>

fun bad_escape :: "jstr \<Rightarrow> bool" where
  "bad_escape [] = False"
| "bad_escape (c # s) =
     ((c = tilde \<and> (s = [] \<or> hd s \<noteq> ch CHR ''0'' \<and> hd s \<noteq> ch CHR ''1'')) \<or> bad_escape s)"

text \<open>Global replacement of a pair of units by one.\<close>

fun replace_pair :: "unit16 \<Rightarrow> unit16 \<Rightarrow> unit16 \<Rightarrow> jstr \<Rightarrow> jstr" where
  "replace_pair a b r (c # d # s) =
     (if c = a \<and> d = b then r # replace_pair a b r s else c # replace_pair a b r (d # s))"
| "replace_pair a b r s = s"

definition unescape_token :: "jstr \<Rightarrow> jstr" where
  "unescape_token piece =
     replace_pair tilde (ch CHR ''0'') tilde (replace_pair tilde (ch CHR ''1'') slash piece)"

fun parse_pieces :: "jstr list \<Rightarrow> (pointer_error, jstr list) result" where
  "parse_pieces [] = Inr []"
| "parse_pieces (piece # pieces) =
     (if bad_escape piece then Inl (Invalid_escape piece)
      else let token = unescape_token piece in
           if token \<in> set FORBIDDEN_TOKENS then Inl (Forbidden_token token)
           else bind_result (parse_pieces pieces) (\<lambda>ts. Inr (token # ts)))"

definition parse_json_pointer :: "jstr \<Rightarrow> (pointer_error, jstr list) result" where
  "parse_json_pointer p =
     (if length p > JSON_POINTER_MAX_LENGTH then Inl Too_long
      else if p = [] then Inr []
      else if \<not> starts_with [slash] p then Inl Bad_syntax
      else let pieces = split_on slash (tl p) in
           if length pieces > JSON_POINTER_MAX_TOKENS then Inl Too_deep else parse_pieces pieces)"

definition ARRAY_INDEX :: "jstr \<Rightarrow> bool" where
  "ARRAY_INDEX s \<longleftrightarrow> s = js ''0'' \<or> (all_digits s \<and> hd s \<noteq> ch CHR ''0'')"

fun eval_tokens :: "json \<Rightarrow> jstr list \<Rightarrow> (pointer_error, json) result" where
  "eval_tokens current [] = Inr current"
| "eval_tokens current (token # ts) =
     (case current of
        J_array items \<Rightarrow>
          if token = js ''-'' then Inl (End_of_array token)
          else if \<not> ARRAY_INDEX token then Inl (Invalid_array_index token)
          else let index = dec_value token in
               if \<not> is_safe_integer (int index) \<or> index \<ge> length items then Inl (Index_out_of_range token)
               else eval_tokens (items ! index) ts
      | J_object ms \<Rightarrow>
          (case member ms token of
             None \<Rightarrow> Inl (Nonexistent_member token)
           | Some v \<Rightarrow> eval_tokens v ts)
      | _ \<Rightarrow> Inl (Not_a_container token))"

definition evaluate_json_pointer :: "json \<Rightarrow> jstr \<Rightarrow> (pointer_error, json) result" where
  "evaluate_json_pointer document pointer =
     bind_result (parse_json_pointer pointer) (eval_tokens document)"

section \<open>Pointers are the texts of token lists\<close>

definition escape_token :: "jstr \<Rightarrow> jstr" where
  "escape_token t =
     concat (map (\<lambda>c. if c = tilde then [tilde, ch CHR ''0''] else if c = slash then [tilde, ch CHR ''1''] else [c]) t)"

definition render_pointer :: "jstr list \<Rightarrow> jstr" where
  "render_pointer ts = concat (map (\<lambda>t. slash # escape_token t) ts)"

definition pointer_ok :: "jstr list \<Rightarrow> bool" where
  "pointer_ok ts \<longleftrightarrow> length ts \<le> JSON_POINTER_MAX_TOKENS \<and> length (render_pointer ts) \<le> JSON_POINTER_MAX_LENGTH \<and>
     list_all (\<lambda>t. t \<notin> set FORBIDDEN_TOKENS) ts"

definition pointer_tokens :: "jstr \<Rightarrow> jstr list option" where
  "pointer_tokens p = (case parse_json_pointer p of Inl _ \<Rightarrow> None | Inr ts \<Rightarrow> Some ts)"

lemma escape_Nil [simp]: "escape_token [] = []"
  by (simp add: escape_token_def)

lemma escape_Cons: "escape_token (c # t) =
    (if c = tilde then [tilde, ch CHR ''0''] else if c = slash then [tilde, ch CHR ''1''] else [c]) @ escape_token t"
  by (simp add: escape_token_def)

lemma escape_no_slash: "slash \<notin> set (escape_token t)"
  by (induction t) (auto simp: escape_Cons)

lemma escape_not_bad: "\<not> bad_escape (escape_token t)"
  by (induction t) (auto simp: escape_Cons)

lemma replace_pair_other: "c \<noteq> a \<Longrightarrow> replace_pair a b r (c # s) = c # replace_pair a b r s"
  by (cases s) auto

lemma unescape_escape: "unescape_token (escape_token t) = t"
proof -
  have "replace_pair tilde (ch CHR ''1'') slash (escape_token t) =
      concat (map (\<lambda>c. if c = tilde then [tilde, ch CHR ''0''] else [c]) t)"
    by (induction t) (auto simp: escape_Cons replace_pair_other)
  moreover have "replace_pair tilde (ch CHR ''0'') tilde
      (concat (map (\<lambda>c. if c = tilde then [tilde, ch CHR ''0''] else [c]) t)) = t"
    by (induction t) (auto simp: replace_pair_other)
  ultimately show ?thesis by (simp add: unescape_token_def)
qed

lemma unescape_simps:
  "unescape_token [] = []"
  "unescape_token (tilde # ch CHR ''0'' # s) = tilde # unescape_token s"
  "unescape_token (tilde # ch CHR ''1'' # s) = slash # unescape_token s"
  "c \<noteq> tilde \<Longrightarrow> unescape_token (c # s) = c # unescape_token s"
  by (auto simp: unescape_token_def replace_pair_other)

lemma escape_unescape: "\<not> bad_escape p \<Longrightarrow> slash \<notin> set p \<Longrightarrow> escape_token (unescape_token p) = p"
proof (induction "length p" arbitrary: p rule: less_induct)
  case less
  show ?case
  proof (cases p)
    case Nil
    then show ?thesis by (simp add: unescape_simps)
  next
    case (Cons c s)
    show ?thesis
    proof (cases "c = tilde")
      case True
      with less.prems Cons obtain d s' where s: "s = d # s'" "d = ch CHR ''0'' \<or> d = ch CHR ''1''"
        by (cases s) auto
      with less.prems Cons have "escape_token (unescape_token s') = s'" by (intro less.hyps) auto
      with s True Cons show ?thesis by (auto simp: unescape_simps escape_Cons)
    next
      case False
      with less.prems Cons have "escape_token (unescape_token s) = s" by (intro less.hyps) auto
      with False less.prems Cons show ?thesis by (auto simp: unescape_simps escape_Cons)
    qed
  qed
qed

lemma parse_pieces_escaped:
  "list_all (\<lambda>t. t \<notin> set FORBIDDEN_TOKENS) ts \<Longrightarrow> parse_pieces (map escape_token ts) = Inr ts"
  by (induction ts) (auto simp: escape_not_bad unescape_escape Let_def)

lemma parse_pieces_InrD:
  "parse_pieces ps = Inr ts \<Longrightarrow> list_all (\<lambda>p. slash \<notin> set p) ps \<Longrightarrow>
   ps = map escape_token ts \<and> list_all (\<lambda>t. t \<notin> set FORBIDDEN_TOKENS) ts"
  by (induction ps arbitrary: ts) (auto simp: escape_unescape Let_def split: if_splits)

lemma render_join: "ts \<noteq> [] \<Longrightarrow> render_pointer ts = slash # join_with [slash] (map escape_token ts)"
  by (induction ts rule: induct_list012) (auto simp: render_pointer_def)

lemma pointer_pieces: "ts \<noteq> [] \<Longrightarrow> split_on slash (tl (render_pointer ts)) = map escape_token ts"
  by (simp add: render_join) (rule split_on_join, auto simp: escape_no_slash)

interpretation pointer_codec: canonical_codec render_pointer pointer_tokens pointer_ok
proof unfold_locales
  fix ts
  assume ok: "pointer_ok ts"
  show "pointer_tokens (render_pointer ts) = Some ts"
  proof (cases "ts = []")
    case True
    then show ?thesis by (simp add: render_pointer_def pointer_tokens_def parse_json_pointer_def)
  next
    case False
    with ok pointer_pieces[OF False] show ?thesis
      by (simp add: pointer_tokens_def parse_json_pointer_def pointer_ok_def render_join parse_pieces_escaped)
  qed
next
  fix s ts
  assume "pointer_tokens s = Some ts"
  then have p: "parse_json_pointer s = Inr ts" by (auto simp: pointer_tokens_def split: sum.splits)
  have "pointer_ok ts \<and> render_pointer ts = s"
  proof (cases "s = []")
    case True
    with p show ?thesis
      by (auto simp: parse_json_pointer_def pointer_ok_def render_pointer_def split: if_splits)
  next
    case False
    with p have l: "length s \<le> JSON_POINTER_MAX_LENGTH" and s: "s = slash # tl s"
      and n: "length (split_on slash (tl s)) \<le> JSON_POINTER_MAX_TOKENS"
      and pp: "parse_pieces (split_on slash (tl s)) = Inr ts"
      by (auto simp: parse_json_pointer_def Let_def starts_with_single split: if_splits)
    have "list_all (\<lambda>p. slash \<notin> set p) (split_on slash (tl s))"
      by (auto simp: list_all_iff dest: split_on_parts)
    from parse_pieces_InrD[OF pp this] have ts: "split_on slash (tl s) = map escape_token ts"
      "list_all (\<lambda>t. t \<notin> set FORBIDDEN_TOKENS) ts" by auto
    then have ne: "ts \<noteq> []" by auto
    have "render_pointer ts = slash # join_with [slash] (split_on slash (tl s))" using render_join[OF ne] ts(1) by simp
    then have "render_pointer ts = s" using s by simp
    with l n ts show ?thesis by (simp add: pointer_ok_def)
  qed
  then show "pointer_ok ts" "render_pointer ts = s" by auto
qed

text \<open>C38: A JSON pointer is accepted with a list of segments exactly when it is the text those
  segments print to and they satisfy the limits, so escapes are read back exactly.\<close>

theorem parse_json_pointer_iff:
  "parse_json_pointer p = Inr ts \<longleftrightarrow> p = render_pointer ts \<and> pointer_ok ts"
proof -
  have "parse_json_pointer p = Inr ts \<longleftrightarrow> pointer_tokens p = Some ts"
    by (auto simp: pointer_tokens_def split: sum.splits)
  then show ?thesis by (auto simp: pointer_codec.parse_Some_iff)
qed

end
