(* ===== verification/GhCli_Invocation.thy ===== *)
theory GhCli_Invocation
  imports JSON_Value
begin

text \<open>
  Invocations of the GitHub CLI: the options and constraints of a capability
  (\<open>packages/gh-cli/src/types.ts\<close>), the evaluation of an untrusted invocation
  (\<open>constraints.ts\<close>) and the arguments built from one that passed (\<open>argv.ts\<close>). The flags of an
  invocation are JSON values, as they arrive. The texts of the violations' messages are left
  out, their codes and flags kept.
\<close>

section \<open>Capabilities\<close>

datatype gh_option =
    Enum_option jstr "jstr list" jstr
  | Int_option jstr int int int
  | Bool_option jstr bool
  | Json_fields_option jstr "jstr list" "jstr list" nat nat

fun option_flag :: "gh_option \<Rightarrow> jstr" where
  "option_flag (Enum_option f _ _) = f"
| "option_flag (Int_option f _ _ _) = f"
| "option_flag (Bool_option f _) = f"
| "option_flag (Json_fields_option f _ _ _ _) = f"

fun is_json_fields :: "gh_option \<Rightarrow> bool" where
  "is_json_fields (Json_fields_option _ _ _ _ _) = True"
| "is_json_fields _ = False"

datatype context_kind = Repository_context | Host_context

datatype gh_constraint =
    Requires jstr "jstr list"
  | Conflicts "jstr list"
  | One_of "jstr list"
  | Exactly_one "jstr list"
  | At_least_one "jstr list"
  | Implies jstr "jstr option" jstr
  | Required_if jstr jstr jstr
  | Input_source_exclusive "jstr list"
  | Context_required context_kind

record capability =
  cap_id :: jstr
  cap_path :: "jstr list"
  cap_options :: "gh_option list"
  cap_constraints :: "gh_constraint list"

datatype option_value = Text_value jstr | Int_value int | Bool_value bool | List_value "jstr list"

datatype violation_code =
    Unknown_flag | Positional_not_allowed | Enum_value | Int_format | Int_range | Bool_format
  | Json_field_not_allowed | Json_fields_duplicate | Json_fields_min | Json_fields_max
  | Requires_violated | Conflicts_violated | One_of_violated | Exactly_one_violated
  | At_least_one_violated | Implies_violated | Required_if_violated | Input_source_violated
  | Context_missing | Repository_format

type_synonym violation = "violation_code \<times> jstr option"

record repository_slug =
  slug_owner :: jstr
  slug_name :: jstr

record normalized_invocation =
  ni_capability :: jstr
  ni_repository :: repository_slug
  ni_options :: "(jstr \<times> option_value) list"
  ni_json_fields :: "jstr list"

record invocation =
  inv_repository :: "json option"
  inv_flags :: "(jstr \<times> json) list"
  inv_json_fields :: "json option"
  inv_extra :: "(jstr \<times> json) list"

section \<open>Evaluation\<close>

definition slug_head_unit :: "unit16 \<Rightarrow> bool" where
  "slug_head_unit c \<longleftrightarrow> is_letter c \<or> is_digit c"

definition slug_unit :: "unit16 \<Rightarrow> bool" where
  "slug_unit c \<longleftrightarrow> slug_head_unit c \<or> c = ch CHR ''.'' \<or> c = ch CHR ''_'' \<or> c = ch CHR ''-''"

definition SLUG_PART :: "jstr \<Rightarrow> bool" where
  "SLUG_PART s \<longleftrightarrow> (case s of [] \<Rightarrow> False | c # cs \<Rightarrow> slug_head_unit c \<and> length cs \<le> 99 \<and> list_all slug_unit cs)"

definition parse_repository_slug :: "json option \<Rightarrow> repository_slug option" where
  "parse_repository_slug raw =
     (case as_string raw of
        None \<Rightarrow> None
      | Some s \<Rightarrow>
          (case split_on (ch CHR ''/'') s of
             [owner, name] \<Rightarrow>
               if SLUG_PART owner \<and> SLUG_PART name then Some \<lparr>slug_owner = owner, slug_name = name\<rparr> else None
           | _ \<Rightarrow> None))"

definition option_by_flag :: "capability \<Rightarrow> jstr \<Rightarrow> gh_option option" where
  "option_by_flag d flag = find (\<lambda>opt. option_flag opt = flag) (cap_options d)"

text \<open>\<open>/^-?\d+$/\<close> and \<open>Number\<close> of it; an integer that is not safe is refused either way.\<close>

definition int_of_json :: "json \<Rightarrow> int option" where
  "int_of_json raw =
     (case raw of
        J_int n \<Rightarrow> Some n
      | J_string s \<Rightarrow>
          if starts_with (js ''-'') s
          then (if all_digits (tl s) then Some (- int (dec_value (tl s))) else None)
          else (if all_digits s then Some (int (dec_value s)) else None)
      | _ \<Rightarrow> None)"

text \<open>The value of an option, \<open>None\<close> for an absent one.\<close>

fun evaluate_option :: "gh_option \<Rightarrow> json option \<Rightarrow> (violation, option_value option) result" where
  "evaluate_option (Enum_option flag values dflt) raw =
     (case raw of
        None \<Rightarrow> Inr (Some (Text_value dflt))
      | Some j \<Rightarrow>
          (case j of
             J_string s \<Rightarrow> if s \<in> set values then Inr (Some (Text_value s)) else Inl (Enum_value, Some flag)
           | _ \<Rightarrow> Inl (Enum_value, Some flag)))"
| "evaluate_option (Int_option flag lo hi dflt) raw =
     (case raw of
        None \<Rightarrow> Inr (Some (Int_value dflt))
      | Some j \<Rightarrow>
          (case int_of_json j of
             None \<Rightarrow> Inl (Int_format, Some flag)
           | Some n \<Rightarrow>
               if \<not> is_safe_integer n then Inl (Int_format, Some flag)
               else if n < lo \<or> n > hi then Inl (Int_range, Some flag)
               else Inr (Some (Int_value n))))"
| "evaluate_option (Bool_option flag dflt) raw =
     (case raw of
        None \<Rightarrow> Inr (if dflt then Some (Bool_value True) else None)
      | Some j \<Rightarrow>
          (case j of
             J_bool b \<Rightarrow> Inr (if b then Some (Bool_value True) else None)
           | _ \<Rightarrow> Inl (Bool_format, Some flag)))"
| "evaluate_option (Json_fields_option flag _ _ _ _) raw = Inl (Unknown_flag, Some flag)"

fun strings_of :: "json list \<Rightarrow> jstr list option" where
  "strings_of [] = Some []"
| "strings_of (J_string s # vs) = map_option (\<lambda>ss. s # ss) (strings_of vs)"
| "strings_of (_ # vs) = None"

fun check_fields :: "jstr \<Rightarrow> jstr list \<Rightarrow> jstr list \<Rightarrow> jstr list \<Rightarrow> (violation, jstr list) result" where
  "check_fields flag allowed seen [] = Inr seen"
| "check_fields flag allowed seen (f # fs) =
     (if f \<notin> set allowed then Inl (Json_field_not_allowed, Some flag)
      else if f \<in> set seen then Inl (Json_fields_duplicate, Some flag)
      else check_fields flag allowed (seen @ [f]) fs)"

fun evaluate_json_fields :: "gh_option option \<Rightarrow> json option \<Rightarrow> (violation, jstr list) result" where
  "evaluate_json_fields (Some (Json_fields_option flag allowed dflt min_items max_items)) raw =
     (if raw = None \<or> raw = Some (J_array []) then Inr dflt
      else
        (case raw of
           Some (J_array items) \<Rightarrow>
             (case strings_of items of
                None \<Rightarrow> Inl (Json_field_not_allowed, Some flag)
              | Some chosen \<Rightarrow>
                  bind_result (check_fields flag allowed [] chosen) (\<lambda>seen.
                    if length chosen < min_items then Inl (Json_fields_min, Some flag)
                    else if length chosen > max_items then Inl (Json_fields_max, Some flag)
                    else Inr (filter (\<lambda>f. f \<in> set seen) allowed)))
         | _ \<Rightarrow> Inl (Json_field_not_allowed, Some flag)))"
| "evaluate_json_fields _ raw = Inr []"

definition relation_violations ::
    "(jstr \<Rightarrow> option_value option) \<Rightarrow> bool \<Rightarrow> bool \<Rightarrow> gh_constraint \<Rightarrow> violation list" where
  "relation_violations present repository host c =
     (let has = (\<lambda>f. present f \<noteq> None);
          first = (\<lambda>fs. case filter has fs of [] \<Rightarrow> None | f # _ \<Rightarrow> Some f)
      in case c of
           Requires flag reqs \<Rightarrow>
             (if has flag then map (\<lambda>_. (Requires_violated, Some flag)) (filter (\<lambda>r. \<not> has r) reqs) else [])
         | Conflicts flags \<Rightarrow>
             (if length (filter has flags) > 1 then [(Conflicts_violated, first flags)] else [])
         | One_of flags \<Rightarrow>
             (if length (filter has flags) > 1 then [(One_of_violated, first flags)] else [])
         | Exactly_one flags \<Rightarrow>
             (if length (filter has flags) \<noteq> 1 then [(Exactly_one_violated, first flags)] else [])
         | At_least_one flags \<Rightarrow>
             (if \<not> list_ex has flags then [(At_least_one_violated, None)] else [])
         | Implies flag when_value implied \<Rightarrow>
             (if \<not> has flag then []
              else if when_value \<noteq> None \<and> present flag \<noteq> Some (Text_value (the when_value)) then []
              else if \<not> has implied then [(Implies_violated, Some flag)] else [])
         | Required_if flag when_flag when_value \<Rightarrow>
             (if present when_flag = Some (Text_value when_value) \<and> \<not> has flag
              then [(Required_if_violated, Some flag)] else [])
         | Input_source_exclusive sources \<Rightarrow>
             (if length (filter has sources) > 1 then [(Input_source_violated, first sources)] else [])
         | Context_required ctx \<Rightarrow>
             (if \<not> (case ctx of Repository_context \<Rightarrow> repository | Host_context \<Rightarrow> host)
              then [(Context_missing, None)] else []))"

definition evaluate_relations ::
    "gh_constraint list \<Rightarrow> (jstr \<Rightarrow> option_value option) \<Rightarrow> bool \<Rightarrow> bool \<Rightarrow> violation list" where
  "evaluate_relations cs present repository host =
     concat (map (relation_violations present repository host) cs)"

definition FORBIDDEN_MEMBERS :: "jstr list" where
  "FORBIDDEN_MEMBERS = [js ''positional'', js ''stdin'', js ''files'', js ''argv'', js ''command'']"

text \<open>The loop over the options: the violations and the values, in the order of the definition.\<close>

fun evaluate_options ::
    "gh_option list \<Rightarrow> (jstr \<times> json) list \<Rightarrow> violation list \<times> (jstr \<times> option_value) list" where
  "evaluate_options [] raw = ([], [])"
| "evaluate_options (opt # opts) raw =
     (let rest = evaluate_options opts raw in
      if is_json_fields opt then rest
      else (case evaluate_option opt (member raw (option_flag opt)) of
              Inl v \<Rightarrow> (v # fst rest, snd rest)
            | Inr None \<Rightarrow> rest
            | Inr (Some val) \<Rightarrow> (fst rest, (option_flag opt, val) # snd rest)))"

definition unknown_flags :: "capability \<Rightarrow> (jstr \<times> json) list \<Rightarrow> violation list" where
  "unknown_flags d raw =
     map (\<lambda>f. (Unknown_flag, Some f))
       (filter (\<lambda>f. case option_by_flag d f of None \<Rightarrow> True | Some opt \<Rightarrow> is_json_fields opt) (remdups (map fst raw)))"

definition json_option_of :: "capability \<Rightarrow> gh_option option" where
  "json_option_of d = find is_json_fields (cap_options d)"

definition present_values ::
    "capability \<Rightarrow> (jstr \<times> option_value) list \<Rightarrow> jstr list \<Rightarrow> jstr \<Rightarrow> option_value option" where
  "present_values d ordered chosen =
     (let m = (\<lambda>f. map_of (rev ordered) f) in
      case json_option_of d of
        Some opt \<Rightarrow> if chosen \<noteq> [] then m(option_flag opt \<mapsto> List_value chosen) else m
      | None \<Rightarrow> m)"

definition evaluate_invocation ::
    "capability \<Rightarrow> invocation \<Rightarrow> (violation list, normalized_invocation) result" where
  "evaluate_invocation d req =
     (let repository = parse_repository_slug (inv_repository req);
          v1 = (if repository = None then [(Repository_format, None)] else []);
          v2 = map (\<lambda>_. (Positional_not_allowed, None))
                 (filter (\<lambda>m. member (inv_extra req) m \<noteq> None) FORBIDDEN_MEMBERS);
          v3 = unknown_flags d (inv_flags req);
          (v4, ordered) = evaluate_options (cap_options d) (inv_flags req);
          outcome = evaluate_json_fields (json_option_of d) (inv_json_fields req);
          v5 = (case outcome of Inl v \<Rightarrow> [v] | Inr _ \<Rightarrow> []);
          chosen = (case outcome of Inl _ \<Rightarrow> [] | Inr fs \<Rightarrow> fs);
          v6 = evaluate_relations (cap_constraints d) (present_values d ordered chosen) (repository \<noteq> None) True;
          violations = v1 @ v2 @ v3 @ v4 @ v5 @ v6
      in case repository of
           None \<Rightarrow> Inl violations
         | Some slug \<Rightarrow>
             if violations \<noteq> [] then Inl violations
             else Inr \<lparr>ni_capability = cap_id d, ni_repository = slug, ni_options = ordered,
                       ni_json_fields = chosen\<rparr>)"

section \<open>Arguments\<close>

record execution_context =
  ctx_host :: jstr
  ctx_repository :: repository_slug

datatype argv_error = Capability_mismatch | Repository_mismatch | Array_value jstr | Control_character

definition repo_argument :: "execution_context \<Rightarrow> jstr" where
  "repo_argument ctx =
     ctx_host ctx @ js ''/'' @ slug_owner (ctx_repository ctx) @ js ''/'' @ slug_name (ctx_repository ctx)"

fun string_of_value :: "option_value \<Rightarrow> jstr option" where
  "string_of_value (Text_value s) = Some s"
| "string_of_value (Int_value n) = Some (show_int n)"
| "string_of_value (Bool_value b) = Some (if b then js ''true'' else js ''false'')"
| "string_of_value (List_value _) = None"

fun option_args :: "gh_option list \<Rightarrow> (jstr \<times> option_value) list \<Rightarrow> (argv_error, jstr list) result" where
  "option_args [] entries = Inr []"
| "option_args (opt # opts) entries =
     (if is_json_fields opt then option_args opts entries
      else
        (case map_of entries (option_flag opt) of
           None \<Rightarrow> option_args opts entries
         | Some v \<Rightarrow>
             (case opt of
                Bool_option flag _ \<Rightarrow>
                  bind_result (option_args opts entries) (\<lambda>rest.
                    Inr (if v = Bool_value True then flag # rest else rest))
              | _ \<Rightarrow>
                  (case string_of_value v of
                     None \<Rightarrow> Inl (Array_value (option_flag opt))
                   | Some s \<Rightarrow>
                       bind_result (option_args opts entries) (\<lambda>rest. Inr (option_flag opt # s # rest))))))"

definition is_control :: "unit16 \<Rightarrow> bool" where
  "is_control c \<longleftrightarrow> c \<le> 0x1F \<or> c = 0x7F"

definition build_argv ::
    "capability \<Rightarrow> normalized_invocation \<Rightarrow> execution_context \<Rightarrow> (argv_error, jstr list) result" where
  "build_argv d req ctx =
     (if cap_id d \<noteq> ni_capability req then Inl Capability_mismatch
      else if ctx_repository ctx \<noteq> ni_repository req then Inl Repository_mismatch
      else
        bind_result (option_args (cap_options d) (ni_options req)) (\<lambda>opts.
          let chosen = (case json_option_of d of
                          Some opt \<Rightarrow> if ni_json_fields req \<noteq> []
                                      then [option_flag opt, join_with (js '','') (ni_json_fields req)] else []
                        | None \<Rightarrow> []);
              argv = cap_path d @ [js ''--repo'', repo_argument ctx] @ opts @ chosen
          in if list_ex (list_ex is_control) argv then Inl Control_character else Inr argv))"

section \<open>What reaches the command line\<close>

text \<open>The words a definition allows behind the repository argument.\<close>

fun word_of_option :: "gh_option \<Rightarrow> jstr \<Rightarrow> bool" where
  "word_of_option (Enum_option flag values dflt) s = (s = flag \<or> s = dflt \<or> s \<in> set values)"
| "word_of_option (Int_option flag lo hi dflt) s =
     (s = flag \<or> s = show_int dflt \<or> (\<exists>n. lo \<le> n \<and> n \<le> hi \<and> s = show_int n))"
| "word_of_option (Bool_option flag dflt) s = (s = flag)"
| "word_of_option (Json_fields_option flag allowed dflt lo hi) s =
     (s = flag \<or> (\<exists>fs. set fs \<subseteq> set allowed \<union> set dflt \<and> s = join_with (js '','') fs))"

fun value_of_option :: "gh_option \<Rightarrow> option_value \<Rightarrow> bool" where
  "value_of_option (Enum_option flag values dflt) v = (v = Text_value dflt \<or> v \<in> Text_value ` set values)"
| "value_of_option (Int_option flag lo hi dflt) v =
     (v = Int_value dflt \<or> (\<exists>n. lo \<le> n \<and> n \<le> hi \<and> v = Int_value n))"
| "value_of_option (Bool_option flag dflt) v = (v = Bool_value True)"
| "value_of_option (Json_fields_option _ _ _ _ _) v = False"

lemma evaluate_option_value:
  "evaluate_option opt raw = Inr (Some v) \<Longrightarrow> value_of_option opt v"
  by (cases opt) (auto split: option.splits json.splits if_splits)

lemma evaluate_options_values:
  "evaluate_options opts raw = (vs, ordered) \<Longrightarrow>
   \<forall>(f, v) \<in> set ordered. \<exists>opt \<in> set opts. \<not> is_json_fields opt \<and> option_flag opt = f \<and> value_of_option opt v"
proof (induction opts arbitrary: vs ordered)
  case (Cons opt opts)
  obtain vs' ordered' where rest: "evaluate_options opts raw = (vs', ordered')" by fastforce
  have IH: "\<forall>(f, v) \<in> set ordered'. \<exists>o' \<in> set opts. \<not> is_json_fields o' \<and> option_flag o' = f \<and> value_of_option o' v"
    using Cons.IH[OF rest] .
  show ?case
  proof (cases "is_json_fields opt")
    case True
    with Cons.prems rest IH show ?thesis by (fastforce simp: Let_def)
  next
    case False
    with Cons.prems rest have "ordered = ordered' \<or>
        (\<exists>v. evaluate_option opt (member raw (option_flag opt)) = Inr (Some v) \<and>
          ordered = (option_flag opt, v) # ordered')"
      by (auto simp: Let_def split: sum.splits option.splits)
    with IH False evaluate_option_value show ?thesis by fastforce
  qed
qed simp

text \<open>Definitions name each flag once, so an entry under a flag is a value of the option of that flag.\<close>

lemma option_args_words:
  assumes "option_args opts entries = Inr args" and "distinct (map option_flag all)" and "set opts \<subseteq> set all"
    and "\<forall>(f, v) \<in> set entries. \<exists>opt \<in> set all. \<not> is_json_fields opt \<and> option_flag opt = f \<and> value_of_option opt v"
  shows "\<forall>s \<in> set args. \<exists>opt \<in> set opts. word_of_option opt s"
  using assms(1,3)
proof (induction opts arbitrary: args)
  case Nil
  then show ?case by simp
next
  case (Cons opt opts)
  from Cons.prems obtain rest where rest: "option_args opts entries = Inr rest"
    by (cases opt) (auto split: option.splits)
  have IH: "\<forall>s \<in> set rest. \<exists>o' \<in> set opts. word_of_option o' s" using Cons.IH[OF rest] Cons.prems(2) by simp
  have val: "value_of_option opt v" if "map_of entries (option_flag opt) = Some v" for v
  proof -
    from map_of_SomeD[OF that] assms(4) obtain o' where "o' \<in> set all" "option_flag o' = option_flag opt"
      "value_of_option o' v" by blast
    moreover have "opt \<in> set all" using Cons.prems(2) by simp
    ultimately show ?thesis using assms(2) by (metis distinct_map inj_onD)
  qed
  have "args = rest \<or> args = option_flag opt # rest \<or>
      (\<exists>s. word_of_option opt s \<and> args = option_flag opt # s # rest)"
  proof (cases "map_of entries (option_flag opt)")
    case None
    with Cons.prems(1) rest show ?thesis by (simp split: if_splits)
  next
    case (Some v)
    note val[OF Some]
    with Cons.prems(1) rest Some show ?thesis by (cases opt) (auto split: if_splits)
  qed
  moreover have "word_of_option opt (option_flag opt)" by (cases opt) auto
  ultimately show ?case using IH by auto
qed

lemma option_args_total:
  assumes "\<forall>(f, v) \<in> set entries. string_of_value v \<noteq> None"
  shows "\<exists>args. option_args opts entries = Inr args"
proof (induction opts)
  case (Cons opt opts)
  then obtain rest where rest: "option_args opts entries = Inr rest" ..
  show ?case
  proof (cases "map_of entries (option_flag opt)")
    case None
    with rest show ?thesis by simp
  next
    case (Some v)
    with assms obtain s where "string_of_value v = Some s" by (fastforce dest: map_of_SomeD)
    with Some rest show ?thesis by (cases opt) auto
  qed
qed simp

lemma value_has_string: "value_of_option opt v \<Longrightarrow> string_of_value v \<noteq> None"
  by (cases opt) auto

lemma check_fields_subset:
  "check_fields flag allowed seen fs = Inr out \<Longrightarrow> set seen \<subseteq> set allowed \<Longrightarrow> set out \<subseteq> set allowed"
  by (induction fs arbitrary: seen) (auto split: if_splits)

lemma evaluate_json_fields_words:
  assumes "evaluate_json_fields (Some opt) raw = Inr fs" and "is_json_fields opt"
  shows "word_of_option opt (join_with (js '','') fs)"
proof (cases opt)
  case (Json_fields_option flag allowed dflt lo hi)
  have "fs = dflt \<or> (\<exists>seen. fs = filter (\<lambda>f. f \<in> set seen) allowed)"
    using assms(1) unfolding Json_fields_option by (auto split: if_splits option.splits json.splits)
  then have "set fs \<subseteq> set allowed \<union> set dflt" by auto
  then show ?thesis unfolding Json_fields_option word_of_option.simps by blast
qed (use assms(2) in auto)

lemma evaluate_invocation_accepts:
  assumes "evaluate_invocation d req = Inr ni"
  shows "ni_capability ni = cap_id d \<and> parse_repository_slug (inv_repository req) = Some (ni_repository ni) \<and>
    evaluate_options (cap_options d) (inv_flags req) = ([], ni_options ni) \<and>
    evaluate_json_fields (json_option_of d) (inv_json_fields req) = Inr (ni_json_fields ni) \<and>
    evaluate_relations (cap_constraints d) (present_values d (ni_options ni) (ni_json_fields ni)) True True = [] \<and>
    unknown_flags d (inv_flags req) = []"
  using assms
  by (auto simp: evaluate_invocation_def Let_def split: option.splits prod.splits sum.splits if_splits)

lemma slug_parts: "parse_repository_slug raw = Some slug \<Longrightarrow> SLUG_PART (slug_owner slug) \<and> SLUG_PART (slug_name slug)"
  by (auto simp: parse_repository_slug_def split: option.splits list.splits if_splits)

text \<open>C37: The arguments built for an accepted invocation are the capability's own path, the repository
  argument made of checked owner and name, and then only words its definition declares: its
  flags, which are distinct, enumerated values, integers within their bounds and lists of
  allowed fields; no argument has a control character. Nothing of the request reaches the
  command line otherwise.\<close>

theorem argv_holds_declared_words_only:
  assumes "evaluate_invocation d req = Inr ni" and "build_argv d ni ctx = Inr argv"
    and "distinct (map option_flag (cap_options d))"
  shows "\<exists>rest. argv = cap_path d @ [js ''--repo'', repo_argument ctx] @ rest \<and>
    (\<forall>s \<in> set rest. \<exists>opt \<in> set (cap_options d). word_of_option opt s) \<and>
    SLUG_PART (slug_owner (ctx_repository ctx)) \<and> SLUG_PART (slug_name (ctx_repository ctx)) \<and>
    (\<forall>s \<in> set argv. \<forall>c \<in> set s. \<not> is_control c)"
proof -
  note acc = evaluate_invocation_accepts[OF assms(1)]
  from acc have ev: "evaluate_options (cap_options d) (inv_flags req) = ([], ni_options ni)" by simp
  from assms(2) obtain opts where opts: "option_args (cap_options d) (ni_options ni) = Inr opts"
    and repo: "ctx_repository ctx = ni_repository ni"
    and argv: "argv = cap_path d @ [js ''--repo'', repo_argument ctx] @ opts @
      (case json_option_of d of
         Some opt \<Rightarrow> if ni_json_fields ni \<noteq> [] then [option_flag opt, join_with (js '','') (ni_json_fields ni)] else []
       | None \<Rightarrow> [])"
    and ctl: "\<not> list_ex (list_ex is_control) argv"
    by (auto simp: build_argv_def Let_def simp del: js_Cons split: if_splits)
  have words: "\<forall>s \<in> set opts. \<exists>opt \<in> set (cap_options d). word_of_option opt s"
    using option_args_words[OF opts assms(3) subset_refl] evaluate_options_values[OF ev] by blast
  let ?chosen = "case json_option_of d of
         Some opt \<Rightarrow> if ni_json_fields ni \<noteq> [] then [option_flag opt, join_with (js '','') (ni_json_fields ni)] else []
       | None \<Rightarrow> []"
  have "\<forall>s \<in> set ?chosen. \<exists>opt \<in> set (cap_options d). word_of_option opt s"
  proof (cases "json_option_of d")
    case (Some opt)
    then have o: "opt \<in> set (cap_options d)" "is_json_fields opt"
      by (auto simp: json_option_of_def find_Some_iff)
    have "word_of_option opt (option_flag opt)" using o(2) by (cases opt) auto
    moreover have "word_of_option opt (join_with (js '','') (ni_json_fields ni))"
      using acc Some o(2) by (intro evaluate_json_fields_words) auto
    ultimately show ?thesis using o(1) Some by auto
  qed simp
  with words have "\<forall>s \<in> set (opts @ ?chosen). \<exists>opt \<in> set (cap_options d). word_of_option opt s"
    unfolding set_append ball_Un by (rule conjI)
  moreover have "SLUG_PART (slug_owner (ctx_repository ctx)) \<and> SLUG_PART (slug_name (ctx_repository ctx))"
    using acc slug_parts[of "inv_repository req"] repo by simp
  moreover have "\<forall>s \<in> set argv. \<forall>c \<in> set s. \<not> is_control c"
    using ctl unfolding list_ex_iff by blast
  ultimately show ?thesis using argv by blast
qed

text \<open>The relations a definition demands, and what a set of present flags must satisfy.\<close>

definition at_most_one :: "(jstr \<Rightarrow> option_value option) \<Rightarrow> jstr list \<Rightarrow> bool" where
  "at_most_one p flags \<longleftrightarrow> sorted_wrt (\<lambda>f g. p f = None \<or> p g = None) flags"

fun constraint_holds :: "(jstr \<Rightarrow> option_value option) \<Rightarrow> gh_constraint \<Rightarrow> bool" where
  "constraint_holds p (Requires flag reqs) = (p flag \<noteq> None \<longrightarrow> (\<forall>r \<in> set reqs. p r \<noteq> None))"
| "constraint_holds p (Conflicts flags) = at_most_one p flags"
| "constraint_holds p (One_of flags) = at_most_one p flags"
| "constraint_holds p (Exactly_one flags) = (at_most_one p flags \<and> (\<exists>f \<in> set flags. p f \<noteq> None))"
| "constraint_holds p (At_least_one flags) = (\<exists>f \<in> set flags. p f \<noteq> None)"
| "constraint_holds p (Implies flag when_value implied) =
     (p flag \<noteq> None \<and> (\<forall>v. when_value = Some v \<longrightarrow> p flag = Some (Text_value v)) \<longrightarrow> p implied \<noteq> None)"
| "constraint_holds p (Required_if flag when_flag when_value) =
     (p when_flag = Some (Text_value when_value) \<longrightarrow> p flag \<noteq> None)"
| "constraint_holds p (Input_source_exclusive flags) = at_most_one p flags"
| "constraint_holds p (Context_required _) = True"

lemma filter_at_most_one: "length (filter (\<lambda>f. p f \<noteq> None) flags) \<le> 1 \<longleftrightarrow> at_most_one p flags"
proof (induction flags)
  case (Cons f flags)
  have none: "filter (\<lambda>f. p f \<noteq> None) flags = [] \<longleftrightarrow> (\<forall>g \<in> set flags. p g = None)"
    by (simp add: filter_empty_conv)
  have "\<forall>g \<in> set flags. p g = None \<Longrightarrow> at_most_one p flags"
    unfolding Cons[symmetric] none[symmetric] by simp
  with Cons none show ?case by (cases "p f") (auto simp: at_most_one_def)
qed (simp add: at_most_one_def)

lemma relation_violations_sound:
  assumes "relation_violations p True True c = []"
  shows "constraint_holds p c"
proof (cases c)
  case (Exactly_one flags)
  with assms have "length (filter (\<lambda>f. p f \<noteq> None) flags) = 1"
    by (auto simp: relation_violations_def Let_def split: if_splits)
  then have "length (filter (\<lambda>f. p f \<noteq> None) flags) \<le> 1" "filter (\<lambda>f. p f \<noteq> None) flags \<noteq> []" by auto
  then show ?thesis unfolding filter_at_most_one Exactly_one by (auto simp: filter_empty_conv)
next
  case (Requires flag reqs)
  with assms show ?thesis
    by (auto simp: relation_violations_def Let_def filter_empty_conv split: if_splits)
next
  case (Implies flag when_value implied)
  with assms show ?thesis by (cases when_value) (auto simp: relation_violations_def Let_def split: if_splits)
qed (use assms filter_at_most_one[of p, unfolded not_None_eq] in
    \<open>auto simp: relation_violations_def Let_def list_ex_iff not_less split: if_splits\<close>)

text \<open>An accepted invocation satisfies every relation between its options that the definition
  states: requirements, conflicts, exclusive and necessary choices and implications.\<close>

theorem accepted_invocation_satisfies_constraints:
  assumes "evaluate_invocation d req = Inr ni"
  shows "\<forall>c \<in> set (cap_constraints d).
    constraint_holds (present_values d (ni_options ni) (ni_json_fields ni)) c"
  using evaluate_invocation_accepts[OF assms] relation_violations_sound
  by (auto simp: evaluate_relations_def)

definition sample_capability :: capability where
  "sample_capability = \<lparr>cap_id = js ''pr.list'', cap_path = [js ''pr'', js ''list''],
     cap_options = [Enum_option (js ''--state'') [js ''open'', js ''all''] (js ''open''),
       Int_option (js ''--limit'') 1 50 30, Bool_option (js ''--draft'') False,
       Json_fields_option (js ''--json'') [js ''url'', js ''id''] [js ''url''] 1 2],
     cap_constraints = [Requires (js ''--draft'') [js ''--state'']]\<rparr>"

definition sample_request :: invocation where
  "sample_request = \<lparr>inv_repository = Some (J_string (js ''o/r'')),
     inv_flags = [(js ''--limit'', J_string (js ''7'')), (js ''--draft'', J_bool True)],
     inv_json_fields = Some (J_array [J_string (js ''id'')]), inv_extra = []\<rparr>"

definition sample_context :: execution_context where
  "sample_context = \<lparr>ctx_host = js ''h'', ctx_repository = \<lparr>slug_owner = js ''o'', slug_name = js ''r''\<rparr>\<rparr>"

definition sample_normalized :: normalized_invocation where
  "sample_normalized = \<lparr>ni_capability = js ''pr.list'',
     ni_repository = \<lparr>slug_owner = js ''o'', slug_name = js ''r''\<rparr>,
     ni_options = [(js ''--state'', Text_value (js ''open'')), (js ''--limit'', Int_value 7), (js ''--draft'', Bool_value True)],
     ni_json_fields = [js ''id'']\<rparr>"

lemma sample_evaluates: "evaluate_invocation sample_capability sample_request = Inr sample_normalized"
  by code_simp

definition sample_argv :: "jstr list" where
  "sample_argv = [js ''pr'', js ''list'', js ''--repo'', js ''h/o/r'', js ''--state'', js ''open'', js ''--limit'', js ''7'',
     js ''--draft'', js ''--json'', js ''id'']"

lemma sample_argv_built: "build_argv sample_capability sample_normalized sample_context = Inr sample_argv"
  by code_simp

theorem argv_holds_declared_words_only_witness:
  "\<exists>rest. sample_argv = [js ''pr'', js ''list'', js ''--repo'', js ''h/o/r''] @ rest \<and>
     (\<forall>s \<in> set rest. \<exists>opt \<in> set (cap_options sample_capability). word_of_option opt s)"
proof -
  have "distinct (map option_flag (cap_options sample_capability))" by code_simp
  from argv_holds_declared_words_only[OF sample_evaluates sample_argv_built this]
  show ?thesis by (auto simp: sample_capability_def sample_context_def repo_argument_def)
qed

theorem accepted_invocation_satisfies_constraints_witness:
  "constraint_holds (present_values sample_capability (ni_options sample_normalized) (ni_json_fields sample_normalized))
     (Requires (js ''--draft'') [js ''--state''])"
  using accepted_invocation_satisfies_constraints[OF sample_evaluates] by (simp add: sample_capability_def)

end
