(* ===== verification/GhCli_Ref.thy ===== *)
theory GhCli_Ref
  imports GhCli_Invocation GhCli_Pointer
begin

text \<open>
  Typed references to GitHub resources (\<open>packages/gh-cli/src/resource-ref.ts\<close>): the check of an
  untrusted value and the reading of a URL from the output of a command. The URL parser of the
  platform is the parameter \<open>url_of\<close>. Hosts are compared after lower-casing their ASCII letters:
  hosts of an execution context are ASCII.
\<close>

section \<open>Kinds\<close>

datatype resource_kind =
    Repository_kind | Pull_request_kind | Issue_kind | Discussion_kind | Workflow_kind | Workflow_run_kind
  | Release_kind | Project_kind | Codespace_kind | Artifact_kind | Gist_kind | User_kind | Team_kind
  | Branch_kind | Commit_kind

fun kind_name :: "resource_kind \<Rightarrow> jstr" where
  "kind_name Repository_kind = js ''repository''"
| "kind_name Pull_request_kind = js ''pull_request''"
| "kind_name Issue_kind = js ''issue''"
| "kind_name Discussion_kind = js ''discussion''"
| "kind_name Workflow_kind = js ''workflow''"
| "kind_name Workflow_run_kind = js ''workflow_run''"
| "kind_name Release_kind = js ''release''"
| "kind_name Project_kind = js ''project''"
| "kind_name Codespace_kind = js ''codespace''"
| "kind_name Artifact_kind = js ''artifact''"
| "kind_name Gist_kind = js ''gist''"
| "kind_name User_kind = js ''user''"
| "kind_name Team_kind = js ''team''"
| "kind_name Branch_kind = js ''branch''"
| "kind_name Commit_kind = js ''commit''"

definition RESOURCE_KINDS :: "resource_kind list" where
  "RESOURCE_KINDS =
     [Repository_kind, Pull_request_kind, Issue_kind, Discussion_kind, Workflow_kind, Workflow_run_kind,
      Release_kind, Project_kind, Codespace_kind, Artifact_kind, Gist_kind, User_kind, Team_kind,
      Branch_kind, Commit_kind]"

definition REPOSITORY_SCOPED_KINDS :: "resource_kind set" where
  "REPOSITORY_SCOPED_KINDS =
     {Pull_request_kind, Issue_kind, Discussion_kind, Workflow_kind, Workflow_run_kind, Release_kind,
      Branch_kind, Commit_kind}"

definition IDENTIFIABLE_KINDS :: "resource_kind set" where
  "IDENTIFIABLE_KINDS =
     {Repository_kind, Pull_request_kind, Issue_kind, Discussion_kind, Workflow_kind, Workflow_run_kind,
      Release_kind, Codespace_kind, Branch_kind, Commit_kind}"

definition kind_of_name :: "jstr \<Rightarrow> resource_kind option" where
  "kind_of_name s = find (\<lambda>k. kind_name k = s) RESOURCE_KINDS"

lemma kind_of_name_name [simp]: "kind_of_name (kind_name k) = Some k"
  by (cases k) (simp_all add: kind_of_name_def RESOURCE_KINDS_def)

section \<open>Patterns\<close>

definition host_unit :: "unit16 \<Rightarrow> bool" where
  "host_unit c \<longleftrightarrow> is_letter c \<or> is_digit c \<or> c = ch CHR ''.'' \<or> c = ch CHR ''-''"

definition host_name :: "jstr \<Rightarrow> bool" where
  "host_name h \<longleftrightarrow> (case h of [] \<Rightarrow> False
     | c # cs \<Rightarrow> (is_letter c \<or> is_digit c) \<and> length cs \<le> 252 \<and> list_all host_unit cs)"

definition HOST :: "jstr \<Rightarrow> bool" where
  "HOST s \<longleftrightarrow>
     (case split_on (ch CHR '':'') s of
        [h] \<Rightarrow> host_name h
      | [h, p] \<Rightarrow> host_name h \<and> all_digits p \<and> length p \<le> 5
      | _ \<Rightarrow> False)"

definition POSITIVE_DECIMAL :: "jstr \<Rightarrow> bool" where
  "POSITIVE_DECIMAL s \<longleftrightarrow> all_digits s \<and> hd s \<noteq> ch CHR ''0'' \<and> length s \<le> 16"

definition COMMIT_SHA :: "jstr \<Rightarrow> bool" where
  "COMMIT_SHA s \<longleftrightarrow> (length s = 40 \<or> length s = 64) \<and> list_all is_hex_lower s"

definition is_safe_name :: "json \<Rightarrow> bool" where
  "is_safe_name value \<longleftrightarrow>
     (case value of
        J_string s \<Rightarrow> s \<noteq> [] \<and> length s \<le> 255 \<and> \<not> starts_with (js ''-'') s \<and>
          list_all (\<lambda>c. \<not> (c \<le> 0x20 \<or> c = 0x7F \<or> is_space c)) s
      | _ \<Rightarrow> False)"

section \<open>Validation\<close>

record resource_ref =
  ref_host :: jstr
  ref_kind :: resource_kind
  ref_repository :: "jstr option"
  ref_id :: "jstr option"
  ref_number :: "int option"
  ref_name :: "jstr option"

definition REF_KEYS :: "jstr list" where
  "REF_KEYS = [js ''host'', js ''id'', js ''kind'', js ''number'', js ''ref'', js ''repository'']"

datatype ref_problem =
    Shape | Bad_host | Bad_kind | Kind_mismatch | Kind_without_identity_rule | Bad_repository
  | Bad_number | Bad_id | Bad_ref | Unexpected_identity

fun text_or_null :: "json \<Rightarrow> jstr option" where
  "text_or_null (J_string s) = Some s"
| "text_or_null _ = None"

fun int_or_null :: "json \<Rightarrow> int option" where
  "int_or_null (J_int n) = Some n"
| "int_or_null _ = None"

text \<open>The switch on the kind.\<close>

definition identity_problem :: "resource_kind \<Rightarrow> json \<Rightarrow> json \<Rightarrow> json \<Rightarrow> ref_problem option" where
  "identity_problem kind i number ref =
     (let positive_number = (case number of J_int n \<Rightarrow> is_safe_integer n \<and> 0 < n | _ \<Rightarrow> False);
          numbered = (if \<not> positive_number then Some Bad_number
                      else if i \<noteq> J_null \<or> ref \<noteq> J_null then Some Unexpected_identity else None);
          workflow = (if \<not> (case i of J_string s \<Rightarrow> POSITIVE_DECIMAL s | _ \<Rightarrow> False) then Some Bad_id
                      else if number \<noteq> J_null \<or> ref \<noteq> J_null then Some Unexpected_identity else None);
          named = (if \<not> is_safe_name ref then Some Bad_ref
                   else if number \<noteq> J_null \<or> i \<noteq> J_null then Some Unexpected_identity else None)
      in case kind of
           Pull_request_kind \<Rightarrow> numbered
         | Issue_kind \<Rightarrow> numbered
         | Discussion_kind \<Rightarrow> numbered
         | Workflow_run_kind \<Rightarrow> workflow
         | Workflow_kind \<Rightarrow> workflow
         | Release_kind \<Rightarrow> named
         | Branch_kind \<Rightarrow> named
         | Commit_kind \<Rightarrow>
             (if \<not> (case ref of J_string s \<Rightarrow> COMMIT_SHA s | _ \<Rightarrow> False) then Some Bad_ref
              else if number \<noteq> J_null \<or> i \<noteq> J_null then Some Unexpected_identity else None)
         | Repository_kind \<Rightarrow>
             (if i \<noteq> J_null \<or> number \<noteq> J_null \<or> ref \<noteq> J_null then Some Unexpected_identity else None)
         | Codespace_kind \<Rightarrow>
             (if \<not> is_safe_name i then Some Bad_id
              else if number \<noteq> J_null \<or> ref \<noteq> J_null then Some Unexpected_identity else None)
         | _ \<Rightarrow> Some Kind_without_identity_rule)"

definition repository_problem_of :: "resource_kind \<Rightarrow> json \<Rightarrow> bool" where
  "repository_problem_of kind repository =
     (let repository_ok = (case repository of J_string s \<Rightarrow> parse_repository_slug (Some repository) \<noteq> None | _ \<Rightarrow> False);
          scoped = (kind \<in> REPOSITORY_SCOPED_KINDS \<or> kind = Repository_kind)
      in (scoped \<and> \<not> repository_ok) \<or> (\<not> scoped \<and> repository \<noteq> J_null \<and> \<not> repository_ok))"

definition validate_members ::
    "(jstr \<times> json) list \<Rightarrow> resource_kind option \<Rightarrow> (ref_problem, resource_ref) result" where
  "validate_members ms expected =
     (let get = (\<lambda>k. the (member ms k));
          host = get (js ''host''); kind = get (js ''kind''); repository = get (js ''repository'');
          i = get (js ''id''); number = get (js ''number''); ref = get (js ''ref'')
      in case host of
           J_string h \<Rightarrow>
             if \<not> HOST h then Inl Bad_host
             else (case kind of
                     J_string kn \<Rightarrow>
                       (case kind_of_name kn of
                          None \<Rightarrow> Inl Bad_kind
                        | Some k \<Rightarrow>
                            if expected \<noteq> None \<and> Some k \<noteq> expected then Inl Kind_mismatch
                            else if k \<notin> IDENTIFIABLE_KINDS then Inl Kind_without_identity_rule
                            else if repository_problem_of k repository then Inl Bad_repository
                            else (case identity_problem k i number ref of
                                    Some p \<Rightarrow> Inl p
                                  | None \<Rightarrow>
                                      Inr \<lparr>ref_host = h, ref_kind = k, ref_repository = text_or_null repository,
                                           ref_id = text_or_null i, ref_number = int_or_null number,
                                           ref_name = text_or_null ref\<rparr>))
                   | _ \<Rightarrow> Inl Bad_kind)
         | _ \<Rightarrow> Inl Bad_host)"

definition validate_resource_ref :: "json \<Rightarrow> resource_kind option \<Rightarrow> (ref_problem, resource_ref) result" where
  "validate_resource_ref value expected =
     (case as_record value of
        None \<Rightarrow> Inl Shape
      | Some ms \<Rightarrow>
          if set (map fst ms) \<noteq> set REF_KEYS then Inl Shape else validate_members ms expected)"

section \<open>References from output URLs\<close>

record ref_context =
  rc_host :: jstr
  rc_repository :: "repository_slug option"

definition slug_of :: "repository_slug \<Rightarrow> jstr" where
  "slug_of slug = slug_owner slug @ js ''/'' @ slug_name slug"

definition same_slug :: "repository_slug \<Rightarrow> repository_slug \<Rightarrow> bool" where
  "same_slug l r \<longleftrightarrow>
     to_lower (slug_owner l) = to_lower (slug_owner r) \<and> to_lower (slug_name l) = to_lower (slug_name r)"

record url =
  url_protocol :: jstr
  url_username :: jstr
  url_password :: jstr
  url_search :: jstr
  url_hash :: jstr
  url_host :: jstr
  url_pathname :: jstr

datatype url_grammar = Pull_request_url | Issue_url | Discussion_url | Repository_url

datatype repository_source = From_execution_context | From_url

datatype url_ref_problem =
    Not_a_url | Bad_scheme | Credentials | Query_or_fragment | Host_mismatch | Bad_grammar
  | Repository_missing | Repository_differs

fun grammar_kind :: "url_grammar \<Rightarrow> resource_kind" where
  "grammar_kind Pull_request_url = Pull_request_kind"
| "grammar_kind Issue_url = Issue_kind"
| "grammar_kind Discussion_url = Discussion_kind"
| "grammar_kind Repository_url = Repository_kind"

text \<open>The patterns: the owner, the name and the number of a path, where they match.\<close>

definition numbered_path :: "jstr \<Rightarrow> jstr \<Rightarrow> (jstr \<times> jstr \<times> jstr option) option" where
  "numbered_path word path =
     (case split_on (ch CHR ''/'') path of
        [e, owner, name, w, n] \<Rightarrow>
          if e = [] \<and> owner \<noteq> [] \<and> name \<noteq> [] \<and> w = word \<and> POSITIVE_DECIMAL n
          then Some (owner, name, Some n) else None
      | _ \<Rightarrow> None)"

fun match_grammar :: "url_grammar \<Rightarrow> jstr \<Rightarrow> (jstr \<times> jstr \<times> jstr option) option" where
  "match_grammar Pull_request_url path = numbered_path (js ''pull'') path"
| "match_grammar Issue_url path = numbered_path (js ''issues'') path"
| "match_grammar Discussion_url path = numbered_path (js ''discussions'') path"
| "match_grammar Repository_url path =
     (case split_on (ch CHR ''/'') path of
        [e, owner, name] \<Rightarrow> if e = [] \<and> owner \<noteq> [] \<and> name \<noteq> [] then Some (owner, name, None) else None
      | _ \<Rightarrow> None)"

definition text_json :: "jstr option \<Rightarrow> json" where
  "text_json t = (case t of None \<Rightarrow> J_null | Some s \<Rightarrow> J_string s)"

definition int_json :: "int option \<Rightarrow> json" where
  "int_json t = (case t of None \<Rightarrow> J_null | Some n \<Rightarrow> J_int n)"

definition ref_json :: "resource_ref \<Rightarrow> json" where
  "ref_json r = J_object
     [(js ''host'', J_string (ref_host r)), (js ''kind'', J_string (kind_name (ref_kind r))),
      (js ''repository'', text_json (ref_repository r)), (js ''id'', text_json (ref_id r)),
      (js ''number'', int_json (ref_number r)), (js ''ref'', text_json (ref_name r))]"

fun resolve_repository ::
    "repository_source \<Rightarrow> ref_context \<Rightarrow> repository_slug \<Rightarrow> (url_ref_problem, repository_slug) result" where
  "resolve_repository From_url ctx from_url = Inr from_url"
| "resolve_repository From_execution_context ctx from_url =
     (case rc_repository ctx of
        None \<Rightarrow> Inl Repository_missing
      | Some slug \<Rightarrow> if same_slug from_url slug then Inr slug else Inl Repository_differs)"

fun or_bad_grammar :: "(ref_problem, resource_ref) result \<Rightarrow> (url_ref_problem, resource_ref) result" where
  "or_bad_grammar (Inr ref) = Inr ref"
| "or_bad_grammar (Inl _) = Inl Bad_grammar"

definition ref_from_output_url ::
    "(jstr \<Rightarrow> url option) \<Rightarrow> jstr \<Rightarrow> url_grammar \<Rightarrow> ref_context \<Rightarrow> repository_source \<Rightarrow>
     (url_ref_problem, resource_ref) result" where
  "ref_from_output_url url_of raw grammar ctx src =
     (case url_of raw of
        None \<Rightarrow> Inl Not_a_url
      | Some u \<Rightarrow>
          if url_protocol u \<noteq> js ''https:'' \<and> url_protocol u \<noteq> js ''http:'' then Inl Bad_scheme
          else if url_username u \<noteq> [] \<or> url_password u \<noteq> [] then Inl Credentials
          else if url_search u \<noteq> [] \<or> url_hash u \<noteq> [] \<or> ch CHR ''#'' \<in> set raw \<or> ch CHR ''?'' \<in> set raw
            then Inl Query_or_fragment
          else if to_lower (url_host u) \<noteq> to_lower (rc_host ctx) then Inl Host_mismatch
          else (case match_grammar grammar (url_pathname u) of
                  None \<Rightarrow> Inl Bad_grammar
                | Some (owner, name, n) \<Rightarrow>
                    (case parse_repository_slug (Some (J_string (owner @ js ''/'' @ name))) of
                       None \<Rightarrow> Inl Bad_grammar
                     | Some from_url \<Rightarrow>
                         bind_result (resolve_repository src ctx from_url) (\<lambda>repository.
                           let candidate = \<lparr>ref_host = rc_host ctx, ref_kind = grammar_kind grammar,
                                 ref_repository = Some (slug_of repository), ref_id = None,
                                 ref_number = map_option (\<lambda>d. int (dec_value d)) n, ref_name = None\<rparr>
                           in or_bad_grammar
                                (validate_resource_ref (ref_json candidate) (Some (grammar_kind grammar)))))))"

lemma or_bad_grammar_iff [simp]: "or_bad_grammar v = Inr r \<longleftrightarrow> v = Inr r"
  by (cases v) simp_all

section \<open>What a reference holds\<close>

definition ref_members :: "resource_ref \<Rightarrow> (jstr \<times> json) list" where
  "ref_members r =
     [(js ''host'', J_string (ref_host r)), (js ''kind'', J_string (kind_name (ref_kind r))),
      (js ''repository'', text_json (ref_repository r)), (js ''id'', text_json (ref_id r)),
      (js ''number'', int_json (ref_number r)), (js ''ref'', text_json (ref_name r))]"

lemma member_ref_members:
  "member (ref_members r) (js ''host'') = Some (J_string (ref_host r))"
  "member (ref_members r) (js ''kind'') = Some (J_string (kind_name (ref_kind r)))"
  "member (ref_members r) (js ''repository'') = Some (text_json (ref_repository r))"
  "member (ref_members r) (js ''id'') = Some (text_json (ref_id r))"
  "member (ref_members r) (js ''number'') = Some (int_json (ref_number r))"
  "member (ref_members r) (js ''ref'') = Some (text_json (ref_name r))"
  by (simp_all add: ref_members_def member_def)

lemma keys_ref_members: "set (map fst (ref_members r)) = set REF_KEYS"
  unfolding ref_members_def REF_KEYS_def list.map fst_conv list.set by blast

lemma text_or_null_json [simp]: "text_or_null (text_json t) = t"
  by (cases t) (simp_all add: text_json_def)

lemma int_or_null_json [simp]: "int_or_null (int_json t) = t"
  by (cases t) (simp_all add: int_json_def)

lemma ref_eta:
  "\<lparr>ref_host = ref_host r, ref_kind = ref_kind r, ref_repository = ref_repository r,
     ref_id = ref_id r, ref_number = ref_number r, ref_name = ref_name r\<rparr> = r"
  by (cases r) simp

lemma validate_ref_json:
  "validate_resource_ref (ref_json r) e =
     (if \<not> HOST (ref_host r) then Inl Bad_host
      else if e \<noteq> None \<and> Some (ref_kind r) \<noteq> e then Inl Kind_mismatch
      else if ref_kind r \<notin> IDENTIFIABLE_KINDS then Inl Kind_without_identity_rule
      else if repository_problem_of (ref_kind r) (text_json (ref_repository r)) then Inl Bad_repository
      else (case identity_problem (ref_kind r) (text_json (ref_id r)) (int_json (ref_number r)) (text_json (ref_name r)) of
              None \<Rightarrow> Inr r
            | Some p \<Rightarrow> Inl p))"
proof -
  have "as_record (ref_json r) = Some (ref_members r)" by (simp add: ref_json_def ref_members_def)
  then have "validate_resource_ref (ref_json r) e = validate_members (ref_members r) e"
    using keys_ref_members by (simp add: validate_resource_ref_def)
  then show ?thesis
    unfolding validate_members_def Let_def member_ref_members option.sel json.case kind_of_name_name
      option.case text_or_null_json int_or_null_json ref_eta .
qed

lemma text_or_null_inverse: "v = J_null \<or> (\<exists>s. v = J_string s) \<Longrightarrow> text_json (text_or_null v) = v"
  by (auto simp: text_json_def)

lemma int_or_null_inverse: "v = J_null \<or> (\<exists>n. v = J_int n) \<Longrightarrow> int_json (int_or_null v) = v"
  by (auto simp: int_json_def)

lemma safe_name_string: "is_safe_name v \<Longrightarrow> \<exists>s. v = J_string s"
  by (auto simp: is_safe_name_def split: json.splits)

lemma identity_problem_null:
  assumes "identity_problem k i number ref = None"
  shows "text_json (text_or_null i) = i \<and> int_json (int_or_null number) = number \<and>
    text_json (text_or_null ref) = ref"
proof -
  have "i = J_null \<or> (\<exists>s. i = J_string s)" "number = J_null \<or> (\<exists>n. number = J_int n)"
    "ref = J_null \<or> (\<exists>s. ref = J_string s)"
    using assms by (cases k; auto simp: identity_problem_def Let_def dest: safe_name_string split: if_splits json.splits)+
  then show ?thesis using text_or_null_inverse int_or_null_inverse by blast
qed

lemma repository_problem_null:
  "\<not> repository_problem_of k repository \<Longrightarrow> text_json (text_or_null repository) = repository"
  by (cases repository) (auto simp: repository_problem_of_def Let_def text_json_def)

lemma validate_InrD:
  assumes "validate_resource_ref value e = Inr r"
  shows "HOST (ref_host r) \<and> (e = None \<or> e = Some (ref_kind r)) \<and> ref_kind r \<in> IDENTIFIABLE_KINDS \<and>
    \<not> repository_problem_of (ref_kind r) (text_json (ref_repository r)) \<and>
    identity_problem (ref_kind r) (text_json (ref_id r)) (int_json (ref_number r)) (text_json (ref_name r)) = None"
proof -
  from assms obtain ms where ms: "validate_members ms e = Inr r"
    by (auto simp: validate_resource_ref_def split: option.splits if_splits)
  let ?get = "\<lambda>k. the (member ms k)"
  from ms obtain h kn k where "?get (js ''host'') = J_string h" "HOST h" "?get (js ''kind'') = J_string kn"
    and k: "e = None \<or> e = Some k" "k \<in> IDENTIFIABLE_KINDS"
      "\<not> repository_problem_of k (?get (js ''repository''))"
      "identity_problem k (?get (js ''id'')) (?get (js ''number'')) (?get (js ''ref'')) = None"
    and r: "r = \<lparr>ref_host = h, ref_kind = k, ref_repository = text_or_null (?get (js ''repository'')),
      ref_id = text_or_null (?get (js ''id'')), ref_number = int_or_null (?get (js ''number'')),
      ref_name = text_or_null (?get (js ''ref''))\<rparr>"
    unfolding validate_members_def Let_def
    by (auto simp del: js_Cons split: json.splits option.splits if_splits)
  then show ?thesis using identity_problem_null[OF k(4)] repository_problem_null[OF k(3)] by simp
qed

text \<open>An accepted value is an object with the members of its reference.\<close>

lemma validate_object:
  assumes "validate_resource_ref value e = Inr r"
  shows "\<exists>ms. value = J_object ms \<and> member ms (js ''host'') = Some (J_string (ref_host r)) \<and>
    member ms (js ''kind'') = Some (J_string (kind_name (ref_kind r))) \<and>
    member ms (js ''repository'') = Some (text_json (ref_repository r)) \<and>
    member ms (js ''id'') = Some (text_json (ref_id r)) \<and> member ms (js ''number'') = Some (int_json (ref_number r)) \<and>
    member ms (js ''ref'') = Some (text_json (ref_name r))"
proof -
  from assms obtain ms where object: "value = J_object ms" and keys: "set (map fst ms) = set REF_KEYS"
    and ms: "validate_members ms e = Inr r"
    by (cases "value") (auto simp: validate_resource_ref_def split: if_splits)
  have present: "member ms key = Some (the (member ms key))" if "key \<in> set REF_KEYS" for key
  proof -
    from that keys have "key \<in> fst ` set (rev ms)" by simp
    then have "map_of (rev ms) key \<noteq> None" by (simp add: map_of_eq_None_iff)
    then show ?thesis by (auto simp: member_def)
  qed
  let ?get = "\<lambda>k. the (member ms k)"
  from ms obtain h kn k where get: "?get (js ''host'') = J_string h" "?get (js ''kind'') = J_string kn" "kind_of_name kn = Some k"
    and k: "\<not> repository_problem_of k (?get (js ''repository''))"
      "identity_problem k (?get (js ''id'')) (?get (js ''number'')) (?get (js ''ref'')) = None"
    and r: "r = \<lparr>ref_host = h, ref_kind = k, ref_repository = text_or_null (?get (js ''repository'')),
      ref_id = text_or_null (?get (js ''id'')), ref_number = int_or_null (?get (js ''number'')),
      ref_name = text_or_null (?get (js ''ref''))\<rparr>"
    unfolding validate_members_def Let_def
    by (auto simp del: js_Cons split: json.splits option.splits if_splits)
  have "kind_name k = kn" using get(3) by (auto simp: kind_of_name_def find_Some_iff)
  then have "?get (js ''kind'') = J_string (kind_name (ref_kind r))" "?get (js ''host'') = J_string (ref_host r)"
    "?get (js ''repository'') = text_json (ref_repository r)" "?get (js ''id'') = text_json (ref_id r)"
    "?get (js ''number'') = int_json (ref_number r)" "?get (js ''ref'') = text_json (ref_name r)"
    using get(1,2) identity_problem_null[OF k(2)] repository_problem_null[OF k(1)] unfolding r by simp_all
  moreover have "js ''host'' \<in> set REF_KEYS" "js ''kind'' \<in> set REF_KEYS" "js ''repository'' \<in> set REF_KEYS"
    "js ''id'' \<in> set REF_KEYS" "js ''number'' \<in> set REF_KEYS" "js ''ref'' \<in> set REF_KEYS"
    unfolding REF_KEYS_def list.set by blast+
  ultimately show ?thesis using object present by metis
qed

lemma validate_again:
  assumes "validate_resource_ref value e = Inr r"
  shows "validate_resource_ref (ref_json r) (Some (ref_kind r)) = Inr r"
  using validate_InrD[OF assms] by (simp add: validate_ref_json)

lemma parsed_slug_of:
  assumes "parse_repository_slug (Some (J_string s)) = Some slug"
  shows "slug_of slug = s"
proof -
  from assms have "split_on (ch CHR ''/'') s = [slug_owner slug, slug_name slug]"
    by (auto simp: parse_repository_slug_def split: list.splits if_splits)
  from arg_cong[OF this, of "join_with [ch CHR ''/'']"] show ?thesis by (simp add: slug_of_def)
qed

text \<open>A resource reference read from a URL in a command's output belongs to the configured host
  and has the kind its grammar declares, it passes the validation of references, its
  repository is the one the URL names (and the run's when the repository comes from the
  execution context), the URL carries no user name or password, and the number is the one in
  its path.\<close>

theorem ref_from_output_url_safe:
  assumes "ref_from_output_url url_of raw grammar ctx src = Inr r"
  shows "ref_host r = rc_host ctx \<and> ref_kind r = grammar_kind grammar \<and>
    validate_resource_ref (ref_json r) (Some (grammar_kind grammar)) = Inr r \<and>
    (src = From_execution_context \<longrightarrow> ref_repository r = map_option slug_of (rc_repository ctx)) \<and>
    (\<exists>u owner name n. url_of raw = Some u \<and> to_lower (url_host u) = to_lower (rc_host ctx) \<and>
       url_username u = [] \<and> url_password u = [] \<and>
       match_grammar grammar (url_pathname u) = Some (owner, name, n) \<and>
       ref_number r = map_option (\<lambda>d. int (dec_value d)) n \<and>
       map_option to_lower (ref_repository r) = Some (to_lower (owner @ js ''/'' @ name)))"
proof -
  from assms obtain u owner name n from_url repository where u: "url_of raw = Some u"
    "url_username u = []" "url_password u = []" "to_lower (url_host u) = to_lower (rc_host ctx)"
    and m: "match_grammar grammar (url_pathname u) = Some (owner, name, n)"
    and slug: "parse_repository_slug (Some (J_string (owner @ js ''/'' @ name))) = Some from_url"
    and repo: "resolve_repository src ctx from_url = Inr repository"
    and v: "validate_resource_ref (ref_json \<lparr>ref_host = rc_host ctx, ref_kind = grammar_kind grammar,
        ref_repository = Some (slug_of repository), ref_id = None,
        ref_number = map_option (\<lambda>d. int (dec_value d)) n, ref_name = None\<rparr>) (Some (grammar_kind grammar)) = Inr r"
    unfolding ref_from_output_url_def Let_def
    by (auto simp del: js_Cons split: option.splits if_splits prod.splits)
  have r: "r = \<lparr>ref_host = rc_host ctx, ref_kind = grammar_kind grammar,
      ref_repository = Some (slug_of repository), ref_id = None,
      ref_number = map_option (\<lambda>d. int (dec_value d)) n, ref_name = None\<rparr>"
    using v by (auto simp: validate_ref_json split: if_splits option.splits)
  have "slug_of from_url = owner @ js ''/'' @ name"
    using parsed_slug_of[OF slug] .
  moreover have "to_lower (slug_of repository) = to_lower (slug_of from_url)"
    using repo by (cases src) (auto simp: same_slug_def slug_of_def simp del: js_Cons split: option.splits if_splits)
  moreover have "src = From_execution_context \<longrightarrow> Some (slug_of repository) = map_option slug_of (rc_repository ctx)"
    using repo by (auto split: option.splits if_splits)
  ultimately show ?thesis using u m v unfolding r by auto
qed

text \<open>A platform URL parser on the one URL of the example.\<close>

definition sample_url_of :: "jstr \<Rightarrow> url option" where
  "sample_url_of raw =
     (if raw = js ''https://GH/O/r/pull/12''
      then Some \<lparr>url_protocol = js ''https:'', url_username = [], url_password = [], url_search = [], url_hash = [],
             url_host = js ''gh'', url_pathname = js ''/O/r/pull/12''\<rparr>
      else None)"

definition sample_ref_context :: ref_context where
  "sample_ref_context =
     \<lparr>rc_host = js ''gh'', rc_repository = Some \<lparr>slug_owner = js ''o'', slug_name = js ''r''\<rparr>\<rparr>"

definition sample_ref :: resource_ref where
  "sample_ref = \<lparr>ref_host = js ''gh'', ref_kind = Pull_request_kind, ref_repository = Some (js ''o/r''),
     ref_id = None, ref_number = Some 12, ref_name = None\<rparr>"

lemma sample_ref_read:
  "ref_from_output_url sample_url_of (js ''https://GH/O/r/pull/12'') Pull_request_url sample_ref_context
     From_execution_context = Inr sample_ref"
  by code_simp

theorem ref_from_output_url_safe_witness:
  "ref_repository sample_ref = Some (js ''o/r'') \<and>
   validate_resource_ref (ref_json sample_ref) (Some Pull_request_kind) = Inr sample_ref"
  using ref_from_output_url_safe[OF sample_ref_read] by (simp add: sample_ref_context_def slug_of_def)

end
