(* ===== verification/GhCli_Binding.thy ===== *)
theory GhCli_Binding
  imports GhCli_Ref
begin

text \<open>
  Bindings between the ports of commands (\<open>packages/gh-cli/src/binding.ts\<close>): whether an output
  port fits an input port, and the argument a bound value becomes. Values of ports are taken as
  the JSON they hold at run time, which the code validates again. The details of rejections are
  left out; the details of conditions are kept, since equal conditions are merged by them.
\<close>

section \<open>Ports\<close>

datatype direction = Input_port | Output_port
datatype cardinality = One | Many
datatype result_sensitivity = Public_result | Internal_result | Sensitive_result | Secret_result

datatype condition_code =
    Output_mode | Json_fields_selected | Flag_absent | Same_repository | Repository_from_output
  | Url_matches_context | Explicit_selection | Single_value_as_list | Slot_alternative | Workspace_required

record port_condition =
  cond_code :: condition_code
  cond_detail :: jstr

datatype port_slot = Positional_slot nat jstr jstr | Flag_slot jstr

record port =
  port_id :: jstr
  port_direction :: direction
  port_type :: resource_kind
  port_cardinality :: cardinality
  port_sensitivity :: result_sensitivity
  port_conditions :: "port_condition list"
  port_slot :: "port_slot option"

record endpoint =
  ep_capability :: jstr
  contract_sensitivity :: result_sensitivity
  contract_bindable :: bool
  ep_port :: port

section \<open>Compatibility\<close>

datatype verdict = Direct | Conditional | Incompatible

datatype incompatibility =
    Direction_wrong | Type_mismatch | Secret_source | Secret_target | Source_not_bindable | List_to_list

record compatibility =
  cp_verdict :: verdict
  cp_conditions :: "port_condition list"
  cp_reasons :: "incompatibility list"

definition SELECTION_DETAIL :: jstr where
  "SELECTION_DETAIL =
    [0xbaa9, 0xb85d, 0xc5d0, 0xc11c, 0x20, 0xc6d0, 0xc18c, 0x20, 0xd558, 0xb098, 0xb97c, 0x20, 0x60,
     0x2f, 0x3c, 0x69, 0x6e, 0x64, 0x65, 0x78, 0x3e, 0x60, 0xb85c, 0x20, 0xba85, 0xc2dc, 0xc801, 0xc73c,
     0xb85c, 0x20, 0xace0, 0xb978, 0xb2e4, 0x20, 0x2014, 0x20, 0xccab, 0x20, 0xc6d0, 0xc18c, 0xb97c,
     0x20, 0xc790, 0xb3d9, 0xc73c, 0xb85c, 0x20, 0xace0, 0xb974, 0xc9c0, 0x20, 0xc54a, 0xb294, 0xb2e4]"

definition SINGLE_VALUE_DETAIL :: jstr where
  "SINGLE_VALUE_DETAIL =
    [0xcc38, 0xc870, 0x20, 0xd558, 0xb098, 0xb97c, 0x20, 0xd55c, 0x20, 0xac1c, 0xc9dc, 0xb9ac, 0x20,
     0xbaa9, 0xb85d, 0xc73c, 0xb85c, 0x20, 0xb118, 0xae34, 0xb2e4]"

definition SAME_REPOSITORY_DETAIL :: jstr where
  "SAME_REPOSITORY_DETAIL =
    [0xcc38, 0xc870, 0xc758, 0x20, 0xc800, 0xc7a5, 0xc18c, 0xac00, 0x20, 0xc785, 0xb825, 0x20, 0xcabd,
     0x20, 0xc2e4, 0xd589, 0xc758, 0x20, 0xc800, 0xc7a5, 0xc18c, 0xc640, 0x20, 0xac19, 0xc544, 0xc57c,
     0x20, 0xd55c, 0xb2e4]"

definition push_unique :: "port_condition list \<Rightarrow> port_condition \<Rightarrow> port_condition list" where
  "push_unique target c =
     (if list_ex (\<lambda>one. cond_code one = cond_code c \<and> cond_detail one = cond_detail c) target
      then target else target @ [c])"

definition incompatibilities :: "endpoint \<Rightarrow> endpoint \<Rightarrow> incompatibility list" where
  "incompatibilities source target =
     (if port_direction (ep_port source) \<noteq> Output_port \<or> port_direction (ep_port target) \<noteq> Input_port
      then [Direction_wrong] else []) @
     (if port_type (ep_port source) \<noteq> port_type (ep_port target) then [Type_mismatch] else []) @
     (if contract_sensitivity source = Secret_result \<or> port_sensitivity (ep_port source) = Secret_result
      then [Secret_source] else []) @
     (if port_sensitivity (ep_port target) = Secret_result then [Secret_target] else []) @
     (if \<not> contract_bindable source then [Source_not_bindable] else []) @
     (if port_cardinality (ep_port source) = Many \<and> port_cardinality (ep_port target) = Many
      then [List_to_list] else [])"

definition binding_conditions :: "endpoint \<Rightarrow> endpoint \<Rightarrow> port_condition list" where
  "binding_conditions source target =
     (let s = port_cardinality (ep_port source); t = port_cardinality (ep_port target);
          c1 = foldl push_unique [] (port_conditions (ep_port source));
          c2 = foldl push_unique c1 (port_conditions (ep_port target));
          c3 = (if s = Many \<and> t = One
                then push_unique c2 \<lparr>cond_code = Explicit_selection, cond_detail = SELECTION_DETAIL\<rparr> else c2);
          c4 = (if s = One \<and> t = Many
                then push_unique c3 \<lparr>cond_code = Single_value_as_list, cond_detail = SINGLE_VALUE_DETAIL\<rparr> else c3)
      in if port_type (ep_port target) \<in> REPOSITORY_SCOPED_KINDS \<and>
            \<not> list_ex (\<lambda>c. cond_code c = Same_repository) c4
         then c4 @ [\<lparr>cond_code = Same_repository, cond_detail = SAME_REPOSITORY_DETAIL\<rparr>] else c4)"

definition judge_port_compatibility :: "endpoint \<Rightarrow> endpoint \<Rightarrow> compatibility" where
  "judge_port_compatibility source target =
     (let reasons = incompatibilities source target; conditions = binding_conditions source target in
      \<lparr>cp_verdict = (if reasons \<noteq> [] then Incompatible else if conditions = [] then Direct else Conditional),
       cp_conditions = conditions, cp_reasons = reasons\<rparr>)"

section \<open>Evaluation\<close>

record binding =
  bind_source :: "jstr \<times> jstr"
  bind_target :: "jstr \<times> jstr"
  bind_select :: jstr

datatype port_value = Many_value jstr "json list" | One_value jstr "json option" | Unavailable_value jstr

datatype binding_rejection =
    Endpoint_mismatch | Not_compatible | Value_unavailable | Explicit_selection_required
  | Selection_invalid | Selection_not_a_reference | Null_value | Other_host | No_repository
  | Other_repository | Unsupported_slot

record binding_outcome =
  bo_ref :: resource_ref
  bo_slot :: port_slot
  bo_argument :: jstr
  bo_conditions :: "port_condition list"

fun value_port :: "port_value \<Rightarrow> jstr" where
  "value_port (Many_value p _) = p"
| "value_port (One_value p _) = p"
| "value_port (Unavailable_value p) = p"

fun value_cardinality :: "port_value \<Rightarrow> cardinality option" where
  "value_cardinality (Many_value _ _) = Some Many"
| "value_cardinality (One_value _ _) = Some One"
| "value_cardinality (Unavailable_value _) = None"

definition argument_of :: "resource_ref \<Rightarrow> port_slot \<Rightarrow> jstr option" where
  "argument_of r slot =
     (if ref_kind r \<in> {Pull_request_kind, Issue_kind, Discussion_kind} then map_option show_int (ref_number r)
      else if ref_kind r \<in> {Workflow_run_kind, Workflow_kind, Codespace_kind} then ref_id r
      else if ref_kind r \<in> {Release_kind, Branch_kind, Commit_kind} then ref_name r
      else if ref_kind r = Repository_kind
        then (case slot of Positional_slot _ _ _ \<Rightarrow> ref_repository r | Flag_slot _ \<Rightarrow> None)
      else None)"

definition document_of :: "port_value \<Rightarrow> endpoint \<Rightarrow> jstr \<Rightarrow> (binding_rejection, json) result" where
  "document_of v target select =
     (case v of
        Unavailable_value _ \<Rightarrow> Inl Value_unavailable
      | Many_value _ items \<Rightarrow>
          if port_cardinality (ep_port target) = One \<and> select = [] then Inl Explicit_selection_required
          else Inr (J_array items)
      | One_value _ item \<Rightarrow> (case item of None \<Rightarrow> Inl Null_value | Some j \<Rightarrow> Inr j))"

definition check_target :: "resource_ref \<Rightarrow> ref_context \<Rightarrow> binding_rejection option" where
  "check_target r ctx =
     (if to_lower (ref_host r) \<noteq> to_lower (rc_host ctx) then Some Other_host
      else if ref_kind r \<in> REPOSITORY_SCOPED_KINDS
      then (case rc_repository ctx of
              None \<Rightarrow> Some No_repository
            | Some slug \<Rightarrow>
                if map_option to_lower (ref_repository r) \<noteq> Some (to_lower (slug_of slug))
                then Some Other_repository else None)
      else None)"

definition evaluate_binding ::
    "binding \<Rightarrow> endpoint \<Rightarrow> endpoint \<Rightarrow> port_value \<Rightarrow> ref_context \<Rightarrow> (binding_rejection, binding_outcome) result" where
  "evaluate_binding b source target v ctx =
     (let compat = judge_port_compatibility source target in
      if bind_source b \<noteq> (ep_capability source, port_id (ep_port source)) \<or>
         bind_target b \<noteq> (ep_capability target, port_id (ep_port target)) \<or>
         value_port v \<noteq> port_id (ep_port source)
      then Inl Endpoint_mismatch
      else if value_cardinality v \<noteq> None \<and> value_cardinality v \<noteq> Some (port_cardinality (ep_port source))
      then Inl Endpoint_mismatch
      else if cp_verdict compat = Incompatible then Inl Not_compatible
      else
        bind_result (document_of v target (bind_select b)) (\<lambda>document.
          case evaluate_json_pointer document (bind_select b) of
            Inl _ \<Rightarrow> Inl Selection_invalid
          | Inr selected \<Rightarrow>
              (case validate_resource_ref selected (Some (port_type (ep_port target))) of
                 Inl _ \<Rightarrow> Inl Selection_not_a_reference
               | Inr r \<Rightarrow>
                   (case check_target r ctx of
                      Some e \<Rightarrow> Inl e
                    | None \<Rightarrow>
                        (case port_slot (ep_port target) of
                           None \<Rightarrow> Inl Unsupported_slot
                         | Some slot \<Rightarrow>
                             (case argument_of r slot of
                                None \<Rightarrow> Inl Unsupported_slot
                              | Some arg \<Rightarrow>
                                  Inr \<lparr>bo_ref = r, bo_slot = slot, bo_argument = arg,
                                       bo_conditions = cp_conditions compat\<rparr>))))))"

section \<open>What a binding passes on\<close>

text \<open>
  An argument that a command takes as one word and never as a flag. Characters that a shell would
  read are not excluded: the arguments are passed to the process as a list, without a shell.
\<close>

definition plain_argument :: "jstr \<Rightarrow> bool" where
  "plain_argument s \<longleftrightarrow> s \<noteq> [] \<and> hd s \<noteq> ch CHR ''-'' \<and> list_all (\<lambda>c. \<not> is_control c \<and> \<not> is_space c) s"

lemma digit_plain: "is_digit c \<Longrightarrow> \<not> is_control c \<and> \<not> is_space c \<and> c \<noteq> ch CHR ''-''"
  unfolding is_digit_def is_control_def is_space_def ch_def by unat_arith

lemma hex_plain: "is_hex_lower c \<Longrightarrow> \<not> is_control c \<and> \<not> is_space c \<and> c \<noteq> ch CHR ''-''"
  unfolding is_digit_def is_hex_lower_def is_control_def is_space_def ch_def by unat_arith

lemma slug_plain:
  "slug_unit c \<Longrightarrow> \<not> is_control c \<and> \<not> is_space c"
  "slug_head_unit c \<Longrightarrow> c \<noteq> ch CHR ''-''"
  unfolding slug_unit_def slug_head_unit_def is_letter_def is_upper_def is_lower_def is_digit_def is_control_def
    is_space_def ch_def by unat_arith+

lemma digits_plain: "all_digits s \<Longrightarrow> plain_argument s"
  using digit_plain by (cases s) (auto simp: all_digits_def plain_argument_def list_all_iff)

lemma slug_argument:
  assumes "parse_repository_slug (Some (J_string s)) = Some slug"
  shows "plain_argument s"
proof -
  have "SLUG_PART (slug_owner slug)" "SLUG_PART (slug_name slug)" using slug_parts[OF assms] by auto
  then obtain c cs d ds where o: "slug_owner slug = c # cs" "slug_head_unit c" "list_all slug_unit cs"
    and n: "slug_name slug = d # ds" "slug_head_unit d" "list_all slug_unit ds"
    by (auto simp: SLUG_PART_def split: list.splits)
  have head: "slug_unit x" if "slug_head_unit x" for x using that by (simp add: slug_unit_def)
  have "list_all slug_unit (c # cs)" "list_all slug_unit (d # ds)" using o n head by auto
  moreover have "\<not> is_control (ch CHR ''/'') \<and> \<not> is_space (ch CHR ''/'')" by code_simp
  ultimately show ?thesis unfolding parsed_slug_of[OF assms, symmetric]
    using o(1,2) n(1) slug_plain by (auto simp: plain_argument_def slug_of_def list_all_iff)
qed

lemma safe_name_argument: "is_safe_name (J_string s) \<Longrightarrow> plain_argument s"
  by (cases s) (auto simp: is_safe_name_def plain_argument_def is_control_def list_all_iff word_le_nat_alt)

lemma identity_argument:
  assumes "identity_problem (ref_kind r) (text_json (ref_id r)) (int_json (ref_number r)) (text_json (ref_name r)) = None"
    and "\<not> repository_problem_of (ref_kind r) (text_json (ref_repository r))"
    and "argument_of r slot = Some s"
  shows "plain_argument s"
proof -
  consider n where "0 < n" "s = show_int n" | "POSITIVE_DECIMAL s" | "is_safe_name (J_string s)" | "COMMIT_SHA s"
    | "ref_kind r = Repository_kind" "ref_repository r = Some s"
    using assms(1,3)
    by (cases "ref_kind r")
      (auto simp: identity_problem_def argument_of_def text_json_def int_json_def Let_def
        split: if_splits option.splits port_slot.splits)
  then show ?thesis
  proof cases
    case 1
    then show ?thesis by (simp add: show_int_def digits_plain)
  next
    case 2
    then show ?thesis by (simp add: POSITIVE_DECIMAL_def digits_plain)
  next
    case 3
    then show ?thesis by (rule safe_name_argument)
  next
    case 4
    then show ?thesis using hex_plain by (cases s) (auto simp: COMMIT_SHA_def plain_argument_def list_all_iff)
  next
    case 5
    with assms(2) obtain slug where "parse_repository_slug (Some (J_string s)) = Some slug"
      by (auto simp: repository_problem_of_def text_json_def)
    then show ?thesis by (rule slug_argument)
  qed
qed

lemma evaluate_binding_parts:
  assumes "evaluate_binding b source target v ctx = Inr out"
  obtains document selected where "incompatibilities source target = []"
    "document_of v target (bind_select b) = Inr document"
    "evaluate_json_pointer document (bind_select b) = Inr selected"
    "validate_resource_ref selected (Some (port_type (ep_port target))) = Inr (bo_ref out)"
    "check_target (bo_ref out) ctx = None"
    "port_slot (ep_port target) = Some (bo_slot out)"
    "argument_of (bo_ref out) (bo_slot out) = Some (bo_argument out)"
    "bo_conditions out = binding_conditions source target"
  using assms
  by (auto simp: evaluate_binding_def judge_port_compatibility_def Let_def split: if_splits sum.splits option.splits)

text \<open>The output of the first command: the whole list, or the value.\<close>

fun output_of :: "port_value \<Rightarrow> json option" where
  "output_of (Many_value _ items) = Some (J_array items)"
| "output_of (One_value _ item) = item"
| "output_of (Unavailable_value _) = None"

lemma document_of_output: "document_of v target select = Inr document \<Longrightarrow> output_of v = Some document"
  by (cases v) (auto simp: document_of_def split: if_splits option.splits)

lemma argument_of_reference:
  assumes "argument_of r slot = Some arg"
  shows "Some arg =
    (if ref_kind r \<in> {Pull_request_kind, Issue_kind, Discussion_kind} then map_option show_int (ref_number r)
     else if ref_kind r \<in> {Workflow_run_kind, Workflow_kind, Codespace_kind} then ref_id r
     else if ref_kind r \<in> {Release_kind, Branch_kind, Commit_kind} then ref_name r
     else ref_repository r)"
  using assms by (auto simp: argument_of_def split: if_splits port_slot.splits)

text \<open>C40: A result that is bound to the next command's port is safe to pass on: the definition allows
  its binding and declares neither side secret, the kinds of both ports agree, the reference
  is the one that the pointer of the binding selects in the output, member by member, it
  belongs to the configured host and, for a kind that lives in a repository, to the run's
  repository (with the condition recorded), and the argument is the number, id, name or
  repository of the reference its kind is known by, does not begin with a minus sign and has
  no blank and no control character. Characters that only a shell would read are not excluded.\<close>

theorem evaluate_binding_safe:
  assumes "evaluate_binding b source target v ctx = Inr out"
  shows "contract_bindable source \<and> contract_sensitivity source \<noteq> Secret_result \<and>
    port_sensitivity (ep_port source) \<noteq> Secret_result \<and> port_sensitivity (ep_port target) \<noteq> Secret_result \<and>
    ref_kind (bo_ref out) = port_type (ep_port target) \<and> port_type (ep_port source) = port_type (ep_port target) \<and>
    (\<exists>document ms. output_of v = Some document \<and> evaluate_json_pointer document (bind_select b) = Inr (J_object ms) \<and>
       member ms (js ''host'') = Some (J_string (ref_host (bo_ref out))) \<and>
       member ms (js ''kind'') = Some (J_string (kind_name (ref_kind (bo_ref out)))) \<and>
       member ms (js ''repository'') = Some (text_json (ref_repository (bo_ref out))) \<and>
       member ms (js ''id'') = Some (text_json (ref_id (bo_ref out))) \<and>
       member ms (js ''number'') = Some (int_json (ref_number (bo_ref out))) \<and>
       member ms (js ''ref'') = Some (text_json (ref_name (bo_ref out)))) \<and>
    to_lower (ref_host (bo_ref out)) = to_lower (rc_host ctx) \<and>
    (ref_kind (bo_ref out) \<in> REPOSITORY_SCOPED_KINDS \<longrightarrow>
       map_option to_lower (ref_repository (bo_ref out)) = map_option (\<lambda>g. to_lower (slug_of g)) (rc_repository ctx) \<and>
       (\<exists>c \<in> set (bo_conditions out). cond_code c = Same_repository)) \<and>
    Some (bo_argument out) =
      (if ref_kind (bo_ref out) \<in> {Pull_request_kind, Issue_kind, Discussion_kind}
       then map_option show_int (ref_number (bo_ref out))
       else if ref_kind (bo_ref out) \<in> {Workflow_run_kind, Workflow_kind, Codespace_kind} then ref_id (bo_ref out)
       else if ref_kind (bo_ref out) \<in> {Release_kind, Branch_kind, Commit_kind} then ref_name (bo_ref out)
       else ref_repository (bo_ref out)) \<and>
    bo_argument out \<noteq> [] \<and> hd (bo_argument out) \<noteq> ch CHR ''-'' \<and>
    list_all (\<lambda>c. \<not> is_control c \<and> \<not> is_space c) (bo_argument out)"
proof -
  obtain document selected where ok: "incompatibilities source target = []"
    and d: "document_of v target (bind_select b) = Inr document" "evaluate_json_pointer document (bind_select b) = Inr selected"
    and v: "validate_resource_ref selected (Some (port_type (ep_port target))) = Inr (bo_ref out)"
    and t: "check_target (bo_ref out) ctx = None"
    and arg: "argument_of (bo_ref out) (bo_slot out) = Some (bo_argument out)"
    and conds: "bo_conditions out = binding_conditions source target"
    using evaluate_binding_parts[OF assms] by blast
  note r = validate_InrD[OF v]
  from r arg have "plain_argument (bo_argument out)" using identity_argument by blast
  then have plain: "bo_argument out \<noteq> [] \<and> hd (bo_argument out) \<noteq> ch CHR ''-'' \<and>
      list_all (\<lambda>c. \<not> is_control c \<and> \<not> is_space c) (bo_argument out)" by (simp add: plain_argument_def)
  have same: "port_type (ep_port target) \<in> REPOSITORY_SCOPED_KINDS \<Longrightarrow>
      \<exists>c \<in> set (bo_conditions out). cond_code c = Same_repository"
    unfolding conds by (auto simp: binding_conditions_def Let_def list_ex_iff)
  have repository: "map_option to_lower (ref_repository (bo_ref out)) = map_option (\<lambda>g. to_lower (slug_of g)) (rc_repository ctx)"
    if "ref_kind (bo_ref out) \<in> REPOSITORY_SCOPED_KINDS"
    using t that by (auto simp: check_target_def split: if_splits option.splits)
  have host: "to_lower (ref_host (bo_ref out)) = to_lower (rc_host ctx)"
    using t by (auto simp: check_target_def split: if_splits)
  have contract: "contract_bindable source" "contract_sensitivity source \<noteq> Secret_result"
    "port_sensitivity (ep_port source) \<noteq> Secret_result" "port_sensitivity (ep_port target) \<noteq> Secret_result"
    "ref_kind (bo_ref out) = port_type (ep_port target)" "port_type (ep_port source) = port_type (ep_port target)"
    using ok r by (auto simp: incompatibilities_def split: if_splits)
  from validate_object[OF v] d(2) document_of_output[OF d(1)] have read: "\<exists>document ms. output_of v = Some document \<and>
      evaluate_json_pointer document (bind_select b) = Inr (J_object ms) \<and>
       member ms (js ''host'') = Some (J_string (ref_host (bo_ref out))) \<and>
       member ms (js ''kind'') = Some (J_string (kind_name (ref_kind (bo_ref out)))) \<and>
       member ms (js ''repository'') = Some (text_json (ref_repository (bo_ref out))) \<and>
       member ms (js ''id'') = Some (text_json (ref_id (bo_ref out))) \<and>
       member ms (js ''number'') = Some (int_json (ref_number (bo_ref out))) \<and>
       member ms (js ''ref'') = Some (text_json (ref_name (bo_ref out)))" by blast
  show ?thesis
    using plain contract read host same[folded contract(5)] repository argument_of_reference[OF arg]
    by (intro conjI impI) blast+
qed

definition sample_port :: "direction \<Rightarrow> cardinality \<Rightarrow> port" where
  "sample_port d c = \<lparr>port_id = js ''pr'', port_direction = d, port_type = Pull_request_kind, port_cardinality = c,
     port_sensitivity = Public_result, port_conditions = [],
     port_slot = (if d = Input_port then Some (Positional_slot 0 (js ''number'') (js ''number'')) else None)\<rparr>"

definition sample_endpoint :: "jstr \<Rightarrow> direction \<Rightarrow> cardinality \<Rightarrow> endpoint" where
  "sample_endpoint name d c = \<lparr>ep_capability = name, contract_sensitivity = Internal_result,
     contract_bindable = True, ep_port = sample_port d c\<rparr>"

definition sample_binding :: binding where
  "sample_binding = \<lparr>bind_source = (js ''pr.list'', js ''pr''), bind_target = (js ''pr.view'', js ''pr''),
     bind_select = js ''/0''\<rparr>"

definition sample_value :: port_value where
  "sample_value = Many_value (js ''pr'') [ref_json sample_ref]"

definition sample_bound :: binding_outcome where
  "sample_bound = \<lparr>bo_ref = sample_ref, bo_slot = Positional_slot 0 (js ''number'') (js ''number''),
     bo_argument = js ''12'',
     bo_conditions = [\<lparr>cond_code = Explicit_selection, cond_detail = SELECTION_DETAIL\<rparr>,
       \<lparr>cond_code = Same_repository, cond_detail = SAME_REPOSITORY_DETAIL\<rparr>]\<rparr>"

lemma sample_binds:
  "evaluate_binding sample_binding (sample_endpoint (js ''pr.list'') Output_port Many)
     (sample_endpoint (js ''pr.view'') Input_port One) sample_value sample_ref_context = Inr sample_bound"
  by code_simp

theorem evaluate_binding_safe_witness:
  "hd (bo_argument sample_bound) \<noteq> ch CHR ''-'' \<and> to_lower (ref_host (bo_ref sample_bound)) = to_lower (rc_host sample_ref_context)"
  using evaluate_binding_safe[OF sample_binds] by blast

end
