(* ===== verification/Bus_Topics.thy ===== *)
theory Bus_Topics
  imports JSON_Value Complex_Main
begin

text \<open>
  The parts of the event bus that every adapter shares: topics, their partition counts and
  consumer groups (\<open>packages/bus/src/topics.ts\<close>), the partition of a key
  (\<open>partition.ts\<close>) and the delay before a retry (\<open>backoff.ts\<close>). The bit operations of the hash
  are those of JavaScript on 32 bits. Delays are computed exactly, where the code uses doubles.
\<close>

section \<open>Topics\<close>

definition PARTITION_COUNTS :: "(jstr \<times> nat) list" where
  "PARTITION_COUNTS =
     [(js ''prs:ingest'', 16), (js ''prs:enriched'', 16), (js ''prs:projected'', 8), (js ''prs:sequence'', 8),
      (js ''prs:release'', 4), (js ''prs:batch'', 3), (js ''prs:permission'', 4), (js ''prs:gh:executions'', 4)]"

definition CONSUMER_GROUPS :: "(jstr \<times> jstr) list" where
  "CONSUMER_GROUPS =
     [(js ''prs:ingest'', js ''enrich''), (js ''prs:enriched'', js ''project''), (js ''prs:projected'', js ''link''),
      (js ''prs:sequence'', js ''sequence''), (js ''prs:release'', js ''release''), (js ''prs:batch'', js ''batch''),
      (js ''prs:permission'', js ''authz''), (js ''prs:gh:executions'', js ''gh-executor'')]"

definition LOGICAL_CONSUMERS :: "(jstr \<times> jstr list) list" where
  "LOGICAL_CONSUMERS =
     [(js ''prs:ingest'', [js ''enrich'']), (js ''prs:enriched'', [js ''project'']),
      (js ''prs:projected'', [js ''link'', js ''commit-enrich'', js ''mnumber'', js ''annotate'']),
      (js ''prs:sequence'', [js ''sequence'']), (js ''prs:release'', [js ''release'']),
      (js ''prs:batch'', [js ''batch'']), (js ''prs:permission'', [js ''authz'']),
      (js ''prs:gh:executions'', [js ''gh-executor''])]"

definition is_known_topic :: "jstr \<Rightarrow> bool" where
  "is_known_topic topic \<longleftrightarrow> map_of PARTITION_COUNTS topic \<noteq> None"

datatype bus_error =
    Bad_partition_count | Unknown_topic | Unknown_consumer | Empty_partition_key | Partition_out_of_range

text \<open>The overrides are numbers, integers or not.\<close>

definition partition_count :: "jstr \<Rightarrow> (jstr \<Rightarrow> json option) \<Rightarrow> (bus_error, nat) result" where
  "partition_count topic overrides =
     (case overrides topic of
        Some v \<Rightarrow>
          (case v of
             J_int n \<Rightarrow> if n < 1 then Inl Bad_partition_count else Inr (nat n)
           | _ \<Rightarrow> Inl Bad_partition_count)
      | None \<Rightarrow>
          (case map_of PARTITION_COUNTS topic of None \<Rightarrow> Inl Unknown_topic | Some n \<Rightarrow> Inr n))"

definition consumer_group :: "jstr \<Rightarrow> jstr option \<Rightarrow> (bus_error, jstr) result" where
  "consumer_group topic consumer =
     (if \<not> is_known_topic topic then Inl Unknown_topic
      else
        (let base = the (map_of CONSUMER_GROUPS topic) in
         case consumer of
           None \<Rightarrow> Inr base
         | Some c \<Rightarrow>
             if c = base then Inr base
             else if c \<notin> set (the (map_of LOGICAL_CONSUMERS topic)) then Inl Unknown_consumer
             else Inr (base @ js '':'' @ c)))"

definition partition_stream :: "jstr \<Rightarrow> int \<Rightarrow> jstr" where
  "partition_stream topic k = topic @ js '':'' @ show_int k"

section \<open>Partitions\<close>

definition hash_step :: "32 word \<Rightarrow> unit16 \<Rightarrow> 32 word" where
  "hash_step hash c =
     (let h = xor hash (ucast c) in
      h + push_bit 1 h + push_bit 4 h + push_bit 7 h + push_bit 8 h + push_bit 24 h)"

definition hash_partition_key :: "jstr \<Rightarrow> 32 word" where
  "hash_partition_key key = foldl hash_step 0x811C9DC5 key"

definition partition_for :: "jstr \<Rightarrow> int \<Rightarrow> (bus_error, nat) result" where
  "partition_for key count =
     (if count < 1 then Inl Bad_partition_count
      else if key = [] then Inl Empty_partition_key
      else Inr (unat (hash_partition_key key) mod nat count))"

definition all_partitions :: "nat \<Rightarrow> int list" where
  "all_partitions count = map int [0..<count]"

text \<open>The shifts multiply by the 32-bit prime of FNV-1a.\<close>

definition fnv_prime :: "32 word" where
  "fnv_prime = 16777619"

lemma hash_step_fnv: "hash_step hash c = xor hash (ucast c) * fnv_prime"
  by (simp add: hash_step_def Let_def push_bit_eq_mult fnv_prime_def algebra_simps)

lemma hash_is_fnv1a:
  "hash_partition_key key = foldl (\<lambda>h c. xor h (ucast c) * fnv_prime) 0x811C9DC5 key"
  unfolding hash_partition_key_def hash_step_fnv[abs_def] ..

lemma partition_for_less: "partition_for key count = Inr p \<Longrightarrow> int p < count"
  using mod_less_divisor[of "nat count" "unat (hash_partition_key key)"]
  by (auto simp: partition_for_def simp del: mod_less_divisor split: if_splits)

lemma partition_for_total: "0 < count \<Longrightarrow> key \<noteq> [] \<Longrightarrow> \<exists>p. partition_for key count = Inr p"
  by (simp add: partition_for_def)

lemma known_topic_count: "is_known_topic topic \<Longrightarrow> \<exists>n > 0. partition_count topic (\<lambda>_. None) = Inr n"
  by (auto simp: is_known_topic_def partition_count_def PARTITION_COUNTS_def split: if_splits)

section \<open>Delays\<close>

definition RETRY_DELAYS_MS :: "rat list" where
  "RETRY_DELAYS_MS = [1000, 2000, 4000, 8000, 16000]"

definition MAX_RETRIES :: nat where
  "MAX_RETRIES = length RETRY_DELAYS_MS"

definition JITTER_RATIO :: rat where
  "JITTER_RATIO = 1 / 5"

definition base_delay :: "int \<Rightarrow> rat" where
  "base_delay attempt = RETRY_DELAYS_MS ! nat (max 0 (min attempt (int MAX_RETRIES) - 1))"

text \<open>\<open>Math.round\<close>; the random number is drawn from \<open>0 \<le> r < 1\<close>.\<close>

definition retry_delay_ms :: "int \<Rightarrow> rat \<Rightarrow> int" where
  "retry_delay_ms attempt r = \<lfloor>base_delay attempt * (1 + (r * 2 - 1) * JITTER_RATIO) + 1 / 2\<rfloor>"

lemma base_delay_bounds: "1000 \<le> base_delay attempt \<and> base_delay attempt \<le> 16000"
proof -
  have "nat (max 0 (min attempt (int MAX_RETRIES) - 1)) \<in> {0, 1, 2, 3, 4}"
    by (auto simp: MAX_RETRIES_def RETRY_DELAYS_MS_def)
  then show ?thesis by (auto simp: base_delay_def RETRY_DELAYS_MS_def)
qed

lemma retry_delay_bounds:
  assumes "0 \<le> r" "r < 1"
  shows "800 \<le> retry_delay_ms attempt r \<and> retry_delay_ms attempt r \<le> 19200"
proof -
  define b where "b = base_delay attempt"
  define f where "f = 1 + (r * 2 - 1) * JITTER_RATIO"
  have "f = 4 / 5 + r * (2 / 5)" by (simp add: f_def JITTER_RATIO_def algebra_simps)
  then have f: "4 / 5 \<le> f" "f \<le> 6 / 5" using assms by auto
  have b: "1000 \<le> b" "b \<le> 16000" using base_delay_bounds by (auto simp: b_def)
  have "1000 * (4 / 5) \<le> b * f" using b f by (intro mult_mono) auto
  moreover have "b * f \<le> 16000 * (6 / 5)" using b f by (intro mult_mono) auto
  ultimately show ?thesis
    unfolding retry_delay_ms_def b_def[symmetric] f_def[symmetric] by (simp add: le_floor_iff floor_le_iff)
qed

lemma retry_delay_pos: "0 \<le> r \<Longrightarrow> r < 1 \<Longrightarrow> 0 < retry_delay_ms attempt r"
  using retry_delay_bounds[of r attempt] by simp

end
