(* ===== verification/Bus_Memory.thy ===== *)
theory Bus_Memory
  imports Bus_Topics
begin

text \<open>
  The in-memory event bus (\<open>packages/bus/src/in-memory.ts\<close>). A message is one object that every
  group's queue refers to, so its mutable fields, the retries and the time of the next attempt,
  live in a store under the message's sequence number. A subscription runs one loop: it takes the
  next message of one of its partitions, waits for the handler, and settles the message; loops of
  different subscriptions interleave at the wait.
\<close>

section \<open>State\<close>

record message =
  msg_envelope :: json
  msg_key :: jstr
  msg_partition :: nat
  msg_seq :: nat

record attempt =
  retries :: nat
  next_attempt :: int

record group_cursor =
  backlog :: "message list"
  pending :: "message list"

record bus =
  groups :: "jstr \<times> nat \<Rightarrow> (jstr \<times> group_cursor) list"
  attempts :: "nat \<Rightarrow> attempt"
  bus_sequence :: nat

definition UNCLAIMED :: jstr where
  "UNCLAIMED = js ''__unclaimed__''"

definition empty_cursor :: group_cursor where
  "empty_cursor = \<lparr>backlog = [], pending = []\<rparr>"

definition new_bus :: bus where
  "new_bus = \<lparr>groups = (\<lambda>_. []), attempts = (\<lambda>_. \<lparr>retries = 0, next_attempt = 0\<rparr>), bus_sequence = 0\<rparr>"

section \<open>Operations\<close>

definition depth :: "(jstr \<Rightarrow> json option) \<Rightarrow> jstr \<Rightarrow> bus \<Rightarrow> (bus_error, nat) result" where
  "depth overrides topic b =
     bind_result (partition_count topic overrides) (\<lambda>count.
       let group = map_of CONSUMER_GROUPS topic;
           counted = (\<lambda>(name, c). group = None \<or> name = the group \<or> name = UNCLAIMED)
       in Inr (sum_list (map (\<lambda>k. sum_list (map (\<lambda>(name, c). length (backlog c) + length (pending c))
                 (filter counted (groups b (topic, k))))) [0..<count])))"

definition new_message ::
    "(jstr \<Rightarrow> json option) \<Rightarrow> jstr \<Rightarrow> jstr \<Rightarrow> json \<Rightarrow> bus \<Rightarrow> (bus_error, message) result" where
  "new_message overrides topic key env b =
     bind_result (partition_count topic overrides) (\<lambda>count.
       bind_result (partition_for key (int count)) (\<lambda>k.
         Inr \<lparr>msg_envelope = env, msg_key = key, msg_partition = k, msg_seq = Suc (bus_sequence b)\<rparr>))"

definition push_all :: "message \<Rightarrow> (jstr \<times> group_cursor) list \<Rightarrow> (jstr \<times> group_cursor) list" where
  "push_all m gs =
     (if gs = [] then [(UNCLAIMED, \<lparr>backlog = [m], pending = []\<rparr>)]
      else map (\<lambda>(g, c). (g, c\<lparr>backlog := backlog c @ [m]\<rparr>)) gs)"

definition publish ::
    "(jstr \<Rightarrow> json option) \<Rightarrow> jstr \<Rightarrow> jstr \<Rightarrow> json \<Rightarrow> bus \<Rightarrow> (bus_error, bus) result" where
  "publish overrides topic key env b =
     bind_result (new_message overrides topic key env b) (\<lambda>m.
       Inr (b\<lparr>groups := (groups b)((topic, msg_partition m) := push_all m (groups b (topic, msg_partition m))),
              attempts := (attempts b)(msg_seq m := \<lparr>retries = 0, next_attempt = 0\<rparr>),
              bus_sequence := msg_seq m\<rparr>))"

definition on_group :: "jstr \<Rightarrow> (group_cursor \<Rightarrow> group_cursor) \<Rightarrow> (jstr \<times> group_cursor) list \<Rightarrow>
    (jstr \<times> group_cursor) list" where
  "on_group g f gs = map (\<lambda>(h, c). (h, if h = g then f c else c)) gs"

definition claim :: "jstr \<Rightarrow> (jstr \<times> group_cursor) list \<Rightarrow> (jstr \<times> group_cursor) list" where
  "claim g gs =
     (let gs1 = (if g \<in> fst ` set gs then gs else gs @ [(g, empty_cursor)]) in
      case map_of gs UNCLAIMED of
        None \<Rightarrow> gs1
      | Some u \<Rightarrow> filter (\<lambda>(h, c). h \<noteq> UNCLAIMED) (on_group g (\<lambda>c. c\<lparr>backlog := backlog c @ backlog u\<rparr>) gs1))"

fun claim_partitions :: "jstr \<Rightarrow> jstr \<Rightarrow> nat \<Rightarrow> int list \<Rightarrow> bus \<Rightarrow> bus \<times> bus_error option" where
  "claim_partitions topic g count [] b = (b, None)"
| "claim_partitions topic g count (k # ks) b =
     (if k < 0 \<or> k \<ge> int count then (b, Some Partition_out_of_range)
      else claim_partitions topic g count ks
             (b\<lparr>groups := (groups b)((topic, nat k) := claim g (groups b (topic, nat k)))\<rparr>))"

type_synonym place = "jstr \<times> nat \<times> jstr"

text \<open>The bus afterwards, also when a partition is rejected, and the cursors subscribed to.\<close>

definition subscribe ::
    "(jstr \<Rightarrow> json option) \<Rightarrow> jstr \<Rightarrow> jstr \<Rightarrow> int list option \<Rightarrow> bus \<Rightarrow> bus \<times> (bus_error, place list) result" where
  "subscribe overrides topic g ks b =
     (case partition_count topic overrides of
        Inl e \<Rightarrow> (b, Inl e)
      | Inr count \<Rightarrow>
          (let chosen = (case ks of None \<Rightarrow> all_partitions count | Some ks \<Rightarrow> ks) in
           case claim_partitions topic g count chosen b of
             (b', Some e) \<Rightarrow> (b', Inl e)
           | (b', None) \<Rightarrow> (b', Inr (map (\<lambda>k. (topic, nat k, g)) chosen))))"

definition cursor_of :: "bus \<Rightarrow> place \<Rightarrow> group_cursor option" where
  "cursor_of b = (\<lambda>(topic, k, g). map_of (groups b (topic, k)) g)"

definition on_cursor :: "place \<Rightarrow> (group_cursor \<Rightarrow> group_cursor) \<Rightarrow> bus \<Rightarrow> bus" where
  "on_cursor = (\<lambda>(topic, k, g) f b. b\<lparr>groups := (groups b)((topic, k) := on_group g f (groups b (topic, k)))\<rparr>)"

definition take_message :: "int \<Rightarrow> (nat \<Rightarrow> attempt) \<Rightarrow> group_cursor \<Rightarrow> (message \<times> group_cursor) option" where
  "take_message now ats c =
     (case pending c of
        m # _ \<Rightarrow> if now < next_attempt (ats (msg_seq m)) then None else Some (m, c)
      | [] \<Rightarrow>
          (case backlog c of
             [] \<Rightarrow> None
           | m # ms \<Rightarrow> Some (m, c\<lparr>backlog := ms, pending := pending c @ [m]\<rparr>)))"

definition delivery_count :: "bus \<Rightarrow> message \<Rightarrow> nat" where
  "delivery_count b m = retries (attempts b (msg_seq m)) + 1"

datatype disposition = Ack | Retry | Defer int | Dead_letter

datatype handler_outcome = Returned "disposition option" | Threw

fun disposition_of :: "handler_outcome \<Rightarrow> disposition" where
  "disposition_of (Returned (Some d)) = d"
| "disposition_of (Returned None) = Ack"
| "disposition_of Threw = Retry"

fun settle :: "disposition \<Rightarrow> int \<Rightarrow> rat \<Rightarrow> message \<Rightarrow> place \<Rightarrow> bus \<Rightarrow> bus" where
  "settle Ack now r m pl b = on_cursor pl (\<lambda>c. c\<lparr>pending := tl (pending c)\<rparr>) b"
| "settle Dead_letter now r m pl b = on_cursor pl (\<lambda>c. c\<lparr>pending := tl (pending c)\<rparr>) b"
| "settle (Defer until) now r m pl b =
     b\<lparr>attempts := (attempts b)(msg_seq m := (attempts b (msg_seq m))\<lparr>next_attempt := until\<rparr>)\<rparr>"
| "settle Retry now r m pl b =
     (let n = Suc (retries (attempts b (msg_seq m))) in
      b\<lparr>attempts := (attempts b)(msg_seq m :=
          \<lparr>retries = n, next_attempt = now + retry_delay_ms (int n) r\<rparr>)\<rparr>)"

section \<open>Runs\<close>

text \<open>
  A configuration: the bus, the subscriptions with the message each is handling, and two
  histories, of what was published and of what each group finished.
\<close>

record config =
  bus_of :: bus
  subs :: "nat \<Rightarrow> place set"
  in_hand :: "nat \<Rightarrow> (place \<times> message) option"
  published :: "(jstr \<times> message) list"
  finished :: "place \<Rightarrow> message list"

definition init_config :: config where
  "init_config = \<lparr>bus_of = new_bus, subs = (\<lambda>_. {}), in_hand = (\<lambda>_. None), published = [], finished = (\<lambda>_. [])\<rparr>"

fun is_final :: "disposition \<Rightarrow> bool" where
  "is_final Ack = True"
| "is_final Dead_letter = True"
| "is_final _ = False"

inductive bus_step :: "(jstr \<Rightarrow> json option) \<Rightarrow> config \<Rightarrow> config \<Rightarrow> bool" for overrides where
  publishes: "new_message overrides topic key env (bus_of c) = Inr m \<Longrightarrow>
     publish overrides topic key env (bus_of c) = Inr b \<Longrightarrow>
     bus_step overrides c (c\<lparr>bus_of := b, published := published c @ [(topic, m)]\<rparr>)"
| subscribes: "g \<noteq> UNCLAIMED \<Longrightarrow> subs c n = {} \<Longrightarrow> in_hand c n = None \<Longrightarrow>
     subscribe overrides topic g ks (bus_of c) = (b, Inr places) \<Longrightarrow>
     bus_step overrides c (c\<lparr>bus_of := b, subs := (subs c)(n := set places)\<rparr>)"
| subscription_fails: "g \<noteq> UNCLAIMED \<Longrightarrow> subscribe overrides topic g ks (bus_of c) = (b, Inl e) \<Longrightarrow>
     bus_step overrides c (c\<lparr>bus_of := b\<rparr>)"
| takes: "pl \<in> subs c n \<Longrightarrow> in_hand c n = None \<Longrightarrow> cursor_of (bus_of c) pl = Some cur \<Longrightarrow>
     take_message now (attempts (bus_of c)) cur = Some (m, cur') \<Longrightarrow>
     bus_step overrides c
       (c\<lparr>bus_of := on_cursor pl (\<lambda>_. cur') (bus_of c), in_hand := (in_hand c)(n := Some (pl, m))\<rparr>)"
| settles: "in_hand c n = Some (pl, m) \<Longrightarrow> 0 \<le> r \<Longrightarrow> r < 1 \<Longrightarrow> d = disposition_of out \<Longrightarrow>
     bus_step overrides c
       (c\<lparr>bus_of := settle d now r m pl (bus_of c), in_hand := (in_hand c)(n := None),
          finished := (if is_final d then (finished c)(pl := finished c pl @ [m]) else finished c)\<rparr>)"
| closes: "in_hand c n = None \<Longrightarrow> bus_step overrides c (c\<lparr>subs := (subs c)(n := {})\<rparr>)"

inductive_cases bus_stepE: "bus_step overrides c c'"

text \<open>No partition of a group is subscribed to twice at a time, as the bus's contract asks.\<close>

definition exclusive :: "config \<Rightarrow> bool" where
  "exclusive c \<longleftrightarrow> (\<forall>n m. n \<noteq> m \<longrightarrow> subs c n \<inter> subs c m = {})"

definition on_partition :: "jstr \<Rightarrow> nat \<Rightarrow> (jstr \<times> message) list \<Rightarrow> message list" where
  "on_partition topic k ps = map snd (filter (\<lambda>(t, m). t = topic \<and> msg_partition m = k) ps)"

section \<open>Order and loss\<close>

text \<open>
  The queues of one partition: what a group finished, holds and waits for is the end of what was
  published there, from the moment the group appeared; for the first group it is all of it.
\<close>

definition entry_ok :: "message list \<Rightarrow> message list \<Rightarrow> group_cursor \<Rightarrow> bool" where
  "entry_ok ps done c \<longleftrightarrow> length (pending c) \<le> 1 \<and> (\<exists>xs. ps = xs @ done @ pending c @ backlog c)"

definition queues_ok :: "(jstr \<times> group_cursor) list \<Rightarrow> message list \<Rightarrow> (jstr \<Rightarrow> message list) \<Rightarrow> bool" where
  "queues_ok gs ps fin \<longleftrightarrow>
     distinct (map fst gs) \<and> (gs = [] \<longrightarrow> ps = []) \<and> (\<forall>g c. (g, c) \<in> set gs \<longrightarrow> entry_ok ps (fin g) c) \<and>
     (\<forall>g c gs'. gs = (g, c) # gs' \<longrightarrow> ps = fin g @ pending c @ backlog c) \<and>
     (\<forall>c. (UNCLAIMED, c) \<in> set gs \<longrightarrow> gs = [(UNCLAIMED, c)] \<and> pending c = []) \<and>
     fin UNCLAIMED = [] \<and> (\<forall>g. g \<notin> fst ` set gs \<longrightarrow> fin g = [])"

lemma queues_ok_start: "queues_ok [] [] (\<lambda>_. [])"
  by (simp add: queues_ok_def)

lemma queues_okD:
  assumes "queues_ok gs ps fin"
  shows "distinct (map fst gs)" "gs = [] \<Longrightarrow> ps = []" "(g, c) \<in> set gs \<Longrightarrow> entry_ok ps (fin g) c"
    "gs = (g, c) # gs' \<Longrightarrow> ps = fin g @ pending c @ backlog c"
    "(UNCLAIMED, c) \<in> set gs \<Longrightarrow> gs = [(UNCLAIMED, c)] \<and> pending c = []"
    "fin UNCLAIMED = []" "g \<notin> fst ` set gs \<Longrightarrow> fin g = []"
  using assms unfolding queues_ok_def by blast+

lemma map_of_queues: "queues_ok gs ps fin \<Longrightarrow> map_of gs g = Some c \<longleftrightarrow> (g, c) \<in> set gs"
  by (simp add: queues_ok_def)

lemma queues_ok_push:
  assumes ok: "queues_ok gs ps fin"
  shows "queues_ok (push_all m gs) (ps @ [m]) fin"
proof (cases "gs = []")
  case True
  with queues_okD(2,7)[OF ok] show ?thesis
    by (simp add: queues_ok_def push_all_def entry_ok_def)
next
  case False
  then have p: "push_all m gs = map (\<lambda>(g, c). (g, c\<lparr>backlog := backlog c @ [m]\<rparr>)) gs" by (simp add: push_all_def)
  have keys: "map fst (push_all m gs) = map fst gs" unfolding p by (induction gs) auto
  have fsts: "fst ` set (push_all m gs) = fst ` set gs" using arg_cong[OF keys, of set] by simp
  have mem: "\<exists>c'. (g, c') \<in> set gs \<and> c = c'\<lparr>backlog := backlog c' @ [m]\<rparr>" if "(g, c) \<in> set (push_all m gs)" for g c
    using that by (auto simp: p)
  have entries: "entry_ok (ps @ [m]) (fin g) c" if "(g, c) \<in> set (push_all m gs)" for g c
    using mem[OF that] queues_okD(3)[OF ok] by (force simp: entry_ok_def)
  have hds: "ps @ [m] = fin g @ pending c @ backlog c" if "push_all m gs = (g, c) # gs'" for g c gs'
  proof -
    obtain a b gs'' where gs: "gs = (a, b) # gs''" using False by (cases gs) auto
    with that[unfolded p] queues_okD(4)[OF ok gs] show ?thesis by auto
  qed
  have un: "push_all m gs = [(UNCLAIMED, c)] \<and> pending c = []" if in_c: "(UNCLAIMED, c) \<in> set (push_all m gs)" for c
  proof -
    obtain c' where "(UNCLAIMED, c') \<in> set gs" "c = c'\<lparr>backlog := backlog c' @ [m]\<rparr>" using mem[OF in_c] by blast
    with queues_okD(5)[OF ok this(1)] show ?thesis by (simp add: push_all_def)
  qed
  show ?thesis unfolding queues_ok_def keys fsts
    using queues_okD[OF ok] entries hds un False by (auto simp: p)
qed

lemma set_on_group: "(h, c) \<in> set (on_group g f gs) \<longleftrightarrow> (\<exists>c'. (h, c') \<in> set gs \<and> c = (if h = g then f c' else c'))"
  by (induction gs) (auto simp: on_group_def)

lemma keys_on_group [simp]: "map fst (on_group g f gs) = map fst gs"
  by (induction gs) (auto simp: on_group_def)

lemma fst_set_on_group [simp]: "fst ` set (on_group g f gs) = fst ` set gs"
  using keys_on_group[of g f gs] by (metis list.set_map)

lemma map_of_on_group: "map_of (on_group g f gs) h = (if h = g then map_option f (map_of gs h) else map_of gs h)"
  by (induction gs) (auto simp: on_group_def)

lemma queues_ok_claim:
  assumes ok: "queues_ok gs ps fin" and g: "g \<noteq> UNCLAIMED"
  shows "queues_ok (claim g gs) ps fin"
proof (cases "map_of gs UNCLAIMED")
  case None
  then have un: "UNCLAIMED \<notin> fst ` set gs" by (simp add: map_of_eq_None_iff)
  show ?thesis
  proof (cases "g \<in> fst ` set gs")
    case True
    with None ok show ?thesis by (simp add: claim_def)
  next
    case False
    let ?gs = "gs @ [(g, empty_cursor)]"
    have fin: "fin g = []" by (rule queues_okD(7)[OF ok False])
    then have "entry_ok ps (fin g) empty_cursor" by (simp add: entry_ok_def empty_cursor_def)
    moreover have "ps = fin h @ pending c @ backlog c" if "?gs = (h, c) # gs'" for h c gs'
      using that queues_okD(2,4)[OF ok] fin by (cases gs) (auto simp: empty_cursor_def)
    moreover have "(UNCLAIMED, c) \<notin> set ?gs" for c using un g by force
    ultimately have "queues_ok ?gs ps fin" unfolding queues_ok_def
      using queues_okD[OF ok] False by auto
    with None False show ?thesis by (simp add: claim_def)
  qed
next
  case (Some u)
  then have u: "gs = [(UNCLAIMED, u)]" "pending u = []"
    using queues_okD(5)[OF ok map_of_SomeD[OF Some]] by auto
  have "ps = backlog u" using queues_okD(4)[OF ok u(1)] queues_okD(6)[OF ok] u(2) by simp
  moreover have "claim g gs = [(g, \<lparr>backlog = backlog u, pending = []\<rparr>)]"
    using u g by (simp add: claim_def on_group_def empty_cursor_def)
  moreover have "fin h = []" for h using queues_okD(6)[OF ok] queues_okD(7)[OF ok, of h] u(1) by auto
  ultimately show ?thesis using g by (auto simp: queues_ok_def entry_ok_def)
qed

lemma queues_ok_move:
  assumes ok: "queues_ok gs ps fin" and g: "g \<noteq> UNCLAIMED" and c: "(g, c) \<in> set gs"
    and same: "fin' g @ pending (f c) @ backlog (f c) = fin g @ pending c @ backlog c"
    and others: "\<And>h. h \<noteq> g \<Longrightarrow> fin' h = fin h" and len: "length (pending (f c)) \<le> 1"
  shows "queues_ok (on_group g f gs) ps fin'"
proof -
  have only: "c' = c" if "(g, c') \<in> set gs" for c'
    using that c map_of_queues[OF ok] by (metis option.inject)
  have entries: "entry_ok ps (fin' h) d" if in_d: "(h, d) \<in> set (on_group g f gs)" for h d
  proof (cases "h = g")
    case True
    with in_d only have "d = f c" by (auto simp: set_on_group)
    with True queues_okD(3)[OF ok c] same len show ?thesis by (auto simp: entry_ok_def)
  next
    case False
    with in_d queues_okD(3)[OF ok] others show ?thesis by (auto simp: set_on_group)
  qed
  have hds: "ps = fin' h @ pending d @ backlog d" if eq: "on_group g f gs = (h, d) # gs'" for h d gs'
  proof -
    from eq obtain d' gs'' where gs: "gs = (h, d') # gs''" "d = (if h = g then f d' else d')"
      by (auto simp: on_group_def split: prod.splits)
    with queues_okD(4)[OF ok gs(1)] only[of d'] same others[of h] show ?thesis by (cases "h = g") auto
  qed
  have un: "(UNCLAIMED, d) \<notin> set (on_group g f gs)" for d
    using queues_okD(5)[OF ok, of d] c g by (auto simp: set_on_group)
  have "on_group g f gs = [] \<longleftrightarrow> gs = []" by (simp add: on_group_def)
  moreover have "fin' h = []" if "h \<notin> fst ` set gs" for h
    using that others[of h] queues_okD(7)[OF ok that] c by force
  moreover have "fin' UNCLAIMED = []" using others[of UNCLAIMED] g queues_okD(6)[OF ok] by simp
  ultimately show ?thesis unfolding queues_ok_def keys_on_group fst_set_on_group
    using queues_okD(1,2)[OF ok] entries hds un by auto
qed

text \<open>What claiming partitions leaves as it was.\<close>

definition extends :: "bus \<Rightarrow> bus \<Rightarrow> bool" where
  "extends b b' \<longleftrightarrow> (\<forall>t k.
     (\<forall>ps fin. queues_ok (groups b (t, k)) ps fin \<longrightarrow> queues_ok (groups b' (t, k)) ps fin) \<and>
     (\<forall>g c. g \<noteq> UNCLAIMED \<longrightarrow> map_of (groups b (t, k)) g = Some c \<longrightarrow>
        (\<exists>c'. map_of (groups b' (t, k)) g = Some c' \<and> pending c' = pending c)))"

lemma extends_refl: "extends b b"
  by (simp add: extends_def)

lemma extends_trans: "extends a b \<Longrightarrow> extends b c \<Longrightarrow> extends a c"
  unfolding extends_def by metis

lemma map_of_filter_other: "h \<noteq> u \<Longrightarrow> map_of (filter (\<lambda>(h, c). h \<noteq> u) gs) h = map_of gs h"
  by (induction gs) auto

lemma map_of_claim:
  assumes "h \<noteq> UNCLAIMED" "map_of gs h = Some c"
  shows "\<exists>c'. map_of (claim g gs) h = Some c' \<and> pending c' = pending c"
  using assms
  by (auto simp: claim_def Let_def map_of_filter_other map_of_on_group map_add_Some_iff split: option.splits)

lemma claim_has:
  assumes "g \<noteq> UNCLAIMED"
  shows "\<exists>c. map_of (claim g gs) g = Some c"
proof -
  define gs1 where "gs1 = (if g \<in> fst ` set gs then gs else gs @ [(g, empty_cursor)])"
  have "g \<in> fst ` set gs1" by (simp add: gs1_def)
  then obtain c where "map_of gs1 g = Some c" by (metis map_of_eq_None_iff not_None_eq)
  with assms show ?thesis
    unfolding claim_def gs1_def[symmetric] Let_def
    by (auto simp: map_of_filter_other map_of_on_group split: option.splits)
qed

lemma extends_claim:
  "g \<noteq> UNCLAIMED \<Longrightarrow> extends b (b\<lparr>groups := (groups b)((t, k) := claim g (groups b (t, k)))\<rparr>)"
  by (auto simp: extends_def queues_ok_claim map_of_claim)

lemma claim_partitions_extends:
  assumes "g \<noteq> UNCLAIMED" "claim_partitions t g count ks b = (b', e)"
  shows "extends b b' \<and> (e = None \<longrightarrow> (\<forall>k \<in> set ks. \<exists>c. map_of (groups b' (t, nat k)) g = Some c))"
  using assms(2)
proof (induction ks arbitrary: b)
  case (Cons k ks)
  show ?case
  proof (cases "k < 0 \<or> int count \<le> k")
    case True
    with Cons.prems show ?thesis by (auto simp: extends_refl)
  next
    case False
    let ?b = "b\<lparr>groups := (groups b)((t, nat k) := claim g (groups b (t, nat k)))\<rparr>"
    from False Cons.prems have "claim_partitions t g count ks ?b = (b', e)" by auto
    from Cons.IH[OF this] have IH: "extends ?b b'"
      "e = None \<Longrightarrow> \<forall>k \<in> set ks. \<exists>c. map_of (groups b' (t, nat k)) g = Some c" by auto
    have "\<exists>c. map_of (groups ?b (t, nat k)) g = Some c" using claim_has[OF assms(1)] by simp
    with IH(1) assms(1) have "\<exists>c. map_of (groups b' (t, nat k)) g = Some c" unfolding extends_def by metis
    with IH extends_trans[OF extends_claim[OF assms(1)] IH(1)] show ?thesis by auto
  qed
qed (simp add: extends_refl)

lemma subscribe_extends:
  assumes "g \<noteq> UNCLAIMED" "subscribe overrides topic g ks b = (b', r)"
  shows "extends b b'"
    "r = Inr places \<Longrightarrow> (t, k, h) \<in> set places \<Longrightarrow> h = g \<and> (\<exists>c. map_of (groups b' (t, k)) h = Some c)"
  using assms claim_partitions_extends[OF assms(1)]
  by (auto simp: subscribe_def extends_refl Let_def split: sum.splits prod.splits option.splits)

section \<open>The invariant\<close>

definition config_ok :: "config \<Rightarrow> bool" where
  "config_ok c \<longleftrightarrow>
     (\<forall>t k. queues_ok (groups (bus_of c) (t, k)) (on_partition t k (published c)) (\<lambda>g. finished c (t, k, g))) \<and>
     (\<forall>n t k g. (t, k, g) \<in> subs c n \<longrightarrow> g \<noteq> UNCLAIMED \<and> (\<exists>cur. map_of (groups (bus_of c) (t, k)) g = Some cur)) \<and>
     (\<forall>n t k g m. in_hand c n = Some ((t, k, g), m) \<longrightarrow> (t, k, g) \<in> subs c n \<and>
        (\<exists>cur. map_of (groups (bus_of c) (t, k)) g = Some cur \<and> pending cur = [m])) \<and>
     exclusive c"

lemma config_okD:
  assumes "config_ok c"
  shows "queues_ok (groups (bus_of c) (t, k)) (on_partition t k (published c)) (\<lambda>g. finished c (t, k, g))"
    "(t, k, g) \<in> subs c n \<Longrightarrow> g \<noteq> UNCLAIMED \<and> (\<exists>cur. map_of (groups (bus_of c) (t, k)) g = Some cur)"
    "in_hand c n = Some ((t, k, g), m) \<Longrightarrow> (t, k, g) \<in> subs c n \<and>
        (\<exists>cur. map_of (groups (bus_of c) (t, k)) g = Some cur \<and> pending cur = [m])"
    "exclusive c"
  using assms unfolding config_ok_def by blast+

lemma config_ok_init: "config_ok init_config"
  by (simp add: config_ok_def init_config_def new_bus_def on_partition_def queues_ok_start exclusive_def)

lemma on_partition_snoc:
  "on_partition t k (ps @ [(topic, m)]) =
     on_partition t k ps @ (if topic = t \<and> msg_partition m = k then [m] else [])"
  by (simp add: on_partition_def)

lemma map_of_push: "map_of gs g = Some c \<Longrightarrow> map_of (push_all m gs) g = Some (c\<lparr>backlog := backlog c @ [m]\<rparr>)"
proof -
  assume g: "map_of gs g = Some c"
  have "map_of (map (\<lambda>(g, c). (g, c\<lparr>backlog := backlog c @ [m]\<rparr>)) gs) g = map_option (\<lambda>c. c\<lparr>backlog := backlog c @ [m]\<rparr>) (map_of gs g)"
    by (induction gs) auto
  with g show ?thesis by (auto simp: push_all_def)
qed

lemma config_ok_extends:
  assumes ok: "config_ok c" and ext: "extends (bus_of c) b"
  shows "config_ok (c\<lparr>bus_of := b\<rparr>)"
proof -
  have "\<exists>cur. map_of (groups b (t, k)) g = Some cur" if "(t, k, g) \<in> subs c n" for n t k g
    using config_okD(2)[OF ok that] ext unfolding extends_def by metis
  moreover have "\<exists>cur. map_of (groups b (t, k)) g = Some cur \<and> pending cur = [m]"
    if "in_hand c n = Some ((t, k, g), m)" for n t k g m
    using config_okD(2,3)[OF ok] that ext unfolding extends_def by metis
  ultimately show ?thesis
    using config_okD[OF ok] ext unfolding config_ok_def by (simp add: extends_def exclusive_def)
qed

lemma take_message_moves:
  assumes "take_message now ats cur = Some (m, cur')" "length (pending cur) \<le> 1"
  shows "pending cur' = [m] \<and> pending cur' @ backlog cur' = pending cur @ backlog cur"
  using assms by (auto simp: take_message_def split: list.splits if_splits)

lemma config_ok_publish:
  assumes ok: "config_ok c" and m: "new_message overrides topic key env (bus_of c) = Inr m"
    and b: "publish overrides topic key env (bus_of c) = Inr b"
  shows "config_ok (c\<lparr>bus_of := b, published := published c @ [(topic, m)]\<rparr>)"
proof -
  let ?p = "(topic, msg_partition m)"
  have g: "groups b = (groups (bus_of c))(?p := push_all m (groups (bus_of c) ?p))"
    using m b by (auto simp: publish_def)
  have cur: "\<exists>cur'. map_of (groups b (t, k)) h = Some cur' \<and> pending cur' = pending cur"
    if "map_of (groups (bus_of c) (t, k)) h = Some cur" for t k h cur
    using that by (auto simp: g map_of_push)
  have "queues_ok (groups b (t, k)) (on_partition t k (published c @ [(topic, m)])) (\<lambda>g. finished c (t, k, g))" for t k
    using config_okD(1)[OF ok, of t k] by (auto simp: g on_partition_snoc queues_ok_push)
  moreover have "\<exists>cur. map_of (groups b (t, k)) g = Some cur" if "(t, k, g) \<in> subs c n" for n t k g
    using config_okD(2)[OF ok that] cur by blast
  moreover have "\<exists>cur. map_of (groups b (t, k)) g = Some cur \<and> pending cur = [x]"
    if "in_hand c n = Some ((t, k, g), x)" for n t k g x
    using config_okD(3)[OF ok that] cur by metis
  ultimately show ?thesis using config_okD(2,3,4)[OF ok] by (simp add: config_ok_def exclusive_def)
qed

lemma config_ok_cursor:
  assumes ok: "config_ok c" and pl: "(t, k, g) \<in> subs c n"
    and cur: "map_of (groups (bus_of c) (t, k)) g = Some cur"
    and same: "fin g @ pending (f cur) @ backlog (f cur) = finished c (t, k, g) @ pending cur @ backlog cur"
    and len: "length (pending (f cur)) \<le> 1" and fin: "fin = (\<lambda>h. finished' (t, k, h))"
    and others: "\<And>q. q \<noteq> (t, k, g) \<Longrightarrow> finished' q = finished c q"
    and hand: "hand = None \<or> (\<exists>m. hand = Some ((t, k, g), m) \<and> pending (f cur) = [m])"
  shows "config_ok (c\<lparr>bus_of := on_cursor (t, k, g) f (bus_of c), in_hand := (in_hand c)(n := hand), finished := finished'\<rparr>)"
proof -
  let ?b = "on_cursor (t, k, g) f (bus_of c)"
  have b: "groups ?b = (groups (bus_of c))((t, k) := on_group g f (groups (bus_of c) (t, k)))"
    by (simp add: on_cursor_def)
  have un: "g \<noteq> UNCLAIMED" using config_okD(2)[OF ok pl] by blast
  have q: "queues_ok (groups ?b (t', k')) (on_partition t' k' (published c)) (\<lambda>h. finished' (t', k', h))" for t' k'
  proof (cases "(t', k') = (t, k)")
    case True
    then have "queues_ok (on_group g f (groups (bus_of c) (t, k))) (on_partition t k (published c)) (\<lambda>h. finished' (t, k, h))"
      using same others len un cur by (intro queues_ok_move[OF config_okD(1)[OF ok], where c = cur]) (auto simp: fin dest: map_of_SomeD)
    with True show ?thesis by (simp add: b)
  next
    case False
    with config_okD(1)[OF ok, of t' k'] others show ?thesis by (auto simp: b)
  qed
  have some: "\<exists>cur'. map_of (groups ?b (t', k')) h = Some cur' \<and> ((t', k', h) \<noteq> (t, k, g) \<longrightarrow> cur' = cur0)"
    if "map_of (groups (bus_of c) (t', k')) h = Some cur0" for t' k' h cur0
    using that by (auto simp: b map_of_on_group)
  have "\<exists>cur. map_of (groups ?b (t', k')) h = Some cur" if "(t', k', h) \<in> subs c i" for i t' k' h
    using config_okD(2)[OF ok that] some by blast
  moreover have "(t', k', h) \<in> subs c i \<and> (\<exists>cur. map_of (groups ?b (t', k')) h = Some cur \<and> pending cur = [x])"
    if in_i: "((in_hand c)(n := hand)) i = Some ((t', k', h), x)" for i t' k' h x
  proof (cases "i = n")
    case True
    with in_i hand have "(t', k', h) = (t, k, g)" "pending (f cur) = [x]" by auto
    with True pl cur show ?thesis by (auto simp: b map_of_on_group)
  next
    case False
    with in_i have i: "in_hand c i = Some ((t', k', h), x)" by simp
    note held = config_okD(3)[OF ok i]
    with config_okD(4)[OF ok] pl False have "(t', k', h) \<noteq> (t, k, g)" unfolding exclusive_def by blast
    with held some show ?thesis by metis
  qed
  ultimately show ?thesis using q config_okD(2,4)[OF ok] by (simp add: config_ok_def exclusive_def)
qed

lemma config_ok_step:
  assumes ok: "config_ok c" and step: "bus_step overrides c c'" and ex: "exclusive c'"
  shows "config_ok c'"
  using step
proof (cases rule: bus_step.cases)
  case (publishes topic key env m b)
  then show ?thesis using config_ok_publish[OF ok] by simp
next
  case (subscribes g n topic ks b places)
  note ext = subscribe_extends[OF subscribes(2,5)]
  have b: "config_ok (c\<lparr>bus_of := b\<rparr>)" by (rule config_ok_extends[OF ok ext(1)])
  have "h \<noteq> UNCLAIMED \<and> (\<exists>cur. map_of (groups b (t, k)) h = Some cur)" if "(t, k, h) \<in> set places" for t k h
    using ext(2)[OF refl that] subscribes(2) by blast
  with config_okD(1-3)[OF b] ex subscribes(1,3,4) show ?thesis
    unfolding config_ok_def by (auto simp: exclusive_def)
next
  case (subscription_fails g topic ks b e)
  then show ?thesis using config_ok_extends[OF ok subscribe_extends(1)] by blast
next
  case (takes pl n cur now m cur')
  obtain t k g where pl: "pl = (t, k, g)" by (cases pl)
  have cur: "map_of (groups (bus_of c) (t, k)) g = Some cur" using takes(4) by (simp add: cursor_of_def pl)
  have "length (pending cur) \<le> 1"
    using queues_okD(3)[OF config_okD(1)[OF ok] map_of_SomeD[OF cur]] by (simp add: entry_ok_def)
  with take_message_moves[OF takes(5)] have "pending cur' = [m]"
    "pending cur' @ backlog cur' = pending cur @ backlog cur" by auto
  with config_ok_cursor[OF ok _ cur, where f = "\<lambda>_. cur'" and finished' = "finished c" and hand = "Some (pl, m)"] takes(1,2)
  show ?thesis by (simp add: pl)
next
  case (settles n pl m r d out)
  obtain t k g where pl: "pl = (t, k, g)" by (cases pl)
  from config_okD(3)[OF ok settles(2)[unfolded pl]] obtain cur where place: "(t, k, g) \<in> subs c n"
    and cur: "map_of (groups (bus_of c) (t, k)) g = Some cur" "pending cur = [m]" by blast
  show ?thesis
  proof (cases "is_final d")
    case True
    then have b: "settle d now r m pl (bus_of c) = on_cursor (t, k, g) (\<lambda>c. c\<lparr>pending := tl (pending c)\<rparr>) (bus_of c)" for now
      by (cases d) (simp_all add: pl)
    show ?thesis unfolding settles(1) b using True cur
      by (simp add: pl) (rule config_ok_cursor[OF ok place cur(1) _ _ refl], auto)
  next
    case False
    then have "groups (settle d now r m pl (bus_of c)) = groups (bus_of c)" for now
      by (cases d) (simp_all add: Let_def)
    with False ok show ?thesis unfolding settles(1) config_ok_def by (auto simp: exclusive_def)
  qed
next
  case (closes n)
  have "in_hand c i = Some ((t, k, g), m) \<Longrightarrow> i \<noteq> n" for i t k g m using closes(2) by auto
  with ok show ?thesis unfolding closes(1) config_ok_def by (auto simp: exclusive_def)
qed

interpretation bus_runs: invariant_system "\<lambda>c. c = init_config" "\<lambda>c c'. bus_step overrides c c' \<and> exclusive c'" config_ok
  for overrides
  by unfold_locales (auto simp: config_ok_init intro: config_ok_step)

text \<open>C39: In every state the bus reaches while a partition has at most one live subscription per
  group, the messages published to a partition are, for each subscribed group, exactly those
  that it missed before it subscribed, then those it finished, then at most one in delivery,
  then its backlog, in publication order: nothing is lost, repeated or reordered. The first
  group of a partition misses nothing.\<close>

theorem bus_delivers_in_order:
  assumes "reaches (\<lambda>c. c = init_config) (\<lambda>c c'. bus_step overrides c c' \<and> exclusive c') c"
    and "(t, k, g) \<in> subs c n"
  shows "\<exists>cur missed. cursor_of (bus_of c) (t, k, g) = Some cur \<and>
    on_partition t k (published c) = missed @ finished c (t, k, g) @ pending cur @ backlog cur \<and>
    (fst (hd (groups (bus_of c) (t, k))) = g \<longrightarrow> missed = []) \<and>
    length (pending cur) \<le> 1 \<and> (\<forall>m. in_hand c n = Some ((t, k, g), m) \<longrightarrow> pending cur = [m])"
proof -
  have ok: "config_ok c" by (rule bus_runs.reaches_inv[OF assms(1)])
  note q = config_okD(1)[OF ok, of t k]
  from config_okD(2)[OF ok assms(2)] obtain cur where cur: "map_of (groups (bus_of c) (t, k)) g = Some cur" by blast
  then have in_gs: "(g, cur) \<in> set (groups (bus_of c) (t, k))" by (rule map_of_SomeD)
  from queues_okD(3)[OF q this] obtain xs where
    xs: "on_partition t k (published c) = xs @ finished c (t, k, g) @ pending cur @ backlog cur" "length (pending cur) \<le> 1"
    by (auto simp: entry_ok_def)
  have "xs = []" if first: "fst (hd (groups (bus_of c) (t, k))) = g"
  proof -
    from first in_gs obtain d gs' where gs: "groups (bus_of c) (t, k) = (g, d) # gs'"
      by (cases "groups (bus_of c) (t, k)") auto
    then have "d = cur" using cur by simp
    with queues_okD(4)[OF q gs] xs show ?thesis by simp
  qed
  with xs cur config_okD(3)[OF ok] show ?thesis by (fastforce simp: cursor_of_def)
qed

definition one_partition :: "jstr \<Rightarrow> json option" where
  "one_partition topic = Some (J_int 1)"

definition batch_topic :: jstr where
  "batch_topic = js ''prs:batch''"

definition sample_message :: message where
  "sample_message = \<lparr>msg_envelope = J_null, msg_key = js ''k'', msg_partition = 0, msg_seq = 1\<rparr>"

text \<open>The bus after groups subscribed in this order, and after the message was published.\<close>

definition sample_bus :: "jstr list \<Rightarrow> bus" where
  "sample_bus gs = new_bus\<lparr>groups := (\<lambda>_. [])((batch_topic, 0) := map (\<lambda>g. (g, empty_cursor)) gs)\<rparr>"

definition sample_published :: "jstr list \<Rightarrow> bus" where
  "sample_published gs = (sample_bus gs)\<lparr>groups := (\<lambda>_. [])((batch_topic, 0) :=
     map (\<lambda>g. (g, \<lparr>backlog = [sample_message], pending = []\<rparr>)) gs), bus_sequence := 1\<rparr>"

lemma sample_new_message:
  "bus_sequence b = 0 \<Longrightarrow> new_message one_partition batch_topic (js ''k'') J_null b = Inr sample_message"
  by (simp add: new_message_def partition_count_def one_partition_def partition_for_def sample_message_def)

lemma sample_publish:
  assumes "gs \<noteq> []"
  shows "publish one_partition batch_topic (js ''k'') J_null (sample_bus gs) = Inr (sample_published gs)"
proof -
  have m: "new_message one_partition batch_topic (js ''k'') J_null (sample_bus gs) = Inr sample_message"
    by (rule sample_new_message) (simp add: sample_bus_def new_bus_def)
  have "push_all sample_message (map (\<lambda>g. (g, empty_cursor)) gs) =
      map (\<lambda>g. (g, \<lparr>backlog = [sample_message], pending = []\<rparr>)) gs"
    using assms by (simp add: push_all_def empty_cursor_def)
  moreover have "msg_partition sample_message = 0" "msg_seq sample_message = 1" by (simp_all add: sample_message_def)
  ultimately show ?thesis unfolding publish_def m
    by (simp add: sample_published_def sample_bus_def new_bus_def fun_upd_idem)
qed

lemma sample_subscribe:
  assumes "g \<notin> set gs" "UNCLAIMED \<notin> set gs"
  shows "subscribe one_partition batch_topic g None (sample_bus gs) =
    (sample_bus (gs @ [g]), Inr [(batch_topic, 0, g)])"
proof -
  have "claim g (map (\<lambda>g. (g, empty_cursor)) gs) = map (\<lambda>g. (g, empty_cursor)) (gs @ [g])"
    using assms by (force simp: claim_def Let_def map_of_eq_None_iff split: option.splits dest!: map_of_SomeD)
  then show ?thesis
    by (simp add: subscribe_def partition_count_def one_partition_def all_partitions_def sample_bus_def Let_def)
qed

definition sample_config :: config where
  "sample_config = \<lparr>bus_of = sample_published [js ''A''], subs = (\<lambda>_. {})(0 := {(batch_topic, 0, js ''A'')}),
     in_hand = (\<lambda>_. None), published = [(batch_topic, sample_message)], finished = (\<lambda>_. [])\<rparr>"

lemma named_groups: "js ''A'' \<noteq> UNCLAIMED" "js ''B'' \<noteq> UNCLAIMED"
  by (simp_all add: UNCLAIMED_def)

lemma sample_config_reached:
  "reaches (\<lambda>c. c = init_config) (\<lambda>c c'. bus_step one_partition c c' \<and> exclusive c') sample_config"
proof -
  let ?c1 = "init_config\<lparr>bus_of := sample_bus [js ''A''], subs := (subs init_config)(0 := set [(batch_topic, 0, js ''A'')])\<rparr>"
  have "new_bus = sample_bus []" by (simp add: sample_bus_def new_bus_def fun_upd_idem)
  then have s1: "bus_step one_partition init_config ?c1"
    using sample_subscribe[of "js ''A''" "[]"] named_groups
    by (intro bus_step.subscribes) (simp_all add: init_config_def del: js_Cons)
  have s2: "bus_step one_partition ?c1 (?c1\<lparr>bus_of := sample_published [js ''A''],
      published := published ?c1 @ [(batch_topic, sample_message)]\<rparr>)"
    using sample_publish[of "[js ''A'']"] sample_new_message[of "sample_bus [js ''A'']"]
    by (intro bus_step.publishes) (simp_all add: sample_bus_def new_bus_def del: js_Cons)
  have "?c1\<lparr>bus_of := sample_published [js ''A''], published := published ?c1 @ [(batch_topic, sample_message)]\<rparr> = sample_config"
    by (simp add: sample_config_def init_config_def)
  moreover have "exclusive ?c1" "exclusive sample_config"
    by (simp_all add: exclusive_def init_config_def sample_config_def)
  ultimately show ?thesis
    using reaches.step[OF reaches.step[OF reaches.start[of "\<lambda>c. c = init_config" init_config "\<lambda>c c'. bus_step one_partition c c' \<and> exclusive c'"],
      of ?c1], of sample_config] s1 s2 by simp
qed

theorem bus_delivers_in_order_witness:
  "\<exists>cur. cursor_of (bus_of sample_config) (batch_topic, 0, js ''A'') = Some cur \<and>
     pending cur @ backlog cur = [sample_message]"
proof -
  have place: "(batch_topic, 0, js ''A'') \<in> subs sample_config 0" by (simp add: sample_config_def)
  have p: "on_partition batch_topic 0 (published sample_config) = [sample_message]"
    by (simp add: sample_config_def on_partition_def sample_message_def)
  have "fst (hd (groups (bus_of sample_config) (batch_topic, 0))) = js ''A''"
    by (simp add: sample_config_def sample_published_def)
  with bus_delivers_in_order[OF sample_config_reached place] show ?thesis unfolding p
    by (auto simp: sample_config_def simp del: js_Cons)
qed

text \<open>A retry in one group counts in every group: the stored message object with its number of
  attempts is shared, so another group's first delivery of it reports a count of two.\<close>

theorem retry_counts_in_every_group:
  "let bus = sample_published [js ''A'', js ''B''];
       held = on_cursor (batch_topic, 0, js ''A'') (\<lambda>c. c\<lparr>backlog := [], pending := [sample_message]\<rparr>) bus;
       retried = settle Retry 0 (1 / 2) sample_message (batch_topic, 0, js ''A'') held
   in subscribe one_partition batch_topic (js ''B'') None (sample_bus [js ''A'']) =
        (sample_bus [js ''A'', js ''B''], Inr [(batch_topic, 0, js ''B'')]) \<and>
      publish one_partition batch_topic (js ''k'') J_null (sample_bus [js ''A'', js ''B'']) = Inr bus \<and>
      map_option (take_message 0 (attempts bus)) (cursor_of bus (batch_topic, 0, js ''A'')) =
        Some (Some (sample_message, \<lparr>backlog = [], pending = [sample_message]\<rparr>)) \<and>
      map_option (take_message 0 (attempts retried)) (cursor_of retried (batch_topic, 0, js ''B'')) =
        Some (Some (sample_message, \<lparr>backlog = [], pending = [sample_message]\<rparr>)) \<and>
      delivery_count held sample_message = 1 \<and> delivery_count retried sample_message = 2"
  unfolding Let_def
proof (intro conjI)
  show "subscribe one_partition batch_topic (js ''B'') None (sample_bus [js ''A'']) =
      (sample_bus [js ''A'', js ''B''], Inr [(batch_topic, 0, js ''B'')])"
    using sample_subscribe[of "js ''B''" "[js ''A'']"] named_groups by auto
  show "publish one_partition batch_topic (js ''k'') J_null (sample_bus [js ''A'', js ''B'']) =
      Inr (sample_published [js ''A'', js ''B''])" by (rule sample_publish) simp
qed (simp_all add: sample_published_def sample_bus_def new_bus_def on_cursor_def on_group_def cursor_of_def
    take_message_def delivery_count_def)

end
