(* ===== verification/Domain_Text.thy ===== *)
theory Domain_Text
  imports PRS_Prelude
begin

text \<open>
  Texts that references are read from (\<open>packages/domain/src/link/text.ts\<close>): code and quotations
  are covered by spaces, so that offsets into the covered text are offsets into the original.
\<close>

definition newline :: unit16 where "newline = 10"
definition tab :: unit16 where "tab = 9"
definition backtick :: unit16 where "backtick = 96"
definition tilde_unit :: unit16 where "tilde_unit = 126"
definition blank_char :: unit16 where "blank_char = 32"
definition ellipsis :: unit16 where "ellipsis = 0x2026"

lemmas text_units = newline_def tab_def backtick_def tilde_unit_def blank_char_def

definition EVIDENCE_LIMIT :: nat where
  "EVIDENCE_LIMIT = 200"

definition blank :: "jstr \<Rightarrow> jstr" where
  "blank line = replicate (length line) blank_char"

section \<open>Fences and quotations\<close>

text \<open>What follows at most three blanks at the start of a line.\<close>

definition indented :: "jstr \<Rightarrow> jstr option" where
  "indented line =
     (let p = takeWhile (\<lambda>c. c = blank_char \<or> c = tab) line in
      if length p \<le> 3 then Some (dropWhile (\<lambda>c. c = blank_char \<or> c = tab) line) else None)"

definition fence_opener :: "jstr \<Rightarrow> jstr option" where
  "fence_opener line =
     (case indented line of
        None \<Rightarrow> None
      | Some s \<Rightarrow>
          (let b = takeWhile (\<lambda>c. c = backtick) s; t = takeWhile (\<lambda>c. c = tilde_unit) s in
           if 3 \<le> length b then Some b else if 3 \<le> length t then Some t else None))"

definition is_quotation :: "jstr \<Rightarrow> bool" where
  "is_quotation line \<longleftrightarrow> (case indented line of Some (c # _) \<Rightarrow> c = ch CHR ''>'' | _ \<Rightarrow> False)"

section \<open>Inline code\<close>

text \<open>The runs of backticks of a line, with their starts and lengths.\<close>

function backtick_runs :: "nat \<Rightarrow> jstr \<Rightarrow> (nat \<times> nat) list" where
  "backtick_runs i [] = []"
| "backtick_runs i (c # s) =
     (if c \<noteq> backtick then backtick_runs (Suc i) s
      else let n = Suc (length (takeWhile (\<lambda>d. d = backtick) s)) in
           (i, n) # backtick_runs (i + n) (dropWhile (\<lambda>d. d = backtick) s))"
  by pat_completeness auto

termination
  by (relation "measure (\<lambda>(i, s). length s)") (auto simp: less_Suc_eq_le length_dropWhile_le)

definition blank_range :: "nat \<Rightarrow> nat \<Rightarrow> jstr \<Rightarrow> jstr" where
  "blank_range from_pos to_pos chars = map (\<lambda>i. if from_pos \<le> i \<and> i < to_pos then blank_char else chars ! i) [0..<length chars]"

function mask_runs :: "(nat \<times> nat) list \<Rightarrow> jstr \<Rightarrow> jstr" where
  "mask_runs [] chars = chars"
| "mask_runs (first_run # runs) chars =
     (case dropWhile (\<lambda>r. snd r \<noteq> snd first_run) runs of
        [] \<Rightarrow> chars
      | last_run # rest \<Rightarrow> mask_runs rest (blank_range (fst first_run) (fst last_run + snd last_run) chars))"
  by pat_completeness auto

termination
proof (relation "measure (\<lambda>(runs, chars). length runs)")
  fix first_run last_run :: "nat \<times> nat" and runs rest :: "(nat \<times> nat) list" and chars :: jstr
  assume "dropWhile (\<lambda>r. snd r \<noteq> snd first_run) runs = last_run # rest"
  then have "length (last_run # rest) \<le> length runs" by (metis length_dropWhile_le)
  then show "((rest, blank_range (fst first_run) (fst last_run + snd last_run) chars), first_run # runs, chars)
      \<in> measure (\<lambda>(runs, chars). length runs)" by simp
qed simp

definition mask_inline_code :: "jstr \<Rightarrow> jstr" where
  "mask_inline_code line =
     (let runs = backtick_runs 0 line in if length runs < 2 then line else mask_runs runs line)"

section \<open>Whole texts\<close>

fun mask_lines :: "jstr option \<Rightarrow> jstr list \<Rightarrow> jstr list" where
  "mask_lines fence [] = []"
| "mask_lines (Some f) (line # ls) =
     blank line # mask_lines
       (case fence_opener line of
          Some o' \<Rightarrow> if starts_with [hd f] o' \<and> length f \<le> length o' then None else Some f
        | None \<Rightarrow> Some f) ls"
| "mask_lines None (line # ls) =
     (case fence_opener line of
        Some o' \<Rightarrow> blank line # mask_lines (Some o') ls
      | None \<Rightarrow>
          (if is_quotation line then blank line else mask_inline_code line) # mask_lines None ls)"

definition mask_excluded :: "jstr \<Rightarrow> jstr" where
  "mask_excluded text = join_with [newline] (mask_lines None (split_on newline text))"

text \<open>\<open>lastIndexOf\<close> and \<open>indexOf\<close> of a line break, from an offset within the text.\<close>

definition line_start :: "jstr \<Rightarrow> nat \<Rightarrow> nat" where
  "line_start s offset =
     (let p = take (Suc offset) s in length p - length (takeWhile (\<lambda>c. c \<noteq> newline) (rev p)))"

definition line_stop :: "jstr \<Rightarrow> nat \<Rightarrow> nat" where
  "line_stop s offset = min (length s) offset + length (takeWhile (\<lambda>c. c \<noteq> newline) (drop offset s))"

definition cut_evidence :: "jstr \<Rightarrow> jstr" where
  "cut_evidence line =
     (if length line \<le> EVIDENCE_LIMIT then line else take (EVIDENCE_LIMIT - 1) line @ [ellipsis])"

definition evidence_line :: "jstr \<Rightarrow> nat \<Rightarrow> jstr" where
  "evidence_line original offset =
     (let start = line_start original offset; stop = line_stop original offset in
      cut_evidence (trim (take (stop - start) (drop start original))))"

definition commit_subject :: "jstr \<Rightarrow> jstr" where
  "commit_subject message = trim (takeWhile (\<lambda>c. c \<noteq> newline) message)"

section \<open>Positions are kept\<close>

text \<open>A text that covers another: as long, and each unit kept or a blank, line breaks always kept.\<close>

definition covers :: "jstr \<Rightarrow> jstr \<Rightarrow> bool" where
  "covers m s \<longleftrightarrow> list_all2 (\<lambda>x c. x = c \<or> (x = blank_char \<and> c \<noteq> newline)) m s"

lemma covers_refl: "covers s s"
  by (simp add: covers_def list_all2_refl)

lemma covers_trans: "covers a b \<Longrightarrow> covers b c \<Longrightarrow> covers a c"
  by (simp add: covers_def list_all2_conv_all_nth) metis

lemma covers_blank: "newline \<notin> set s \<Longrightarrow> covers (blank s) s"
  by (induction s) (auto simp: covers_def blank_def)

lemma covers_length: "covers m s \<Longrightarrow> length m = length s"
  unfolding covers_def by (rule list_all2_lengthD)

lemma covers_no_newline: "covers m s \<Longrightarrow> newline \<notin> set s \<Longrightarrow> newline \<notin> set m"
  unfolding covers_def by (induction rule: list_all2_induct) (auto simp: newline_def blank_char_def)

lemma covers_range: "newline \<notin> set s \<Longrightarrow> covers (blank_range i j s) s"
  unfolding covers_def list_all2_conv_all_nth blank_range_def by (auto dest: nth_mem)

lemma covers_runs: "newline \<notin> set s \<Longrightarrow> covers (mask_runs runs s) s"
proof (induction runs s rule: mask_runs.induct)
  case (2 first_run runs chars)
  show ?case
  proof (cases "dropWhile (\<lambda>r. snd r \<noteq> snd first_run) runs")
    case Nil
    show ?thesis unfolding mask_runs.simps Nil list.case by (rule covers_refl)
  next
    case (Cons last_run rest)
    let ?c = "blank_range (fst first_run) (fst last_run + snd last_run) chars"
    have c: "covers ?c chars" by (rule covers_range[OF "2.prems"])
    have "covers (mask_runs rest ?c) ?c" by (rule "2.IH"[OF Cons covers_no_newline[OF c "2.prems"]])
    with c Cons show ?thesis by (simp add: covers_trans)
  qed
qed (simp add: covers_refl)

lemma covers_inline: "newline \<notin> set s \<Longrightarrow> covers (mask_inline_code s) s"
  by (simp add: mask_inline_code_def Let_def covers_refl covers_runs)

lemma covers_lines:
  "\<forall>l \<in> set ls. newline \<notin> set l \<Longrightarrow> list_all2 covers (mask_lines fence ls) ls"
  by (induction fence ls rule: mask_lines.induct) (auto simp: covers_blank covers_inline split: option.splits)

lemma covers_append: "covers a b \<Longrightarrow> covers c d \<Longrightarrow> covers (a @ c) (b @ d)"
  unfolding covers_def by (rule list_all2_appendI)

lemma covers_join: "list_all2 covers xs ys \<Longrightarrow> covers (join_with [newline] xs) (join_with [newline] ys)"
proof (induction rule: list_all2_induct)
  case (Cons x xs y ys)
  have "covers ([newline] @ join_with [newline] xs) ([newline] @ join_with [newline] ys)"
    using Cons by (intro covers_append) (simp_all add: covers_def)
  with Cons show ?case by (cases xs; cases ys) (simp_all add: covers_append del: append_Cons)
qed (simp add: covers_def)

lemma mask_covers: "covers (mask_excluded s) s"
proof -
  have "list_all2 covers (mask_lines None (split_on newline s)) (split_on newline s)"
    by (rule covers_lines) (blast dest: split_on_parts)
  from covers_join[OF this] show ?thesis by (simp add: mask_excluded_def)
qed

text \<open>Masking quotations and code keeps every position of a text: the length, the lines and each
  character that is not blanked stay where they were, so a match in the masked text is at the
  same place in the original.\<close>

theorem mask_keeps_positions:
  "length (mask_excluded s) = length s \<and>
   split_on newline (mask_excluded s) = mask_lines None (split_on newline s) \<and>
   map length (split_on newline (mask_excluded s)) = map length (split_on newline s) \<and>
   list_all2 (\<lambda>x c. x = c \<or> x = blank_char) (mask_excluded s) s"
proof -
  have lines: "list_all2 covers (mask_lines None (split_on newline s)) (split_on newline s)"
    by (rule covers_lines) (blast dest: split_on_parts)
  have "newline \<notin> set m" if "m \<in> set (mask_lines None (split_on newline s))" for m
    using lines that split_on_parts covers_no_newline by (metis in_set_conv_nth list_all2_conv_all_nth)
  moreover have "mask_lines None (split_on newline s) \<noteq> []" using lines split_on_not_Nil by force
  ultimately have "split_on newline (mask_excluded s) = mask_lines None (split_on newline s)"
    unfolding mask_excluded_def by (intro split_on_join) auto
  moreover have "map length (mask_lines None (split_on newline s)) = map length (split_on newline s)"
    using lines covers_length by (auto simp: list_all2_conv_all_nth intro!: nth_equalityI)
  moreover have "list_all2 (\<lambda>x c. x = c \<or> x = blank_char) (mask_excluded s) s"
    using mask_covers[of s] unfolding covers_def by (rule list_all2_mono) auto
  ultimately show ?thesis using covers_length[OF mask_covers] by simp
qed

text \<open>After a run of backticks without a partner the code spans that follow on the line are not
  masked: a text in inline code is read as a reference.\<close>

theorem unpaired_run_uncovers_code:
  "mask_excluded (js ''a `#1` b'') = js ''a      b'' \<and>
   mask_excluded (js ''``a `#1` b'') = js ''``a `#1` b''"
  by code_simp

end
