(* ===== verification/Domain_Links.thy ===== *)
theory Domain_Links
  imports Domain_Text
begin

text \<open>
  Cherry-picks and reverts that commit messages and titles state
  (\<open>packages/domain/src/link/cherry.ts\<close>, \<open>revert.ts\<close>). Each regular expression is a matcher that
  gives what it captures and how many units it consumes; where the expression can match in more
  than one way, the ways are listed in the order in which backtracking tries them.
\<close>

section \<open>Scanning\<close>

text \<open>A global expression: the matches from left to right, with the unit before each place.\<close>

function scan :: "(unit16 option \<Rightarrow> jstr \<Rightarrow> ('a \<times> nat) option) \<Rightarrow> unit16 option \<Rightarrow> nat \<Rightarrow> jstr \<Rightarrow> (nat \<times> 'a) list" where
  "scan m before i [] = []"
| "scan m before i (c # s) =
     (case m before (c # s) of
        None \<Rightarrow> scan m (Some c) (Suc i) s
      | Some (a, n) \<Rightarrow>
          (i, a) # scan m (Some (last (take (Suc (n - 1)) (c # s)))) (i + Suc (n - 1)) (drop (n - 1) s))"
  by pat_completeness auto

termination
  by (relation "measure (\<lambda>(m, b, i, s). length s)") auto

definition word_unit :: "unit16 \<Rightarrow> bool" where
  "word_unit c \<longleftrightarrow> is_letter c \<or> is_digit c \<or> c = ch CHR ''_''"

definition starts_with_word :: "jstr \<Rightarrow> bool" where
  "starts_with_word s \<longleftrightarrow> (case s of [] \<Rightarrow> False | c # _ \<Rightarrow> word_unit c)"

text \<open>A lower-case word, whatever the case in the text; spaces; 40 hexadecimal digits.\<close>

definition skip_word :: "jstr \<Rightarrow> jstr \<Rightarrow> jstr option" where
  "skip_word w s = (if to_lower (take (length w) s) = w then Some (drop (length w) s) else None)"

definition skip_spaces :: "jstr \<Rightarrow> jstr option" where
  "skip_spaces s = (case s of c # _ \<Rightarrow> if is_space c then Some (dropWhile is_space s) else None | [] \<Rightarrow> None)"

definition full_sha_prefix :: "jstr \<Rightarrow> (jstr \<times> jstr) option" where
  "full_sha_prefix s =
     (if length (take 40 s) = 40 \<and> list_all is_hex_any (take 40 s) then Some (to_lower (take 40 s), drop 40 s) else None)"

fun skip_words :: "jstr list \<Rightarrow> jstr \<Rightarrow> jstr option" where
  "skip_words [] s = Some s"
| "skip_words (w # ws) s =
     (case skip_word w s of
        None \<Rightarrow> None
      | Some r \<Rightarrow> (case skip_spaces r of None \<Rightarrow> None | Some r' \<Rightarrow> skip_words ws r'))"

section \<open>Cherry-picks\<close>

definition cherry_trailer :: "unit16 option \<Rightarrow> jstr \<Rightarrow> (jstr \<times> nat) option" where
  "cherry_trailer before s =
     (case s of
        [] \<Rightarrow> None
      | c # r0 \<Rightarrow>
          if c \<noteq> ch CHR ''('' then None
          else (case skip_words [js ''cherry'', js ''picked'', js ''from'', js ''commit''] (dropWhile is_space r0) of
                  None \<Rightarrow> None
                | Some r1 \<Rightarrow>
                    (case full_sha_prefix r1 of
                       None \<Rightarrow> None
                     | Some (sha, r2) \<Rightarrow>
                         (case dropWhile is_space r2 of
                            [] \<Rightarrow> None
                          | d # r3 \<Rightarrow> if d = ch CHR '')'' then Some (sha, length s - length r3) else None))))"

fun keep_first :: "(jstr \<times> 'b) list \<Rightarrow> (jstr \<times> 'b) list \<Rightarrow> (jstr \<times> 'b) list" where
  "keep_first seen [] = seen"
| "keep_first seen ((k, v) # kvs) =
     keep_first (if k \<in> fst ` set seen then seen else seen @ [(k, v)]) kvs"

definition extract_cherry_picks :: "jstr \<Rightarrow> (jstr \<times> jstr) list" where
  "extract_cherry_picks msg =
     (if msg = [] then []
      else keep_first [] (map (\<lambda>(i, sha). (sha, evidence_line msg i)) (scan cherry_trailer None 0 (mask_excluded msg))))"

section \<open>Reverts\<close>

datatype revert_target = Commit_target jstr | Title_target jstr
datatype revert_confidence = Exact | Heuristic

record revert =
  rv_target :: revert_target
  rv_confidence :: revert_confidence
  rv_evidence :: jstr

definition TITLE_MAX :: nat where
  "TITLE_MAX = 512"

definition revert_trailer :: "unit16 option \<Rightarrow> jstr \<Rightarrow> (jstr \<times> nat) option" where
  "revert_trailer before s =
     (case skip_words [js ''this'', js ''reverts'', js ''commit''] s of
        None \<Rightarrow> None
      | Some r \<Rightarrow>
          (case full_sha_prefix r of
             None \<Rightarrow> None
           | Some (sha, r') \<Rightarrow> if starts_with_word r' then None else Some (sha, length s - length r')))"

definition open_quote :: "unit16 \<Rightarrow> bool" where
  "open_quote c \<longleftrightarrow> c = ch (CHR 0x22) \<or> c = 0x201C"

definition close_quote :: "unit16 \<Rightarrow> bool" where
  "close_quote c \<longleftrightarrow> c = ch (CHR 0x22) \<or> c = 0x201D"

definition skip_colon :: "jstr \<Rightarrow> jstr" where
  "skip_colon s =
     (let r = dropWhile is_space s in
      dropWhile is_space (if starts_with (js '':'') r then tl r else r))"

definition revert_quoted :: "unit16 option \<Rightarrow> jstr \<Rightarrow> (jstr \<times> nat) option" where
  "revert_quoted before s =
     (if (case before of Some b \<Rightarrow> word_unit b | None \<Rightarrow> False) then None
      else (case skip_word (js ''revert'') s of
              None \<Rightarrow> None
            | Some r \<Rightarrow>
                (case skip_colon r of
                   [] \<Rightarrow> None
                 | q # t \<Rightarrow>
                     (let title = takeWhile (\<lambda>c. \<not> close_quote c \<and> c \<noteq> newline) t;
                          rest = dropWhile (\<lambda>c. \<not> close_quote c \<and> c \<noteq> newline) t in
                      if open_quote q \<and> title \<noteq> [] \<and> length title \<le> TITLE_MAX \<and>
                         (case rest of [] \<Rightarrow> False | d # _ \<Rightarrow> close_quote d)
                      then Some (title, length s - length (tl rest)) else None))))"

definition line_terminator :: "unit16 \<Rightarrow> bool" where
  "line_terminator c \<longleftrightarrow> c = 10 \<or> c = 13 \<or> c = 0x2028 \<or> c = 0x2029"

text \<open>What \<open>.+\<close> at the end of the prefix expression can capture, in the order of backtracking.\<close>

definition prefix_captures :: "jstr \<Rightarrow> jstr list" where
  "prefix_captures r =
     filter (\<lambda>t. t \<noteq> [] \<and> \<not> list_ex line_terminator t)
       (concat (map (\<lambda>i.
          concat (map (\<lambda>s2. map (\<lambda>j. drop j s2) (rev [1..<Suc (length (takeWhile is_space s2))]))
            (let s1 = drop i r in if starts_with (js '':'') s1 then [tl s1, s1] else [s1])))
          (rev [0..<Suc (length (takeWhile is_space r))])))"

definition revert_prefix :: "jstr \<Rightarrow> jstr option" where
  "revert_prefix s =
     (case skip_word (js ''revert'') (dropWhile is_space s) of
        None \<Rightarrow> None
      | Some r \<Rightarrow> (case prefix_captures r of [] \<Rightarrow> None | t # _ \<Rightarrow> Some t))"

definition strip_quotes :: "jstr \<Rightarrow> jstr" where
  "strip_quotes s =
     (let t = trim s in
      if t \<noteq> [] \<and> ((hd t = ch (CHR 0x22) \<and> last t = ch (CHR 0x22)) \<or> (hd t = 0x201C \<and> last t = 0x201D))
      then butlast (tl t) else t)"

function collapse_spaces :: "jstr \<Rightarrow> jstr" where
  "collapse_spaces [] = []"
| "collapse_spaces (c # s) =
     (if is_space c then blank_char # collapse_spaces (dropWhile is_space s) else c # collapse_spaces s)"
  by pat_completeness auto

termination
  by (relation "measure length") (auto simp: less_Suc_eq_le length_dropWhile_le)

definition normalize_title :: "jstr \<Rightarrow> jstr option" where
  "normalize_title s =
     (let t = trim (collapse_spaces s) in if t = [] \<or> length t > TITLE_MAX then None else Some t)"

text \<open>\<open>lower\<close> stands for \<open>toLowerCase\<close> on all of Unicode.\<close>

fun revert_key :: "(jstr \<Rightarrow> jstr) \<Rightarrow> revert_target \<Rightarrow> jstr" where
  "revert_key lower (Commit_target sha) = js ''c:'' @ sha"
| "revert_key lower (Title_target title) = js ''t:'' @ lower title"

text \<open>The map of what was found, in the order of first insertion.\<close>

fun add_revert :: "(jstr \<Rightarrow> jstr) \<Rightarrow> revert \<Rightarrow> (jstr \<times> revert) list \<Rightarrow> (jstr \<times> revert) list" where
  "add_revert lower r [] = [(revert_key lower (rv_target r), r)]"
| "add_revert lower r ((k, e) # found) =
     (if k = revert_key lower (rv_target r)
      then (k, if rv_confidence e = Heuristic \<and> rv_confidence r = Exact then r else e) # found
      else (k, e) # add_revert lower r found)"

definition revert_of :: "jstr \<Rightarrow> revert_target \<Rightarrow> revert_confidence \<Rightarrow> nat \<Rightarrow> revert" where
  "revert_of text target confidence i =
     \<lparr>rv_target = target, rv_confidence = confidence, rv_evidence = evidence_line text i\<rparr>"

definition title_reverts :: "jstr \<Rightarrow> nat \<Rightarrow> jstr \<Rightarrow> revert list" where
  "title_reverts text i t =
     (case normalize_title t of None \<Rightarrow> [] | Some title \<Rightarrow> [revert_of text (Title_target title) Heuristic i])"

definition extract_reverts :: "(jstr \<Rightarrow> jstr) \<Rightarrow> jstr \<Rightarrow> bool \<Rightarrow> revert list" where
  "extract_reverts lower text is_title =
     (if text = [] then []
      else
        (let masked = mask_excluded text;
             trailers = map (\<lambda>(i, sha). revert_of text (Commit_target sha) Exact i) (scan revert_trailer None 0 masked);
             quoted = concat (map (\<lambda>(i, t). title_reverts text i t) (scan revert_quoted None 0 masked));
             prefixed = (if is_title
                         then (case revert_prefix masked of None \<Rightarrow> [] | Some t \<Rightarrow> title_reverts text 0 (strip_quotes t))
                         else [])
         in map snd (foldl (\<lambda>found r. add_revert lower r found) [] (trailers @ quoted @ prefixed))))"

definition is_title_revert :: "revert \<Rightarrow> bool" where
  "is_title_revert r \<longleftrightarrow> (case rv_target r of Title_target _ \<Rightarrow> True | Commit_target _ \<Rightarrow> False)"

definition extract_commit_reverts :: "(jstr \<Rightarrow> jstr) \<Rightarrow> jstr \<Rightarrow> revert list" where
  "extract_commit_reverts lower msg =
     (let subject = commit_subject msg; body = extract_reverts lower msg False in
      if list_ex is_title_revert body then body
      else body @ filter is_title_revert (extract_reverts lower subject True))"

section \<open>Reverts are found once\<close>

lemma keys_add_revert:
  "fst ` set (add_revert lower r found) = insert (revert_key lower (rv_target r)) (fst ` set found)"
proof (induction found)
  case (Cons ke found)
  then show ?case by (cases ke; cases "fst ke = revert_key lower (rv_target r)") auto
qed simp

lemma distinct_add_revert: "distinct (map fst found) \<Longrightarrow> distinct (map fst (add_revert lower r found))"
proof (induction found)
  case (Cons ke found)
  obtain k e where ke: "ke = (k, e)" by (cases ke)
  show ?case using Cons keys_add_revert[of lower r found] unfolding ke by (auto split: if_splits)
qed simp

definition keyed :: "(jstr \<Rightarrow> jstr) \<Rightarrow> (jstr \<times> revert) list \<Rightarrow> bool" where
  "keyed lower found \<longleftrightarrow> map fst found = map (\<lambda>r. revert_key lower (rv_target r)) (map snd found)"

lemma keyed_add_revert: "keyed lower found \<Longrightarrow> keyed lower (add_revert lower r found)"
proof (induction found)
  case (Cons ke found)
  then show ?case
    by (cases ke; cases "fst ke = revert_key lower (rv_target r)") (auto simp: keyed_def)
qed (simp add: keyed_def)

lemma distinct_added:
  "distinct (map fst found) \<and> keyed lower found \<Longrightarrow>
   distinct (map fst (foldl (\<lambda>found r. add_revert lower r found) found rs)) \<and>
   keyed lower (foldl (\<lambda>found r. add_revert lower r found) found rs)"
  by (induction rs arbitrary: found) (simp_all add: distinct_add_revert keyed_add_revert)

lemma distinct_reverts: "distinct (map (\<lambda>r. revert_key lower (rv_target r)) (extract_reverts lower text is_title))"
proof (cases "text = []")
  case False
  define found where "found = foldl (\<lambda>found r. add_revert lower r found) []
    (map (\<lambda>(i, sha). revert_of text (Commit_target sha) Exact i) (scan revert_trailer None 0 (mask_excluded text)) @
     concat (map (\<lambda>(i, t). title_reverts text i t) (scan revert_quoted None 0 (mask_excluded text))) @
     (if is_title
      then (case revert_prefix (mask_excluded text) of None \<Rightarrow> [] | Some t \<Rightarrow> title_reverts text 0 (strip_quotes t))
      else []))"
  have "distinct (map fst found) \<and> keyed lower found"
    unfolding found_def by (rule distinct_added) (simp add: keyed_def)
  moreover have "extract_reverts lower text is_title = map snd found"
    using False by (simp add: extract_reverts_def Let_def found_def)
  ultimately show ?thesis unfolding keyed_def by metis
qed (simp add: extract_reverts_def)

section \<open>Every cherry-pick trailer is found\<close>

lemma scan_sound:
  "(i, a) \<in> set (scan m b k s) \<Longrightarrow> \<exists>j n b'. j < length s \<and> i = k + j \<and> m b' (drop j s) = Some (a, n)"
proof (induction m b k s rule: scan.induct)
  case (2 m b k c s)
  show ?case
  proof (cases "m b (c # s)")
    case None
    with "2.prems" have "(i, a) \<in> set (scan m (Some c) (Suc k) s)" by simp
    from "2.IH"(1)[OF None this] obtain j n b' where
      "j < length s" "i = Suc k + j" "m b' (drop j s) = Some (a, n)" by blast
    then show ?thesis by (intro exI[of _ "Suc j"] exI[of _ n] exI[of _ b']) auto
  next
    case (Some an)
    obtain a' n where an: "an = (a', n)" by (cases an)
    note some = Some[unfolded an]
    from "2.prems" some have "(i, a) = (k, a') \<or>
        (i, a) \<in> set (scan m (Some (last (take (Suc (n - 1)) (c # s)))) (k + Suc (n - 1)) (drop (n - 1) s))" by auto
    then show ?thesis
    proof
      assume "(i, a) = (k, a')"
      then show ?thesis using some by (intro exI[of _ 0] exI[of _ n] exI[of _ b]) auto
    next
      assume "(i, a) \<in> set (scan m (Some (last (take (Suc (n - 1)) (c # s)))) (k + Suc (n - 1)) (drop (n - 1) s))"
      from "2.IH"(2)[OF some refl this] obtain j n' b' where
        "j < length (drop (n - 1) s)" "i = k + Suc (n - 1) + j" "m b' (drop j (drop (n - 1) s)) = Some (a, n')" by blast
      then show ?thesis
        by (intro exI[of _ "Suc (n - 1) + j"] exI[of _ n'] exI[of _ b']) (auto simp: add.commute)
    qed
  qed
qed simp

text \<open>A matcher whose matches never start within another match, whatever comes before them.\<close>

definition separate_matches :: "(unit16 option \<Rightarrow> jstr \<Rightarrow> ('a \<times> nat) option) \<Rightarrow> bool" where
  "separate_matches m \<longleftrightarrow> (\<forall>b b' s. m b s = m b' s) \<and>
     (\<forall>b s a n j. m b s = Some (a, n) \<longrightarrow> 0 < j \<longrightarrow> j < n \<longrightarrow> m b (drop j s) = None)"

lemma separate_matchesD:
  assumes "separate_matches m" and "m b s = Some (a, n)" "0 < j" "j < n"
  shows "m b (drop j s) = None"
  using assms unfolding separate_matches_def by blast

lemma scan_complete:
  "separate_matches m \<Longrightarrow> m b' (drop j s) = Some (a, n) \<Longrightarrow> j < length s \<Longrightarrow> (k + j, a) \<in> set (scan m b k s)"
proof (induction m b k s arbitrary: j rule: scan.induct)
  case (1 m b k)
  then show ?case by simp
next
  case (2 m b k c s)
  have same: "m b1 t = m b2 t" for b1 b2 t using "2.prems"(1) unfolding separate_matches_def by blast
  have found: "m b (drop j (c # s)) = Some (a, n)" using "2.prems"(2) same by metis
  show ?case
  proof (cases "m b (c # s)")
    case None
    with found obtain j' where j: "j = Suc j'" by (cases j) auto
    with "2.IH"(1)[OF None "2.prems"(1), of j'] "2.prems"(2,3) None show ?thesis by simp
  next
    case (Some an)
    obtain a' n' where an: "an = (a', n')" by (cases an)
    note some = Some[unfolded an]
    show ?thesis
    proof (cases j)
      case 0
      with found some show ?thesis by simp
    next
      case (Suc j')
      have "m b (drop j (c # s)) = None" if "j < n'"
        by (rule separate_matchesD[OF "2.prems"(1) some]) (use Suc that in simp_all)
      with found have "n' \<le> j" by force
      then obtain i where i: "j = Suc (n' - 1) + i" using Suc le_Suc_ex[of "Suc (n' - 1)" j] by (cases n') auto
      then have "m b' (drop i (drop (n' - 1) s)) = Some (a, n)" "i < length (drop (n' - 1) s)"
        using "2.prems"(2,3) by (auto simp: add.commute)
      from "2.IH"(2)[OF some refl "2.prems"(1) this] some i show ?thesis by (simp add: add.assoc)
    qed
  qed
qed

lemma skip_word_split:
  assumes "skip_word w s = Some r"
  shows "\<exists>p. s = p @ r \<and> to_lower p = w"
  using assms by (intro exI[of _ "take (length w) s"]) (auto simp: skip_word_def split: if_splits)

lemma skip_spaces_split: "skip_spaces s = Some r \<Longrightarrow> \<exists>p. s = p @ r \<and> list_all is_space p"
  by (intro exI[of _ "takeWhile is_space s"])
    (auto simp: skip_spaces_def list_all_iff dest: set_takeWhileD split: list.splits if_splits)

lemma paren_lower: "ch CHR ''('' \<in> set p \<Longrightarrow> ch CHR ''('' \<in> set (to_lower p)"
proof -
  assume "ch CHR ''('' \<in> set p"
  moreover have "lower_unit (ch CHR ''('') = ch CHR ''(''" by code_simp
  ultimately show ?thesis unfolding to_lower_def by (metis image_eqI list.set_map)
qed

lemma paren_not_space: "\<not> is_space (ch CHR ''('')" "\<not> is_hex_any (ch CHR ''('')"
  by code_simp+

lemma skip_words_split:
  assumes "skip_words ws s = Some r" "\<forall>w \<in> set ws. ch CHR ''('' \<notin> set w"
  shows "\<exists>p. s = p @ r \<and> ch CHR ''('' \<notin> set p"
  using assms
proof (induction ws arbitrary: s)
  case (Cons w ws)
  then obtain r1 r2 where "skip_word w s = Some r1" "skip_spaces r1 = Some r2" "skip_words ws r2 = Some r"
    by (auto split: option.splits)
  with Cons.IH[of r2] Cons.prems obtain p1 p2 p3 where "s = p1 @ r1" "to_lower p1 = w" "r1 = p2 @ r2"
    "list_all is_space p2" "r2 = p3 @ r" "ch CHR ''('' \<notin> set p3"
    using skip_word_split skip_spaces_split by (metis list.set_intros(2))
  with Cons.prems paren_lower[of p1] paren_not_space show ?case
    by (intro exI[of _ "p1 @ p2 @ p3"]) (auto simp: list_all_iff)
qed simp

lemma cherry_trailer_shape:
  assumes "cherry_trailer b s = Some (sha, n)"
  shows "\<exists>p r. s = ch CHR ''('' # p @ r \<and> ch CHR ''('' \<notin> set p \<and> n = Suc (length p)"
proof -
  from assms obtain r0 r1 r2 r3 where s: "s = ch CHR ''('' # r0"
    and words: "skip_words [js ''cherry'', js ''picked'', js ''from'', js ''commit''] (dropWhile is_space r0) = Some r1"
    and sha: "full_sha_prefix r1 = Some (sha, r2)" and close: "dropWhile is_space r2 = ch CHR '')'' # r3"
    and n: "n = length s - length r3"
    unfolding cherry_trailer_def by (auto simp del: js_Cons split: list.splits option.splits if_splits)
  have "\<forall>w \<in> set [js ''cherry'', js ''picked'', js ''from'', js ''commit'']. ch CHR ''('' \<notin> set w" by simp
  from skip_words_split[OF words this] obtain p1 where p1: "dropWhile is_space r0 = p1 @ r1" "ch CHR ''('' \<notin> set p1" by blast
  have r0: "r0 = takeWhile is_space r0 @ p1 @ r1" using p1(1) by (metis takeWhile_dropWhile_id)
  have r1: "r1 = take 40 r1 @ r2" "list_all is_hex_any (take 40 r1)"
    using sha by (auto simp: full_sha_prefix_def split: if_splits)
  have r2: "r2 = takeWhile is_space r2 @ ch CHR '')'' # r3" using close by (metis takeWhile_dropWhile_id)
  let ?p = "takeWhile is_space r0 @ p1 @ take 40 r1 @ takeWhile is_space r2 @ [ch CHR '')'']"
  have split: "r0 = ?p @ r3" using r0 r1(1) r2 by (metis append.assoc append_Cons append_Nil)
  have "ch CHR ''('' \<notin> set ?p"
    using p1(2) r1(2) paren_not_space by (auto simp: list_all_iff dest: set_takeWhileD)
  moreover have "length r0 = length ?p + length r3" using arg_cong[OF split, of length] by (simp only: length_append)
  then have "n = Suc (length ?p)" unfolding n s by (simp only: length_Cons)
  ultimately show ?thesis using s split by blast
qed

lemma cherry_separate: "separate_matches cherry_trailer"
proof -
  have "cherry_trailer b (drop j s) = None"
    if m: "cherry_trailer b s = Some (a, n)" and j: "0 < j" "j < n" for b s a n j
  proof -
    from cherry_trailer_shape[OF m] obtain p r where s: "s = ch CHR ''('' # p @ r" "ch CHR ''('' \<notin> set p" "n = Suc (length p)"
      by blast
    with j obtain j' where j': "j = Suc j'" "j' < length p" by (cases j) auto
    with s have d: "drop j s = p ! j' # drop (Suc j') p @ r" by (simp add: Cons_nth_drop_Suc)
    have "p ! j' \<noteq> ch CHR ''(''" using s(2) j'(2) nth_mem by metis
    then show ?thesis unfolding d cherry_trailer_def by simp
  qed
  then show ?thesis unfolding separate_matches_def by (simp add: cherry_trailer_def)
qed

lemma keys_keep_first: "fst ` set (keep_first seen kvs) = fst ` set seen \<union> fst ` set kvs"
  by (induction seen kvs rule: keep_first.induct) auto

lemma distinct_keep_first: "distinct (map fst seen) \<Longrightarrow> distinct (map fst (keep_first seen kvs))"
  by (induction seen kvs rule: keep_first.induct) auto

text \<open>The cherry-picks read from a commit message are exactly the commits that a trailer outside
  quotations and code names, each once.\<close>

theorem cherry_picks_exact:
  "distinct (map fst (extract_cherry_picks msg)) \<and>
   fst ` set (extract_cherry_picks msg) =
     {sha. \<exists>i n. i < length msg \<and> cherry_trailer None (drop i (mask_excluded msg)) = Some (sha, n)}"
proof (cases "msg = []")
  case False
  let ?m = "mask_excluded msg"
  have len: "length ?m = length msg" using covers_length[OF mask_covers] .
  have same: "cherry_trailer b s = cherry_trailer None s" for b s by (simp add: cherry_trailer_def)
  have "(\<exists>i. (i, sha) \<in> set (scan cherry_trailer None 0 ?m)) \<longleftrightarrow>
      (\<exists>i n. i < length msg \<and> cherry_trailer None (drop i ?m) = Some (sha, n))" for sha
    using scan_sound[of _ sha cherry_trailer None 0 ?m] scan_complete[OF cherry_separate, of None _ ?m sha _ 0 None]
    by (metis add_0 len same)
  moreover have "fst ` set (extract_cherry_picks msg) = {sha. \<exists>i. (i, sha) \<in> set (scan cherry_trailer None 0 ?m)}"
    using False by (force simp: extract_cherry_picks_def keys_keep_first)
  ultimately show ?thesis using False by (simp add: extract_cherry_picks_def distinct_keep_first)
qed (simp add: extract_cherry_picks_def)

end
