(* ===== verification/Es_Scoped_Query.thy ===== *)
theory Es_Scoped_Query
  imports Es_Query_Meaning
begin

text \<open>
  The access scope of a user and the filter that restricts a search to it
  (\<open>packages/es/src/scoped-query.ts\<close>). The last section shows that the filter of the search and
  \<open>isRepositoryInScope\<close>, which guards the paths that do not go through the search, are the same
  rule.
\<close>

section \<open>Scopes\<close>

definition EXPLICIT_SCOPE_LIMIT :: nat where
  "EXPLICIT_SCOPE_LIMIT = 500"

datatype access_scope =
    Explicit_scope "int list"
  | Org_team_scope "int list" "int list" "jstr list"

datatype scope_unavailable = No_repository | No_organization

fun scope_filter :: "access_scope \<Rightarrow> es_query" where
  "scope_filter (Explicit_scope repositories) = Terms (js ''repository_id'') (map Es_number repositories)"
| "scope_filter (Org_team_scope orgs teams visibilities) =
     Filter_should [Terms (js ''org_id'') (map Es_number orgs)]
       [Terms (js ''visibility'') (map Es_text visibilities),
        Terms (js ''allowed_team_ids'') (map Es_number teams)]"

definition apply_mandatory_scope_filter ::
    "es_query \<Rightarrow> access_scope \<Rightarrow> (scope_unavailable, es_query) result" where
  "apply_mandatory_scope_filter q scope =
     (case scope of
        Explicit_scope repositories \<Rightarrow>
          if repositories = [] then Inl No_repository else Inr (Bool_query [q] [scope_filter scope] [])
      | Org_team_scope orgs teams visibilities \<Rightarrow>
          if orgs = [] then Inl No_organization else Inr (Bool_query [q] [scope_filter scope] []))"

definition apply_archive_scope_filter :: "es_query \<Rightarrow> int list \<Rightarrow> (scope_unavailable, es_query) result" where
  "apply_archive_scope_filter q repositories =
     (if repositories = [] then Inl No_repository
      else Inr (Bool_query [q] [Terms (js ''repository_id'') (map Es_number repositories)] []))"

definition should_use_org_team_scope :: "nat \<Rightarrow> bool" where
  "should_use_org_team_scope n \<longleftrightarrow> n > EXPLICIT_SCOPE_LIMIT"

record scoped_repository =
  sr_id :: int
  sr_org :: int
  sr_visibility :: jstr
  sr_teams :: "int list"

fun is_repository_in_scope :: "scoped_repository \<Rightarrow> access_scope \<Rightarrow> bool" where
  "is_repository_in_scope r (Explicit_scope repositories) = (sr_id r \<in> set repositories)"
| "is_repository_in_scope r (Org_team_scope orgs teams visibilities) =
     (if sr_org r \<notin> set orgs then False
      else if sr_visibility r \<in> set visibilities then True
      else list_ex (\<lambda>t. t \<in> set teams) (sr_teams r))"

section \<open>The filter and the check agree\<close>

text \<open>The fields every indexed document carries for its repository.\<close>

definition carries_repository :: "('d \<Rightarrow> jstr \<Rightarrow> es_value list) \<Rightarrow> scoped_repository \<Rightarrow> 'd \<Rightarrow> bool" where
  "carries_repository field r d \<longleftrightarrow>
     field d (js ''repository_id'') = [Es_number (sr_id r)] \<and>
     field d (js ''org_id'') = [Es_number (sr_org r)] \<and>
     field d (js ''visibility'') = [Es_text (sr_visibility r)] \<and>
     field d (js ''allowed_team_ids'') = map Es_number (sr_teams r)"

context search_engine
begin

lemma matches_scope_filter:
  assumes "carries_repository field r d"
  shows "matches d (scope_filter scope) \<longleftrightarrow> is_repository_in_scope r scope"
  using assms
  by (cases scope) (auto simp: carries_repository_def matches_terms matches_filter_should list_ex_iff
      simp del: js_Cons)

lemma matches_scoped:
  assumes "apply_mandatory_scope_filter q scope = Inr scoped" and "carries_repository field r d"
  shows "matches d scoped \<longleftrightarrow> matches d q \<and> is_repository_in_scope r scope"
  using assms(1) matches_scope_filter[OF assms(2), of scope]
  by (auto simp: apply_mandatory_scope_filter_def matches_bool simp del: scope_filter.simps
      is_repository_in_scope.simps split: access_scope.splits if_splits)

lemma matches_archive:
  assumes "apply_archive_scope_filter q repositories = Inr scoped" and "carries_repository field r d"
  shows "matches d scoped \<longleftrightarrow> matches d q \<and> sr_id r \<in> set repositories"
  using assms
  by (auto simp: apply_archive_scope_filter_def carries_repository_def matches_bool matches_terms
      simp del: js_Cons split: if_splits)

end

text \<open>An empty scope is an error, never a search without a filter.\<close>

lemma scope_filter_refused:
  assumes "apply_mandatory_scope_filter q scope = Inl e"
  shows "\<not> is_repository_in_scope r scope"
  using assms by (cases scope) (auto simp: apply_mandatory_scope_filter_def split: if_splits)

section \<open>Properties\<close>

text \<open>C3: A search never shows what its user may not see: an empty scope, and only an empty scope,
  builds no query at all; otherwise the query sent to the engine, with the mandatory scope
  filter added, finds a document exactly when the search query it was built from holds of the
  document and the document's repository is in the user's scope as the single-repository check
  decides it. The document carries the fields of its repository and the engine evaluates the
  documented clause types.\<close>

theorem scoped_search_exact:
  assumes "search_engine matches field" and "wf_ast resolve ast"
    and "build_query fmt ast res opts = Inr built"
    and "carries_repository field r d"
  shows "case apply_mandatory_scope_filter (query_of built) scope of
      Inl e \<Rightarrow> (case scope of Explicit_scope repositories \<Rightarrow> repositories = [] | Org_team_scope orgs _ _ \<Rightarrow> orgs = [])
    | Inr scoped \<Rightarrow>
        (case scope of Explicit_scope repositories \<Rightarrow> repositories \<noteq> [] | Org_team_scope orgs _ _ \<Rightarrow> orgs \<noteq> []) \<and>
        (matches d scoped \<longleftrightarrow> query_holds matches field fmt res opts ast d \<and> is_repository_in_scope r scope)"
proof (cases "apply_mandatory_scope_filter (query_of built) scope")
  case (Inl e)
  then show ?thesis by (auto simp: apply_mandatory_scope_filter_def split: access_scope.splits if_splits)
next
  case (Inr scoped)
  then have "case scope of Explicit_scope repositories \<Rightarrow> repositories \<noteq> [] | Org_team_scope orgs _ _ \<Rightarrow> orgs \<noteq> []"
    by (auto simp: apply_mandatory_scope_filter_def split: access_scope.splits if_splits)
  with Inr search_engine.matches_scoped[OF assms(1) Inr assms(4)]
    search_engine.build_query_meaning[OF assms(1,3) wf_ast_translatable[OF assms(2)]] show ?thesis by simp
qed

section \<open>A search in a scope\<close>

definition sample_repository :: scoped_repository where
  "sample_repository = \<lparr>sr_id = 7, sr_org = 2, sr_visibility = js ''private'', sr_teams = [5]\<rparr>"

definition sample_scoped_doc :: "jstr \<Rightarrow> es_value list" where
  "sample_scoped_doc f =
     (if f = js ''repository_id'' then [Es_number 7] else if f = js ''org_id'' then [Es_number 2]
      else if f = js ''visibility'' then [Es_text (js ''private'')]
      else if f = js ''allowed_team_ids'' then [Es_number 5] else sample_doc f)"

lemma sample_carries: "carries_repository (\<lambda>d. d) sample_repository sample_scoped_doc"
  by code_simp

theorem scoped_search_exact_witness:
  "query_holds (doc_matches no_text no_dates) (\<lambda>d. d) (\<lambda>_. None) sample_resolution sample_options
     sample_space_ast sample_scoped_doc \<and>
   is_repository_in_scope sample_repository (Org_team_scope [2] [5, 6] [js ''public''])"
proof -
  let ?scope = "Org_team_scope [2] [5, 6] [js ''public'']"
  let ?scoped = "Bool_query [sample_query] [scope_filter ?scope] []"
  have a: "apply_mandatory_scope_filter (query_of \<lparr>query_of = sample_query, unresolved_of = []\<rparr>) ?scope = Inr ?scoped"
    by (simp add: apply_mandatory_scope_filter_def)
  have "doc_matches no_text no_dates sample_scoped_doc ?scoped" by code_simp
  with scoped_search_exact[OF doc_engine.search_engine_axioms sample_space_wf sample_builds sample_carries, of ?scope,
      unfolded a sum.case]
  show ?thesis by blast
qed

end
