(* ===== verification/Authz_Scope.thy ===== *)
theory Authz_Scope
  imports Es_Scoped_Query JSON_Value
begin

text \<open>
  The access scope of a user and its two caches (\<open>packages/authz/src/scope.ts\<close>,
  \<open>packages/authz/src/scope-database.ts\<close> and the statements it runs in
  \<open>packages/db/src/repositories/auth.ts\<close>). Scopes of different users live in separate rows and
  keys, so the state is that of one user: the row of \<open>app_user\<close>, the row of \<open>permission_cache\<close>,
  the Redis entry, and the calls of \<open>resolveCached\<close> on their way, each at the await it has
  reached. Calls, invalidations and the clock interleave freely. The application's \<open>now()\<close> and that of
  the database, which \<open>writePermissionCache\<close> stores, are one clock: a skew between them is not
  represented. Ids, times and versions are integers. The limit on concurrent refreshes only delays a call and is part of the freedom
  with which a call may wait.
\<close>

section \<open>Scopes\<close>

definition CACHE_TTL_MS :: int where
  "CACHE_TTL_MS = 5 * 60 * 1000"

record cached_scope =
  cs_repositories :: "int list"
  cs_orgs :: "int list"
  cs_teams :: "int list"
  cs_visibilities :: "jstr list"
  cs_refreshed :: int
  cs_version :: int

definition to_access_scope :: "cached_scope \<Rightarrow> access_scope" where
  "to_access_scope s =
     (if \<not> should_use_org_team_scope (length (cs_repositories s)) then Explicit_scope (cs_repositories s)
      else Org_team_scope (cs_orgs s) (cs_teams s) (cs_visibilities s))"

definition is_fresh :: "int \<Rightarrow> cached_scope \<Rightarrow> bool" where
  "is_fresh now s \<longleftrightarrow> now - cs_refreshed s < CACHE_TTL_MS"

subsection \<open>The text in Redis\<close>

fun int_of_json :: "json \<Rightarrow> int option" where
  "int_of_json (J_int n) = Some n"
| "int_of_json _ = None"

fun text_of_json :: "json \<Rightarrow> jstr option" where
  "text_of_json (J_string s) = Some s"
| "text_of_json _ = None"

fun collect :: "(json \<Rightarrow> 'a option) \<Rightarrow> json list \<Rightarrow> 'a list option" where
  "collect f [] = Some []"
| "collect f (v # vs) =
     (case f v of None \<Rightarrow> None | Some x \<Rightarrow> map_option (\<lambda>xs. x # xs) (collect f vs))"

fun json_list :: "(json \<Rightarrow> 'a option) \<Rightarrow> json option \<Rightarrow> 'a list option" where
  "json_list f (Some (J_array vs)) = collect f vs"
| "json_list f _ = None"

definition parse_cached_scope :: "json \<Rightarrow> cached_scope option" where
  "parse_cached_scope parsed =
     (case as_record parsed of
        None \<Rightarrow> None
      | Some v \<Rightarrow>
          (case (json_list int_of_json (member v (js ''repositoryIds'')),
                 json_list int_of_json (member v (js ''orgIds'')),
                 json_list int_of_json (member v (js ''teamIds''))) of
             (Some repositories, Some orgs, Some teams) \<Rightarrow>
               (case json_list text_of_json (member v (js ''visibilities'')) of
                  None \<Rightarrow> None
                | Some visibilities \<Rightarrow>
                    (case (Option.bind (member v (js ''refreshedAt'')) int_of_json,
                           Option.bind (member v (js ''version'')) int_of_json) of
                       (Some at, Some version) \<Rightarrow>
                         Some \<lparr>cs_repositories = repositories, cs_orgs = orgs, cs_teams = teams,
                               cs_visibilities = visibilities, cs_refreshed = at, cs_version = version\<rparr>
                     | _ \<Rightarrow> None))
           | _ \<Rightarrow> None))"

text \<open>\<open>JSON.stringify(scope)\<close>, as a value.\<close>

definition json_of_scope :: "cached_scope \<Rightarrow> json" where
  "json_of_scope s = J_object
     [(js ''repositoryIds'', J_array (map J_int (cs_repositories s))),
      (js ''orgIds'', J_array (map J_int (cs_orgs s))),
      (js ''teamIds'', J_array (map J_int (cs_teams s))),
      (js ''visibilities'', J_array (map J_string (cs_visibilities s))),
      (js ''refreshedAt'', J_int (cs_refreshed s)), (js ''version'', J_int (cs_version s))]"

lemma collect_map: "(\<And>x. f (g x) = Some x) \<Longrightarrow> collect f (map g xs) = Some xs"
  by (induction xs) simp_all

lemma parse_json_of_scope [simp]: "parse_cached_scope (json_of_scope s) = Some s"
  by (simp add: parse_cached_scope_def json_of_scope_def member_def collect_map)

section \<open>The state of a user\<close>

record raw_scope =
  raw_repositories :: "int list"
  raw_orgs :: "int list"
  raw_teams :: "int list"
  raw_visibilities :: "jstr list"

text \<open>Where a call of \<open>resolveCached\<close> waits, or how it ended.\<close>

datatype call =
    At_redis
  | At_cache
  | Filling cached_scope int
  | Joined nat
  | At_user
  | At_source int
  | Storing cached_scope
  | Publishing cached_scope int
  | Served cached_scope
  | Unavailable

text \<open>
  \<open>calls\<close> lists every call with the process it runs in, \<open>in_flight\<close> is the map \<open>#inFlight\<close> of
  each process. \<open>last_bump\<close> is the time of the last invalidation and is not part of the code.
\<close>

record scope_state =
  clock :: int
  user_version :: "int option"
  cache_row :: "cached_scope option"
  redis_entry :: "(json \<times> int) option"
  calls :: "(nat \<times> call) list"
  in_flight :: "nat \<Rightarrow> nat option"
  forgetting :: nat
  last_bump :: int

definition set_call :: "nat \<Rightarrow> call \<Rightarrow> scope_state \<Rightarrow> scope_state" where
  "set_call i c s = s\<lparr>calls := (calls s)[i := (fst (calls s ! i), c)]\<rparr>"

section \<open>Operations\<close>

definition read_redis :: "int \<Rightarrow> (json \<times> int) option \<Rightarrow> cached_scope option" where
  "read_redis now entry =
     (case entry of
        None \<Rightarrow> None
      | Some (body, expires) \<Rightarrow>
          if expires \<le> now then None
          else (case parse_cached_scope body of
                  None \<Rightarrow> None
                | Some scope \<Rightarrow> if is_fresh now scope then Some scope else None))"

text \<open>The seconds of \<open>#writeRedis\<close>; it does not write when they are not positive.\<close>

definition redis_ttl :: "int \<Rightarrow> cached_scope \<Rightarrow> int" where
  "redis_ttl now scope = - ((- (cs_refreshed scope + CACHE_TTL_MS - now)) div 1000)"

definition write_redis :: "cached_scope \<Rightarrow> int \<Rightarrow> scope_state \<Rightarrow> scope_state" where
  "write_redis scope seconds s = s\<lparr>redis_entry := Some (json_of_scope scope, clock s + seconds * 1000)\<rparr>"

text \<open>\<open>#refresh\<close> up to its first await: it joins the refresh of its process or starts one.\<close>

definition start_refresh :: "nat \<Rightarrow> scope_state \<Rightarrow> scope_state" where
  "start_refresh i s =
     (let p = fst (calls s ! i) in
      case in_flight s p of
        Some j \<Rightarrow> set_call i (Joined j) s
      | None \<Rightarrow> set_call i At_user (s\<lparr>in_flight := (in_flight s)(p := Some i)\<rparr>))"

definition after_redis :: "nat \<Rightarrow> bool \<Rightarrow> scope_state \<Rightarrow> scope_state" where
  "after_redis i reachable s =
     (case (if reachable then read_redis (clock s) (redis_entry s) else None) of
        Some scope \<Rightarrow> set_call i (Served scope) s
      | None \<Rightarrow> set_call i At_cache s)"

definition after_cache :: "nat \<Rightarrow> scope_state \<Rightarrow> scope_state" where
  "after_cache i s =
     (case cache_row s of
        Some scope \<Rightarrow> if is_fresh (clock s) scope then
                        set_call i (if redis_ttl (clock s) scope \<le> 0 then Served scope
                                    else Filling scope (redis_ttl (clock s) scope)) s
                      else start_refresh i s
      | None \<Rightarrow> start_refresh i s)"

text \<open>The end of \<open>#refreshOnce\<close>: the promise leaves \<open>#inFlight\<close>.\<close>

definition end_refresh :: "nat \<Rightarrow> call \<Rightarrow> scope_state \<Rightarrow> scope_state" where
  "end_refresh i c s = set_call i c (s\<lparr>in_flight := (in_flight s)(fst (calls s ! i) := None)\<rparr>)"

definition after_user :: "nat \<Rightarrow> scope_state \<Rightarrow> scope_state" where
  "after_user i s =
     (case user_version s of
        None \<Rightarrow> end_refresh i Unavailable s
      | Some v \<Rightarrow> set_call i (At_source v) s)"

definition after_source :: "nat \<Rightarrow> int \<Rightarrow> raw_scope option \<Rightarrow> scope_state \<Rightarrow> scope_state" where
  "after_source i v fetched s =
     (case fetched of
        None \<Rightarrow> end_refresh i Unavailable s
      | Some answer \<Rightarrow>
          set_call i (Storing \<lparr>cs_repositories = raw_repositories answer, cs_orgs = raw_orgs answer,
                               cs_teams = raw_teams answer, cs_visibilities = raw_visibilities answer,
                               cs_refreshed = clock s, cs_version = v\<rparr>) s)"

text \<open>\<open>writePermissionCache\<close>: one statement; the row keeps the time of the database.\<close>

definition write_permission_cache ::
    "int \<Rightarrow> cached_scope \<Rightarrow> int option \<Rightarrow> cached_scope option \<Rightarrow> cached_scope option \<times> bool" where
  "write_permission_cache now scope version row =
     (if version = Some (cs_version scope) \<and>
         (case row of None \<Rightarrow> True | Some r \<Rightarrow> cs_version r \<le> cs_version scope)
      then (Some (scope\<lparr>cs_refreshed := now\<rparr>), True)
      else (row, False))"

definition after_store :: "nat \<Rightarrow> cached_scope \<Rightarrow> scope_state \<Rightarrow> scope_state" where
  "after_store i scope s =
     (case write_permission_cache (clock s) scope (user_version s) (cache_row s) of
        (row, written) \<Rightarrow>
          let s' = s\<lparr>cache_row := row\<rparr> in
          if \<not> written then end_refresh i (Served scope) s'
          else if redis_ttl (clock s) scope \<le> 0 then end_refresh i (Served scope) s'
          else set_call i (Publishing scope (redis_ttl (clock s) scope)) s')"

text \<open>\<open>invalidateUsers\<close> in the database, after which \<open>forget\<close> deletes the Redis key.\<close>

definition invalidate_user :: "scope_state \<Rightarrow> scope_state" where
  "invalidate_user s =
     s\<lparr>user_version := map_option (\<lambda>v. v + 1) (user_version s), cache_row := None,
       forgetting := Suc (forgetting s), last_bump := clock s\<rparr>"

definition forget_user :: "scope_state \<Rightarrow> scope_state" where
  "forget_user s = s\<lparr>redis_entry := None, forgetting := forgetting s - 1\<rparr>"

section \<open>Runs\<close>

inductive scope_step :: "scope_state \<Rightarrow> scope_state \<Rightarrow> bool" where
  Tick: "0 \<le> d \<Longrightarrow> scope_step s (s\<lparr>clock := clock s + d\<rparr>)"
| Register: "user_version s = None \<Longrightarrow> scope_step s (s\<lparr>user_version := Some 0\<rparr>)"
| Call: "scope_step s (s\<lparr>calls := calls s @ [(p, At_redis)]\<rparr>)"
| Redis_read: "i < length (calls s) \<Longrightarrow> calls s ! i = (p, At_redis) \<Longrightarrow> scope_step s (after_redis i ok s)"
| Cache_read: "i < length (calls s) \<Longrightarrow> calls s ! i = (p, At_cache) \<Longrightarrow> scope_step s (after_cache i s)"
| Fill: "i < length (calls s) \<Longrightarrow> calls s ! i = (p, Filling scope n) \<Longrightarrow>
    scope_step s (set_call i (Served scope) (if ok then write_redis scope n s else s))"
| User_read: "i < length (calls s) \<Longrightarrow> calls s ! i = (p, At_user) \<Longrightarrow> scope_step s (after_user i s)"
| Fetch: "i < length (calls s) \<Longrightarrow> calls s ! i = (p, At_source v) \<Longrightarrow> scope_step s (after_source i v fetched s)"
| Store: "i < length (calls s) \<Longrightarrow> calls s ! i = (p, Storing scope) \<Longrightarrow> scope_step s (after_store i scope s)"
| Publish: "i < length (calls s) \<Longrightarrow> calls s ! i = (p, Publishing scope n) \<Longrightarrow>
    scope_step s (end_refresh i (Served scope) (if ok then write_redis scope n s else s))"
| Join: "i < length (calls s) \<Longrightarrow> calls s ! i = (p, Joined j) \<Longrightarrow> j < length (calls s) \<Longrightarrow>
    snd (calls s ! j) = Served scope \<Longrightarrow> scope_step s (set_call i (Served scope) s)"
| Join_failed: "i < length (calls s) \<Longrightarrow> calls s ! i = (p, Joined j) \<Longrightarrow> j < length (calls s) \<Longrightarrow>
    snd (calls s ! j) = Unavailable \<Longrightarrow> scope_step s (set_call i Unavailable s)"
| Cache_error: "i < length (calls s) \<Longrightarrow> calls s ! i = (p, At_cache) \<Longrightarrow> scope_step s (set_call i Unavailable s)"
| Refresh_error: "i < length (calls s) \<Longrightarrow> snd (calls s ! i) \<in> {At_user, Storing scope} \<Longrightarrow>
    scope_step s (end_refresh i Unavailable s)"
| Invalidate: "scope_step s (invalidate_user s)"
| Forget: "0 < forgetting s \<Longrightarrow> scope_step s (forget_user s)"

definition new_scope_state :: "int \<Rightarrow> scope_state" where
  "new_scope_state now =
     \<lparr>clock = now, user_version = None, cache_row = None, redis_entry = None, calls = [],
      in_flight = (\<lambda>_. None), forgetting = 0, last_bump = now\<rparr>"

section \<open>The invariant\<close>

text \<open>
  What waits to be written to Redis, and what is there, was stored in the database: it is not newer
  than the user, and when it is older it was read before the last invalidation.
\<close>

definition stored_before :: "scope_state \<Rightarrow> cached_scope \<Rightarrow> bool" where
  "stored_before s scope \<longleftrightarrow>
     cs_refreshed scope \<le> clock s \<and>
     (\<exists>v. user_version s = Some v \<and> cs_version scope \<le> v \<and>
        (cs_version scope < v \<longrightarrow> cs_refreshed scope \<le> last_bump s))"

fun call_ok :: "scope_state \<Rightarrow> call \<Rightarrow> bool" where
  "call_ok s (Filling scope n) = stored_before s scope"
| "call_ok s (Publishing scope n) = stored_before s scope"
| "call_ok s (Storing scope) = (cs_refreshed scope \<le> clock s)"
| "call_ok s _ = True"

definition scope_inv :: "scope_state \<Rightarrow> bool" where
  "scope_inv s \<longleftrightarrow>
     last_bump s \<le> clock s \<and>
     (\<forall>row. cache_row s = Some row \<longrightarrow> user_version s = Some (cs_version row) \<and> cs_refreshed row \<le> clock s) \<and>
     (\<forall>body t. redis_entry s = Some (body, t) \<longrightarrow> (\<exists>scope. body = json_of_scope scope \<and> stored_before s scope)) \<and>
     list_all (\<lambda>(p, c). call_ok s c) (calls s)"

lemma set_call_simps [simp]:
  "clock (set_call i c s) = clock s" "user_version (set_call i c s) = user_version s"
  "cache_row (set_call i c s) = cache_row s" "redis_entry (set_call i c s) = redis_entry s"
  "last_bump (set_call i c s) = last_bump s"
  "calls (set_call i c s) = (calls s)[i := (fst (calls s ! i), c)]"
  by (simp_all add: set_call_def)

lemma write_redis_simps [simp]:
  "clock (write_redis scope n s) = clock s" "user_version (write_redis scope n s) = user_version s"
  "cache_row (write_redis scope n s) = cache_row s" "last_bump (write_redis scope n s) = last_bump s"
  "calls (write_redis scope n s) = calls s"
  "redis_entry (write_redis scope n s) = Some (json_of_scope scope, clock s + n * 1000)"
  by (simp_all add: write_redis_def)

text \<open>The invariant only grows weaker as time passes.\<close>

definition later :: "scope_state \<Rightarrow> scope_state \<Rightarrow> bool" where
  "later s s' \<longleftrightarrow> clock s \<le> clock s' \<and> user_version s' = user_version s \<and> last_bump s' = last_bump s"

lemma stored_before_later: "later s s' \<Longrightarrow> stored_before s scope \<Longrightarrow> stored_before s' scope"
  by (auto simp: stored_before_def later_def)

lemma call_ok_later: "later s s' \<Longrightarrow> call_ok s c \<Longrightarrow> call_ok s' c"
  by (cases c) (auto intro: stored_before_later simp: later_def)

lemma calls_ok_later:
  "later s s' \<Longrightarrow> list_all (\<lambda>(p, c). call_ok s c) cs \<Longrightarrow> list_all (\<lambda>(p, c). call_ok s' c) cs"
  by (auto simp: list_all_iff intro: call_ok_later)

lemma scope_invI:
  assumes "last_bump s \<le> clock s"
    and "\<And>row. cache_row s = Some row \<Longrightarrow> user_version s = Some (cs_version row) \<and> cs_refreshed row \<le> clock s"
    and "\<And>body t. redis_entry s = Some (body, t) \<Longrightarrow> \<exists>scope. body = json_of_scope scope \<and> stored_before s scope"
    and "list_all (\<lambda>(p, c). call_ok s c) (calls s)"
  shows "scope_inv s"
  using assms by (simp add: scope_inv_def)

lemma scope_invD:
  assumes "scope_inv s"
  shows "last_bump s \<le> clock s"
    and "cache_row s = Some row \<Longrightarrow> user_version s = Some (cs_version row) \<and> cs_refreshed row \<le> clock s"
    and "redis_entry s = Some (body, t) \<Longrightarrow> \<exists>scope. body = json_of_scope scope \<and> stored_before s scope"
    and "list_all (\<lambda>(p, c). call_ok s c) (calls s)"
    and "i < length (calls s) \<Longrightarrow> calls s ! i = (p, c) \<Longrightarrow> call_ok s c"
  using assms by (auto simp: scope_inv_def list_all_length)

lemma scope_inv_later:
  assumes "scope_inv s" "later s s'" "cache_row s' = cache_row s" "redis_entry s' = redis_entry s" "calls s' = calls s"
  shows "scope_inv s'"
proof (rule scope_invI)
  show "last_bump s' \<le> clock s'" using scope_invD(1)[OF assms(1)] assms(2) by (simp add: later_def)
  show "user_version s' = Some (cs_version row) \<and> cs_refreshed row \<le> clock s'" if "cache_row s' = Some row" for row
    using scope_invD(2)[OF assms(1)] that assms(2,3) by (force simp: later_def)
  show "\<exists>scope. body = json_of_scope scope \<and> stored_before s' scope" if "redis_entry s' = Some (body, t)" for body t
    using scope_invD(3)[OF assms(1)] that assms(4) stored_before_later[OF assms(2)] by metis
  show "list_all (\<lambda>(p, c). call_ok s' c) (calls s')"
    using calls_ok_later[OF assms(2) scope_invD(4)[OF assms(1)]] assms(5) by simp
qed

lemma scope_inv_set_call:
  assumes "scope_inv s" "call_ok s c"
  shows "scope_inv (set_call i c s)"
proof (rule scope_invI)
  have l: "later s (set_call i c s)" by (simp add: later_def)
  have "list_all (\<lambda>(p, c). call_ok s c) ((calls s)[i := (fst (calls s ! i), c)])"
    using scope_invD(4)[OF assms(1)] assms(2)
    by (auto simp: list_all_iff dest: set_update_subset_insert[THEN subsetD])
  from calls_ok_later[OF l this] show "list_all (\<lambda>(p, d). call_ok (set_call i c s) d) (calls (set_call i c s))"
    by simp
  show "\<exists>scope. body = json_of_scope scope \<and> stored_before (set_call i c s) scope"
    if "redis_entry (set_call i c s) = Some (body, t)" for body t
    using scope_invD(3)[OF assms(1)] that stored_before_later[OF l] by simp metis
qed (use scope_invD(1,2)[OF assms(1)] in simp_all)

lemma scope_inv_end_refresh:
  assumes "scope_inv s" "call_ok s c"
  shows "scope_inv (end_refresh i c s)"
  unfolding end_refresh_def
  by (rule scope_inv_set_call[OF scope_inv_later[OF assms(1)]])
    (use call_ok_later[OF _ assms(2)] in \<open>simp_all add: later_def\<close>)

lemma scope_inv_write:
  assumes "scope_inv s" "stored_before s scope"
  shows "scope_inv (write_redis scope n s)"
proof (rule scope_invI)
  have l: "later s (write_redis scope n s)" by (simp add: later_def)
  from calls_ok_later[OF l scope_invD(4)[OF assms(1)]]
  show "list_all (\<lambda>(p, c). call_ok (write_redis scope n s) c) (calls (write_redis scope n s))" by simp
  show "\<exists>sc. body = json_of_scope sc \<and> stored_before (write_redis scope n s) sc"
    if "redis_entry (write_redis scope n s) = Some (body, t)" for body t
    using that stored_before_later[OF l assms(2)] by auto
qed (use scope_invD(1,2)[OF assms(1)] in simp_all)

lemma row_stored: "scope_inv s \<Longrightarrow> cache_row s = Some row \<Longrightarrow> stored_before s row"
  using scope_invD(2) by (auto simp: stored_before_def)

lemma scope_inv_start_refresh: "scope_inv s \<Longrightarrow> scope_inv (start_refresh i s)"
  unfolding start_refresh_def Let_def
  by (auto split: option.split intro!: scope_inv_set_call elim!: scope_inv_later simp: later_def)

lemma scope_inv_after_cache: "scope_inv s \<Longrightarrow> scope_inv (after_cache i s)"
  unfolding after_cache_def
  by (auto split: option.split intro!: scope_inv_set_call scope_inv_start_refresh row_stored)

lemma scope_inv_after_store:
  assumes "scope_inv s" "cs_refreshed scope \<le> clock s"
  shows "scope_inv (after_store i scope s)"
proof (cases "write_permission_cache (clock s) scope (user_version s) (cache_row s)")
  case (Pair row written)
  let ?s = "s\<lparr>cache_row := row\<rparr>"
  have l: "later s ?s" by (simp add: later_def)
  have inv: "scope_inv ?s"
  proof (rule scope_invI)
    show "list_all (\<lambda>(p, c). call_ok ?s c) (calls ?s)"
      using calls_ok_later[OF l scope_invD(4)[OF assms(1)]] by simp
    show "\<exists>scope. body = json_of_scope scope \<and> stored_before ?s scope" if "redis_entry ?s = Some (body, t)" for body t
      using scope_invD(3)[OF assms(1)] that stored_before_later[OF l] by simp metis
    show "user_version ?s = Some (cs_version r) \<and> cs_refreshed r \<le> clock ?s" if "cache_row ?s = Some r" for r
      using that Pair scope_invD(2)[OF assms(1)] by (auto simp: write_permission_cache_def split: if_splits)
  qed (use scope_invD(1)[OF assms(1)] in simp)
  have "stored_before ?s scope" if written
    using that Pair assms(2) by (auto simp: write_permission_cache_def stored_before_def split: if_splits)
  then show ?thesis using inv
    by (auto simp: after_store_def Pair Let_def intro!: scope_inv_end_refresh scope_inv_set_call)
qed

lemma scope_inv_invalidate: "scope_inv s \<Longrightarrow> scope_inv (invalidate_user s)"
proof -
  assume inv: "scope_inv s"
  have st: "stored_before (invalidate_user s) scope" if "stored_before s scope" for scope
    using that by (auto simp: stored_before_def invalidate_user_def)
  have "call_ok (invalidate_user s) c" if "call_ok s c" for c
    using that st by (cases c) (auto simp: invalidate_user_def)
  with st inv show ?thesis
    by (intro scope_invI) (auto simp: scope_inv_def list_all_iff, auto simp: invalidate_user_def)
qed


lemma scope_inv_new_call:
  assumes "scope_inv s"
  shows "scope_inv (s\<lparr>calls := calls s @ [(p, At_redis)]\<rparr>)" (is "scope_inv ?s")
proof (rule scope_invI)
  have l: "later s ?s" by (simp add: later_def)
  from calls_ok_later[OF l scope_invD(4)[OF assms]] show "list_all (\<lambda>(p, c). call_ok ?s c) (calls ?s)" by simp
  show "\<exists>scope. body = json_of_scope scope \<and> stored_before ?s scope" if "redis_entry ?s = Some (body, t)" for body t
    using scope_invD(3)[OF assms] that stored_before_later[OF l] by simp metis
qed (use scope_invD(1,2)[OF assms] in simp_all)

lemma scope_inv_step: "scope_step s t \<Longrightarrow> scope_inv s \<Longrightarrow> scope_inv t"
proof (induction rule: scope_step.induct)
  case (Tick d s)
  then show ?case by (auto intro: scope_inv_later simp: later_def)
next
  case (Register s)
  have "stored_before s scope \<Longrightarrow> False" for scope using Register.hyps by (simp add: stored_before_def)
  then have "call_ok s c \<Longrightarrow> call_ok (s\<lparr>user_version := Some 0\<rparr>) c" for c by (cases c) auto
  with Register show ?case
    by (auto simp: scope_inv_def list_all_iff stored_before_def)
next
  case (Call s p)
  from Call.prems show ?case by (rule scope_inv_new_call)
next
  case (Redis_read i s p ok)
  then show ?case by (auto simp: after_redis_def intro!: scope_inv_set_call split: option.split)
next
  case (Cache_read i s p)
  then show ?case by (simp add: scope_inv_after_cache)
next
  case (Fill i s p scope n ok)
  then have "stored_before s scope" using scope_invD(5) by fastforce
  with Fill show ?case by (auto intro!: scope_inv_set_call scope_inv_write)
next
  case (User_read i s p)
  then show ?case
    by (auto simp: after_user_def intro!: scope_inv_set_call scope_inv_end_refresh split: option.split)
next
  case (Fetch i s p v fetched)
  then show ?case
    by (auto simp: after_source_def intro!: scope_inv_set_call scope_inv_end_refresh split: option.split)
next
  case (Store i s p scope)
  then have "cs_refreshed scope \<le> clock s" using scope_invD(5) by fastforce
  with Store show ?case by (simp add: scope_inv_after_store)
next
  case (Publish i s p scope n ok)
  then have "stored_before s scope" using scope_invD(5) by fastforce
  with Publish show ?case by (auto intro!: scope_inv_end_refresh scope_inv_write)
next
  case (Invalidate s)
  then show ?case by (rule scope_inv_invalidate)
next
  case (Forget s)
  have l: "later s (forget_user s)" by (simp add: later_def forget_user_def)
  show ?case
    using scope_invD[OF Forget.prems] calls_ok_later[OF l]
    by (intro scope_invI) (simp_all add: forget_user_def)
qed (auto intro!: scope_inv_set_call scope_inv_end_refresh)

interpretation scope_runs: invariant_system "\<lambda>s. \<exists>now. s = new_scope_state now" scope_step scope_inv
proof unfold_locales
  show "scope_inv s" if "\<exists>now. s = new_scope_state now" for s
    using that by (auto simp: new_scope_state_def scope_inv_def)
qed (rule scope_inv_step)

section \<open>What is served\<close>

lemma read_redis_Some:
  assumes "read_redis now entry = Some scope"
  obtains body t where "entry = Some (body, t)" "parse_cached_scope body = Some scope" "is_fresh now scope" "now < t"
  using assms by (auto simp: read_redis_def split: option.splits if_splits)

text \<open>C20: In every state the concurrent resolvers, invalidations and forgets reach, the database
  caches only the current version of a user's scope, and what Redis serves is fresh and either
  current or older by no more than the five minutes of its life since the last invalidation.
  The application and the database read the same clock.\<close>

theorem cached_scope_current_or_expiring:
  assumes "reaches (\<lambda>s. \<exists>now. s = new_scope_state now) scope_step s" and "user_version s = Some v"
  shows "(\<forall>row. cache_row s = Some row \<longrightarrow> cs_version row = v) \<and>
    (\<forall>scope. read_redis (clock s) (redis_entry s) = Some scope \<longrightarrow>
       clock s < cs_refreshed scope + CACHE_TTL_MS \<and>
       (cs_version scope = v \<or> cs_version scope < v \<and> clock s < last_bump s + CACHE_TTL_MS))"
proof -
  have inv: "scope_inv s" by (rule scope_runs.reaches_inv[OF assms(1)])
  have "clock s < cs_refreshed scope + CACHE_TTL_MS \<and>
      (cs_version scope = v \<or> cs_version scope < v \<and> clock s < last_bump s + CACHE_TTL_MS)"
    if read: "read_redis (clock s) (redis_entry s) = Some scope" for scope
  proof -
    from read obtain body t where e: "redis_entry s = Some (body, t)" "parse_cached_scope body = Some scope"
      and fresh: "is_fresh (clock s) scope" by (rule read_redis_Some)
    then have "stored_before s scope" using scope_invD(3)[OF inv] by fastforce
    then show ?thesis using fresh assms(2) by (auto simp: stored_before_def is_fresh_def)
  qed
  then show ?thesis using scope_invD(2)[OF inv] assms(2) by auto
qed

section \<open>A revoked scope\<close>

text \<open>
  One call fetches the scope and stores it, an invalidation bumps the version, deletes the row
  and the key, and only then the call writes the key.
\<close>

definition old_scope :: cached_scope where
  "old_scope = \<lparr>cs_repositories = [7], cs_orgs = [], cs_teams = [], cs_visibilities = [], cs_refreshed = 0,
     cs_version = 0\<rparr>"

definition publishing_state :: scope_state where
  "publishing_state =
     \<lparr>clock = 0, user_version = Some 0, cache_row = Some old_scope, redis_entry = None,
      calls = [(0, Publishing old_scope 300)], in_flight = Map.empty(0 := Some 0), forgetting = 0, last_bump = 0\<rparr>"

definition stale_state :: scope_state where
  "stale_state =
     \<lparr>clock = 0, user_version = Some 1, cache_row = None, redis_entry = Some (json_of_scope old_scope, 300000),
      calls = [(0, Served old_scope)], in_flight = (\<lambda>_. None), forgetting = 0, last_bump = 0\<rparr>"

lemmas scope_next = reaches_next[where step = scope_step]

lemmas scope_operations = after_redis_def after_cache_def start_refresh_def end_refresh_def after_user_def after_source_def
  after_store_def write_permission_cache_def invalidate_user_def forget_user_def write_redis_def set_call_def
  new_scope_state_def read_redis_def redis_ttl_def CACHE_TTL_MS_def old_scope_def Let_def fun_eq_iff

lemma publishing_reached: "reaches (\<lambda>s. \<exists>now. s = new_scope_state now) scope_step publishing_state"
proof -
  let ?raw = "\<lparr>raw_repositories = [7], raw_orgs = [], raw_teams = [], raw_visibilities = []\<rparr>"
  let ?R = "reaches (\<lambda>s. \<exists>now. s = new_scope_state now) scope_step"
  define st where "st u row call p = \<lparr>clock = 0, user_version = u, cache_row = row, redis_entry = None,
      calls = call, in_flight = (if p then Map.empty(0 := Some 0) else Map.empty), forgetting = 0, last_bump = 0\<rparr>"
    for u row call p
  have "?R (st None None [] False)" by (rule reaches.intros(1)) (auto simp: st_def new_scope_state_def)
  then have "?R (st (Some 0) None [] False)" by (rule scope_next[OF _ Register]) (simp_all add: st_def)
  then have "?R (st (Some 0) None [(0, At_redis)] False)" by (rule scope_next[OF _ Call]) (simp_all add: st_def)
  then have "?R (st (Some 0) None [(0, At_cache)] False)"
    by (rule scope_next[OF _ Redis_read[of 0 _ 0 True]]) (simp_all add: st_def scope_operations)
  then have "?R (st (Some 0) None [(0, At_user)] True)"
    by (rule scope_next[OF _ Cache_read[of 0 _ 0]]) (simp_all add: st_def scope_operations)
  then have "?R (st (Some 0) None [(0, At_source 0)] True)"
    by (rule scope_next[OF _ User_read[of 0 _ 0]]) (simp_all add: st_def scope_operations)
  then have "?R (st (Some 0) None [(0, Storing old_scope)] True)"
    by (rule scope_next[OF _ Fetch[of 0 _ 0 0 "Some ?raw"]]) (simp_all add: st_def scope_operations)
  then show ?thesis
    by (rule scope_next[OF _ Store[of 0 _ 0 old_scope]]) (simp_all add: st_def scope_operations publishing_state_def)
qed

lemma stale_reached: "reaches (\<lambda>s. \<exists>now. s = new_scope_state now) scope_step stale_state"
proof -
  have "reaches (\<lambda>s. \<exists>now. s = new_scope_state now) scope_step (forget_user (invalidate_user publishing_state))"
    by (rule scope_next[OF scope_next[OF publishing_reached Invalidate refl] Forget refl]) (simp add: invalidate_user_def)
  then show ?thesis
    by (rule scope_next[OF _ Publish[of 0 _ 0 old_scope 300 True]])
      (simp_all add: publishing_state_def stale_state_def scope_operations json_of_scope_def)
qed

lemma stale_read: "read_redis (clock stale_state) (redis_entry stale_state) = Some old_scope"
  by (simp add: stale_state_def read_redis_def is_fresh_def old_scope_def CACHE_TTL_MS_def)

theorem cached_scope_current_or_expiring_witness:
  "cs_version old_scope < 1 \<and> clock stale_state < last_bump stale_state + CACHE_TTL_MS"
  using cached_scope_current_or_expiring[OF stale_reached, of 1] stale_read
  by (simp add: stale_state_def old_scope_def)

text \<open>C21: A scope can be served again after it was revoked and forgotten. From every reachable state
  with a resolver that is about to write a fresh scope to Redis and no forget under way, the
  user can be invalidated and the key forgotten, so that neither cache holds a scope and the
  version is above the scope's; then the resolver writes the key, and a call that begins only
  after that is served the revoked scope.\<close>

theorem revoked_scope_served_again:
  assumes "reaches (\<lambda>s. \<exists>now. s = new_scope_state now) scope_step s" and "user_version s = Some v" "forgetting s = 0"
    and "i < length (calls s)" "calls s ! i \<in> {(p, Filling scope n), (p, Publishing scope n)}"
    and "is_fresh (clock s) scope" "0 < n"
    and "revoked = forget_user (invalidate_user s)"
  shows "reaches (\<lambda>s. \<exists>now. s = new_scope_state now) scope_step revoked \<and> user_version revoked = Some (v + 1) \<and>
    cache_row revoked = None \<and> redis_entry revoked = None \<and> forgetting revoked = 0 \<and> cs_version scope < v + 1 \<and>
    (\<exists>written asked served. scope_step revoked written \<and>
       asked = written\<lparr>calls := calls written @ [(q, At_redis)]\<rparr> \<and> scope_step written asked \<and>
       scope_step asked served \<and> length (calls revoked) = length (calls written) \<and>
       calls served ! length (calls revoked) = (q, Served scope) \<and> user_version served = Some (v + 1))"
proof -
  have "call_ok s (snd (calls s ! i))"
    by (rule scope_invD(5)[OF scope_runs.reaches_inv[OF assms(1)] assms(4), of "fst (calls s ! i)"]) simp
  then have older: "cs_version scope \<le> v" using assms(2,5) by (auto simp: stored_before_def)
  have revoked: "user_version revoked = Some (v + 1)" "cache_row revoked = None" "redis_entry revoked = None"
    "forgetting revoked = 0" "calls revoked = calls s" "clock revoked = clock s"
    using assms(2,3,8) by (simp_all add: forget_user_def invalidate_user_def)
  have reached: "reaches (\<lambda>s. \<exists>now. s = new_scope_state now) scope_step revoked"
    unfolding assms(8) by (rule scope_next[OF scope_next[OF assms(1) Invalidate refl] Forget refl]) (simp add: invalidate_user_def)
  obtain written where written: "scope_step revoked written" "redis_entry written = Some (json_of_scope scope, clock s + n * 1000)"
    "length (calls written) = length (calls s)" "clock written = clock s" "user_version written = Some (v + 1)"
  proof -
    from assms(5) consider "calls s ! i = (p, Filling scope n)" | "calls s ! i = (p, Publishing scope n)" by auto
    then show ?thesis
    proof cases
      case 1
      from Fill[of i revoked p scope n True] 1 assms(4) revoked that show ?thesis by (simp add: write_redis_def)
    next
      case 2
      from Publish[of i revoked p scope n True] 2 assms(4) revoked that show ?thesis by (simp add: write_redis_def end_refresh_def)
    qed
  qed
  let ?k = "length (calls s)"
  define asked where "asked = written\<lparr>calls := calls written @ [(q, At_redis)]\<rparr>"
  have at_redis: "calls asked ! ?k = (q, At_redis)" "?k < length (calls asked)"
    using written(3) by (simp_all add: asked_def nth_append)
  have read: "read_redis (clock asked) (redis_entry asked) = Some scope"
    using written(2,4) assms(6,7) by (simp add: asked_def read_redis_def)
  have "scope_step asked (after_redis ?k True asked)" by (rule Redis_read[OF at_redis(2,1)])
  moreover have "calls (after_redis ?k True asked) ! ?k = (q, Served scope)" "user_version (after_redis ?k True asked) = Some (v + 1)"
    using read at_redis written(5) by (simp_all add: after_redis_def asked_def)
  moreover have "scope_step written asked" unfolding asked_def by (rule Call)
  ultimately show ?thesis using reached revoked older written(1,3) asked_def
    by (intro conjI exI[of _ written] exI[of _ asked] exI[of _ "after_redis ?k True asked"]) simp_all
qed

theorem revoked_scope_served_again_witness:
  "\<exists>asked served. scope_step asked served \<and> calls served ! 1 = (2, Served old_scope) \<and> user_version served = Some 1"
proof -
  have s: "user_version publishing_state = Some 0" "forgetting publishing_state = 0" "0 < length (calls publishing_state)"
    "calls publishing_state ! 0 \<in> {(0, Filling old_scope 300), (0, Publishing old_scope 300)}"
    "is_fresh (clock publishing_state) old_scope"
    by (simp_all add: publishing_state_def is_fresh_def old_scope_def CACHE_TTL_MS_def)
  have "length (calls (forget_user (invalidate_user publishing_state))) = 1"
    by (simp add: forget_user_def invalidate_user_def publishing_state_def)
  with revoked_scope_served_again[OF publishing_reached s _ refl, of 2] show ?thesis by auto
qed

end
