(* ===== verification/Authz_Invalidation.thy ===== *)
theory Authz_Invalidation
  imports Authz_Scope Bus_Memory
begin

text \<open>
  Invalidation of permission caches: from the webhook to the event
  (\<open>packages/authz/src/invalidation.ts\<close>, \<open>extractInvalidationTarget\<close> and \<open>toEventPayload\<close>), and from the
  event to the users whose caches are dropped (\<open>applyInvalidation\<close>, run by the handler of
  \<open>apps/pipeline-worker/src/authz.ts\<close> over the tables of \<open>packages/db/src/repositories/auth.ts\<close>).
  A call of a port may fail; \<open>fails\<close> says which do, and what was done before stays done.
\<close>

section \<open>Targets\<close>

datatype invalidation_reason = By_member | By_team | By_repository | By_hand

record invalidation_target =
  it_reason :: invalidation_reason
  it_logins :: "jstr list"
  it_github_ids :: "int list"
  it_team :: "int option"
  it_team_slug :: "jstr option"
  it_org :: "jstr option"
  it_org_id :: "int option"
  it_repository :: "int option"

definition EMPTY_TARGET :: invalidation_target where
  "EMPTY_TARGET = \<lparr>it_reason = By_hand, it_logins = [], it_github_ids = [], it_team = None, it_team_slug = None,
     it_org = None, it_org_id = None, it_repository = None\<rparr>"

definition record_of :: "json option \<Rightarrow> (jstr \<times> json) list option" where
  "record_of v = Option.bind v as_record"

text \<open>\<open>str(value?.[key])\<close> and \<open>num(value?.[key])\<close>.\<close>

definition str_member :: "(jstr \<times> json) list option \<Rightarrow> jstr \<Rightarrow> jstr option" where
  "str_member obj key =
     (case as_string (Option.bind obj (\<lambda>ms. member ms key)) of
        Some s \<Rightarrow> if s = [] then None else Some s
      | None \<Rightarrow> None)"

definition num_member :: "(jstr \<times> json) list option \<Rightarrow> jstr \<Rightarrow> int option" where
  "num_member obj key =
     (case Option.bind obj (\<lambda>ms. member ms key) of
        Some (J_int n) \<Rightarrow> if is_safe_integer n then Some n else None
      | _ \<Rightarrow> None)"

definition extract_invalidation_target :: "jstr \<Rightarrow> json \<Rightarrow> invalidation_target option" where
  "extract_invalidation_target event_type payload =
     (case as_record payload of
        None \<Rightarrow> None
      | Some body \<Rightarrow>
          let organization = record_of (member body (js ''organization''));
              org = str_member organization (js ''login'');
              org_id = num_member organization (js ''id'');
              repository = num_member (record_of (member body (js ''repository''))) (js ''id'')
          in if event_type = js ''member'' then
               (let m = record_of (member body (js ''member''));
                    login = str_member m (js ''login'');
                    i = num_member m (js ''id'')
                in if login = None \<and> i = None then None
                   else Some (EMPTY_TARGET\<lparr>it_reason := By_member,
                          it_logins := (case login of None \<Rightarrow> [] | Some l \<Rightarrow> [l]),
                          it_github_ids := (case i of None \<Rightarrow> [] | Some n \<Rightarrow> [n]),
                          it_org := org, it_org_id := org_id, it_repository := repository\<rparr>))
             else if event_type = js ''team'' then
               (let t = record_of (member body (js ''team'')) in
                case num_member t (js ''id'') of
                  None \<Rightarrow> None
                | Some i \<Rightarrow>
                    Some (EMPTY_TARGET\<lparr>it_reason := By_team, it_team := Some i,
                          it_team_slug := str_member t (js ''slug''), it_org := org, it_org_id := org_id,
                          it_repository := repository\<rparr>))
             else if event_type = js ''repository'' then
               (case repository of
                  None \<Rightarrow> None
                | Some i \<Rightarrow> Some (EMPTY_TARGET\<lparr>it_reason := By_repository, it_org := org, it_org_id := org_id,
                              it_repository := Some i\<rparr>))
             else None)"

definition is_empty_target :: "invalidation_target \<Rightarrow> bool" where
  "is_empty_target t \<longleftrightarrow> length (it_logins t) = 0 \<and> length (it_github_ids t) = 0 \<and> it_team t = None \<and>
     it_repository t = None"

section \<open>The event\<close>

record permission_invalidated =
  pi_user_ids :: "int list"
  pi_logins :: "jstr list"
  pi_team :: "int option"
  pi_repository :: "int option"
  pi_reason :: jstr

fun reason_name :: "invalidation_reason \<Rightarrow> jstr" where
  "reason_name By_member = js ''member''"
| "reason_name By_team = js ''team''"
| "reason_name By_repository = js ''repository''"
| "reason_name By_hand = js ''manual''"

definition to_event_payload :: "invalidation_target \<Rightarrow> permission_invalidated" where
  "to_event_payload t =
     \<lparr>pi_user_ids = it_github_ids t, pi_logins = it_logins t, pi_team = it_team t,
      pi_repository = it_repository t, pi_reason = reason_name (it_reason t)\<rparr>"

definition int_json :: "int option \<Rightarrow> json" where
  "int_json v = (case v of None \<Rightarrow> J_null | Some n \<Rightarrow> J_int n)"

definition text_json :: "jstr option \<Rightarrow> json" where
  "text_json v = (case v of None \<Rightarrow> J_null | Some s \<Rightarrow> J_string s)"

definition published_payload :: "invalidation_target \<Rightarrow> json" where
  "published_payload t =
     (let e = to_event_payload t in
      J_object
        [(js ''user_ids'', J_array (map J_int (pi_user_ids e))),
         (js ''logins'', J_array (map J_string (pi_logins e))),
         (js ''team_id'', int_json (pi_team e)), (js ''repository_id'', int_json (pi_repository e)),
         (js ''reason'', J_string (pi_reason e)), (js ''org'', text_json (it_org t)),
         (js ''team_slug'', text_json (it_team_slug t)), (js ''org_id'', int_json (it_org_id t))])"

record event_context =
  ec_org :: "jstr option"
  ec_team_slug :: "jstr option"
  ec_org_id :: "int option"

definition filter_list :: "(json \<Rightarrow> 'a option) \<Rightarrow> json option \<Rightarrow> 'a list" where
  "filter_list f v = (case v of Some (J_array vs) \<Rightarrow> List.map_filter f vs | _ \<Rightarrow> [])"

definition parse_invalidation_event :: "json \<Rightarrow> (permission_invalidated \<times> event_context) option" where
  "parse_invalidation_event payload =
     (case as_record payload of
        None \<Rightarrow> None
      | Some v \<Rightarrow>
          let numbers = filter_list int_of_json (member v (js ''user_ids''));
              strings = filter_list text_of_json (member v (js ''logins''));
              team = Option.bind (member v (js ''team_id'')) int_of_json;
              repository = Option.bind (member v (js ''repository_id'')) int_of_json
          in if length numbers = 0 \<and> length strings = 0 \<and> team = None \<and> repository = None then None
             else Some
               (\<lparr>pi_user_ids = numbers, pi_logins = strings, pi_team = team, pi_repository = repository,
                 pi_reason = (case as_string (member v (js ''reason'')) of Some r \<Rightarrow> r | None \<Rightarrow> js ''manual'')\<rparr>,
                \<lparr>ec_org = as_string (member v (js ''org'')), ec_team_slug = as_string (member v (js ''team_slug'')),
                 ec_org_id = Option.bind (member v (js ''org_id'')) int_of_json\<rparr>))"

lemma map_filter_map_Some: "(\<And>x. f (g x) = Some x) \<Longrightarrow> List.map_filter f (map g xs) = xs"
  by (induction xs) (simp_all add: List.map_filter_def)

text \<open>Events survive the bus.\<close>

theorem invalidation_event_roundtrip:
  assumes "extract_invalidation_target event_type payload = Some t"
  shows "\<not> is_empty_target t \<and>
    parse_invalidation_event (published_payload t) =
      Some (to_event_payload t, \<lparr>ec_org = it_org t, ec_team_slug = it_team_slug t, ec_org_id = it_org_id t\<rparr>)"
proof -
  have "\<not> is_empty_target t"
    using assms
    by (auto simp: extract_invalidation_target_def is_empty_target_def EMPTY_TARGET_def Let_def
        split: option.splits if_splits)
  then show ?thesis
    by (auto simp: parse_invalidation_event_def published_payload_def to_event_payload_def is_empty_target_def
        int_json_def text_json_def member_def filter_list_def map_filter_map_Some split: option.splits)
qed

section \<open>An event on the bus\<close>

definition sample_member_event :: json where
  "sample_member_event = J_object [(js ''member'', J_object [(js ''id'', J_int 11)])]"

definition sample_member_target :: invalidation_target where
  "sample_member_target = EMPTY_TARGET\<lparr>it_reason := By_member, it_github_ids := [11]\<rparr>"

lemma sample_member_extracted:
  "extract_invalidation_target (js ''member'') sample_member_event = Some sample_member_target"
  by code_simp

theorem invalidation_event_roundtrip_witness:
  "parse_invalidation_event (published_payload sample_member_target) =
     Some (to_event_payload sample_member_target, \<lparr>ec_org = None, ec_team_slug = None, ec_org_id = None\<rparr>)"
  using invalidation_event_roundtrip[OF sample_member_extracted]
  by (simp add: sample_member_target_def EMPTY_TARGET_def)

section \<open>The tables\<close>

text \<open>
  \<open>app_user\<close>, \<open>permission_cache\<close> and \<open>team_member\<close> with the columns these statements read, and the
  users that have a Redis key. A query returns rows in the order of the table.
\<close>

record user_row =
  ur_github :: "int option"
  ur_login :: jstr
  ur_version :: int

record auth_db =
  user_rows :: "(jstr \<times> user_row) list"
  cache_rows :: "(jstr \<times> cached_scope) list"
  member_rows :: "(int \<times> jstr) list"
  redis_keys :: "jstr list"

definition find_user_ids_by_github_ids :: "int list \<Rightarrow> auth_db \<Rightarrow> jstr list" where
  "find_user_ids_by_github_ids ids db =
     (if ids = [] then []
      else map fst (filter (\<lambda>(u, r). case ur_github r of None \<Rightarrow> False | Some i \<Rightarrow> i \<in> set ids) (user_rows db)))"

definition find_user_ids_by_logins :: "jstr list \<Rightarrow> auth_db \<Rightarrow> jstr list" where
  "find_user_ids_by_logins logins db =
     (if logins = [] then [] else map fst (filter (\<lambda>(u, r). ur_login r \<in> set logins) (user_rows db)))"

text \<open>\<open>scope_kind\<close> is written with the row, from the number of repositories.\<close>

definition scope_kind_org_team :: "cached_scope \<Rightarrow> bool" where
  "scope_kind_org_team row = should_use_org_team_scope (length (cs_repositories row))"

definition find_users_affected_by_repository :: "int \<Rightarrow> int option \<Rightarrow> auth_db \<Rightarrow> jstr list" where
  "find_users_affected_by_repository repository org db =
     map fst (filter (\<lambda>(u, row).
         repository \<in> set (cs_repositories row) \<or>
         (case org of None \<Rightarrow> False | Some i \<Rightarrow> scope_kind_org_team row \<and> i \<in> set (cs_orgs row)))
       (cache_rows db))"

definition list_team_members :: "int \<Rightarrow> auth_db \<Rightarrow> jstr list" where
  "list_team_members team db = map snd (filter (\<lambda>(t, u). t = team) (member_rows db))"

definition delete_team_members :: "int \<Rightarrow> auth_db \<Rightarrow> auth_db" where
  "delete_team_members team db = db\<lparr>member_rows := filter (\<lambda>(t, u). t \<noteq> team) (member_rows db)\<rparr>"

definition insert_team_members :: "int \<Rightarrow> jstr list \<Rightarrow> auth_db \<Rightarrow> auth_db" where
  "insert_team_members team ids db =
     (if ids = [] then db
      else db\<lparr>member_rows := member_rows db @
             map (\<lambda>u. (team, u)) (filter (\<lambda>u. u \<in> set ids \<and> (team, u) \<notin> set (member_rows db)) (map fst (user_rows db)))\<rparr>)"

definition invalidate_users :: "jstr list \<Rightarrow> auth_db \<Rightarrow> auth_db" where
  "invalidate_users ids db =
     db\<lparr>user_rows := map (\<lambda>(u, r). (u, if u \<in> set ids then r\<lparr>ur_version := ur_version r + 1\<rparr> else r)) (user_rows db),
        cache_rows := filter (\<lambda>(u, row). u \<notin> set ids) (cache_rows db)\<rparr>"

definition invalidated_users :: "jstr list \<Rightarrow> auth_db \<Rightarrow> jstr list" where
  "invalidated_users ids db = map fst (filter (\<lambda>(u, r). u \<in> set ids) (user_rows db))"

definition forget_users :: "jstr list \<Rightarrow> auth_db \<Rightarrow> auth_db" where
  "forget_users ids db = db\<lparr>redis_keys := filter (\<lambda>u. u \<notin> set ids) (redis_keys db)\<rparr>"

section \<open>Applying an invalidation\<close>

datatype port_call =
    Find_github | Find_logins | List_members | Find_affected | Invalidate_rows | Forget_keys
  | Team_api | Find_members | Delete_members | Insert_members | Stamp_team | Read_members

text \<open>A program over the ports: it may stop at a failing call, with the changes made so far.\<close>

type_synonym 'a port_program = "auth_db \<Rightarrow> auth_db \<times> (port_call, 'a) result"

definition ask :: "(port_call \<Rightarrow> bool) \<Rightarrow> port_call \<Rightarrow> (auth_db \<Rightarrow> 'a) \<Rightarrow> 'a port_program" where
  "ask fails p f db = (db, if fails p then Inl p else Inr (f db))"

definition change :: "(port_call \<Rightarrow> bool) \<Rightarrow> port_call \<Rightarrow> (auth_db \<Rightarrow> auth_db) \<Rightarrow> (auth_db \<Rightarrow> 'a) \<Rightarrow> 'a port_program" where
  "change fails p f g db = (if fails p then (db, Inl p) else (f db, Inr (g db)))"

definition and_then :: "'a port_program \<Rightarrow> ('a \<Rightarrow> 'b port_program) \<Rightarrow> 'b port_program" where
  "and_then m k db = (case m db of (db', Inl e) \<Rightarrow> (db', Inl e) | (db', Inr x) \<Rightarrow> k x db')"

definition return :: "'a \<Rightarrow> 'a port_program" where
  "return x db = (db, Inr x)"

record invalidation_result =
  ir_reason :: jstr
  ir_invalidated :: "jstr list"
  ir_team_refreshed :: bool

text \<open>
  \<open>replaceTeamMembers\<close> is a sequence of statements outside a transaction; the time it stamps on the
  team is not modelled. \<open>team_api org slug\<close> is GitHub's answer; without a client the port does not
  exist.
\<close>

definition replace_team_members :: "(port_call \<Rightarrow> bool) \<Rightarrow> int \<Rightarrow> jstr list \<Rightarrow> jstr list port_program" where
  "replace_team_members fails team ids =
     and_then (change fails Delete_members (delete_team_members team) (\<lambda>_. ())) (\<lambda>_.
     and_then (change fails Insert_members (insert_team_members team ids) (\<lambda>_. ())) (\<lambda>_.
     and_then (ask fails Stamp_team (\<lambda>_. ())) (\<lambda>_.
       ask fails Read_members (list_team_members team))))"

definition refresh_team_members ::
    "(jstr \<Rightarrow> jstr \<Rightarrow> int list) \<Rightarrow> (port_call \<Rightarrow> bool) \<Rightarrow> int \<Rightarrow> jstr \<Rightarrow> jstr \<Rightarrow> jstr list port_program" where
  "refresh_team_members team_api fails team org slug =
     and_then (ask fails Team_api (\<lambda>_. team_api org slug)) (\<lambda>members.
     and_then (ask fails Find_members (find_user_ids_by_github_ids members)) (\<lambda>ids.
       replace_team_members fails team ids))"

definition team_targets ::
    "(jstr \<Rightarrow> jstr \<Rightarrow> int list) option \<Rightarrow> (port_call \<Rightarrow> bool) \<Rightarrow> int option \<Rightarrow> event_context \<Rightarrow> jstr list \<Rightarrow>
     (jstr list \<times> bool) port_program" where
  "team_targets team_api fails team ctx targets =
     (case team of
        None \<Rightarrow> return (targets, False)
      | Some i \<Rightarrow>
          and_then (ask fails List_members (list_team_members i)) (\<lambda>members.
            let targets = set_add_all targets members in
            case (team_api, ec_org ctx, ec_team_slug ctx) of
              (Some api, Some org, Some slug) \<Rightarrow>
                and_then (refresh_team_members api fails i org slug) (\<lambda>refreshed.
                  return (set_add_all targets refreshed, True))
            | _ \<Rightarrow> return (targets, False)))"

definition apply_invalidation ::
    "(jstr \<Rightarrow> jstr \<Rightarrow> int list) option \<Rightarrow> (port_call \<Rightarrow> bool) \<Rightarrow> permission_invalidated \<Rightarrow> event_context \<Rightarrow>
     invalidation_result port_program" where
  "apply_invalidation team_api fails payload ctx =
     and_then (if pi_user_ids payload = [] then return []
               else ask fails Find_github (find_user_ids_by_github_ids (pi_user_ids payload))) (\<lambda>by_id.
     and_then (if pi_logins payload = [] then return []
               else ask fails Find_logins (find_user_ids_by_logins (pi_logins payload))) (\<lambda>by_login.
     and_then (team_targets team_api fails (pi_team payload) ctx
               (set_add_all (set_add_all [] by_id) by_login)) (\<lambda>(targets, refreshed).
     and_then (case pi_repository payload of
                 None \<Rightarrow> return []
               | Some r \<Rightarrow> ask fails Find_affected (find_users_affected_by_repository r (ec_org_id ctx))) (\<lambda>affected.
       let ids = set_add_all targets affected in
       if length ids = 0 then
         return \<lparr>ir_reason = pi_reason payload, ir_invalidated = [], ir_team_refreshed = refreshed\<rparr>
       else
         and_then (change fails Invalidate_rows (invalidate_users ids) (invalidated_users ids)) (\<lambda>invalidated.
         and_then (change fails Forget_keys (forget_users ids) (\<lambda>_. ())) (\<lambda>_.
           return \<lparr>ir_reason = pi_reason payload, ir_invalidated = invalidated,
                   ir_team_refreshed = refreshed\<rparr>))))))"

section \<open>The handler\<close>

text \<open>
  \<open>refresh_documents\<close> is the retroactive update of the documents' teams; it works on other tables
  and its failure is only logged.
\<close>

definition authz_handler ::
    "(jstr \<Rightarrow> jstr \<Rightarrow> int list) option \<Rightarrow> (port_call \<Rightarrow> bool) \<Rightarrow> (int \<Rightarrow> int option \<Rightarrow> auth_db \<Rightarrow> auth_db) option \<Rightarrow>
     json \<Rightarrow> nat \<Rightarrow> auth_db \<Rightarrow> auth_db \<times> disposition" where
  "authz_handler team_api fails refresh_documents payload deliveries db =
     (case parse_invalidation_event payload of
        None \<Rightarrow> (db, Dead_letter)
      | Some (event, ctx) \<Rightarrow>
          (case apply_invalidation team_api fails event ctx db of
             (db', Inl e) \<Rightarrow> (db', if deliveries \<ge> MAX_RETRIES then Dead_letter else Retry)
           | (db', Inr res) \<Rightarrow>
               ((case (refresh_documents, pi_team event, pi_repository event) of
                   (None, _, _) \<Rightarrow> db'
                 | (Some f, None, None) \<Rightarrow> db'
                 | (Some f, Some t, r) \<Rightarrow> f t r db'
                 | (Some f, None, Some r) \<Rightarrow> f 0 (Some r) db'), Ack)))"

section \<open>Whom an invalidation reaches\<close>

text \<open>
  The users an event means, over the tables it is applied to: those it names, the members of its team
  as they are stored and as the API gives them, and for a repository every user whose cached row lists
  its id, and every one whose row is a scope by organizations with the organization of the event. The
  last are more than those whose scope shows the repository.
\<close>

definition is_target :: "(jstr \<Rightarrow> jstr \<Rightarrow> int list) option \<Rightarrow> permission_invalidated \<Rightarrow> event_context \<Rightarrow> auth_db \<Rightarrow>
    jstr \<Rightarrow> bool" where
  "is_target team_api payload ctx db u \<longleftrightarrow>
     (\<exists>r. (u, r) \<in> set (user_rows db) \<and>
        ((\<exists>i. ur_github r = Some i \<and> i \<in> set (pi_user_ids payload)) \<or> ur_login r \<in> set (pi_logins payload))) \<or>
     (\<exists>t. pi_team payload = Some t \<and> (t, u) \<in> set (member_rows db)) \<or>
     (\<exists>api org slug t r i. team_api = Some api \<and> pi_team payload = Some t \<and> ec_org ctx = Some org \<and>
        ec_team_slug ctx = Some slug \<and> (u, r) \<in> set (user_rows db) \<and> ur_github r = Some i \<and> i \<in> set (api org slug)) \<or>
     (\<exists>repo row. pi_repository payload = Some repo \<and> (u, row) \<in> set (cache_rows db) \<and>
        (repo \<in> set (cs_repositories row) \<or>
         (\<exists>org. ec_org_id ctx = Some org \<and> scope_kind_org_team row \<and> org \<in> set (cs_orgs row))))"


lemma and_then_Inr_iff [simp]:
  "and_then m k db = (db', Inr y) \<longleftrightarrow> (\<exists>db1 x. m db = (db1, Inr x) \<and> k x db1 = (db', Inr y))"
  by (auto simp: and_then_def split: prod.splits sum.splits)

lemma ask_Inr_iff [simp]: "ask fails p f db = (db', Inr y) \<longleftrightarrow> \<not> fails p \<and> db' = db \<and> y = f db"
  by (auto simp: ask_def)

lemma change_Inr_iff [simp]:
  "change fails p f g db = (db', Inr y) \<longleftrightarrow> \<not> fails p \<and> db' = f db \<and> y = g db"
  by (auto simp: change_def)

lemma return_Inr_iff [simp]: "return x db = (db', Inr y) \<longleftrightarrow> db' = db \<and> y = x"
  by (auto simp: return_def)

lemma ask_Inl_iff [simp]: "ask fails p f db = (db', Inl e) \<longleftrightarrow> fails p \<and> db' = db \<and> e = p"
  by (auto simp: ask_def)

lemma change_Inl_iff [simp]: "change fails p f g db = (db', Inl e) \<longleftrightarrow> fails p \<and> db' = db \<and> e = p"
  by (auto simp: change_def)

lemma return_Inl_iff [simp]: "return x db \<noteq> (db', Inl e)"
  by (auto simp: return_def)

lemma and_then_Inl_iff:
  "and_then m k db = (db', Inl e) \<longleftrightarrow> m db = (db', Inl e) \<or> (\<exists>db1 x. m db = (db1, Inr x) \<and> k x db1 = (db', Inl e))"
  by (auto simp: and_then_def split: prod.splits sum.splits)

lemma set_find_github:
  "set (find_user_ids_by_github_ids ids db) =
     {u. \<exists>r i. (u, r) \<in> set (user_rows db) \<and> ur_github r = Some i \<and> i \<in> set ids}"
  by (force simp: find_user_ids_by_github_ids_def split: option.splits)

lemma set_find_logins:
  "set (find_user_ids_by_logins logins db) = {u. \<exists>r. (u, r) \<in> set (user_rows db) \<and> ur_login r \<in> set logins}"
  by (force simp: find_user_ids_by_logins_def)

lemma set_find_affected:
  "set (find_users_affected_by_repository repo org db) =
     {u. \<exists>row. (u, row) \<in> set (cache_rows db) \<and> (repo \<in> set (cs_repositories row) \<or>
        (\<exists>i. org = Some i \<and> scope_kind_org_team row \<and> i \<in> set (cs_orgs row)))}"
  by (force simp: find_users_affected_by_repository_def split: option.splits)

lemma set_list_members: "set (list_team_members team db) = {u. (team, u) \<in> set (member_rows db)}"
  by (force simp: list_team_members_def)

text \<open>What refreshing a team leaves alone, and what it answers.\<close>

lemma refresh_team_members_result:
  assumes "refresh_team_members api fails team org slug db = (db', Inr us)"
  shows "user_rows db' = user_rows db" "cache_rows db' = cache_rows db" "redis_keys db' = redis_keys db"
    and "set us = {u. \<exists>r i. (u, r) \<in> set (user_rows db) \<and> ur_github r = Some i \<and> i \<in> set (api org slug)}"
proof -
  let ?ids = "find_user_ids_by_github_ids (api org slug) db"
  have d: "db' = insert_team_members team ?ids (delete_team_members team db)" and us: "us = list_team_members team db'"
    using assms by (auto simp: refresh_team_members_def replace_team_members_def)
  show "user_rows db' = user_rows db" "cache_rows db' = cache_rows db" "redis_keys db' = redis_keys db"
    unfolding d by (simp_all add: insert_team_members_def delete_team_members_def)
  have "set us = set ?ids \<inter> fst ` set (user_rows db)"
    unfolding us set_list_members d
    by (auto simp: insert_team_members_def delete_team_members_def)
  then show "set us = {u. \<exists>r i. (u, r) \<in> set (user_rows db) \<and> ur_github r = Some i \<and> i \<in> set (api org slug)}"
    unfolding set_find_github by force
qed

lemma team_targets_result:
  assumes "team_targets team_api fails team ctx targets db = (db', Inr (us, refreshed))"
  shows "user_rows db' = user_rows db" "cache_rows db' = cache_rows db" "redis_keys db' = redis_keys db"
    and "set us = set targets \<union> {u. \<exists>t. team = Some t \<and> (t, u) \<in> set (member_rows db)} \<union>
      {u. \<exists>api org slug t r i. team_api = Some api \<and> team = Some t \<and> ec_org ctx = Some org \<and>
         ec_team_slug ctx = Some slug \<and> (u, r) \<in> set (user_rows db) \<and> ur_github r = Some i \<and> i \<in> set (api org slug)}"
  using assms
  by (auto simp: team_targets_def Let_def set_list_members refresh_team_members_result split: option.splits)

lemma apply_invalidation_effect:
  assumes "apply_invalidation team_api fails payload ctx db = (db', Inr res)"
  shows "user_rows db' = map (\<lambda>(u, r). (u, if is_target team_api payload ctx db u
           then r\<lparr>ur_version := ur_version r + 1\<rparr> else r)) (user_rows db) \<and>
    cache_rows db' = filter (\<lambda>(u, row). \<not> is_target team_api payload ctx db u) (cache_rows db) \<and>
    redis_keys db' = filter (\<lambda>u. \<not> is_target team_api payload ctx db u) (redis_keys db) \<and>
    ir_invalidated res = map fst (filter (\<lambda>(u, r). is_target team_api payload ctx db u) (user_rows db))"
proof -
  let ?found = "set_add_all (set_add_all [] (find_user_ids_by_github_ids (pi_user_ids payload) db))
      (find_user_ids_by_logins (pi_logins payload) db)"
  let ?affected = "\<lambda>db1. case pi_repository payload of None \<Rightarrow> []
      | Some r \<Rightarrow> find_users_affected_by_repository r (ec_org_id ctx) db1"
  have none: "find_user_ids_by_github_ids [] db = []" "find_user_ids_by_logins [] db = []"
    by (simp_all add: find_user_ids_by_github_ids_def find_user_ids_by_logins_def)
  have part: "(if c then return [] else ask fails p f) db1 = (db2, Inr y) \<Longrightarrow> (c \<Longrightarrow> f db1 = []) \<Longrightarrow>
      db2 = db1 \<and> y = f db1" for c p f db1 db2 and y :: "jstr list"
    by (auto split: if_splits)
  have affected: "(case r of None \<Rightarrow> return [] | Some i \<Rightarrow> ask fails Find_affected (g i)) db1 = (db2, Inr y) \<Longrightarrow>
      db2 = db1 \<and> y = (case r of None \<Rightarrow> [] | Some i \<Rightarrow> g i db1)" for r g db1 db2 and y :: "jstr list"
    by (cases r) auto
  obtain db1 targets refreshed where
    t: "team_targets team_api fails (pi_team payload) ctx ?found db = (db1, Inr (targets, refreshed))"
    and rest: "(let ids = set_add_all targets (?affected db1) in
       if length ids = 0 then
         return \<lparr>ir_reason = pi_reason payload, ir_invalidated = [], ir_team_refreshed = refreshed\<rparr>
       else
         and_then (change fails Invalidate_rows (invalidate_users ids) (invalidated_users ids)) (\<lambda>invalidated.
         and_then (change fails Forget_keys (forget_users ids) (\<lambda>_. ())) (\<lambda>_.
           return \<lparr>ir_reason = pi_reason payload, ir_invalidated = invalidated,
                   ir_team_refreshed = refreshed\<rparr>))) db1 = (db', Inr res)"
    using assms none unfolding apply_invalidation_def and_then_Inr_iff
    by (auto dest!: part affected and_then_Inr_iff[THEN iffD1] simp del: and_then_Inr_iff length_0_conv)
  note team = team_targets_result[OF t]
  define ids where "ids = set_add_all targets (?affected db1)"
  have ids: "u \<in> set ids \<longleftrightarrow> is_target team_api payload ctx db u" for u
    unfolding ids_def is_target_def
    by (cases "pi_repository payload")
      (auto simp: team(4) set_find_github set_find_logins set_find_affected team(2))
  have fin: "db' = (if ids = [] then db1 else forget_users ids (invalidate_users ids db1))"
    and inv: "ir_invalidated res = (if ids = [] then [] else invalidated_users ids db1)"
    using rest unfolding ids_def[symmetric] Let_def by (auto split: if_splits)
  have empty: "\<not> is_target team_api payload ctx db u" if "ids = []" for u
    using ids[of u] that by simp
  show ?thesis
    unfolding fin inv using team(1-3) empty
    by (auto simp: forget_users_def invalidate_users_def invalidated_users_def ids case_prod_beta intro!: map_idI[symmetric])
qed

text \<open>A row through which a repository of a known organization is visible is a target of its events.\<close>

lemma viewer_is_target:
  assumes "(u, row) \<in> set (cache_rows db)" and "is_repository_in_scope r (to_access_scope row)"
    and "pi_repository payload = Some (sr_id r)" and "ec_org_id ctx = Some (sr_org r)"
  shows "is_target team_api payload ctx db u"
  using assms
  by (auto simp: is_target_def to_access_scope_def scope_kind_org_team_def split: if_splits)

text \<open>C22: A successful invalidation raises the version of exactly its targets, removes exactly their
  cached rows and Redis keys and reports exactly the registered ones. The targets are the
  users it names, the members of the team before and after its refresh and, for a repository,
  every user whose cached row lists it or is a scope by organizations with the organization of
  the event, whether it shows the repository or not. So when the event carries the
  repository's organization, no cached scope shows the repository any more.\<close>

theorem invalidation_reaches_its_targets:
  assumes "apply_invalidation team_api fails payload ctx db = (db', Inr res)"
  shows "user_rows db' = map (\<lambda>(u, r). (u, if is_target team_api payload ctx db u
           then r\<lparr>ur_version := ur_version r + 1\<rparr> else r)) (user_rows db) \<and>
    cache_rows db' = filter (\<lambda>(u, row). \<not> is_target team_api payload ctx db u) (cache_rows db) \<and>
    redis_keys db' = filter (\<lambda>u. \<not> is_target team_api payload ctx db u) (redis_keys db) \<and>
    ir_invalidated res = map fst (filter (\<lambda>(u, r). is_target team_api payload ctx db u) (user_rows db)) \<and>
    (\<forall>r. pi_repository payload = Some (sr_id r) \<and> ec_org_id ctx = Some (sr_org r) \<longrightarrow>
       (\<forall>(u, row) \<in> set (cache_rows db'). \<not> is_repository_in_scope r (to_access_scope row)))"
  using apply_invalidation_effect[OF assms] viewer_is_target by fastforce

section \<open>Removal from a team\<close>

definition removed_row :: cached_scope where
  "removed_row = \<lparr>cs_repositories = [7], cs_orgs = [], cs_teams = [], cs_visibilities = [], cs_refreshed = 0,
     cs_version = 0\<rparr>"

definition removal_db :: auth_db where
  "removal_db = \<lparr>user_rows = [(js ''u'', \<lparr>ur_github = Some 11, ur_login = js ''ul'', ur_version = 0\<rparr>)],
     cache_rows = [(js ''u'', removed_row)], member_rows = [(9, js ''u'')], redis_keys = [js ''u'']\<rparr>"

definition removal_event :: permission_invalidated where
  "removal_event = \<lparr>pi_user_ids = [], pi_logins = [], pi_team = Some 9, pi_repository = None,
     pi_reason = js ''team''\<rparr>"

definition removal_context :: event_context where
  "removal_context = \<lparr>ec_org = Some (js ''o''), ec_team_slug = Some (js ''t''), ec_org_id = Some 2\<rparr>"

definition nobody :: "jstr \<Rightarrow> jstr \<Rightarrow> int list" where
  "nobody org slug = []"

lemmas removal_defs = removal_db_def removal_event_def removal_context_def nobody_def apply_invalidation_def
  and_then_def ask_def change_def return_def team_targets_def refresh_team_members_def replace_team_members_def
  find_user_ids_by_github_ids_def find_user_ids_by_logins_def find_users_affected_by_repository_def
  list_team_members_def delete_team_members_def insert_team_members_def invalidate_users_def
  invalidated_users_def forget_users_def set_add_def

text \<open>The event of a member's removal, without failures.\<close>

lemma removal_applied:
  "apply_invalidation (Some nobody) (\<lambda>_. False) removal_event removal_context removal_db =
     (removal_db\<lparr>user_rows := [(js ''u'', \<lparr>ur_github = Some 11, ur_login = js ''ul'', ur_version = 1\<rparr>)],
        cache_rows := [], member_rows := [], redis_keys := []\<rparr>,
      Inr \<lparr>ir_reason = js ''team'', ir_invalidated = [js ''u''], ir_team_refreshed = True\<rparr>)"
  by (simp add: removal_defs Let_def del: js_Cons)

theorem invalidation_reaches_its_targets_witness:
  "is_target (Some nobody) removal_event removal_context removal_db (js ''u'')"
  using invalidation_reaches_its_targets[OF removal_applied]
  by (simp add: removal_db_def split: if_splits del: js_Cons)

text \<open>An invalidation that fails once the members are replaced has changed nothing but the members.\<close>

definition after_replacement :: "port_call set" where
  "after_replacement = {Insert_members, Stamp_team, Read_members, Find_affected, Invalidate_rows}"

lemma refresh_fails:
  assumes "refresh_team_members api fails team org slug db = (db', Inl e)" "e \<in> after_replacement"
  shows "user_rows db' = user_rows db \<and> cache_rows db' = cache_rows db \<and> redis_keys db' = redis_keys db \<and>
    (\<forall>u. (team, u) \<in> set (member_rows db') \<longrightarrow> u \<in> set (find_user_ids_by_github_ids (api org slug) db))"
  using assms
  by (auto simp: refresh_team_members_def replace_team_members_def and_then_Inl_iff after_replacement_def
      insert_team_members_def delete_team_members_def split: if_splits)

lemma refresh_members:
  assumes "refresh_team_members api fails team org slug db = (db', Inr us)"
  shows "(team, u) \<in> set (member_rows db') \<Longrightarrow> u \<in> set (find_user_ids_by_github_ids (api org slug) db)"
  using assms
  by (auto simp: refresh_team_members_def replace_team_members_def insert_team_members_def delete_team_members_def split: if_splits)

lemma team_targets_then:
  assumes "pi_team payload = Some team" "ec_org ctx = Some org" "ec_team_slug ctx = Some slug"
  shows "team_targets (Some api) fails (pi_team payload) ctx targets db = (db1, Inr x) \<Longrightarrow>
      \<exists>us. refresh_team_members api fails team org slug db = (db1, Inr us)"
    and "team_targets (Some api) fails (pi_team payload) ctx targets db = (db1, Inl e) \<Longrightarrow> e \<in> after_replacement \<Longrightarrow>
      refresh_team_members api fails team org slug db = (db1, Inl e)"
  using assms by (auto simp: team_targets_def Let_def and_then_Inl_iff after_replacement_def)

lemma invalidation_fails:
  assumes "apply_invalidation (Some api) fails payload ctx db = (db', Inl e)" "e \<in> after_replacement"
    and "pi_team payload = Some team" "ec_org ctx = Some org" "ec_team_slug ctx = Some slug"
  shows "user_rows db' = user_rows db \<and> cache_rows db' = cache_rows db \<and> redis_keys db' = redis_keys db \<and>
    (\<forall>u. (team, u) \<in> set (member_rows db') \<longrightarrow> u \<in> set (find_user_ids_by_github_ids (api org slug) db))"
proof -
  have find: "(if c then return [] else ask fails p f) db1 = (db2, Inr x) \<Longrightarrow> db2 = db1"
    "(if c then return [] else ask fails p f) db1 = (db2, Inl e) \<Longrightarrow> e = p" for c p f db1 db2 and x :: "jstr list"
    by (auto split: if_splits)
  have affected: "(case r of None \<Rightarrow> return [] | Some i \<Rightarrow> ask fails p (g i)) db1 = (db2, Inr x) \<Longrightarrow> db2 = db1"
    "(case r of None \<Rightarrow> return [] | Some i \<Rightarrow> ask fails p (g i)) db1 = (db2, Inl e) \<Longrightarrow> db2 = db1"
    for r :: "int option" and p g db1 db2 and x :: "jstr list"
    by (auto split: option.splits)
  let ?first = "if pi_user_ids payload = [] then return [] else ask fails Find_github (find_user_ids_by_github_ids (pi_user_ids payload))"
  let ?logins = "if pi_logins payload = [] then return [] else ask fails Find_logins (find_user_ids_by_logins (pi_logins payload))"
  have "?first db \<noteq> (db', Inl e)" "?logins db \<noteq> (db', Inl e)"
    using assms(2) by (auto simp: after_replacement_def dest!: find(2))
  define rest :: "jstr list \<times> bool \<Rightarrow> invalidation_result port_program" where
    "rest = (\<lambda>(targets, refreshed).
       and_then (case pi_repository payload of
                   None \<Rightarrow> return []
                 | Some r \<Rightarrow> ask fails Find_affected (find_users_affected_by_repository r (ec_org_id ctx))) (\<lambda>affected.
         let ids = set_add_all targets affected in
         if length ids = 0 then
           return \<lparr>ir_reason = pi_reason payload, ir_invalidated = [], ir_team_refreshed = refreshed\<rparr>
         else
           and_then (change fails Invalidate_rows (invalidate_users ids) (invalidated_users ids)) (\<lambda>invalidated.
           and_then (change fails Forget_keys (forget_users ids) (\<lambda>_. ())) (\<lambda>_.
             return \<lparr>ir_reason = pi_reason payload, ir_invalidated = invalidated, ir_team_refreshed = refreshed\<rparr>))))"
  have still: "db' = db1" if "rest x db1 = (db', Inl e)" for x db1
    using that assms(2) unfolding rest_def
    by (cases x) (auto simp: and_then_Inl_iff after_replacement_def Let_def split: if_splits option.splits)
  have "and_then ?first (\<lambda>by_id. and_then ?logins (\<lambda>by_login.
      and_then (team_targets (Some api) fails (pi_team payload) ctx (set_add_all (set_add_all [] by_id) by_login)) rest)) db = (db', Inl e)"
    using assms(1) unfolding apply_invalidation_def rest_def .
  with \<open>?first db \<noteq> (db', Inl e)\<close> obtain by_id where
    "and_then ?logins (\<lambda>by_login.
      and_then (team_targets (Some api) fails (pi_team payload) ctx (set_add_all (set_add_all [] by_id) by_login)) rest) db = (db', Inl e)"
    unfolding and_then_Inl_iff using find(1) by metis
  with \<open>?logins db \<noteq> (db', Inl e)\<close> obtain targets where
    "and_then (team_targets (Some api) fails (pi_team payload) ctx targets) rest db = (db', Inl e)"
    unfolding and_then_Inl_iff using find(1) by metis
  then have "team_targets (Some api) fails (pi_team payload) ctx targets db = (db', Inl e) \<or>
     (\<exists>x. team_targets (Some api) fails (pi_team payload) ctx targets db = (db', Inr x))"
    using still unfolding and_then_Inl_iff by blast
  then show ?thesis
  proof
    assume "team_targets (Some api) fails (pi_team payload) ctx targets db = (db', Inl e)"
    from refresh_fails[OF team_targets_then(2)[OF assms(3-5) this assms(2)] assms(2)] show ?thesis .
  next
    assume "\<exists>x. team_targets (Some api) fails (pi_team payload) ctx targets db = (db', Inr x)"
    then obtain us where "refresh_team_members api fails team org slug db = (db', Inr us)"
      using team_targets_then(1)[OF assms(3-5)] by blast
    from refresh_team_members_result[OF this] refresh_members[OF this] show ?thesis by blast
  qed
qed

lemma untouched_rows:
  "\<not> P u \<Longrightarrow> (u, r) \<in> set (map (\<lambda>(v, x). (v, if P v then f x else x)) rows) \<longleftrightarrow> (u, r) \<in> set rows"
  by (induction rows) auto

text \<open>C23: When an invalidation of a team, with its organization and name in the event, fails after it
  has deleted the team's members, at whichever later call up to the invalidation itself, its
  retry does not reach a member who is not in the team any more: a stored member the API does
  not list, whom the event reaches in no other way, was a target of the first attempt, and a
  retry that succeeds leaves his row with its version, his cached scope and his Redis key as
  they were and does not report him.\<close>

theorem retry_loses_removed_member:
  assumes team: "pi_team payload = Some team" "ec_org ctx = Some org" "ec_team_slug ctx = Some slug"
    and member: "(team, u) \<in> set (member_rows db)" "u \<notin> set (find_user_ids_by_github_ids (api org slug) db)"
    and unnamed: "u \<notin> set (find_user_ids_by_github_ids (pi_user_ids payload) db)"
      "u \<notin> set (find_user_ids_by_logins (pi_logins payload) db)"
      "case pi_repository payload of None \<Rightarrow> True
       | Some repo \<Rightarrow> u \<notin> set (find_users_affected_by_repository repo (ec_org_id ctx) db)"
    and first: "apply_invalidation (Some api) fails payload ctx db = (db1, Inl e)"
      "e \<in> {Insert_members, Stamp_team, Read_members, Find_affected, Invalidate_rows}"
    and second: "apply_invalidation (Some api) fails' payload ctx db1 = (db2, Inr res)"
  shows "is_target (Some api) payload ctx db u \<and> u \<notin> set (ir_invalidated res) \<and>
    {r. (u, r) \<in> set (user_rows db2)} = {r. (u, r) \<in> set (user_rows db)} \<and>
    {row. (u, row) \<in> set (cache_rows db2)} = {row. (u, row) \<in> set (cache_rows db)} \<and>
    (u \<in> set (redis_keys db2) \<longleftrightarrow> u \<in> set (redis_keys db))"
proof -
  have "is_target (Some api) payload ctx db u" using team(1) member(1) by (auto simp: is_target_def)
  moreover note same = invalidation_fails[OF first(1) first(2)[folded after_replacement_def] team]
  have "\<not> is_target (Some api) payload ctx db1 u"
    using same team member(2) unnamed
    by (auto simp: is_target_def set_find_github set_find_logins set_find_affected split: option.splits)
  with apply_invalidation_effect[OF second] same
  have "{r. (u, r) \<in> set (user_rows db2)} = {r. (u, r) \<in> set (user_rows db)}"
    "{row. (u, row) \<in> set (cache_rows db2)} = {row. (u, row) \<in> set (cache_rows db)}"
    "u \<in> set (redis_keys db2) \<longleftrightarrow> u \<in> set (redis_keys db)"
    by (auto simp: untouched_rows simp del: set_map)
  moreover have "u \<notin> set (ir_invalidated res)"
    using apply_invalidation_effect[OF second] \<open>\<not> is_target (Some api) payload ctx db1 u\<close> by auto
  ultimately show ?thesis by blast
qed

definition failed_db :: auth_db where
  "failed_db = removal_db\<lparr>member_rows := []\<rparr>"

lemma removal_failed:
  "apply_invalidation (Some nobody) (\<lambda>p. p = Invalidate_rows) removal_event removal_context removal_db = (failed_db, Inl Invalidate_rows)"
  by (simp add: removal_defs failed_db_def Let_def del: js_Cons)

lemma removal_retried:
  "apply_invalidation (Some nobody) (\<lambda>_. False) removal_event removal_context failed_db =
     (failed_db, Inr \<lparr>ir_reason = js ''team'', ir_invalidated = [], ir_team_refreshed = True\<rparr>)"
  by (simp add: removal_defs failed_db_def Let_def del: js_Cons)

theorem retry_loses_removed_member_witness:
  "is_target (Some nobody) removal_event removal_context removal_db (js ''u'') \<and>
   {row. (js ''u'', row) \<in> set (cache_rows failed_db)} = {row. (js ''u'', row) \<in> set (cache_rows removal_db)}"
proof -
  have "pi_team removal_event = Some 9" "ec_org removal_context = Some (js ''o'')" "ec_team_slug removal_context = Some (js ''t'')"
    "(9, js ''u'') \<in> set (member_rows removal_db)" "js ''u'' \<notin> set (find_user_ids_by_github_ids (nobody (js ''o'') (js ''t'')) removal_db)"
    "js ''u'' \<notin> set (find_user_ids_by_github_ids (pi_user_ids removal_event) removal_db)"
    "js ''u'' \<notin> set (find_user_ids_by_logins (pi_logins removal_event) removal_db)" "pi_repository removal_event = None"
    by (simp_all add: removal_defs del: js_Cons)
  from retry_loses_removed_member[OF this(1-7) _ removal_failed _ removal_retried] this(8) show ?thesis by auto
qed

end
