(* ===== verification/Authz_Session.thy ===== *)
theory Authz_Session
  imports Authz_Scope
begin

text \<open>
  Roles (\<open>packages/authz/src/roles.ts\<close>), sessions and their cookies
  (\<open>packages/authz/src/session.ts\<close>), and the session store in Redis
  (\<open>packages/authz/src/session-store.ts\<close>). A stored text is the value \<open>JSON.parse\<close> gives, or \<open>None\<close>
  when it is no JSON; times are integer milliseconds. Making a session id and comparing two ids
  in constant time are the crypto library's.
\<close>

section \<open>Roles\<close>

datatype role = Developer | Release_manager | Manager | Qa | Operator | Security_officer

definition ROLES :: "role list" where
  "ROLES = [Developer, Release_manager, Manager, Qa, Operator, Security_officer]"

fun role_name :: "role \<Rightarrow> jstr" where
  "role_name Developer = js ''developer''"
| "role_name Release_manager = js ''release_manager''"
| "role_name Manager = js ''manager''"
| "role_name Qa = js ''qa''"
| "role_name Operator = js ''operator''"
| "role_name Security_officer = js ''security_officer''"

text \<open>\<open>isRole\<close>, with the role it narrows to.\<close>

definition role_of_name :: "jstr \<Rightarrow> role option" where
  "role_of_name v = find (\<lambda>r. role_name r = v) ROLES"

definition DEFAULT_ROLE :: role where
  "DEFAULT_ROLE = Developer"

definition IDP_ASSIGNABLE_ROLES :: "role list" where
  "IDP_ASSIGNABLE_ROLES = [Manager, Qa]"

definition ADMIN_ASSIGNED_ROLES :: "role list" where
  "ADMIN_ASSIGNED_ROLES = [Release_manager, Operator, Security_officer]"

datatype role_map_error = Bad_mapping jstr | Not_a_role jstr | Not_assignable role

definition last_index :: "unit16 \<Rightarrow> jstr \<Rightarrow> nat option" where
  "last_index c s = map_option (\<lambda>i. length s - Suc i) (find_index (\<lambda>u. u = c) (rev s))"

definition parse_role_pair :: "jstr \<Rightarrow> (role_map_error, jstr \<times> role) result" where
  "parse_role_pair trimmed =
     (case last_index (ch CHR '':'') trimmed of
        None \<Rightarrow> Inl (Bad_mapping trimmed)
      | Some i \<Rightarrow>
          if i = 0 \<or> i = length trimmed - 1 then Inl (Bad_mapping trimmed)
          else (let group = trim (take i trimmed); name = trim (drop (Suc i) trimmed) in
                case role_of_name name of
                  None \<Rightarrow> Inl (Not_a_role name)
                | Some r \<Rightarrow> if r \<notin> set IDP_ASSIGNABLE_ROLES then Inl (Not_assignable r) else Inr (group, r)))"

fun add_role_pairs :: "(jstr \<rightharpoonup> role) \<Rightarrow> jstr list \<Rightarrow> (role_map_error, jstr \<rightharpoonup> role) result" where
  "add_role_pairs m [] = Inr m"
| "add_role_pairs m (pair # pairs) =
     (if trim pair = [] then add_role_pairs m pairs
      else bind_result (parse_role_pair (trim pair)) (\<lambda>(group, r). add_role_pairs (m(group \<mapsto> r)) pairs))"

definition parse_group_role_map :: "jstr option \<Rightarrow> (role_map_error, jstr \<rightharpoonup> role) result" where
  "parse_group_role_map input =
     (case input of
        None \<Rightarrow> Inr Map.empty
      | Some s \<Rightarrow> if trim s = [] then Inr Map.empty else add_role_pairs Map.empty (split_on (ch CHR '','') s))"

definition compose_roles :: "jstr list \<Rightarrow> jstr list \<Rightarrow> (jstr \<rightharpoonup> role) \<Rightarrow> role list" where
  "compose_roles groups assigned group_map =
     (let roles = [DEFAULT_ROLE] @ List.map_filter group_map groups @ List.map_filter role_of_name assigned
      in filter (\<lambda>r. r \<in> set roles) ROLES)"

definition with_assigned_roles :: "jstr list \<Rightarrow> jstr list \<Rightarrow> role list" where
  "with_assigned_roles session_roles assigned =
     (let roles = [DEFAULT_ROLE] @ List.map_filter role_of_name (session_roles @ assigned)
      in filter (\<lambda>r. r \<in> set roles) ROLES)"

definition has_role :: "jstr list \<Rightarrow> role \<Rightarrow> bool" where
  "has_role roles required \<longleftrightarrow> role_name required \<in> set roles"

lemma in_ROLES [simp]: "r \<in> set ROLES"
  by (cases r) (simp_all add: ROLES_def)

lemma role_of_role_name [simp]: "role_of_name (role_name r) = Some r"
  by (cases r) (simp_all add: role_of_name_def ROLES_def)

lemma role_of_name_iff: "role_of_name v = Some r \<longleftrightarrow> v = role_name r"
  using role_of_role_name[of r] by (auto simp: role_of_name_def find_Some_iff)

lemma set_map_filter': "set (List.map_filter f xs) = {y. \<exists>x \<in> set xs. f x = Some y}"
  by (induction xs) (auto simp: List.map_filter_def)

lemma add_role_pairs_ran:
  assumes "add_role_pairs m pairs = Inr m'" and "ran m \<subseteq> set IDP_ASSIGNABLE_ROLES"
  shows "ran m' \<subseteq> set IDP_ASSIGNABLE_ROLES"
  using assms
proof (induction m pairs rule: add_role_pairs.induct)
  case (2 m pair pairs)
  show ?case
  proof (cases "trim pair = []")
    case False
    with 2(3) obtain group r where p: "parse_role_pair (trim pair) = Inr (group, r)"
      and rest: "add_role_pairs (m(group \<mapsto> r)) pairs = Inr m'" by auto
    from p have "r \<in> set IDP_ASSIGNABLE_ROLES"
      by (auto simp: parse_role_pair_def Let_def split: option.splits if_splits)
    with 2(4) have "ran (m(group \<mapsto> r)) \<subseteq> set IDP_ASSIGNABLE_ROLES" by (auto simp: ran_def)
    from 2(2)[OF False rest this] show ?thesis .
  qed (use 2 in simp)
qed simp

lemma parse_group_role_map_ran:
  "parse_group_role_map input = Inr m \<Longrightarrow> m g = Some r \<Longrightarrow> r \<in> set IDP_ASSIGNABLE_ROLES"
  using add_role_pairs_ran[of Map.empty _ m]
  by (auto simp: parse_group_role_map_def ran_def split: option.splits if_splits)

text \<open>C25: No group of the identity provider gives a role that only administrators assign: for every
  accepted group map, a user has such a role exactly when it was assigned to him.\<close>

theorem groups_grant_no_admin_role:
  assumes "parse_group_role_map input = Inr group_map" and "r \<in> set ADMIN_ASSIGNED_ROLES"
  shows "r \<in> set (compose_roles groups assigned group_map) \<longleftrightarrow> role_name r \<in> set assigned"
proof -
  have "group_map g \<noteq> Some r" for g
    using parse_group_role_map_ran[OF assms(1), of g r] assms(2)
    by (auto simp: IDP_ASSIGNABLE_ROLES_def ADMIN_ASSIGNED_ROLES_def)
  moreover have "r \<noteq> DEFAULT_ROLE" using assms(2) by (auto simp: ADMIN_ASSIGNED_ROLES_def DEFAULT_ROLE_def)
  ultimately show ?thesis
    by (auto simp: compose_roles_def Let_def set_map_filter' role_of_name_iff)
qed

theorem groups_grant_no_admin_role_witness:
  "Operator \<in> set (compose_roles [js ''g''] [js ''operator''] (Map.empty(js ''g'' \<mapsto> Qa)))"
proof -
  have steps: "split_on (ch CHR '','') (js '' g : qa '') = [js '' g : qa '']" "trim (js '' g : qa '') = js ''g : qa''"
    "js ''g : qa'' \<noteq> []" "parse_role_pair (js ''g : qa'') = Inr (js ''g'', Qa)"
    by code_simp+
  have "parse_group_role_map (Some (js '' g : qa '')) = Inr (Map.empty(js ''g'' \<mapsto> Qa))"
    by (simp add: parse_group_role_map_def steps del: js_Cons)
  from groups_grant_no_admin_role[OF this, of Operator] show ?thesis
    by (simp add: ADMIN_ASSIGNED_ROLES_def)
qed

section \<open>Sessions\<close>

definition IDLE_TIMEOUT_MS :: int where
  "IDLE_TIMEOUT_MS = 8 * 60 * 60 * 1000"

definition ABSOLUTE_TIMEOUT_MS :: int where
  "ABSOLUTE_TIMEOUT_MS = 12 * 60 * 60 * 1000"

definition TOUCH_INTERVAL_MS :: int where
  "TOUCH_INTERVAL_MS = 60 * 1000"

lemmas session_times = IDLE_TIMEOUT_MS_def ABSOLUTE_TIMEOUT_MS_def TOUCH_INTERVAL_MS_def

record session =
  session_id :: jstr
  user_id :: jstr
  session_login :: jstr
  session_email :: "jstr option"
  session_roles :: "jstr list"
  issued_at :: int
  last_seen :: int
  correlation_id :: "jstr option"
  github_user_id :: "int option"

record deadlines =
  idle_expires :: int
  absolute_expires :: int

definition deadlines_of :: "session \<Rightarrow> deadlines" where
  "deadlines_of s = \<lparr>idle_expires = last_seen s + IDLE_TIMEOUT_MS, absolute_expires = issued_at s + ABSOLUTE_TIMEOUT_MS\<rparr>"

datatype expiry_reason = Idle | Absolute

definition expiry_of :: "session \<Rightarrow> int \<Rightarrow> expiry_reason option" where
  "expiry_of s now =
     (let d = deadlines_of s in
      if now \<ge> absolute_expires d then Some Absolute
      else if now \<ge> idle_expires d then Some Idle
      else None)"

definition ceil_seconds :: "int \<Rightarrow> int" where
  "ceil_seconds ms = - ((- ms) div 1000)"

definition remaining_ttl_seconds :: "session \<Rightarrow> int \<Rightarrow> int" where
  "remaining_ttl_seconds s now =
     (let d = deadlines_of s in max 1 (ceil_seconds (min (idle_expires d) (absolute_expires d) - now)))"

definition cookie_max_age_seconds :: "session \<Rightarrow> int \<Rightarrow> int" where
  "cookie_max_age_seconds s now = max 1 (ceil_seconds (issued_at s + ABSOLUTE_TIMEOUT_MS - now))"

lemma ceil_seconds_bounds: "ms \<le> ceil_seconds ms * 1000" "ceil_seconds ms * 1000 < ms + 1000"
  by (auto simp: ceil_seconds_def)

subsection \<open>Cookies\<close>

definition SESSION_COOKIE_NAME :: jstr where
  "SESSION_COOKIE_NAME = js ''__Host-prs_session''"

definition INSECURE_SESSION_COOKIE_NAME :: jstr where
  "INSECURE_SESSION_COOKIE_NAME = js ''prs_session''"

definition session_cookie_name :: "bool \<Rightarrow> jstr" where
  "session_cookie_name secure = (if secure then SESSION_COOKIE_NAME else INSECURE_SESSION_COOKIE_NAME)"

definition serialize_session_cookie :: "jstr \<Rightarrow> bool \<Rightarrow> int option \<Rightarrow> jstr" where
  "serialize_session_cookie sid secure max_age =
     join_with (js ''; '')
       ([session_cookie_name secure @ js ''='' @ sid, js ''Path=/'', js ''HttpOnly'', js ''SameSite=Lax''] @
        (if secure then [js ''Secure''] else []) @
        (case max_age of None \<Rightarrow> [] | Some n \<Rightarrow> [js ''Max-Age='' @ show_int n]))"

definition serialize_clearing_cookie :: "bool \<Rightarrow> jstr" where
  "serialize_clearing_cookie secure =
     join_with (js ''; '')
       ([session_cookie_name secure @ js ''='', js ''Path=/'', js ''HttpOnly'', js ''SameSite=Lax'', js ''Max-Age=0''] @
        (if secure then [js ''Secure''] else []))"

definition cookie_values :: "jstr \<Rightarrow> jstr \<Rightarrow> jstr list" where
  "cookie_values header name =
     List.map_filter
       (\<lambda>pair. case find_index (\<lambda>u. u = ch CHR ''='') pair of
          None \<Rightarrow> None
        | Some i \<Rightarrow> if trim (take i pair) \<noteq> name then None else Some (trim (drop (Suc i) pair)))
       (split_on (ch CHR '';'') header)"

definition read_session_cookie :: "jstr option \<Rightarrow> jstr \<Rightarrow> jstr option" where
  "read_session_cookie header name =
     (case header of
        None \<Rightarrow> None
      | Some h \<Rightarrow>
          if h = [] then None
          else (case cookie_values h name of [v] \<Rightarrow> if v = [] then None else Some v | _ \<Rightarrow> None))"

subsection \<open>The stored text\<close>

definition json_of_session :: "session \<Rightarrow> json" where
  "json_of_session s =
     (let opt = (\<lambda>v. case v of None \<Rightarrow> J_null | Some t \<Rightarrow> J_string t) in
      J_object
       ([(js ''sessionId'', J_string (session_id s)), (js ''userId'', J_string (user_id s)),
         (js ''login'', J_string (session_login s)), (js ''email'', opt (session_email s)),
         (js ''roles'', J_array (map J_string (session_roles s))), (js ''issuedAt'', J_int (issued_at s)),
         (js ''lastSeenAt'', J_int (last_seen s)), (js ''correlationId'', opt (correlation_id s))] @
        (case github_user_id s of None \<Rightarrow> [] | Some n \<Rightarrow> [(js ''githubUserId'', J_int n)])))"

definition nonempty_string :: "json option \<Rightarrow> jstr option" where
  "nonempty_string v = (case as_string v of Some s \<Rightarrow> if s = [] then None else Some s | None \<Rightarrow> None)"

definition positive_safe_int :: "json option \<Rightarrow> int option" where
  "positive_safe_int v =
     (case v of Some (J_int n) \<Rightarrow> if is_safe_integer n \<and> n > 0 then Some n else None | _ \<Rightarrow> None)"

definition parse_session :: "json option \<Rightarrow> session option" where
  "parse_session parsed =
     (case Option.bind parsed as_record of
        None \<Rightarrow> None
      | Some v \<Rightarrow>
          (case (nonempty_string (member v (js ''sessionId'')), nonempty_string (member v (js ''userId'')),
                 as_string (member v (js ''login''))) of
             (Some sid, Some uid, Some login) \<Rightarrow>
               (case (Option.bind (member v (js ''issuedAt'')) int_of_json,
                      Option.bind (member v (js ''lastSeenAt'')) int_of_json,
                      json_list text_of_json (member v (js ''roles''))) of
                  (Some issued, Some seen, Some roles) \<Rightarrow>
                    Some \<lparr>session_id = sid, user_id = uid, session_login = login,
                          session_email = as_string (member v (js ''email'')), session_roles = roles,
                          issued_at = issued, last_seen = seen,
                          correlation_id = as_string (member v (js ''correlationId'')),
                          github_user_id = positive_safe_int (member v (js ''githubUserId''))\<rparr>
                | _ \<Rightarrow> None)
           | _ \<Rightarrow> None))"

text \<open>The sessions the code makes.\<close>

definition session_ok :: "session \<Rightarrow> bool" where
  "session_ok s \<longleftrightarrow> session_id s \<noteq> [] \<and> user_id s \<noteq> [] \<and>
     (case github_user_id s of None \<Rightarrow> True | Some n \<Rightarrow> is_safe_integer n \<and> 0 < n)"

lemma parse_json_of_session: "session_ok s \<Longrightarrow> parse_session (Some (json_of_session s)) = Some s"
  by (cases "github_user_id s"; cases "session_email s"; cases "correlation_id s")
    (auto simp: parse_session_def json_of_session_def session_ok_def member_def nonempty_string_def
      positive_safe_int_def collect_map Let_def)

lemma parse_session_ok: "parse_session v = Some s \<Longrightarrow> session_ok s"
  by (auto simp: parse_session_def session_ok_def nonempty_string_def positive_safe_int_def
      split: option.splits json.splits if_splits)

section \<open>The store\<close>

text \<open>Redis: a key holds a text and the time it expires.\<close>

record session_store =
  store_clock :: int
  entries :: "jstr \<rightharpoonup> json option \<times> int"

definition SESSION_KEY_PREFIX :: jstr where
  "SESSION_KEY_PREFIX = js ''prs:session:''"

definition session_key :: "jstr \<Rightarrow> jstr" where
  "session_key sid = SESSION_KEY_PREFIX @ sid"

definition redis_get :: "jstr \<Rightarrow> session_store \<Rightarrow> json option option" where
  "redis_get key st =
     (case entries st key of None \<Rightarrow> None | Some (body, expires) \<Rightarrow> if expires \<le> store_clock st then None else Some body)"

definition redis_set :: "jstr \<Rightarrow> json option \<Rightarrow> int \<Rightarrow> session_store \<Rightarrow> session_store" where
  "redis_set key body seconds st = st\<lparr>entries := (entries st)(key \<mapsto> (body, store_clock st + seconds * 1000))\<rparr>"

definition redis_del :: "jstr \<Rightarrow> session_store \<Rightarrow> session_store" where
  "redis_del key st = st\<lparr>entries := (entries st)(key := None)\<rparr>"

definition create_session :: "session \<Rightarrow> session_store \<Rightarrow> session_store" where
  "create_session s st =
     redis_set (session_key (session_id s)) (Some (json_of_session s)) (remaining_ttl_seconds s (store_clock st)) st"

record loaded_session =
  loaded :: session
  touched :: bool

text \<open>
  \<open>load\<close> reads the key, decides, and then deletes the key or writes it anew; between the reading and
  the writing it awaits Redis. \<open>load_session\<close> does both at once, which is what the runs below do; a
  logout in between is looked at in the section on lost logouts.
\<close>

datatype load_write = Write_nothing | Delete_key jstr | Write_session session int

definition load_plan :: "int \<Rightarrow> jstr \<Rightarrow> json option option \<Rightarrow> load_write \<times> loaded_session option" where
  "load_plan now sid found =
     (case found of
        None \<Rightarrow> (Write_nothing, None)
      | Some body \<Rightarrow>
          (case parse_session body of
             None \<Rightarrow> (Delete_key (session_key sid), None)
           | Some s \<Rightarrow>
               if expiry_of s now \<noteq> None then (Delete_key (session_key (session_id s)), None)
               else if now - last_seen s < TOUCH_INTERVAL_MS then (Write_nothing, Some \<lparr>loaded = s, touched = False\<rparr>)
               else (let s' = s\<lparr>last_seen := now\<rparr> in
                     (Write_session s' (remaining_ttl_seconds s' now), Some \<lparr>loaded = s', touched = True\<rparr>))))"

fun load_effect :: "load_write \<Rightarrow> session_store \<Rightarrow> session_store" where
  "load_effect Write_nothing st = st"
| "load_effect (Delete_key key) st = redis_del key st"
| "load_effect (Write_session s seconds) st = redis_set (session_key (session_id s)) (Some (json_of_session s)) seconds st"

definition load_session :: "jstr \<Rightarrow> session_store \<Rightarrow> session_store \<times> loaded_session option" where
  "load_session sid st =
     (case load_plan (store_clock st) sid (redis_get (session_key sid) st) of (pending, found) \<Rightarrow> (load_effect pending st, found))"

lemma load_session_eq:
  "load_session sid st =
     (case redis_get (session_key sid) st of
        None \<Rightarrow> (st, None)
      | Some body \<Rightarrow>
          (case parse_session body of
             None \<Rightarrow> (redis_del (session_key sid) st, None)
           | Some s \<Rightarrow>
               let now = store_clock st in
               if expiry_of s now \<noteq> None then (redis_del (session_key (session_id s)) st, None)
               else if now - last_seen s < TOUCH_INTERVAL_MS then (st, Some \<lparr>loaded = s, touched = False\<rparr>)
               else (let s' = s\<lparr>last_seen := now\<rparr> in
                     (redis_set (session_key (session_id s')) (Some (json_of_session s')) (remaining_ttl_seconds s' now) st,
                      Some \<lparr>loaded = s', touched = True\<rparr>))))"
  by (simp add: load_session_def load_plan_def Let_def split: option.splits)

definition destroy_session :: "jstr \<Rightarrow> session_store \<Rightarrow> session_store" where
  "destroy_session sid st = redis_del (session_key sid) st"

text \<open>\<open>pages\<close> are the keys the scan returns, page by page.\<close>

definition doomed_keys :: "jstr \<Rightarrow> jstr list \<Rightarrow> session_store \<Rightarrow> jstr list" where
  "doomed_keys uid keys st =
     filter (\<lambda>key. case Option.bind (redis_get key st) parse_session of None \<Rightarrow> False | Some s \<Rightarrow> user_id s = uid) keys"

fun destroy_all_for_user :: "jstr \<Rightarrow> jstr list list \<Rightarrow> session_store \<Rightarrow> session_store \<times> nat" where
  "destroy_all_for_user uid [] st = (st, 0)"
| "destroy_all_for_user uid (keys # pages) st =
     (let doomed = doomed_keys uid keys st;
          removed = length (remdups doomed) in
      case destroy_all_for_user uid pages (fold redis_del doomed st) of (st', n) \<Rightarrow> (st', removed + n))"

section \<open>Runs of the store\<close>

inductive session_step :: "session_store \<Rightarrow> session_store \<Rightarrow> bool" where
  Session_tick: "0 \<le> d \<Longrightarrow> session_step st (st\<lparr>store_clock := store_clock st + d\<rparr>)"
| Session_create: "session_ok s \<Longrightarrow> last_seen s \<le> store_clock st \<Longrightarrow> session_step st (create_session s st)"
| Session_load: "session_step st (fst (load_session sid st))"
| Session_destroy: "session_step st (destroy_session sid st)"
| Session_destroy_all: "session_step st (fst (destroy_all_for_user uid pages st))"

definition entry_lives :: "int \<Rightarrow> jstr \<Rightarrow> json option \<times> int \<Rightarrow> bool" where
  "entry_lives now key e \<longleftrightarrow>
     (\<exists>s. fst e = Some (json_of_session s) \<and> session_ok s \<and> key = session_key (session_id s) \<and> last_seen s \<le> now \<and>
        min (last_seen s + IDLE_TIMEOUT_MS) (issued_at s + ABSOLUTE_TIMEOUT_MS) \<le> snd e)"

definition store_ok :: "session_store \<Rightarrow> bool" where
  "store_ok st \<longleftrightarrow> (\<forall>key e. entries st key = Some e \<longrightarrow> entry_lives (store_clock st) key e)"

lemma store_ok_del: "store_ok st \<Longrightarrow> store_ok (redis_del key st)"
  by (auto simp: store_ok_def redis_del_def split: if_splits)

lemma store_ok_dels: "store_ok st \<Longrightarrow> store_ok (fold redis_del keys st)"
  by (induction keys arbitrary: st) (auto intro: store_ok_del)

lemma store_ok_destroy_all: "store_ok st \<Longrightarrow> store_ok (fst (destroy_all_for_user uid pages st))"
  by (induction pages arbitrary: st) (simp_all add: Let_def case_prod_beta store_ok_dels)

lemma redis_del_clock [simp]: "store_clock (redis_del key st) = store_clock st"
  by (simp add: redis_del_def)

lemma ttl_covers:
  "min (last_seen s + IDLE_TIMEOUT_MS) (issued_at s + ABSOLUTE_TIMEOUT_MS) \<le> now + remaining_ttl_seconds s now * 1000"
  using ceil_seconds_bounds(1)[of "min (last_seen s + IDLE_TIMEOUT_MS) (issued_at s + ABSOLUTE_TIMEOUT_MS) - now"]
  by (simp add: remaining_ttl_seconds_def Let_def deadlines_of_def max_def)

lemma store_ok_write:
  assumes "store_ok st" "session_ok s" "last_seen s \<le> store_clock st"
  shows "store_ok (redis_set (session_key (session_id s)) (Some (json_of_session s))
      (remaining_ttl_seconds s (store_clock st)) st)"
  using assms ttl_covers[of s "store_clock st"]
  by (auto simp: store_ok_def redis_set_def entry_lives_def)

lemma load_session_cases:
  assumes "store_ok st"
  obtains (missing) "load_session sid st = (st, None)" "redis_get (session_key sid) st = None"
  | (expired) s where "load_session sid st = (redis_del (session_key sid) st, None)"
      "expiry_of s (store_clock st) \<noteq> None" "redis_get (session_key sid) st = Some (Some (json_of_session s))"
      "session_ok s" "session_id s = sid"
  | (kept) s where "load_session sid st = (st, Some \<lparr>loaded = s, touched = False\<rparr>)"
      "expiry_of s (store_clock st) = None" "redis_get (session_key sid) st = Some (Some (json_of_session s))"
      "session_ok s" "session_id s = sid" "store_clock st - last_seen s < TOUCH_INTERVAL_MS" "last_seen s \<le> store_clock st"
  | (renewed) s where "load_session sid st =
        (redis_set (session_key sid) (Some (json_of_session (s\<lparr>last_seen := store_clock st\<rparr>)))
           (remaining_ttl_seconds (s\<lparr>last_seen := store_clock st\<rparr>) (store_clock st)) st,
         Some \<lparr>loaded = s\<lparr>last_seen := store_clock st\<rparr>, touched = True\<rparr>)"
      "expiry_of s (store_clock st) = None" "redis_get (session_key sid) st = Some (Some (json_of_session s))"
      "session_ok s" "session_id s = sid" "last_seen s \<le> store_clock st"
proof (cases "redis_get (session_key sid) st")
  case None
  then show ?thesis by (intro missing) (simp_all add: load_session_eq)
next
  case (Some body)
  then obtain t where "entries st (session_key sid) = Some (body, t)"
    by (auto simp: redis_get_def split: option.splits if_splits)
  then have "entry_lives (store_clock st) (session_key sid) (body, t)" using assms by (simp add: store_ok_def)
  then obtain s where s: "body = Some (json_of_session s)" "session_ok s" "session_id s = sid" "last_seen s \<le> store_clock st"
    by (auto simp: entry_lives_def session_key_def)
  note get = Some[unfolded s(1)]
  note p = parse_json_of_session[OF s(2)]
  show ?thesis
  proof (cases "expiry_of s (store_clock st)")
    case (Some r)
    have "load_session sid st = (redis_del (session_key sid) st, None)"
      unfolding load_session_eq get option.case p Let_def using Some s(3) by simp
    from expired[OF this _ get s(2,3)] Some show ?thesis by simp
  next
    case None
    show ?thesis
    proof (cases "store_clock st - last_seen s < TOUCH_INTERVAL_MS")
      case True
      have "load_session sid st = (st, Some \<lparr>loaded = s, touched = False\<rparr>)"
        unfolding load_session_eq get option.case p Let_def using None True by simp
      from kept[OF this None get s(2,3) True s(4)] show ?thesis .
    next
      case False
      have "load_session sid st =
        (redis_set (session_key sid) (Some (json_of_session (s\<lparr>last_seen := store_clock st\<rparr>)))
           (remaining_ttl_seconds (s\<lparr>last_seen := store_clock st\<rparr>) (store_clock st)) st,
         Some \<lparr>loaded = s\<lparr>last_seen := store_clock st\<rparr>, touched = True\<rparr>)"
        unfolding load_session_eq get option.case p Let_def using None False s(3) by simp
      from renewed[OF this None get s(2,3,4)] show ?thesis .
    qed
  qed
qed

lemma store_ok_step: "session_step st st' \<Longrightarrow> store_ok st \<Longrightarrow> store_ok st'"
proof (induction rule: session_step.induct)
  case (Session_tick d st)
  then show ?case by (fastforce simp: store_ok_def entry_lives_def)
next
  case (Session_create s st)
  then show ?case by (simp add: create_session_def store_ok_write)
next
  case (Session_load st sid)
  show ?case
  proof (rule load_session_cases[OF Session_load, of sid])
    fix s
    assume l: "load_session sid st = (redis_set (session_key sid) (Some (json_of_session (s\<lparr>last_seen := store_clock st\<rparr>)))
         (remaining_ttl_seconds (s\<lparr>last_seen := store_clock st\<rparr>) (store_clock st)) st,
       Some \<lparr>loaded = s\<lparr>last_seen := store_clock st\<rparr>, touched = True\<rparr>)"
      and s: "session_ok s" "session_id s = sid"
    have "session_ok (s\<lparr>last_seen := store_clock st\<rparr>)" using s(1) by (simp add: session_ok_def)
    from store_ok_write[OF Session_load this] l s(2) show ?thesis by simp
  qed (auto intro: store_ok_del Session_load)
qed (auto simp: destroy_session_def intro: store_ok_del store_ok_destroy_all)

definition new_session_store :: "int \<Rightarrow> session_store" where
  "new_session_store now = \<lparr>store_clock = now, entries = Map.empty\<rparr>"

interpretation session_runs: invariant_system "\<lambda>st. \<exists>now. st = new_session_store now" session_step store_ok
proof unfold_locales
  show "store_ok st" if "\<exists>now. st = new_session_store now" for st
    using that by (auto simp: new_session_store_def store_ok_def)
qed (rule store_ok_step)

section \<open>How long a session lives\<close>

lemma expiry_None:
  "expiry_of s now = None \<longleftrightarrow> now < last_seen s + IDLE_TIMEOUT_MS \<and> now < issued_at s + ABSOLUTE_TIMEOUT_MS"
  by (auto simp: expiry_of_def deadlines_of_def Let_def)

definition same_session :: "session \<Rightarrow> session \<Rightarrow> bool" where
  "same_session s t \<longleftrightarrow> s\<lparr>last_seen := 0\<rparr> = t\<lparr>last_seen := 0\<rparr>"

lemma same_session_seen [simp]: "same_session s (s\<lparr>last_seen := x\<rparr>)" "same_session s s"
  by (simp_all add: same_session_def)

text \<open>After a successful load the entry holds the session that was loaded.\<close>

definition holds_session :: "session_store \<Rightarrow> session \<Rightarrow> bool" where
  "holds_session st s \<longleftrightarrow>
     (\<exists>t. entries st (session_key (session_id s)) = Some (Some (json_of_session s), t)) \<and> session_ok s"

lemma load_session_holds:
  assumes "store_ok st" and "load_session sid st = (st', Some l)"
  shows "holds_session st' (loaded l) \<and> store_clock st' = store_clock st \<and> session_id (loaded l) = sid \<and>
    store_clock st - TOUCH_INTERVAL_MS < last_seen (loaded l) \<and> last_seen (loaded l) \<le> store_clock st"
proof (rule load_session_cases[OF assms(1), of sid])
  fix s
  assume "load_session sid st = (st, Some \<lparr>loaded = s, touched = False\<rparr>)" "session_ok s" "session_id s = sid"
    "redis_get (session_key sid) st = Some (Some (json_of_session s))"
    "store_clock st - last_seen s < TOUCH_INTERVAL_MS" "last_seen s \<le> store_clock st"
  then show ?thesis using assms(2)
    by (auto simp: holds_session_def redis_get_def split: option.splits if_splits)
qed (use assms(2) in \<open>auto simp: holds_session_def redis_set_def session_ok_def session_times\<close>)

lemma load_session_later:
  assumes "store_ok st" and "holds_session st s" and "last_seen s \<le> store_clock st"
  shows "case snd (load_session (session_id s) st) of
      None \<Rightarrow> \<not> (store_clock st < last_seen s + IDLE_TIMEOUT_MS \<and> store_clock st < issued_at s + ABSOLUTE_TIMEOUT_MS)
    | Some l \<Rightarrow> store_clock st < last_seen s + IDLE_TIMEOUT_MS \<and> store_clock st < issued_at s + ABSOLUTE_TIMEOUT_MS \<and>
        same_session s (loaded l)"
proof -
  from assms(2) obtain t where e: "entries st (session_key (session_id s)) = Some (Some (json_of_session s), t)"
    and ok: "session_ok s" by (auto simp: holds_session_def)
  from assms(1) e obtain s' where "json_of_session s' = json_of_session s" "session_ok s'"
    "min (last_seen s' + IDLE_TIMEOUT_MS) (issued_at s' + ABSOLUTE_TIMEOUT_MS) \<le> t"
    by (fastforce simp: store_ok_def entry_lives_def)
  moreover from this(1,2) have "s' = s" using parse_json_of_session ok by (metis option.inject)
  ultimately have t: "min (last_seen s + IDLE_TIMEOUT_MS) (issued_at s + ABSOLUTE_TIMEOUT_MS) \<le> t" by simp
  have get: "redis_get (session_key (session_id s)) st = (if t \<le> store_clock st then None else Some (Some (json_of_session s)))"
    using e by (simp add: redis_get_def)
  show ?thesis
    using t parse_json_of_session[OF ok]
    by (auto simp: load_session_eq get expiry_None Let_def)
qed

text \<open>C26: A session that was loaded is the same session when it is loaded again, it ends at its idle
  and absolute limits, and it does not end before them: it is still there after any pause of
  at most the idle time less the touch interval within the absolute limit.\<close>

theorem session_lives_from_load_to_load:
  assumes "reaches (\<lambda>st. \<exists>now. st = new_session_store now) session_step st" and "0 \<le> d"
    and "load_session sid st = (st1, Some l1)"
    and "load_session sid (st1\<lparr>store_clock := store_clock st1 + d\<rparr>) = (st2, r)"
  shows "(\<forall>l2. r = Some l2 \<longrightarrow> d < IDLE_TIMEOUT_MS \<and> store_clock st + d < issued_at (loaded l1) + ABSOLUTE_TIMEOUT_MS \<and>
      same_session (loaded l1) (loaded l2)) \<and>
    (d \<le> IDLE_TIMEOUT_MS - TOUCH_INTERVAL_MS \<and> store_clock st + d < issued_at (loaded l1) + ABSOLUTE_TIMEOUT_MS \<longrightarrow>
      r \<noteq> None)"
proof -
  let ?later = "st1\<lparr>store_clock := store_clock st1 + d\<rparr>"
  have ok: "store_ok st" by (rule session_runs.reaches_inv[OF assms(1)])
  have "store_ok st1" using store_ok_step[OF Session_load ok, of sid] assms(3) by simp
  then have later: "store_ok ?later" by (rule store_ok_step[OF Session_tick[OF assms(2)]])
  from load_session_holds[OF ok assms(3)] have h: "holds_session ?later (loaded l1)" "session_id (loaded l1) = sid"
    "store_clock st1 = store_clock st" "store_clock st - TOUCH_INTERVAL_MS < last_seen (loaded l1)"
    "last_seen (loaded l1) \<le> store_clock st"
    by (auto simp: holds_session_def)
  with load_session_later[OF later h(1)] assms(2,4) show ?thesis
    by (auto split: option.splits)
qed

definition sample_session :: session where
  "sample_session = \<lparr>session_id = js ''s'', user_id = js ''u'', session_login = js ''l'', session_email = None,
     session_roles = [js ''qa''], issued_at = 0, last_seen = 0, correlation_id = None, github_user_id = None\<rparr>"

lemma sample_store_reached:
  "reaches (\<lambda>st. \<exists>now. st = new_session_store now) session_step (create_session sample_session (new_session_store 0))"
  by (rule reaches.step[where step = session_step, OF reaches.start Session_create])
    (auto simp: sample_session_def session_ok_def new_session_store_def)

lemma sample_session_loads:
  "load_session (js ''s'') (create_session sample_session (new_session_store 0)) =
     (create_session sample_session (new_session_store 0), Some \<lparr>loaded = sample_session, touched = False\<rparr>)"
proof -
  have "parse_session (Some (json_of_session sample_session)) = Some sample_session"
    by (rule parse_json_of_session) (simp add: sample_session_def session_ok_def)
  moreover have "redis_get (session_key (js ''s'')) (create_session sample_session (new_session_store 0)) =
      Some (Some (json_of_session sample_session))"
    by (simp add: redis_get_def create_session_def redis_set_def new_session_store_def remaining_ttl_seconds_def
        ceil_seconds_def deadlines_of_def session_times) (simp add: sample_session_def)
  moreover have "store_clock (create_session sample_session (new_session_store 0)) = 0"
    by (simp add: create_session_def redis_set_def new_session_store_def)
  ultimately show ?thesis
    by (simp add: load_session_eq expiry_None) (simp add: sample_session_def session_times)
qed

theorem session_lives_from_load_to_load_witness:
  "snd (load_session (js ''s'') ((create_session sample_session (new_session_store 0))\<lparr>store_clock := 1000\<rparr>)) \<noteq> None"
proof -
  have c: "store_clock (create_session sample_session (new_session_store 0)) = 0"
    by (simp add: create_session_def redis_set_def new_session_store_def)
  have "issued_at sample_session = 0" by (simp add: sample_session_def)
  with session_lives_from_load_to_load[OF sample_store_reached _ sample_session_loads surjective_pairing, of 1000] c
  show ?thesis by (simp add: session_times)
qed

section \<open>Lost logouts\<close>

text \<open>
  A logout between the reading and the writing of \<open>load\<close> is undone: the key was deleted, and the load
  that refreshes the session writes it again, so the next load finds the session alive.
\<close>

theorem logout_undone_by_load:
  assumes "redis_get (session_key sid) st = Some body" and "parse_session body = Some s" "session_id s = sid"
    and "expiry_of s (store_clock st) = None" "TOUCH_INTERVAL_MS \<le> store_clock st - last_seen s"
    and "load_plan (store_clock st) sid (redis_get (session_key sid) st) = (pending, found)"
    and "logged_out = destroy_session sid st"
  shows "redis_get (session_key sid) logged_out = None \<and>
    snd (load_session sid (load_effect pending logged_out)) = Some \<lparr>loaded = s\<lparr>last_seen := store_clock st\<rparr>, touched = False\<rparr>"
proof -
  let ?now = "store_clock st" and ?s = "s\<lparr>last_seen := store_clock st\<rparr>"
  have clock: "store_clock logged_out = ?now" and gone: "entries logged_out (session_key sid) = None"
    unfolding assms(7) by (simp_all add: destroy_session_def redis_del_def)
  have pending: "pending = Write_session ?s (remaining_ttl_seconds ?s ?now)"
    using assms(1,2,4-6) by (auto simp: load_plan_def Let_def)
  have parsed: "parse_session (Some (json_of_session ?s)) = Some ?s"
    by (rule parse_json_of_session) (use parse_session_ok[OF assms(2)] in \<open>simp add: session_ok_def\<close>)
  have "0 < remaining_ttl_seconds ?s ?now" by (simp add: remaining_ttl_seconds_def Let_def)
  then have get: "redis_get (session_key sid) (load_effect pending logged_out) = Some (Some (json_of_session ?s))"
    using assms(3) clock by (simp add: pending redis_get_def redis_set_def)
  have "store_clock (load_effect pending logged_out) = ?now" by (simp add: pending redis_set_def clock)
  then have "snd (load_session sid (load_effect pending logged_out)) = Some \<lparr>loaded = ?s, touched = False\<rparr>"
    using assms(4) parsed by (simp add: load_session_eq get expiry_None) (simp add: session_times)
  with gone show ?thesis by (simp add: redis_get_def)
qed

end
