(* ===== verification/Authz_Source.thy ===== *)
theory Authz_Source
  imports Authz_Scope
begin

text \<open>
  The access scope computed from GitHub (\<open>packages/authz/src/scope-source.ts\<close>). A call of the API
  that throws is \<open>None\<close>; \<open>fetch\<close> then fails with the stage it was in. The readable repositories are
  collected by several workers in any order and sorted, so their list does not depend on it; the
  first repository whose call throws is always reached, so neither does the failure.
\<close>

section \<open>The API\<close>

record registered_repository =
  rr_id :: int
  rr_owner :: jstr
  rr_name :: jstr
  rr_org :: int

definition READABLE_PERMISSIONS :: "jstr list" where
  "READABLE_PERMISSIONS = [js ''read'', js ''write'', js ''writer'', js ''pull'', js ''triage'', js ''push'',
     js ''maintain'', js ''admin'']"

definition is_readable :: "jstr \<Rightarrow> bool" where
  "is_readable permission \<longleftrightarrow> permission \<in> set READABLE_PERMISSIONS"

text \<open>\<open>collaborator_permission\<close> answers no permission with \<open>Some None\<close>.\<close>

record permission_api =
  collaborator_permission :: "jstr \<Rightarrow> jstr \<Rightarrow> jstr \<Rightarrow> jstr option option"
  list_org_teams :: "jstr \<Rightarrow> (int \<times> jstr) list option"
  team_membership :: "jstr \<Rightarrow> jstr \<Rightarrow> jstr \<Rightarrow> bool option"
  is_org_member :: "jstr \<Rightarrow> jstr \<Rightarrow> bool option"

datatype lookup_stage =
    Registered_repositories | Collaborator_permission | Org_membership | Org_teams | Team_membership

definition at_stage :: "lookup_stage \<Rightarrow> 'a option \<Rightarrow> (lookup_stage, 'a) result" where
  "at_stage stage call = (case call of None \<Rightarrow> Inl stage | Some x \<Rightarrow> Inr x)"

section \<open>Fetching\<close>

fun readable_ids :: "permission_api \<Rightarrow> jstr \<Rightarrow> registered_repository list \<Rightarrow> int list option" where
  "readable_ids api login [] = Some []"
| "readable_ids api login (r # rs) =
     (case (collaborator_permission api (rr_owner r) (rr_name r) login, readable_ids api login rs) of
        (Some p, Some ids) \<Rightarrow>
          Some (case p of None \<Rightarrow> ids | Some permission \<Rightarrow> if is_readable permission then rr_id r # ids else ids)
      | _ \<Rightarrow> None)"

definition readable_repositories :: "permission_api \<Rightarrow> registered_repository list \<Rightarrow> jstr \<Rightarrow> int list option" where
  "readable_repositories api registered login = map_option sort (readable_ids api login registered)"

text \<open>The map from organization to owner, in the order of insertion.\<close>

definition unique_orgs :: "registered_repository list \<Rightarrow> (int \<times> jstr) list" where
  "unique_orgs registered =
     foldl (\<lambda>orgs r. if rr_org r \<in> fst ` set orgs then orgs else orgs @ [(rr_org r, rr_owner r)]) [] registered"

fun member_teams ::
    "permission_api \<Rightarrow> jstr \<Rightarrow> jstr \<Rightarrow> (int \<times> jstr) list \<Rightarrow> (lookup_stage, int list) result" where
  "member_teams api owner login [] = Inr []"
| "member_teams api owner login ((i, slug) # teams) =
     bind_result (at_stage Team_membership (team_membership api owner slug login)) (\<lambda>is_in.
     bind_result (member_teams api owner login teams) (\<lambda>ids. Inr (if is_in then i # ids else ids)))"

fun walk_orgs ::
    "permission_api \<Rightarrow> jstr \<Rightarrow> (int \<times> jstr) list \<Rightarrow> (lookup_stage, jstr list \<times> int list) result" where
  "walk_orgs api login [] = Inr ([], [])"
| "walk_orgs api login ((i, owner) # orgs) =
     bind_result (at_stage Org_membership (is_org_member api owner login)) (\<lambda>is_in.
       if \<not> is_in then walk_orgs api login orgs
       else
         bind_result (at_stage Org_teams (list_org_teams api owner)) (\<lambda>teams.
         bind_result (member_teams api owner login teams) (\<lambda>ids.
         bind_result (walk_orgs api login orgs) (\<lambda>(owners, more_ids). Inr (owner # owners, ids @ more_ids)))))"

definition fetch_scope ::
    "permission_api \<Rightarrow> registered_repository list option \<Rightarrow> jstr \<Rightarrow> (lookup_stage, raw_scope) result" where
  "fetch_scope api listed login =
     bind_result (at_stage Registered_repositories listed) (\<lambda>registered.
       if length registered = 0 then
         Inr \<lparr>raw_repositories = [], raw_orgs = [], raw_teams = [], raw_visibilities = []\<rparr>
       else
         bind_result (at_stage Collaborator_permission (readable_repositories api registered login)) (\<lambda>ids.
           if \<not> should_use_org_team_scope (length ids) then
             Inr \<lparr>raw_repositories = ids, raw_orgs = [], raw_teams = [], raw_visibilities = []\<rparr>
           else
             bind_result (walk_orgs api login (unique_orgs registered)) (\<lambda>(owners, teams).
               let orgs = map fst (filter (\<lambda>(i, owner). owner \<in> set owners) (unique_orgs registered)) in
               Inr \<lparr>raw_repositories = ids, raw_orgs = orgs, raw_teams = teams,
                    raw_visibilities = (if length orgs > 0 then [js ''public'', js ''internal''] else [])\<rparr>)))"

text \<open>The scope a refresh makes of the answer.\<close>

definition scope_of_raw :: "int \<Rightarrow> int \<Rightarrow> raw_scope \<Rightarrow> cached_scope" where
  "scope_of_raw now version answer =
     \<lparr>cs_repositories = raw_repositories answer, cs_orgs = raw_orgs answer, cs_teams = raw_teams answer,
      cs_visibilities = raw_visibilities answer, cs_refreshed = now, cs_version = version\<rparr>"

section \<open>What a fetched scope grants\<close>

definition can_read :: "permission_api \<Rightarrow> jstr \<Rightarrow> registered_repository \<Rightarrow> bool" where
  "can_read api login r \<longleftrightarrow>
     (\<exists>p. collaborator_permission api (rr_owner r) (rr_name r) login = Some (Some p) \<and> is_readable p)"

lemma set_readable_ids:
  "readable_ids api login rs = Some ids \<Longrightarrow> set ids = rr_id ` {r \<in> set rs. can_read api login r}"
  by (induction rs arbitrary: ids) (auto simp: can_read_def split: option.splits if_splits)

definition in_team :: "permission_api \<Rightarrow> jstr \<Rightarrow> jstr \<Rightarrow> int \<Rightarrow> bool" where
  "in_team api login owner i \<longleftrightarrow>
     (\<exists>ts slug. list_org_teams api owner = Some ts \<and> (i, slug) \<in> set ts \<and>
        team_membership api owner slug login = Some True)"

lemma set_member_teams:
  "member_teams api owner login teams = Inr ids \<Longrightarrow>
     set ids = {i. \<exists>slug. (i, slug) \<in> set teams \<and> team_membership api owner slug login = Some True}"
  by (induction api owner login teams arbitrary: ids rule: member_teams.induct)
    (auto simp: at_stage_def split: option.splits if_splits)

lemma walk_orgs_granted:
  "walk_orgs api login orgs = Inr (owners, teams) \<Longrightarrow>
     set owners = {owner \<in> snd ` set orgs. is_org_member api owner login = Some True} \<and>
     set teams = {i. \<exists>owner \<in> set owners. in_team api login owner i}"
proof (induction api login orgs arbitrary: owners teams rule: walk_orgs.induct)
  case (2 api login i owner orgs)
  obtain is_in where m: "is_org_member api owner login = Some is_in"
    using 2(3) by (auto simp: at_stage_def split: option.splits)
  show ?case
  proof (cases is_in)
    case False
    with 2(3) m have "walk_orgs api login orgs = Inr (owners, teams)" by (simp add: at_stage_def)
    from 2(1)[OF False this] m False show ?thesis by auto
  next
    case True
    with 2(3) m obtain ts ids owners' teams' where ts: "list_org_teams api owner = Some ts"
      and ids: "member_teams api owner login ts = Inr ids" and rest: "walk_orgs api login orgs = Inr (owners', teams')"
      and r: "owners = owner # owners'" "teams = ids @ teams'"
      by (auto simp: at_stage_def split: option.splits)
    have ih: "set owners' = {owner \<in> snd ` set orgs. is_org_member api owner login = Some True} \<and>
     set teams' = {i. \<exists>owner \<in> set owners'. in_team api login owner i}"
      using 2(2) True rest by simp
    have "set ids = {i. in_team api login owner i}" using set_member_teams[OF ids] ts by (simp add: in_team_def)
    with ih m True show ?thesis unfolding r by auto
  qed
qed simp

lemma unique_orgs_snd: "(i, owner) \<in> set (unique_orgs rs) \<Longrightarrow> \<exists>r \<in> set rs. rr_org r = i \<and> rr_owner r = owner"
proof -
  have "set (foldl (\<lambda>orgs r. if rr_org r \<in> fst ` set orgs then orgs else orgs @ [(rr_org r, rr_owner r)]) orgs rs)
      \<subseteq> set orgs \<union> (\<lambda>r. (rr_org r, rr_owner r)) ` set rs" for orgs
  proof (induction rs arbitrary: orgs)
    case (Cons r rs)
    show ?case
      using Cons.IH[of orgs] Cons.IH[of "orgs @ [(rr_org r, rr_owner r)]"]
      by (cases "rr_org r \<in> fst ` set orgs") auto
  qed simp
  from this[of "[]"] show "(i, owner) \<in> set (unique_orgs rs) \<Longrightarrow> ?thesis" by (auto simp: unique_orgs_def)
qed

text \<open>C24: The scope fetched from GitHub grants what GitHub grants: an explicit scope shows exactly the
  registered repositories the user can read, and a scope by organizations and teams shows a
  repository only to a member of its organization, when it is public or internal or shared
  with a team he belongs to.\<close>

theorem fetched_scope_grants:
  assumes "fetch_scope api (Some registered) login = Inr answer"
    and "scope = to_access_scope (scope_of_raw now version answer)"
  shows "(\<forall>rs. scope = Explicit_scope rs \<longrightarrow>
      (\<forall>r. is_repository_in_scope r scope \<longleftrightarrow> sr_id r \<in> rr_id ` {g \<in> set registered. can_read api login g})) \<and>
    (\<forall>orgs teams vs. scope = Org_team_scope orgs teams vs \<longrightarrow>
      (\<forall>r. is_repository_in_scope r scope \<longrightarrow>
         (\<exists>g \<in> set registered. rr_org g = sr_org r \<and> is_org_member api (rr_owner g) login = Some True) \<and>
         (sr_visibility r \<in> {js ''public'', js ''internal''} \<or>
          (\<exists>t \<in> set (sr_teams r). \<exists>owner. is_org_member api owner login = Some True \<and> in_team api login owner t))))"
proof (cases "length registered = 0")
  case True
  with assms show ?thesis
    by (auto simp: fetch_scope_def at_stage_def scope_of_raw_def to_access_scope_def should_use_org_team_scope_def
        EXPLICIT_SCOPE_LIMIT_def)
next
  case False
  with assms(1) obtain ids where ids: "readable_repositories api registered login = Some ids"
    by (auto simp: fetch_scope_def at_stage_def split: option.splits)
  then have set_ids: "set ids = rr_id ` {g \<in> set registered. can_read api login g}"
    using set_readable_ids by (auto simp: readable_repositories_def)
  have answer_ids: "raw_repositories answer = ids"
    using assms(1) False ids by (auto simp: fetch_scope_def at_stage_def Let_def split: if_splits)
  show ?thesis
  proof (cases "should_use_org_team_scope (length ids)")
    case True
    obtain owners teams where w: "walk_orgs api login (unique_orgs registered) = Inr (owners, teams)"
      and orgs: "raw_orgs answer = map fst (filter (\<lambda>(i, owner). owner \<in> set owners) (unique_orgs registered))"
      and teams: "raw_teams answer = teams"
      and vs: "set (raw_visibilities answer) \<subseteq> {js ''public'', js ''internal''}"
      using assms(1) False ids True
      by (auto simp: fetch_scope_def at_stage_def Let_def simp del: js_Cons split: if_splits)
    note granted = walk_orgs_granted[OF w]
    have org: "\<exists>g \<in> set registered. rr_org g = i \<and> is_org_member api (rr_owner g) login = Some True"
      if i: "i \<in> set (raw_orgs answer)" for i
    proof -
      from i obtain owner where "(i, owner) \<in> set (unique_orgs registered)" "owner \<in> set owners"
        unfolding orgs by auto
      with granted unique_orgs_snd[of i owner registered] show ?thesis by blast
    qed
    have s: "scope = Org_team_scope (raw_orgs answer) (raw_teams answer) (raw_visibilities answer)"
      using True answer_ids assms(2) by (simp add: scope_of_raw_def to_access_scope_def)
    show ?thesis unfolding s using org vs granted
      by (auto simp: teams list_ex_iff simp del: js_Cons split: if_splits)
  next
    case False
    then have "scope = Explicit_scope ids"
      using answer_ids assms(2) by (simp add: scope_of_raw_def to_access_scope_def)
    then show ?thesis by (simp add: set_ids)
  qed
qed

section \<open>A fetch\<close>

definition sample_api :: permission_api where
  "sample_api = \<lparr>collaborator_permission = \<lambda>owner name login. Some (if name = js ''a'' then Some (js ''write'') else None),
     list_org_teams = \<lambda>_. None, team_membership = \<lambda>_ _ _. None, is_org_member = \<lambda>_ _. None\<rparr>"

definition sample_registered :: "registered_repository list" where
  "sample_registered = [\<lparr>rr_id = 8, rr_owner = js ''o'', rr_name = js ''b'', rr_org = 1\<rparr>,
     \<lparr>rr_id = 7, rr_owner = js ''o'', rr_name = js ''a'', rr_org = 1\<rparr>]"

theorem fetched_scope_grants_witness:
  "is_repository_in_scope sample_repository (Explicit_scope [7]) \<longleftrightarrow>
     sr_id sample_repository \<in> rr_id ` {g \<in> set sample_registered. can_read sample_api (js ''l'') g}"
proof -
  have "fetch_scope sample_api (Some sample_registered) (js ''l'') =
      Inr \<lparr>raw_repositories = [7], raw_orgs = [], raw_teams = [], raw_visibilities = []\<rparr>"
    by code_simp
  from fetched_scope_grants[OF this refl, of 0 0] show ?thesis
    by (simp add: scope_of_raw_def to_access_scope_def should_use_org_team_scope_def EXPLICIT_SCOPE_LIMIT_def)
qed

end
