(* ===== verification/Domain_Release.thy ===== *)
theory Domain_Release
  imports JSON_Value
begin

text \<open>
  Which webhooks ask for a release refresh (\<open>packages/domain/src/release.ts\<close>). The code indexes the
  payload without a check, so the payload \<open>null\<close> throws: the result is then \<open>None\<close>. Other values
  that are no objects have no members.
\<close>

definition TAG_PREFIX :: jstr where
  "TAG_PREFIX = js ''refs/tags/''"

datatype release_skip = No_repository_id | Not_a_tag_push | Not_a_tag_event jstr | Unrelated_event jstr

datatype release_outcome = Release_signal int | Release_skip release_skip

text \<open>\<open>payload[key]\<close>: an array has no such named members either.\<close>

definition index_member :: "json \<Rightarrow> jstr \<Rightarrow> json option" where
  "index_member payload key = (case as_record payload of None \<Rightarrow> None | Some ms \<Rightarrow> member ms key)"

definition repository_id_of :: "json \<Rightarrow> int option" where
  "repository_id_of payload =
     (case index_member payload (js ''repository'') of
        None \<Rightarrow> None
      | Some repository \<Rightarrow> as_positive_int (index_member repository (js ''id'')))"

definition extract_release_signal :: "jstr \<Rightarrow> json \<Rightarrow> release_outcome option" where
  "extract_release_signal event_type payload =
     (if payload = J_null then None
      else Some
        (case repository_id_of payload of
           None \<Rightarrow> Release_skip No_repository_id
         | Some repository \<Rightarrow>
             if event_type = js ''push'' then
               (case as_string (index_member payload (js ''ref'')) of
                  None \<Rightarrow> Release_skip Not_a_tag_push
                | Some ref \<Rightarrow> if \<not> starts_with TAG_PREFIX ref then Release_skip Not_a_tag_push
                              else Release_signal repository)
             else if event_type = js ''create'' \<or> event_type = js ''delete'' then
               (if index_member payload (js ''ref_type'') \<noteq> Some (J_string (js ''tag''))
                then Release_skip (Not_a_tag_event event_type)
                else Release_signal repository)
             else if event_type = js ''release'' then Release_signal repository
             else Release_skip (Unrelated_event event_type)))"

lemma release_signal_positive:
  assumes "extract_release_signal event_type payload = Some (Release_signal repository)"
  shows "0 < repository \<and> payload \<noteq> J_null"
proof -
  have "as_positive_int v = Some n \<Longrightarrow> 0 < n" for v n
    by (cases v; cases "the v") (auto split: if_splits)
  with assms show ?thesis
    by (auto simp: extract_release_signal_def repository_id_of_def simp del: js_Cons split: option.splits if_splits)
qed

text \<open>A push is a sequence target or a release signal, never both: branches and tags are apart.\<close>

lemma null_payload_throws: "extract_release_signal event_type J_null = None"
  by (simp add: extract_release_signal_def)

end
