(* ===== verification/JSON_Text.thy ===== *)
theory JSON_Text
  imports JSON_Value
begin

text \<open>
  \<open>JSON.stringify\<close> of strings and of flat arrays of strings and integers, which the code uses to
  make keys and canonical texts, and the reader that shows nothing is lost: the text of a string or
  of an array determines it, also as the beginning of a longer text.
\<close>

section \<open>Writing\<close>

definition hex_unit :: "nat \<Rightarrow> unit16" where
  "hex_unit d = (if d < 10 then of_nat (48 + d) else of_nat (87 + d))"

definition escape_unit :: "unit16 \<Rightarrow> jstr" where
  "escape_unit c = [92, 117] @
     map (\<lambda>k. hex_unit (unat c div 16 ^ k mod 16)) [3, 2, 1, 0]"

definition quote_unit :: "unit16 \<Rightarrow> jstr" where
  "quote_unit c =
     (if c = 34 then [92, 34] else if c = 92 then [92, 92]
      else if c = 8 then [92, 98] else if c = 9 then [92, 116]
      else if c = 10 then [92, 110] else if c = 12 then [92, 102]
      else if c = 13 then [92, 114]
      else if c < 32 then escape_unit c else [c])"

fun quote_units :: "jstr \<Rightarrow> jstr" where
  "quote_units [] = []"
| "quote_units (c # cs) =
     (if 0xD800 \<le> c \<and> c < 0xDC00 then
        (case cs of
           d # ds \<Rightarrow> if 0xDC00 \<le> d \<and> d < 0xE000 then c # d # quote_units ds else escape_unit c @ quote_units cs
         | [] \<Rightarrow> escape_unit c)
      else if 0xDC00 \<le> c \<and> c < 0xE000 then escape_unit c @ quote_units cs
      else quote_unit c @ quote_units cs)"

definition quote_text :: "jstr \<Rightarrow> jstr" where
  "quote_text s = [34] @ quote_units s @ [34]"

fun atom_text :: "json \<Rightarrow> jstr" where
  "atom_text (J_int n) = show_int n"
| "atom_text (J_string s) = quote_text s"
| "atom_text _ = []"

definition array_text :: "json list \<Rightarrow> jstr" where
  "array_text items = js ''['' @ join_with (js '','') (map atom_text items) @ js '']''"

section \<open>Reading\<close>

definition hex_value :: "unit16 \<Rightarrow> nat" where
  "hex_value c = (if c < 58 then unat c - 48 else unat c - 87)"

fun read_units :: "jstr \<Rightarrow> (jstr \<times> jstr) option" where
  "read_units (c # cs) =
     (if c = 34 then Some ([], cs)
      else if c \<noteq> 92 then map_option (\<lambda>(s, r). (c # s, r)) (read_units cs)
      else (case cs of
              e # es \<Rightarrow>
                if e = 117 then
                  (case es of
                     a # b # d # f # gs \<Rightarrow>
                       map_option (\<lambda>(s, r).
                         (of_nat (hex_value a * 4096 + hex_value b * 256 + hex_value d * 16 + hex_value f) # s, r))
                         (read_units gs)
                   | _ \<Rightarrow> None)
                else
                  map_option (\<lambda>(s, r).
                    ((if e = 98 then 8 else if e = 116 then 9 else if e = 110 then 10
                      else if e = 102 then 12 else if e = 114 then 13 else e) # s, r)) (read_units es)
            | [] \<Rightarrow> None))"
| "read_units [] = None"

lemma hex_value_hex_unit: "d < 16 \<Longrightarrow> hex_value (hex_unit d) = d"
proof -
  assume "d < 16"
  then have "d \<in> {0, 1, 2, 3, 4, 5, 6, 7, 8, 9, 10, 11, 12, 13, 14, 15}" by (simp, presburger)
  then show ?thesis by (auto simp: hex_value_def hex_unit_def)
qed

lemma four_digits:
  assumes "(n::nat) < 65536"
  shows "n div 4096 mod 16 * 4096 + n div 256 mod 16 * 256 + n div 16 mod 16 * 16 + n mod 16 = n"
proof -
  have "n mod 65536 = n" using assms by simp
  moreover have "n mod 65536 = n div 4096 mod 16 * 4096 + n mod 4096"
    using mod_mult2_eq[of n 4096 16] by simp
  moreover have "n mod 4096 = n div 256 mod 16 * 256 + n mod 256"
    using mod_mult2_eq[of n 256 16] by simp
  moreover have "n mod 256 = n div 16 mod 16 * 16 + n mod 16"
    using mod_mult2_eq[of n 16 16] by simp
  ultimately show ?thesis by linarith
qed

lemma escape_unit_digits:
  "escape_unit c = [92, 117, hex_unit (unat c div 4096 mod 16), hex_unit (unat c div 256 mod 16),
     hex_unit (unat c div 16 mod 16), hex_unit (unat c mod 16)]"
  by (simp add: escape_unit_def)

lemma read_escape: "read_units (escape_unit c @ r) = map_option (\<lambda>(s, r). (c # s, r)) (read_units r)"
proof -
  have "unat c < 65536" using unsigned_less[of c] by simp
  note d = four_digits[OF this]
  show ?thesis unfolding escape_unit_digits by (simp add: hex_value_hex_unit d del: of_nat_add of_nat_mult)
qed

lemma read_raw: "c \<noteq> 34 \<Longrightarrow> c \<noteq> 92 \<Longrightarrow> read_units (c # r) = map_option (\<lambda>(s, r). (c # s, r)) (read_units r)"
  by simp

lemma read_quote_unit: "read_units (quote_unit c @ r) = map_option (\<lambda>(s, r). (c # s, r)) (read_units r)"
proof (cases "c \<in> {34, 92, 8, 9, 10, 12, 13}")
  case True
  then show ?thesis by (auto simp: quote_unit_def)
next
  case False
  then show ?thesis using read_escape[of c r] read_raw[of c r] by (simp add: quote_unit_def)
qed

lemma quote_units_step:
  "(\<exists>d ds. cs = d # ds \<and> c \<notin> {34, 92} \<and> d \<notin> {34, 92} \<and> quote_units (c # cs) = c # d # quote_units ds) \<or>
   quote_units (c # cs) = escape_unit c @ quote_units cs \<or>
   quote_units (c # cs) = quote_unit c @ quote_units cs"
proof -
  have "0xD800 \<le> c \<and> c < 0xDC00 \<Longrightarrow> c \<notin> {34, 92}" and "0xDC00 \<le> c \<and> c < 0xE000 \<Longrightarrow> c \<notin> {34, 92}" for c :: unit16
    by auto
  then show ?thesis by (cases cs) (simp_all del: insert_iff)
qed

declare read_units.simps [simp del]

lemma read_quoted: "read_units (quote_units s @ 34 # r) = Some (s, r)"
proof (induction s rule: length_induct)
  case (1 s)
  show ?case
  proof (cases s)
    case Nil
    then show ?thesis by (simp add: read_units.simps)
  next
    case (Cons c cs)
    then have cs: "read_units (quote_units cs @ 34 # r) = Some (cs, r)"
      and ds: "cs = d # ds \<Longrightarrow> read_units (quote_units ds @ 34 # r) = Some (ds, r)" for d ds
      using "1" by simp_all
    from quote_units_step[of cs c] show ?thesis
    proof (elim disjE exE conjE)
      fix d ds
      assume "cs = d # ds" "c \<notin> {34, 92}" "d \<notin> {34, 92}" "quote_units (c # cs) = c # d # quote_units ds"
      with ds Cons show ?thesis by (simp add: read_raw del: quote_units.simps)
    qed (use Cons cs in \<open>simp_all add: read_escape read_quote_unit del: quote_units.simps\<close>)
  qed
qed

lemma quote_text_append: "quote_text s @ r = 34 # quote_units s @ 34 # r"
  by (simp add: quote_text_def)

lemma quote_text_prefix: "quote_text s @ r = quote_text s' @ r' \<longleftrightarrow> s = s' \<and> r = r'"
proof
  assume "quote_text s @ r = quote_text s' @ r'"
  then have "quote_units s @ 34 # r = quote_units s' @ 34 # r'" by (simp only: quote_text_append list.inject)
  then have "Some (s, r) = Some (s', r')" by (metis read_quoted)
  then show "s = s' \<and> r = r'" by simp
qed simp

section \<open>Arrays are determined by their text\<close>

definition atom :: "json \<Rightarrow> bool" where
  "atom j \<longleftrightarrow> (\<exists>n. j = J_int n) \<or> (\<exists>s. j = J_string s)"

text \<open>What follows an element of an array.\<close>

definition after_atom :: "jstr \<Rightarrow> bool" where
  "after_atom r \<longleftrightarrow> (\<exists>c r'. r = c # r' \<and> \<not> is_digit c)"

lemma digits_prefix:
  assumes "list_all is_digit s" "list_all is_digit s'" "after_atom r" "after_atom r'" "s @ r = s' @ r'"
  shows "s = s' \<and> r = r'"
  using assms
proof (induction s arbitrary: s')
  case Nil
  then show ?case by (cases s') (auto simp: after_atom_def)
next
  case (Cons c s)
  then show ?case by (cases s') (auto simp: after_atom_def)
qed

lemma show_int_prefix:
  assumes "after_atom r" "after_atom r'" "show_int m @ r = show_int n @ r'"
  shows "m = n \<and> r = r'"
proof -
  have hyphen: "\<not> is_digit (ch CHR ''-'')" by code_simp
  have digit: "is_digit (hd (show_nat k))" for k using show_nat_digits[of k] by (cases "show_nat k") auto
  have neq: "show_nat k @ a \<noteq> ch CHR ''-'' # b" for k a b
    using digit[of k] hyphen by (cases "show_nat k") auto
  note same = digits_prefix[OF show_nat_digits show_nat_digits assms(1,2)]
  show ?thesis
  proof (cases "m < 0"; cases "n < 0")
    assume "m < 0" "n < 0"
    with assms(3) have "show_nat (nat (- m)) @ r = show_nat (nat (- n)) @ r'" by (simp add: show_int_def)
    from same[OF this] \<open>m < 0\<close> \<open>n < 0\<close> show ?thesis by (simp add: nat_eq_iff2)
  next
    assume "\<not> m < 0" "\<not> n < 0"
    with assms(3) have "show_nat (nat m) @ r = show_nat (nat n) @ r'" by (simp add: show_int_def)
    from same[OF this] \<open>\<not> m < 0\<close> \<open>\<not> n < 0\<close> show ?thesis by (simp add: nat_eq_iff2)
  qed (use assms(3) neq neq[symmetric] in \<open>auto simp: show_int_def\<close>)
qed

lemma int_is_no_string: "show_int n @ r \<noteq> quote_text s @ r'"
proof -
  have "\<not> is_digit 34" "(34 :: unit16) \<noteq> ch CHR ''-''" by code_simp+
  with show_nat_digits[of "nat n"] show_nat_digits[of "nat (- n)"] show ?thesis
    unfolding quote_text_append
    by (cases "show_nat (nat n)"; cases "show_nat (nat (- n))") (auto simp: show_int_def)
qed

lemma atom_text_prefix:
  assumes "atom a" "atom b" "after_atom r" "after_atom r'" "atom_text a @ r = atom_text b @ r'"
  shows "a = b \<and> r = r'"
  using assms int_is_no_string int_is_no_string[symmetric] show_int_prefix[OF assms(3,4)]
  by (auto simp: atom_def quote_text_prefix)

text \<open>The elements and the closing bracket, after the opening one.\<close>

definition items_text :: "json list \<Rightarrow> jstr" where
  "items_text items = join_with (js '','') (map atom_text items) @ js '']''"

lemma items_text_Cons:
  "items_text (a # items) = atom_text a @ (if items = [] then js '']'' else js '','' @ items_text items)"
  by (cases items) (simp_all add: items_text_def)

lemma separators: "after_atom (js '']'')" "after_atom (js '','' @ r)" "js '']'' \<noteq> js '','' @ r"
proof -
  have "\<not> is_digit (ch CHR '']'')" "\<not> is_digit (ch CHR '','')" "ch CHR '']'' \<noteq> ch CHR '',''" by code_simp+
  then show "after_atom (js '']'')" "after_atom (js '','' @ r)" "js '']'' \<noteq> js '','' @ r"
    by (simp_all add: after_atom_def)
qed

lemma items_text_inject:
  "list_all atom xs \<Longrightarrow> list_all atom ys \<Longrightarrow> xs \<noteq> [] \<Longrightarrow> ys \<noteq> [] \<Longrightarrow> items_text xs = items_text ys \<Longrightarrow> xs = ys"
proof (induction xs arbitrary: ys)
  case (Cons a xs)
  then obtain b ys' where ys: "ys = b # ys'" by (cases ys) auto
  let ?rest = "\<lambda>items. if items = [] then js '']'' else js '','' @ items_text items"
  have "after_atom (?rest items)" for items using separators by auto
  have eq: "atom_text a @ ?rest xs = atom_text b @ ?rest ys'"
    using Cons.prems(5) unfolding ys items_text_Cons .
  from Cons.prems(1,2) ys have "atom a" "atom b" by simp_all
  from atom_text_prefix[OF this \<open>\<And>items. after_atom (?rest items)\<close> \<open>\<And>items. after_atom (?rest items)\<close> eq]
  have ab: "a = b" and rest: "?rest xs = ?rest ys'" by simp_all
  have empty: "xs = [] \<longleftrightarrow> ys' = []"
    using rest separators(3) separators(3)[symmetric] by (cases "xs = []"; cases "ys' = []") (simp_all del: js_Cons)
  show ?case
  proof (cases "xs = []")
    case False
    with rest empty have "items_text xs = items_text ys'" by simp
    from Cons.IH[OF _ _ False _ this] Cons.prems(1,2) ys empty False ab show ?thesis by simp
  qed (use empty ab ys in simp)
qed simp

lemma array_text_inject:
  assumes "list_all atom xs" "list_all atom ys" "xs \<noteq> []" "ys \<noteq> []" "array_text xs = array_text ys"
  shows "xs = ys"
proof -
  have "items_text xs = items_text ys" using assms(5) by (simp add: array_text_def items_text_def)
  then show ?thesis by (rule items_text_inject[OF assms(1-4)])
qed

end
