(* ===== verification/Gateway_Ingest.thy ===== *)
theory Gateway_Ingest
  imports Authz_Invalidation Domain_Sequence Domain_Release JSON_Text "HOL-Library.List_Lexorder"
begin

text \<open>
  The webhook gateway (\<open>apps/ingest-gateway/src/\<close>: \<open>events.ts\<close>, \<open>payload.ts\<close>, \<open>signature.ts\<close>,
  \<open>store.ts\<close>, \<open>ingest.ts\<close>). The HMAC of the crypto library, the SHA-256 hash, the text of a number
  and the JSON parser on bytes are parameters. A dependency may fail, \<open>fails\<close> says which; a store that
  fails rolls its transaction back. Metrics and logs are left out.
\<close>

section \<open>Event types\<close>

definition SUPPORTED_EVENT_TYPES :: "jstr list" where
  "SUPPORTED_EVENT_TYPES = [js ''pull_request'', js ''pull_request_review'', js ''push'', js ''create'', js ''delete'',
     js ''release'', js ''member'', js ''team'', js ''repository'']"

definition is_supported_event_type :: "jstr \<Rightarrow> bool" where
  "is_supported_event_type t \<longleftrightarrow> t \<in> set SUPPORTED_EVENT_TYPES"

definition event_type_label :: "jstr option \<Rightarrow> jstr" where
  "event_type_label t =
     (case t of
        None \<Rightarrow> js ''unknown''
      | Some e \<Rightarrow> if e = [] then js ''unknown'' else if is_supported_event_type e then e else js ''other'')"

section \<open>Payloads\<close>

text \<open>The entries of an object in the order of their keys, the last of a repeated key.\<close>

definition sorted_entries :: "(jstr \<times> jstr) list \<Rightarrow> (jstr \<times> jstr) list" where
  "sorted_entries ms = map (\<lambda>k. (k, the (map_of (rev ms) k))) (sort (remdups (map fst ms)))"

fun canonicalize :: "(json \<Rightarrow> jstr) \<Rightarrow> json \<Rightarrow> jstr" where
  "canonicalize num (J_object ms) =
     js ''{'' @ join_with (js '','')
       (map (\<lambda>(k, item). quote_text k @ js '':'' @ item)
          (sorted_entries (map (\<lambda>(k, item). (k, canonicalize num item)) ms))) @ js ''}''"
| "canonicalize num (J_array items) = js ''['' @ join_with (js '','') (map (canonicalize num) items) @ js '']''"
| "canonicalize num (J_string s) = quote_text s"
| "canonicalize num J_null = js ''null''"
| "canonicalize num (J_bool b) = (if b then js ''true'' else js ''false'')"
| "canonicalize num (J_int n) = num (J_int n)"
| "canonicalize num (J_fraction a b) = num (J_fraction a b)"

definition canonical_hash :: "(jstr \<Rightarrow> jstr) \<Rightarrow> (json \<Rightarrow> jstr) \<Rightarrow> json \<Rightarrow> jstr" where
  "canonical_hash sha num payload = sha (canonicalize num payload)"

definition resolve_delivery_id :: "jstr option \<Rightarrow> jstr \<Rightarrow> jstr" where
  "resolve_delivery_id header hash =
     (case header of None \<Rightarrow> js ''sha256:'' @ hash | Some h \<Rightarrow> if h = [] then js ''sha256:'' @ hash else h)"

definition extract_action :: "json \<Rightarrow> jstr option" where
  "extract_action payload = as_string (Option.bind (as_record payload) (\<lambda>ms. member ms (js ''action'')))"

definition payload_repository :: "json \<Rightarrow> (jstr \<times> json) list option" where
  "payload_repository payload =
     record_of (Option.bind (as_record payload) (\<lambda>ms. member ms (js ''repository'')))"

definition extract_repository_id :: "json \<Rightarrow> int option" where
  "extract_repository_id payload = num_member (payload_repository payload) (js ''id'')"

definition extract_repository_full_name :: "json \<Rightarrow> jstr option" where
  "extract_repository_full_name payload = str_member (payload_repository payload) (js ''full_name'')"

subsection \<open>Equal payloads have equal hashes\<close>

lemma sorted_entries_cong:
  assumes "map_of (rev ms) = map_of (rev ms')"
  shows "sorted_entries ms = sorted_entries ms'"
proof -
  have "set (map fst ms) = dom (map_of (rev ms))" for ms :: "(jstr \<times> jstr) list"
    by (simp add: dom_map_of_conv_image_fst)
  then have "set (map fst ms) = set (map fst ms')" using assms by metis
  then have "sort (remdups (map fst ms)) = sort (remdups (map fst ms'))"
    using sorted_distinct_set_unique[of "sort (remdups (map fst ms))" "sort (remdups (map fst ms'))"] by simp
  then show ?thesis unfolding sorted_entries_def assms by simp
qed

lemma map_of_rev_map: "map_of (rev (map (\<lambda>(k, v). (k, f v)) ms)) k = map_option f (member ms k)"
  by (simp add: member_def rev_map map_of_map)

text \<open>The order of the members and members that a later one replaces do not matter.\<close>

lemma canonicalize_members:
  assumes "\<And>k. member ms k = member ms' k"
  shows "canonicalize num (J_object ms) = canonicalize num (J_object ms')"
proof -
  let ?f = "map (\<lambda>(k, item). (k, canonicalize num item))"
  have "map_of (rev (?f ms)) = map_of (rev (?f ms'))"
    by (rule ext) (simp only: map_of_rev_map assms)
  from sorted_entries_cong[OF this] show ?thesis by simp
qed

section \<open>Signatures\<close>

text \<open>\<open>hmac\<close> is the hexadecimal HMAC of the crypto library.\<close>

definition compute_signature :: "('b \<Rightarrow> jstr \<Rightarrow> jstr) \<Rightarrow> 'b \<Rightarrow> jstr \<Rightarrow> jstr" where
  "compute_signature hmac body secret = js ''sha256='' @ hmac body secret"

fun match_secret :: "('b \<Rightarrow> jstr \<Rightarrow> jstr) \<Rightarrow> 'b \<Rightarrow> jstr \<Rightarrow> bool \<Rightarrow> jstr list \<Rightarrow> bool" where
  "match_secret hmac body header matched [] = matched"
| "match_secret hmac body header matched (secret # secrets) =
     match_secret hmac body header (if compute_signature hmac body secret = header then True else matched) secrets"

definition verify_webhook_signature :: "('b \<Rightarrow> jstr \<Rightarrow> jstr) \<Rightarrow> 'b \<Rightarrow> jstr option \<Rightarrow> jstr list \<Rightarrow> bool" where
  "verify_webhook_signature hmac body header secrets =
     (case header of
        None \<Rightarrow> False
      | Some h \<Rightarrow> if h = [] then False else if length secrets = 0 then False else match_secret hmac body h False secrets)"

lemma match_secret_iff:
  "match_secret hmac body header matched secrets \<longleftrightarrow>
     matched \<or> (\<exists>secret \<in> set secrets. compute_signature hmac body secret = header)"
  by (induction secrets arbitrary: matched) auto

lemma verify_webhook_signature_iff:
  "verify_webhook_signature hmac body header secrets \<longleftrightarrow>
     (\<exists>secret \<in> set secrets. header = Some (compute_signature hmac body secret))"
  by (cases header) (auto simp: verify_webhook_signature_def match_secret_iff compute_signature_def)

section \<open>The state the gateway changes\<close>

record raw_event =
  re_delivery :: jstr
  re_type :: jstr
  re_action :: "jstr option"
  re_repository :: "int option"
  re_payload :: json
  re_hash :: jstr

record refresh_work =
  rw_delivery :: jstr
  rw_repository :: int
  rw_branch :: jstr
  rw_head :: jstr

datatype publication =
    Ingest_event jstr
  | Permission_event invalidation_target
  | Sequence_event push_target
  | Release_event int

record gateway =
  raw_events :: "raw_event list"
  work_rows :: "refresh_work list"
  publications :: "publication list"
  archived :: "(jstr \<times> jstr option) list"

datatype dependency =
    Store_event | Publish_ingest | Publish_permission | Publish_sequence | Publish_release | Append_archive

subsection \<open>Storing\<close>

text \<open>A registered repository: whether it is active, and the branches that are numbered.\<close>

type_synonym repositories = "int \<Rightarrow> (bool \<times> jstr list) option"

definition insert_raw_event_if_absent :: "raw_event \<Rightarrow> raw_event list \<Rightarrow> raw_event list \<times> bool" where
  "insert_raw_event_if_absent e rows =
     (if \<exists>r \<in> set rows. re_delivery r = re_delivery e then (rows, False) else (rows @ [e], True))"

definition enqueue_refresh_work :: "refresh_work \<Rightarrow> refresh_work list \<Rightarrow> refresh_work list" where
  "enqueue_refresh_work w rows =
     (if \<exists>r \<in> set rows. rw_delivery r = rw_delivery w then rows else rows @ [w\<lparr>rw_head := to_lower (rw_head w)\<rparr>])"

definition record_refresh_intent :: "repositories \<Rightarrow> raw_event \<Rightarrow> refresh_work list \<Rightarrow> refresh_work list" where
  "record_refresh_intent repos e rows =
     (if re_type e \<noteq> js ''push'' then rows
      else (case extract_push_target (re_payload e) of
              Push_target t \<Rightarrow>
                (case repos (repository_id t) of
                   None \<Rightarrow> rows
                 | Some (active, branches) \<Rightarrow>
                     if \<not> active then rows
                     else if base_branch t \<notin> set branches then rows
                     else enqueue_refresh_work
                            \<lparr>rw_delivery = re_delivery e, rw_repository = repository_id t,
                             rw_branch = base_branch t, rw_head = head_sha t\<rparr> rows)
            | _ \<Rightarrow> rows))"

text \<open>The transaction of \<open>createRawEventStore\<close>; the answer is whether the delivery was a duplicate.\<close>

definition store_event :: "repositories \<Rightarrow> raw_event \<Rightarrow> gateway \<Rightarrow> gateway \<times> bool" where
  "store_event repos e g =
     (case insert_raw_event_if_absent e (raw_events g) of
        (rows, inserted) \<Rightarrow>
          (if inserted
           then g\<lparr>raw_events := rows, work_rows := record_refresh_intent repos e (work_rows g)\<rparr>
           else g, \<not> inserted))"

section \<open>Ingesting a webhook\<close>

record 'b webhook =
  raw_body :: "'b list option"
  signature :: "jstr option"
  event_type :: "jstr option"
  delivery_header :: "jstr option"

datatype rejection = Missing_body | Invalid_signature | Payload_too_large | Malformed_payload | Store_failed

text \<open>\<open>Crashed\<close> is the exception that the payload \<open>null\<close> causes, answered with status 500.\<close>

datatype webhook_outcome = Accepted jstr bool | Rejected rejection | Crashed

fun status :: "webhook_outcome \<Rightarrow> nat" where
  "status (Accepted i duplicate) = 202"
| "status (Rejected Missing_body) = 401"
| "status (Rejected Invalid_signature) = 401"
| "status (Rejected Payload_too_large) = 413"
| "status (Rejected Malformed_payload) = 500"
| "status (Rejected Store_failed) = 500"
| "status Crashed = 500"

definition publish_unless :: "bool \<Rightarrow> publication option \<Rightarrow> gateway \<Rightarrow> gateway" where
  "publish_unless failed p g =
     (case p of None \<Rightarrow> g | Some q \<Rightarrow> if failed then g else g\<lparr>publications := publications g @ [q]\<rparr>)"

definition invalidation_publication :: "jstr \<Rightarrow> json \<Rightarrow> publication option" where
  "invalidation_publication etype payload =
     (case extract_invalidation_target etype payload of
        None \<Rightarrow> None
      | Some t \<Rightarrow> if is_empty_target t then None else Some (Permission_event t))"

definition sequence_publication :: "jstr \<Rightarrow> json \<Rightarrow> publication option" where
  "sequence_publication etype payload =
     (if etype = js ''push''
      then (case extract_push_target payload of Push_target t \<Rightarrow> Some (Sequence_event t) | _ \<Rightarrow> None)
      else None)"

text \<open>What follows a new event, up to the response.\<close>

definition after_new_event :: "(dependency \<Rightarrow> bool) \<Rightarrow> raw_event \<Rightarrow> gateway \<Rightarrow> gateway \<times> webhook_outcome" where
  "after_new_event fails e g =
     (let g1 = publish_unless (fails Publish_ingest) (Some (Ingest_event (re_delivery e))) g;
          g2 = publish_unless (fails Publish_permission) (invalidation_publication (re_type e) (re_payload e)) g1;
          g3 = publish_unless (fails Publish_sequence) (sequence_publication (re_type e) (re_payload e)) g2
      in case extract_release_signal (re_type e) (re_payload e) of
           None \<Rightarrow> (g3, Crashed)
         | Some release \<Rightarrow>
             let g4 = publish_unless (fails Publish_release)
                   (case release of Release_signal r \<Rightarrow> Some (Release_event r) | Release_skip _ \<Rightarrow> None) g3;
                 g5 = (if fails Append_archive then g4
                       else g4\<lparr>archived := archived g4 @ [(re_delivery e, extract_repository_full_name (re_payload e))]\<rparr>)
             in (g5, Accepted (re_delivery e) False))"

definition ingest_webhook ::
    "('b list \<Rightarrow> jstr option \<Rightarrow> bool) \<Rightarrow> ('b list \<Rightarrow> json option) \<Rightarrow> (json \<Rightarrow> jstr) \<Rightarrow> nat \<Rightarrow> repositories \<Rightarrow>
     (dependency \<Rightarrow> bool) \<Rightarrow> 'b webhook \<Rightarrow> gateway \<Rightarrow> gateway \<times> webhook_outcome" where
  "ingest_webhook verify parse hash max_body repos fails w g =
     (case raw_body w of
        None \<Rightarrow> (g, Rejected Missing_body)
      | Some body \<Rightarrow>
          if length body = 0 then (g, Rejected Missing_body)
          else if \<not> verify body (signature w) then (g, Rejected Invalid_signature)
          else if length body > max_body then (g, Rejected Payload_too_large)
          else
            (case parse body of
               None \<Rightarrow> (g, Rejected Malformed_payload)
             | Some payload \<Rightarrow>
                 let etype = (case event_type w of None \<Rightarrow> js ''unknown'' | Some t \<Rightarrow> t);
                     e = \<lparr>re_delivery = resolve_delivery_id (delivery_header w) (hash payload), re_type = etype,
                          re_action = extract_action payload, re_repository = extract_repository_id payload,
                          re_payload = payload, re_hash = hash payload\<rparr>
                 in if fails Store_event then (g, Rejected Store_failed)
                    else (case store_event repos e g of
                            (g', duplicate) \<Rightarrow>
                              if duplicate then (g', Accepted (re_delivery e) True)
                              else after_new_event fails e g')))"

section \<open>What a webhook leaves behind\<close>

definition gateway_ok :: "gateway \<Rightarrow> bool" where
  "gateway_ok g \<longleftrightarrow> distinct (map re_delivery (raw_events g)) \<and> distinct (map rw_delivery (work_rows g)) \<and>
     (\<forall>w \<in> set (work_rows g). \<exists>e \<in> set (raw_events g). re_delivery e = rw_delivery w)"

lemma publish_unless_simps [simp]:
  "raw_events (publish_unless failed p g) = raw_events g" "work_rows (publish_unless failed p g) = work_rows g"
  "archived (publish_unless failed p g) = archived g"
  by (simp_all add: publish_unless_def split: option.split)

lemma after_new_event_keeps:
  "raw_events (fst (after_new_event fails e g)) = raw_events g"
  "work_rows (fst (after_new_event fails e g)) = work_rows g"
  by (simp_all add: after_new_event_def Let_def split: option.split)

text \<open>The publications a new event makes, in their order, those left out whose dependency fails.\<close>

definition expected_publications :: "(dependency \<Rightarrow> bool) \<Rightarrow> raw_event \<Rightarrow> publication list" where
  "expected_publications fails e =
     (if fails Publish_ingest then [] else [Ingest_event (re_delivery e)]) @
     (if fails Publish_permission then [] else
        (case invalidation_publication (re_type e) (re_payload e) of None \<Rightarrow> [] | Some p \<Rightarrow> [p])) @
     (if fails Publish_sequence then [] else
        (case sequence_publication (re_type e) (re_payload e) of None \<Rightarrow> [] | Some p \<Rightarrow> [p])) @
     (if fails Publish_release then [] else
        (case extract_release_signal (re_type e) (re_payload e) of
           Some (Release_signal r) \<Rightarrow> [Release_event r] | _ \<Rightarrow> []))"

lemma after_new_event_publications:
  "publications (fst (after_new_event fails e g)) = publications g @ expected_publications fails e"
  by (auto simp: after_new_event_def expected_publications_def publish_unless_def Let_def
      split: option.split release_outcome.split)

lemma after_new_event_outcome:
  "snd (after_new_event fails e g) = (if re_payload e = J_null then Crashed else Accepted (re_delivery e) False)"
  by (auto simp: after_new_event_def Let_def extract_release_signal_def)

text \<open>The event a webhook stands for, once it is authenticated and parsed.\<close>

definition event_of :: "('b list \<Rightarrow> json option) \<Rightarrow> (json \<Rightarrow> jstr) \<Rightarrow> 'b webhook \<Rightarrow> raw_event option" where
  "event_of parse hash w =
     map_option (\<lambda>payload.
       \<lparr>re_delivery = resolve_delivery_id (delivery_header w) (hash payload),
        re_type = (case event_type w of None \<Rightarrow> js ''unknown'' | Some t \<Rightarrow> t),
        re_action = extract_action payload, re_repository = extract_repository_id payload,
        re_payload = payload, re_hash = hash payload\<rparr>)
       (Option.bind (raw_body w) parse)"

definition authentic :: "('b list \<Rightarrow> jstr option \<Rightarrow> bool) \<Rightarrow> nat \<Rightarrow> 'b webhook \<Rightarrow> bool" where
  "authentic verify max_body w \<longleftrightarrow>
     (\<exists>body. raw_body w = Some body \<and> body \<noteq> [] \<and> verify body (signature w) \<and> length body \<le> max_body)"

lemma ingest_webhook_cases:
  assumes "ingest_webhook verify parse hash max_body repos fails w g = (g', out)"
  obtains (rejected) r where "out = Rejected r" "g' = g"
      "\<not> authentic verify max_body w \<or> event_of parse hash w = None \<or> fails Store_event"
  | (stored) e where "authentic verify max_body w" "event_of parse hash w = Some e" "\<not> fails Store_event"
      "(g', out) = (case store_event repos e g of (g1, dup) \<Rightarrow>
         if dup then (g1, Accepted (re_delivery e) True) else after_new_event fails e g1)"
proof (cases "authentic verify max_body w")
  case False
  with assms have "\<exists>r. out = Rejected r \<and> g' = g"
    by (auto simp: ingest_webhook_def authentic_def split: option.splits if_splits)
  with False show ?thesis using rejected by blast
next
  case True
  then obtain body where b: "raw_body w = Some body" "body \<noteq> []" "verify body (signature w)" "length body \<le> max_body"
    by (auto simp: authentic_def)
  show ?thesis
  proof (cases "parse body")
    case None
    with assms b show ?thesis by (intro rejected) (auto simp: ingest_webhook_def event_of_def)
  next
    case (Some payload)
    then obtain e where e: "event_of parse hash w = Some e" using b(1) by (simp add: event_of_def)
    show ?thesis
    proof (cases "fails Store_event")
      case True
      with assms b Some show ?thesis by (intro rejected) (auto simp: ingest_webhook_def)
    next
      case False
      with assms b Some e True show ?thesis
        by (intro stored[OF True e False]) (auto simp: ingest_webhook_def event_of_def Let_def)
    qed
  qed
qed

lemma record_refresh_intent_cases:
  "record_refresh_intent repos e rows = rows \<or>
   (\<exists>w. rw_delivery w = re_delivery e \<and> (\<forall>r \<in> set rows. rw_delivery r \<noteq> re_delivery e) \<and>
      record_refresh_intent repos e rows = rows @ [w])"
  by (auto simp: record_refresh_intent_def enqueue_refresh_work_def split: push_outcome.split option.split)

lemma store_event_ok:
  assumes "gateway_ok g" and "store_event repos e g = (g', duplicate)"
  shows "gateway_ok g' \<and> publications g' = publications g \<and>
    (if duplicate then g' = g \<and> (\<exists>r \<in> set (raw_events g). re_delivery r = re_delivery e)
     else raw_events g' = raw_events g @ [e] \<and> (\<forall>r \<in> set (raw_events g). re_delivery r \<noteq> re_delivery e) \<and>
       work_rows g' = record_refresh_intent repos e (work_rows g))"
proof (cases "\<exists>r \<in> set (raw_events g). re_delivery r = re_delivery e")
  case True
  with assms show ?thesis by (auto simp: store_event_def insert_raw_event_if_absent_def)
next
  case False
  then have "g' = g\<lparr>raw_events := raw_events g @ [e], work_rows := record_refresh_intent repos e (work_rows g)\<rparr>"
    "\<not> duplicate"
    using assms(2) by (auto simp: store_event_def insert_raw_event_if_absent_def)
  moreover have "\<forall>r \<in> set (work_rows g). rw_delivery r \<noteq> re_delivery e"
    using False assms(1) by (auto simp: gateway_ok_def)
  ultimately show ?thesis using False assms(1) record_refresh_intent_cases[of repos e "work_rows g"]
    by (fastforce simp: gateway_ok_def)
qed

text \<open>C15: What a webhook does, on every path: an unauthentic, oversized or malformed request and a
  failing store change nothing; a delivery that is stored already is accepted as a duplicate
  and changes nothing; a new one is stored once with its refresh work in the same transaction,
  published to exactly the topics its content asks for whose publication does not fail, and
  accepted, or crashes after storing when its payload is null. Whether a signature is
  authentic is decided by the verifier, a parameter.\<close>

theorem webhook_stored_once:
  assumes "gateway_ok g" and "ingest_webhook verify parse hash max_body repos fails w g = (g', out)"
  shows "gateway_ok g' \<and>
    (if \<not> authentic verify max_body w \<or> event_of parse hash w = None \<or> fails Store_event
     then g' = g \<and> (\<exists>r. out = Rejected r)
     else \<exists>e. event_of parse hash w = Some e \<and>
       (if \<exists>r \<in> set (raw_events g). re_delivery r = re_delivery e
        then g' = g \<and> out = Accepted (re_delivery e) True
        else raw_events g' = raw_events g @ [e] \<and>
          work_rows g' = record_refresh_intent repos e (work_rows g) \<and>
          publications g' = publications g @ expected_publications fails e \<and>
          out = (if re_payload e = J_null then Crashed else Accepted (re_delivery e) False)))"
  using assms(2)
proof (cases rule: ingest_webhook_cases)
  case (rejected r)
  with assms(1) show ?thesis by auto
next
  case (stored e)
  obtain g1 dup where s: "store_event repos e g = (g1, dup)" by fastforce
  note ok = store_event_ok[OF assms(1) s]
  show ?thesis
  proof (cases dup)
    case True
    with stored s ok show ?thesis by auto
  next
    case False
    with stored s have g': "g' = fst (after_new_event fails e g1)" "out = snd (after_new_event fails e g1)"
      by (simp_all add: prod_eq_iff)
    have "gateway_ok g' = gateway_ok g1" by (simp add: g' gateway_ok_def after_new_event_keeps)
    with stored ok False show ?thesis
      by (auto simp: g' after_new_event_keeps after_new_event_publications after_new_event_outcome)
  qed
qed

section \<open>Deliveries\<close>

definition empty_gateway :: gateway where
  "empty_gateway = \<lparr>raw_events = [], work_rows = [], publications = [], archived = []\<rparr>"

definition sample_webhook :: "nat webhook" where
  "sample_webhook = \<lparr>raw_body = Some [1], signature = None, event_type = Some (js ''push''),
     delivery_header = Some (js ''d'')\<rparr>"

definition nothing_fails :: "dependency \<Rightarrow> bool" where
  "nothing_fails d = False"

text \<open>A delivery of the payload \<open>payload\<close>, all else going well.\<close>

definition deliver :: "json \<Rightarrow> gateway \<Rightarrow> gateway \<times> webhook_outcome" where
  "deliver payload =
     ingest_webhook (\<lambda>_ _. True) (\<lambda>_. Some payload) (\<lambda>_. []) 10 (\<lambda>_. None) nothing_fails sample_webhook"

theorem webhook_stored_once_witness:
  "raw_events (fst (deliver (J_object []) empty_gateway)) =
     [\<lparr>re_delivery = js ''d'', re_type = js ''push'', re_action = None, re_repository = None,
       re_payload = J_object [], re_hash = []\<rparr>]"
proof -
  let ?e = "\<lparr>re_delivery = js ''d'', re_type = js ''push'', re_action = None, re_repository = None,
       re_payload = J_object [], re_hash = []\<rparr>"
  have ok: "gateway_ok empty_gateway" by (simp add: gateway_ok_def empty_gateway_def)
  have e: "event_of (\<lambda>_. Some (J_object [])) (\<lambda>_. []) sample_webhook = Some ?e"
    by code_simp
  have a: "authentic (\<lambda>_ _. True) 10 sample_webhook" by (simp add: sample_webhook_def authentic_def)
  have "raw_events empty_gateway = []" by (simp add: empty_gateway_def)
  with webhook_stored_once[OF ok surjective_pairing[of "deliver (J_object []) empty_gateway", unfolded deliver_def]] e a
  show ?thesis by (simp add: nothing_fails_def deliver_def)
qed

text \<open>The payload null.\<close>

theorem null_payload_fails_after_storing:
  "let first = deliver J_null empty_gateway; second = deliver J_null (fst first) in
   status (snd first) = 500 \<and> length (raw_events (fst first)) = 1 \<and>
   publications (fst first) = [Ingest_event (js ''d'')] \<and> archived (fst first) = [] \<and>
   snd second = Accepted (js ''d'') True \<and> fst second = fst first"
  by code_simp

end
