(* ===== verification/Db_SequenceWork.thy ===== *)
theory Db_SequenceWork
  imports JSON_Text "HOL-Library.List_Lexorder" "HOL-Library.Product_Lexorder"
begin

text \<open>
  The durable queue \<open>sequence_work\<close> (\<open>packages/db/src/repositories/sequence-work.ts\<close>). Each statement
  of the repository is an operation on the table; statements are atomic, so a run is a sequence of
  them by any number of workers, with the clock between. A worker keeps what it claimed, the row as
  it was at the claim, and acts on it later. Lease tokens are drawn fresh. Rows due at the same time
  are ordered by the units of their key.
\<close>

section \<open>Rows\<close>

datatype work_kind = Refresh | Reconcile | Materialize | Announce | Project | Tag

datatype work_state = Ready | Leased | To_retry | Parked | Finished | Obsolete

record work_row =
  work_key :: jstr
  work_kind :: work_kind
  work_repository :: int
  work_branch :: jstr
  work_epoch :: "int option"
  requested :: nat
  completed :: nat
  work_payload :: json
  work_progress :: json
  work_state :: work_state
  available :: int
  lease_until :: "int option"
  lease_token :: "nat option"
  attempt_count :: nat
  last_reason :: "jstr option"
  updated_at :: int

subsection \<open>Keys\<close>

definition refresh_work_key :: "jstr \<Rightarrow> jstr" where
  "refresh_work_key delivery = js ''push:'' @ delivery"

fun kind_text :: "work_kind \<Rightarrow> jstr" where
  "kind_text Refresh = js ''refresh''"
| "kind_text Reconcile = js ''reconcile''"
| "kind_text Materialize = js ''materialize''"
| "kind_text Announce = js ''announce''"
| "kind_text Project = js ''project''"
| "kind_text Tag = js ''tag''"

definition space_work_key :: "work_kind \<Rightarrow> int \<Rightarrow> jstr \<Rightarrow> int \<Rightarrow> json list \<Rightarrow> jstr" where
  "space_work_key kind repository branch epoch extra =
     kind_text kind @ js '':'' @ array_text ([J_int repository, J_string branch, J_int epoch] @ extra)"

section \<open>Statements\<close>

record work_db =
  work_clock :: int
  work_rows :: "work_row list"
  next_token :: nat

definition update_where :: "(work_row \<Rightarrow> bool) \<Rightarrow> (work_row \<Rightarrow> work_row) \<Rightarrow> work_db \<Rightarrow> work_db" where
  "update_where P f db = db\<lparr>work_rows := map (\<lambda>r. if P r then (f r)\<lparr>updated_at := work_clock db\<rparr> else r) (work_rows db)\<rparr>"

definition affected :: "(work_row \<Rightarrow> bool) \<Rightarrow> work_db \<Rightarrow> nat" where
  "affected P db = length (filter P (work_rows db))"

definition enqueue_refresh :: "jstr \<Rightarrow> int \<Rightarrow> jstr \<Rightarrow> json \<Rightarrow> work_db \<Rightarrow> work_db \<times> bool" where
  "enqueue_refresh delivery repository branch payload db =
     (let key = refresh_work_key delivery in
      if \<exists>r \<in> set (work_rows db). work_key r = key then (db, False)
      else (db\<lparr>work_rows := work_rows db @
                 [\<lparr>work_key = key, work_kind = Refresh, work_repository = repository, work_branch = branch,
                   work_epoch = None, requested = 1, completed = 0, work_payload = payload,
                   work_progress = J_object [], work_state = Ready, available = work_clock db,
                   lease_until = None, lease_token = None, attempt_count = 0, last_reason = None,
                   updated_at = work_clock db\<rparr>]\<rparr>, True))"

record work_request =
  rq_kind :: work_kind
  rq_repository :: int
  rq_branch :: jstr
  rq_epoch :: int
  rq_payload :: json
  rq_extra :: "json list"
  rq_available :: "int option"

definition request_key :: "work_request \<Rightarrow> jstr" where
  "request_key q = space_work_key (rq_kind q) (rq_repository q) (rq_branch q) (rq_epoch q) (rq_extra q)"

definition requested_again :: "int \<Rightarrow> work_request \<Rightarrow> work_row \<Rightarrow> work_row" where
  "requested_again now q r =
     r\<lparr>requested := requested r + 1, work_payload := rq_payload q,
       work_state := (if work_state r = Leased then Leased else Ready),
       available := (if work_state r = Leased then available r
                     else (case rq_available q of None \<Rightarrow> now | Some t \<Rightarrow> t)),
       attempt_count := (if work_state r = Leased then attempt_count r else 0),
       last_reason := (if work_state r = Leased then last_reason r else None)\<rparr>"

definition new_work :: "int \<Rightarrow> work_request \<Rightarrow> work_row" where
  "new_work now q =
     \<lparr>work_key = request_key q, work_kind = rq_kind q, work_repository = rq_repository q,
      work_branch = rq_branch q, work_epoch = Some (rq_epoch q), requested = 1, completed = 0,
      work_payload = rq_payload q, work_progress = J_object [], work_state = Ready,
      available = (case rq_available q of None \<Rightarrow> now | Some t \<Rightarrow> t), lease_until = None, lease_token = None,
      attempt_count = 0, last_reason = None, updated_at = now\<rparr>"

definition request_work :: "work_request \<Rightarrow> work_db \<Rightarrow> work_db" where
  "request_work q db =
     (if \<exists>r \<in> set (work_rows db). work_key r = request_key q
      then update_where (\<lambda>r. work_key r = request_key q) (requested_again (work_clock db) q) db
      else db\<lparr>work_rows := work_rows db @ [new_work (work_clock db) q]\<rparr>)"

text \<open>Choosing the due rows and setting their leases is one statement.\<close>

definition due :: "work_kind list \<Rightarrow> int \<Rightarrow> work_row \<Rightarrow> bool" where
  "due kinds now r \<longleftrightarrow> work_state r \<in> {Ready, To_retry} \<and> available r \<le> now \<and> work_kind r \<in> set kinds"

definition chosen_keys :: "work_kind list \<Rightarrow> nat \<Rightarrow> work_db \<Rightarrow> jstr list" where
  "chosen_keys kinds limit db =
     map work_key (take limit (sort_key (\<lambda>r. (available r, work_key r)) (filter (due kinds (work_clock db)) (work_rows db))))"

fun lease_rows :: "int \<Rightarrow> int \<Rightarrow> jstr list \<Rightarrow> nat \<Rightarrow> work_row list \<Rightarrow> work_row list \<times> work_row list" where
  "lease_rows now until keys token [] = ([], [])"
| "lease_rows now until keys token (r # rs) =
     (if work_key r \<in> set keys
      then (let r' = r\<lparr>work_state := Leased, lease_until := Some until, lease_token := Some token,
                       attempt_count := attempt_count r + 1, updated_at := now\<rparr>
            in case lease_rows now until keys (Suc token) rs of (rows, taken) \<Rightarrow> (r' # rows, r' # taken))
      else (case lease_rows now until keys token rs of (rows, taken) \<Rightarrow> (r # rows, taken)))"

definition claim_due_work :: "work_kind list \<Rightarrow> nat \<Rightarrow> int \<Rightarrow> work_db \<Rightarrow> work_db \<times> work_row list" where
  "claim_due_work kinds limit lease_ms db =
     (if kinds = [] \<or> limit < 1 then (db, [])
      else (case lease_rows (work_clock db) (work_clock db + lease_ms) (chosen_keys kinds limit db) (next_token db)
                   (work_rows db) of
              (rows, taken) \<Rightarrow> (db\<lparr>work_rows := rows, next_token := next_token db + length taken\<rparr>, taken)))"

record lease_ref =
  lr_key :: jstr
  lr_token :: nat

definition holds_lease :: "lease_ref \<Rightarrow> work_row \<Rightarrow> bool" where
  "holds_lease l r \<longleftrightarrow> work_key r = lr_key l \<and> lease_token r = Some (lr_token l) \<and> work_state r = Leased"

definition complete_work :: "lease_ref \<Rightarrow> nat \<Rightarrow> work_db \<Rightarrow> work_db \<times> bool" where
  "complete_work l generation db =
     (update_where (holds_lease l)
        (\<lambda>r. r\<lparr>completed := max (completed r) generation,
               work_state := (if requested r > generation then Ready else Finished),
               lease_until := None, lease_token := None, available := work_clock db, last_reason := None\<rparr>) db,
      affected (holds_lease l) db > 0)"

record release_to =
  to_state :: work_state
  to_available :: int
  to_reason :: "jstr option"
  reset_attempts :: bool

definition release_work :: "lease_ref \<Rightarrow> release_to \<Rightarrow> work_db \<Rightarrow> work_db \<times> bool" where
  "release_work l n db =
     (update_where (holds_lease l)
        (\<lambda>r. r\<lparr>work_state := to_state n, available := to_available n, last_reason := to_reason n,
               attempt_count := (if reset_attempts n then 0 else attempt_count r),
               lease_until := None, lease_token := None\<rparr>) db,
      affected (holds_lease l) db > 0)"

definition update_work_progress :: "lease_ref \<Rightarrow> json \<Rightarrow> work_db \<Rightarrow> work_db \<times> bool" where
  "update_work_progress l progress db =
     (update_where (holds_lease l) (\<lambda>r. r\<lparr>work_progress := progress\<rparr>) db, affected (holds_lease l) db > 0)"

definition heartbeat_work :: "lease_ref \<Rightarrow> int \<Rightarrow> work_db \<Rightarrow> work_db \<times> bool" where
  "heartbeat_work l lease_ms db =
     (update_where (holds_lease l) (\<lambda>r. r\<lparr>lease_until := Some (work_clock db + lease_ms)\<rparr>) db,
      affected (holds_lease l) db > 0)"

definition expired :: "int \<Rightarrow> work_row \<Rightarrow> bool" where
  "expired now r \<longleftrightarrow> work_state r = Leased \<and> (case lease_until r of None \<Rightarrow> False | Some t \<Rightarrow> t < now)"

definition reclaim_expired_leases :: "work_db \<Rightarrow> work_db \<times> nat" where
  "reclaim_expired_leases db =
     (update_where (expired (work_clock db))
        (\<lambda>r. r\<lparr>work_state := To_retry, lease_until := None, lease_token := None, available := work_clock db,
               last_reason := Some (js ''lease_expired'')\<rparr>) db,
      affected (expired (work_clock db)) db)"

subsection \<open>Refreshes that one fetch covers\<close>

definition coverable :: "nat option \<Rightarrow> work_row \<Rightarrow> bool" where
  "coverable token r \<longleftrightarrow>
     work_kind r = Refresh \<and>
     (work_state r \<in> {Ready, To_retry} \<or> (work_state r = Leased \<and> token \<noteq> None \<and> lease_token r = token))"

definition list_coverable_refresh_work_keys :: "int \<Rightarrow> jstr \<Rightarrow> nat option \<Rightarrow> work_db \<Rightarrow> jstr list" where
  "list_coverable_refresh_work_keys repository branch token db =
     sort (map work_key (filter (\<lambda>r. coverable token r \<and> work_repository r = repository \<and> work_branch r = branch)
       (work_rows db)))"

definition complete_covered_refresh_works :: "jstr list \<Rightarrow> nat option \<Rightarrow> work_db \<Rightarrow> work_db \<times> (jstr \<times> json) list" where
  "complete_covered_refresh_works keys token db =
     (if keys = [] then (db, [])
      else (let P = (\<lambda>r. coverable token r \<and> work_key r \<in> set keys) in
        (update_where P
          (\<lambda>r. r\<lparr>work_state := Finished, completed := requested r, lease_until := None, lease_token := None,
                 last_reason := Some (js ''covered'')\<rparr>) db,
         map (\<lambda>r. (work_key r, work_payload r)) (filter P (work_rows db)))))"

text \<open>\<open>payload ->> 'scope'\<close> and the cleanup of finished rows, oldest first.\<close>

definition doc_scope :: "work_row \<Rightarrow> bool" where
  "doc_scope r \<longleftrightarrow> (case as_record (work_payload r) of None \<Rightarrow> False
     | Some ms \<Rightarrow> member ms (js ''scope'') = Some (J_string (js ''doc'')))"

definition cleanup_done_work :: "int \<Rightarrow> nat \<Rightarrow> work_db \<Rightarrow> work_db \<times> nat" where
  "cleanup_done_work older_than limit db =
     (let old = (\<lambda>r. work_state r = Finished \<and> updated_at r < older_than \<and>
                   (work_kind r \<in> {Refresh, Announce} \<or> (work_kind r = Project \<and> doc_scope r)));
          keys = map work_key (take limit (sort_key updated_at (filter old (work_rows db))))
      in (db\<lparr>work_rows := filter (\<lambda>r. work_key r \<notin> set keys) (work_rows db)\<rparr>, length keys))"

subsection \<open>Queries\<close>

definition find_work :: "jstr \<Rightarrow> work_db \<Rightarrow> work_row option" where
  "find_work key db = find (\<lambda>r. work_key r = key) (work_rows db)"

definition count_pending_project_doc_work :: "int \<Rightarrow> jstr \<Rightarrow> int \<Rightarrow> work_db \<Rightarrow> nat \<times> nat" where
  "count_pending_project_doc_work repository branch epoch db =
     (let rows = filter (\<lambda>r. work_kind r = Project \<and> work_repository r = repository \<and> work_branch r = branch \<and>
            work_epoch r = Some epoch \<and> doc_scope r) (work_rows db)
      in (length (filter (\<lambda>r. work_state r \<in> {Ready, To_retry, Leased}) rows),
          length (filter (\<lambda>r. work_state r = Parked) rows)))"

definition count_pending_work :: "work_db \<Rightarrow> work_kind \<Rightarrow> work_state \<Rightarrow> nat" where
  "count_pending_work db kind st =
     (if st \<in> {Ready, To_retry, Leased, Parked}
      then length (filter (\<lambda>r. work_kind r = kind \<and> work_state r = st) (work_rows db)) else 0)"

section \<open>Runs\<close>

text \<open>
  What the workers claimed: the lease and the generation requested at the claim, in order. The table
  checks the size of the documents it stores, \<open>pg_column_size\<close>, which is a parameter: a statement that
  stores a larger one raises and changes nothing, so it is no step.
\<close>

record work_config =
  queue :: work_db
  held :: "(lease_ref \<times> nat) list"

definition lease_of :: "work_row \<Rightarrow> lease_ref \<times> nat" where
  "lease_of r = (\<lparr>lr_key = work_key r, lr_token = the (lease_token r)\<rparr>, requested r)"

definition fits :: "(json \<Rightarrow> nat) \<Rightarrow> json \<Rightarrow> bool" where
  "fits column_size document \<longleftrightarrow> column_size document \<le> 65536"

inductive work_step :: "(json \<Rightarrow> nat) \<Rightarrow> work_config \<Rightarrow> work_config \<Rightarrow> bool" for column_size where
  Work_tick: "0 \<le> d \<Longrightarrow> work_step column_size c (c\<lparr>queue := (queue c)\<lparr>work_clock := work_clock (queue c) + d\<rparr>\<rparr>)"
| Work_enqueue: "fits column_size body \<Longrightarrow> fits column_size (J_object []) \<Longrightarrow>
    work_step column_size c (c\<lparr>queue := fst (enqueue_refresh delivery repository branch body (queue c))\<rparr>)"
| Work_request: "fits column_size (rq_payload q) \<Longrightarrow> fits column_size (J_object []) \<Longrightarrow>
    work_step column_size c (c\<lparr>queue := request_work q (queue c)\<rparr>)"
| Work_claim: "claim_due_work kinds limit lease_ms (queue c) = (db, taken) \<Longrightarrow>
    work_step column_size c (c\<lparr>queue := db, held := held c @ map lease_of taken\<rparr>)"
| Work_complete: "(l, g) \<in> set (held c) \<Longrightarrow> work_step column_size c (c\<lparr>queue := fst (complete_work l g (queue c))\<rparr>)"
| Work_release: "(l, g) \<in> set (held c) \<Longrightarrow> to_state n \<in> {To_retry, Parked, Obsolete, Ready} \<Longrightarrow>
    work_step column_size c (c\<lparr>queue := fst (release_work l n (queue c))\<rparr>)"
| Work_progress: "(l, g) \<in> set (held c) \<Longrightarrow> fits column_size p \<Longrightarrow>
    work_step column_size c (c\<lparr>queue := fst (update_work_progress l p (queue c))\<rparr>)"
| Work_heartbeat: "(l, g) \<in> set (held c) \<Longrightarrow> work_step column_size c (c\<lparr>queue := fst (heartbeat_work l lease_ms (queue c))\<rparr>)"
| Work_reclaim: "work_step column_size c (c\<lparr>queue := fst (reclaim_expired_leases (queue c))\<rparr>)"
| Work_cover: "work_step column_size c (c\<lparr>queue := fst (complete_covered_refresh_works keys token (queue c))\<rparr>)"
| Work_cleanup: "work_step column_size c (c\<lparr>queue := fst (cleanup_done_work older limit (queue c))\<rparr>)"

definition new_queue :: "int \<Rightarrow> work_config" where
  "new_queue now = \<lparr>queue = \<lparr>work_clock = now, work_rows = [], next_token = 0\<rparr>, held = []\<rparr>"

section \<open>The invariant\<close>

text \<open>
  The checks of the table, by their names in the migrations. The kinds and the states are those of the
  datatypes and a number of attempts is never negative, so three checks hold by the types.
\<close>

definition row_constraints :: "(json \<Rightarrow> nat) \<Rightarrow> work_row \<Rightarrow> bool" where
  "row_constraints column_size r \<longleftrightarrow>
     (if work_state r = Leased then lease_until r \<noteq> None \<and> lease_token r \<noteq> None
      else lease_until r = None \<and> lease_token r = None) \<and>
     completed r \<le> requested r \<and>
     (work_kind r = Refresh \<or> work_epoch r \<noteq> None) \<and>
     column_size (work_payload r) \<le> 65536 \<and> column_size (work_progress r) \<le> 65536"

text \<open>Beyond the checks, a finished row has completed all that was requested.\<close>

definition row_sound :: "(json \<Rightarrow> nat) \<Rightarrow> work_row \<Rightarrow> bool" where
  "row_sound column_size r \<longleftrightarrow>
     row_constraints column_size r \<and> (work_state r = Finished \<longrightarrow> completed r = requested r)"

lemmas row_sound_defs = row_sound_def row_constraints_def

definition row_ok :: "(json \<Rightarrow> nat) \<Rightarrow> nat \<Rightarrow> (lease_ref \<times> nat) list \<Rightarrow> work_row \<Rightarrow> bool" where
  "row_ok column_size token hs r \<longleftrightarrow> row_sound column_size r \<and>
     (\<forall>t. lease_token r = Some t \<longrightarrow> t < token \<and>
        (\<forall>(l, g) \<in> set hs. (lr_key l = work_key r \<longrightarrow> lr_token l \<le> t) \<and>
           (lr_token l = t \<longrightarrow> lr_key l = work_key r \<and> g \<le> requested r)))"

definition work_ok :: "(json \<Rightarrow> nat) \<Rightarrow> work_config \<Rightarrow> bool" where
  "work_ok column_size c \<longleftrightarrow>
     distinct (map work_key (work_rows (queue c))) \<and>
     list_all (row_ok column_size (next_token (queue c)) (held c)) (work_rows (queue c)) \<and>
     sorted_wrt (<) (map (lr_token \<circ> fst) (held c)) \<and>
     list_all (\<lambda>h. lr_token (fst h) < next_token (queue c)) (held c)"

lemma update_where_simps [simp]:
  "work_clock (update_where P f db) = work_clock db" "next_token (update_where P f db) = next_token db"
  "work_rows (update_where P f db) = map (\<lambda>r. if P r then (f r)\<lparr>updated_at := work_clock db\<rparr> else r) (work_rows db)"
  by (simp_all add: update_where_def)

lemma row_ok_updated_at [simp]: "row_ok column_size token hs (r\<lparr>updated_at := x\<rparr>) = row_ok column_size token hs r"
  by (simp add: row_ok_def row_sound_defs)

text \<open>An update that keeps keys and rows well formed keeps the invariant.\<close>

lemma work_ok_update:
  assumes "work_ok column_size c"
    and "\<And>r. r \<in> set (work_rows (queue c)) \<Longrightarrow> P r \<Longrightarrow> row_ok column_size (next_token (queue c)) (held c) r \<Longrightarrow>
      row_ok column_size (next_token (queue c)) (held c) (f r)"
    and "\<And>r. work_key (f r) = work_key r"
  shows "work_ok column_size (c\<lparr>queue := update_where P f (queue c)\<rparr>)"
proof -
  have keys: "work_key \<circ> (\<lambda>r. if P r then (f r)\<lparr>updated_at := work_clock (queue c)\<rparr> else r) = work_key"
    using assms(3) by (simp add: fun_eq_iff)
  show ?thesis using assms(1,2) by (auto simp: work_ok_def keys list_all_iff)
qed

lemma row_ok_kept:
  assumes "row_ok column_size token hs r" "lease_token r' = lease_token r \<or> lease_token r' = None"
    and "work_key r' = work_key r" "requested r \<le> requested r'" "row_sound column_size r'"
  shows "row_ok column_size token hs r'"
proof (cases "lease_token r' = None")
  case True
  with assms(5) show ?thesis by (simp add: row_ok_def)
next
  case False
  then have t: "lease_token r' = lease_token r" using assms(2) by auto
  show ?thesis unfolding row_ok_def t assms(3)
  proof (intro conjI allI impI)
    fix t
    assume "lease_token r = Some t"
    with assms(1) have "t < token" and h: "\<forall>(l, g) \<in> set hs. (lr_key l = work_key r \<longrightarrow> lr_token l \<le> t) \<and>
        (lr_token l = t \<longrightarrow> lr_key l = work_key r \<and> g \<le> requested r)"
      by (auto simp: row_ok_def)
    then show "t < token" by simp
    from h assms(4) show "\<forall>(l, g) \<in> set hs. (lr_key l = work_key r \<longrightarrow> lr_token l \<le> t) \<and>
        (lr_token l = t \<longrightarrow> lr_key l = work_key r \<and> g \<le> requested r')" by fastforce
  qed (rule assms(5))
qed

lemma work_ok_append:
  assumes "work_ok column_size c" and "work_key r \<notin> work_key ` set (work_rows (queue c))" "row_sound column_size r" "lease_token r = None"
  shows "work_ok column_size (c\<lparr>queue := (queue c)\<lparr>work_rows := work_rows (queue c) @ [r]\<rparr>\<rparr>)"
  using assms by (auto simp: work_ok_def row_ok_def)

text \<open>The rows a claim takes.\<close>

definition leased_row :: "int \<Rightarrow> int \<Rightarrow> nat \<Rightarrow> work_row \<Rightarrow> work_row" where
  "leased_row now until t r =
     r\<lparr>work_state := Leased, lease_until := Some until, lease_token := Some t,
       attempt_count := attempt_count r + 1, updated_at := now\<rparr>"

lemma lease_rows_Cons:
  "lease_rows now until keys token (r # rs) =
     (if work_key r \<in> set keys
      then (leased_row now until token r # fst (lease_rows now until keys (Suc token) rs),
            leased_row now until token r # snd (lease_rows now until keys (Suc token) rs))
      else (r # fst (lease_rows now until keys token rs), snd (lease_rows now until keys token rs)))"
  by (simp add: Let_def leased_row_def case_prod_beta)

lemma leased_row_simps [simp]:
  "work_key (leased_row now until t r) = work_key r" "lease_token (leased_row now until t r) = Some t"
  "requested (leased_row now until t r) = requested r" "work_state (leased_row now until t r) = Leased"
  by (simp_all add: leased_row_def)

declare lease_rows.simps(2) [simp del] lease_rows_Cons [simp]

lemma lease_rows_keys: "map work_key (fst (lease_rows now until keys token rs)) = map work_key rs"
  "map work_key (snd (lease_rows now until keys token rs)) = filter (\<lambda>k. k \<in> set keys) (map work_key rs)"
  by (induction rs arbitrary: token) simp_all

lemma lease_rows_tokens:
  "map lease_token (snd (lease_rows now until keys token rs)) =
     map Some [token..<token + length (snd (lease_rows now until keys token rs))]"
proof (induction rs arbitrary: token)
  case (Cons r rs)
  show ?case
  proof (cases "work_key r \<in> set keys")
    case True
    let ?n = "length (snd (lease_rows now until keys (Suc token) rs))"
    have "[token..<token + Suc ?n] = token # [Suc token..<Suc token + ?n]" by (subst upt_conv_Cons) auto
    with Cons.IH[of "Suc token"] True show ?thesis by simp
  qed (use Cons.IH in simp)
qed simp

lemma lease_rows_members:
  "r' \<in> set (fst (lease_rows now until keys token rs)) \<Longrightarrow>
     (work_key r' \<notin> set keys \<and> r' \<in> set rs) \<or>
     (r' \<in> set (snd (lease_rows now until keys token rs)) \<and> (\<exists>t. \<exists>r \<in> set rs. r' = leased_row now until t r))"
  by (induction rs arbitrary: token) (fastforce split: if_splits)+

lemma lease_rows_taken:
  "r \<in> set rs \<Longrightarrow> work_key r \<in> set keys \<Longrightarrow>
     \<exists>t. leased_row now until t r \<in> set (snd (lease_rows now until keys token rs))"
  by (induction rs arbitrary: token) (fastforce split: if_splits)+

lemma work_ok_claim:
  assumes "work_ok column_size c" and "claim_due_work kinds limit lease_ms (queue c) = (db, taken)"
  shows "work_ok column_size (c\<lparr>queue := db, held := held c @ map lease_of taken\<rparr>)"
proof (cases "kinds = [] \<or> limit < 1")
  case True
  with assms show ?thesis by (auto simp: claim_due_work_def)
next
  case False
  let ?now = "work_clock (queue c)" and ?rs = "work_rows (queue c)" and ?n = "next_token (queue c)"
  let ?keys = "chosen_keys kinds limit (queue c)"
  let ?leased = "lease_rows ?now (?now + lease_ms) ?keys ?n ?rs"
  from False assms(2) have taken: "taken = snd ?leased"
    and db: "db = (queue c)\<lparr>work_rows := fst ?leased, next_token := ?n + length taken\<rparr>"
    by (auto simp: claim_due_work_def case_prod_beta)
  note tokens = lease_rows_tokens[of ?now "?now + lease_ms" ?keys ?n ?rs, folded taken]
  note keys = lease_rows_keys[of ?now "?now + lease_ms" ?keys ?n ?rs, folded taken]
  have token_range: "\<exists>t. lease_token r = Some t \<and> ?n \<le> t \<and> t < ?n + length taken" if "r \<in> set taken" for r
  proof -
    from that have "lease_token r \<in> set (map lease_token taken)" by simp
    then show ?thesis unfolding tokens by auto
  qed
  have dk: "distinct (map work_key taken)" using assms(1) unfolding keys(2) by (simp add: work_ok_def)
  have dt: "distinct (map lease_token taken)" unfolding tokens by (simp add: distinct_map)
  have same_key: "r = r'" if "r \<in> set taken" "r' \<in> set taken" "work_key r = work_key r'" for r r'
    using dk that by (auto simp: distinct_map inj_on_def)
  have same_token: "r = r'" if "r \<in> set taken" "r' \<in> set taken" "lease_token r = lease_token r'" for r r'
    using dt that by (auto simp: distinct_map inj_on_def)
  have held_before: "lr_token (fst h) < ?n" if "h \<in> set (held c)" for h
    using assms(1) that by (auto simp: work_ok_def list_all_iff)
  have rows: "row_ok column_size (?n + length taken) (held c @ map lease_of taken) r'" if r': "r' \<in> set (fst ?leased)" for r'
    using lease_rows_members[OF r', folded taken]
  proof (elim disjE conjE exE bexE)
    assume key: "work_key r' \<notin> set ?keys" and "r' \<in> set ?rs"
    then have ok: "row_ok column_size ?n (held c) r'" using assms(1) by (auto simp: work_ok_def list_all_iff)
    have "work_key r \<noteq> work_key r'" if "r \<in> set taken" for r
    proof -
      from that have "work_key r \<in> set (map work_key taken)" by simp
      then show ?thesis using key unfolding keys(2) by auto
    qed
    moreover have "the (lease_token r) \<noteq> t" if "r \<in> set taken" "t < ?n" for r t
      using token_range[OF that(1)] that(2) by auto
    ultimately show ?thesis using ok unfolding row_ok_def lease_of_def by fastforce
  next
    fix t r
    assume tk: "r' \<in> set taken" and r: "r \<in> set ?rs" "r' = leased_row ?now (?now + lease_ms) t r"
    have "row_sound column_size r" using assms(1) r(1) by (auto simp: work_ok_def list_all_iff row_ok_def)
    then have "row_sound column_size r'" by (simp add: r(2) row_sound_defs leased_row_def)
    moreover have t: "lease_token r' = Some t" by (simp add: r(2))
    with token_range[OF tk] have range: "?n \<le> t" "t < ?n + length taken" by auto
    moreover have "(lr_key l = work_key r' \<longrightarrow> lr_token l \<le> t) \<and> (lr_token l = t \<longrightarrow> lr_key l = work_key r' \<and> g \<le> requested r')"
      if "(l, g) \<in> set (held c)" for l g
      using held_before[OF that] range(1) by auto
    moreover have "(work_key q = work_key r' \<longrightarrow> the (lease_token q) \<le> t) \<and> (the (lease_token q) = t \<longrightarrow> q = r')"
      if "q \<in> set taken" for q
      using token_range[OF that] same_key[OF that tk] same_token[OF that tk] t by auto
    ultimately show ?thesis using t by (auto simp: row_ok_def lease_of_def)
  qed
  have "map (lr_token \<circ> fst \<circ> lease_of) taken = [?n..<?n + length taken]"
  proof -
    have "map (lr_token \<circ> fst \<circ> lease_of) taken = map the (map lease_token taken)"
      by (simp add: lease_of_def)
    then show ?thesis unfolding tokens by (simp add: o_def)
  qed
  then have sorted: "sorted_wrt (<) (map (lr_token \<circ> fst) (held c @ map lease_of taken))"
    using assms(1) less_le_trans[OF held_before] by (auto simp: work_ok_def sorted_wrt_append)
  have below: "lr_token (fst h) < ?n + length taken" if "h \<in> set (held c @ map lease_of taken)" for h
    using that held_before[of h] token_range by (fastforce simp: lease_of_def)
  show ?thesis using assms(1) rows sorted below
    by (simp add: work_ok_def db keys(1) list_all_iff)
qed

lemma holds_lease_generation:
  assumes "work_ok column_size c" "(l, g) \<in> set (held c)" "r \<in> set (work_rows (queue c))" "holds_lease l r"
  shows "g \<le> requested r"
  using assms by (fastforce simp: work_ok_def list_all_iff row_ok_def holds_lease_def)

lemma work_ok_step: "work_step column_size c c' \<Longrightarrow> work_ok column_size c \<Longrightarrow> work_ok column_size c'"
proof (induction rule: work_step.induct)
  case (Work_enqueue body c delivery repository branch)
  then show ?case
    by (auto simp: enqueue_refresh_def Let_def row_sound_defs fits_def intro!: work_ok_append)
next
  case (Work_request q c)
  show ?case
  proof (cases "\<exists>r \<in> set (work_rows (queue c)). work_key r = request_key q")
    case True
    have "work_ok column_size (c\<lparr>queue := update_where (\<lambda>r. work_key r = request_key q) (requested_again (work_clock (queue c)) q) (queue c)\<rparr>)"
    proof (rule work_ok_update[OF Work_request(3)])
      show "row_ok column_size (next_token (queue c)) (held c) (requested_again (work_clock (queue c)) q r)"
        if "row_ok column_size (next_token (queue c)) (held c) r" for r
        using that by (rule row_ok_kept)
          (use that Work_request(1) in \<open>auto simp: requested_again_def row_sound_defs fits_def row_ok_def\<close>)
    qed (simp add: requested_again_def)
    with True show ?thesis by (simp add: request_work_def)
  next
    case False
    with Work_request show ?thesis
      by (auto simp: request_work_def new_work_def row_sound_defs fits_def intro!: work_ok_append)
  qed
next
  case (Work_claim kinds limit lease_ms c db taken)
  then show ?case by (intro work_ok_claim)
next
  case (Work_complete l g c)
  show ?case unfolding complete_work_def fst_conv
  proof (rule work_ok_update[OF Work_complete(2)])
    fix r
    assume r: "r \<in> set (work_rows (queue c))" "holds_lease l r" "row_ok column_size (next_token (queue c)) (held c) r"
    have "g \<le> requested r" by (rule holds_lease_generation[OF Work_complete(2,1) r(1,2)])
    with r(3) show "row_ok column_size (next_token (queue c)) (held c)
        (r\<lparr>completed := max (completed r) g, work_state := (if g < requested r then Ready else Finished),
           lease_until := None, lease_token := None, available := work_clock (queue c), last_reason := None\<rparr>)"
      by (auto simp: row_ok_def row_sound_defs max_def)
  qed simp
next
  case (Work_release l g c n)
  then show ?case unfolding release_work_def fst_conv
    by (intro work_ok_update) (auto simp: row_ok_def row_sound_defs)
next
  case (Work_progress l g c p)
  then show ?case unfolding update_work_progress_def fst_conv
    by (intro work_ok_update) (auto simp: row_ok_def row_sound_defs fits_def)
next
  case (Work_heartbeat l g c lease_ms)
  then show ?case unfolding heartbeat_work_def fst_conv
    by (intro work_ok_update) (auto simp: row_ok_def row_sound_defs holds_lease_def)
next
  case (Work_reclaim c)
  then show ?case unfolding reclaim_expired_leases_def fst_conv
    by (intro work_ok_update) (auto simp: row_ok_def row_sound_defs)
next
  case (Work_cover c keys token)
  then show ?case
    by (auto simp: complete_covered_refresh_works_def Let_def row_ok_def row_sound_defs intro!: work_ok_update)
next
  case (Work_cleanup c older limit)
  then show ?case
    by (auto simp: cleanup_done_work_def Let_def work_ok_def list_all_iff intro!: distinct_map_filter)
qed (simp add: work_ok_def)

interpretation work_runs: invariant_system "\<lambda>c. \<exists>now. c = new_queue now" "work_step column_size" "work_ok column_size"
  for column_size
proof unfold_locales
  show "work_ok column_size c" if "\<exists>now. c = new_queue now" for c
    using that by (auto simp: new_queue_def work_ok_def)
qed (rule work_ok_step)

section \<open>Properties\<close>

text \<open>C16: No statement of the queue breaks the checks of its table: in every reachable state each row
  has a lease exactly when it is leased, has completed no more generations than were
  requested, has an epoch unless it is a refresh, and holds documents of at most 65536 bytes
  when the statements that store larger ones are rejected; a finished row has completed all
  that was requested. And an acknowledgement does not lose a request: completing a lease with
  the generation it was taken at leaves a row that was requested again ready, and finishes the
  others.\<close>

theorem work_queue_keeps_requests:
  assumes "reaches (\<lambda>c. \<exists>now. c = new_queue now) (work_step column_size) c" and "r \<in> set (work_rows (queue c))"
  shows "row_constraints column_size r \<and> (work_state r = Finished \<longrightarrow> completed r = requested r) \<and>
    (\<forall>l g. (l, g) \<in> set (held c) \<and> holds_lease l r \<longrightarrow> g \<le> requested r \<and>
       (\<exists>r' \<in> set (work_rows (fst (complete_work l g (queue c)))).
          work_key r' = work_key r \<and> requested r' = requested r \<and>
          work_state r' = (if requested r > g then Ready else Finished)))"
proof -
  have ok: "work_ok column_size c" by (rule work_runs.reaches_inv[OF assms(1)])
  have "row_sound column_size r" using ok assms(2) by (auto simp: work_ok_def list_all_iff row_ok_def)
  moreover have "\<exists>r' \<in> set (work_rows (fst (complete_work l g (queue c)))).
      work_key r' = work_key r \<and> requested r' = requested r \<and>
      work_state r' = (if requested r > g then Ready else Finished)" if "holds_lease l r" for l g
    by (rule bexI[where x = "r\<lparr>completed := max (completed r) g,
          work_state := (if requested r > g then Ready else Finished), lease_until := None, lease_token := None,
          available := work_clock (queue c), last_reason := None, updated_at := work_clock (queue c)\<rparr>"])
      (use that assms(2) in \<open>auto simp: complete_work_def image_iff intro!: bexI[of _ r]\<close>)
  ultimately show ?thesis using holds_lease_generation[OF ok _ assms(2)] by (auto simp: row_sound_def)
qed

lemma update_where_none:
  assumes "\<And>r. r \<in> set (work_rows db) \<Longrightarrow> \<not> P r"
  shows "update_where P f db = db" "affected P db = 0"
proof -
  have "map (\<lambda>r. if P r then (f r)\<lparr>updated_at := work_clock db\<rparr> else r) (work_rows db) = work_rows db"
    by (rule map_idI) (use assms in simp)
  then show "update_where P f db = db" by (simp add: update_where_def)
  show "affected P db = 0" using assms by (simp add: affected_def filter_empty_conv)
qed

text \<open>C18: A worker whose lease was taken over has no effect: whatever it still sends for a row that
  another lease was given out for, completing, releasing, reporting progress or prolonging,
  applies to no row.\<close>

theorem late_acks_are_void:
  assumes "reaches (\<lambda>c. \<exists>now. c = new_queue now) (work_step column_size) c"
    and "i < j" "j < length (held c)" "held c ! i = (old, g)" "held c ! j = (new, g')" "lr_key old = lr_key new"
  shows "complete_work old n (queue c) = (queue c, False) \<and> release_work old next (queue c) = (queue c, False) \<and>
    update_work_progress old p (queue c) = (queue c, False) \<and> heartbeat_work old ms (queue c) = (queue c, False)"
proof -
  have ok: "work_ok column_size c" by (rule work_runs.reaches_inv[OF assms(1)])
  have "lr_token old < lr_token new"
    using ok assms(2-5) sorted_wrt_nth_less[of "(<)" "map (lr_token \<circ> fst) (held c)" i j]
    by (simp add: work_ok_def)
  moreover have "(new, g') \<in> set (held c)" using assms(3,5) by (metis nth_mem)
  ultimately have none: "\<not> holds_lease old r" if "r \<in> set (work_rows (queue c))" for r
    using ok that assms(6) by (fastforce simp: work_ok_def list_all_iff row_ok_def holds_lease_def)
  note u = update_where_none[of "queue c" "holds_lease old", OF none]
  show ?thesis
    by (simp add: complete_work_def release_work_def update_work_progress_def heartbeat_work_def u)
qed

text \<open>
  Rows are claimed in the order of the time they are due and of their key: a due row is claimed when
  fewer due rows than the limit come before it.
\<close>

definition claim_rank :: "work_row \<Rightarrow> int \<times> jstr" where
  "claim_rank r = (available r, work_key r)"

lemma in_take_sort_key:
  fixes f :: "'a \<Rightarrow> 'b::linorder"
  assumes "r \<in> set xs" "distinct (map f xs)" "length (filter (\<lambda>x. f x < f r) xs) < n"
  shows "r \<in> set (take n (sort_key f xs))"
proof -
  from assms(1) obtain as bs where s: "sort_key f xs = as @ r # bs" by (metis set_sort split_list)
  have d: "distinct (map f (sort_key f xs))" using assms(2) by (simp add: distinct_map)
  have "sorted (map f as @ f r # map f bs)" using sorted_sort_key[of f xs] unfolding s by simp
  then have "\<forall>a \<in> set as. f a \<le> f r" by (simp add: sorted_append)
  moreover have "\<forall>a \<in> set as. f a \<noteq> f r" using d unfolding s by (auto simp: image_iff)
  ultimately have "f a < f r" if "a \<in> set as" for a using that by (simp add: less_le)
  then have "length as = length (filter (\<lambda>x. f x < f r) as)" by (simp add: filter_id_conv)
  also have "\<dots> \<le> length (filter (\<lambda>x. f x < f r) (sort_key f xs))" unfolding s by simp
  also have "\<dots> = length (filter (\<lambda>x. f x < f r) xs)" by (simp add: filter_sort)
  finally have "0 < n - length as" using assms(3) by linarith
  then show ?thesis unfolding s by (cases "n - length as") simp_all
qed

lemma claim_takes_due:
  assumes "r \<in> set (work_rows db)" and "due kinds (work_clock db) r" and "distinct (map work_key (work_rows db))"
    and "length (filter (\<lambda>q. due kinds (work_clock db) q \<and> claim_rank q < claim_rank r) (work_rows db)) < limit"
  shows "\<exists>t. leased_row (work_clock db) (work_clock db + lease_ms) t r \<in> set (snd (claim_due_work kinds limit lease_ms db))"
proof -
  let ?due = "filter (due kinds (work_clock db)) (work_rows db)"
  have r: "r \<in> set ?due" using assms(1,2) by simp
  have "kinds \<noteq> []" using assms(2) by (auto simp: due_def)
  moreover have "1 \<le> limit" using assms(4) by simp
  moreover have "work_key r \<in> set (chosen_keys kinds limit db)"
  proof -
    have "distinct (map claim_rank ?due)"
      using assms(3) by (auto simp: distinct_map inj_on_def claim_rank_def intro!: distinct_filter)
    moreover have "length (filter (\<lambda>q. claim_rank q < claim_rank r) ?due) < limit"
      using assms(4) by (simp add: conj_commute)
    ultimately have "r \<in> set (take limit (sort_key claim_rank ?due))" by (rule in_take_sort_key[OF r])
    then show ?thesis by (simp add: chosen_keys_def claim_rank_def[abs_def])
  qed
  ultimately show ?thesis
    using lease_rows_taken[OF assms(1), of "chosen_keys kinds limit db" "work_clock db" "work_clock db + lease_ms"]
    by (auto simp: claim_due_work_def case_prod_beta not_less_eq_eq)
qed

text \<open>C17: Due work is taken over in the order of its time: a row that is ready or waits for a retry,
  once it is due, or that a worker holds whose lease has expired, is leased anew by the next
  claim of its kind after the reclaim, with no request lost and until the new deadline, when
  fewer due rows than the limit of the claim come before it by their time and key. A row whose
  lease expired is due at the time of the reclaim.\<close>

theorem pending_work_is_taken_over:
  assumes "reaches (\<lambda>c. \<exists>now. c = new_queue now) (work_step column_size) c" and "r \<in> set (work_rows (queue c))"
    and "work_state r \<in> {Ready, To_retry} \<and> available r \<le> now \<and> at_time = available r \<or>
      work_state r = Leased \<and> (\<exists>t. lease_until r = Some t \<and> t < now) \<and> at_time = now"
    and "work_kind r \<in> set kinds"
    and "db = fst (reclaim_expired_leases ((queue c)\<lparr>work_clock := now\<rparr>))"
    and "length (filter (\<lambda>q. due kinds now q \<and> (available q, work_key q) < (at_time, work_key r)) (work_rows db)) < limit"
  shows "\<exists>r' \<in> set (snd (claim_due_work kinds limit lease_ms db)).
    work_key r' = work_key r \<and> work_state r' = Leased \<and> requested r' = requested r \<and> lease_until r' = Some (now + lease_ms)"
proof -
  have ok: "work_ok column_size c" by (rule work_runs.reaches_inv[OF assms(1)])
  have keys: "map work_key (work_rows db) = map work_key (work_rows (queue c))"
    unfolding assms(5) by (simp add: reclaim_expired_leases_def comp_def)
  then have distinct: "distinct (map work_key (work_rows db))" using ok by (simp add: work_ok_def)
  have clock: "work_clock db = now" unfolding assms(5) by (simp add: reclaim_expired_leases_def)
  have "\<exists>q \<in> set (work_rows db). due kinds now q \<and> work_key q = work_key r \<and> requested q = requested r \<and> available q = at_time"
  proof (cases "expired now r")
    case True
    let ?q = "r\<lparr>work_state := To_retry, lease_until := None, lease_token := None, available := now,
        last_reason := Some (js ''lease_expired''), updated_at := now\<rparr>"
    have "?q \<in> set (work_rows db)"
      unfolding assms(5) using assms(2) True by (auto simp: reclaim_expired_leases_def image_iff intro!: bexI[of _ r])
    moreover have "due kinds now ?q" using assms(4) by (simp add: due_def)
    ultimately show ?thesis using assms(3) True by (intro bexI[of _ ?q]) (auto simp: expired_def)
  next
    case False
    then have "r \<in> set (work_rows db)"
      unfolding assms(5) using assms(2) by (auto simp: reclaim_expired_leases_def image_iff intro!: bexI[of _ r])
    moreover have "due kinds now r" "at_time = available r" using False assms(3,4) by (auto simp: due_def expired_def)
    ultimately show ?thesis by blast
  qed
  then obtain q where q: "q \<in> set (work_rows db)" "due kinds now q" "work_key q = work_key r" "requested q = requested r"
    "available q = at_time" by blast
  from claim_takes_due[OF q(1) _ distinct, of kinds limit lease_ms] q(2,3,5) assms(6)
  obtain t where "leased_row now (now + lease_ms) t q \<in> set (snd (claim_due_work kinds limit lease_ms db))"
    unfolding clock claim_rank_def by auto
  with q(3,4) show ?thesis by (intro bexI) (simp_all add: leased_row_def)
qed

text \<open>Keys.\<close>

theorem space_work_key_injective:
  assumes "list_all atom extra" "list_all atom extra'"
    and "space_work_key kind repository branch epoch extra = space_work_key kind' repository' branch' epoch' extra'"
  shows "kind = kind' \<and> repository = repository' \<and> branch = branch' \<and> epoch = epoch' \<and> extra = extra'"
proof -
  have colon: "ch CHR '':'' \<notin> set (kind_text k)" for k by (cases k) simp_all
  have "kind_text kind @ ch CHR '':'' # array_text ([J_int repository, J_string branch, J_int epoch] @ extra) =
      kind_text kind' @ ch CHR '':'' # array_text ([J_int repository', J_string branch', J_int epoch'] @ extra')"
    using assms(3) by (simp add: space_work_key_def)
  from append_sep_inject[OF colon colon this] have kinds: "kind_text kind = kind_text kind'"
    and items: "array_text ([J_int repository, J_string branch, J_int epoch] @ extra) =
      array_text ([J_int repository', J_string branch', J_int epoch'] @ extra')"
    by simp_all
  have "kind = kind'" using kinds by (cases kind; cases kind') (simp_all add: js_def)
  moreover have "[J_int repository, J_string branch, J_int epoch] @ extra =
      [J_int repository', J_string branch', J_int epoch'] @ extra'"
    by (rule array_text_inject[OF _ _ _ _ items]) (use assms(1,2) in \<open>simp_all add: atom_def\<close>)
  ultimately show ?thesis by simp
qed

section \<open>A parked request\<close>

definition doc_request :: work_request where
  "doc_request = \<lparr>rq_kind = Project, rq_repository = 7, rq_branch = js ''main'', rq_epoch = 1,
     rq_payload = J_object [(js ''scope'', J_string (js ''doc''))], rq_extra = [J_int 12], rq_available = None\<rparr>"

definition doc_row :: work_row where
  "doc_row = new_work 0 doc_request"

definition doc_leased :: work_row where
  "doc_leased = leased_row 0 60000 0 doc_row"

definition doc_lease :: lease_ref where
  "doc_lease = \<lparr>lr_key = request_key doc_request, lr_token = 0\<rparr>"

text \<open>The row is claimed, requested again while it is worked on, and parked by the worker.\<close>

definition park :: release_to where
  "park = \<lparr>to_state = Parked, to_available = 300000, to_reason = Some (js ''document_missing''), reset_attempts = False\<rparr>"

definition doc_parked :: work_row where
  "doc_parked = (requested_again 0 doc_request doc_leased)\<lparr>work_state := Parked, available := 300000,
     last_reason := Some (js ''document_missing''), lease_until := None, lease_token := None\<rparr>"

lemmas next_work = reaches_next[where step = "work_step (\<lambda>_. 0)"]

definition queue_with :: "work_row list \<Rightarrow> nat \<Rightarrow> (lease_ref \<times> nat) list \<Rightarrow> work_config" where
  "queue_with rows token hs = \<lparr>queue = \<lparr>work_clock = 0, work_rows = rows, next_token = token\<rparr>, held = hs\<rparr>"

lemma doc_claimed:
  "claim_due_work [Project] 8 60000 (queue (queue_with [doc_row] 0 [])) =
     (queue (queue_with [doc_leased] 1 []), [doc_leased])"
proof -
  have "due [Project] 0 doc_row" by (simp add: due_def doc_row_def new_work_def doc_request_def)
  then show ?thesis
    by (simp add: claim_due_work_def queue_with_def chosen_keys_def doc_leased_def)
qed

lemma doc_leased_reached: "reaches (\<lambda>c. \<exists>now. c = new_queue now) (work_step (\<lambda>_. 0)) (queue_with [doc_leased] 1 [(doc_lease, 1)])"
proof -
  have "reaches (\<lambda>c. \<exists>now. c = new_queue now) (work_step (\<lambda>_. 0)) (queue_with [] 0 [])"
    by (rule reaches.start) (auto simp: queue_with_def new_queue_def)
  then have "reaches (\<lambda>c. \<exists>now. c = new_queue now) (work_step (\<lambda>_. 0)) (queue_with [doc_row] 0 [])"
    by (rule next_work[OF _ Work_request[of _ doc_request]])
      (simp_all add: queue_with_def request_work_def doc_row_def fits_def)
  then show ?thesis
    by (rule next_work[OF _ Work_claim[OF doc_claimed]])
      (simp add: queue_with_def lease_of_def doc_lease_def doc_leased_def doc_row_def new_work_def)
qed

lemma doc_requested_again_reached:
  "reaches (\<lambda>c. \<exists>now. c = new_queue now) (work_step (\<lambda>_. 0))
     (queue_with [(requested_again 0 doc_request doc_leased)\<lparr>updated_at := 0\<rparr>] 1 [(doc_lease, 1)])"
  by (rule next_work[OF doc_leased_reached Work_request[of _ doc_request]])
    (simp_all add: fits_def queue_with_def request_work_def update_where_def doc_leased_def doc_row_def new_work_def)

text \<open>C19: A request that arrives while its row is leased is lost when the worker parks the row: the
  row stays parked with a generation requested that nobody has completed, and no worker takes
  it over.\<close>

theorem parked_work_forgets_request:
  "\<exists>c r. reaches (\<lambda>c. \<exists>now. c = new_queue now) (work_step (\<lambda>_. 0)) c \<and> work_rows (queue c) = [r] \<and>
     requested r = 2 \<and> completed r = 0 \<and> work_state r = Parked \<and> held c = [(doc_lease, 1)] \<and>
     (\<forall>now kinds limit ms. snd (claim_due_work kinds limit ms
        (fst (reclaim_expired_leases ((queue c)\<lparr>work_clock := now\<rparr>)))) = [])"
proof -
  let ?r = "doc_parked\<lparr>updated_at := 0\<rparr>"
  let ?c = "queue_with [?r] 1 [(doc_lease, 1)]"
  have reached: "reaches (\<lambda>c. \<exists>now. c = new_queue now) (work_step (\<lambda>_. 0)) ?c"
    by (rule next_work[OF doc_requested_again_reached Work_release[of doc_lease 1 _ park]])
      (simp_all add: queue_with_def release_work_def update_where_def holds_lease_def doc_lease_def park_def
        doc_parked_def requested_again_def doc_leased_def doc_row_def new_work_def leased_row_def)
  have r: "requested ?r = 2" "completed ?r = 0" "work_state ?r = Parked"
    by (simp_all add: doc_parked_def requested_again_def doc_leased_def doc_row_def new_work_def leased_row_def)
  have "snd (claim_due_work kinds limit ms (fst (reclaim_expired_leases ((queue ?c)\<lparr>work_clock := now\<rparr>)))) = []"
    for now kinds limit ms
    using r(3) by (simp add: claim_due_work_def reclaim_expired_leases_def update_where_def queue_with_def
        chosen_keys_def expired_def due_def)
  with reached r show ?thesis by (intro exI[of _ ?c] exI[of _ ?r]) (simp add: queue_with_def)
qed

theorem work_queue_keeps_requests_witness:
  "work_state (hd (work_rows (fst (complete_work doc_lease 1
     (queue (queue_with [(requested_again 0 doc_request doc_leased)\<lparr>updated_at := 0\<rparr>] 1 [(doc_lease, 1)])))))) = Ready"
proof -
  let ?r = "(requested_again 0 doc_request doc_leased)\<lparr>updated_at := 0\<rparr>"
  have "requested ?r = 2" "holds_lease doc_lease ?r"
    by (simp_all add: requested_again_def doc_leased_def doc_row_def new_work_def leased_row_def holds_lease_def doc_lease_def)
  with work_queue_keeps_requests[OF doc_requested_again_reached, of ?r]
  show ?thesis by (auto simp: queue_with_def complete_work_def)
qed

text \<open>The lease runs out and the row is claimed a second time.\<close>

definition later_queue :: "int \<Rightarrow> work_row list \<Rightarrow> nat \<Rightarrow> (lease_ref \<times> nat) list \<Rightarrow> work_config" where
  "later_queue now rows token hs = \<lparr>queue = \<lparr>work_clock = now, work_rows = rows, next_token = token\<rparr>, held = hs\<rparr>"

definition doc_reclaimed :: work_row where
  "doc_reclaimed = doc_leased\<lparr>work_state := To_retry, lease_until := None, lease_token := None, available := 90000,
     last_reason := Some (js ''lease_expired''), updated_at := 90000\<rparr>"

lemma doc_expired_reached:
  "reaches (\<lambda>c. \<exists>now. c = new_queue now) (work_step (\<lambda>_. 0)) (later_queue 90000 [doc_leased] 1 [(doc_lease, 1)])"
  by (rule next_work[OF doc_leased_reached Work_tick[of 90000]]) (simp_all add: queue_with_def later_queue_def)

lemma doc_reclaim:
  "reclaim_expired_leases (queue (later_queue 90000 [doc_leased] 1 hs)) =
     (queue (later_queue 90000 [doc_reclaimed] 1 hs), 1)"
  by (simp add: later_queue_def reclaim_expired_leases_def update_where_def affected_def expired_def doc_reclaimed_def
      doc_leased_def doc_row_def leased_row_def del: js_Cons)

definition doc_again :: lease_ref where
  "doc_again = \<lparr>lr_key = request_key doc_request, lr_token = 1\<rparr>"

lemma doc_claimed_again_reached:
  "reaches (\<lambda>c. \<exists>now. c = new_queue now) (work_step (\<lambda>_. 0))
     (later_queue 90000 [leased_row 90000 150000 1 doc_reclaimed] 2 [(doc_lease, 1), (doc_again, 1)])"
proof -
  have k: "work_state doc_reclaimed = To_retry" "available doc_reclaimed = 90000" "work_kind doc_reclaimed = Project"
    "work_key doc_reclaimed = request_key doc_request" "requested doc_reclaimed = 1"
    by (simp_all add: doc_reclaimed_def doc_leased_def doc_row_def leased_row_def new_work_def)
      (simp add: doc_request_def)
  have "claim_due_work [Project] 8 60000 (queue (later_queue 90000 [doc_reclaimed] 1 [(doc_lease, 1)])) =
      (queue (later_queue 90000 [leased_row 90000 150000 1 doc_reclaimed] 2 []), [leased_row 90000 150000 1 doc_reclaimed])"
    using k by (simp add: claim_due_work_def later_queue_def chosen_keys_def due_def)
  from Work_claim[OF this] have step: "work_step (\<lambda>_. 0) (later_queue 90000 [doc_reclaimed] 1 [(doc_lease, 1)])
      (later_queue 90000 [leased_row 90000 150000 1 doc_reclaimed] 2 [(doc_lease, 1), (doc_again, 1)])"
    using k by (simp add: later_queue_def lease_of_def doc_again_def)
  have "reaches (\<lambda>c. \<exists>now. c = new_queue now) (work_step (\<lambda>_. 0)) (later_queue 90000 [doc_reclaimed] 1 [(doc_lease, 1)])"
    by (rule next_work[OF doc_expired_reached Work_reclaim]) (use doc_reclaim in \<open>simp add: later_queue_def\<close>)
  from next_work[OF this step refl] show ?thesis .
qed

theorem late_acks_are_void_witness:
  "complete_work doc_lease 1 (queue (later_queue 90000 [leased_row 90000 150000 1 doc_reclaimed] 2
      [(doc_lease, 1), (doc_again, 1)])) =
   (queue (later_queue 90000 [leased_row 90000 150000 1 doc_reclaimed] 2 [(doc_lease, 1), (doc_again, 1)]), False)"
  using late_acks_are_void[OF doc_claimed_again_reached, of 0 1 doc_lease 1 doc_again 1 1]
  by (simp add: later_queue_def doc_lease_def doc_again_def)

theorem pending_work_is_taken_over_witness:
  "\<exists>r' \<in> set (snd (claim_due_work [Project] 8 60000 (queue (later_queue 90000 [doc_reclaimed] 1 [])))).
     work_key r' = request_key doc_request"
proof -
  let ?c = "later_queue 90000 [doc_leased] 1 [(doc_lease, 1)]"
  have l: "work_state doc_leased = Leased" "work_kind doc_leased = Project" "available doc_leased = 0"
    "lease_until doc_leased = Some 60000" "work_key doc_leased = request_key doc_request"
    by (simp_all add: doc_leased_def doc_row_def leased_row_def new_work_def) (simp_all add: doc_request_def)
  have c: "(queue ?c)\<lparr>work_clock := 90000\<rparr> = queue ?c" by (simp add: later_queue_def)
  have "queue (later_queue 90000 [doc_reclaimed] 1 []) = fst (reclaim_expired_leases ((queue ?c)\<lparr>work_clock := 90000\<rparr>))"
    unfolding c doc_reclaim by (simp add: later_queue_def)
  moreover have "doc_leased \<in> set (work_rows (queue ?c))" by (simp add: later_queue_def)
  moreover have "length (filter (\<lambda>q. due [Project] 90000 q \<and> (available q, work_key q) < (90000, work_key doc_leased))
      (work_rows (queue (later_queue 90000 [doc_reclaimed] 1 [])))) < 8"
    by (rule le_less_trans[OF length_filter_le]) (simp add: later_queue_def)
  ultimately show ?thesis
    using pending_work_is_taken_over[OF doc_expired_reached, of doc_leased 90000 90000 "[Project]"
        "queue (later_queue 90000 [doc_reclaimed] 1 [])" 8 60000] l by auto
qed

theorem space_work_key_injective_witness:
  "space_work_key Materialize 7 (js ''a'') 1 [J_int 12] \<noteq> space_work_key Materialize 7 (js ''b'') 1 [J_int 12]"
  using space_work_key_injective[of "[J_int 12]" "[J_int 12]" Materialize 7 "js ''a''" 1 Materialize 7 "js ''b''" 1]
  by (auto simp: atom_def)

end
