(* ===== verification/Db_MergeSequence.thy ===== *)
theory Db_MergeSequence
  imports PRS_Prelude "HOL-Library.List_Lexorder" "HOL-Library.Product_Lexorder" "HOL-Library.Option_ord"
begin

text \<open>
  The table \<open>merge_sequence\<close> and the statements on it
  (\<open>packages/db/src/repositories/merge-sequence.ts\<close>). A row is a record of its columns, the tables
  are lists without an order of their own, and a statement is a function of the tables; one that
  violates a constraint of the migrations raises, which is \<open>None\<close>. Times are milliseconds of the
  clock of the database. Branches are ordered by their units. Columns that no statement of the
  module reads, such as \<open>assigned_at\<close>, are kept where it writes them.
\<close>

section \<open>Tables\<close>

datatype annotate_state =
  Annotate_done | Annotate_mismatch | Annotate_failed | Annotate_disabled | Annotate_body_changed | Annotate_unknown

datatype tag_state = Tag_done | Tag_conflict | Tag_failed | Tag_disabled | Tag_unknown

record merge_row =
  ms_repository :: int
  ms_branch :: jstr
  ms_epoch :: int
  ms_seq :: int
  ms_sha :: jstr
  ms_pr :: "int option"
  ms_committed :: int
  ms_number :: "int option"
  ms_numbered_at :: "int option"
  ms_annotate :: "annotate_state option"
  ms_annotated_at :: "int option"
  ms_annotate_attempt :: "jstr option"
  ms_annotate_digest :: "jstr option"
  ms_annotate_reason :: "jstr option"
  ms_tag :: "tag_state option"
  ms_tagged_at :: "int option"
  ms_tag_attempt :: "jstr option"
  ms_tag_reason :: "jstr option"
  ms_tag_found :: "jstr option"

datatype space_state = Space_ok | Space_stale | Space_reassigning | Space_unknown

record space_row =
  sp_repository :: int
  sp_branch :: jstr
  sp_epoch :: int
  sp_head :: "jstr option"
  sp_head_seq :: int
  sp_state :: space_state
  sp_assigned_at :: "int option"
  sp_error :: "jstr option"
  sp_number_seq :: int
  sp_number :: int
  sp_blocked_seq :: "int option"
  sp_blocked_reason :: "jstr option"
  sp_blocked_since :: "int option"

record repository_row =
  rp_id :: int
  rp_owner :: jstr
  rp_name :: jstr
  rp_status :: jstr
  rp_branches :: "jstr list"
  rp_annotate_enabled :: bool
  rp_annotate_blocked :: "int option"
  rp_tag_enabled :: bool
  rp_tag_blocked :: "int option"
  rp_org :: int
  rp_visibility :: jstr
  rp_teams :: "int list"

record seq_db =
  db_now :: int
  merges :: "merge_row list"
  spaces :: "space_row list"
  repos :: "repository_row list"

subsection \<open>Constraints\<close>

definition pk_of :: "merge_row \<Rightarrow> int \<times> jstr \<times> int \<times> int" where
  "pk_of r = (ms_repository r, ms_branch r, ms_epoch r, ms_seq r)"

definition sha_key :: "merge_row \<Rightarrow> int \<times> jstr \<times> int \<times> jstr" where
  "sha_key r = (ms_repository r, ms_branch r, ms_epoch r, ms_sha r)"

definition number_key :: "merge_row \<Rightarrow> int \<times> jstr \<times> int \<times> int option" where
  "number_key r = (ms_repository r, ms_branch r, ms_epoch r, ms_number r)"

definition pr_key :: "merge_row \<Rightarrow> int \<times> jstr \<times> int \<times> int option" where
  "pr_key r = (ms_repository r, ms_branch r, ms_epoch r, ms_pr r)"

definition is_numbered :: "merge_row \<Rightarrow> bool" where
  "is_numbered r \<longleftrightarrow> ms_number r \<noteq> None"

text \<open>The length of a text in code points, which \<open>char_length\<close> of the database counts.\<close>

fun char_length :: "jstr \<Rightarrow> nat" where
  "char_length (c # d # s) =
     (if 0xD800 \<le> c \<and> c < 0xDC00 \<and> 0xDC00 \<le> d \<and> d < 0xE000 then Suc (char_length s) else Suc (char_length (d # s)))"
| "char_length s = length s"

definition at_most :: "nat \<Rightarrow> jstr option \<Rightarrow> bool" where
  "at_most n t \<longleftrightarrow> (case t of None \<Rightarrow> True | Some s \<Rightarrow> char_length s \<le> n)"

definition row_checks :: "merge_row \<Rightarrow> bool" where
  "row_checks r \<longleftrightarrow>
     (case ms_number r of None \<Rightarrow> True | Some n \<Rightarrow> 1 \<le> n \<and> n \<le> max_safe_integer) \<and>
     (is_numbered r \<longrightarrow> ms_pr r \<noteq> None) \<and>
     (ms_annotate r \<noteq> None \<longrightarrow> is_numbered r) \<and>
     (ms_tag r \<noteq> None \<longrightarrow> is_numbered r) \<and>
     at_most 16 (ms_annotate_digest r) \<and> at_most 64 (ms_annotate_reason r) \<and> at_most 200 (ms_tag_reason r) \<and>
     (case ms_tag_found r of None \<Rightarrow> True | Some s \<Rightarrow> length s = 40 \<and> list_all is_hex_lower s)"

text \<open>The primary key, the three unique indexes and the checks of the rows.\<close>

definition table_ok :: "merge_row list \<Rightarrow> bool" where
  "table_ok rows \<longleftrightarrow>
     distinct (map pk_of rows) \<and> distinct (map sha_key rows) \<and>
     distinct (map number_key (filter is_numbered rows)) \<and> distinct (map pr_key (filter is_numbered rows)) \<and>
     list_all row_checks rows"

definition with_merges :: "merge_row list \<Rightarrow> seq_db \<Rightarrow> seq_db option" where
  "with_merges rows db = (if table_ok rows then Some (db\<lparr>merges := rows\<rparr>) else None)"

lemma with_merges_Some_iff: "with_merges rows db = Some db' \<longleftrightarrow> table_ok rows \<and> db' = db\<lparr>merges := rows\<rparr>"
  by (auto simp: with_merges_def)

section \<open>Spaces of rows\<close>

definition in_space :: "int \<Rightarrow> jstr \<Rightarrow> int \<Rightarrow> merge_row \<Rightarrow> bool" where
  "in_space repository branch epoch r \<longleftrightarrow>
     ms_repository r = repository \<and> ms_branch r = branch \<and> ms_epoch r = epoch"

definition space_rows :: "int \<Rightarrow> jstr \<Rightarrow> int \<Rightarrow> seq_db \<Rightarrow> merge_row list" where
  "space_rows repository branch epoch db = filter (in_space repository branch epoch) (merges db)"

definition ordered_rows :: "int \<Rightarrow> jstr \<Rightarrow> int \<Rightarrow> seq_db \<Rightarrow> merge_row list" where
  "ordered_rows repository branch epoch db = sort_key ms_seq (space_rows repository branch epoch db)"

definition first_of :: "'a list \<Rightarrow> 'a option" where
  "first_of xs = (case xs of [] \<Rightarrow> None | x # _ \<Rightarrow> Some x)"

lemma first_of_sort_key:
  assumes "first_of (sort_key f xs) = Some x"
  shows "x \<in> set xs" "y \<in> set xs \<Longrightarrow> f x \<le> f y"
proof -
  from assms obtain rest where eq: "sort_key f xs = x # rest" by (auto simp: first_of_def split: list.splits)
  show "x \<in> set xs" using arg_cong[OF eq, of set] by auto
  have "sorted (map f (x # rest))" unfolding eq[symmetric] by simp
  then have "\<forall>z \<in> set (x # rest). f x \<le> f z" by auto
  then show "y \<in> set xs \<Longrightarrow> f x \<le> f y" unfolding eq[symmetric] by simp
qed

lemma first_of_sort_key_exists: "xs \<noteq> [] \<Longrightarrow> \<exists>x. first_of (sort_key f xs) = Some x"
  by (cases "sort_key f xs") (auto simp: first_of_def dest: arg_cong[of _ _ length])

subsection \<open>Writing the sequence\<close>

record merge_insert =
  in_repository :: int
  in_branch :: jstr
  in_epoch :: int
  in_seq :: int
  in_sha :: jstr
  in_pr :: "int option"
  in_committed :: int

definition new_merge_row :: "merge_insert \<Rightarrow> merge_row" where
  "new_merge_row e =
     \<lparr>ms_repository = in_repository e, ms_branch = in_branch e, ms_epoch = in_epoch e, ms_seq = in_seq e,
      ms_sha = in_sha e, ms_pr = in_pr e, ms_committed = in_committed e, ms_number = None,
      ms_numbered_at = None, ms_annotate = None, ms_annotated_at = None, ms_annotate_attempt = None,
      ms_annotate_digest = None, ms_annotate_reason = None, ms_tag = None, ms_tagged_at = None,
      ms_tag_attempt = None, ms_tag_reason = None, ms_tag_found = None\<rparr>"

definition coalesce :: "'a option \<Rightarrow> 'a option \<Rightarrow> 'a option" where
  "coalesce a b = (case a of None \<Rightarrow> b | Some x \<Rightarrow> Some x)"

text \<open>
  The statement fills in a missing pull request of a row with the same commit; when another commit
  has the number it affects no row and the function raises.
\<close>

definition upsert_merge_sequence :: "merge_insert \<Rightarrow> seq_db \<Rightarrow> seq_db option" where
  "upsert_merge_sequence e db =
     (case find (\<lambda>r. pk_of r = pk_of (new_merge_row e)) (merges db) of
        None \<Rightarrow> with_merges (merges db @ [new_merge_row e]) db
      | Some r \<Rightarrow>
          if ms_sha r \<noteq> in_sha e then None
          else with_merges
                 (map (\<lambda>r. if pk_of r = pk_of (new_merge_row e) then r\<lparr>ms_pr := coalesce (ms_pr r) (in_pr e)\<rparr> else r)
                   (merges db)) db)"

definition copied_row :: "int \<Rightarrow> merge_row \<Rightarrow> merge_row" where
  "copied_row to_epoch r =
     new_merge_row \<lparr>in_repository = ms_repository r, in_branch = ms_branch r, in_epoch = to_epoch,
       in_seq = ms_seq r, in_sha = ms_sha r, in_pr = ms_pr r, in_committed = ms_committed r\<rparr>"

definition copies_up_to :: "int \<Rightarrow> jstr \<Rightarrow> int \<Rightarrow> int \<Rightarrow> int \<Rightarrow> seq_db \<Rightarrow> merge_row list" where
  "copies_up_to repository branch from_epoch to_epoch limit db =
     filter (\<lambda>r. pk_of r \<notin> pk_of ` set (merges db))
       (map (copied_row to_epoch)
         (filter (\<lambda>r. ms_seq r \<le> limit) (space_rows repository branch from_epoch db)))"

definition copy_sequences_up_to ::
    "int \<Rightarrow> jstr \<Rightarrow> int \<Rightarrow> int \<Rightarrow> int \<Rightarrow> seq_db \<Rightarrow> (seq_db \<times> nat) option" where
  "copy_sequences_up_to repository branch from_epoch to_epoch limit db =
     (let new = copies_up_to repository branch from_epoch to_epoch limit db in
      map_option (\<lambda>db'. (db', length new)) (with_merges (merges db @ new) db))"

subsection \<open>Reading the sequence\<close>

definition find_range :: "int \<Rightarrow> jstr \<Rightarrow> int \<Rightarrow> int \<Rightarrow> int \<Rightarrow> seq_db \<Rightarrow> merge_row list" where
  "find_range repository branch epoch from_excl to_incl db =
     filter (\<lambda>r. from_excl < ms_seq r \<and> ms_seq r \<le> to_incl) (ordered_rows repository branch epoch db)"

definition find_range_page :: "int \<Rightarrow> jstr \<Rightarrow> int \<Rightarrow> int \<Rightarrow> int \<Rightarrow> nat \<Rightarrow> seq_db \<Rightarrow> merge_row list" where
  "find_range_page repository branch epoch from_excl to_incl limit db =
     take limit (find_range repository branch epoch from_excl to_incl db)"

definition count_range :: "int \<Rightarrow> jstr \<Rightarrow> int \<Rightarrow> int \<Rightarrow> int \<Rightarrow> seq_db \<Rightarrow> nat" where
  "count_range repository branch epoch from_excl to_incl db =
     length (filter (\<lambda>r. from_excl < ms_seq r \<and> ms_seq r \<le> to_incl) (space_rows repository branch epoch db))"

definition count_above :: "int \<Rightarrow> jstr \<Rightarrow> int \<Rightarrow> int \<Rightarrow> seq_db \<Rightarrow> nat" where
  "count_above repository branch epoch low db =
     length (filter (\<lambda>r. low < ms_seq r) (space_rows repository branch epoch db))"

definition find_by_commit_sha :: "int \<Rightarrow> jstr \<Rightarrow> seq_db \<Rightarrow> merge_row list" where
  "find_by_commit_sha repository sha db = filter (\<lambda>r. ms_repository r = repository \<and> ms_sha r = sha) (merges db)"

definition find_by_pull_request :: "int \<Rightarrow> int \<Rightarrow> seq_db \<Rightarrow> merge_row list" where
  "find_by_pull_request repository pr db = filter (\<lambda>r. ms_repository r = repository \<and> ms_pr r = Some pr) (merges db)"

text \<open>The commits of a list that have a number in any space, as the set the function returns.\<close>

definition find_shas_with_sequence :: "int \<Rightarrow> jstr list \<Rightarrow> seq_db \<Rightarrow> jstr set" where
  "find_shas_with_sequence repository shas db =
     (let wanted = remdups (map to_lower shas) in
      if wanted = [] then {}
      else set (map (\<lambda>r. to_lower (ms_sha r))
             (filter (\<lambda>r. ms_repository r = repository \<and> ms_sha r \<in> set wanted) (merges db))))"

definition find_seq_by_commit :: "int \<Rightarrow> jstr \<Rightarrow> int \<Rightarrow> jstr \<Rightarrow> seq_db \<Rightarrow> int option" where
  "find_seq_by_commit repository branch epoch sha db =
     map_option ms_seq (find (\<lambda>r. ms_sha r = sha) (space_rows repository branch epoch db))"

subsection \<open>Points\<close>

record sequence_point =
  pt_seq :: int
  pt_sha :: jstr
  pt_pr :: "int option"
  pt_committed :: int

definition to_point :: "merge_row \<Rightarrow> sequence_point" where
  "to_point r = \<lparr>pt_seq = ms_seq r, pt_sha = ms_sha r, pt_pr = ms_pr r, pt_committed = ms_committed r\<rparr>"

definition find_point_by_commit :: "int \<Rightarrow> jstr \<Rightarrow> int \<Rightarrow> jstr \<Rightarrow> seq_db \<Rightarrow> sequence_point option" where
  "find_point_by_commit repository branch epoch sha db =
     map_option to_point (find (\<lambda>r. ms_sha r = to_lower sha) (space_rows repository branch epoch db))"

definition find_point_by_seq :: "int \<Rightarrow> jstr \<Rightarrow> int \<Rightarrow> int \<Rightarrow> seq_db \<Rightarrow> sequence_point option" where
  "find_point_by_seq repository branch epoch seq db =
     map_option to_point (find (\<lambda>r. ms_seq r = seq) (space_rows repository branch epoch db))"

definition find_point_by_pull_request :: "int \<Rightarrow> jstr \<Rightarrow> int \<Rightarrow> int \<Rightarrow> seq_db \<Rightarrow> sequence_point option" where
  "find_point_by_pull_request repository branch epoch pr db =
     map_option to_point (find (\<lambda>r. ms_pr r = Some pr) (ordered_rows repository branch epoch db))"

text \<open>\<open>LIKE\<close>: \<open>%\<close> stands for any text, \<open>_\<close> for one character and a backslash takes the next one as it is.\<close>

fun sql_like :: "jstr \<Rightarrow> jstr \<Rightarrow> bool" where
  "sql_like [] s = (s = [])"
| "sql_like (p # ps) [] = (p = ch CHR ''%'' \<and> sql_like ps [])"
| "sql_like (p # ps) (c # s) =
     (if p = ch CHR ''%'' then sql_like ps (c # s) \<or> sql_like (p # ps) s
      else if p = ch CHR ''_'' then sql_like ps s
      else if p = ch CHR 0x5C then (case ps of [] \<Rightarrow> False | q # qs \<Rightarrow> q = c \<and> sql_like qs s)
      else p = c \<and> sql_like ps s)"

definition find_points_by_commit_prefix :: "int \<Rightarrow> jstr \<Rightarrow> int \<Rightarrow> jstr \<Rightarrow> seq_db \<Rightarrow> sequence_point list" where
  "find_points_by_commit_prefix repository branch epoch prefix db =
     map to_point (take 2 (filter (\<lambda>r. sql_like (to_lower prefix @ js ''%'') (ms_sha r))
       (ordered_rows repository branch epoch db)))"

definition find_point_at_or_before :: "int \<Rightarrow> jstr \<Rightarrow> int \<Rightarrow> int \<Rightarrow> seq_db \<Rightarrow> sequence_point option" where
  "find_point_at_or_before repository branch epoch instant db =
     map_option to_point (find (\<lambda>r. ms_committed r \<le> instant) (rev (ordered_rows repository branch epoch db)))"

definition list_pull_request_numbers_in_range ::
    "int \<Rightarrow> jstr \<Rightarrow> int \<Rightarrow> int \<Rightarrow> int \<Rightarrow> seq_db \<Rightarrow> int list" where
  "list_pull_request_numbers_in_range repository branch epoch from_excl to_incl db =
     remdups (List.map_filter ms_pr
       (filter (\<lambda>r. from_excl < ms_seq r \<and> ms_seq r \<le> to_incl) (space_rows repository branch epoch db)))"

definition count_pull_requests_above :: "int \<Rightarrow> jstr \<Rightarrow> int \<Rightarrow> int \<Rightarrow> seq_db \<Rightarrow> nat" where
  "count_pull_requests_above repository branch epoch low db =
     length (remdups (List.map_filter ms_pr
       (filter (\<lambda>r. low < ms_seq r) (space_rows repository branch epoch db))))"

text \<open>The rows around an anchor: at most \<open>count\<close> on each side of it.\<close>

definition find_neighbors :: "int \<Rightarrow> jstr \<Rightarrow> int \<Rightarrow> int \<Rightarrow> nat \<Rightarrow> seq_db \<Rightarrow> merge_row list" where
  "find_neighbors repository branch epoch anchor count db =
     (let rows = ordered_rows repository branch epoch db;
          before = take count (rev (filter (\<lambda>r. ms_seq r < anchor) rows));
          at_anchor = filter (\<lambda>r. ms_seq r = anchor) rows;
          after = take count (filter (\<lambda>r. anchor < ms_seq r) rows)
      in sort_key ms_seq (before @ at_anchor @ after))"

subsection \<open>Epochs\<close>

definition rows_of_epoch :: "int \<Rightarrow> jstr \<Rightarrow> int \<Rightarrow> seq_db \<Rightarrow> (jstr \<times> int option) list" where
  "rows_of_epoch repository branch epoch db =
     map (\<lambda>r. (ms_sha r, ms_pr r)) (space_rows repository branch epoch db)"

text \<open>The commits whose row, with its pull request, is in one epoch only.\<close>

definition list_changed_commits_between_epochs :: "int \<Rightarrow> jstr \<Rightarrow> int \<Rightarrow> int \<Rightarrow> seq_db \<Rightarrow> jstr list" where
  "list_changed_commits_between_epochs repository branch old_epoch new_epoch db =
     (let old = rows_of_epoch repository branch old_epoch db; new = rows_of_epoch repository branch new_epoch db in
      map to_lower (remdups (map fst (filter (\<lambda>x. x \<notin> set new) old @ filter (\<lambda>x. x \<notin> set old) new))))"

definition current_row :: "seq_db \<Rightarrow> space_row \<Rightarrow> merge_row \<Rightarrow> bool" where
  "current_row db sp r \<longleftrightarrow> in_space (sp_repository sp) (sp_branch sp) (sp_epoch sp) r"

text \<open>
  The pull requests that landed a commit on a current chain of a numbered branch, by commit. The
  function groups them by commit in a map.
\<close>

definition find_current_chain_landers :: "int \<Rightarrow> jstr list \<Rightarrow> seq_db \<Rightarrow> jstr \<Rightarrow> int option list option" where
  "find_current_chain_landers repository shas db sha =
     (let wanted = remdups (map to_lower shas);
          rows = concat (map (\<lambda>rp. concat (map (\<lambda>sp. filter (\<lambda>r. current_row db sp r \<and> ms_sha r \<in> set wanted) (merges db))
                   (filter (\<lambda>sp. sp_repository sp = rp_id rp \<and> sp_branch sp \<in> set (rp_branches rp)) (spaces db))))
                 (filter (\<lambda>rp. rp_id rp = repository) (repos db)));
          found = filter (\<lambda>r. to_lower (ms_sha r) = sha) rows
      in if wanted = [] \<or> found = [] then None else Some (map ms_pr found))"

section \<open>M numbers\<close>

record candidate_row =
  cd_seq :: int
  cd_sha :: jstr
  cd_pr :: "int option"
  cd_number :: "int option"
  cd_committed :: int

definition candidate_of :: "merge_row \<Rightarrow> candidate_row" where
  "candidate_of r = \<lparr>cd_seq = ms_seq r, cd_sha = ms_sha r, cd_pr = ms_pr r, cd_number = ms_number r, cd_committed = ms_committed r\<rparr>"

definition list_candidates_after :: "int \<Rightarrow> jstr \<Rightarrow> int \<Rightarrow> int \<Rightarrow> nat \<Rightarrow> seq_db \<Rightarrow> candidate_row list" where
  "list_candidates_after repository branch epoch after limit db =
     map candidate_of (take limit (filter (\<lambda>r. after < ms_seq r) (ordered_rows repository branch epoch db)))"

record number_assignment =
  na_seq :: int
  na_pr :: int
  na_number :: int

text \<open>
  A row takes a number when it has no other pull request and no other number. The rows are joined
  with the assignments by their position; with two assignments for a position the first is taken.
\<close>

definition accepts :: "merge_row \<Rightarrow> number_assignment \<Rightarrow> bool" where
  "accepts r a \<longleftrightarrow>
     ms_seq r = na_seq a \<and> (ms_pr r = None \<or> ms_pr r = Some (na_pr a)) \<and>
     (ms_number r = None \<or> ms_number r = Some (na_number a))"

definition numbered_row :: "int \<Rightarrow> number_assignment \<Rightarrow> merge_row \<Rightarrow> merge_row" where
  "numbered_row now a r =
     r\<lparr>ms_number := Some (na_number a), ms_pr := Some (na_pr a),
       ms_numbered_at := coalesce (ms_numbered_at r) (Some now)\<rparr>"

definition assign_row :: "int \<Rightarrow> jstr \<Rightarrow> int \<Rightarrow> int \<Rightarrow> number_assignment list \<Rightarrow> merge_row \<Rightarrow> merge_row option" where
  "assign_row repository branch epoch now as r =
     (if in_space repository branch epoch r
      then map_option (\<lambda>a. numbered_row now a r) (find (accepts r) as)
      else None)"

definition assign_merge_numbers ::
    "int \<Rightarrow> jstr \<Rightarrow> int \<Rightarrow> number_assignment list \<Rightarrow> seq_db \<Rightarrow> (seq_db \<times> nat) option" where
  "assign_merge_numbers repository branch epoch as db =
     (if as = [] then Some (db, 0)
      else
        (let assign = assign_row repository branch epoch (db_now db) as in
         map_option (\<lambda>db'. (db', length (filter (\<lambda>r. assign r \<noteq> None) (merges db))))
           (with_merges (map (\<lambda>r. case assign r of None \<Rightarrow> r | Some r' \<Rightarrow> r') (merges db)) db)))"

definition list_numbered_after :: "int \<Rightarrow> jstr \<Rightarrow> int \<Rightarrow> int \<Rightarrow> nat \<Rightarrow> seq_db \<Rightarrow> merge_row list" where
  "list_numbered_after repository branch epoch after limit db =
     take limit (filter (\<lambda>r. after < ms_seq r \<and> is_numbered r) (ordered_rows repository branch epoch db))"

definition find_row_by_merge_number :: "int \<Rightarrow> jstr \<Rightarrow> int \<Rightarrow> int \<Rightarrow> seq_db \<Rightarrow> merge_row option" where
  "find_row_by_merge_number repository branch epoch n db =
     find (\<lambda>r. ms_number r = Some n) (space_rows repository branch epoch db)"

definition find_numbered_row_by_sha :: "int \<Rightarrow> jstr \<Rightarrow> int \<Rightarrow> jstr \<Rightarrow> seq_db \<Rightarrow> merge_row option" where
  "find_numbered_row_by_sha repository branch epoch sha db =
     find (\<lambda>r. to_lower (ms_sha r) = to_lower sha \<and> is_numbered r) (space_rows repository branch epoch db)"

definition list_numbered_pull_requests :: "int \<Rightarrow> jstr \<Rightarrow> int \<Rightarrow> int list \<Rightarrow> seq_db \<Rightarrow> int set" where
  "list_numbered_pull_requests repository branch epoch prs db =
     (if prs = [] then {}
      else set (List.map_filter ms_pr
             (filter (\<lambda>r. is_numbered r \<and> ms_pr r \<in> Some ` set prs) (space_rows repository branch epoch db))))"

subsection \<open>Looking numbers up\<close>

record number_lookup =
  nl_repository :: int
  nl_branch :: jstr
  nl_pr :: int
  nl_seq :: int
  nl_sha :: jstr
  nl_number :: "int option"
  nl_epoch :: int

record number_space_state =
  ns_repository :: int
  ns_branch :: jstr
  ns_epoch :: int
  ns_state :: space_state
  ns_head_seq :: int
  ns_blocked_seq :: "int option"
  ns_blocked_reason :: "jstr option"

definition number_space_of :: "space_row \<Rightarrow> number_space_state" where
  "number_space_of sp =
     \<lparr>ns_repository = sp_repository sp, ns_branch = sp_branch sp, ns_epoch = sp_epoch sp, ns_state = sp_state sp,
      ns_head_seq = sp_number_seq sp, ns_blocked_seq = sp_blocked_seq sp, ns_blocked_reason = sp_blocked_reason sp\<rparr>"

text \<open>A tuple asks for the number of a pull request; each one joins the rows of the current epoch.\<close>

definition lookup_rows :: "(int \<times> jstr \<times> int) list \<Rightarrow> seq_db \<Rightarrow> number_lookup list" where
  "lookup_rows tuples db =
     sort_key (\<lambda>l. (nl_repository l, nl_branch l, nl_pr l, nl_seq l))
       (concat (map (\<lambda>(repository, branch, pr).
          concat (map (\<lambda>sp. map (\<lambda>r. \<lparr>nl_repository = ms_repository r, nl_branch = ms_branch r, nl_pr = pr, nl_seq = ms_seq r,
                                     nl_sha = ms_sha r, nl_number = ms_number r, nl_epoch = ms_epoch r\<rparr>)
                   (filter (\<lambda>r. current_row db sp r \<and> ms_pr r = Some pr) (merges db)))
            (filter (\<lambda>sp. sp_repository sp = repository \<and> sp_branch sp = branch) (spaces db)))) tuples))"

definition lookup_merge_numbers ::
    "(int \<times> jstr \<times> int) list \<Rightarrow> seq_db \<Rightarrow> number_space_state list \<times> number_lookup list \<times> (int \<Rightarrow> jstr list option)" where
  "lookup_merge_numbers tuples db =
     (if tuples = [] then ([], [], \<lambda>_. None)
      else
        (remdups (map number_space_of
           (filter (\<lambda>sp. \<exists>(repository, branch, pr) \<in> set tuples. repository = sp_repository sp \<and> branch = sp_branch sp) (spaces db))),
         lookup_rows tuples db,
         map_of (map (\<lambda>rp. (rp_id rp, rp_branches rp))
           (filter (\<lambda>rp. rp_id rp \<in> fst ` set tuples) (repos db)))))"

section \<open>Properties of the table\<close>

lemma space_rows_iff: "r \<in> set (space_rows repository branch epoch db) \<longleftrightarrow> r \<in> set (merges db) \<and> in_space repository branch epoch r"
  by (auto simp: space_rows_def)

lemma set_ordered_rows [simp]: "set (ordered_rows repository branch epoch db) = set (space_rows repository branch epoch db)"
  by (simp add: ordered_rows_def)

lemma table_okD:
  assumes "table_ok rows"
  shows "distinct (map pk_of rows)" "distinct (map sha_key rows)"
    "distinct (map number_key (filter is_numbered rows))" "distinct (map pr_key (filter is_numbered rows))"
    "r \<in> set rows \<Longrightarrow> row_checks r"
  using assms by (auto simp: table_ok_def list_all_iff)

lemma distinct_map_filter_sub: "distinct (map f xs) \<Longrightarrow> distinct (map f (filter P xs))"
  by (induction xs) auto

text \<open>A key of the table is a key of each space without the columns of the space.\<close>

lemma distinct_in_space:
  assumes "distinct (map key rows)" and "\<And>r. key r = (ms_repository r, ms_branch r, ms_epoch r, part r)"
  shows "distinct (map part (filter (in_space repository branch epoch) rows))"
  using assms(1)
proof (induction rows)
  case (Cons r rows)
  have "part r \<noteq> part r'" if "in_space repository branch epoch r" "r' \<in> set rows" "in_space repository branch epoch r'" for r'
  proof
    assume "part r = part r'"
    with that assms(2)[of r] assms(2)[of r'] have "key r = key r'" by (simp add: in_space_def)
    with Cons.prems that(2) show False by (auto simp: image_iff)
  qed
  with Cons show ?case by auto
qed simp

lemma space_keys_distinct:
  assumes "table_ok (merges db)"
  shows "distinct (map ms_seq (space_rows repository branch epoch db))"
    and "distinct (map ms_sha (space_rows repository branch epoch db))"
  using distinct_in_space[OF table_okD(1)[OF assms] pk_of_def] distinct_in_space[OF table_okD(2)[OF assms] sha_key_def]
  by (simp_all add: space_rows_def)

end
