(* ===== verification/Db_SequenceSpace.thy ===== *)
theory Db_SequenceSpace
  imports Db_MergeSequence Domain_Sequence
begin

text \<open>
  The table \<open>sequence_space\<close>, one row for each numbered branch
  (\<open>packages/db/src/repositories/sequence-space.ts\<close>), and the queries of the integrity check
  (\<open>packages/db/src/repositories/integrity.ts\<close>) that read stored sequences.
\<close>

section \<open>Spaces\<close>

definition space_key :: "space_row \<Rightarrow> int \<times> jstr" where
  "space_key sp = (sp_repository sp, sp_branch sp)"

definition space_checks :: "space_row \<Rightarrow> bool" where
  "space_checks sp \<longleftrightarrow>
     0 \<le> sp_number sp \<and> sp_number sp \<le> sp_number_seq sp \<and> sp_number_seq sp \<le> sp_head_seq sp \<and>
     (sp_blocked_seq sp = None \<longleftrightarrow> sp_blocked_reason sp = None) \<and>
     (sp_blocked_seq sp = None \<longleftrightarrow> sp_blocked_since sp = None) \<and> at_most 64 (sp_blocked_reason sp)"

definition spaces_ok :: "space_row list \<Rightarrow> bool" where
  "spaces_ok rows \<longleftrightarrow> distinct (map space_key rows) \<and> list_all space_checks rows"

definition with_spaces :: "space_row list \<Rightarrow> seq_db \<Rightarrow> seq_db option" where
  "with_spaces rows db = (if spaces_ok rows then Some (db\<lparr>spaces := rows\<rparr>) else None)"

definition new_space :: "int \<Rightarrow> jstr \<Rightarrow> space_row" where
  "new_space repository branch =
     \<lparr>sp_repository = repository, sp_branch = branch, sp_epoch = 1, sp_head = None, sp_head_seq = 0,
      sp_state = Space_ok, sp_assigned_at = None, sp_error = None, sp_number_seq = 0, sp_number = 0,
      sp_blocked_seq = None, sp_blocked_reason = None, sp_blocked_since = None\<rparr>"

definition find_sequence_space :: "int \<Rightarrow> jstr \<Rightarrow> seq_db \<Rightarrow> space_row option" where
  "find_sequence_space repository branch db = find (\<lambda>sp. space_key sp = (repository, branch)) (spaces db)"

definition update_space :: "int \<Rightarrow> jstr \<Rightarrow> (space_row \<Rightarrow> space_row) \<Rightarrow> seq_db \<Rightarrow> seq_db option" where
  "update_space repository branch f db =
     with_spaces (map (\<lambda>sp. if space_key sp = (repository, branch) then f sp else sp) (spaces db)) db"

definition ensure_sequence_space :: "int \<Rightarrow> jstr \<Rightarrow> seq_db \<Rightarrow> seq_db option" where
  "ensure_sequence_space repository branch db =
     (if find_sequence_space repository branch db \<noteq> None then Some db
      else with_spaces (spaces db @ [new_space repository branch]) db)"

definition list_spaces_for_repositories :: "int list \<Rightarrow> seq_db \<Rightarrow> space_row list" where
  "list_spaces_for_repositories ids db =
     (if ids = [] then [] else sort_key space_key (filter (\<lambda>sp. sp_repository sp \<in> set ids) (spaces db)))"

definition advance_head :: "int \<Rightarrow> jstr \<Rightarrow> jstr \<Rightarrow> int \<Rightarrow> seq_db \<Rightarrow> seq_db option" where
  "advance_head repository branch sha seq db =
     update_space repository branch
       (\<lambda>sp. sp\<lparr>sp_head := Some sha, sp_head_seq := seq, sp_assigned_at := Some (db_now db), sp_state := Space_ok,
                sp_error := None\<rparr>) db"

text \<open>A new epoch starts empty; it raises without a row.\<close>

definition bump_epoch :: "int \<Rightarrow> jstr \<Rightarrow> seq_db \<Rightarrow> (seq_db \<times> int) option" where
  "bump_epoch repository branch db =
     (case find_sequence_space repository branch db of
        None \<Rightarrow> None
      | Some sp \<Rightarrow>
          map_option (\<lambda>db'. (db', sp_epoch sp + 1))
            (update_space repository branch
               (\<lambda>sp. sp\<lparr>sp_epoch := sp_epoch sp + 1, sp_head_seq := 0, sp_head := None, sp_state := Space_reassigning,
                        sp_number_seq := 0, sp_number := 0, sp_blocked_seq := None, sp_blocked_reason := None,
                        sp_blocked_since := None\<rparr>) db))"

definition count_by_state :: "seq_db \<Rightarrow> space_state \<Rightarrow> nat option" where
  "count_by_state db st =
     (let n = length (filter (\<lambda>sp. sp_state sp = st) (spaces db)) in if n = 0 then None else Some n)"

definition mark_stale :: "int \<Rightarrow> jstr \<Rightarrow> jstr \<Rightarrow> seq_db \<Rightarrow> seq_db option" where
  "mark_stale repository branch reason db =
     (let stale = (\<lambda>sp. sp\<lparr>sp_state := Space_stale, sp_error := Some (take 500 reason)\<rparr>) in
      if find_sequence_space repository branch db \<noteq> None then update_space repository branch stale db
      else with_spaces (spaces db @ [stale (new_space repository branch)]) db)"

definition mark_reassigning :: "int \<Rightarrow> jstr \<Rightarrow> seq_db \<Rightarrow> seq_db option" where
  "mark_reassigning repository branch db =
     update_space repository branch (\<lambda>sp. sp\<lparr>sp_state := Space_reassigning, sp_error := None\<rparr>) db"

definition restore_sequence_state :: "int \<Rightarrow> jstr \<Rightarrow> space_state \<Rightarrow> jstr option \<Rightarrow> seq_db \<Rightarrow> seq_db option" where
  "restore_sequence_state repository branch st err db =
     update_space repository branch
       (\<lambda>sp. if sp_state sp = Space_reassigning then sp\<lparr>sp_state := st, sp_error := err\<rparr> else sp) db"

record number_checkpoint =
  ck_head_seq :: int
  ck_head_number :: int
  ck_blocked :: "(int \<times> jstr) option"

definition checkpointed :: "int \<Rightarrow> number_checkpoint \<Rightarrow> space_row \<Rightarrow> space_row" where
  "checkpointed now ck sp =
     sp\<lparr>sp_number_seq := ck_head_seq ck, sp_number := ck_head_number ck,
        sp_blocked_seq := map_option fst (ck_blocked ck), sp_blocked_reason := map_option snd (ck_blocked ck),
        sp_blocked_since :=
          (case ck_blocked ck of
             None \<Rightarrow> None
           | Some (seq, reason) \<Rightarrow>
               if sp_blocked_seq sp = Some seq \<and> sp_blocked_reason sp = Some reason then sp_blocked_since sp else Some now)\<rparr>"

text \<open>Only the space of the given epoch takes the checkpoint; the result says whether it did.\<close>

definition advance_merge_number_checkpoint ::
    "int \<Rightarrow> jstr \<Rightarrow> int \<Rightarrow> number_checkpoint \<Rightarrow> seq_db \<Rightarrow> (seq_db \<times> bool) option" where
  "advance_merge_number_checkpoint repository branch epoch ck db =
     map_option (\<lambda>db'. (db', \<exists>sp \<in> set (spaces db). space_key sp = (repository, branch) \<and> sp_epoch sp = epoch))
       (update_space repository branch (\<lambda>sp. if sp_epoch sp = epoch then checkpointed (db_now db) ck sp else sp) db)"

definition list_spaces_by_keys :: "(int \<times> jstr) list \<Rightarrow> seq_db \<Rightarrow> space_row list" where
  "list_spaces_by_keys keys db = concat (map (\<lambda>k. filter (\<lambda>sp. space_key sp = k) (spaces db)) keys)"

section \<open>Reading for the integrity check\<close>

definition list_stored_sequence :: "int \<Rightarrow> jstr \<Rightarrow> int \<Rightarrow> int \<Rightarrow> seq_db \<Rightarrow> stored_entry list" where
  "list_stored_sequence repository branch epoch from_seq db =
     map (\<lambda>r. \<lparr>merge_seq = ms_seq r, commit_sha = ms_sha r\<rparr>)
       (filter (\<lambda>r. from_seq \<le> ms_seq r) (ordered_rows repository branch epoch db))"

definition count_affected_commits :: "int \<Rightarrow> jstr \<Rightarrow> int \<Rightarrow> int \<Rightarrow> seq_db \<Rightarrow> nat" where
  "count_affected_commits repository branch epoch from_incl db =
     length (filter (\<lambda>r. from_incl \<le> ms_seq r) (space_rows repository branch epoch db))"

section \<open>Effects of the statements\<close>

lemma with_spaces_Some_iff: "with_spaces rows db = Some db' \<longleftrightarrow> spaces_ok rows \<and> db' = db\<lparr>spaces := rows\<rparr>"
  by (auto simp: with_spaces_def)

lemma update_space_Some_iff:
  "update_space repository branch f db = Some db' \<longleftrightarrow>
     spaces_ok (map (\<lambda>sp. if space_key sp = (repository, branch) then f sp else sp) (spaces db)) \<and>
     db' = db\<lparr>spaces := map (\<lambda>sp. if space_key sp = (repository, branch) then f sp else sp) (spaces db)\<rparr>"
  by (simp add: update_space_def with_spaces_Some_iff)

lemma find_updated_space:
  assumes "\<And>sp. space_key (f sp) = space_key sp"
  shows "find (\<lambda>sp. space_key sp = k) (map (\<lambda>sp. if space_key sp = k' then f sp else sp) rows) =
    map_option (\<lambda>sp. if k = k' then f sp else sp) (find (\<lambda>sp. space_key sp = k) rows)"
  using assms by (induction rows) auto

text \<open>An update changes the row of its space and nothing else.\<close>

lemma find_update_space:
  assumes "update_space repository branch f db = Some db'" and "\<And>sp. space_key (f sp) = space_key sp"
  shows "find_sequence_space repository' branch' db' =
      map_option (\<lambda>sp. if (repository', branch') = (repository, branch) then f sp else sp)
        (find_sequence_space repository' branch' db)"
    and "merges db' = merges db" "db_now db' = db_now db" "repos db' = repos db"
  using assms find_updated_space[of f "(repository', branch')" "(repository, branch)" "spaces db", OF assms(2)]
  by (auto simp: update_space_Some_iff find_sequence_space_def)

lemma find_sequence_space_key:
  "find_sequence_space repository branch db = Some sp \<Longrightarrow> sp_repository sp = repository \<and> sp_branch sp = branch \<and> sp \<in> set (spaces db)"
  by (auto simp: find_sequence_space_def find_Some_iff space_key_def)

lemma find_sequence_space_iff:
  assumes "spaces_ok (spaces db)"
  shows "find_sequence_space repository branch db = Some sp \<longleftrightarrow> sp \<in> set (spaces db) \<and> space_key sp = (repository, branch)"
proof
  assume "sp \<in> set (spaces db) \<and> space_key sp = (repository, branch)"
  moreover from this obtain sp' where "find_sequence_space repository branch db = Some sp'"
    by (cases "find_sequence_space repository branch db") (auto simp: find_sequence_space_def find_None_iff)
  moreover from this have "sp' \<in> set (spaces db)" "space_key sp' = (repository, branch)"
    by (auto simp: find_sequence_space_def find_Some_iff)
  ultimately show "find_sequence_space repository branch db = Some sp"
    using assms by (metis (mono_tags) distinct_map inj_on_def spaces_ok_def)
qed (auto simp: find_sequence_space_def find_Some_iff)

end
