(* ===== verification/Worker_Assign.thy ===== *)
theory Worker_Assign
  imports Db_SequenceSpace Db_SequenceWork Worker_Sequence "HOL-Library.Monad_Syntax"
begin

text \<open>
  Numbering the commits of a branch (\<open>apps/pipeline-worker/src/sequence.ts\<close>): the incremental
  assignment, the new epoch after a rewritten history and the repair an operator asks for. Each
  works in one transaction under the lock of its space, so it is a function of the database; what
  the commit graph answers is a record of functions with the text of an error on the left. The
  lookup of a pull request by its merge commit and the parser of dates are parameters, and the index
  of documents, which the code refreshes after the commit as far as it can, is left out.
\<close>

section \<open>State\<close>

datatype sequence_event =
    Sequence_assigned int jstr int int int jstr
  | Sequence_reassigned int jstr int int int nat

record worker =
  wk_seq :: seq_db
  wk_queue :: work_db
  wk_requeued :: "(int \<times> jstr list) list"
  wk_events :: "sequence_event list"

record graph =
  resolve_head :: "jstr \<Rightarrow> (jstr, jstr option) result"
  is_ancestor :: "jstr \<Rightarrow> jstr \<Rightarrow> (jstr, bool) result"
  merge_base :: "jstr \<Rightarrow> jstr \<Rightarrow> (jstr, jstr option) result"
  first_parent_commits :: "jstr option \<Rightarrow> jstr \<Rightarrow> (jstr, (jstr \<times> jstr) list) result"
  first_parent_rev_list :: "jstr option \<Rightarrow> jstr \<Rightarrow> (jstr, jstr list) result"

text \<open>
  What else the functions ask: the pull request of a merge commit, the reading of a date, and the text
  of an exception that a statement raised.
\<close>

record lookups =
  pr_of_commit :: "jstr \<Rightarrow> int option"
  parse_date :: "jstr \<Rightarrow> int option"
  error_text :: jstr

datatype assign_outcome =
    Assigned int int jstr
  | Skipped jstr
  | No_branch
  | Locked
  | Stale jstr
  | Reassigned int int int nat int jstr
  | Rewritten jstr jstr

text \<open>A raised exception, or the hand-over to the reassignment, is not an outcome.\<close>

datatype assign_result = Outcome assign_outcome | Raised | Hand_over jstr jstr

definition find_repository_by_id :: "int \<Rightarrow> seq_db \<Rightarrow> repository_row option" where
  "find_repository_by_id i db = find (\<lambda>rp. rp_id rp = i) (repos db)"

section \<open>Steps of a transaction\<close>

definition insert_of :: "lookups \<Rightarrow> int \<Rightarrow> jstr \<Rightarrow> int \<Rightarrow> numbered_commit \<Rightarrow> merge_insert option" where
  "insert_of look repository branch epoch c =
     map_option (\<lambda>t. \<lparr>in_repository = repository, in_branch = branch, in_epoch = epoch, in_seq = nc_seq c,
                      in_sha = nc_sha c, in_pr = pr_of_commit look (nc_sha c), in_committed = t\<rparr>)
       (parse_date look (nc_committed_at c))"

fun upsert_all :: "lookups \<Rightarrow> int \<Rightarrow> jstr \<Rightarrow> int \<Rightarrow> numbered_commit list \<Rightarrow> seq_db \<Rightarrow> seq_db option" where
  "upsert_all look repository branch epoch [] db = Some db"
| "upsert_all look repository branch epoch (c # cs) db =
     do { e \<leftarrow> insert_of look repository branch epoch c;
          db' \<leftarrow> upsert_merge_sequence e db;
          upsert_all look repository branch epoch cs db' }"

definition trigger_payload :: "jstr \<Rightarrow> jstr \<Rightarrow> (jstr \<times> json) list" where
  "trigger_payload trigger correlation =
     (js ''trigger_kind'', J_string trigger) #
     (if correlation = [] then [] else [(js ''correlation_id'', J_string correlation)])"

definition reconcile_request :: "int \<Rightarrow> jstr \<Rightarrow> int \<Rightarrow> jstr \<Rightarrow> jstr \<Rightarrow> work_request" where
  "reconcile_request repository branch epoch trigger correlation =
     \<lparr>rq_kind = Reconcile, rq_repository = repository, rq_branch = branch, rq_epoch = epoch,
      rq_payload = J_object (trigger_payload trigger correlation), rq_extra = [], rq_available = None\<rparr>"

definition space_work_request :: "int \<Rightarrow> jstr \<Rightarrow> int \<Rightarrow> bool \<Rightarrow> jstr \<Rightarrow> jstr \<Rightarrow> work_request" where
  "space_work_request repository branch epoch full trigger correlation =
     \<lparr>rq_kind = Project, rq_repository = repository, rq_branch = branch, rq_epoch = epoch,
      rq_payload = J_object ((js ''scope'', J_string (if full then js ''full'' else js ''tail'')) #
        trigger_payload trigger correlation),
      rq_extra = (if full then [J_string (js ''full'')] else []), rq_available = None\<rparr>"

text \<open>The intent to project commit links again; without commits it writes nothing.\<close>

definition requeue_links :: "int \<Rightarrow> jstr list \<Rightarrow> worker \<Rightarrow> worker" where
  "requeue_links repository shas w =
     (if shas = [] then w else w\<lparr>wk_requeued := wk_requeued w @ [(repository, shas)]\<rparr>)"

definition request_queue :: "work_request \<Rightarrow> worker \<Rightarrow> worker" where
  "request_queue q w = w\<lparr>wk_queue := request_work q (wk_queue w)\<rparr>"

definition publish_event :: "sequence_event \<Rightarrow> worker \<Rightarrow> worker" where
  "publish_event e w = w\<lparr>wk_events := wk_events w @ [e]\<rparr>"

text \<open>
  Marking the space stale is a statement of its own, after the transaction was rolled back; like any
  statement it can raise.
\<close>

definition stale_outcome :: "int \<Rightarrow> jstr \<Rightarrow> jstr \<Rightarrow> worker \<Rightarrow> worker \<times> assign_result" where
  "stale_outcome repository branch reason w =
     (case mark_stale repository branch reason (wk_seq w) of
        None \<Rightarrow> (w, Raised)
      | Some db \<Rightarrow> (w\<lparr>wk_seq := db\<rparr>, Outcome (Stale reason)))"

section \<open>Assigning\<close>

text \<open>The transaction after the head was found to continue the stored one.\<close>

definition assign_commits ::
    "lookups \<Rightarrow> int \<Rightarrow> jstr \<Rightarrow> jstr \<Rightarrow> space_row \<Rightarrow> jstr \<Rightarrow> (jstr \<times> jstr) list \<Rightarrow> worker \<Rightarrow> worker option" where
  "assign_commits look repository branch correlation sp new_head commits w =
     (let numbered = number_commits (sp_head_seq sp) commits; epoch = sp_epoch sp in
      do { db \<leftarrow> upsert_all look repository branch epoch numbered (wk_seq w);
           db' \<leftarrow> advance_head repository branch new_head (sp_head_seq sp + int (length numbered)) db;
           let w1 = request_queue (reconcile_request repository branch epoch (js ''sequence_assigned'') correlation)
                      (w\<lparr>wk_seq := db'\<rparr>);
           Some (if numbered = [] then w1
                 else requeue_links repository (map nc_sha numbered)
                        (request_queue (space_work_request repository branch epoch False (js ''sequence_assigned'') correlation) w1)) })"

definition assign_in_space ::
    "graph \<Rightarrow> lookups \<Rightarrow> bool \<Rightarrow> int \<Rightarrow> jstr \<Rightarrow> jstr \<Rightarrow> worker \<Rightarrow> seq_db \<Rightarrow> worker \<times> assign_result" where
  "assign_in_space g look publishes repository branch correlation w db =
     (case find_sequence_space repository branch db of
        None \<Rightarrow> (w, Outcome (Stale (js ''sequence_space_missing'')))
      | Some sp \<Rightarrow>
          (case resolve_head g branch of
             Inl e \<Rightarrow> stale_outcome repository branch e w
           | Inr None \<Rightarrow> (w, Outcome No_branch)
           | Inr (Some new_head) \<Rightarrow>
               (case (case sp_head sp of
                        None \<Rightarrow> Inr True
                      | Some h \<Rightarrow> if h = new_head then Inr True else is_ancestor g h new_head) of
                  Inl e \<Rightarrow> stale_outcome repository branch e w
                | Inr False \<Rightarrow> (w, Hand_over (the (sp_head sp)) new_head)
                | Inr True \<Rightarrow>
                    (case first_parent_commits g (sp_head sp) new_head of
                       Inl e \<Rightarrow> stale_outcome repository branch e w
                     | Inr commits \<Rightarrow>
                         (case assign_commits look repository branch correlation sp new_head commits (w\<lparr>wk_seq := db\<rparr>) of
                            None \<Rightarrow> (w, Raised)
                          | Some w' \<Rightarrow>
                              let to_seq = sp_head_seq sp + int (length commits) in
                              if publishes
                              then (publish_event (Sequence_assigned repository branch (sp_epoch sp) (sp_head_seq sp) to_seq new_head) w',
                                    Outcome (Assigned (sp_head_seq sp) to_seq new_head))
                              else (w', Raised))))))"

definition assign_sequence ::
    "graph \<Rightarrow> lookups \<Rightarrow> bool \<Rightarrow> bool \<Rightarrow> int \<Rightarrow> jstr \<Rightarrow> jstr \<Rightarrow> worker \<Rightarrow> worker \<times> assign_result" where
  "assign_sequence g look locked publishes repository branch correlation w =
     (case find_repository_by_id repository (wk_seq w) of
        None \<Rightarrow> (w, Outcome (Skipped (js ''repository_unregistered'')))
      | Some rp \<Rightarrow>
          if rp_status rp \<noteq> js ''active'' then (w, Outcome (Skipped (js ''repository_archived'')))
          else if \<not> is_sequence_branch (rp_branches rp) branch then (w, Outcome (Skipped (js ''not_sequence_branch'')))
          else if \<not> locked then (w, Outcome Locked)
          else (case ensure_sequence_space repository branch (wk_seq w) of
                  None \<Rightarrow> (w, Raised)
                | Some db \<Rightarrow> assign_in_space g look publishes repository branch correlation w db))"

section \<open>A new epoch\<close>

text \<open>The rows up to a position are copied to a new epoch, which has no others yet.\<close>

definition open_epoch :: "int \<Rightarrow> jstr \<Rightarrow> int \<Rightarrow> int \<Rightarrow> seq_db \<Rightarrow> (seq_db \<times> int) option" where
  "open_epoch repository branch old_epoch base_seq db =
     do { (db1, new_epoch) \<leftarrow> bump_epoch repository branch db;
          if base_seq > 0
          then map_option (\<lambda>(db2, n). (db2, new_epoch)) (copy_sequences_up_to repository branch old_epoch new_epoch base_seq db1)
          else Some (db1, new_epoch) }"

text \<open>The commits after it are numbered, and the rows that differ from the old epoch are announced.\<close>

definition fill_epoch ::
    "lookups \<Rightarrow> int \<Rightarrow> jstr \<Rightarrow> int \<Rightarrow> int \<Rightarrow> (jstr \<times> jstr) list \<Rightarrow> seq_db \<Rightarrow> seq_db option" where
  "fill_epoch look repository branch new_epoch base_seq commits db =
     upsert_all look repository branch new_epoch (number_commits base_seq commits) db"

definition close_epoch ::
    "int \<Rightarrow> jstr \<Rightarrow> jstr \<Rightarrow> jstr \<Rightarrow> int \<Rightarrow> int \<Rightarrow> jstr \<Rightarrow> int \<Rightarrow> worker \<Rightarrow> seq_db \<Rightarrow> worker option" where
  "close_epoch repository branch correlation trigger old_epoch new_epoch new_head to_seq w db =
     map_option (\<lambda>db'.
         requeue_links repository (list_changed_commits_between_epochs repository branch old_epoch new_epoch db')
           (request_queue (space_work_request repository branch new_epoch True trigger correlation)
             (request_queue (reconcile_request repository branch new_epoch (js ''sequence_reassigned'') correlation)
               (w\<lparr>wk_seq := db'\<rparr>))))
       (advance_head repository branch new_head to_seq db)"

text \<open>
  Where the new epoch starts: the position of the merge base in the old epoch, or the beginning when
  there is no merge base or the old epoch does not hold it.
\<close>

definition base_of :: "int \<Rightarrow> jstr \<Rightarrow> int \<Rightarrow> jstr option \<Rightarrow> seq_db \<Rightarrow> int \<times> jstr option" where
  "base_of repository branch old_epoch base db =
     (case base of
        None \<Rightarrow> (0, None)
      | Some sha \<Rightarrow>
          (case find_seq_by_commit repository branch old_epoch sha db of None \<Rightarrow> (0, None) | Some n \<Rightarrow> (n, Some sha)))"

definition reassign_in_space ::
    "graph \<Rightarrow> lookups \<Rightarrow> int \<Rightarrow> jstr \<Rightarrow> jstr \<Rightarrow> jstr \<Rightarrow> jstr \<Rightarrow> space_row \<Rightarrow> worker \<Rightarrow> worker \<times> assign_result" where
  "reassign_in_space g look repository branch stored_head new_head correlation sp w =
     (case merge_base g stored_head new_head of
        Inl e \<Rightarrow> stale_outcome repository branch e w
      | Inr base \<Rightarrow>
          (case base_of repository branch (sp_epoch sp) base (wk_seq w) of
             (base_seq, base_sha) \<Rightarrow>
               let affected = count_above repository branch (sp_epoch sp) base_seq (wk_seq w) in
               (case open_epoch repository branch (sp_epoch sp) base_seq (wk_seq w) of
                  None \<Rightarrow> stale_outcome repository branch (error_text look) w
                | Some (db1, new_epoch) \<Rightarrow>
                    (case first_parent_commits g base_sha new_head of
                       Inl e \<Rightarrow> stale_outcome repository branch e w
                     | Inr commits \<Rightarrow>
                         let to_seq = base_seq + int (length commits) in
                         (case do { db2 \<leftarrow> fill_epoch look repository branch new_epoch base_seq commits db1;
                                    close_epoch repository branch correlation (js ''sequence_reassigned'') (sp_epoch sp)
                                      new_epoch new_head to_seq w db2 } of
                            None \<Rightarrow> stale_outcome repository branch (error_text look) w
                          | Some w' \<Rightarrow>
                              (publish_event (Sequence_reassigned repository branch (sp_epoch sp) new_epoch (base_seq + 1) affected) w',
                               Outcome (Reassigned (sp_epoch sp) new_epoch (base_seq + 1) affected to_seq new_head)))))))"

text \<open>
  The first statement, which shows the readers that the numbers are in motion, is committed on its
  own. Publishing the event cannot fail the function, which swallows its error.
\<close>

definition reassign_sequence ::
    "graph \<Rightarrow> lookups \<Rightarrow> bool \<Rightarrow> int \<Rightarrow> jstr \<Rightarrow> jstr \<Rightarrow> jstr \<Rightarrow> jstr \<Rightarrow> worker \<Rightarrow> worker \<times> assign_result" where
  "reassign_sequence g look locked repository branch stored_head new_head correlation w0 =
     (case mark_reassigning repository branch (wk_seq w0) of
        None \<Rightarrow> (w0, Raised)
      | Some db \<Rightarrow>
          let w = w0\<lparr>wk_seq := db\<rparr> in
          if \<not> locked then (w, Outcome (Rewritten stored_head new_head))
          else (case find_sequence_space repository branch db of
                  None \<Rightarrow> stale_outcome repository branch (js ''sequence_space_missing'') w
                | Some sp \<Rightarrow>
                    if sp_head sp \<noteq> Some stored_head then (w, Outcome (Skipped (js ''head_moved'')))
                    else reassign_in_space g look repository branch stored_head new_head correlation sp w))"

section \<open>Repair\<close>

datatype repair_outcome =
    Consistent nat jstr nat int
  | Repaired int int int int jstr nat
  | Repair_no_branch
  | Repair_locked
  | Repair_skipped jstr
  | Repair_stale jstr

datatype repair_result = Repair_done repair_outcome | Repair_raised

definition repair_stale :: "int \<Rightarrow> jstr \<Rightarrow> jstr \<Rightarrow> worker \<Rightarrow> worker \<times> repair_result" where
  "repair_stale repository branch reason w =
     (case mark_stale repository branch reason (wk_seq w) of
        None \<Rightarrow> (w, Repair_raised)
      | Some db \<Rightarrow> (w\<lparr>wk_seq := db\<rparr>, Repair_done (Repair_stale reason)))"

text \<open>
  What the analysis, which runs before the transaction, hands to it: the head it read, the space, the
  chain and the position of the first mismatch.
\<close>

record repair_plan =
  rpl_head :: jstr
  rpl_space :: space_row
  rpl_actual :: "jstr list"
  rpl_diverged :: int

datatype repair_analysis =
    Analysis_stale jstr
  | Analysis_no_branch
  | Analysis_no_space
  | Analysis_consistent nat space_row
  | Analysis_mismatch repair_plan

definition analyse_repair :: "graph \<Rightarrow> int \<Rightarrow> jstr \<Rightarrow> seq_db \<Rightarrow> repair_analysis" where
  "analyse_repair g repository branch db =
     (case resolve_head g branch of
        Inl e \<Rightarrow> Analysis_stale e
      | Inr None \<Rightarrow> Analysis_no_branch
      | Inr (Some head) \<Rightarrow>
          (case find_sequence_space repository branch db of
             None \<Rightarrow> Analysis_no_space
           | Some sp \<Rightarrow>
               let stored = list_stored_sequence repository branch (sp_epoch sp) 1 db in
               (case first_parent_rev_list g None head of
                  Inl e \<Rightarrow> Analysis_stale e
                | Inr actual \<Rightarrow>
                    (case first_sequence_mismatch stored actual of
                       None \<Rightarrow> Analysis_consistent (length stored) sp
                     | Some m \<Rightarrow> Analysis_mismatch
                         \<lparr>rpl_head = head, rpl_space = sp, rpl_actual = actual, rpl_diverged = at_seq m\<rparr>))))"

definition restore_repair_state :: "int \<Rightarrow> jstr \<Rightarrow> repair_plan \<Rightarrow> jstr \<Rightarrow> worker \<Rightarrow> worker \<times> repair_result" where
  "restore_repair_state repository branch plan reason w =
     (case restore_sequence_state repository branch (sp_state (rpl_space plan)) (sp_error (rpl_space plan)) (wk_seq w) of
        None \<Rightarrow> (w, Repair_raised)
      | Some db \<Rightarrow> (w\<lparr>wk_seq := db\<rparr>, Repair_done (Repair_skipped reason)))"

text \<open>\<open>actual[divergedAtSeq - 2] ?? null\<close>\<close>

definition repair_from :: "repair_plan \<Rightarrow> jstr option" where
  "repair_from plan = (if rpl_diverged plan = 1 then None else js_index (rpl_actual plan) (rpl_diverged plan - 2))"

text \<open>The transaction once the space is marked; \<open>live\<close> is the head read again before the commit.\<close>

definition repair_in_space ::
    "graph \<Rightarrow> lookups \<Rightarrow> (jstr, jstr option) result \<Rightarrow> int \<Rightarrow> jstr \<Rightarrow> jstr \<Rightarrow> repair_plan \<Rightarrow> int \<Rightarrow> worker \<Rightarrow>
     worker \<times> repair_result" where
  "repair_in_space g look live repository branch correlation plan old_epoch w =
     (let base_seq = rpl_diverged plan - 1;
          affected = count_above repository branch old_epoch base_seq (wk_seq w) in
      case open_epoch repository branch old_epoch base_seq (wk_seq w) of
        None \<Rightarrow> repair_stale repository branch (error_text look) w
      | Some (db1, new_epoch) \<Rightarrow>
          (case first_parent_commits g (repair_from plan) (rpl_head plan) of
             Inl e \<Rightarrow> repair_stale repository branch e w
           | Inr commits \<Rightarrow>
               let to_seq = base_seq + int (length commits) in
               (case fill_epoch look repository branch new_epoch base_seq commits db1 of
                  None \<Rightarrow> repair_stale repository branch (error_text look) w
                | Some db2 \<Rightarrow>
                    (case live of
                       Inl e \<Rightarrow> repair_stale repository branch e w
                     | Inr live_head \<Rightarrow>
                         if live_head \<noteq> Some (rpl_head plan)
                         then restore_repair_state repository branch plan (js ''head_moved'') w
                         else (case close_epoch repository branch correlation (js ''sequence_repaired'') old_epoch new_epoch
                                      (rpl_head plan) to_seq w db2 of
                                 None \<Rightarrow> repair_stale repository branch (error_text look) w
                               | Some w' \<Rightarrow>
                                   (publish_event (Sequence_reassigned repository branch old_epoch new_epoch (rpl_diverged plan) affected) w',
                                    Repair_done (Repaired old_epoch new_epoch (rpl_diverged plan) to_seq (rpl_head plan) affected)))))))"

definition commit_repair ::
    "graph \<Rightarrow> lookups \<Rightarrow> (jstr, jstr option) result \<Rightarrow> bool \<Rightarrow> int \<Rightarrow> jstr \<Rightarrow> jstr \<Rightarrow> repair_plan \<Rightarrow> worker \<Rightarrow>
     worker \<times> repair_result" where
  "commit_repair g look live locked repository branch correlation plan w0 =
     (if \<not> locked then (w0, Repair_done Repair_locked)
      else (case find_sequence_space repository branch (wk_seq w0) of
              None \<Rightarrow> (w0, Repair_done (Repair_skipped (js ''sequence_space_missing'')))
            | Some current \<Rightarrow>
                if sp_epoch current \<noteq> sp_epoch (rpl_space plan) then (w0, Repair_done (Repair_skipped (js ''epoch_moved'')))
                else if sp_head current \<noteq> sp_head (rpl_space plan) then (w0, Repair_done (Repair_skipped (js ''head_moved'')))
                else (case mark_reassigning repository branch (wk_seq w0) of
                        None \<Rightarrow> repair_stale repository branch (error_text look) w0
                      | Some db \<Rightarrow> repair_in_space g look live repository branch correlation plan (sp_epoch current)
                                     (w0\<lparr>wk_seq := db\<rparr>))))"

text \<open>The whole repair; the database of the transaction may be later than the one analysed.\<close>

definition repair_sequence ::
    "graph \<Rightarrow> lookups \<Rightarrow> (jstr, jstr option) result \<Rightarrow> bool \<Rightarrow> int \<Rightarrow> jstr \<Rightarrow> jstr \<Rightarrow> seq_db \<Rightarrow> worker \<Rightarrow>
     worker \<times> repair_result" where
  "repair_sequence g look live locked repository branch correlation analysed w =
     (case analyse_repair g repository branch analysed of
        Analysis_stale e \<Rightarrow> repair_stale repository branch e w
      | Analysis_no_branch \<Rightarrow> (w, Repair_done Repair_no_branch)
      | Analysis_no_space \<Rightarrow> (w, Repair_done (Repair_skipped (js ''sequence_space_missing'')))
      | Analysis_consistent n sp \<Rightarrow>
          let q = space_work_request repository branch (sp_epoch sp) True (js ''sequence_repair_consistent'') correlation;
              w' = request_queue q w;
              generation = (case find_work (request_key q) (wk_queue w') of None \<Rightarrow> 0 | Some r \<Rightarrow> requested r)
          in (w', Repair_done (Consistent n (request_key q) generation (sp_epoch sp)))
      | Analysis_mismatch plan \<Rightarrow> commit_repair g look live locked repository branch correlation plan w)"

end
