(* ===== verification/Github_ApiGraph.thy ===== *)
theory Github_ApiGraph
  imports Github_Graph
begin

text \<open>
  The commit graph read through the GitHub API (\<open>packages/github/src/api-graph.ts\<close>), and the interface
  of a commit graph (\<open>packages/github/src/commit-graph.ts\<close>) that the numbering relies on. The client's
  calls are parameters: a page of commits with whether it was cut off, a comparison and the detail of
  a commit; \<open>None\<close> is a call that raises. As in \<open>Github_Graph\<close>, the outer \<open>None\<close> of a chain is a
  walk that does not return.
\<close>

section \<open>What the client returns\<close>

record commit_item =
  ci_sha :: jstr
  ci_parents :: "jstr list"
  ci_date :: "jstr option"

record comparison =
  cmp_status :: "jstr option"
  cmp_base :: "jstr option"

record commit_detail =
  det_sha :: jstr
  det_parents :: "jstr option list"
  det_message :: "jstr option"
  det_author :: "jstr option"
  det_author_email :: "jstr option"
  det_authored :: "jstr option"
  det_committer :: "jstr option"
  det_committer_email :: "jstr option"
  det_committed :: "jstr option"
  det_files :: "jstr option list"

datatype api_error =
    To_not_sha jstr
  | From_not_sha jstr
  | Not_sha jstr
  | Truncated
  | Chain_error graph_error
  | Call_failed
  | No_commit_date jstr
  | No_status

section \<open>Chains\<close>

definition parent_links :: "commit_item list \<Rightarrow> commit_links" where
  "parent_links items = map (\<lambda>c. (ci_sha c, ci_parents c)) items"

text \<open>\<open>listing\<close> gives the page for a commit: its items, and whether the limit cut them off.\<close>

definition load_chain ::
    "(jstr \<Rightarrow> (commit_item list \<times> bool) option) \<Rightarrow> rev_range \<Rightarrow> (api_error, commit_item list \<times> jstr list) result option" where
  "load_chain listing rng =
     (if \<not> is_full_sha (range_to rng) then Some (Inl (To_not_sha (range_to rng)))
      else if (case range_from rng of None \<Rightarrow> False | Some f \<Rightarrow> \<not> is_full_sha f)
      then Some (Inl (From_not_sha (the (range_from rng))))
      else (case listing (range_to rng) of
              None \<Rightarrow> Some (Inl Call_failed)
            | Some (items, truncated) \<Rightarrow>
                if truncated then Some (Inl Truncated)
                else map_option (\<lambda>r. case r of Inl e \<Rightarrow> Inl (Chain_error e) | Inr chain \<Rightarrow> Inr (items, chain))
                       (first_parent_chain (parent_links items) (range_to rng) (range_from rng))))"

definition api_rev_list ::
    "(jstr \<Rightarrow> (commit_item list \<times> bool) option) \<Rightarrow> rev_range \<Rightarrow> (api_error, jstr list) result option" where
  "api_rev_list listing rng = map_option (\<lambda>r. bind_result r (\<lambda>(items, chain). Inr chain)) (load_chain listing rng)"

text \<open>The last item with a commit decides its date, as in a map.\<close>

definition date_of_commit :: "commit_item list \<Rightarrow> jstr \<Rightarrow> jstr option" where
  "date_of_commit items sha =
     map_of (rev (List.map_filter (\<lambda>c. case ci_date c of None \<Rightarrow> None | Some d \<Rightarrow> if d = [] then None else Some (ci_sha c, d)) items)) sha"

fun dated_chain :: "commit_item list \<Rightarrow> jstr list \<Rightarrow> (api_error, (jstr \<times> jstr) list) result" where
  "dated_chain items [] = Inr []"
| "dated_chain items (sha # shas) =
     (case date_of_commit items sha of
        None \<Rightarrow> Inl (No_commit_date sha)
      | Some d \<Rightarrow> bind_result (dated_chain items shas) (\<lambda>rest. Inr ((sha, d) # rest)))"

definition api_first_parent_commits ::
    "(jstr \<Rightarrow> (commit_item list \<times> bool) option) \<Rightarrow> rev_range \<Rightarrow> (api_error, (jstr \<times> jstr) list) result option" where
  "api_first_parent_commits listing rng =
     map_option (\<lambda>r. bind_result r (\<lambda>(items, chain). dated_chain items chain)) (load_chain listing rng)"

section \<open>Comparisons and commits\<close>

definition api_is_ancestor :: "(jstr \<Rightarrow> jstr \<Rightarrow> comparison option) \<Rightarrow> jstr \<Rightarrow> jstr \<Rightarrow> (api_error, bool) result" where
  "api_is_ancestor compare ancestor descendant =
     (if \<not> is_full_sha ancestor then Inl (Not_sha ancestor)
      else if \<not> is_full_sha descendant then Inl (Not_sha descendant)
      else (case compare ancestor descendant of
              None \<Rightarrow> Inl Call_failed
            | Some c \<Rightarrow>
                (case cmp_status c of
                   None \<Rightarrow> Inl No_status
                 | Some st \<Rightarrow> Inr (st = js ''identical'' \<or> st = js ''ahead''))))"

definition api_merge_base :: "(jstr \<Rightarrow> jstr \<Rightarrow> comparison option) \<Rightarrow> jstr \<Rightarrow> jstr \<Rightarrow> (api_error, jstr option) result" where
  "api_merge_base compare a b =
     (if \<not> is_full_sha a then Inl (Not_sha a)
      else if \<not> is_full_sha b then Inl (Not_sha b)
      else (case compare a b of None \<Rightarrow> Inl Call_failed | Some c \<Rightarrow> Inr (cmp_base c)))"

record commit_metadata =
  cm_sha :: jstr
  cm_parents :: "jstr list"
  cm_message :: jstr
  cm_author :: "jstr option"
  cm_author_email :: "jstr option"
  cm_committer :: "jstr option"
  cm_committer_email :: "jstr option"
  cm_authored :: jstr
  cm_committed :: jstr

definition nonempty :: "jstr option \<Rightarrow> jstr option" where
  "nonempty t = (case t of None \<Rightarrow> None | Some s \<Rightarrow> if s = [] then None else Some s)"

definition api_read_commit :: "(jstr \<Rightarrow> commit_detail option option) \<Rightarrow> jstr \<Rightarrow> (api_error, commit_metadata option) result" where
  "api_read_commit detail sha =
     (case detail sha of
        None \<Rightarrow> Inl Call_failed
      | Some None \<Rightarrow> Inr None
      | Some (Some d) \<Rightarrow>
          (case nonempty (det_committed d) of
             None \<Rightarrow> Inl (No_commit_date sha)
           | Some at_time \<Rightarrow>
               Inr (Some \<lparr>cm_sha = det_sha d, cm_parents = List.map_filter nonempty (det_parents d),
                 cm_message = (case det_message d of None \<Rightarrow> [] | Some m \<Rightarrow> m), cm_author = det_author d,
                 cm_author_email = det_author_email d, cm_committer = det_committer d,
                 cm_committer_email = det_committer_email d,
                 cm_authored = (case nonempty (det_authored d) of None \<Rightarrow> at_time | Some t \<Rightarrow> t),
                 cm_committed = at_time\<rparr>)))"

definition CHANGED_PATHS_LIMIT :: nat where
  "CHANGED_PATHS_LIMIT = 300"

text \<open>The API itself returns at most 300 files, so a full answer counts as cut off.\<close>

definition api_changed_paths :: "(jstr \<Rightarrow> commit_detail option option) \<Rightarrow> jstr \<Rightarrow> nat \<Rightarrow> (api_error, jstr list \<times> bool) result" where
  "api_changed_paths detail sha limit =
     (case detail sha of
        None \<Rightarrow> Inl Call_failed
      | Some None \<Rightarrow> Inr ([], False)
      | Some (Some d) \<Rightarrow>
          let paths = List.map_filter nonempty (det_files d)
          in Inr (take limit paths, length paths > limit \<or> length paths \<ge> 300))"

section \<open>The interface of a commit graph\<close>

text \<open>
  \<open>history\<close> is the first-parent chain of a commit, the oldest first, and \<open>between\<close> what the graph
  returns for a range. A range from a commit of the chain is what follows it. The API also only answers
  for such a commit, which a strict graph promises; \<open>git log a..b\<close> answers for any two commits.
\<close>

locale commit_graph =
  fixes history :: "jstr \<Rightarrow> jstr list option"
    and between :: "jstr option \<Rightarrow> jstr \<Rightarrow> jstr list option"
  assumes history_last: "history h = Some xs \<Longrightarrow> xs \<noteq> [] \<and> last xs = h \<and> distinct xs"
    and history_prefix: "history h = Some xs \<Longrightarrow> i < length xs \<Longrightarrow> history (xs ! i) = Some (take (Suc i) xs)"
    and history_lower: "history h = Some xs \<Longrightarrow> s \<in> set xs \<Longrightarrow> to_lower s = s"
    and between_start: "between None h = Some xs \<Longrightarrow> history h = Some xs"
    and between_after: "between (Some c) h = Some ys \<Longrightarrow> history h = Some xs \<Longrightarrow> history c = Some cs \<Longrightarrow> c \<in> set xs \<Longrightarrow>
      xs = cs @ ys"
begin

lemma history_commit: "history h = Some xs \<Longrightarrow> c \<in> set xs \<Longrightarrow> \<exists>i < length xs. xs ! i = c \<and> history c = Some (take (Suc i) xs)"
  using history_prefix by (metis in_set_conv_nth)

lemma between_drop:
  assumes "between (Some (xs ! i)) h = Some ys" and "history h = Some xs" and "i < length xs"
  shows "ys = drop (Suc i) xs"
proof -
  have "xs = take (Suc i) xs @ ys"
    by (rule between_after[OF assms(1,2) history_prefix[OF assms(2,3)]]) (use assms(3) in auto)
  then show ?thesis by (metis append_take_drop_id same_append_eq)
qed

end

locale strict_commit_graph = commit_graph +
  assumes between_extends: "between (Some c) h = Some ys \<Longrightarrow> history c = Some cs \<Longrightarrow> history h = Some (cs @ ys)"
begin

lemma between_on_chain:
  assumes "between (Some c) h = Some ys" and "history c = Some cs"
  shows "\<exists>xs. history h = Some xs \<and> c \<in> set xs"
  using between_extends[OF assms] history_last[OF assms(2)] by (metis Un_iff last_in_set set_append)

end

section \<open>The API is a strict commit graph\<close>

text \<open>The objects a server has; git names a commit by forty lower-case digits.\<close>

definition git_objects :: "commit_links \<Rightarrow> commit_links" where
  "git_objects objects = filter (\<lambda>(c, ps). is_full_sha c) objects"

text \<open>
  The objects of a repository never change: a page shows some of them, chosen by the server for the
  commit asked for, with the dates it gives.
\<close>

definition github_listing ::
    "commit_links \<Rightarrow> (jstr \<Rightarrow> jstr option) \<Rightarrow> (jstr \<Rightarrow> ((jstr \<Rightarrow> bool) \<times> bool) option) \<Rightarrow> jstr \<Rightarrow> (commit_item list \<times> bool) option" where
  "github_listing objects dates shown sha =
     map_option (\<lambda>(visible, cut).
         (map (\<lambda>(c, ps). \<lparr>ci_sha = c, ci_parents = ps, ci_date = dates c\<rparr>) (filter (\<lambda>(c, ps). visible c) (git_objects objects)), cut))
       (shown sha)"

definition history_of :: "commit_links \<Rightarrow> jstr \<Rightarrow> jstr list option" where
  "history_of objects h = (case first_parent_chain (git_objects objects) h None of Some (Inr xs) \<Rightarrow> Some xs | _ \<Rightarrow> None)"

definition api_between :: "(jstr \<Rightarrow> (commit_item list \<times> bool) option) \<Rightarrow> jstr option \<Rightarrow> jstr \<Rightarrow> jstr list option" where
  "api_between listing c h =
     (case api_rev_list listing \<lparr>range_from = c, range_to = h\<rparr> of Some (Inr cs) \<Rightarrow> Some cs | _ \<Rightarrow> None)"

lemma history_of_iff: "history_of objects h = Some xs \<longleftrightarrow> fp_walk (git_objects objects) (Some h) (rev xs) None"
  using first_parent_chain_iff[of "git_objects objects" h None xs]
  by (auto simp: history_of_def split: option.splits sum.splits)

lemma fp_walk_split:
  "fp_walk objects c (xs @ y # ys) e \<longleftrightarrow> fp_walk objects c xs (Some y) \<and> fp_walk objects (Some y) (y # ys) e"
  by (induction xs arbitrary: c) (auto split: option.splits)

text \<open>Two walks from one commit follow each other: the shorter one is a part of the longer one.\<close>

lemma fp_walk_prefix:
  "fp_walk objects c zs (Some d) \<Longrightarrow> fp_walk objects c ws None \<Longrightarrow> \<exists>us. ws = zs @ d # us"
proof (induction zs arbitrary: c ws)
  case Nil
  then show ?case by (cases ws) auto
next
  case (Cons z zs)
  then show ?case by (cases ws) (auto split: option.splits)
qed

lemma fp_walk_extend: "fp_walk objects c zs (Some d) \<Longrightarrow> fp_walk objects (Some d) us e \<Longrightarrow> fp_walk objects c (zs @ us) e"
  by (induction zs arbitrary: c) (auto split: option.splits)

lemma fp_walk_mono:
  assumes "\<And>c ps. node_of page c = Some ps \<Longrightarrow> node_of objects c = Some ps"
  shows "fp_walk page c xs e \<Longrightarrow> fp_walk objects c xs e"
  by (induction xs arbitrary: c) (auto split: option.splits dest: assms)

lemma map_of_filter_keys: "map_of (filter (\<lambda>(c, ps). P c) xs) c = (if P c then map_of xs c else None)"
  by (induction xs) auto

lemma node_of_page:
  assumes "node_of (filter (\<lambda>(c, ps). visible c) objects) c = Some ps"
  shows "node_of objects c = Some ps"
  using assms by (simp add: node_of_def rev_filter map_of_filter_keys split: if_splits)

lemma fp_walk_page: "fp_walk (filter (\<lambda>(c, ps). visible c) objects) c xs e \<Longrightarrow> fp_walk objects c xs e"
  by (erule fp_walk_mono[rotated]) (rule node_of_page)

lemma dated_chain_shas: "dated_chain items shas = Inr cs \<Longrightarrow> map fst cs = shas"
  by (induction shas arbitrary: cs) (auto split: option.splits)

text \<open>The dated chain and the plain one are the same commits.\<close>

lemma api_commits_between:
  assumes "api_first_parent_commits listing \<lparr>range_from = c, range_to = h\<rparr> = Some (Inr cs)"
  shows "api_between listing c h = Some (map fst cs)"
  using assms by (auto simp: api_first_parent_commits_def api_between_def api_rev_list_def dated_chain_shas)

lemma parent_links_page:
  "parent_links (map (\<lambda>(c, ps). \<lparr>ci_sha = c, ci_parents = ps, ci_date = dates c\<rparr>) xs) = xs"
  by (induction xs) (auto simp: parent_links_def)

lemma load_chain_InrD:
  assumes "load_chain listing \<lparr>range_from = c, range_to = h\<rparr> = Some (Inr (items, chain))"
  shows "listing h = Some (items, False) \<and> first_parent_chain (parent_links items) h c = Some (Inr chain)"
proof (cases "listing h")
  case None
  with assms show ?thesis by (simp add: load_chain_def split: if_splits)
next
  case (Some p)
  obtain its truncated where p: "p = (its, truncated)" by (cases p)
  from assms Some p obtain z where "first_parent_chain (parent_links its) h c = Some z" "\<not> truncated"
    "(case z of Inl e \<Rightarrow> Inl (Chain_error e) | Inr chain \<Rightarrow> Inr (its, chain)) = Inr (items, chain)"
    by (auto simp: load_chain_def split: if_splits)
  with Some p show ?thesis by (cases z) auto
qed

text \<open>What the API returns is a walk through the objects.\<close>

lemma api_between_walk:
  assumes "api_between (github_listing objects dates shown) c h = Some ys"
  shows "fp_walk (git_objects objects) (Some h) (rev ys) c \<and> c \<notin> Some ` set ys"
proof -
  from assms obtain items where load: "load_chain (github_listing objects dates shown) \<lparr>range_from = c, range_to = h\<rparr> = Some (Inr (items, ys))"
    by (auto simp: api_between_def api_rev_list_def split: option.splits sum.splits)
  from load obtain visible where items: "items = map (\<lambda>(c, ps). \<lparr>ci_sha = c, ci_parents = ps, ci_date = dates c\<rparr>)
      (filter (\<lambda>(c, ps). visible c) (git_objects objects))"
    and chain: "first_parent_chain (parent_links items) h c = Some (Inr ys)"
    using load_chain_InrD[OF load] by (auto simp: github_listing_def)
  from chain have "fp_walk (filter (\<lambda>(c, ps). visible c) (git_objects objects)) (Some h) (rev ys) c" "c \<notin> Some ` set ys"
    by (simp_all add: first_parent_chain_iff items parent_links_page)
  then show ?thesis using fp_walk_page by blast
qed

lemma history_of_cut:
  assumes "history_of objects h = Some (cs @ c # ys)"
  shows "history_of objects c = Some (cs @ [c])" and "fp_walk (git_objects objects) (Some h) (rev ys) (Some c)"
  using assms fp_walk_split[of "git_objects objects" "Some h" "rev ys" c "rev cs" None] by (simp_all add: history_of_iff)

lemma fp_walk_nodes: "fp_walk objects c xs e \<Longrightarrow> s \<in> set xs \<Longrightarrow> node_of objects s \<noteq> None"
  by (induction xs arbitrary: c) (auto split: option.splits)

lemma git_object_lower:
  assumes "node_of (git_objects objects) s \<noteq> None"
  shows "to_lower s = s"
proof -
  from assms have "s \<in> fst ` set (git_objects objects)" by (simp add: node_of_def map_of_eq_None_iff)
  then show ?thesis by (auto simp: git_objects_def is_full_sha_def)
qed

interpretation api: strict_commit_graph "history_of objects" "api_between (github_listing objects dates shown)"
  for objects dates shown
proof
  fix h xs assume h: "history_of objects h = Some xs"
  then have w: "fp_walk (git_objects objects) (Some h) (rev xs) None" by (simp add: history_of_iff)
  then have "xs \<noteq> []" by auto
  moreover from this w have "last xs = h" by (cases xs rule: rev_cases) auto
  moreover have "distinct xs" using fp_walk_distinct[OF w] by simp
  ultimately show "xs \<noteq> [] \<and> last xs = h \<and> distinct xs" by blast
next
  fix h xs i assume h: "history_of objects h = Some xs" and i: "i < length xs"
  then have "history_of objects h = Some (take i xs @ xs ! i # drop (Suc i) xs)" by (simp add: id_take_nth_drop[symmetric])
  from history_of_cut(1)[OF this] i show "history_of objects (xs ! i) = Some (take (Suc i) xs)"
    by (simp add: take_Suc_conv_app_nth)
next
  fix h xs s assume "history_of objects h = Some xs" and "s \<in> set xs"
  then have "node_of (git_objects objects) s \<noteq> None" using fp_walk_nodes[of "git_objects objects" "Some h" "rev xs" None s] by (simp add: history_of_iff)
  then show "to_lower s = s" by (rule git_object_lower)
next
  fix h xs assume "api_between (github_listing objects dates shown) None h = Some xs"
  then show "history_of objects h = Some xs" using api_between_walk by (simp add: history_of_iff)
next
  fix c h ys xs cs
  assume ys: "api_between (github_listing objects dates shown) (Some c) h = Some ys"
    and xs: "history_of objects h = Some xs" and cs: "history_of objects c = Some cs" and c: "c \<in> set xs"
  from c obtain as bs where split: "xs = as @ c # bs" by (meson split_list)
  from history_of_cut[OF xs[unfolded split]] cs have walk: "fp_walk (git_objects objects) (Some h) (rev bs) (Some c)" "cs = as @ [c]" by auto
  have "distinct xs" using fp_walk_distinct[of "git_objects objects" "Some h" "rev xs" None] xs by (simp add: history_of_iff)
  then have "rev ys = rev bs"
    using fp_walk_unique[OF _ walk(1), of "rev ys"] api_between_walk[OF ys] split by fastforce
  with walk(2) split show "xs = cs @ ys" by simp
next
  fix c h ys cs
  assume ys: "api_between (github_listing objects dates shown) (Some c) h = Some ys" and cs: "history_of objects c = Some cs"
  from fp_walk_extend[of "git_objects objects" "Some h" "rev ys" c "rev cs" None] api_between_walk[OF ys] cs
  show "history_of objects h = Some (cs @ ys)" by (simp add: history_of_iff)
qed

end
