(* ===== verification/Worker_Chain.thy ===== *)
theory Worker_Chain
  imports Worker_Assign Github_ApiGraph
begin

text \<open>
  What the numbers of a branch mean. A space of rows is read as the set of its entries, pairs of a
  number and a commit, and compared with the first-parent history of the head, numbered from one.
  The theorems follow the runs of all workers on one repository: assignments, new epochs, repairs and
  the numbering of pull requests.
\<close>

section \<open>Entries\<close>

definition entry_of :: "merge_row \<Rightarrow> int \<times> jstr" where
  "entry_of r = (ms_seq r, ms_sha r)"

definition entries_of :: "int \<Rightarrow> jstr \<Rightarrow> int \<Rightarrow> seq_db \<Rightarrow> (int \<times> jstr) set" where
  "entries_of repository branch epoch db = entry_of ` set (space_rows repository branch epoch db)"

text \<open>The commits of a list numbered after a position.\<close>

fun numbered_from :: "int \<Rightarrow> jstr list \<Rightarrow> (int \<times> jstr) set" where
  "numbered_from k [] = {}"
| "numbered_from k (sha # shas) = insert (k + 1, sha) (numbered_from (k + 1) shas)"

lemma numbered_from_append:
  "numbered_from k (xs @ ys) = numbered_from k xs \<union> numbered_from (k + int (length xs)) ys"
  by (induction xs arbitrary: k) (simp_all add: algebra_simps)

lemma numbered_from_bounds: "(n, sha) \<in> numbered_from k shas \<Longrightarrow> k < n \<and> n \<le> k + int (length shas)"
  by (induction shas arbitrary: k) fastforce+

lemma numbered_from_nth: "i < length shas \<Longrightarrow> (k + int i + 1, shas ! i) \<in> numbered_from k shas"
proof (induction shas arbitrary: k i)
  case (Cons sha shas)
  then show ?case
  proof (cases i)
    case (Suc j)
    with Cons.IH[of j "k + 1"] Cons.prems show ?thesis by (simp add: algebra_simps)
  qed simp
qed simp

lemma numbered_fromE:
  assumes "(n, sha) \<in> numbered_from k shas"
  obtains i where "i < length shas" "n = k + int i + 1" "sha = shas ! i"
  using assms
proof (induction shas arbitrary: k thesis)
  case (Cons s shas)
  show ?case
  proof (cases "(n, sha) = (k + 1, s)")
    case True
    then show ?thesis using Cons.prems(1)[of 0] by simp
  next
    case False
    with Cons.prems(2) have "(n, sha) \<in> numbered_from (k + 1) shas" by auto
    from Cons.IH[OF _ this] obtain i where "i < length shas" "n = (k + 1) + int i + 1" "sha = shas ! i" by blast
    then show ?thesis using Cons.prems(1)[of "Suc i"] by simp
  qed
qed simp

lemma fst_numbered_from: "fst ` numbered_from k shas = {k + 1..k + int (length shas)}"
  by (induction shas arbitrary: k) auto

text \<open>The entries of a list up to a position are those of its first part.\<close>

lemma numbered_from_upto:
  "{(m, s) \<in> numbered_from k xs. m \<le> k + int n} = numbered_from k (take n xs)"
proof (induction xs arbitrary: k n)
  case (Cons x xs)
  show ?case
  proof (cases n)
    case 0
    then show ?thesis using numbered_from_bounds[of _ _ "k + 1" xs] by (auto dest: numbered_from_bounds)
  next
    case (Suc j)
    have "{(m, s) \<in> numbered_from k (x # xs). m \<le> k + int n} =
      insert (k + 1, x) {(m, s) \<in> numbered_from (k + 1) xs. m \<le> (k + 1) + int j}" using Suc by auto
    with Cons.IH[of "k + 1" j] Suc show ?thesis by simp
  qed
qed simp

text \<open>Rows that are not of a space do not matter to it.\<close>

lemma entries_of_append:
  "entries_of repository branch epoch (db\<lparr>merges := merges db @ rows\<rparr>) =
     entries_of repository branch epoch db \<union> entry_of ` set (filter (in_space repository branch epoch) rows)"
  by (simp add: entries_of_def space_rows_def image_Un)

lemma entries_of_map:
  assumes "\<And>r. in_space repository branch epoch (f r) = in_space repository branch epoch r" "\<And>r. entry_of (f r) = entry_of r"
  shows "entries_of repository branch epoch (db\<lparr>merges := map f (merges db)\<rparr>) = entries_of repository branch epoch db"
  using assms by (auto simp: entries_of_def space_rows_def image_iff) metis+

lemma entries_of_cong: "merges db' = merges db \<Longrightarrow> entries_of repository branch epoch db' = entries_of repository branch epoch db"
  by (simp add: entries_of_def space_rows_def)

lemma entries_unique:
  assumes "table_ok (merges db)" "(n, s) \<in> entries_of repository branch epoch db" "(n, t) \<in> entries_of repository branch epoch db"
  shows "s = t"
  using assms(2,3) space_keys_distinct(1)[OF assms(1), of repository branch epoch]
  by (auto simp: entries_of_def entry_of_def distinct_map inj_on_def)

section \<open>The statements on entries\<close>

definition key_space :: "merge_insert \<Rightarrow> int \<times> jstr \<times> int" where
  "key_space e = (in_repository e, in_branch e, in_epoch e)"

lemma upsert_entries:
  assumes "upsert_merge_sequence e db = Some db'"
  shows "entries_of repository branch epoch db' =
      (if key_space e = (repository, branch, epoch)
       then insert (in_seq e, in_sha e) (entries_of repository branch epoch db)
       else entries_of repository branch epoch db)"
    and "table_ok (merges db')" "spaces db' = spaces db" "repos db' = repos db" "db_now db' = db_now db"
proof -
  let ?new = "new_merge_row e"
  show "entries_of repository branch epoch db' =
      (if key_space e = (repository, branch, epoch)
       then insert (in_seq e, in_sha e) (entries_of repository branch epoch db)
       else entries_of repository branch epoch db)"
  proof (cases "find (\<lambda>r. pk_of r = pk_of ?new) (merges db)")
    case None
    with assms have "db' = db\<lparr>merges := merges db @ [?new]\<rparr>"
      by (auto simp: upsert_merge_sequence_def with_merges_Some_iff)
    then show ?thesis
      by (auto simp: entries_of_append in_space_def key_space_def new_merge_row_def entry_of_def)
  next
    case (Some r)
    let ?f = "\<lambda>r. if pk_of r = pk_of ?new then r\<lparr>ms_pr := coalesce (ms_pr r) (in_pr e)\<rparr> else r"
    from assms Some have sha: "ms_sha r = in_sha e" and db': "db' = db\<lparr>merges := map ?f (merges db)\<rparr>"
      by (auto simp: upsert_merge_sequence_def with_merges_Some_iff split: if_splits)
    have same: "entries_of repository branch epoch db' = entries_of repository branch epoch db"
      unfolding db' by (rule entries_of_map) (auto simp: in_space_def entry_of_def)
    from Some have r: "r \<in> set (merges db)" "pk_of r = pk_of ?new" by (auto simp: find_Some_iff)
    then have "in_space repository branch epoch r \<and> entry_of r = (in_seq e, in_sha e)"
      if "key_space e = (repository, branch, epoch)"
      using that sha by (auto simp: in_space_def key_space_def pk_of_def new_merge_row_def entry_of_def)
    with same r show ?thesis by (force simp: entries_of_def space_rows_iff)
  qed
  show "table_ok (merges db')" "spaces db' = spaces db" "repos db' = repos db" "db_now db' = db_now db"
    using assms by (auto simp: upsert_merge_sequence_def with_merges_Some_iff split: option.splits if_splits)
qed

lemma number_commits_Cons:
  "number_commits k (c # cs) = \<lparr>nc_seq = k + 1, nc_sha = fst c, nc_committed_at = snd c\<rparr> # number_commits (k + 1) cs"
proof -
  have "zip [0..<length (c # cs)] (c # cs) = (0, c) # map (\<lambda>(i, x). (Suc i, x)) (zip [0..<length cs] cs)"
    by (simp add: upt_conv_Cons zip_Cons1 map_Suc_upt[symmetric] zip_map1 del: upt_Suc)
  then show ?thesis by (cases c) (auto simp: number_commits_def)
qed

lemma number_commits_simps [simp]: "number_commits k [] = []" "length (number_commits k cs) = length cs"
  by (simp_all add: number_commits_def)

text \<open>Writing a list of numbered commits adds them to the entries of the space and to no other.\<close>

lemma upsert_all_entries:
  assumes "upsert_all look repository branch epoch (number_commits k cs) db = Some db'"
  shows "entries_of repository' branch' epoch' db' =
      (if (repository', branch', epoch') = (repository, branch, epoch)
       then entries_of repository branch epoch db \<union> numbered_from k (map fst cs)
       else entries_of repository' branch' epoch' db)"
    and "cs \<noteq> [] \<or> table_ok (merges db) \<Longrightarrow> table_ok (merges db')"
    and "spaces db' = spaces db" "repos db' = repos db" "db_now db' = db_now db"
  using assms
proof (induction cs arbitrary: k db)
  case (Cons c cs)
  {
    case 1
    then obtain e db1 where e: "insert_of look repository branch epoch \<lparr>nc_seq = k + 1, nc_sha = fst c, nc_committed_at = snd c\<rparr> = Some e"
      and up: "upsert_merge_sequence e db = Some db1"
      and rest: "upsert_all look repository branch epoch (number_commits (k + 1) cs) db1 = Some db'"
      by (auto simp: number_commits_Cons bind_eq_Some_conv)
    from e have "key_space e = (repository, branch, epoch)" "in_seq e = k + 1" "in_sha e = fst c"
      by (auto simp: insert_of_def key_space_def)
    with Cons.IH(1)[OF rest] upsert_entries(1)[OF up] show ?case
      by auto
  next
    case 2
    then obtain e db1 where "upsert_merge_sequence e db = Some db1"
      "upsert_all look repository branch epoch (number_commits (k + 1) cs) db1 = Some db'"
      by (auto simp: number_commits_Cons bind_eq_Some_conv)
    with Cons.IH(2) upsert_entries(2) show ?case by blast
  next
    case 3
    then show ?case using Cons.IH(3) upsert_entries(3) by (fastforce simp: number_commits_Cons bind_eq_Some_conv)
  next
    case 4
    then show ?case using Cons.IH(4) upsert_entries(4) by (fastforce simp: number_commits_Cons bind_eq_Some_conv)
  next
    case 5
    then show ?case using Cons.IH(5) upsert_entries(5) by (fastforce simp: number_commits_Cons bind_eq_Some_conv)
  }
qed auto

lemma copy_entries:
  assumes "copy_sequences_up_to repository branch old_epoch new_epoch limit db = Some (db', n)"
    and "\<And>r. r \<in> set (merges db) \<Longrightarrow> \<not> in_space repository branch new_epoch r" and "old_epoch \<noteq> new_epoch"
  shows "entries_of repository branch new_epoch db' = {(m, s) \<in> entries_of repository branch old_epoch db. m \<le> limit}"
    and "(repository', branch', epoch') \<noteq> (repository, branch, new_epoch) \<Longrightarrow>
      entries_of repository' branch' epoch' db' = entries_of repository' branch' epoch' db"
    and "table_ok (merges db')" "spaces db' = spaces db" "repos db' = repos db" "db_now db' = db_now db"
proof -
  let ?new = "copies_up_to repository branch old_epoch new_epoch limit db"
  from assms(1) have db': "db' = db\<lparr>merges := merges db @ ?new\<rparr>" "table_ok (merges db @ ?new)"
    by (auto simp: copy_sequences_up_to_def Let_def with_merges_Some_iff)
  have new: "?new = map (copied_row new_epoch) (filter (\<lambda>r. ms_seq r \<le> limit) (space_rows repository branch old_epoch db))"
    unfolding copies_up_to_def
  proof (rule filter_True, intro ballI notI)
    fix c assume "c \<in> set (map (copied_row new_epoch) (filter (\<lambda>r. ms_seq r \<le> limit) (space_rows repository branch old_epoch db)))"
      and "pk_of c \<in> pk_of ` set (merges db)"
    then obtain r where "r \<in> set (merges db)" "in_space repository branch new_epoch r"
      by (auto simp: space_rows_iff in_space_def copied_row_def new_merge_row_def pk_of_def)
    with assms(2) show False by blast
  qed
  have none: "entries_of repository branch new_epoch db = {}"
    using assms(2) by (simp add: entries_of_def space_rows_def filter_empty_conv)
  show "entries_of repository branch new_epoch db' = {(m, s) \<in> entries_of repository branch old_epoch db. m \<le> limit}"
  proof -
    have "filter (in_space repository branch new_epoch) ?new = ?new"
      unfolding new by (intro filter_True) (auto simp: space_rows_iff in_space_def copied_row_def new_merge_row_def)
    moreover have "entry_of (copied_row new_epoch r) = entry_of r" for r
      by (simp add: entry_of_def copied_row_def new_merge_row_def)
    ultimately have "entries_of repository branch new_epoch db' =
        entry_of ` {r \<in> set (space_rows repository branch old_epoch db). ms_seq r \<le> limit}"
      unfolding db'(1) entries_of_append none by (simp add: new image_image)
    then show ?thesis by (auto simp: entries_of_def entry_of_def)
  qed
  show "entries_of repository' branch' epoch' db' = entries_of repository' branch' epoch' db"
    if "(repository', branch', epoch') \<noteq> (repository, branch, new_epoch)"
    using that unfolding db'(1) entries_of_append new
    by (auto simp: space_rows_iff in_space_def copied_row_def new_merge_row_def)
  show "table_ok (merges db')" "spaces db' = spaces db" "repos db' = repos db" "db_now db' = db_now db"
    using db' by auto
qed

section \<open>The invariant\<close>

text \<open>
  A space without a head has no rows; one with a head has exactly the history of the head, and its
  counter is the length of the history. Later epochs have no rows, and neither has a branch without a space.
\<close>

definition chain_ok :: "(jstr \<Rightarrow> jstr list option) \<Rightarrow> (int \<times> jstr) set \<Rightarrow> space_row \<Rightarrow> bool" where
  "chain_ok history entries sp \<longleftrightarrow>
     (case sp_head sp of
        None \<Rightarrow> entries = {} \<and> sp_head_seq sp = 0
      | Some h \<Rightarrow> \<exists>xs. history h = Some xs \<and> entries = numbered_from 0 xs \<and> sp_head_seq sp = int (length xs))"

definition space_ok :: "(jstr \<Rightarrow> jstr list option) \<Rightarrow> seq_db \<Rightarrow> int \<Rightarrow> jstr \<Rightarrow> bool" where
  "space_ok history db repository branch \<longleftrightarrow>
     (case find_sequence_space repository branch db of
        None \<Rightarrow> \<forall>epoch. entries_of repository branch epoch db = {}
      | Some sp \<Rightarrow> chain_ok history (entries_of repository branch (sp_epoch sp) db) sp \<and>
          (\<forall>epoch > sp_epoch sp. entries_of repository branch epoch db = {}))"

definition seq_inv :: "(jstr \<Rightarrow> jstr list option) \<Rightarrow> seq_db \<Rightarrow> bool" where
  "seq_inv history db \<longleftrightarrow> table_ok (merges db) \<and> (\<forall>repository branch. space_ok history db repository branch)"

text \<open>What the graph answers are ranges of the history.\<close>

definition follows :: "(jstr option \<Rightarrow> jstr \<Rightarrow> jstr list option) \<Rightarrow> graph \<Rightarrow> bool" where
  "follows between g \<longleftrightarrow>
     (\<forall>c h cs. first_parent_commits g c h = Inr cs \<longrightarrow> between c h = Some (map fst cs)) \<and>
     (\<forall>c h cs. first_parent_rev_list g c h = Inr cs \<longrightarrow> between c h = Some cs)"

text \<open>A change to one space; the others look the same.\<close>

definition same_elsewhere :: "int \<Rightarrow> jstr \<Rightarrow> seq_db \<Rightarrow> seq_db \<Rightarrow> bool" where
  "same_elsewhere repository branch db db' \<longleftrightarrow>
     (\<forall>repository' branch'. (repository', branch') \<noteq> (repository, branch) \<longrightarrow>
        find_sequence_space repository' branch' db' = find_sequence_space repository' branch' db \<and>
        (\<forall>epoch. entries_of repository' branch' epoch db' = entries_of repository' branch' epoch db))"

lemma same_elsewhere_refl [simp]: "same_elsewhere repository branch db db"
  by (simp add: same_elsewhere_def)

lemma same_elsewhere_trans:
  "same_elsewhere repository branch db db' \<Longrightarrow> same_elsewhere repository branch db' db'' \<Longrightarrow> same_elsewhere repository branch db db''"
  by (auto simp: same_elsewhere_def)

lemma space_ok_cong:
  assumes "find_sequence_space repository branch db' = find_sequence_space repository branch db"
    and "\<And>epoch. entries_of repository branch epoch db' = entries_of repository branch epoch db"
  shows "space_ok history db' repository branch = space_ok history db repository branch"
  using assms by (cases "find_sequence_space repository branch db") (simp_all add: space_ok_def)

lemma seq_inv_change:
  assumes "seq_inv history db" "same_elsewhere repository branch db db'" "table_ok (merges db')" "space_ok history db' repository branch"
  shows "seq_inv history db'"
  unfolding seq_inv_def
proof (intro conjI allI)
  fix repository' branch'
  show "space_ok history db' repository' branch'"
  proof (cases "(repository', branch') = (repository, branch)")
    case False
    with assms(2) have "space_ok history db' repository' branch' = space_ok history db repository' branch'"
      by (intro space_ok_cong) (auto simp: same_elsewhere_def)
    with assms(1) show ?thesis by (simp add: seq_inv_def)
  qed (use assms(4) in simp)
qed fact

lemma seq_invD: "seq_inv history db \<Longrightarrow> table_ok (merges db)" "seq_inv history db \<Longrightarrow> space_ok history db repository branch"
  by (auto simp: seq_inv_def)

lemma space_okD:
  assumes "seq_inv history db" and "find_sequence_space repository branch db = Some sp"
  shows "chain_ok history (entries_of repository branch (sp_epoch sp) db) sp"
    and "epoch > sp_epoch sp \<Longrightarrow> entries_of repository branch epoch db = {}"
  using seq_invD(2)[OF assms(1), of repository branch] assms(2) by (auto simp: space_ok_def)

subsection \<open>Statements on the spaces\<close>

lemma update_space_same:
  assumes "update_space repository branch f db = Some db'" and "\<And>sp. space_key (f sp) = space_key sp"
  shows "same_elsewhere repository branch db db'" and "merges db' = merges db"
    and "entries_of repository' branch' epoch db' = entries_of repository' branch' epoch db"
    and "find_sequence_space repository branch db' = map_option f (find_sequence_space repository branch db)"
  using find_update_space[OF assms] entries_of_cong[of db' db]
  by (auto simp: same_elsewhere_def option.map_ident cong: option.map_cong)

lemma upsert_all_same:
  assumes "upsert_all look repository branch epoch (number_commits k cs) db = Some db'"
  shows "same_elsewhere repository branch db db'"
    and "find_sequence_space repository' branch' db' = find_sequence_space repository' branch' db"
  using upsert_all_entries[OF assms] by (auto simp: same_elsewhere_def find_sequence_space_def)

text \<open>A statement that leaves the head, its number and the epoch of the space keeps the invariant.\<close>

lemma update_space_inv:
  assumes "seq_inv history db" "update_space repository branch f db = Some db'"
    and "\<And>sp. space_key (f sp) = space_key sp \<and> sp_head (f sp) = sp_head sp \<and> sp_head_seq (f sp) = sp_head_seq sp \<and>
      sp_epoch (f sp) = sp_epoch sp"
  shows "seq_inv history db'"
proof (rule seq_inv_change[OF assms(1)])
  show "same_elsewhere repository branch db db'" using update_space_same(1)[OF assms(2)] assms(3) by blast
  show "table_ok (merges db')" using update_space_same(2)[OF assms(2)] assms(3) seq_invD(1)[OF assms(1)] by simp
  show "space_ok history db' repository branch"
    using seq_invD(2)[OF assms(1), of repository branch] update_space_same(3,4)[OF assms(2)] assms(3)
    by (auto simp: space_ok_def chain_ok_def split: option.splits)
qed

lemma add_space_inv:
  assumes "seq_inv history db" and "find_sequence_space repository branch db = None"
    and "space_key sp = (repository, branch)" "sp_head sp = None" "sp_head_seq sp = 0"
    and db': "db' = db\<lparr>spaces := spaces db @ [sp]\<rparr>"
  shows "seq_inv history db'" "same_elsewhere repository branch db db'"
proof -
  have find: "find_sequence_space repository' branch' db' =
      (if (repository', branch') = (repository, branch) then Some sp else find_sequence_space repository' branch' db)"
    for repository' branch'
    using assms(2,3) by (auto simp: db' find_sequence_space_def find_append split: option.split)
  have entries: "entries_of repository' branch' epoch db' = entries_of repository' branch' epoch db" for repository' branch' epoch
    by (rule entries_of_cong) (simp add: db')
  show same: "same_elsewhere repository branch db db'" using find entries by (simp add: same_elsewhere_def)
  show "seq_inv history db'"
  proof (rule seq_inv_change[OF assms(1) same])
    show "table_ok (merges db')" using seq_invD(1)[OF assms(1)] by (simp add: db')
    show "space_ok history db' repository branch"
      using seq_invD(2)[OF assms(1), of repository branch] assms(2,4,5) by (simp add: space_ok_def find entries chain_ok_def)
  qed
qed

lemma ensure_space_inv:
  assumes "seq_inv history db" "ensure_sequence_space repository branch db = Some db'"
  shows "seq_inv history db'" "same_elsewhere repository branch db db'"
proof -
  have "seq_inv history db' \<and> same_elsewhere repository branch db db'"
  proof (cases "find_sequence_space repository branch db")
    case None
    with assms(2) have "db' = db\<lparr>spaces := spaces db @ [new_space repository branch]\<rparr>"
      by (auto simp: ensure_sequence_space_def with_spaces_Some_iff)
    from add_space_inv[OF assms(1) None _ _ _ this] show ?thesis by (simp add: new_space_def space_key_def)
  qed (use assms in \<open>auto simp: ensure_sequence_space_def\<close>)
  then show "seq_inv history db'" "same_elsewhere repository branch db db'" by blast+
qed

subsection \<open>Assigning\<close>

text \<open>What a space looks like after its head was advanced.\<close>

lemma advance_head_space:
  assumes "advance_head repository branch sha seq db = Some db'" and "find_sequence_space repository branch db = Some sp"
  shows "same_elsewhere repository branch db db'" "merges db' = merges db"
    and "\<exists>sp'. find_sequence_space repository branch db' = Some sp' \<and> sp_epoch sp' = sp_epoch sp \<and>
      sp_head sp' = Some sha \<and> sp_head_seq sp' = seq"
  using update_space_same[OF assms(1)[unfolded advance_head_def]] assms(2) by (auto simp: space_key_def)

lemma advanced_space_ok:
  assumes "advance_head repository branch sha (int (length xs)) db = Some db'" and "history sha = Some xs"
    and "find_sequence_space repository branch db = Some sp" and "entries_of repository branch (sp_epoch sp) db = numbered_from 0 xs"
    and "\<And>epoch. epoch > sp_epoch sp \<Longrightarrow> entries_of repository branch epoch db = {}"
  shows "space_ok history db' repository branch"
  using advance_head_space[OF assms(1,3)] assms(2,4,5) entries_of_cong[of db' db]
  by (auto simp: space_ok_def chain_ok_def)

lemma stale_outcome_inv:
  assumes "seq_inv history (wk_seq w)" "stale_outcome repository branch reason w = (w', r)"
  shows "seq_inv history (wk_seq w')"
proof (cases "mark_stale repository branch reason (wk_seq w)")
  case None
  with assms show ?thesis by (simp add: stale_outcome_def)
next
  case (Some db)
  have "seq_inv history db"
  proof (cases "find_sequence_space repository branch (wk_seq w) = None")
    case False
    with Some have "update_space repository branch (\<lambda>sp. sp\<lparr>sp_state := Space_stale, sp_error := Some (take 500 reason)\<rparr>) (wk_seq w) = Some db"
      by (simp add: mark_stale_def Let_def)
    then show ?thesis by (rule update_space_inv[OF assms(1)]) (simp add: space_key_def)
  next
    case True
    let ?sp = "(new_space repository branch)\<lparr>sp_state := Space_stale, sp_error := Some (take 500 reason)\<rparr>"
    from True Some have "db = (wk_seq w)\<lparr>spaces := spaces (wk_seq w) @ [?sp]\<rparr>"
      by (simp add: mark_stale_def Let_def with_spaces_Some_iff)
    from add_space_inv(1)[OF assms(1) True _ _ _ this] show ?thesis by (simp add: new_space_def space_key_def)
  qed
  with assms(2) Some show ?thesis by (auto simp: stale_outcome_def)
qed

text \<open>The ways the two functions end.\<close>

lemma assign_in_space_cases [consumes 1, case_names same stale commits]:
  assumes "assign_in_space g look publishes repository branch correlation w db = (w', r)"
  obtains "w' = w"
  | reason where "stale_outcome repository branch reason w = (w', r)"
  | sp new_head cs v where "find_sequence_space repository branch db = Some sp"
      "first_parent_commits g (sp_head sp) new_head = Inr cs"
      "assign_commits look repository branch correlation sp new_head cs (w\<lparr>wk_seq := db\<rparr>) = Some v" "wk_seq w' = wk_seq v"
proof (cases "find_sequence_space repository branch db")
  case None
  with assms that(1) show ?thesis by (simp add: assign_in_space_def)
next
  case sp: (Some sp)
  show ?thesis
  proof (cases "resolve_head g branch")
    case (Inl e)
    with assms sp that(2) show ?thesis by (simp add: assign_in_space_def)
  next
    case head: (Inr found)
    show ?thesis
    proof (cases found)
      case None
      with assms sp head that(1) show ?thesis by (simp add: assign_in_space_def)
    next
      case new_head: (Some new_head)
      let ?ancestor = "case sp_head sp of None \<Rightarrow> Inr True | Some h \<Rightarrow> if h = new_head then Inr True else is_ancestor g h new_head"
      note body = assms[unfolded assign_in_space_def sp head new_head, simplified]
      show ?thesis
      proof (cases ?ancestor)
        case (Inl e)
        with body that(2) show ?thesis by simp
      next
        case ancestor: (Inr yes)
        show ?thesis
        proof (cases "yes \<and> (\<exists>cs. first_parent_commits g (sp_head sp) new_head = Inr cs)")
          case False
          with body ancestor that(1,2) show ?thesis by (cases yes; cases "first_parent_commits g (sp_head sp) new_head") auto
        next
          case True
          then obtain cs where cs: "first_parent_commits g (sp_head sp) new_head = Inr cs" by blast
          with True body ancestor that(1) that(3)[OF sp cs] show ?thesis
            by (cases "assign_commits look repository branch correlation sp new_head cs (w\<lparr>wk_seq := db\<rparr>)")
              (auto simp: Let_def publish_event_def split: if_splits)
        qed
      qed
    qed
  qed
qed

lemma assign_sequence_cases [consumes 1, case_names same space]:
  assumes "assign_sequence g look locked publishes repository branch correlation w = (w', r)"
  obtains "w' = w"
  | db where "ensure_sequence_space repository branch (wk_seq w) = Some db"
      "assign_in_space g look publishes repository branch correlation w db = (w', r)"
  using assms by (auto simp: assign_sequence_def split: option.splits if_splits)

text \<open>
  In a strict graph a range from the stored head completes its history, so that the rows written after
  the stored ones are those of the new head.
\<close>

context strict_commit_graph
begin

lemma commits_complete_chain:
  assumes "follows between g" "first_parent_commits g (sp_head sp) new_head = Inr cs"
    and "chain_ok history entries sp"
  obtains xs where "history new_head = Some xs" "sp_head_seq sp + int (length cs) = int (length xs)"
    "entries \<union> numbered_from (sp_head_seq sp) (map fst cs) = numbered_from 0 xs"
proof (cases "sp_head sp")
  case None
  with assms have "between None new_head = Some (map fst cs)" by (auto simp: follows_def)
  from between_start[OF this] None assms(3) that[of "map fst cs"] show ?thesis by (simp add: chain_ok_def)
next
  case (Some h)
  with assms have "between (Some h) new_head = Some (map fst cs)" by (auto simp: follows_def)
  moreover from Some assms(3) obtain xs where "history h = Some xs" "entries = numbered_from 0 xs" "sp_head_seq sp = int (length xs)"
    by (auto simp: chain_ok_def)
  ultimately show ?thesis using between_extends[of h new_head "map fst cs" xs] that[of "xs @ map fst cs"]
    by (simp add: numbered_from_append)
qed

lemma assign_commits_inv:
  assumes "seq_inv history (wk_seq w)" "follows between g" "find_sequence_space repository branch (wk_seq w) = Some sp"
    and "first_parent_commits g (sp_head sp) new_head = Inr cs"
    and "assign_commits look repository branch correlation sp new_head cs w = Some w'"
  shows "seq_inv history (wk_seq w')" "same_elsewhere repository branch (wk_seq w) (wk_seq w')"
proof -
  let ?db = "wk_seq w"
  from assms(5) obtain db1 where up: "upsert_all look repository branch (sp_epoch sp) (number_commits (sp_head_seq sp) cs) ?db = Some db1"
    and adv: "advance_head repository branch new_head (sp_head_seq sp + int (length cs)) db1 = Some (wk_seq w')"
    by (auto simp: assign_commits_def Let_def bind_eq_Some_conv request_queue_def requeue_links_def split: if_splits)
  note chain = space_okD(1)[OF assms(1,3)]
  obtain xs where xs: "history new_head = Some xs" "sp_head_seq sp + int (length cs) = int (length xs)"
    "entries_of repository branch (sp_epoch sp) ?db \<union> numbered_from (sp_head_seq sp) (map fst cs) = numbered_from 0 xs"
    using commits_complete_chain[OF assms(2,4) chain] by blast
  have find: "find_sequence_space repository branch db1 = Some sp" using upsert_all_same(2)[OF up] assms(3) by simp
  show same: "same_elsewhere repository branch ?db (wk_seq w')"
    using same_elsewhere_trans upsert_all_same(1)[OF up] advance_head_space(1)[OF adv find] by blast
  show "seq_inv history (wk_seq w')"
  proof (rule seq_inv_change[OF assms(1) same])
    show "table_ok (merges (wk_seq w'))"
      using advance_head_space(2)[OF adv find] upsert_all_entries(2)[OF up] seq_invD(1)[OF assms(1)] by simp
    show "space_ok history (wk_seq w') repository branch"
    proof (rule advanced_space_ok[where history = history and xs = xs and sp = sp, OF adv[unfolded xs(2)] xs(1) find])
      show "entries_of repository branch (sp_epoch sp) db1 = numbered_from 0 xs"
        using upsert_all_entries(1)[OF up, of repository branch "sp_epoch sp"] xs(3) by simp
      show "entries_of repository branch epoch db1 = {}" if "epoch > sp_epoch sp" for epoch
        using upsert_all_entries(1)[OF up, of repository branch epoch] space_okD(2)[OF assms(1,3) that] that by auto
    qed
  qed
qed

lemma assign_in_space_inv:
  assumes "seq_inv history (wk_seq w)" "seq_inv history db" "follows between g"
    and "assign_in_space g look publishes repository branch correlation w db = (w', r)"
  shows "seq_inv history (wk_seq w')"
  using assms(4)
proof (cases rule: assign_in_space_cases)
  case (commits sp new_head cs v)
  with assign_commits_inv(1)[of "w\<lparr>wk_seq := db\<rparr>"] assms(2,3) show ?thesis by simp
qed (use assms(1) stale_outcome_inv in blast)+

lemma assign_sequence_inv:
  assumes "seq_inv history (wk_seq w)" "follows between g"
    and "assign_sequence g look locked publishes repository branch correlation w = (w', r)"
  shows "seq_inv history (wk_seq w')"
  using assms(3)
proof (cases rule: assign_sequence_cases)
  case (space db)
  show ?thesis by (rule assign_in_space_inv[OF assms(1) ensure_space_inv(1)[OF assms(1) space(1)] assms(2) space(2)])
qed (use assms(1) in simp)

end

subsection \<open>New epochs\<close>

lemma bump_epoch_space:
  assumes "bump_epoch repository branch db = Some (db', new_epoch)" "find_sequence_space repository branch db = Some sp"
  shows "new_epoch = sp_epoch sp + 1" "same_elsewhere repository branch db db'" "merges db' = merges db"
    and "\<exists>sp'. find_sequence_space repository branch db' = Some sp' \<and> sp_epoch sp' = new_epoch"
proof -
  from assms obtain f where up: "update_space repository branch f db = Some db'" and e: "new_epoch = sp_epoch sp + 1"
    and f: "\<And>sp. space_key (f sp) = space_key sp" "\<And>sp. sp_epoch (f sp) = sp_epoch sp + 1"
    by (auto simp: bump_epoch_def space_key_def)
  show "new_epoch = sp_epoch sp + 1" by fact
  show "same_elsewhere repository branch db db'" "merges db' = merges db"
    using update_space_same[OF up f(1)] by blast+
  show "\<exists>sp'. find_sequence_space repository branch db' = Some sp' \<and> sp_epoch sp' = new_epoch"
    using update_space_same(4)[OF up f(1)] assms(2) f(2) e by simp
qed

text \<open>A fresh epoch holds the entries of the old one up to the position given.\<close>

lemma open_epoch_space:
  assumes opened: "open_epoch repository branch (sp_epoch sp) base_seq db = Some (db', new_epoch)"
    and sp: "find_sequence_space repository branch db = Some sp"
    and fresh: "\<forall>epoch > sp_epoch sp. entries_of repository branch epoch db = {}"
    and ok: "table_ok (merges db)"
  shows "new_epoch = sp_epoch sp + 1" "same_elsewhere repository branch db db'" "table_ok (merges db')"
    and "\<exists>sp'. find_sequence_space repository branch db' = Some sp' \<and> sp_epoch sp' = new_epoch"
    and "entries_of repository branch new_epoch db' =
      (if base_seq > 0 then {(m, s) \<in> entries_of repository branch (sp_epoch sp) db. m \<le> base_seq} else {})"
    and "epoch \<noteq> new_epoch \<Longrightarrow> entries_of repository branch epoch db' = entries_of repository branch epoch db"
proof -
  from opened obtain db1 where bump: "bump_epoch repository branch db = Some (db1, new_epoch)"
    by (auto simp: open_epoch_def bind_eq_Some_conv split: if_splits)
  note b = bump_epoch_space[OF bump sp]
  note e1 = entries_of_cong[OF b(3)]
  show "new_epoch = sp_epoch sp + 1" by (rule b(1))
  have none: "\<not> in_space repository branch new_epoch r" if "r \<in> set (merges db1)" for r
    using fresh b(1,3) that by (auto simp: entries_of_def space_rows_def filter_empty_conv)
  have "same_elsewhere repository branch db db' \<and> table_ok (merges db') \<and>
    (\<exists>sp'. find_sequence_space repository branch db' = Some sp' \<and> sp_epoch sp' = new_epoch) \<and>
    entries_of repository branch new_epoch db' =
      (if base_seq > 0 then {(m, s) \<in> entries_of repository branch (sp_epoch sp) db. m \<le> base_seq} else {}) \<and>
    (\<forall>epoch. epoch \<noteq> new_epoch \<longrightarrow> entries_of repository branch epoch db' = entries_of repository branch epoch db)"
  proof (cases "base_seq > 0")
    case True
    from opened bump True obtain n where
      copy: "copy_sequences_up_to repository branch (sp_epoch sp) new_epoch base_seq db1 = Some (db', n)"
      by (auto simp: open_epoch_def)
    have ne: "sp_epoch sp \<noteq> new_epoch" using b(1) by simp
    note c = copy_entries[OF copy none ne]
    have "same_elsewhere repository branch db1 db'"
      using c(2,4) by (auto simp: same_elsewhere_def find_sequence_space_def)
    with b(2) have "same_elsewhere repository branch db db'" by (rule same_elsewhere_trans)
    moreover have "find_sequence_space repository branch db' = find_sequence_space repository branch db1"
      using c(4) by (simp add: find_sequence_space_def)
    ultimately show ?thesis using c(1,2,3) b(4) True e1 by auto
  next
    case False
    with opened bump have "db' = db1" by (simp add: open_epoch_def)
    then show ?thesis using b False e1 fresh ok by auto
  qed
  then show "same_elsewhere repository branch db db'" "table_ok (merges db')"
    "\<exists>sp'. find_sequence_space repository branch db' = Some sp' \<and> sp_epoch sp' = new_epoch"
    "entries_of repository branch new_epoch db' =
      (if base_seq > 0 then {(m, s) \<in> entries_of repository branch (sp_epoch sp) db. m \<le> base_seq} else {})"
    "epoch \<noteq> new_epoch \<Longrightarrow> entries_of repository branch epoch db' = entries_of repository branch epoch db" by blast+
qed

lemma close_epoch_head:
  "close_epoch repository branch correlation trigger old_epoch new_epoch new_head to_seq w db = Some w' \<Longrightarrow>
   advance_head repository branch new_head to_seq db = Some (wk_seq w')"
  by (auto simp: close_epoch_def requeue_links_def request_queue_def)

text \<open>What a filled and closed epoch holds, in any state of the old one.\<close>

lemma new_epoch_entries:
  assumes opened: "open_epoch repository branch (sp_epoch sp) base_seq db = Some (db1, new_epoch)"
    and sp: "find_sequence_space repository branch db = Some sp"
    and fresh: "\<forall>epoch > sp_epoch sp. entries_of repository branch epoch db = {}"
    and ok: "table_ok (merges db)"
    and fill: "fill_epoch look repository branch new_epoch base_seq cs db1 = Some db2"
    and close: "close_epoch repository branch correlation trigger (sp_epoch sp) new_epoch new_head to_seq w db2 = Some w'"
  shows "same_elsewhere repository branch db (wk_seq w')" "table_ok (merges (wk_seq w'))"
    and "\<exists>sp'. find_sequence_space repository branch (wk_seq w') = Some sp' \<and> sp_epoch sp' = new_epoch \<and>
      sp_head sp' = Some new_head \<and> sp_head_seq sp' = to_seq"
    and "entries_of repository branch new_epoch (wk_seq w') =
      (if base_seq > 0 then {(m, s) \<in> entries_of repository branch (sp_epoch sp) db. m \<le> base_seq} else {}) \<union>
      numbered_from base_seq (map fst cs)"
    and "epoch \<noteq> new_epoch \<Longrightarrow> entries_of repository branch epoch (wk_seq w') = entries_of repository branch epoch db"
    and "new_epoch = sp_epoch sp + 1"
proof -
  note o = open_epoch_space[OF opened sp fresh ok]
  note f = upsert_all_entries[OF fill[unfolded fill_epoch_def]] upsert_all_same[OF fill[unfolded fill_epoch_def]]
  from o(4) f(7) obtain sp' where sp': "find_sequence_space repository branch db2 = Some sp'" "sp_epoch sp' = new_epoch" by auto
  note a = advance_head_space[OF close_epoch_head[OF close] sp'(1)]
  note ea = entries_of_cong[OF a(2)]
  show "same_elsewhere repository branch db (wk_seq w')"
    using same_elsewhere_trans[OF same_elsewhere_trans[OF o(2) f(6)] a(1)] .
  show "table_ok (merges (wk_seq w'))" using f(2) o(3) a(2) by simp
  show "\<exists>sp'. find_sequence_space repository branch (wk_seq w') = Some sp' \<and> sp_epoch sp' = new_epoch \<and>
      sp_head sp' = Some new_head \<and> sp_head_seq sp' = to_seq" using a(3) sp'(2) by auto
  show "entries_of repository branch new_epoch (wk_seq w') =
      (if base_seq > 0 then {(m, s) \<in> entries_of repository branch (sp_epoch sp) db. m \<le> base_seq} else {}) \<union>
      numbered_from base_seq (map fst cs)"
    using f(1)[of repository branch new_epoch] o(5) ea by simp
  show "entries_of repository branch epoch (wk_seq w') = entries_of repository branch epoch db" if "epoch \<noteq> new_epoch"
    using f(1)[of repository branch epoch] o(6)[OF that] ea that by simp
  show "new_epoch = sp_epoch sp + 1" by (rule o(1))
qed

text \<open>A transaction that opened, filled and closed a new epoch.\<close>

definition epoch_written ::
    "graph \<Rightarrow> lookups \<Rightarrow> int \<Rightarrow> jstr \<Rightarrow> int \<Rightarrow> jstr option \<Rightarrow> jstr \<Rightarrow> space_row \<Rightarrow> (jstr \<times> jstr) list \<Rightarrow> int \<Rightarrow> seq_db \<Rightarrow> seq_db \<Rightarrow> bool" where
  "epoch_written g look repository branch base_seq base_sha new_head sp cs new_epoch db db' \<longleftrightarrow>
     first_parent_commits g base_sha new_head = Inr cs \<and>
     (\<exists>correlation trigger w db1 db2 v.
        open_epoch repository branch (sp_epoch sp) base_seq db = Some (db1, new_epoch) \<and>
        fill_epoch look repository branch new_epoch base_seq cs db1 = Some db2 \<and>
        close_epoch repository branch correlation trigger (sp_epoch sp) new_epoch new_head (base_seq + int (length cs)) w db2 = Some v \<and>
        db' = wk_seq v)"

lemma epoch_written_space:
  assumes "epoch_written g look repository branch base_seq base_sha new_head sp cs new_epoch db db'"
    and "find_sequence_space repository branch db = Some sp"
    and "\<forall>epoch > sp_epoch sp. entries_of repository branch epoch db = {}" and "table_ok (merges db)"
  shows "same_elsewhere repository branch db db'" "table_ok (merges db')"
    and "\<exists>sp'. find_sequence_space repository branch db' = Some sp' \<and> sp_epoch sp' = new_epoch \<and>
      sp_head sp' = Some new_head \<and> sp_head_seq sp' = base_seq + int (length cs)"
    and "entries_of repository branch new_epoch db' =
      (if base_seq > 0 then {(m, s) \<in> entries_of repository branch (sp_epoch sp) db. m \<le> base_seq} else {}) \<union>
      numbered_from base_seq (map fst cs)"
    and "epoch \<noteq> new_epoch \<Longrightarrow> entries_of repository branch epoch db' = entries_of repository branch epoch db"
    and "new_epoch = sp_epoch sp + 1"
proof -
  from assms(1) obtain correlation trigger w db1 db2 v where
    parts: "open_epoch repository branch (sp_epoch sp) base_seq db = Some (db1, new_epoch)"
      "fill_epoch look repository branch new_epoch base_seq cs db1 = Some db2"
      "close_epoch repository branch correlation trigger (sp_epoch sp) new_epoch new_head (base_seq + int (length cs)) w db2 = Some v"
    and db': "db' = wk_seq v"
    by (auto simp: epoch_written_def)
  note n = new_epoch_entries[OF parts(1) assms(2,3,4) parts(2,3)]
  show "same_elsewhere repository branch db db'" "table_ok (merges db')"
    "\<exists>sp'. find_sequence_space repository branch db' = Some sp' \<and> sp_epoch sp' = new_epoch \<and>
      sp_head sp' = Some new_head \<and> sp_head_seq sp' = base_seq + int (length cs)"
    "entries_of repository branch new_epoch db' =
      (if base_seq > 0 then {(m, s) \<in> entries_of repository branch (sp_epoch sp) db. m \<le> base_seq} else {}) \<union>
      numbered_from base_seq (map fst cs)"
    "epoch \<noteq> new_epoch \<Longrightarrow> entries_of repository branch epoch db' = entries_of repository branch epoch db"
    "new_epoch = sp_epoch sp + 1"
    unfolding db' by (rule n; assumption?)+
qed

lemma reassign_in_space_cases [consumes 1, case_names stale written]:
  assumes "reassign_in_space g look repository branch stored_head new_head correlation sp w = (w', r)"
  obtains reason where "stale_outcome repository branch reason w = (w', r)"
  | base base_seq base_sha cs new_epoch where "merge_base g stored_head new_head = Inr base"
      "base_of repository branch (sp_epoch sp) base (wk_seq w) = (base_seq, base_sha)"
      "epoch_written g look repository branch base_seq base_sha new_head sp cs new_epoch (wk_seq w) (wk_seq w')"
proof (cases "merge_base g stored_head new_head")
  case (Inl e)
  with assms that(1) show ?thesis by (simp add: reassign_in_space_def)
next
  case base: (Inr base)
  obtain base_seq base_sha where based: "base_of repository branch (sp_epoch sp) base (wk_seq w) = (base_seq, base_sha)"
    by (cases "base_of repository branch (sp_epoch sp) base (wk_seq w)")
  note body = assms[unfolded reassign_in_space_def Let_def base sum.case based prod.case]
  show ?thesis
  proof (cases "open_epoch repository branch (sp_epoch sp) base_seq (wk_seq w)")
    case None
    with body that(1) show ?thesis by simp
  next
    case (Some opened)
    then obtain db1 new_epoch where opened: "open_epoch repository branch (sp_epoch sp) base_seq (wk_seq w) = Some (db1, new_epoch)"
      by (cases opened) auto
    show ?thesis
    proof (cases "first_parent_commits g base_sha new_head")
      case (Inl e)
      with body opened that(1) show ?thesis by simp
    next
      case cs: (Inr cs)
      let ?tx = "do { db2 \<leftarrow> fill_epoch look repository branch new_epoch base_seq cs db1;
        close_epoch repository branch correlation (js ''sequence_reassigned'') (sp_epoch sp) new_epoch new_head
          (base_seq + int (length cs)) w db2 }"
      show ?thesis
      proof (cases ?tx)
        case None
        with body opened cs that(1) show ?thesis by simp
      next
        case (Some v)
        with body opened cs have "wk_seq w' = wk_seq v" by (auto simp: publish_event_def)
        moreover from Some obtain db2 where "fill_epoch look repository branch new_epoch base_seq cs db1 = Some db2"
          "close_epoch repository branch correlation (js ''sequence_reassigned'') (sp_epoch sp) new_epoch new_head
            (base_seq + int (length cs)) w db2 = Some v" by (auto simp: bind_eq_Some_conv)
        ultimately show ?thesis using that(2)[OF base based, of cs new_epoch] opened cs
          unfolding epoch_written_def by blast
      qed
    qed
  qed
qed

lemma reassign_sequence_cases [consumes 1, case_names same marked stale space]:
  assumes "reassign_sequence g look locked repository branch stored_head new_head correlation w = (w', r)"
  obtains "w' = w"
  | db where "mark_reassigning repository branch (wk_seq w) = Some db" "w' = w\<lparr>wk_seq := db\<rparr>"
  | db reason where "mark_reassigning repository branch (wk_seq w) = Some db"
      "stale_outcome repository branch reason (w\<lparr>wk_seq := db\<rparr>) = (w', r)"
  | db sp where "mark_reassigning repository branch (wk_seq w) = Some db" "find_sequence_space repository branch db = Some sp"
      "sp_head sp = Some stored_head"
      "reassign_in_space g look repository branch stored_head new_head correlation sp (w\<lparr>wk_seq := db\<rparr>) = (w', r)"
  using assms by (auto simp: reassign_sequence_def Let_def split: option.splits if_splits)

lemma mark_reassigning_inv:
  assumes "seq_inv history db" "mark_reassigning repository branch db = Some db'"
  shows "seq_inv history db'"
  by (rule update_space_inv[OF assms(1) assms(2)[unfolded mark_reassigning_def]]) (simp add: space_key_def)

context strict_commit_graph
begin

lemma reassign_in_space_inv:
  assumes inv: "seq_inv history (wk_seq w)" and g: "follows between g"
    and sp: "find_sequence_space repository branch (wk_seq w) = Some sp"
    and run: "reassign_in_space g look repository branch stored_head new_head correlation sp w = (w', r)"
  shows "seq_inv history (wk_seq w')"
  using run
proof (cases rule: reassign_in_space_cases)
  case (stale reason)
  then show ?thesis by (rule stale_outcome_inv[OF inv])
next
  case (written base base_seq base_sha cs new_epoch)
  have fresh: "\<forall>epoch > sp_epoch sp. entries_of repository branch epoch (wk_seq w) = {}" using space_okD(2)[OF inv sp] by blast
  note s = epoch_written_space[OF written(3) sp fresh seq_invD(1)[OF inv]]
  let ?E = "entries_of repository branch (sp_epoch sp) (wk_seq w)"
  have commits: "between base_sha new_head = Some (map fst cs)" using written(3) g by (auto simp: epoch_written_def follows_def)
  obtain xs where xs: "history new_head = Some xs" "base_seq + int (length cs) = int (length xs)"
    "(if base_seq > 0 then {(m, s) \<in> ?E. m \<le> base_seq} else {}) \<union> numbered_from base_seq (map fst cs) = numbered_from 0 xs"
  proof (cases base_sha)
    case None
    with written(2) have "base_seq = 0" by (auto simp: base_of_def split: option.splits)
    with between_start[of new_head "map fst cs"] commits None that[of "map fst cs"] show ?thesis by simp
  next
    case (Some sha)
    with written(2) have "find_seq_by_commit repository branch (sp_epoch sp) sha (wk_seq w) = Some base_seq"
      by (auto simp: base_of_def split: option.splits)
    then have "(base_seq, sha) \<in> ?E" by (auto simp: find_seq_by_commit_def find_Some_iff entries_of_def entry_of_def image_iff)
    moreover from this space_okD(1)[OF inv sp] obtain h ys where ys: "history h = Some ys" "?E = numbered_from 0 ys"
      by (auto simp: chain_ok_def split: option.splits)
    ultimately obtain i where i: "i < length ys" "base_seq = int i + 1" "sha = ys ! i" by (auto elim: numbered_fromE)
    have "history new_head = Some (take (Suc i) ys @ map fst cs)"
      using between_extends[of sha new_head "map fst cs"] commits Some history_prefix[OF ys(1) i(1)] i(3) by simp
    moreover have "{(m, s) \<in> ?E. m \<le> base_seq} = numbered_from 0 (take (Suc i) ys)"
      using numbered_from_upto[of 0 ys "Suc i"] ys(2) i(2) by (simp add: add.commute)
    ultimately show ?thesis using that[of "take (Suc i) ys @ map fst cs"] i by (simp add: numbered_from_append add.commute)
  qed
  show ?thesis
  proof (rule seq_inv_change[OF inv s(1,2)])
    have "entries_of repository branch epoch (wk_seq w') = {}" if "epoch > new_epoch" for epoch
      using s(5)[of epoch] s(6) fresh that by auto
    with s(3,4,6) xs show "space_ok history (wk_seq w') repository branch" by (auto simp: space_ok_def chain_ok_def)
  qed
qed

lemma reassign_sequence_inv:
  assumes "seq_inv history (wk_seq w)" "follows between g"
    and "reassign_sequence g look locked repository branch stored_head new_head correlation w = (w', r)"
  shows "seq_inv history (wk_seq w')"
  using assms(3)
proof (cases rule: reassign_sequence_cases)
  case same
  with assms(1) show ?thesis by simp
next
  case (marked db)
  with mark_reassigning_inv[OF assms(1)] show ?thesis by simp
next
  case (stale db reason)
  with mark_reassigning_inv[OF assms(1)] stale_outcome_inv[of history "w\<lparr>wk_seq := db\<rparr>"] show ?thesis by simp
next
  case (space db sp)
  show ?thesis
    by (rule reassign_in_space_inv[OF _ assms(2) _ space(4)]) (use space mark_reassigning_inv[OF assms(1)] in simp_all)
qed

end

subsection \<open>Repairs\<close>

lemma repair_stale_state: "fst (repair_stale repository branch reason w) = fst (stale_outcome repository branch reason w)"
  by (simp add: repair_stale_def stale_outcome_def split: option.split)

lemma repair_stale_inv:
  assumes "seq_inv history (wk_seq w)" "repair_stale repository branch reason w = (w', r)"
  shows "seq_inv history (wk_seq w')"
  using stale_outcome_inv[OF assms(1)] repair_stale_state[of repository branch reason w] assms(2)
  by (metis prod.collapse fst_conv)

lemma restore_repair_inv:
  assumes "seq_inv history (wk_seq w)" "restore_repair_state repository branch plan reason w = (w', r)"
  shows "seq_inv history (wk_seq w')"
proof (cases "restore_sequence_state repository branch (sp_state (rpl_space plan)) (sp_error (rpl_space plan)) (wk_seq w)")
  case (Some db)
  from Some have "seq_inv history db"
    unfolding restore_sequence_state_def by (rule update_space_inv[OF assms(1)]) (simp add: space_key_def)
  with assms(2) Some show ?thesis by (auto simp: restore_repair_state_def)
qed (use assms in \<open>simp add: restore_repair_state_def\<close>)

lemma repair_in_space_cases [consumes 1, case_names stale restored written]:
  assumes "repair_in_space g look live repository branch correlation plan (sp_epoch sp) w = (w', r)"
  obtains reason where "repair_stale repository branch reason w = (w', r)"
  | reason where "restore_repair_state repository branch plan reason w = (w', r)"
  | cs new_epoch affected where
      "epoch_written g look repository branch (rpl_diverged plan - 1) (repair_from plan) (rpl_head plan) sp cs new_epoch
         (wk_seq w) (wk_seq w')"
      "r = Repair_done (Repaired (sp_epoch sp) new_epoch (rpl_diverged plan) (rpl_diverged plan - 1 + int (length cs))
         (rpl_head plan) affected)"
proof -
  let ?base = "rpl_diverged plan - 1"
  note body = assms[unfolded repair_in_space_def Let_def]
  show ?thesis
  proof (cases "open_epoch repository branch (sp_epoch sp) ?base (wk_seq w)")
    case None
    with body that(1) show ?thesis by simp
  next
    case (Some opened)
    then obtain db1 new_epoch where opened: "open_epoch repository branch (sp_epoch sp) ?base (wk_seq w) = Some (db1, new_epoch)"
      by (cases opened) auto
    show ?thesis
    proof (cases "first_parent_commits g (repair_from plan) (rpl_head plan)")
      case (Inl e)
      with body opened that(1) show ?thesis by simp
    next
      case cs: (Inr cs)
      show ?thesis
      proof (cases "fill_epoch look repository branch new_epoch ?base cs db1")
        case None
        with body opened cs that(1) show ?thesis by simp
      next
        case filled: (Some db2)
        show ?thesis
        proof (cases "live = Inr (Some (rpl_head plan))")
          case False
          with body opened cs filled that(1,2) show ?thesis by (cases live) (auto split: if_splits)
        next
          case True
          show ?thesis
          proof (cases "close_epoch repository branch correlation (js ''sequence_repaired'') (sp_epoch sp) new_epoch
              (rpl_head plan) (?base + int (length cs)) w db2")
            case None
            with body opened cs filled True that(1) show ?thesis by simp
          next
            case (Some v)
            with body opened cs filled True have "wk_seq w' = wk_seq v"
              and r: "r = Repair_done (Repaired (sp_epoch sp) new_epoch (rpl_diverged plan) (?base + int (length cs))
                (rpl_head plan) (count_above repository branch (sp_epoch sp) ?base (wk_seq w)))"
              by (auto simp: publish_event_def)
            then have "epoch_written g look repository branch ?base (repair_from plan) (rpl_head plan) sp cs new_epoch (wk_seq w) (wk_seq w')"
              using opened cs filled Some unfolding epoch_written_def by blast
            with that(3) r show ?thesis by blast
          qed
        qed
      qed
    qed
  qed
qed

lemma mark_reassigning_space:
  assumes "mark_reassigning repository branch db = Some db'" "find_sequence_space repository branch db = Some sp"
  obtains sp' where "find_sequence_space repository branch db' = Some sp'" "sp_epoch sp' = sp_epoch sp" "sp_head sp' = sp_head sp"
    "merges db' = merges db" "same_elsewhere repository branch db db'"
  using update_space_same[OF assms(1)[unfolded mark_reassigning_def]] assms(2) by (auto simp: space_key_def)

lemma commit_repair_cases [consumes 1, case_names same stale restored written]:
  assumes "commit_repair g look live locked repository branch correlation plan w = (w', r)"
  obtains "w' = w" "r \<in> {Repair_done Repair_locked} \<union> range (\<lambda>e. Repair_done (Repair_skipped e))"
  | reason w1 where "w1 = w \<or> (\<exists>db. mark_reassigning repository branch (wk_seq w) = Some db \<and> w1 = w\<lparr>wk_seq := db\<rparr>)"
      "repair_stale repository branch reason w1 = (w', r)"
  | db reason where "mark_reassigning repository branch (wk_seq w) = Some db"
      "restore_repair_state repository branch plan reason (w\<lparr>wk_seq := db\<rparr>) = (w', r)"
  | sp db sp' cs new_epoch affected where "find_sequence_space repository branch (wk_seq w) = Some sp"
      "sp_epoch sp = sp_epoch (rpl_space plan)" "sp_head sp = sp_head (rpl_space plan)"
      "mark_reassigning repository branch (wk_seq w) = Some db"
      "find_sequence_space repository branch db = Some sp'" "sp_epoch sp' = sp_epoch sp" "merges db = merges (wk_seq w)"
      "epoch_written g look repository branch (rpl_diverged plan - 1) (repair_from plan) (rpl_head plan) sp' cs new_epoch
         db (wk_seq w')"
      "r = Repair_done (Repaired (sp_epoch sp) new_epoch (rpl_diverged plan) (rpl_diverged plan - 1 + int (length cs))
         (rpl_head plan) affected)"
proof (cases "locked \<and> (\<exists>sp. find_sequence_space repository branch (wk_seq w) = Some sp \<and>
    sp_epoch sp = sp_epoch (rpl_space plan) \<and> sp_head sp = sp_head (rpl_space plan))")
  case False
  with assms that(1) show ?thesis by (auto simp: commit_repair_def split: option.splits if_splits)
next
  case True
  then obtain sp where sp: "locked" "find_sequence_space repository branch (wk_seq w) = Some sp"
    "sp_epoch sp = sp_epoch (rpl_space plan)" "sp_head sp = sp_head (rpl_space plan)" by blast
  show ?thesis
  proof (cases "mark_reassigning repository branch (wk_seq w)")
    case None
    with assms sp that(2)[of w "error_text look"] show ?thesis by (simp add: commit_repair_def)
  next
    case (Some db)
    then obtain sp' where sp': "find_sequence_space repository branch db = Some sp'" "sp_epoch sp' = sp_epoch sp"
      "merges db = merges (wk_seq w)" using mark_reassigning_space[OF Some sp(2)] by blast
    from assms sp Some sp'(2)
    have "repair_in_space g look live repository branch correlation plan (sp_epoch sp') (w\<lparr>wk_seq := db\<rparr>) = (w', r)"
      by (simp add: commit_repair_def)
    then show ?thesis
    proof (cases rule: repair_in_space_cases)
      case (stale reason)
      with Some that(2) show ?thesis by blast
    next
      case (restored reason)
      with Some that(3) show ?thesis by blast
    next
      case (written cs new_epoch affected)
      with that(4)[OF sp(2,3,4) Some sp'] sp'(2) show ?thesis by simp
    qed
  qed
qed

lemma analyse_repair_mismatchD:
  assumes "analyse_repair g repository branch db = Analysis_mismatch plan"
  obtains m where "resolve_head g branch = Inr (Some (rpl_head plan))"
    "find_sequence_space repository branch db = Some (rpl_space plan)"
    "first_parent_rev_list g None (rpl_head plan) = Inr (rpl_actual plan)"
    "first_sequence_mismatch (list_stored_sequence repository branch (sp_epoch (rpl_space plan)) 1 db) (rpl_actual plan) = Some m"
    "rpl_diverged plan = at_seq m"
proof -
  from assms obtain head where head: "resolve_head g branch = Inr (Some head)"
    by (auto simp: analyse_repair_def split: sum.splits option.splits)
  with assms obtain sp where sp: "find_sequence_space repository branch db = Some sp"
    by (auto simp: analyse_repair_def split: option.splits)
  with head assms obtain actual where actual: "first_parent_rev_list g None head = Inr actual"
    by (auto simp: analyse_repair_def Let_def split: sum.splits)
  with head sp assms obtain m where
    "first_sequence_mismatch (list_stored_sequence repository branch (sp_epoch sp) 1 db) actual = Some m"
    "plan = \<lparr>rpl_head = head, rpl_space = sp, rpl_actual = actual, rpl_diverged = at_seq m\<rparr>"
    by (auto simp: analyse_repair_def Let_def split: option.splits)
  with head sp actual that show ?thesis by simp
qed

text \<open>An entry agrees with a chain when the commit at its position is the same, up to letter case.\<close>

definition agrees :: "jstr list \<Rightarrow> int \<Rightarrow> jstr \<Rightarrow> bool" where
  "agrees actual n sha \<longleftrightarrow> (\<exists>i < length actual. n = int i + 1 \<and> to_lower sha = to_lower (actual ! i))"

lemma entry_agrees_iff: "entry_agrees actual \<lparr>merge_seq = n, commit_sha = sha\<rparr> \<longleftrightarrow> agrees actual n sha"
proof -
  have "(0 \<le> n - 1 \<and> nat (n - 1) < length actual) \<longleftrightarrow> (\<exists>i < length actual. n = int i + 1)"
    by (metis add_diff_cancel_right' diff_add_cancel int_nat_eq nat_int of_nat_0_le_iff)
  then show ?thesis
    unfolding entry_agrees_def agrees_def js_index_def by (auto split: if_splits)
qed

lemma set_list_stored_sequence:
  "set (list_stored_sequence repository branch epoch from_seq db) =
     (\<lambda>(n, sha). \<lparr>merge_seq = n, commit_sha = sha\<rparr>) ` {(n, sha) \<in> entries_of repository branch epoch db. from_seq \<le> n}"
  by (auto simp: list_stored_sequence_def entries_of_def entry_of_def image_iff)

lemma stored_mismatchD:
  assumes "first_sequence_mismatch (list_stored_sequence repository branch epoch 1 db) actual = Some m"
  shows "1 \<le> at_seq m" and "\<exists>sha. (at_seq m, sha) \<in> entries_of repository branch epoch db"
    and "(n, sha) \<in> entries_of repository branch epoch db \<Longrightarrow> 1 \<le> n \<Longrightarrow> n < at_seq m \<Longrightarrow> agrees actual n sha"
proof -
  let ?stored = "list_stored_sequence repository branch epoch 1 db"
  note exact = first_mismatch_exact[of ?stored actual, THEN conjunct2, rule_format, OF assms]
  from exact obtain e where "e \<in> set ?stored" "at_seq m = merge_seq e" by blast
  then show "1 \<le> at_seq m" "\<exists>sha. (at_seq m, sha) \<in> entries_of repository branch epoch db"
    by (auto simp: set_list_stored_sequence)
  show "agrees actual n sha" if "(n, sha) \<in> entries_of repository branch epoch db" "1 \<le> n" "n < at_seq m"
  proof -
    from that have "\<lparr>merge_seq = n, commit_sha = sha\<rparr> \<in> set ?stored" by (force simp: set_list_stored_sequence)
    with exact that(3) show ?thesis by (auto simp: entry_agrees_iff[symmetric])
  qed
qed

lemma no_mismatch_iff:
  "first_sequence_mismatch (list_stored_sequence repository branch epoch 1 db) actual = None \<longleftrightarrow>
     (\<forall>(n, sha) \<in> entries_of repository branch epoch db. 1 \<le> n \<longrightarrow> agrees actual n sha)"
  using first_mismatch_exact[of "list_stored_sequence repository branch epoch 1 db" actual, THEN conjunct1]
  by (auto simp: set_list_stored_sequence entry_agrees_iff[symmetric])

context commit_graph
begin

text \<open>The commits a repair numbers are those of the chain from the first mismatch on.\<close>

lemma repair_range:
  assumes g: "follows between g" and actual: "first_parent_rev_list g None (rpl_head plan) = Inr (rpl_actual plan)"
    and cs: "first_parent_commits g (repair_from plan) (rpl_head plan) = Inr cs"
    and d: "1 \<le> rpl_diverged plan" "rpl_diverged plan - 1 \<le> int (length (rpl_actual plan))"
  shows "history (rpl_head plan) = Some (rpl_actual plan)"
    and "map fst cs = drop (nat (rpl_diverged plan - 1)) (rpl_actual plan)"
proof -
  let ?actual = "rpl_actual plan" and ?d = "rpl_diverged plan"
  from g actual have "between None (rpl_head plan) = Some ?actual" by (simp add: follows_def)
  then show h: "history (rpl_head plan) = Some ?actual" by (rule between_start)
  have b: "between (repair_from plan) (rpl_head plan) = Some (map fst cs)" using g cs by (simp add: follows_def)
  show "map fst cs = drop (nat (?d - 1)) ?actual"
  proof (cases "?d = 1")
    case True
    with b \<open>between None (rpl_head plan) = Some ?actual\<close> show ?thesis by (simp add: repair_from_def)
  next
    case False
    let ?i = "nat (?d - 2)"
    from False d have i: "?i < length ?actual" "Suc ?i = nat (?d - 1)" by auto
    with False d have "repair_from plan = Some (?actual ! ?i)" by (simp add: repair_from_def js_index_def)
    with b have "between (Some (?actual ! ?i)) (rpl_head plan) = Some (map fst cs)" by simp
    from between_drop[OF this h i(1)] i(2) show ?thesis by simp
  qed
qed

text \<open>
  A committed repair, in any state of the tables: when the old epoch has a row for every number below
  the mismatch, the new one has exactly one for every commit of the chain and agrees with it.
\<close>

lemma repaired_epoch:
  assumes g: "follows between g" and analysis: "analyse_repair g repository branch analysed = Analysis_mismatch plan"
    and sp: "find_sequence_space repository branch db = Some sp" "sp_epoch sp = sp_epoch (rpl_space plan)"
    and fresh: "\<forall>epoch > sp_epoch sp. entries_of repository branch epoch db = {}" and ok: "table_ok (merges db)"
    and same: "{(n, s) \<in> entries_of repository branch (sp_epoch sp) db. n < rpl_diverged plan} \<subseteq>
      entries_of repository branch (sp_epoch sp) analysed"
    and complete: "fst ` {(n, s) \<in> entries_of repository branch (sp_epoch sp) db. n < rpl_diverged plan} =
      {1..<rpl_diverged plan}"
    and tx: "epoch_written g look repository branch (rpl_diverged plan - 1) (repair_from plan) (rpl_head plan) sp cs new_epoch db db'"
  shows "history (rpl_head plan) = Some (rpl_actual plan)"
    and "rpl_diverged plan - 1 + int (length cs) = int (length (rpl_actual plan))"
    and "entries_of repository branch new_epoch db' =
      {(n, s) \<in> entries_of repository branch (sp_epoch sp) db. n < rpl_diverged plan} \<union>
      numbered_from (rpl_diverged plan - 1) (drop (nat (rpl_diverged plan - 1)) (rpl_actual plan))"
    and "fst ` entries_of repository branch new_epoch db' = {1..int (length (rpl_actual plan))}"
    and "first_sequence_mismatch (list_stored_sequence repository branch new_epoch 1 db') (rpl_actual plan) = None"
proof -
  let ?d = "rpl_diverged plan" and ?actual = "rpl_actual plan"
  let ?below = "{(n, s) \<in> entries_of repository branch (sp_epoch sp) db. n < ?d}"
  obtain m where m: "first_parent_rev_list g None (rpl_head plan) = Inr ?actual"
    "first_sequence_mismatch (list_stored_sequence repository branch (sp_epoch sp) 1 analysed) ?actual = Some m" "?d = at_seq m"
    using analyse_repair_mismatchD[OF analysis] sp(2) by metis
  note mm = stored_mismatchD[OF m(2), folded m(3)]
  have agree: "agrees ?actual n s" if "(n, s) \<in> ?below" for n s
  proof -
    from that complete have "1 \<le> n" by force
    with that same mm(3) show ?thesis by auto
  qed
  have d: "?d - 1 \<le> int (length ?actual)"
  proof (cases "?d = 1")
    case False
    with mm(1) have "?d - 1 \<in> fst ` ?below" unfolding complete by simp
    then obtain s where "(?d - 1, s) \<in> ?below" by auto
    from agree[OF this] show ?thesis by (auto simp: agrees_def)
  qed simp
  from tx have cs: "first_parent_commits g (repair_from plan) (rpl_head plan) = Inr cs" by (simp add: epoch_written_def)
  note r = repair_range[OF g m(1) cs mm(1) d]
  show "history (rpl_head plan) = Some ?actual" by (rule r(1))
  have len: "length cs = length (drop (nat (?d - 1)) ?actual)" using r(2) by (metis length_map)
  with mm(1) d show to: "?d - 1 + int (length cs) = int (length ?actual)" by simp
  show entries: "entries_of repository branch new_epoch db' = ?below \<union> numbered_from (?d - 1) (drop (nat (?d - 1)) ?actual)"
    unfolding epoch_written_space(4)[OF tx sp(1) fresh ok] r(2)
  proof (cases "?d = 1")
    case True
    then have empty: "?below = {}" using complete by simp
    show "(if ?d - 1 > 0 then {(n, s) \<in> entries_of repository branch (sp_epoch sp) db. n \<le> ?d - 1} else {}) \<union>
        numbered_from (?d - 1) (drop (nat (?d - 1)) ?actual) =
      ?below \<union> numbered_from (?d - 1) (drop (nat (?d - 1)) ?actual)" unfolding empty using True by simp
  qed (use mm(1) in auto)
  show "fst ` entries_of repository branch new_epoch db' = {1..int (length ?actual)}"
  proof -
    have "fst ` numbered_from (?d - 1) (drop (nat (?d - 1)) ?actual) = {?d..int (length ?actual)}"
      using mm(1) d by (simp add: fst_numbered_from)
    with d mm(1) show ?thesis unfolding entries image_Un complete by auto
  qed
  show "first_sequence_mismatch (list_stored_sequence repository branch new_epoch 1 db') ?actual = None"
    unfolding no_mismatch_iff entries
  proof (clarify, elim UnE)
    fix n s assume "(n, s) \<in> numbered_from (?d - 1) (drop (nat (?d - 1)) ?actual)"
    then obtain i where "i < length (drop (nat (?d - 1)) ?actual)" "n = ?d - 1 + int i + 1" "s = drop (nat (?d - 1)) ?actual ! i"
      by (rule numbered_fromE)
    with mm(1) show "agrees ?actual n s" by (auto simp: agrees_def intro!: exI[of _ "nat (?d - 1) + i"])
  qed (use agree in blast)
qed

end

end
