(* ===== verification/Worker_Runs.thy ===== *)
theory Worker_Runs
  imports Worker_Chain
begin

text \<open>
  Runs of the workers of a deployment over one database: any number of assignments, new epochs and
  repairs on any branch, each with the answers its graph gave it, interleaved transaction by
  transaction with registrations, numbering of pull requests and the clock. A repair may rest on an
  analysis made long before, of a state kept in the list of snapshots.
\<close>

section \<open>Repairs keep the invariant\<close>

lemma agrees_take:
  assumes "\<And>n s. (n, s) \<in> numbered_from 0 ys \<Longrightarrow> n < d \<Longrightarrow> agrees xs n s"
    and "\<And>s. s \<in> set xs \<Longrightarrow> to_lower s = s" "\<And>s. s \<in> set ys \<Longrightarrow> to_lower s = s"
    and "1 \<le> d" "d - 1 \<le> int (length ys)"
  shows "nat (d - 1) \<le> length xs" and "take (nat (d - 1)) ys = take (nat (d - 1)) xs"
proof -
  have at: "i < length xs \<and> ys ! i = xs ! i" if "i < nat (d - 1)" for i
  proof -
    from that assms(4,5) have i: "i < length ys" "int i + 1 < d" by auto
    with numbered_from_nth[of i ys 0] assms(1) have "agrees xs (int i + 1) (ys ! i)" by simp
    then have "i < length xs" "to_lower (ys ! i) = to_lower (xs ! i)" by (auto simp: agrees_def)
    with i assms(2)[of "xs ! i"] assms(3)[of "ys ! i"] show ?thesis by simp
  qed
  show xs: "nat (d - 1) \<le> length xs"
  proof (cases "nat (d - 1)")
    case (Suc k)
    with at[of k] show ?thesis by simp
  qed simp
  show "take (nat (d - 1)) ys = take (nat (d - 1)) xs"
    by (rule nth_take_lemma) (use assms(5) xs at in auto)
qed

context strict_commit_graph
begin

lemma commit_repair_inv:
  assumes inv: "seq_inv history (wk_seq w)" and old: "seq_inv history analysed" and g: "follows between g"
    and analysis: "analyse_repair g repository branch analysed = Analysis_mismatch plan"
    and run: "commit_repair g look live locked repository branch correlation plan w = (w', r)"
  shows "seq_inv history (wk_seq w')"
  using run
proof (cases rule: commit_repair_cases)
  case same
  with inv show ?thesis by simp
next
  case (stale reason w1)
  have "seq_inv history (wk_seq w1)" using stale(1) inv mark_reassigning_inv[OF inv] by auto
  with repair_stale_inv stale(2) show ?thesis by blast
next
  case (restored db reason)
  have "seq_inv history (wk_seq (w\<lparr>wk_seq := db\<rparr>))" using mark_reassigning_inv[OF inv restored(1)] by simp
  with restore_repair_inv restored(2) show ?thesis by blast
next
  case (written sp db sp' cs new_epoch affected)
  let ?d = "rpl_diverged plan" and ?actual = "rpl_actual plan"
  let ?E = "entries_of repository branch (sp_epoch sp') db"
  have db: "seq_inv history db" by (rule mark_reassigning_inv[OF inv written(4)])
  have fresh: "\<forall>epoch > sp_epoch sp'. entries_of repository branch epoch db = {}" using space_okD(2)[OF db written(5)] by blast
  obtain m where m: "find_sequence_space repository branch analysed = Some (rpl_space plan)"
    "first_parent_rev_list g None (rpl_head plan) = Inr ?actual"
    "first_sequence_mismatch (list_stored_sequence repository branch (sp_epoch (rpl_space plan)) 1 analysed) ?actual = Some m"
    "?d = at_seq m"
    using analyse_repair_mismatchD[OF analysis] by metis
  note mm = stored_mismatchD[OF m(3), folded m(4)]
  have head: "sp_head sp' = sp_head (rpl_space plan)"
  proof -
    obtain sp1 where "find_sequence_space repository branch db = Some sp1" "sp_head sp1 = sp_head sp"
      using mark_reassigning_space[OF written(4,1)] by metis
    with written(3,5) show ?thesis by simp
  qed
  have chain': "chain_ok history (entries_of repository branch (sp_epoch (rpl_space plan)) analysed) (rpl_space plan)"
    by (rule space_okD(1)[OF old m(1)])
  from mm(2) chain' obtain h ys where ys: "sp_head (rpl_space plan) = Some h" "history h = Some ys"
    "entries_of repository branch (sp_epoch (rpl_space plan)) analysed = numbered_from 0 ys"
    by (auto simp: chain_ok_def split: option.splits)
  have E: "?E = numbered_from 0 ys" using space_okD(1)[OF db written(5)] head ys(1,2) by (simp add: chain_ok_def)
  have d: "1 \<le> ?d" "?d \<le> int (length ys)" using mm(1,2) ys(3) numbered_from_bounds[of ?d _ 0 ys] by auto
  have actual: "history (rpl_head plan) = Some ?actual" using g m(2) between_start by (simp add: follows_def)
  have agree: "agrees ?actual n s" if "(n, s) \<in> numbered_from 0 ys" "n < ?d" for n s
    using mm(3)[of n s] that ys(3) numbered_from_bounds[OF that(1)] by simp
  have yd: "?d - 1 \<le> int (length ys)" using d by simp
  note prefix = agrees_take[OF agree history_lower[OF actual] history_lower[OF ys(2)] d(1) yd]
  have len: "?d - 1 \<le> int (length ?actual)" using prefix(1) by simp
  from written(8) have "first_parent_commits g (repair_from plan) (rpl_head plan) = Inr cs" by (simp add: epoch_written_def)
  note range = repair_range[OF g m(2) this d(1) len]
  note s = epoch_written_space[OF written(8) written(5) fresh seq_invD(1)[OF db]]
  have "(if ?d - 1 > 0 then {(n, s) \<in> ?E. n \<le> ?d - 1} else {}) = numbered_from 0 (take (nat (?d - 1)) ys)"
  proof (cases "?d = 1")
    case False
    with d have "0 + int (nat (?d - 1)) = ?d - 1" by simp
    with numbered_from_upto[of 0 ys "nat (?d - 1)"] E False d show ?thesis by simp
  qed simp
  then have entries: "entries_of repository branch new_epoch (wk_seq w') = numbered_from 0 ?actual"
    using s(4) range(2) prefix(2) numbered_from_append[of 0 "take (nat (?d - 1)) ?actual" "drop (nat (?d - 1)) ?actual"] d(1) len
    by (simp add: min_absorb2)
  have to_seq: "?d - 1 + int (length cs) = int (length ?actual)"
  proof -
    have "length cs = length (drop (nat (?d - 1)) ?actual)" using range(2) by (metis length_map)
    with d(1) len show ?thesis by simp
  qed
  have "seq_inv history (wk_seq w')"
  proof (rule seq_inv_change[OF db s(1,2)])
    have "entries_of repository branch epoch (wk_seq w') = {}" if "epoch > new_epoch" for epoch
      using s(5)[of epoch] s(6) fresh that by auto
    with s(3) entries to_seq range(1) show "space_ok history (wk_seq w') repository branch"
      by (auto simp: space_ok_def chain_ok_def)
  qed
  then show ?thesis .
qed

end

section \<open>Steps\<close>

text \<open>The answers of a graph are those of the API over the objects of the repository.\<close>

definition serves :: "commit_links \<Rightarrow> graph \<Rightarrow> bool" where
  "serves objects g \<longleftrightarrow> (\<exists>dates shown. follows (api_between (github_listing objects dates shown)) g)"

record system =
  working :: worker
  analysed :: "seq_db list"

definition on_db :: "seq_db \<Rightarrow> system \<Rightarrow> system" where
  "on_db db s = s\<lparr>working := (working s)\<lparr>wk_seq := db\<rparr>\<rparr>"

inductive chain_step :: "commit_links \<Rightarrow> system \<Rightarrow> system \<Rightarrow> bool" for objects where
  Assign: "serves objects g \<Longrightarrow>
    assign_sequence g look locked publishes repository branch correlation (working s) = (w, r) \<Longrightarrow>
    chain_step objects s (s\<lparr>working := w\<rparr>)"
| Reassign: "serves objects g \<Longrightarrow>
    reassign_sequence g look locked repository branch stored_head new_head correlation (working s) = (w, r) \<Longrightarrow>
    chain_step objects s (s\<lparr>working := w\<rparr>)"
| Analyse: "chain_step objects s (s\<lparr>analysed := wk_seq (working s) # analysed s\<rparr>)"
| Repair: "serves objects g \<Longrightarrow> db \<in> set (analysed s) \<Longrightarrow>
    repair_sequence g look live locked repository branch correlation db (working s) = (w, r) \<Longrightarrow>
    chain_step objects s (s\<lparr>working := w\<rparr>)"
| Tick: "db_now (wk_seq (working s)) \<le> now \<Longrightarrow> chain_step objects s (on_db ((wk_seq (working s))\<lparr>db_now := now\<rparr>) s)"
| Register: "chain_step objects s (on_db ((wk_seq (working s))\<lparr>repos := rs\<rparr>) s)"

text \<open>With the statements of the numbering of pull requests, and others that work on the queue.\<close>

inductive seq_step :: "commit_links \<Rightarrow> system \<Rightarrow> system \<Rightarrow> bool" for objects where
  Chain: "chain_step objects s s' \<Longrightarrow> seq_step objects s s'"
| Number: "assign_merge_numbers repository branch epoch as (wk_seq (working s)) = Some (db, n) \<Longrightarrow>
    seq_step objects s (on_db db s)"
| Checkpoint: "advance_merge_number_checkpoint repository branch epoch ck (wk_seq (working s)) = Some (db, applied) \<Longrightarrow>
    seq_step objects s (on_db db s)"
| Work: "wk_seq w = wk_seq (working s) \<Longrightarrow> seq_step objects s (s\<lparr>working := w\<rparr>)"

inductive_cases chain_stepE: "chain_step objects s s'"
inductive_cases seq_stepE: "seq_step objects s s'"

definition new_system :: "int \<Rightarrow> system" where
  "new_system now =
     \<lparr>working = \<lparr>wk_seq = \<lparr>db_now = now, merges = [], spaces = [], repos = []\<rparr>,
        wk_queue = \<lparr>work_clock = now, work_rows = [], next_token = 0\<rparr>, wk_requeued = [], wk_events = []\<rparr>,
      analysed = []\<rparr>"

definition system_inv :: "commit_links \<Rightarrow> system \<Rightarrow> bool" where
  "system_inv objects s \<longleftrightarrow>
     seq_inv (history_of objects) (wk_seq (working s)) \<and> list_all (seq_inv (history_of objects)) (analysed s)"

lemma repair_sequence_cases [consumes 1, case_names stale same commit]:
  assumes "repair_sequence g look live locked repository branch correlation db w = (w', r)"
  obtains reason where "repair_stale repository branch reason w = (w', r)"
  | "wk_seq w' = wk_seq w" "\<forall>old e d to h n. r \<noteq> Repair_done (Repaired old e d to h n)"
  | plan where "analyse_repair g repository branch db = Analysis_mismatch plan"
      "commit_repair g look live locked repository branch correlation plan w = (w', r)"
  using assms by (cases "analyse_repair g repository branch db")
    (auto simp: repair_sequence_def Let_def request_queue_def)

lemma assign_merge_numbers_space:
  assumes "assign_merge_numbers repository branch epoch as db = Some (db', n)"
  shows "entries_of repository' branch' epoch' db' = entries_of repository' branch' epoch' db"
    and "spaces db' = spaces db" and "table_ok (merges db) \<Longrightarrow> table_ok (merges db')"
proof -
  let ?f = "\<lambda>r. case assign_row repository branch epoch (db_now db) as r of None \<Rightarrow> r | Some r' \<Rightarrow> r'"
  from assms have db': "db' = db \<or> db' = db\<lparr>merges := map ?f (merges db)\<rparr> \<and> table_ok (merges db')"
    by (auto simp: assign_merge_numbers_def Let_def with_merges_Some_iff split: if_splits)
  have "entries_of repository' branch' epoch' (db\<lparr>merges := map ?f (merges db)\<rparr>) = entries_of repository' branch' epoch' db"
    by (rule entries_of_map)
      (auto simp: assign_row_def numbered_row_def in_space_def entry_of_def split: option.splits if_splits)
  with db' show "entries_of repository' branch' epoch' db' = entries_of repository' branch' epoch' db" by auto
  from db' show "spaces db' = spaces db" "table_ok (merges db) \<Longrightarrow> table_ok (merges db')" by auto
qed

lemma seq_inv_same_view:
  assumes "seq_inv history db" "spaces db' = spaces db" "table_ok (merges db')"
    and "\<And>repository branch epoch. entries_of repository branch epoch db' = entries_of repository branch epoch db"
  shows "seq_inv history db'"
proof -
  have "space_ok history db' repository branch = space_ok history db repository branch" for repository branch
    by (rule space_ok_cong) (simp_all add: find_sequence_space_def assms(2,4))
  with assms(1,3) show ?thesis by (simp add: seq_inv_def)
qed

lemma seq_inv_same_tables:
  assumes "seq_inv history db" "merges db' = merges db" "spaces db' = spaces db"
  shows "seq_inv history db'"
  using seq_inv_same_view[OF assms(1,3)] seq_invD(1)[OF assms(1)] entries_of_cong[OF assms(2)] assms(2) by simp

lemma checkpoint_inv:
  assumes "seq_inv history db" "advance_merge_number_checkpoint repository branch epoch ck db = Some (db', applied)"
  shows "seq_inv history db'"
proof -
  from assms(2) have up: "update_space repository branch (\<lambda>sp. if sp_epoch sp = epoch then checkpointed (db_now db) ck sp else sp) db = Some db'"
    by (auto simp: advance_merge_number_checkpoint_def)
  show ?thesis by (rule update_space_inv[OF assms(1) up]) (simp add: checkpointed_def space_key_def)
qed

lemma system_inv_chain:
  assumes "chain_step objects s s'" and inv: "system_inv objects s"
  shows "system_inv objects s'"
  using assms(1)
proof cases
  case (Assign g look locked publishes repository branch correlation w r)
  then show ?thesis using inv api.assign_sequence_inv by (fastforce simp: system_inv_def serves_def)
next
  case (Reassign g look locked repository branch stored_head new_head correlation w r)
  then show ?thesis using inv api.reassign_sequence_inv by (fastforce simp: system_inv_def serves_def)
next
  case (Repair g db look live locked repository branch correlation w r)
  have db: "seq_inv (history_of objects) db" and w: "seq_inv (history_of objects) (wk_seq (working s))"
    using inv Repair(3) by (auto simp: system_inv_def list_all_iff)
  from Repair(4) have "seq_inv (history_of objects) (wk_seq w)"
  proof (cases rule: repair_sequence_cases)
    case (stale reason)
    with w repair_stale_inv show ?thesis by blast
  next
    case (commit plan)
    from Repair(2) obtain dates shown where "follows (api_between (github_listing objects dates shown)) g"
      by (auto simp: serves_def)
    from api.commit_repair_inv[OF w db this commit] show ?thesis .
  qed (use w in \<open>simp add: seq_inv_def space_ok_def entries_of_def space_rows_def find_sequence_space_def\<close>)
  with Repair(1) inv show ?thesis by (simp add: system_inv_def)
next
  case (Tick now)
  with inv show ?thesis using seq_inv_same_tables by (fastforce simp: system_inv_def on_db_def)
next
  case (Register rs)
  with inv show ?thesis using seq_inv_same_tables by (fastforce simp: system_inv_def on_db_def)
qed (use inv in \<open>auto simp: system_inv_def\<close>)

lemma system_inv_step:
  assumes "seq_step objects s s'" and inv: "system_inv objects s"
  shows "system_inv objects s'"
  using assms(1)
proof cases
  case Chain
  from system_inv_chain[OF this inv] show ?thesis .
next
  case (Number repository branch epoch as db n)
  note a = assign_merge_numbers_space[OF Number(2)]
  have w: "seq_inv (history_of objects) (wk_seq (working s))" using inv by (simp add: system_inv_def)
  have "seq_inv (history_of objects) db"
    by (rule seq_inv_same_view[OF w a(2) a(3)[OF seq_invD(1)[OF w]] a(1)])
  with Number(1) inv show ?thesis by (simp add: system_inv_def on_db_def)
next
  case (Checkpoint repository branch epoch ck db applied)
  with inv checkpoint_inv show ?thesis by (fastforce simp: system_inv_def on_db_def)
qed (use inv in \<open>simp add: system_inv_def\<close>)

interpretation sequence_runs: invariant_system "\<lambda>s. \<exists>now. s = new_system now" "seq_step objects" "system_inv objects" for objects
proof
  fix s assume "\<exists>now. s = new_system now"
  then show "system_inv objects s"
    by (auto simp: system_inv_def new_system_def seq_inv_def table_ok_def space_ok_def find_sequence_space_def
        entries_of_def space_rows_def)
qed (rule system_inv_step)

section \<open>Numbers follow the history\<close>

lemma ordered_seqs:
  assumes "table_ok (merges db)" "fst ` entries_of repository branch epoch db = {1..n}"
  shows "map ms_seq (ordered_rows repository branch epoch db) = [1..n]"
proof -
  let ?rows = "ordered_rows repository branch epoch db"
  have "distinct (map ms_seq (space_rows repository branch epoch db))" by (rule space_keys_distinct(1)[OF assms(1)])
  then have "distinct (map ms_seq ?rows)"
    by (simp add: ordered_rows_def distinct_map)
  moreover have "sorted (map ms_seq ?rows)" by (simp add: ordered_rows_def)
  moreover have "set (map ms_seq ?rows) = set [1..n]"
    using assms(2) by (simp add: entries_of_def entry_of_def image_image)
  ultimately show ?thesis by (intro sorted_distinct_set_unique) (simp_all add: sorted_upto)
qed

lemma ordered_chain:
  assumes "table_ok (merges db)" "entries_of repository branch epoch db = numbered_from 0 xs"
  shows "map ms_seq (ordered_rows repository branch epoch db) = [1..int (length xs)]"
    and "map ms_sha (ordered_rows repository branch epoch db) = xs"
proof -
  let ?rows = "ordered_rows repository branch epoch db"
  show seqs: "map ms_seq ?rows = [1..int (length xs)]"
    by (rule ordered_seqs[OF assms(1)]) (simp add: assms(2) fst_numbered_from)
  have len: "length ?rows = length xs" using arg_cong[OF seqs, of length] by simp
  show "map ms_sha ?rows = xs"
  proof (rule nth_equalityI)
    fix i assume "i < length (map ms_sha ?rows)"
    then have i: "i < length ?rows" "i < length xs" using len by auto
    from i(1) have "?rows ! i \<in> set (space_rows repository branch epoch db)" using nth_mem[OF i(1)] by simp
    then have "entry_of (?rows ! i) \<in> numbered_from 0 xs" unfolding assms(2)[symmetric] entries_of_def by blast
    moreover have "ms_seq (?rows ! i) = int i + 1" using arg_cong[OF seqs, of "\<lambda>l. l ! i"] i by simp
    ultimately show "map ms_sha ?rows ! i = xs ! i" using i by (auto simp: entry_of_def elim: numbered_fromE)
  qed (simp add: len)
qed

text \<open>C5: The numbers of a branch follow its history: in every state reached by any number of workers
  that assign, renumber and repair over one database, interleaved with numbering,
  registrations and the clock, with the commit graph read through the GitHub API, the rows of
  the current epoch are numbered 1 to n without a gap, the commit with number i is the i-th of
  the first-parent chain of the stored head, n is the stored head number, and the integrity
  check finds no mismatch.\<close>

theorem numbers_follow_history:
  assumes "reaches (\<lambda>s. \<exists>now. s = new_system now) (seq_step objects) s"
    and "find_sequence_space repository branch (wk_seq (working s)) = Some sp"
  shows "case sp_head sp of
      None \<Rightarrow> sp_head_seq sp = 0 \<and> ordered_rows repository branch (sp_epoch sp) (wk_seq (working s)) = []
    | Some h \<Rightarrow> \<exists>xs. history_of objects h = Some xs \<and> sp_head_seq sp = int (length xs) \<and>
        map ms_seq (ordered_rows repository branch (sp_epoch sp) (wk_seq (working s))) = [1..int (length xs)] \<and>
        map ms_sha (ordered_rows repository branch (sp_epoch sp) (wk_seq (working s))) = xs \<and>
        first_sequence_mismatch (list_stored_sequence repository branch (sp_epoch sp) 1 (wk_seq (working s))) xs = None"
proof -
  let ?db = "wk_seq (working s)"
  let ?E = "entries_of repository branch (sp_epoch sp) ?db"
  have inv: "seq_inv (history_of objects) ?db" using sequence_runs.reaches_inv[OF assms(1)] by (simp add: system_inv_def)
  note ok = seq_invD(1)[OF inv] and chain = space_okD(1)[OF inv assms(2)]
  show ?thesis
  proof (cases "sp_head sp")
    case None
    with chain have "sp_head_seq sp = 0" "?E = numbered_from 0 []" by (simp_all add: chain_ok_def)
    with None ordered_chain[OF ok this(2)] show ?thesis by simp
  next
    case (Some h)
    with chain obtain xs where xs: "history_of objects h = Some xs" "?E = numbered_from 0 xs" "sp_head_seq sp = int (length xs)"
      by (auto simp: chain_ok_def)
    have "first_sequence_mismatch (list_stored_sequence repository branch (sp_epoch sp) 1 ?db) xs = None"
      unfolding no_mismatch_iff xs(2) by (auto simp: agrees_def elim!: numbered_fromE)
    with Some xs(1,3) ordered_chain[OF ok xs(2)] show ?thesis by auto
  qed
qed

section \<open>A run\<close>

text \<open>The graph over the API (\<open>ApiCommitGraph\<close>), with the texts of its errors left to a parameter.\<close>

definition answer_of :: "(api_error \<Rightarrow> jstr) \<Rightarrow> (api_error, 'a) result option \<Rightarrow> (jstr, 'a) result" where
  "answer_of show r = (case r of None \<Rightarrow> Inl [] | Some (Inl e) \<Rightarrow> Inl (show e) | Some (Inr x) \<Rightarrow> Inr x)"

definition api_graph ::
    "(api_error \<Rightarrow> jstr) \<Rightarrow> (jstr \<Rightarrow> jstr option option) \<Rightarrow> (jstr \<Rightarrow> jstr \<Rightarrow> comparison option) \<Rightarrow>
     (jstr \<Rightarrow> (commit_item list \<times> bool) option) \<Rightarrow> graph" where
  "api_graph show heads compare listing =
     \<lparr>resolve_head = (\<lambda>b. case heads b of None \<Rightarrow> Inl (show Call_failed) | Some h \<Rightarrow> Inr h),
      is_ancestor = (\<lambda>a d. answer_of show (Some (api_is_ancestor compare a d))),
      merge_base = (\<lambda>a b. answer_of show (Some (api_merge_base compare a b))),
      first_parent_commits = (\<lambda>c h. answer_of show (api_first_parent_commits listing \<lparr>range_from = c, range_to = h\<rparr>)),
      first_parent_rev_list = (\<lambda>c h. answer_of show (api_rev_list listing \<lparr>range_from = c, range_to = h\<rparr>))\<rparr>"

lemma answer_of_Inr: "answer_of show r = Inr x \<longleftrightarrow> r = Some (Inr x)"
  by (auto simp: answer_of_def split: option.splits sum.splits)

lemma api_graph_follows: "follows (api_between listing) (api_graph show heads compare listing)"
  by (auto simp: follows_def api_graph_def answer_of_Inr api_commits_between) (simp add: api_between_def)

lemma api_graph_serves: "serves objects (api_graph show heads compare (github_listing objects dates shown))"
  unfolding serves_def using api_graph_follows by blast

definition sample_sha :: "char \<Rightarrow> jstr" where
  "sample_sha c = replicate 40 (ch c)"

definition sample_objects :: commit_links where
  "sample_objects = [(sample_sha CHR ''1'', []), (sample_sha CHR ''2'', [sample_sha CHR ''1'']),
     (sample_sha CHR ''3'', [sample_sha CHR ''1''])]"

definition sample_graph :: "jstr \<Rightarrow> graph" where
  "sample_graph head = api_graph (\<lambda>_. []) (\<lambda>_. Some (Some head))
     (\<lambda>_ _. Some \<lparr>cmp_status = Some (js ''diverged''), cmp_base = Some (sample_sha CHR ''1'')\<rparr>)
     (github_listing sample_objects (\<lambda>_. Some (js ''t'')) (\<lambda>_. Some (\<lambda>_. True, False)))"

definition sample_lookups :: lookups where
  "sample_lookups = \<lparr>pr_of_commit = (\<lambda>_. Some 7), parse_date = (\<lambda>_. Some 0), error_text = []\<rparr>"

definition sample_repository_row :: repository_row where
  "sample_repository_row = \<lparr>rp_id = 1, rp_owner = js ''o'', rp_name = js ''n'', rp_status = js ''active'',
     rp_branches = [js ''main''], rp_annotate_enabled = True, rp_annotate_blocked = None, rp_tag_enabled = True,
     rp_tag_blocked = None, rp_org = 1, rp_visibility = js ''public'', rp_teams = []\<rparr>"

definition sample_system :: system where
  "sample_system = on_db ((wk_seq (working (new_system 0)))\<lparr>repos := [sample_repository_row]\<rparr>) (new_system 0)"

definition assigned_system :: system where
  "assigned_system = sample_system\<lparr>working := fst (assign_sequence (sample_graph (sample_sha CHR ''2'')) sample_lookups True True 1
     (js ''main'') [] (working sample_system))\<rparr>"

lemma assigned_reachable: "reaches (\<lambda>s. \<exists>now. s = new_system now) (seq_step sample_objects) assigned_system"
proof -
  have "reaches (\<lambda>s. \<exists>now. s = new_system now) (seq_step sample_objects) (new_system 0)" by (blast intro: reaches.start)
  then have "reaches (\<lambda>s. \<exists>now. s = new_system now) (seq_step sample_objects) sample_system"
    unfolding sample_system_def by (rule reaches.step) (rule Chain, rule Register)
  then show ?thesis
    unfolding assigned_system_def by (rule reaches.step) (rule Chain, rule Assign[OF _ prod.collapse[symmetric]], simp add: sample_graph_def api_graph_serves)
qed

lemma assigned_space:
  "map_option (\<lambda>sp. (sp_epoch sp, sp_head sp, sp_head_seq sp, sp_state sp))
     (find_sequence_space 1 (js ''main'') (wk_seq (working assigned_system))) = Some (1, Some (sample_sha CHR ''2''), 2, Space_ok)"
  by code_simp

lemma assigned_rows:
  "map entry_of (ordered_rows 1 (js ''main'') 1 (wk_seq (working assigned_system))) =
     [(1, sample_sha CHR ''1''), (2, sample_sha CHR ''2'')]"
  by code_simp

theorem numbers_follow_history_witness:
  "\<exists>xs. history_of sample_objects (sample_sha CHR ''2'') = Some xs \<and>
     map ms_sha (ordered_rows 1 (js ''main'') 1 (wk_seq (working assigned_system))) = xs"
proof -
  obtain sp where "find_sequence_space 1 (js ''main'') (wk_seq (working assigned_system)) = Some sp"
    "sp_epoch sp = 1" "sp_head sp = Some (sample_sha CHR ''2'')"
    using assigned_space by auto
  with numbers_follow_history[OF assigned_reachable, of 1 "js ''main''" sp] show ?thesis by auto
qed

text \<open>The branch is then pushed over: its second commit is replaced by another child of the first one.\<close>

definition rewritten_system :: system where
  "rewritten_system = assigned_system\<lparr>working := fst (reassign_sequence (sample_graph (sample_sha CHR ''3'')) sample_lookups True 1
     (js ''main'') (sample_sha CHR ''2'') (sample_sha CHR ''3'') [] (working assigned_system))\<rparr>"

lemma rewritten_step: "seq_step sample_objects assigned_system rewritten_system"
  unfolding rewritten_system_def
  by (rule Chain, rule Reassign[OF _ prod.collapse[symmetric]]) (simp add: sample_graph_def api_graph_serves)

end
