(* ===== verification/Worker_Rows.thy ===== *)
theory Worker_Rows
  imports Worker_Runs
begin

text \<open>
  The numbers a run of the workers has given out: rows are added and completed, never changed, so that
  what was once cited by its number or its merge number is found again in every later state.
\<close>

section \<open>What the workers write\<close>

text \<open>
  Assignments, new epochs and repairs add rows without a merge number and fill in the pull request of a
  row that has none.
\<close>

definition row_written :: "merge_row \<Rightarrow> merge_row \<Rightarrow> bool" where
  "row_written r r' \<longleftrightarrow> (\<exists>pr. r' = r\<lparr>ms_pr := pr\<rparr> \<and> (ms_pr r = None \<or> pr = ms_pr r))"

definition rows_written :: "seq_db \<Rightarrow> seq_db \<Rightarrow> bool" where
  "rows_written db db' \<longleftrightarrow>
     (\<exists>f new. merges db' = map f (merges db) @ new \<and> (\<forall>r. row_written r (f r)) \<and> (\<forall>r \<in> set new. \<not> is_numbered r))"

text \<open>A space keeps its checkpoint of the merge numbers, or it is new or has a new epoch and no numbers yet.\<close>

definition checkpoint_kept :: "space_row option \<Rightarrow> space_row option \<Rightarrow> bool" where
  "checkpoint_kept old new \<longleftrightarrow>
     (case new of
        None \<Rightarrow> old = None
      | Some sp' \<Rightarrow>
          (case old of
             None \<Rightarrow> sp_number_seq sp' = 0 \<and> sp_number sp' = 0
           | Some sp \<Rightarrow>
               sp_epoch sp' = sp_epoch sp \<and> sp_number_seq sp' = sp_number_seq sp \<and> sp_number sp' = sp_number sp \<or>
               sp_epoch sp' > sp_epoch sp \<and> sp_number_seq sp' = 0 \<and> sp_number sp' = 0))"

definition checkpoints_kept :: "seq_db \<Rightarrow> seq_db \<Rightarrow> bool" where
  "checkpoints_kept db db' \<longleftrightarrow>
     (\<forall>repository branch. checkpoint_kept (find_sequence_space repository branch db) (find_sequence_space repository branch db'))"

definition chain_change :: "seq_db \<Rightarrow> seq_db \<Rightarrow> bool" where
  "chain_change db db' \<longleftrightarrow> rows_written db db' \<and> checkpoints_kept db db'"

lemma row_written_refl [simp]: "row_written r r"
  unfolding row_written_def by (rule exI[of _ "ms_pr r"]) simp

lemma row_written_trans:
  assumes "row_written r r'" "row_written r' r''"
  shows "row_written r r''"
proof -
  obtain pr where pr: "r' = r\<lparr>ms_pr := pr\<rparr>" "ms_pr r = None \<or> pr = ms_pr r" using assms(1) by (auto simp: row_written_def)
  obtain pr' where pr': "r'' = r'\<lparr>ms_pr := pr'\<rparr>" "ms_pr r' = None \<or> pr' = ms_pr r'" using assms(2) by (auto simp: row_written_def)
  show ?thesis unfolding row_written_def by (rule exI[of _ pr']) (use pr pr' in auto)
qed

lemma row_written_same:
  assumes "row_written r r'"
  shows "ms_number r' = ms_number r" "pk_of r' = pk_of r" "ms_sha r' = ms_sha r" "ms_seq r' = ms_seq r"
    "in_space repository branch epoch r' = in_space repository branch epoch r"
  using assms by (auto simp: row_written_def pk_of_def in_space_def)

lemma rows_writtenI: "merges db' = map f (merges db) @ new \<Longrightarrow> (\<And>r. row_written r (f r)) \<Longrightarrow>
    (\<And>r. r \<in> set new \<Longrightarrow> \<not> is_numbered r) \<Longrightarrow> rows_written db db'"
  unfolding rows_written_def by blast

lemma rows_written_same: "merges db' = merges db \<Longrightarrow> rows_written db db'"
  by (rule rows_writtenI[of _ "\<lambda>r. r" _ "[]"]) auto

lemma rows_written_trans:
  assumes "rows_written db db'" "rows_written db' db''"
  shows "rows_written db db''"
proof -
  obtain f new where f: "merges db' = map f (merges db) @ new" "\<And>r. row_written r (f r)" "\<And>r. r \<in> set new \<Longrightarrow> \<not> is_numbered r"
    using assms(1) by (auto simp: rows_written_def)
  obtain g new' where g: "merges db'' = map g (merges db') @ new'" "\<And>r. row_written r (g r)" "\<And>r. r \<in> set new' \<Longrightarrow> \<not> is_numbered r"
    using assms(2) by (auto simp: rows_written_def)
  show ?thesis
  proof (rule rows_writtenI[of _ "\<lambda>r. g (f r)" _ "map g new @ new'"])
    show "row_written r (g (f r))" for r by (rule row_written_trans[OF f(2) g(2)])
    show "\<not> is_numbered r" if "r \<in> set (map g new @ new')" for r
      using that f(3) g(3) row_written_same(1)[OF g(2)] by (auto simp: is_numbered_def)
  qed (simp add: f(1) g(1))
qed

lemma checkpoint_kept_refl [simp]: "checkpoint_kept sp sp"
  by (simp add: checkpoint_kept_def split: option.split)

lemma checkpoint_kept_trans: "checkpoint_kept a b \<Longrightarrow> checkpoint_kept b c \<Longrightarrow> checkpoint_kept a c"
  by (cases a; cases b; cases c) (auto simp: checkpoint_kept_def)

lemma checkpoints_kept_same: "spaces db' = spaces db \<Longrightarrow> checkpoints_kept db db'"
  by (simp add: checkpoints_kept_def find_sequence_space_def)

lemma checkpoints_kept_trans: "checkpoints_kept db db' \<Longrightarrow> checkpoints_kept db' db'' \<Longrightarrow> checkpoints_kept db db''"
  unfolding checkpoints_kept_def using checkpoint_kept_trans by blast

lemma chain_change_refl [simp]: "chain_change db db"
  by (simp add: chain_change_def rows_written_same checkpoints_kept_same)

lemma chain_change_same: "wk_seq w' = wk_seq w \<Longrightarrow> chain_change (wk_seq w) (wk_seq w')"
  by simp

lemma chain_change_trans: "chain_change db db' \<Longrightarrow> chain_change db' db'' \<Longrightarrow> chain_change db db''"
  unfolding chain_change_def using rows_written_trans checkpoints_kept_trans by blast

lemma upsert_chain_change:
  assumes "upsert_merge_sequence e db = Some db'"
  shows "chain_change db db'"
proof -
  let ?f = "\<lambda>r. if pk_of r = pk_of (new_merge_row e) then r\<lparr>ms_pr := coalesce (ms_pr r) (in_pr e)\<rparr> else r"
  have f: "row_written r (?f r)" for r
    unfolding row_written_def by (rule exI[of _ "ms_pr (?f r)"]) (auto simp: coalesce_def split: option.splits)
  from assms have "merges db' = merges db @ [new_merge_row e] \<or> merges db' = map ?f (merges db)" "spaces db' = spaces db"
    by (auto simp: upsert_merge_sequence_def with_merges_Some_iff split: option.splits if_splits)
  moreover have "\<not> is_numbered (new_merge_row e)" by (simp add: is_numbered_def new_merge_row_def)
  ultimately have "rows_written db db'"
    using rows_writtenI[of db' "\<lambda>r. r" db "[new_merge_row e]"] rows_writtenI[of db' ?f db "[]"] f by auto
  with \<open>spaces db' = spaces db\<close> show ?thesis by (simp add: chain_change_def checkpoints_kept_same)
qed

lemma upsert_all_chain_change: "upsert_all look repository branch epoch cs db = Some db' \<Longrightarrow> chain_change db db'"
proof (induction cs arbitrary: db)
  case (Cons c cs)
  then show ?case by (auto simp: bind_eq_Some_conv dest!: upsert_chain_change intro: chain_change_trans)
qed simp

lemma update_space_chain_change:
  assumes "update_space repository branch f db = Some db'"
    and "\<And>sp. space_key (f sp) = space_key sp"
    and "\<And>sp. sp_epoch (f sp) = sp_epoch sp \<and> sp_number_seq (f sp) = sp_number_seq sp \<and> sp_number (f sp) = sp_number sp \<or>
      sp_epoch (f sp) > sp_epoch sp \<and> sp_number_seq (f sp) = 0 \<and> sp_number (f sp) = 0"
  shows "chain_change db db'"
proof -
  note same = update_space_same[OF assms(1,2)]
  have "checkpoint_kept (find_sequence_space repository' branch' db) (find_sequence_space repository' branch' db')"
    for repository' branch'
  proof (cases "(repository', branch') = (repository, branch)")
    case True
    with same(4) assms(3) show ?thesis by (auto simp: checkpoint_kept_def split: option.split)
  next
    case False
    then have "find_sequence_space repository' branch' db' = find_sequence_space repository' branch' db"
      using same(1) by (simp add: same_elsewhere_def)
    then show ?thesis by simp
  qed
  with same(2) show ?thesis by (simp add: chain_change_def rows_written_same checkpoints_kept_def)
qed

lemma add_space_chain_change:
  assumes "with_spaces (spaces db @ [sp]) db = Some db'" "space_key sp = (repository, branch)"
    and "find_sequence_space repository branch db = None" "sp_number_seq sp = 0" "sp_number sp = 0"
  shows "chain_change db db'"
  using assms
  by (auto simp: chain_change_def with_spaces_def checkpoints_kept_def checkpoint_kept_def find_sequence_space_def find_append rows_written_same
      split: if_splits option.splits)

lemma new_space_numbers [simp]:
  "space_key (new_space repository branch) = (repository, branch)" "sp_number_seq (new_space repository branch) = 0"
  "sp_number (new_space repository branch) = 0"
  by (simp_all add: new_space_def space_key_def)

lemma ensure_space_chain_change:
  assumes "ensure_sequence_space repository branch db = Some db'"
  shows "chain_change db db'"
proof (cases "find_sequence_space repository branch db")
  case None
  with assms have "with_spaces (spaces db @ [new_space repository branch]) db = Some db'"
    by (simp add: ensure_sequence_space_def)
  from add_space_chain_change[OF this _ None] show ?thesis by simp
qed (use assms in \<open>simp add: ensure_sequence_space_def\<close>)

lemma mark_stale_chain_change:
  assumes "mark_stale repository branch reason db = Some db'"
  shows "chain_change db db'"
proof (cases "find_sequence_space repository branch db")
  case None
  with assms have "with_spaces (spaces db @ [(new_space repository branch)\<lparr>sp_state := Space_stale, sp_error := Some (take 500 reason)\<rparr>]) db
      = Some db'"
    by (simp add: mark_stale_def Let_def)
  from add_space_chain_change[OF this _ None] show ?thesis by (simp add: space_key_def new_space_def)
next
  case (Some sp)
  with assms have "update_space repository branch (\<lambda>sp. sp\<lparr>sp_state := Space_stale, sp_error := Some (take 500 reason)\<rparr>) db = Some db'"
    by (simp add: mark_stale_def Let_def)
  from update_space_chain_change[OF this] show ?thesis by (simp add: space_key_def)
qed

lemma mark_chain_change:
  "mark_reassigning repository branch db = Some db' \<Longrightarrow> chain_change db db'"
  "restore_sequence_state repository branch st err db = Some db' \<Longrightarrow> chain_change db db'"
  "advance_head repository branch sha seq db = Some db' \<Longrightarrow> chain_change db db'"
  unfolding mark_reassigning_def restore_sequence_state_def advance_head_def
  by (erule update_space_chain_change; simp add: space_key_def)+

lemma open_epoch_chain_change:
  assumes "open_epoch repository branch old_epoch base_seq db = Some (db', new_epoch)"
  shows "chain_change db db'"
proof -
  from assms obtain db1 where bump: "bump_epoch repository branch db = Some (db1, new_epoch)"
    and rest: "(if base_seq > 0
      then map_option (\<lambda>(db2, n). (db2, new_epoch)) (copy_sequences_up_to repository branch old_epoch new_epoch base_seq db1)
      else Some (db1, new_epoch)) = Some (db', new_epoch)"
    by (auto simp: open_epoch_def bind_eq_Some_conv split: if_splits)
  from bump obtain f where f: "update_space repository branch f db = Some db1"
    "\<And>sp. space_key (f sp) = space_key sp" "\<And>sp. sp_epoch (f sp) > sp_epoch sp \<and> sp_number_seq (f sp) = 0 \<and> sp_number (f sp) = 0"
    by (auto simp: bump_epoch_def space_key_def split: option.splits)
  have "chain_change db db1" by (rule update_space_chain_change[OF f(1,2)]) (use f(3) in auto)
  moreover have "chain_change db1 db'"
  proof (cases "base_seq > 0")
    case True
    let ?new = "copies_up_to repository branch old_epoch new_epoch base_seq db1"
    from True rest have "db' = db1\<lparr>merges := merges db1 @ ?new\<rparr>"
      by (auto simp: copy_sequences_up_to_def Let_def with_merges_Some_iff)
    moreover have "\<not> is_numbered r" if "r \<in> set ?new" for r
      using that by (auto simp: copies_up_to_def copied_row_def new_merge_row_def is_numbered_def)
    ultimately show ?thesis
      using rows_writtenI[of db' "\<lambda>r. r" db1 ?new] by (simp add: chain_change_def checkpoints_kept_same)
  qed (use rest in simp)
  ultimately show ?thesis by (rule chain_change_trans)
qed

lemma outcome_chain_change:
  "stale_outcome repository branch reason w = (w', r) \<Longrightarrow> chain_change (wk_seq w) (wk_seq w')"
  "repair_stale repository branch reason w = (w', r') \<Longrightarrow> chain_change (wk_seq w) (wk_seq w')"
  "restore_repair_state repository branch plan reason w = (w', r') \<Longrightarrow> chain_change (wk_seq w) (wk_seq w')"
  by (auto simp: stale_outcome_def repair_stale_def restore_repair_state_def dest: mark_stale_chain_change mark_chain_change
      split: option.splits)

lemma epoch_written_chain_change:
  assumes "epoch_written g look repository branch base_seq base_sha new_head sp cs new_epoch db db'"
  shows "chain_change db db'"
  using assms
  by (auto simp: epoch_written_def fill_epoch_def dest!: open_epoch_chain_change upsert_all_chain_change close_epoch_head
      mark_chain_change(3) intro: chain_change_trans)

lemma assign_chain_change:
  assumes "assign_sequence g look locked publishes repository branch correlation w = (w', r)"
  shows "chain_change (wk_seq w) (wk_seq w')"
  using assms
proof (cases rule: assign_sequence_cases)
  case (space db)
  note first = ensure_space_chain_change[OF space(1)]
  from space(2) show ?thesis
  proof (cases rule: assign_in_space_cases)
    case (stale reason)
    then show ?thesis by (rule outcome_chain_change)
  next
    case (commits sp new_head cs v)
    from commits(3,4) have "chain_change db (wk_seq w')"
      by (auto simp: assign_commits_def Let_def bind_eq_Some_conv request_queue_def requeue_links_def
          dest!: upsert_all_chain_change mark_chain_change(3) intro: chain_change_trans split: if_splits)
    with first show ?thesis by (rule chain_change_trans)
  qed simp
qed simp

lemma reassign_chain_change:
  assumes "reassign_sequence g look locked repository branch stored_head new_head correlation w = (w', r)"
  shows "chain_change (wk_seq w) (wk_seq w')"
  using assms
proof (cases rule: reassign_sequence_cases)
  case (marked db)
  then show ?thesis by (simp add: mark_chain_change)
next
  case (stale db reason)
  from mark_chain_change(1)[OF stale(1)] outcome_chain_change(1)[OF stale(2)] show ?thesis by (auto intro: chain_change_trans)
next
  case (space db sp)
  from space(4) have "chain_change db (wk_seq w')"
    by (cases rule: reassign_in_space_cases) (auto dest: outcome_chain_change epoch_written_chain_change)
  with mark_chain_change(1)[OF space(1)] show ?thesis by (rule chain_change_trans)
qed simp

lemma repair_chain_change:
  assumes "repair_sequence g look live locked repository branch correlation db w = (w', r)"
  shows "chain_change (wk_seq w) (wk_seq w')"
  using assms
proof (cases rule: repair_sequence_cases)
  case (stale reason)
  then show ?thesis by (rule outcome_chain_change)
next
  case same
  then show ?thesis by (simp add: chain_change_same)
next
  case (commit plan)
  from commit(2) show ?thesis
  proof (cases rule: commit_repair_cases)
    case (stale reason w1)
    from stale(1) have "chain_change (wk_seq w) (wk_seq w1)" by (auto dest: mark_chain_change)
    with outcome_chain_change(2)[OF stale(2)] show ?thesis by (rule chain_change_trans[rotated])
  next
    case (restored db reason)
    from mark_chain_change(1)[OF restored(1)] outcome_chain_change(3)[OF restored(2)] show ?thesis by (auto intro: chain_change_trans)
  next
    case (written sp db sp' cs new_epoch affected)
    from mark_chain_change(1)[OF written(4)] epoch_written_chain_change[OF written(8)] show ?thesis by (rule chain_change_trans)
  qed simp
qed

section \<open>Rows are kept\<close>

text \<open>
  What every statement of the workers leaves of a row: its position and its commit, its pull request
  once it has one, and its merge number once it has one.
\<close>

definition kept_row :: "merge_row \<Rightarrow> merge_row \<Rightarrow> bool" where
  "kept_row r r' \<longleftrightarrow>
     pk_of r' = pk_of r \<and> ms_sha r' = ms_sha r \<and> (ms_pr r = None \<or> ms_pr r' = ms_pr r) \<and>
     (ms_number r = None \<or> ms_number r' = ms_number r)"

definition rows_kept :: "seq_db \<Rightarrow> seq_db \<Rightarrow> bool" where
  "rows_kept db db' \<longleftrightarrow> (\<forall>r \<in> set (merges db). \<exists>r' \<in> set (merges db'). kept_row r r')"

lemma kept_row_refl [simp]: "kept_row r r"
  by (simp add: kept_row_def)

lemma kept_row_trans: "kept_row r r' \<Longrightarrow> kept_row r' r'' \<Longrightarrow> kept_row r r''"
  by (auto simp: kept_row_def)

lemma rows_kept_same [simp]: "merges db' = merges db \<Longrightarrow> rows_kept db db'"
  by (auto simp: rows_kept_def intro: kept_row_refl)

lemma rows_kept_trans: "rows_kept db db' \<Longrightarrow> rows_kept db' db'' \<Longrightarrow> rows_kept db db''"
  unfolding rows_kept_def using kept_row_trans by meson

lemma rows_kept_map: "merges db' = map f (merges db) \<Longrightarrow> (\<And>r. kept_row r (f r)) \<Longrightarrow> rows_kept db db'"
  by (auto simp: rows_kept_def)

lemma row_written_kept: "row_written r r' \<Longrightarrow> kept_row r r'"
  by (auto simp: row_written_def kept_row_def pk_of_def)

lemma chain_change_keeps_rows: "chain_change db db' \<Longrightarrow> rows_kept db db'"
  unfolding chain_change_def rows_written_def rows_kept_def using row_written_kept by (metis UnI1 image_eqI set_append set_map)

lemma assign_row_kept: "kept_row r (case assign_row repository branch epoch now as r of None \<Rightarrow> r | Some r' \<Rightarrow> r')"
proof (cases "assign_row repository branch epoch now as r")
  case (Some r')
  then obtain a where a: "find (accepts r) as = Some a" "r' = numbered_row now a r"
    by (auto simp: assign_row_def split: if_splits)
  then have "accepts r a" by (auto simp: find_Some_iff)
  with Some a show ?thesis by (auto simp: accepts_def numbered_row_def kept_row_def pk_of_def)
qed simp

lemma numbering_keeps_rows:
  assumes "assign_merge_numbers repository branch epoch as db = Some (db', n)"
  shows "rows_kept db db'"
proof -
  let ?f = "\<lambda>r. case assign_row repository branch epoch (db_now db) as r of None \<Rightarrow> r | Some r' \<Rightarrow> r'"
  from assms have "db' = db \<or> merges db' = map ?f (merges db)"
    by (auto simp: assign_merge_numbers_def Let_def with_merges_Some_iff split: if_splits)
  then show ?thesis using rows_kept_map[of db' ?f db] assign_row_kept by auto
qed

lemma checkpoint_keeps_rows: "advance_merge_number_checkpoint repository branch epoch ck db = Some (db', b) \<Longrightarrow> rows_kept db db'"
  by (auto simp: advance_merge_number_checkpoint_def update_space_def with_spaces_def split: if_splits)

lemma chain_step_change:
  assumes "chain_step objects s s'"
  shows "chain_change (wk_seq (working s)) (wk_seq (working s'))"
  using assms
proof cases
  case Assign
  from assign_chain_change[OF Assign(3)] Assign(1) show ?thesis by simp
next
  case Reassign
  from reassign_chain_change[OF Reassign(3)] Reassign(1) show ?thesis by simp
next
  case Repair
  from repair_chain_change[OF Repair(4)] Repair(1) show ?thesis by simp
qed (simp_all add: on_db_def chain_change_def rows_written_same checkpoints_kept_same)

lemma step_keeps_rows:
  assumes "seq_step objects s s'"
  shows "rows_kept (wk_seq (working s)) (wk_seq (working s'))"
  using assms
proof cases
  case Chain
  from chain_change_keeps_rows[OF chain_step_change[OF this]] show ?thesis .
next
  case Number
  from numbering_keeps_rows[OF Number(2)] Number(1) show ?thesis by (simp add: on_db_def)
next
  case Checkpoint
  from checkpoint_keeps_rows[OF Checkpoint(2)] Checkpoint(1) show ?thesis by (simp add: on_db_def)
qed simp

lemma run_keeps_rows:
  assumes "rtranclp (seq_step objects) s s'"
  shows "rows_kept (wk_seq (working s)) (wk_seq (working s'))"
  using assms
proof induction
  case (step t u)
  from step(3) step_keeps_rows[OF step(2)] show ?case by (rule rows_kept_trans)
qed simp

lemma run_reaches:
  assumes "reaches init step s" "rtranclp step s s'"
  shows "reaches init step s'"
  using assms(2)
proof induction
  case (step t u)
  from step(3,2) show ?case by (rule reaches.step)
qed (rule assms(1))

lemma find_unique:
  assumes "x \<in> set xs" "P x" "\<And>y. y \<in> set xs \<Longrightarrow> P y \<Longrightarrow> y = x"
  shows "find P xs = Some x"
proof (cases "find P xs")
  case None
  with assms(1,2) show ?thesis by (auto simp: find_None_iff)
next
  case (Some y)
  then have "y \<in> set xs" "P y" by (auto simp: find_Some_iff)
  with Some assms(3) show ?thesis by blast
qed

lemma find_row_in_table:
  assumes "table_ok (merges db)" "r \<in> set (space_rows repository branch epoch db)"
  shows "find (\<lambda>x. ms_seq x = ms_seq r) (space_rows repository branch epoch db) = Some r"
    and "find (\<lambda>x. ms_sha x = ms_sha r) (space_rows repository branch epoch db) = Some r"
    and "ms_number r = Some n \<Longrightarrow> find_row_by_merge_number repository branch epoch n db = Some r"
proof -
  note keys = space_keys_distinct[OF assms(1), of repository branch epoch]
  show "find (\<lambda>x. ms_seq x = ms_seq r) (space_rows repository branch epoch db) = Some r"
    by (rule find_unique[OF assms(2) refl]) (use keys(1) assms(2) in \<open>metis distinct_map inj_onD\<close>)
  show "find (\<lambda>x. ms_sha x = ms_sha r) (space_rows repository branch epoch db) = Some r"
    by (rule find_unique[OF assms(2) refl]) (use keys(2) assms(2) in \<open>metis distinct_map inj_onD\<close>)
  show "find_row_by_merge_number repository branch epoch n db = Some r" if n: "ms_number r = Some n"
    unfolding find_row_by_merge_number_def
  proof (rule find_unique)
    show "r \<in> set (space_rows repository branch epoch db)" "ms_number r = Some n" by (fact assms(2) n)+
  next
    fix y assume y: "y \<in> set (space_rows repository branch epoch db)" "ms_number y = Some n"
    have "inj_on number_key (set (filter is_numbered (merges db)))"
      using table_okD(3)[OF assms(1)] by (simp add: distinct_map)
    then show "y = r"
      by (rule inj_onD) (use y n assms(2) in \<open>auto simp: number_key_def is_numbered_def space_rows_iff in_space_def\<close>)
  qed
qed

text \<open>C6: A number that was given out never changes its meaning: whatever the workers do later, with
  rewritten histories and repairs included and the commit graph read through the GitHub API,
  the commit that had a sequence number in an epoch is still found under it, and so is the
  pull request that had a merge number.\<close>

theorem cited_numbers_never_change:
  assumes "reaches (\<lambda>s. \<exists>now. s = new_system now) (seq_step objects) s" and "rtranclp (seq_step objects) s s'"
    and "r \<in> set (space_rows repository branch epoch (wk_seq (working s)))"
  shows "map_option pt_sha (find_point_by_seq repository branch epoch (ms_seq r) (wk_seq (working s'))) = Some (ms_sha r) \<and>
    find_seq_by_commit repository branch epoch (ms_sha r) (wk_seq (working s')) = Some (ms_seq r) \<and>
    (case ms_number r of
       None \<Rightarrow> True
     | Some n \<Rightarrow> \<exists>r'. find_row_by_merge_number repository branch epoch n (wk_seq (working s')) = Some r' \<and>
         ms_seq r' = ms_seq r \<and> ms_sha r' = ms_sha r \<and> ms_pr r' = ms_pr r)"
proof -
  let ?db = "wk_seq (working s)" and ?db' = "wk_seq (working s')"
  have "reaches (\<lambda>s. \<exists>now. s = new_system now) (seq_step objects) s'" by (rule run_reaches[OF assms(1,2)])
  then have ok': "table_ok (merges ?db')" using sequence_runs.reaches_inv by (simp add: system_inv_def seq_inv_def)
  have ok: "table_ok (merges ?db)" using sequence_runs.reaches_inv[OF assms(1)] by (simp add: system_inv_def seq_inv_def)
  obtain r' where r': "r' \<in> set (merges ?db')" "kept_row r r'"
    using run_keeps_rows[OF assms(2)] assms(3) by (auto simp: rows_kept_def space_rows_iff)
  then have in': "r' \<in> set (space_rows repository branch epoch ?db')" and same: "ms_seq r' = ms_seq r" "ms_sha r' = ms_sha r"
    using assms(3) by (auto simp: space_rows_iff kept_row_def in_space_def pk_of_def)
  note found = find_row_in_table[OF ok' in', unfolded same]
  have "ms_pr r' = ms_pr r \<and> ms_number r' = Some n" if n: "ms_number r = Some n" for n
  proof -
    have "row_checks r" using table_okD(5)[OF ok] assms(3) by (simp add: space_rows_iff)
    with n have "ms_pr r \<noteq> None" by (simp add: row_checks_def is_numbered_def)
    with n r'(2) show ?thesis by (auto simp: kept_row_def)
  qed
  with found same show ?thesis
    by (auto simp: find_point_by_seq_def find_seq_by_commit_def to_point_def split: option.splits)
qed

theorem cited_numbers_never_change_witness:
  "map_option pt_sha (find_point_by_seq 1 (js ''main'') 1 2 (wk_seq (working rewritten_system))) = Some (sample_sha CHR ''2'') \<and>
   map_option pt_sha (find_point_by_seq 1 (js ''main'') 2 2 (wk_seq (working rewritten_system))) = Some (sample_sha CHR ''3'')"
proof
  have "(2, sample_sha CHR ''2'') \<in> set (map entry_of (ordered_rows 1 (js ''main'') 1 (wk_seq (working assigned_system))))"
    unfolding assigned_rows by simp
  then obtain r where r: "r \<in> set (space_rows 1 (js ''main'') 1 (wk_seq (working assigned_system)))"
    "ms_seq r = 2" "ms_sha r = sample_sha CHR ''2''"
    by (auto simp: entry_of_def)
  from cited_numbers_never_change[OF assigned_reachable r_into_rtranclp[of "seq_step sample_objects", OF rewritten_step] r(1)] r(2,3)
  show "map_option pt_sha (find_point_by_seq 1 (js ''main'') 1 2 (wk_seq (working rewritten_system))) = Some (sample_sha CHR ''2'')"
    by simp
  show "map_option pt_sha (find_point_by_seq 1 (js ''main'') 2 2 (wk_seq (working rewritten_system))) = Some (sample_sha CHR ''3'')"
    by code_simp
qed

end
