(* ===== verification/Worker_Repairs.thy ===== *)
theory Worker_Repairs
  imports Worker_Rows
begin

text \<open>
  What a repair achieves on tables that need not satisfy the invariant, and two ways in which the
  workers leave a space that only a repair or a later push mends: a merge that makes the old head a
  second parent, read through \<open>git log\<close>, and a new epoch given up because another worker was faster.
\<close>

section \<open>A repair restores the history\<close>

text \<open>C12: A committed repair restores the history, also on tables that keep their constraints but do
  not follow it: over a graph that answers as documented, when no epoch after the old one has
  rows, and the old epoch has one row for every number below the first mismatch, with the
  commits the analysis read, the new epoch is numbered 1 to n along the first-parent chain of
  the head without a mismatch, the space points to it, and the old epoch keeps its rows.\<close>

theorem repair_restores_history:
  assumes graph: "commit_graph history between" and g: "follows between g"
    and analysis: "analyse_repair g repository branch read_db = Analysis_mismatch plan"
    and run: "commit_repair g look live locked repository branch correlation plan w =
      (w', Repair_done (Repaired old_epoch new_epoch diverged to_seq head n_changed))"
    and ok: "table_ok (merges (wk_seq w))"
    and fresh: "\<forall>epoch > old_epoch. entries_of repository branch epoch (wk_seq w) = {}"
    and same: "{(n, s) \<in> entries_of repository branch old_epoch (wk_seq w). n < diverged} \<subseteq>
      entries_of repository branch old_epoch read_db"
    and complete: "fst ` {(n, s) \<in> entries_of repository branch old_epoch (wk_seq w). n < diverged} = {1..<diverged}"
  shows "\<exists>xs sp. history head = Some xs \<and> to_seq = int (length xs) \<and>
      find_sequence_space repository branch (wk_seq w') = Some sp \<and>
      sp_epoch sp = new_epoch \<and> sp_head sp = Some head \<and> sp_head_seq sp = to_seq \<and>
      map ms_seq (ordered_rows repository branch new_epoch (wk_seq w')) = [1..to_seq] \<and>
      first_sequence_mismatch (list_stored_sequence repository branch new_epoch 1 (wk_seq w')) xs = None \<and>
      entries_of repository branch old_epoch (wk_seq w') = entries_of repository branch old_epoch (wk_seq w)"
  using run
proof (cases rule: commit_repair_cases)
  case (written sp db sp' cs e a)
  then have r: "old_epoch = sp_epoch sp'" "new_epoch = e" "diverged = rpl_diverged plan"
    "to_seq = rpl_diverged plan - 1 + int (length cs)" "head = rpl_head plan" "sp_epoch sp' = sp_epoch (rpl_space plan)" by auto
  have entries: "entries_of repository branch epoch db = entries_of repository branch epoch (wk_seq w)" for epoch
    by (rule entries_of_cong) (rule written(7))
  have db: "\<forall>epoch > sp_epoch sp'. entries_of repository branch epoch db = {}" "table_ok (merges db)"
    "{(n, s) \<in> entries_of repository branch (sp_epoch sp') db. n < rpl_diverged plan} \<subseteq>
      entries_of repository branch (sp_epoch sp') read_db"
    "fst ` {(n, s) \<in> entries_of repository branch (sp_epoch sp') db. n < rpl_diverged plan} = {1..<rpl_diverged plan}"
    using fresh ok same complete unfolding entries r(1,3) by (simp_all add: written(7))
  note epoch = commit_graph.repaired_epoch[OF graph g analysis written(5) r(6) db written(8)]
  note space = epoch_written_space[OF written(8,5) db(1,2)]
  have seqs: "map ms_seq (ordered_rows repository branch e (wk_seq w')) = [1..to_seq]"
    by (rule ordered_seqs[OF space(2)]) (use epoch(2,4) r(4) in simp)
  have "entries_of repository branch old_epoch (wk_seq w') = entries_of repository branch old_epoch (wk_seq w)"
    using space(5)[of "sp_epoch sp'"] space(6) entries r(1) by simp
  with epoch(1,2,5) space(3) seqs r show ?thesis by auto
qed (auto simp: repair_stale_def restore_repair_state_def split: option.splits)

text \<open>A repair of the branch that was pushed over, started on the numbers of the old head.\<close>

definition sample_repair_plan :: repair_plan where
  "sample_repair_plan =
     (case analyse_repair (sample_graph (sample_sha CHR ''3'')) 1 (js ''main'') (wk_seq (working assigned_system)) of
        Analysis_mismatch plan \<Rightarrow> plan
      | _ \<Rightarrow> \<lparr>rpl_head = [], rpl_space = new_space 0 [], rpl_actual = [], rpl_diverged = 0\<rparr>)"

definition sample_repair :: "worker \<times> repair_result" where
  "sample_repair = commit_repair (sample_graph (sample_sha CHR ''3'')) sample_lookups (Inr (Some (sample_sha CHR ''3''))) True 1
     (js ''main'') [] sample_repair_plan (working assigned_system)"

lemma sample_analysis:
  "analyse_repair (sample_graph (sample_sha CHR ''3'')) 1 (js ''main'') (wk_seq (working assigned_system)) =
     Analysis_mismatch sample_repair_plan"
  unfolding sample_repair_plan_def by code_simp

lemma sample_repaired: "snd sample_repair = Repair_done (Repaired 1 2 2 2 (sample_sha CHR ''3'') 1)"
  by code_simp

lemma sample_entries:
  "entries_of 1 (js ''main'') 1 (wk_seq (working assigned_system)) = {(1, sample_sha CHR ''1''), (2, sample_sha CHR ''2'')}"
  using arg_cong[OF assigned_rows, of set] unfolding entries_of_def set_map set_ordered_rows by simp

theorem repair_restores_history_witness:
  "\<exists>xs. history_of sample_objects (sample_sha CHR ''3'') = Some xs \<and>
     map ms_seq (ordered_rows 1 (js ''main'') 2 (wk_seq (fst sample_repair))) = [1, 2] \<and>
     first_sequence_mismatch (list_stored_sequence 1 (js ''main'') 2 1 (wk_seq (fst sample_repair))) xs = None"
proof -
  let ?w = "working assigned_system"
  let ?E = "entries_of 1 (js ''main'') 1 (wk_seq ?w)"
  have inv: "seq_inv (history_of sample_objects) (wk_seq ?w)"
    using sequence_runs.reaches_inv[OF assigned_reachable] by (simp add: system_inv_def)
  obtain sp where sp: "find_sequence_space 1 (js ''main'') (wk_seq ?w) = Some sp" "sp_epoch sp = 1" using assigned_space by auto
  have run: "commit_repair (sample_graph (sample_sha CHR ''3'')) sample_lookups (Inr (Some (sample_sha CHR ''3''))) True 1
      (js ''main'') [] sample_repair_plan ?w =
      (fst sample_repair, Repair_done (Repaired 1 2 2 2 (sample_sha CHR ''3'') 1))"
    unfolding sample_repaired[symmetric] sample_repair_def by simp
  have fresh: "\<forall>epoch > 1. entries_of 1 (js ''main'') epoch (wk_seq ?w) = {}"
    using space_okD(2)[OF inv sp(1)] sp(2) by simp
  have graph: "follows (api_between (github_listing sample_objects (\<lambda>_. Some (js ''t'')) (\<lambda>_. Some (\<lambda>_. True, False))))
      (sample_graph (sample_sha CHR ''3''))"
    unfolding sample_graph_def by (rule api_graph_follows)
  have below: "{(n, s) \<in> ?E. n < 2} = {(1, sample_sha CHR ''1'')}" unfolding sample_entries by auto
  have complete: "fst ` {(n, s) \<in> ?E. n < 2} = {1..<2}" unfolding below by auto
  have same: "{(n, s) \<in> ?E. n < 2} \<subseteq> ?E" by auto
  from repair_restores_history[OF api.commit_graph_axioms graph sample_analysis run seq_invD(1)[OF inv] fresh same complete]
  show ?thesis by (auto simp: upto_rec1)
qed

section \<open>A merge that hides the old head\<close>

text \<open>
  What git answers over the objects of a mirror (\<open>packages/github/src/mirror-graph.ts\<close>):
  \<open>git merge-base --is-ancestor\<close> follows all parents, and \<open>git log --first-parent a..b\<close> lists the
  first parents of \<open>b\<close> without the commits that \<open>a\<close> reaches, the oldest first.
\<close>

inductive ancestor_of :: "commit_links \<Rightarrow> jstr \<Rightarrow> jstr \<Rightarrow> bool" for objects where
  Itself: "ancestor_of objects c c"
| Parent: "(c, ps) \<in> set objects \<Longrightarrow> p \<in> set ps \<Longrightarrow> ancestor_of objects a p \<Longrightarrow> ancestor_of objects a c"

definition reads_git :: "commit_links \<Rightarrow> graph \<Rightarrow> bool" where
  "reads_git objects g \<longleftrightarrow>
     (\<forall>a b answer. is_ancestor g a b = Inr answer \<longrightarrow> answer = ancestor_of objects a b) \<and>
     (\<forall>a b cs xs. first_parent_commits g (Some a) b = Inr cs \<longrightarrow> history_of objects b = Some xs \<longrightarrow>
        map fst cs = filter (\<lambda>x. \<not> ancestor_of objects x a) xs)"

lemma reads_gitD:
  "reads_git objects g \<Longrightarrow> is_ancestor g a b = Inr answer \<Longrightarrow> answer = ancestor_of objects a b"
  "reads_git objects g \<Longrightarrow> first_parent_commits g (Some a) b = Inr cs \<Longrightarrow> history_of objects b = Some xs \<Longrightarrow>
     map fst cs = filter (\<lambda>x. \<not> ancestor_of objects x a) xs"
  by (auto simp: reads_git_def)

text \<open>The rows and the space after the commits were assigned.\<close>

lemma assign_commits_written:
  assumes "assign_commits look repository branch correlation sp new_head cs w = Some w'"
    and "find_sequence_space repository branch (wk_seq w) = Some sp"
  shows "entries_of repository branch (sp_epoch sp) (wk_seq w') =
      entries_of repository branch (sp_epoch sp) (wk_seq w) \<union> numbered_from (sp_head_seq sp) (map fst cs)"
    and "\<exists>sp'. find_sequence_space repository branch (wk_seq w') = Some sp' \<and> sp_epoch sp' = sp_epoch sp \<and>
      sp_head sp' = Some new_head \<and> sp_head_seq sp' = sp_head_seq sp + int (length cs)"
proof -
  from assms(1) obtain db1 where up: "upsert_all look repository branch (sp_epoch sp) (number_commits (sp_head_seq sp) cs) (wk_seq w) = Some db1"
    and adv: "advance_head repository branch new_head (sp_head_seq sp + int (length cs)) db1 = Some (wk_seq w')"
    by (auto simp: assign_commits_def Let_def bind_eq_Some_conv request_queue_def requeue_links_def split: if_splits)
  have find: "find_sequence_space repository branch db1 = Some sp" using upsert_all_same(2)[OF up] assms(2) by simp
  note head = advance_head_space[OF adv find]
  show "entries_of repository branch (sp_epoch sp) (wk_seq w') =
      entries_of repository branch (sp_epoch sp) (wk_seq w) \<union> numbered_from (sp_head_seq sp) (map fst cs)"
    using upsert_all_entries(1)[OF up, of repository branch "sp_epoch sp"] entries_of_cong[OF head(2)] by simp
  show "\<exists>sp'. find_sequence_space repository branch (wk_seq w') = Some sp' \<and> sp_epoch sp' = sp_epoch sp \<and>
      sp_head sp' = Some new_head \<and> sp_head_seq sp' = sp_head_seq sp + int (length cs)" by (rule head(3))
qed

text \<open>A head that the old one is an ancestor of is taken for its continuation.\<close>

lemma assign_in_space_continues:
  assumes "reads_git objects g" and "find_sequence_space repository branch db = Some sp" "sp_head sp = Some old"
    and "resolve_head g branch = Inr (Some new)" "ancestor_of objects old new" "old \<noteq> new"
    and "assign_in_space g look publishes repository branch correlation w db = (w', r)"
  shows "r \<noteq> Hand_over x y"
    and "r = Outcome (Assigned from_seq to_seq head) \<Longrightarrow>
      head = new \<and> from_seq = sp_head_seq sp \<and>
      (\<exists>cs v. first_parent_commits g (Some old) new = Inr cs \<and> to_seq = sp_head_seq sp + int (length cs) \<and>
         assign_commits look repository branch correlation sp new cs (w\<lparr>wk_seq := db\<rparr>) = Some v \<and> wk_seq w' = wk_seq v)"
proof -
  have yes: "answer" if "is_ancestor g old new = Inr answer" for answer using reads_gitD(1)[OF assms(1) that] assms(5) by simp
  have stale: "snd (stale_outcome repository branch reason w) \<noteq> Hand_over x y"
    "snd (stale_outcome repository branch reason w) \<noteq> Outcome (Assigned from_seq to_seq head)" for reason
    by (simp_all add: stale_outcome_def split: option.splits)
  show "r \<noteq> Hand_over x y"
    using assms(2-4,6,7) yes stale(1)
    by (auto simp: assign_in_space_def Let_def dest!: arg_cong[of _ _ snd] split: sum.splits option.splits bool.splits if_splits)
  assume r: "r = Outcome (Assigned from_seq to_seq head)"
  show "head = new \<and> from_seq = sp_head_seq sp \<and>
      (\<exists>cs v. first_parent_commits g (Some old) new = Inr cs \<and> to_seq = sp_head_seq sp + int (length cs) \<and>
         assign_commits look repository branch correlation sp new cs (w\<lparr>wk_seq := db\<rparr>) = Some v \<and> wk_seq w' = wk_seq v)"
  proof (cases "is_ancestor g old new")
    case (Inl e)
    with assms(2-4,6,7) r stale(2) show ?thesis by (auto simp: assign_in_space_def dest!: arg_cong[of _ _ snd])
  next
    case (Inr answer)
    with yes have anc: "is_ancestor g old new = Inr True" by simp
    note body = assms(7)[unfolded r assign_in_space_def assms(2,3,4), simplified assms(6) anc, simplified]
    show ?thesis
    proof (cases "first_parent_commits g (Some old) new")
      case (Inl e)
      with body assms(3,6) anc stale(2) show ?thesis by (auto dest!: arg_cong[of _ _ snd])
    next
      case (Inr cs)
      with body assms(3,6) anc show ?thesis
        by (auto simp: Let_def publish_event_def split: option.splits if_splits)
    qed
  qed
qed

text \<open>C13: With a graph that reads git, a push that hides the stored head passes as a continuation:
  whenever the numbers follow the history of the stored head and the new head has the stored
  one as an ancestor, but not on its first-parent chain, the assignment does not hand over to
  a renumbering, and when it assigns, the stored head keeps its number, the commits of the new
  chain that it does not reach are numbered after it, the space points to the new head, and
  the integrity check finds a mismatch. Merging the branch into another line and pushing the
  merge is such a push.\<close>

theorem hidden_head_numbered_off_chain:
  assumes git: "reads_git objects g"
    and space: "find_sequence_space repository branch (wk_seq w) = Some sp" "sp_head sp = Some old"
    and stored: "history_of objects old = Some olds" "sp_head_seq sp = int (length olds)"
      "entries_of repository branch (sp_epoch sp) (wk_seq w) = numbered_from 0 olds"
    and head: "resolve_head g branch = Inr (Some new)" "ancestor_of objects old new"
    and hidden: "history_of objects new = Some xs" "old \<notin> set xs"
    and run: "assign_sequence g look locked publishes repository branch correlation w = (w', r)"
  shows "case r of
      Hand_over x y \<Rightarrow> False
    | Outcome (Assigned from_seq to_seq h) \<Rightarrow>
        h = new \<and> (int (length olds), old) \<in> entries_of repository branch (sp_epoch sp) (wk_seq w') \<and>
        entries_of repository branch (sp_epoch sp) (wk_seq w') =
          numbered_from 0 (olds @ filter (\<lambda>x. \<not> ancestor_of objects x old) xs) \<and>
        (\<exists>sp'. find_sequence_space repository branch (wk_seq w') = Some sp' \<and> sp_epoch sp' = sp_epoch sp \<and> sp_head sp' = Some new) \<and>
        first_sequence_mismatch (list_stored_sequence repository branch (sp_epoch sp) 1 (wk_seq w')) xs \<noteq> None
    | _ \<Rightarrow> True"
proof -
  have ne: "old \<noteq> new" using hidden api.history_last[OF hidden(1)] by auto
  have ensure: "ensure_sequence_space repository branch (wk_seq w) = Some (wk_seq w)"
    using space(1) by (simp add: ensure_sequence_space_def)
  consider "r = Outcome (Skipped (js ''repository_unregistered''))" | "r = Outcome (Skipped (js ''repository_archived''))"
    | "r = Outcome (Skipped (js ''not_sequence_branch''))" | "r = Outcome Locked"
    | (assigning) "assign_in_space g look publishes repository branch correlation w (wk_seq w) = (w', r)"
    using run ensure by (auto simp: assign_sequence_def split: option.splits if_splits)
  then show ?thesis
  proof cases
    case assigning
    note continues = assign_in_space_continues[OF git space head ne assigning]
    show ?thesis
    proof (cases "\<exists>from_seq to_seq h. r = Outcome (Assigned from_seq to_seq h)")
      case True
      then obtain from_seq to_seq h where r: "r = Outcome (Assigned from_seq to_seq h)" by blast
      from continues(2)[OF r] obtain cs v where h: "h = new" and cs: "first_parent_commits g (Some old) new = Inr cs"
        and v: "assign_commits look repository branch correlation sp new cs (w\<lparr>wk_seq := wk_seq w\<rparr>) = Some v" "wk_seq w' = wk_seq v"
        by blast
      have found: "find_sequence_space repository branch (wk_seq (w\<lparr>wk_seq := wk_seq w\<rparr>)) = Some sp" using space(1) by simp
      note written = assign_commits_written[OF v(1) found]
      have entries: "entries_of repository branch (sp_epoch sp) (wk_seq w') =
          numbered_from 0 (olds @ filter (\<lambda>x. \<not> ancestor_of objects x old) xs)"
        using written(1) v(2) stored(2,3) reads_gitD(2)[OF git cs hidden(1)] by (simp add: numbered_from_append)
      note last = api.history_last[OF stored(1)]
      then have "old = olds ! (length olds - 1)" "0 < length olds" by (auto simp: last_conv_nth)
      with numbered_from_nth[of "length olds - 1" olds 0] have old: "(int (length olds), old) \<in> numbered_from 0 olds"
        by (simp add: of_nat_diff)
      then have member: "(int (length olds), old) \<in> entries_of repository branch (sp_epoch sp) (wk_seq w')"
        unfolding entries numbered_from_append by blast
      have "\<not> agrees xs (int (length olds)) old"
        using hidden(2) api.history_lower[OF hidden(1)] api.history_lower[OF stored(1), of old] last
        by (auto simp: agrees_def dest: nth_mem)
      moreover have "1 \<le> int (length olds)" using \<open>0 < length olds\<close> by linarith
      ultimately have "first_sequence_mismatch (list_stored_sequence repository branch (sp_epoch sp) 1 (wk_seq w')) xs \<noteq> None"
        unfolding no_mismatch_iff using member by blast
      with r h entries member written(2) v(2) show ?thesis by auto
    next
      case False
      with continues(1) show ?thesis by (auto split: assign_result.splits assign_outcome.splits)
    qed
  qed simp_all
qed

text \<open>
  The branch holds \<open>1\<close> and \<open>2\<close>. Somebody commits \<open>3\<close> on \<open>1\<close>, merges the branch into it and pushes
  the merge \<open>4\<close>: the old head is an ancestor of the new one, by its second parent.
\<close>

definition merged_objects :: commit_links where
  "merged_objects = sample_objects @ [(sample_sha CHR ''4'', [sample_sha CHR ''3'', sample_sha CHR ''2''])]"

definition merged_reach :: "jstr \<Rightarrow> jstr \<Rightarrow> bool" where
  "merged_reach a b \<longleftrightarrow> a = b \<or> (a, b) \<in> set (map (\<lambda>(x, y). (sample_sha x, sample_sha y))
     [(CHR ''1'', CHR ''2''), (CHR ''1'', CHR ''3''), (CHR ''1'', CHR ''4''), (CHR ''2'', CHR ''4''), (CHR ''3'', CHR ''4'')])"

lemma merged_ancestors: "ancestor_of merged_objects a b = merged_reach a b"
proof
  have distinct: "distinct (map sample_sha [CHR ''1'', CHR ''2'', CHR ''3'', CHR ''4''])" by code_simp
  show "merged_reach a b" if "ancestor_of merged_objects a b"
    using that
  proof (induction rule: ancestor_of.induct)
    case (Parent c ps p a)
    then show ?case using distinct by (auto simp: merged_objects_def sample_objects_def merged_reach_def)
  qed (simp add: merged_reach_def)
  have edge: "ancestor_of merged_objects a (sample_sha c) \<Longrightarrow> (c, d) \<in> set [(CHR ''1'', CHR ''2''), (CHR ''1'', CHR ''3''), (CHR ''3'', CHR ''4''), (CHR ''2'', CHR ''4'')] \<Longrightarrow>
      ancestor_of merged_objects a (sample_sha d)" for a c d
    by (rule ancestor_of.Parent[where p = "sample_sha c" and ps = "the (map_of merged_objects (sample_sha d))"])
      (use distinct in \<open>auto simp: merged_objects_def sample_objects_def\<close>)
  have one: "ancestor_of merged_objects (sample_sha CHR ''1'') (sample_sha CHR ''2'')"
    "ancestor_of merged_objects (sample_sha CHR ''1'') (sample_sha CHR ''3'')"
    "ancestor_of merged_objects (sample_sha CHR ''2'') (sample_sha CHR ''4'')"
    "ancestor_of merged_objects (sample_sha CHR ''3'') (sample_sha CHR ''4'')"
    using edge[OF ancestor_of.Itself] by auto
  with edge[OF one(2), of "CHR ''4''"] show "ancestor_of merged_objects a b" if "merged_reach a b"
    using that by (auto simp: merged_reach_def ancestor_of.Itself)
qed

definition mirror_of_merge :: graph where
  "mirror_of_merge =
     \<lparr>resolve_head = (\<lambda>_. Inr (Some (sample_sha CHR ''4''))), is_ancestor = (\<lambda>a b. Inr (merged_reach a b)),
      merge_base = (\<lambda>_ _. Inr (Some (sample_sha CHR ''2''))),
      first_parent_commits = (\<lambda>c h. case history_of merged_objects h of
          None \<Rightarrow> Inl []
        | Some xs \<Rightarrow> Inr (map (\<lambda>x. (x, js ''t'')) (filter (\<lambda>x. case c of None \<Rightarrow> True | Some a \<Rightarrow> \<not> merged_reach x a) xs))),
      first_parent_rev_list = (\<lambda>_ _. Inl [])\<rparr>"

lemma mirror_reads_git: "reads_git merged_objects mirror_of_merge"
  by (auto simp: reads_git_def mirror_of_merge_def merged_ancestors comp_def split: option.splits)

definition merged_worker :: "worker \<times> assign_result" where
  "merged_worker = assign_sequence mirror_of_merge sample_lookups True True 1 (js ''main'') [] (working assigned_system)"

lemma merged_outcome: "snd merged_worker = Outcome (Assigned 2 4 (sample_sha CHR ''4''))"
  by code_simp

lemma merged_histories:
  "history_of merged_objects (sample_sha CHR ''2'') = Some [sample_sha CHR ''1'', sample_sha CHR ''2'']"
  "history_of merged_objects (sample_sha CHR ''4'') = Some [sample_sha CHR ''1'', sample_sha CHR ''3'', sample_sha CHR ''4'']"
  by code_simp+

lemma sample_entries_numbered:
  "entries_of 1 (js ''main'') 1 (wk_seq (working assigned_system)) = numbered_from 0 [sample_sha CHR ''1'', sample_sha CHR ''2'']"
  unfolding sample_entries by simp

theorem hidden_head_numbered_off_chain_witness:
  "(2, sample_sha CHR ''2'') \<in> entries_of 1 (js ''main'') 1 (wk_seq (fst merged_worker)) \<and>
   first_sequence_mismatch (list_stored_sequence 1 (js ''main'') 1 1 (wk_seq (fst merged_worker)))
     [sample_sha CHR ''1'', sample_sha CHR ''3'', sample_sha CHR ''4''] \<noteq> None"
proof -
  obtain sp where sp: "find_sequence_space 1 (js ''main'') (wk_seq (working assigned_system)) = Some sp" "sp_epoch sp = 1"
    "sp_head sp = Some (sample_sha CHR ''2'')" "sp_head_seq sp = int (length [sample_sha CHR ''1'', sample_sha CHR ''2''])"
    using assigned_space by auto
  have head: "resolve_head mirror_of_merge (js ''main'') = Inr (Some (sample_sha CHR ''4''))" by (simp add: mirror_of_merge_def)
  have anc: "ancestor_of merged_objects (sample_sha CHR ''2'') (sample_sha CHR ''4'')"
    unfolding merged_ancestors by (simp add: merged_reach_def)
  have off: "sample_sha CHR ''2'' \<notin> set [sample_sha CHR ''1'', sample_sha CHR ''3'', sample_sha CHR ''4'']" by code_simp
  have run: "assign_sequence mirror_of_merge sample_lookups True True 1 (js ''main'') [] (working assigned_system) =
      (fst merged_worker, Outcome (Assigned 2 4 (sample_sha CHR ''4'')))"
    unfolding merged_outcome[symmetric] merged_worker_def by simp
  from hidden_head_numbered_off_chain[OF mirror_reads_git sp(1,3) merged_histories(1) sp(4) _ head anc merged_histories(2) off run]
    sample_entries_numbered sp(2) show ?thesis by simp
qed

section \<open>A new epoch given up\<close>

text \<open>C14: A renumbering that finds the stored head moved gives up but leaves the space marked as
  reassigning: it has changed no row and requested no work, so nothing is running that would
  clear the mark.\<close>

theorem head_moved_leaves_reassigning:
  assumes "reassign_sequence g look locked repository branch stored_head new_head correlation w = (w', Outcome (Skipped reason))"
  shows "reason = js ''head_moved'' \<and> merges (wk_seq w') = merges (wk_seq w) \<and> wk_queue w' = wk_queue w \<and>
    (\<exists>sp sp'. find_sequence_space repository branch (wk_seq w) = Some sp \<and> sp_head sp \<noteq> Some stored_head \<and>
       find_sequence_space repository branch (wk_seq w') = Some sp' \<and> sp_state sp' = Space_reassigning)"
proof -
  from assms obtain db where db: "mark_reassigning repository branch (wk_seq w) = Some db"
    by (auto simp: reassign_sequence_def split: option.splits)
  note same = update_space_same[OF db[unfolded mark_reassigning_def]]
  let ?w = "w\<lparr>wk_seq := db\<rparr>"
  have stale: "snd (stale_outcome repository branch e ?w) \<noteq> Outcome (Skipped reason)" for e
    by (simp add: stale_outcome_def split: option.splits)
  have body: "snd (reassign_in_space g look repository branch stored_head new_head correlation sp ?w) \<noteq> Outcome (Skipped reason)" for sp
    using stale by (simp add: reassign_in_space_def Let_def split: sum.splits option.splits prod.splits)
  from assms db obtain sp where sp: "find_sequence_space repository branch db = Some sp" "sp_head sp \<noteq> Some stored_head"
    "w' = ?w" "reason = js ''head_moved''"
    using stale body by (auto simp: reassign_sequence_def Let_def dest!: arg_cong[of _ _ snd] split: option.splits if_splits)
  from sp(1) same(4) obtain sp0 where "find_sequence_space repository branch (wk_seq w) = Some sp0"
    "sp = sp0\<lparr>sp_state := Space_reassigning, sp_error := None\<rparr>"
    by (auto simp: space_key_def)
  with sp same(2) show ?thesis by (auto simp: space_key_def)
qed

definition overtaken_worker :: "worker \<times> assign_result" where
  "overtaken_worker = reassign_sequence (sample_graph (sample_sha CHR ''3'')) sample_lookups True 1 (js ''main'')
     (sample_sha CHR ''1'') (sample_sha CHR ''3'') [] (working assigned_system)"

lemma overtaken_outcome: "snd overtaken_worker = Outcome (Skipped (js ''head_moved''))"
  by code_simp

theorem head_moved_leaves_reassigning_witness:
  "\<exists>sp. find_sequence_space 1 (js ''main'') (wk_seq (fst overtaken_worker)) = Some sp \<and> sp_state sp = Space_reassigning"
proof -
  have "reassign_sequence (sample_graph (sample_sha CHR ''3'')) sample_lookups True 1 (js ''main'') (sample_sha CHR ''1'')
      (sample_sha CHR ''3'') [] (working assigned_system) = (fst overtaken_worker, Outcome (Skipped (js ''head_moved'')))"
    unfolding overtaken_outcome[symmetric] overtaken_worker_def by simp
  from head_moved_leaves_reassigning[OF this] show ?thesis by blast
qed

end
