(* ===== verification/Db_MergeEvidence.thy ===== *)
theory Db_MergeEvidence
  imports Db_SequenceSpace Domain_MNumber JSON_Value
begin

text \<open>
  The evidence for the merge numbers and the attestations of operators
  (\<open>packages/db/src/repositories/mnumber-evidence.ts\<close> and \<open>mnumber-attestation.ts\<close>). A statement is
  a function of the rows; one that raises is an error on the left. \<open>clock_timestamp()\<close> is the clock of
  the database, and the document of a proof is the list of its members.
\<close>

section \<open>Evidence\<close>

datatype evidence_state = Evidence_unresolved | Evidence_pr | Evidence_direct

datatype evidence_source = Pr_detail | Verified_snapshot | Unresolved_lookup | Authoritative_absence | Operator_attestation

type_synonym evidence_proof = "(jstr \<times> json) list"

record evidence_row =
  ev_repository :: int
  ev_branch :: jstr
  ev_epoch :: int
  ev_seq :: int
  ev_sha :: jstr
  ev_state :: evidence_state
  ev_pr :: "int option"
  ev_reason :: "block_reason option"
  ev_version :: int
  ev_source :: evidence_source
  ev_source_version :: "int option"
  ev_merged :: "int option"
  ev_checked :: int
  ev_first_pending :: "int option"
  ev_proof :: evidence_proof

record evidence_upsert =
  eu_repository :: int
  eu_branch :: jstr
  eu_epoch :: int
  eu_seq :: int
  eu_sha :: jstr
  eu_state :: evidence_state
  eu_pr :: "int option"
  eu_reason :: "block_reason option"
  eu_source :: evidence_source
  eu_source_version :: "int option"
  eu_merged :: "int option"
  eu_proof :: evidence_proof

datatype evidence_error = Evidence_downgrade | Other_commit | Constraint_violated

definition evidence_key :: "evidence_row \<Rightarrow> int \<times> jstr \<times> int \<times> int" where
  "evidence_key r = (ev_repository r, ev_branch r, ev_epoch r, ev_seq r)"

definition upsert_key :: "evidence_upsert \<Rightarrow> int \<times> jstr \<times> int \<times> int" where
  "upsert_key u = (eu_repository u, eu_branch u, eu_epoch u, eu_seq u)"

text \<open>The checks of the table; its foreign key asks for the row of the sequence.\<close>

definition evidence_checks :: "evidence_row \<Rightarrow> bool" where
  "evidence_checks r \<longleftrightarrow>
     ((ev_state r = Evidence_pr) \<longleftrightarrow> ev_pr r \<noteq> None) \<and>
     (ev_state r = Evidence_unresolved \<longrightarrow> ev_reason r \<noteq> None) \<and>
     (ev_state r = Evidence_pr \<longrightarrow> ev_merged r \<noteq> None) \<and> ev_version r \<ge> 1"

definition find_evidence :: "int \<Rightarrow> jstr \<Rightarrow> int \<Rightarrow> int \<Rightarrow> evidence_row list \<Rightarrow> evidence_row option" where
  "find_evidence repository branch epoch seq rows = find (\<lambda>r. evidence_key r = (repository, branch, epoch, seq)) rows"

definition new_evidence :: "int \<Rightarrow> evidence_upsert \<Rightarrow> evidence_row" where
  "new_evidence now u =
     \<lparr>ev_repository = eu_repository u, ev_branch = eu_branch u, ev_epoch = eu_epoch u, ev_seq = eu_seq u,
      ev_sha = to_lower (eu_sha u), ev_state = eu_state u, ev_pr = eu_pr u, ev_reason = eu_reason u, ev_version = 1,
      ev_source = eu_source u, ev_source_version = eu_source_version u, ev_merged = eu_merged u, ev_checked = now,
      ev_first_pending = (if eu_state u = Evidence_unresolved then Some now else None), ev_proof = eu_proof u\<rparr>"

definition renewed_evidence :: "int \<Rightarrow> evidence_upsert \<Rightarrow> evidence_row \<Rightarrow> evidence_row" where
  "renewed_evidence now u r =
     r\<lparr>ev_state := eu_state u, ev_pr := eu_pr u, ev_reason := eu_reason u, ev_version := ev_version r + 1,
       ev_source := eu_source u, ev_source_version := eu_source_version u, ev_merged := eu_merged u, ev_checked := now,
       ev_first_pending := (if eu_state u = Evidence_unresolved
         then (case ev_first_pending r of None \<Rightarrow> Some now | Some t \<Rightarrow> Some t) else None),
       ev_proof := eu_proof u\<rparr>"

text \<open>Confirmed evidence is not made unresolved again, and a row keeps its commit.\<close>

definition upsert_evidence :: "seq_db \<Rightarrow> evidence_upsert \<Rightarrow> evidence_row list \<Rightarrow> (evidence_error, evidence_row list) result" where
  "upsert_evidence db u rows =
     (case find (\<lambda>r. evidence_key r = upsert_key u) rows of
        None \<Rightarrow>
          if upsert_key u \<in> pk_of ` set (merges db) \<and> evidence_checks (new_evidence (db_now db) u)
          then Inr (rows @ [new_evidence (db_now db) u]) else Inl Constraint_violated
      | Some r \<Rightarrow>
          if ev_sha r = to_lower (eu_sha u) \<and>
             \<not> (ev_state r \<in> {Evidence_pr, Evidence_direct} \<and> eu_state u = Evidence_unresolved)
          then (if evidence_checks (renewed_evidence (db_now db) u r)
                then Inr (map (\<lambda>x. if evidence_key x = upsert_key u then renewed_evidence (db_now db) u x else x) rows)
                else Inl Constraint_violated)
          else Inl (if ev_sha r = to_lower (eu_sha u) \<and> eu_state u = Evidence_unresolved then Evidence_downgrade
                    else Other_commit))"

text \<open>Reading a list of positions, with and without the locks of the rows.\<close>

definition list_evidence :: "int \<Rightarrow> jstr \<Rightarrow> int \<Rightarrow> int list \<Rightarrow> evidence_row list \<Rightarrow> int \<Rightarrow> evidence_row option" where
  "list_evidence repository branch epoch seqs rows seq =
     (if seq \<in> set seqs then find_evidence repository branch epoch seq rows else None)"

definition lock_evidence :: "int \<Rightarrow> jstr \<Rightarrow> int \<Rightarrow> int list \<Rightarrow> evidence_row list \<Rightarrow> int \<Rightarrow> evidence_row option" where
  "lock_evidence repository branch epoch seqs rows seq =
     (if seq \<in> set seqs then find_evidence repository branch epoch seq rows else None)"

definition find_last_confirmed_merged_at :: "int \<Rightarrow> jstr \<Rightarrow> int \<Rightarrow> int \<Rightarrow> evidence_row list \<Rightarrow> int option" where
  "find_last_confirmed_merged_at repository branch epoch upto_seq rows =
     (case sort_key (\<lambda>r. - ev_seq r)
        (filter (\<lambda>r. ev_repository r = repository \<and> ev_branch r = branch \<and> ev_epoch r = epoch \<and>
           ev_seq r \<le> upto_seq \<and> ev_state r = Evidence_pr) rows) of
        [] \<Rightarrow> None
      | r # _ \<Rightarrow> ev_merged r)"

section \<open>Attestations\<close>

record attestation_row =
  at_id :: int
  at_repository :: int
  at_branch :: jstr
  at_epoch :: int
  at_through :: "int option"
  at_grace :: int
  at_actor :: jstr
  at_reason :: jstr
  at_created :: int
  at_revoked :: "(int \<times> jstr \<times> jstr) option"

record attestation_input =
  ai_repository :: int
  ai_branch :: jstr
  ai_epoch :: int
  ai_through :: "int option"
  ai_grace :: int
  ai_actor :: jstr
  ai_reason :: jstr

record attestation_db =
  attestations :: "attestation_row list"
  next_attestation :: int

definition is_active :: "attestation_row \<Rightarrow> bool" where
  "is_active a \<longleftrightarrow> at_revoked a = None"

definition between_chars :: "nat \<Rightarrow> jstr \<Rightarrow> bool" where
  "between_chars n s \<longleftrightarrow> 1 \<le> char_length s \<and> char_length s \<le> n"

definition attestation_checks :: "attestation_row \<Rightarrow> bool" where
  "attestation_checks a \<longleftrightarrow>
     at_epoch a \<ge> 1 \<and> (case at_through a of None \<Rightarrow> True | Some n \<Rightarrow> n \<ge> 1) \<and>
     0 \<le> at_grace a \<and> at_grace a \<le> 2592000 \<and> between_chars 128 (at_actor a) \<and> between_chars 500 (at_reason a) \<and>
     (case at_revoked a of None \<Rightarrow> True | Some (t, actor, reason) \<Rightarrow> between_chars 128 actor \<and> between_chars 500 reason)"

definition attestation_space :: "attestation_row \<Rightarrow> int \<times> jstr \<times> int" where
  "attestation_space a = (at_repository a, at_branch a, at_epoch a)"

text \<open>
  A space has one active attestation in an epoch, and an attestation needs its space. A number of the
  sequence is used up by a statement that fails.
\<close>

definition create_attestation :: "seq_db \<Rightarrow> attestation_input \<Rightarrow> attestation_db \<Rightarrow> attestation_db \<times> attestation_row option" where
  "create_attestation db input st =
     (let a = \<lparr>at_id = next_attestation st, at_repository = ai_repository input, at_branch = ai_branch input,
               at_epoch = ai_epoch input, at_through = ai_through input, at_grace = ai_grace input, at_actor = ai_actor input,
               at_reason = ai_reason input, at_created = db_now db, at_revoked = None\<rparr>;
          st' = st\<lparr>next_attestation := next_attestation st + 1\<rparr> in
      if attestation_checks a \<and> find_sequence_space (ai_repository input) (ai_branch input) db \<noteq> None \<and>
         \<not> list_ex (\<lambda>x. is_active x \<and> attestation_space x = attestation_space a) (attestations st)
      then (st'\<lparr>attestations := attestations st @ [a]\<rparr>, Some a)
      else (st', None))"

text \<open>\<open>None\<close> raises; otherwise the row that was revoked, if there was an active one.\<close>

definition revoke_attestation ::
    "int \<Rightarrow> int \<Rightarrow> jstr \<Rightarrow> jstr \<Rightarrow> attestation_db \<Rightarrow> (attestation_db \<times> attestation_row option) option" where
  "revoke_attestation now attestation_id actor reason st =
     (let revoke = (\<lambda>a. a\<lparr>at_revoked := Some (now, actor, reason)\<rparr>) in
      case find (\<lambda>a. at_id a = attestation_id \<and> is_active a) (attestations st) of
        None \<Rightarrow> Some (st, None)
      | Some a \<Rightarrow>
          if attestation_checks (revoke a)
          then Some (st\<lparr>attestations := map (\<lambda>x. if at_id x = attestation_id \<and> is_active x then revoke x else x) (attestations st)\<rparr>,
                     Some (revoke a))
          else None)"

definition find_active_attestation :: "int \<Rightarrow> jstr \<Rightarrow> int \<Rightarrow> attestation_db \<Rightarrow> attestation_row option" where
  "find_active_attestation repository branch epoch st =
     find (\<lambda>a. attestation_space a = (repository, branch, epoch) \<and> is_active a) (attestations st)"

definition find_attestation :: "int \<Rightarrow> attestation_db \<Rightarrow> attestation_row option" where
  "find_attestation attestation_id st = find (\<lambda>a. at_id a = attestation_id) (attestations st)"

text \<open>The newest first.\<close>

definition list_attestations :: "int option \<Rightarrow> bool \<Rightarrow> attestation_db \<Rightarrow> attestation_row list" where
  "list_attestations repository include_revoked st =
     sort_key (\<lambda>a. (- at_created a, - at_id a))
       (filter (\<lambda>a. (case repository of None \<Rightarrow> True | Some r \<Rightarrow> at_repository a = r) \<and> (include_revoked \<or> is_active a))
         (attestations st))"

end
