(* ===== verification/Worker_Evidence.thy ===== *)
theory Worker_Evidence
  imports Db_MergeEvidence Github_ApiGraph
begin

text \<open>
  Which pull request a commit of a branch merged (\<open>apps/pipeline-worker/src/mnumber-evidence.ts\<close> and
  \<open>mnumber-attestation.ts\<close>). The API of pull requests, the commit graph, the snapshots, the clock and
  the hash of a request are parameters; the clock is read once for a commit. A call fails with an error
  of the API, which is caught, or with another one, which is not.
\<close>

section \<open>What is asked\<close>

datatype call_failure = Github_failure | Other_failure

record pr_detail =
  pd_merged :: bool
  pd_merged_at :: "jstr option"
  pd_merge_sha :: "jstr option"
  pd_updated :: "jstr option"
  pd_base_ref :: jstr
  pd_base_repository :: "int option"

record pulls_page =
  pg_items :: "int list"
  pg_next :: "int option"
  pg_request :: "jstr option"

record pr_source =
  src_detail :: "int \<Rightarrow> (call_failure, pr_detail option) result"
  src_page :: "jstr \<Rightarrow> int \<Rightarrow> (call_failure, pulls_page) result"

record pr_snapshot =
  sn_pr :: int
  sn_repository :: int
  sn_version :: int
  sn_document :: "(jstr \<times> json) list"

text \<open>
  \<open>read_commit\<close> is \<open>None\<close> when it raises. Dates of the API are read by \<open>api_date\<close>; those of a snapshot
  may be no dates.
\<close>

record evidence_deps =
  ed_source :: "pr_source option"
  ed_read_commit :: "jstr \<Rightarrow> commit_metadata option option"
  ed_snapshots :: "pr_snapshot list"
  ed_max_pages :: nat
  ed_now :: int
  ed_iso :: "int \<Rightarrow> jstr"
  ed_api_date :: "jstr \<Rightarrow> int"
  ed_date :: "jstr \<Rightarrow> int option"
  ed_hash :: "jstr \<Rightarrow> jstr"

record evidence_subject =
  es_repository :: int
  es_branch :: jstr
  es_epoch :: int
  es_seq :: int
  es_sha :: jstr
  es_hint :: "int option"
  es_existing :: "evidence_row option"

datatype evidence_decision =
    Pr_decision int int evidence_upsert
  | Direct_decision "evidence_upsert option"
  | Unresolved_decision block_reason evidence_upsert

definition EVIDENCE_RECHECK_MS :: int where
  "EVIDENCE_RECHECK_MS = 60000"

definition put :: "jstr \<Rightarrow> json \<Rightarrow> evidence_proof \<Rightarrow> evidence_proof" where
  "put k v p = filter (\<lambda>(k', v'). k' \<noteq> k) p @ [(k, v)]"

definition base_proof :: evidence_proof where
  "base_proof = [(js ''schema_version'', J_int 1), (js ''profile'', J_string (js ''squash_only''))]"

definition evidence_of ::
    "evidence_subject \<Rightarrow> evidence_state \<Rightarrow> int option \<Rightarrow> block_reason option \<Rightarrow> evidence_source \<Rightarrow> int option \<Rightarrow> int option \<Rightarrow>
     evidence_proof \<Rightarrow> evidence_upsert" where
  "evidence_of s st pr reason source version merged p =
     \<lparr>eu_repository = es_repository s, eu_branch = es_branch s, eu_epoch = es_epoch s, eu_seq = es_seq s, eu_sha = es_sha s,
      eu_state = st, eu_pr = pr, eu_reason = reason, eu_source = source, eu_source_version = version, eu_merged = merged,
      eu_proof = p\<rparr>"

definition unresolved :: "evidence_subject \<Rightarrow> block_reason \<Rightarrow> evidence_proof \<Rightarrow> evidence_decision" where
  "unresolved s reason p =
     Unresolved_decision reason (evidence_of s Evidence_unresolved None (Some reason) Unresolved_lookup None None p)"

definition confirmed ::
    "evidence_subject \<Rightarrow> int \<Rightarrow> int \<Rightarrow> evidence_source \<Rightarrow> int option \<Rightarrow> evidence_proof \<Rightarrow> evidence_decision" where
  "confirmed s pr merged source version p =
     Pr_decision pr merged (evidence_of s Evidence_pr (Some pr) None source version (Some merged) p)"

definition detail_matches :: "evidence_subject \<Rightarrow> pr_detail \<Rightarrow> bool" where
  "detail_matches s d \<longleftrightarrow>
     pd_merged d \<and> pd_merged_at d \<noteq> None \<and>
     (case pd_merge_sha d of None \<Rightarrow> False | Some sha \<Rightarrow> to_lower sha = to_lower (es_sha s)) \<and>
     pd_base_ref d = es_branch s \<and> pd_base_repository d = Some (es_repository s)"

definition snapshot_matches :: "evidence_deps \<Rightarrow> evidence_subject \<Rightarrow> pr_snapshot \<Rightarrow> int option" where
  "snapshot_matches w s sn =
     (let doc = sn_document sn;
          merged = (case member doc (js ''merged_at'') of Some (J_string t) \<Rightarrow> ed_date w t | _ \<Rightarrow> None) in
      if member doc (js ''state'') = Some (J_string (js ''merged'')) \<and>
         (case member doc (js ''merge_commit_sha'') of Some (J_string sha) \<Rightarrow> to_lower sha = to_lower (es_sha s) | _ \<Rightarrow> False) \<and>
         member doc (js ''base_branch'') = Some (J_string (es_branch s)) \<and> sn_repository sn = es_repository s
      then merged else None)"

section \<open>The search for a pull request\<close>

record evidence_match =
  em_pr :: int
  em_merged :: int
  em_source :: evidence_source
  em_version :: "int option"

definition verify ::
    "evidence_deps \<Rightarrow> evidence_subject \<Rightarrow> int \<Rightarrow> pr_snapshot option \<Rightarrow> (call_failure, evidence_match list) result" where
  "verify w s pr snapshot =
     (case ed_source w of
        Some src \<Rightarrow>
          (case src_detail src pr of
             Inl e \<Rightarrow> Inl e
           | Inr None \<Rightarrow> Inr []
           | Inr (Some d) \<Rightarrow>
               Inr (if detail_matches s d
                    then [\<lparr>em_pr = pr, em_merged = ed_api_date w (the (pd_merged_at d)), em_source = Pr_detail,
                           em_version = map_option (ed_api_date w) (pd_updated d)\<rparr>]
                    else []))
      | None \<Rightarrow>
          (case snapshot of
             None \<Rightarrow> Inr []
           | Some sn \<Rightarrow>
               (case snapshot_matches w s sn of
                  None \<Rightarrow> Inr []
                | Some merged \<Rightarrow>
                    Inr [\<lparr>em_pr = pr, em_merged = merged, em_source = Verified_snapshot, em_version = Some (sn_version sn)\<rparr>])))"

fun verify_all ::
    "evidence_deps \<Rightarrow> evidence_subject \<Rightarrow> (int \<times> pr_snapshot option) list \<Rightarrow> (call_failure, evidence_match list) result" where
  "verify_all w s [] = Inr []"
| "verify_all w s ((pr, snapshot) # cs) =
     bind_result (verify w s pr snapshot) (\<lambda>ms. bind_result (verify_all w s cs) (\<lambda>ms'. Inr (ms @ ms')))"

text \<open>\<open>Map.set\<close>: an entry keeps its place.\<close>

definition set_entry :: "'a \<Rightarrow> 'b \<Rightarrow> ('a \<times> 'b) list \<Rightarrow> ('a \<times> 'b) list" where
  "set_entry k v es = (if k \<in> fst ` set es then map (\<lambda>(k', v'). (k', if k' = k then v else v')) es else es @ [(k, v)])"

definition find_snapshots_by_merge_commit :: "int \<Rightarrow> jstr \<Rightarrow> nat \<Rightarrow> pr_snapshot list \<Rightarrow> pr_snapshot list" where
  "find_snapshots_by_merge_commit repository sha limit snapshots =
     take limit (sort_key sn_pr (filter (\<lambda>sn. sn_repository sn = repository \<and>
       member (sn_document sn) (js ''merge_commit_sha'') = Some (J_string (to_lower sha))) snapshots))"

definition candidates_of :: "int option \<Rightarrow> pr_snapshot list \<Rightarrow> (int \<times> pr_snapshot option) list" where
  "candidates_of hint snapshots =
     fold (\<lambda>sn. set_entry (sn_pr sn) (Some sn)) snapshots (case hint of None \<Rightarrow> [] | Some n \<Rightarrow> [(n, None)])"

text \<open>The state of the search over the pages: what was seen, the matches, the proof and the pages read.\<close>

record search_state =
  ss_seen :: "int list"
  ss_matches :: "evidence_match list"
  ss_proof :: evidence_proof
  ss_pages :: nat

definition note_request :: "evidence_deps \<Rightarrow> pulls_page \<Rightarrow> search_state \<Rightarrow> search_state" where
  "note_request w p st =
     st\<lparr>ss_pages := Suc (ss_pages st),
        ss_proof := (case pg_request p of
            None \<Rightarrow> ss_proof st
          | Some r \<Rightarrow> put (js ''source_request_id_hash'') (J_string (ed_hash w r)) (ss_proof st))\<rparr>"

text \<open>An error of the API keeps the proof made so far.\<close>

fun verify_items :: "evidence_deps \<Rightarrow> evidence_subject \<Rightarrow> int list \<Rightarrow> search_state \<Rightarrow> (call_failure \<times> evidence_proof, search_state) result" where
  "verify_items w s [] st = Inr st"
| "verify_items w s (n # ns) st =
     (if n \<in> set (ss_seen st) then verify_items w s ns st
      else (case verify w s n None of
              Inl e \<Rightarrow> Inl (e, ss_proof st)
            | Inr ms \<Rightarrow> verify_items w s ns (st\<lparr>ss_seen := ss_seen st @ [n], ss_matches := ss_matches st @ ms\<rparr>)))"

text \<open>\<open>left\<close> is how many more pages the round may read after this one.\<close>

fun scan_pages ::
    "evidence_deps \<Rightarrow> pr_source \<Rightarrow> evidence_subject \<Rightarrow> nat \<Rightarrow> int \<Rightarrow> search_state \<Rightarrow>
     (call_failure \<times> evidence_proof, search_state \<times> int option) result" where
  "scan_pages w src s left page st =
     (case src_page src (es_sha s) page of
        Inl e \<Rightarrow> Inl (e, ss_proof st)
      | Inr p \<Rightarrow>
          (case verify_items w s (pg_items p) (note_request w p st) of
             Inl e \<Rightarrow> Inl e
           | Inr st' \<Rightarrow>
               (case pg_next p of
                  None \<Rightarrow> Inr (st', None)
                | Some next_page \<Rightarrow>
                    (case left of
                       0 \<Rightarrow> Inr (st', Some next_page)
                     | Suc l \<Rightarrow> scan_pages w src s l next_page st'))))"

section \<open>The decision\<close>

definition finish_proof :: "evidence_deps \<Rightarrow> nat \<Rightarrow> bool option \<Rightarrow> evidence_proof \<Rightarrow> evidence_proof" where
  "finish_proof w pages complete p =
     (let p1 = (if pages > 0 then put (js ''page_count'') (J_int (int pages)) p else p);
          p2 = (case complete of None \<Rightarrow> p1 | Some b \<Rightarrow> put (js ''lookup_complete'') (J_bool b) p1)
      in put (js ''scan_finished_at'') (J_string (ed_iso w (ed_now w))) p2)"

definition decide_matches ::
    "evidence_deps \<Rightarrow> evidence_subject \<Rightarrow> evidence_match list \<Rightarrow> nat \<Rightarrow> bool option \<Rightarrow> evidence_proof \<Rightarrow> evidence_decision" where
  "decide_matches w s ms pages complete p =
     (let finished = finish_proof w pages complete p in
      case ms of
        [] \<Rightarrow> unresolved s (if complete = Some True then Negative_evidence_unavailable else Pr_evidence_pending) finished
      | [m] \<Rightarrow>
          confirmed s (em_pr m) (em_merged m) (em_source m) (em_version m)
            (put (js ''merged'') (J_bool True)
              (put (js ''matched_merge_commit_sha'') (J_string (to_lower (es_sha s)))
                (put (js ''matched_base_branch'') (J_string (es_branch s))
                  (put (js ''matched_repository_id'') (J_int (es_repository s)) finished))))
      | _ \<Rightarrow> unresolved s Mapping_conflict finished)"

text \<open>Where a search that ran out of pages goes on.\<close>

definition resume_page :: "evidence_row option \<Rightarrow> int" where
  "resume_page existing =
     (case existing of
        None \<Rightarrow> 1
      | Some r \<Rightarrow>
          if ev_reason r = Some Partial_lookup
          then (case member (ev_proof r) (js ''resume_page'') of Some (J_int n) \<Rightarrow> n | _ \<Rightarrow> 1)
          else 1)"

text \<open>\<open>None\<close> is an error that is not one of the API, which is thrown on.\<close>

definition failed_lookup :: "evidence_deps \<Rightarrow> evidence_subject \<Rightarrow> call_failure \<times> evidence_proof \<Rightarrow> evidence_decision option" where
  "failed_lookup w s = (\<lambda>(e, p).
     (case e of
        Github_failure \<Rightarrow>
          Some (unresolved s Fetch_failed (put (js ''scan_finished_at'') (J_string (ed_iso w (ed_now w))) p))
      | Other_failure \<Rightarrow> None))"

definition search_commit :: "evidence_deps \<Rightarrow> evidence_subject \<Rightarrow> evidence_proof \<Rightarrow> evidence_decision option" where
  "search_commit w s p =
     (let candidates = candidates_of (es_hint s) (find_snapshots_by_merge_commit (es_repository s) (es_sha s) 5 (ed_snapshots w));
          complete = (if candidates \<noteq> [] then None else Some False) in
      case verify_all w s candidates of
        Inl e \<Rightarrow> failed_lookup w s (e, p)
      | Inr ms \<Rightarrow>
          (case ed_source w of
             None \<Rightarrow> Some (decide_matches w s ms 0 complete p)
           | Some src \<Rightarrow>
               if ms \<noteq> [] then Some (decide_matches w s ms 0 complete p)
               else (case scan_pages w src s (ed_max_pages w - 1) (resume_page (es_existing s))
                            \<lparr>ss_seen = map fst candidates, ss_matches = [], ss_proof = p, ss_pages = 0\<rparr> of
                       Inl e \<Rightarrow> failed_lookup w s e
                     | Inr (st, None) \<Rightarrow> Some (decide_matches w s (ss_matches st) (ss_pages st) (Some True) (ss_proof st))
                     | Inr (st, Some next_page) \<Rightarrow>
                         if ss_matches st = []
                         then Some (unresolved s Partial_lookup
                                (put (js ''scan_finished_at'') (J_string (ed_iso w (ed_now w)))
                                  (put (js ''resume_page'') (J_int next_page)
                                    (put (js ''lookup_complete'') (J_bool False)
                                      (put (js ''page_count'') (J_int (int (ss_pages st))) (ss_proof st))))))
                         else Some (decide_matches w s (ss_matches st) (ss_pages st) complete (ss_proof st)))))"

text \<open>Evidence that is confirmed stands; what is unresolved is looked up again after a minute, or at once when forced.\<close>

definition settled :: "evidence_deps \<Rightarrow> bool \<Rightarrow> evidence_subject \<Rightarrow> evidence_decision option" where
  "settled w force s =
     (case es_existing s of
        None \<Rightarrow> None
      | Some r \<Rightarrow>
          if ev_state r = Evidence_pr \<and> ev_pr r \<noteq> None \<and> ev_merged r \<noteq> None
          then Some (confirmed s (the (ev_pr r)) (the (ev_merged r))
                 (if ev_source r = Verified_snapshot then Verified_snapshot else Pr_detail) (ev_source_version r) (ev_proof r))
          else if ev_state r = Evidence_direct then Some (Direct_decision None)
          else if ev_state r = Evidence_unresolved \<and> \<not> force \<and> ev_reason r \<noteq> Some Partial_lookup \<and>
             ed_now w - ev_checked r < EVIDENCE_RECHECK_MS
          then Some (unresolved s (case ev_reason r of None \<Rightarrow> Pr_evidence_pending | Some x \<Rightarrow> x) (ev_proof r))
          else None)"

definition resolve_evidence :: "evidence_deps \<Rightarrow> bool \<Rightarrow> evidence_subject \<Rightarrow> evidence_decision option" where
  "resolve_evidence w force s =
     (case settled w force s of
        Some d \<Rightarrow> Some d
      | None \<Rightarrow>
          let p = put (js ''scan_started_at'') (J_string (ed_iso w (ed_now w))) base_proof in
          (case ed_read_commit w (es_sha s) of
             Some (Some c) \<Rightarrow>
               if length (cm_parents c) \<ge> 2 then Some (unresolved s Unsupported_merge_profile p) else search_commit w s p
           | _ \<Rightarrow> Some (unresolved s Profile_unverified p)))"

section \<open>Attestations of an operator\<close>

definition ATTESTABLE_REASONS :: "block_reason list" where
  "ATTESTABLE_REASONS = [Negative_evidence_unavailable, Unsupported_merge_profile]"

datatype attestation_verdict = Not_applicable | Grace_pending int | Attested evidence_upsert

definition reason_text :: "block_reason \<Rightarrow> jstr" where
  "reason_text r = the (map_of (map (\<lambda>(t, x). (x, t)) MERGE_NUMBER_BLOCK_REASONS) r)"

definition apply_attestation ::
    "evidence_deps \<Rightarrow> attestation_row \<Rightarrow> evidence_decision \<Rightarrow> int \<Rightarrow> int \<Rightarrow> attestation_verdict" where
  "apply_attestation w a d seq committed =
     (case d of
        Unresolved_decision reason u \<Rightarrow>
          if reason \<notin> set ATTESTABLE_REASONS then Not_applicable
          else if (case at_through a of None \<Rightarrow> False | Some n \<Rightarrow> seq > n) then Not_applicable
          else if ed_now w < committed + at_grace a * 1000 then Grace_pending (committed + at_grace a * 1000)
          else Attested (u\<lparr>eu_state := Evidence_direct, eu_pr := None, eu_reason := None, eu_source := Operator_attestation,
                 eu_source_version := None, eu_merged := None,
                 eu_proof := put (js ''committed_at'') (J_string (ed_iso w committed))
                   (put (js ''grace_seconds'') (J_int (at_grace a))
                     (put (js ''attested_at'') (J_string (ed_iso w (ed_now w)))
                       (put (js ''attested_reason'') (J_string (reason_text reason))
                         (put (js ''attestation_id'') (J_int (at_id a)) (eu_proof u)))))\<rparr>)
      | _ \<Rightarrow> Not_applicable)"

section \<open>No number without evidence\<close>

text \<open>What the API, or without it a snapshot, must say of a pull request that is confirmed.\<close>

definition match_ok :: "evidence_deps \<Rightarrow> evidence_subject \<Rightarrow> evidence_match \<Rightarrow> bool" where
  "match_ok w s m \<longleftrightarrow>
     (case ed_source w of
        Some src \<Rightarrow>
          \<exists>d. src_detail src (em_pr m) = Inr (Some d) \<and> detail_matches s d \<and> em_merged m = ed_api_date w (the (pd_merged_at d))
      | None \<Rightarrow> \<exists>sn \<in> set (ed_snapshots w). sn_pr sn = em_pr m \<and> snapshot_matches w s sn = Some (em_merged m))"

definition candidate_ok :: "evidence_deps \<Rightarrow> int \<times> pr_snapshot option \<Rightarrow> bool" where
  "candidate_ok w = (\<lambda>(n, snapshot). case snapshot of None \<Rightarrow> True | Some sn \<Rightarrow> sn \<in> set (ed_snapshots w) \<and> sn_pr sn = n)"

lemma verify_ok:
  assumes "verify w s n snapshot = Inr ms" "candidate_ok w (n, snapshot)"
  shows "list_all (match_ok w s) ms"
  using assms by (auto simp: verify_def match_ok_def candidate_ok_def split: option.splits sum.splits if_splits)

lemma verify_all_ok: "verify_all w s cs = Inr ms \<Longrightarrow> list_all (candidate_ok w) cs \<Longrightarrow> list_all (match_ok w s) ms"
proof (induction cs arbitrary: ms)
  case (Cons c cs)
  obtain n snapshot where c: "c = (n, snapshot)" by (cases c)
  with Cons.prems(1) obtain m1 m2 where "verify w s n snapshot = Inr m1" "verify_all w s cs = Inr m2" "ms = m1 @ m2"
    by auto
  with Cons.IH[of m2] Cons.prems(2) verify_ok[of w s n snapshot m1] c show ?case by auto
qed simp

lemma set_entry_ok: "list_all P es \<Longrightarrow> (\<And>k'. k' = k \<Longrightarrow> P (k', v)) \<Longrightarrow> list_all P (set_entry k v es)"
  by (auto simp: set_entry_def list_all_iff)

lemma candidates_ok:
  assumes "set snapshots \<subseteq> set (ed_snapshots w)"
  shows "list_all (candidate_ok w) (candidates_of hint snapshots)"
proof -
  have "list_all (candidate_ok w) (fold (\<lambda>sn. set_entry (sn_pr sn) (Some sn)) sns es)"
    if "set sns \<subseteq> set (ed_snapshots w)" "list_all (candidate_ok w) es" for sns es
    using that
  proof (induction sns arbitrary: es)
    case (Cons sn sns)
    have "list_all (candidate_ok w) (set_entry (sn_pr sn) (Some sn) es)"
      by (rule set_entry_ok) (use Cons.prems in \<open>auto simp: candidate_ok_def\<close>)
    with Cons.IH Cons.prems(1) show ?case by simp
  qed simp
  from this[OF assms] show ?thesis by (auto simp: candidates_of_def candidate_ok_def split: option.splits)
qed

lemma verify_items_ok:
  "verify_items w s ns st = Inr st' \<Longrightarrow> list_all (match_ok w s) (ss_matches st) \<Longrightarrow> list_all (match_ok w s) (ss_matches st')"
  by (induction w s ns st arbitrary: st' rule: verify_items.induct)
    (auto simp: candidate_ok_def dest: verify_ok split: if_splits sum.splits)

declare scan_pages.simps [simp del]

lemma scan_pages_step:
  assumes "scan_pages w src s left page st = Inr (st', next_page)" "list_all (match_ok w s) (ss_matches st)"
  shows "\<exists>st1. list_all (match_ok w s) (ss_matches st1) \<and>
    (st' = st1 \<or> (\<exists>l page'. left = Suc l \<and> scan_pages w src s l page' st1 = Inr (st', next_page)))"
  using assms unfolding scan_pages.simps[of w src s left]
  by (auto dest!: verify_items_ok simp: note_request_def split: sum.splits option.splits nat.splits)

lemma scan_pages_ok:
  "scan_pages w src s left page st = Inr (st', next_page) \<Longrightarrow> list_all (match_ok w s) (ss_matches st) \<Longrightarrow>
   list_all (match_ok w s) (ss_matches st')"
proof (induction left arbitrary: page st)
  case 0
  from scan_pages_step[OF 0] show ?case by auto
next
  case (Suc l)
  from scan_pages_step[OF Suc.prems] Suc.IH show ?case by auto
qed

lemma decide_matchesD:
  "decide_matches w s ms pages complete p = Pr_decision n merged u \<Longrightarrow>
   \<exists>m. ms = [m] \<and> em_pr m = n \<and> em_merged m = merged \<and> eu_state u = Evidence_pr \<and> eu_pr u = Some n"
  "decide_matches w s ms pages complete p \<noteq> Direct_decision x"
  by (auto simp: decide_matches_def Let_def unresolved_def confirmed_def evidence_of_def split: list.splits)

lemma failed_lookup_not_confirmed: "failed_lookup w s e \<noteq> Some (Pr_decision n merged u)" "failed_lookup w s e \<noteq> Some (Direct_decision x)"
  by (cases e; cases "fst e"; simp add: failed_lookup_def unresolved_def)+

lemma search_commit_confirmed:
  assumes "search_commit w s p = Some (Pr_decision n merged u)"
  shows "\<exists>m. match_ok w s m \<and> em_pr m = n \<and> em_merged m = merged"
proof -
  let ?cs = "candidates_of (es_hint s) (find_snapshots_by_merge_commit (es_repository s) (es_sha s) 5 (ed_snapshots w))"
  let ?st = "\<lparr>ss_seen = map fst ?cs, ss_matches = [], ss_proof = p, ss_pages = 0\<rparr>"
  have cs: "list_all (candidate_ok w) ?cs"
    by (rule candidates_ok) (auto simp: find_snapshots_by_merge_commit_def dest: in_set_takeD)
  obtain ms where ms: "verify_all w s ?cs = Inr ms"
    using assms failed_lookup_not_confirmed(1) by (cases "verify_all w s ?cs") (auto simp: search_commit_def Let_def)
  note direct = verify_all_ok[OF ms cs]
  note body = assms[unfolded search_commit_def Let_def ms sum.case]
  show ?thesis
  proof (cases "ed_source w = None \<or> ms \<noteq> []")
    case True
    with body obtain pages complete where "decide_matches w s ms pages complete p = Pr_decision n merged u"
      by (auto split: option.splits)
    from decide_matchesD(1)[OF this] direct show ?thesis by auto
  next
    case False
    then obtain src where src: "ed_source w = Some src" "ms = []" by auto
    obtain st nx where scan: "scan_pages w src s (ed_max_pages w - 1) (resume_page (es_existing s)) ?st = Inr (st, nx)"
      using body src failed_lookup_not_confirmed(1) by (auto split: sum.splits option.splits)
    have ok: "list_all (match_ok w s) (ss_matches st)" by (rule scan_pages_ok[OF scan]) simp
    from body src scan obtain pages complete q where "decide_matches w s (ss_matches st) pages complete q = Pr_decision n merged u"
      by (auto simp: unresolved_def split: option.splits if_splits)
    from decide_matchesD(1)[OF this] ok show ?thesis by auto
  qed
qed

lemma search_commit_not_direct: "search_commit w s p \<noteq> Some (Direct_decision x)"
  by (auto simp: search_commit_def Let_def decide_matchesD(2) failed_lookup_not_confirmed(2) unresolved_def
      split: sum.splits option.splits if_splits)

lemma detail_matchesD:
  assumes "detail_matches s d"
  shows "\<exists>at_time sha. pd_merged d \<and> pd_merged_at d = Some at_time \<and> pd_merge_sha d = Some sha \<and>
    to_lower sha = to_lower (es_sha s) \<and> pd_base_ref d = es_branch s \<and> pd_base_repository d = Some (es_repository s)"
  using assms by (auto simp: detail_matches_def split: option.splits)

lemma snapshot_matchesD:
  assumes "snapshot_matches w s sn = Some merged"
  shows "\<exists>at_time sha. sn_repository sn = es_repository s \<and>
    member (sn_document sn) (js ''state'') = Some (J_string (js ''merged'')) \<and>
    member (sn_document sn) (js ''merged_at'') = Some (J_string at_time) \<and> ed_date w at_time = Some merged \<and>
    member (sn_document sn) (js ''merge_commit_sha'') = Some (J_string sha) \<and> to_lower sha = to_lower (es_sha s) \<and>
    member (sn_document sn) (js ''base_branch'') = Some (J_string (es_branch s))"
  using assms by (auto simp: snapshot_matches_def Let_def split: option.splits json.splits if_splits)

text \<open>C8: No number without evidence: a decision for a pull request repeats stored evidence that
  confirms it with the same time, or rests on a commit that was read and has at most one
  parent and on a record of the pull request. The API's record says that it was merged, at the
  time decided, as this commit (up to letter case), into this branch of this repository;
  without the API a stored snapshot of the pull request says the same.\<close>

theorem confirmation_needs_evidence:
  assumes "resolve_evidence w force s = Some (Pr_decision n merged u)"
  shows "(\<exists>r. es_existing s = Some r \<and> ev_state r = Evidence_pr \<and> ev_pr r = Some n \<and> ev_merged r = Some merged) \<or>
    (\<exists>c. ed_read_commit w (es_sha s) = Some (Some c) \<and> length (cm_parents c) \<le> 1) \<and>
    (case ed_source w of
       Some src \<Rightarrow>
         \<exists>d at_time sha. src_detail src n = Inr (Some d) \<and>
           pd_merged d \<and> pd_merged_at d = Some at_time \<and> merged = ed_api_date w at_time \<and>
           pd_merge_sha d = Some sha \<and> to_lower sha = to_lower (es_sha s) \<and>
           pd_base_ref d = es_branch s \<and> pd_base_repository d = Some (es_repository s)
     | None \<Rightarrow>
         \<exists>sn \<in> set (ed_snapshots w). \<exists>at_time sha. sn_pr sn = n \<and> sn_repository sn = es_repository s \<and>
           member (sn_document sn) (js ''state'') = Some (J_string (js ''merged'')) \<and>
           member (sn_document sn) (js ''merged_at'') = Some (J_string at_time) \<and> ed_date w at_time = Some merged \<and>
           member (sn_document sn) (js ''merge_commit_sha'') = Some (J_string sha) \<and> to_lower sha = to_lower (es_sha s) \<and>
           member (sn_document sn) (js ''base_branch'') = Some (J_string (es_branch s)))"
proof (cases "settled w force s")
  case None
  with assms obtain c p where c: "ed_read_commit w (es_sha s) = Some (Some c)" "length (cm_parents c) \<le> 1"
    "search_commit w s p = Some (Pr_decision n merged u)"
    by (auto simp: resolve_evidence_def Let_def unresolved_def split: option.splits if_splits)
  from search_commit_confirmed[OF c(3)] obtain m where m: "match_ok w s m" "em_pr m = n" "em_merged m = merged" by blast
  show ?thesis
  proof (cases "ed_source w")
    case None
    with m obtain sn where "sn \<in> set (ed_snapshots w)" "sn_pr sn = n" "snapshot_matches w s sn = Some merged"
      by (auto simp: match_ok_def)
    with snapshot_matchesD[of w s sn] c(1,2) None show ?thesis by fastforce
  next
    case (Some src)
    with m obtain d where "src_detail src n = Inr (Some d)" "detail_matches s d" "merged = ed_api_date w (the (pd_merged_at d))"
      by (auto simp: match_ok_def)
    with detail_matchesD[of s d] c(1,2) Some show ?thesis by fastforce
  qed
next
  case (Some d)
  with assms show ?thesis
    by (auto simp: resolve_evidence_def settled_def confirmed_def unresolved_def split: option.splits if_splits)
qed

text \<open>An API with one pull request, merged as the commit given.\<close>

definition sample_detail :: "jstr \<Rightarrow> pr_detail" where
  "sample_detail merged = \<lparr>pd_merged = True, pd_merged_at = Some (js ''t''), pd_merge_sha = Some merged,
     pd_updated = None, pd_base_ref = js ''main'', pd_base_repository = Some 1\<rparr>"

definition sample_deps :: "jstr \<Rightarrow> evidence_deps" where
  "sample_deps merged =
     \<lparr>ed_source = Some \<lparr>src_detail = (\<lambda>n. Inr (Some (sample_detail merged))),
        src_page = (\<lambda>sha _. Inr \<lparr>pg_items = if sha = js ''a'' then [7] else [], pg_next = None, pg_request = None\<rparr>)\<rparr>,
      ed_read_commit = (\<lambda>sha. Some (Some \<lparr>cm_sha = sha, cm_parents = [], cm_message = [], cm_author = None, cm_author_email = None,
        cm_committer = None, cm_committer_email = None, cm_authored = [], cm_committed = []\<rparr>)),
      ed_snapshots = [], ed_max_pages = 1, ed_now = 100, ed_iso = (\<lambda>_. []), ed_api_date = (\<lambda>_. 5), ed_date = (\<lambda>_. None),
      ed_hash = (\<lambda>x. x)\<rparr>"

definition sample_subject :: evidence_subject where
  "sample_subject = \<lparr>es_repository = 1, es_branch = js ''main'', es_epoch = 1, es_seq = 1, es_sha = js ''a'', es_hint = None, es_existing = None\<rparr>"

theorem confirmation_needs_evidence_witness:
  "\<exists>u. resolve_evidence (sample_deps (js ''A'')) False sample_subject = Some (Pr_decision 7 5 u) \<and>
     pd_base_ref (sample_detail (js ''A'')) = js ''main'' \<and> to_lower (js ''A'') = js ''a''"
proof -
  have run: "(case resolve_evidence (sample_deps (js ''A'')) False sample_subject of Some (Pr_decision n m u) \<Rightarrow> (n, m) | _ \<Rightarrow> (0, 0)) = (7, 5)"
    by code_simp
  then obtain u where d: "resolve_evidence (sample_deps (js ''A'')) False sample_subject = Some (Pr_decision 7 5 u)"
    by (auto split: option.splits evidence_decision.splits)
  have "es_existing sample_subject = None" "es_sha sample_subject = js ''a''" "es_branch sample_subject = js ''main''"
    by (simp_all add: sample_subject_def)
  with confirmation_needs_evidence[OF d] have "pd_base_ref (sample_detail (js ''A'')) = js ''main''"
    "to_lower (js ''A'') = to_lower (js ''a'')"
    by (auto simp: sample_deps_def sample_detail_def)
  moreover have "to_lower (js ''a'') = js ''a''" by code_simp
  ultimately show ?thesis using d by simp
qed

text \<open>A direct commit is attested.\<close>

lemma resolve_direct:
  assumes "resolve_evidence w force s = Some (Direct_decision x)"
  shows "x = None \<and> (\<exists>r. es_existing s = Some r \<and> ev_state r = Evidence_direct)"
  using assms search_commit_not_direct
  by (auto simp: resolve_evidence_def settled_def confirmed_def unresolved_def Let_def split: option.splits if_splits)

end
