(* ===== verification/Worker_Reconcile.thy ===== *)
theory Worker_Reconcile
  imports Worker_Rows Worker_Evidence
begin

text \<open>
  Giving out merge numbers (\<open>reconcileMergeNumbers\<close> of \<open>apps/pipeline-worker/src/mnumber.ts\<close>). A round
  first reads the space, a batch of rows and their evidence and asks about each row until one stays
  open; then one transaction under the lock of the space checks that nothing moved, stores the
  evidence, plans the numbers, writes them, moves the checkpoint and asks for the follow-up work. What
  the first part saw is a state of its own, as others work in between. The old numbers in the index of
  documents, which the round clears as far as it can, are left out. \<open>None\<close> is a round that raises.
\<close>

section \<open>State\<close>

record number_world =
  nw_worker :: worker
  nw_evidence :: "evidence_row list"
  nw_attest :: attestation_db

datatype reconcile_outcome =
    Reconcile_done int nat nat "(int \<times> block_reason \<times> int option) option" bool
  | Reconcile_skipped jstr
  | Reconcile_locked
  | Reconcile_retry jstr

definition RECONCILE_BUDGET_MS :: int where
  "RECONCILE_BUDGET_MS = 1000"

definition nw_db :: "number_world \<Rightarrow> seq_db" where
  "nw_db w = wk_seq (nw_worker w)"

definition on_nw_db :: "seq_db \<Rightarrow> number_world \<Rightarrow> number_world" where
  "on_nw_db db w = w\<lparr>nw_worker := (nw_worker w)\<lparr>wk_seq := db\<rparr>\<rparr>"

section \<open>Before the transaction\<close>

definition to_plan_row :: "candidate_row \<Rightarrow> evidence_decision option \<Rightarrow> plan_row" where
  "to_plan_row r d =
     (let row = (\<lambda>k n reason merged. \<lparr>row_seq = cd_seq r, row_sha = cd_sha r, decision = k, pr_number = n, row_reason = reason,
                   existing_number = cd_number r, existing_pr = cd_pr r, merged_at = merged\<rparr>)
      in case d of
           None \<Rightarrow> row Unresolved None (Some Pr_evidence_pending) None
         | Some (Pr_decision n merged u) \<Rightarrow> row Pr_confirmed (Some n) None (Some merged)
         | Some (Direct_decision u) \<Rightarrow> row Direct_confirmed None None None
         | Some (Unresolved_decision reason u) \<Rightarrow> row Unresolved None (Some reason) None)"

definition subject_of :: "int \<Rightarrow> jstr \<Rightarrow> int \<Rightarrow> evidence_row option \<Rightarrow> candidate_row \<Rightarrow> evidence_subject" where
  "subject_of repository branch epoch existing r =
     \<lparr>es_repository = repository, es_branch = branch, es_epoch = epoch, es_seq = cd_seq r, es_sha = cd_sha r,
      es_hint = cd_pr r, es_existing = existing\<rparr>"

text \<open>What the attestation of the epoch makes of a decision, and when the grace of an attestation ends.\<close>

definition with_attestation ::
    "evidence_deps \<Rightarrow> attestation_row option \<Rightarrow> candidate_row \<Rightarrow> evidence_decision \<Rightarrow> evidence_decision \<times> bool \<times> int option" where
  "with_attestation deps attestation r d =
     (case attestation of
        None \<Rightarrow> (d, False, None)
      | Some a \<Rightarrow>
          (case apply_attestation deps a d (cd_seq r) (cd_committed r) of
             Not_applicable \<Rightarrow> (d, False, None)
           | Grace_pending ready \<Rightarrow> (d, False, Some ready)
           | Attested u \<Rightarrow> (Direct_decision (Some u), True, None)))"

text \<open>The decisions up to the first open row, the number of attested rows and the row in its grace.\<close>

fun decide_rows ::
    "evidence_deps \<Rightarrow> bool \<Rightarrow> int \<Rightarrow> jstr \<Rightarrow> int \<Rightarrow> (int \<Rightarrow> evidence_row option) \<Rightarrow> attestation_row option \<Rightarrow> candidate_row list \<Rightarrow>
     ((int \<times> evidence_decision) list \<times> nat \<times> (int \<times> int) option) option" where
  "decide_rows deps force repository branch epoch existing attestation [] = Some ([], 0, None)"
| "decide_rows deps force repository branch epoch existing attestation (r # rs) =
     (case resolve_evidence deps force (subject_of repository branch epoch (existing (cd_seq r)) r) of
        None \<Rightarrow> None
      | Some d0 \<Rightarrow>
          (case with_attestation deps attestation r d0 of
             (d, attested, grace) \<Rightarrow>
               (case d of
                  Unresolved_decision reason u \<Rightarrow> Some ([(cd_seq r, d)], 0, map_option (Pair (cd_seq r)) grace)
                | _ \<Rightarrow>
                    (case decide_rows deps force repository branch epoch existing attestation rs of
                       None \<Rightarrow> None
                     | Some (ds, n, g) \<Rightarrow> Some ((cd_seq r, d) # ds, (if attested then 1 else 0) + n, g)))))"

section \<open>The transaction\<close>

definition upsert_of :: "evidence_decision \<Rightarrow> evidence_upsert option" where
  "upsert_of d = (case d of Pr_decision n merged u \<Rightarrow> Some u | Direct_decision u \<Rightarrow> u | Unresolved_decision reason u \<Rightarrow> Some u)"

text \<open>
  Storing the evidence. A confirmation of another pull request than the one confirmed before becomes
  a conflict and ends the loop; so does an open row. The later decisions stay in the map.
\<close>

fun store_evidence ::
    "seq_db \<Rightarrow> (int \<Rightarrow> evidence_row option) \<Rightarrow> (int \<times> evidence_decision) list \<Rightarrow> evidence_row list \<Rightarrow>
     ((int \<times> evidence_decision) list \<times> evidence_row list) option" where
  "store_evidence db existing [] rows = Some ([], rows)"
| "store_evidence db existing ((seq, d) # ds) rows =
     (let stored = (case upsert_of d of None \<Rightarrow> Inr rows | Some u \<Rightarrow> upsert_evidence db u rows);
          go_on = (case stored of
              Inl e \<Rightarrow> None
            | Inr rows' \<Rightarrow> map_option (\<lambda>(ds', out). ((seq, d) # ds', out)) (store_evidence db existing ds rows')) in
      case d of
        Pr_decision n merged u \<Rightarrow>
          (case existing seq of
             Some prior \<Rightarrow>
               if ev_state prior = Evidence_pr \<and> ev_pr prior \<noteq> Some n
               then Some ((seq, Unresolved_decision Mapping_conflict
                       (u\<lparr>eu_state := Evidence_unresolved, eu_pr := None, eu_reason := Some Mapping_conflict,
                          eu_source := Unresolved_lookup, eu_merged := None\<rparr>)) # ds, rows)
               else go_on
           | None \<Rightarrow> go_on)
      | Direct_decision u \<Rightarrow> go_on
      | Unresolved_decision reason u \<Rightarrow>
          (case stored of Inl e \<Rightarrow> None | Inr rows' \<Rightarrow> Some ((seq, d) # ds, rows')))"

definition to_assignment :: "plan_assignment \<Rightarrow> number_assignment" where
  "to_assignment a = \<lparr>na_seq = pa_seq a, na_pr = pa_pr a, na_number = pa_number a\<rparr>"

definition plain_request :: "work_kind \<Rightarrow> int \<Rightarrow> jstr \<Rightarrow> int \<Rightarrow> json list \<Rightarrow> (jstr \<times> json) list \<Rightarrow> work_request" where
  "plain_request kind repository branch epoch extra payload =
     \<lparr>rq_kind = kind, rq_repository = repository, rq_branch = branch, rq_epoch = epoch, rq_payload = J_object payload,
      rq_extra = extra, rq_available = None\<rparr>"

definition sha_json :: "candidate_row list \<Rightarrow> int \<Rightarrow> json" where
  "sha_json rows seq = (case find (\<lambda>r. cd_seq r = seq) (rev rows) of None \<Rightarrow> J_null | Some r \<Rightarrow> J_string (cd_sha r))"

definition assignment_requests :: "int \<Rightarrow> jstr \<Rightarrow> int \<Rightarrow> candidate_row list \<Rightarrow> plan_assignment \<Rightarrow> work_request list" where
  "assignment_requests repository branch epoch rows a =
     [plain_request Materialize repository branch epoch [J_int (pa_pr a)]
        [(js ''pr_number'', J_int (pa_pr a)), (js ''merge_number'', J_int (pa_number a)), (js ''merge_seq'', J_int (pa_seq a))],
      plain_request Tag repository branch epoch [J_int (pa_pr a)]
        [(js ''pr_number'', J_int (pa_pr a)), (js ''merge_number'', J_int (pa_number a)), (js ''merge_seq'', J_int (pa_seq a)),
         (js ''commit_sha'', sha_json rows (pa_seq a)), (js ''trigger_kind'', J_string (js ''assignment''))]]"

definition announcement :: "int \<Rightarrow> jstr \<Rightarrow> int \<Rightarrow> jstr \<Rightarrow> plan_assignment list \<Rightarrow> work_request list" where
  "announcement repository branch epoch correlation as =
     (if as = [] then []
      else [plain_request Announce repository branch epoch [J_int (pa_number (hd as)), J_int (pa_number (last as))]
              [(js ''repository_id'', J_int repository), (js ''base_branch'', J_string branch), (js ''seq_epoch'', J_int epoch),
               (js ''from_mnumber'', J_int (pa_number (hd as))), (js ''to_mnumber'', J_int (pa_number (last as))),
               (js ''pull_request_numbers'', J_array (map (\<lambda>a. J_int (pa_pr a)) as)),
               (js ''correlation_id'', J_string correlation)]])"

text \<open>A round that was read: the space, the rows, their evidence and the decisions on them.\<close>

record round =
  rd_epoch :: int
  rd_head_seq :: int
  rd_head_number :: int
  rd_rows :: "candidate_row list"
  rd_existing :: "int \<Rightarrow> evidence_row option"
  rd_decisions :: "(int \<times> evidence_decision) list"
  rd_attested :: nat
  rd_grace :: "(int \<times> int) option"

definition evidence_moved :: "int \<Rightarrow> jstr \<Rightarrow> round \<Rightarrow> evidence_row list \<Rightarrow> bool" where
  "evidence_moved repository branch rd rows =
     (let seqs = map fst (rd_decisions rd);
          version = (\<lambda>r. case r of None \<Rightarrow> 0 | Some e \<Rightarrow> ev_version e) in
      list_ex (\<lambda>seq. version (rd_existing rd seq) \<noteq> version (lock_evidence repository branch (rd_epoch rd) seqs rows seq)) seqs)"

definition plan_round ::
    "(plan_row \<Rightarrow> bool) \<Rightarrow> int \<Rightarrow> jstr \<Rightarrow> round \<Rightarrow> (int \<times> evidence_decision) list \<Rightarrow> evidence_row list \<Rightarrow> seq_db \<Rightarrow>
     (plan_error, plan_result) result" where
  "plan_round late repository branch rd decisions evidence db =
     (let rows = map (\<lambda>r. to_plan_row r (map_of decisions (cd_seq r))) (rd_rows rd);
          prs = List.map_filter pr_number rows;
          already = list_numbered_pull_requests repository branch (rd_epoch rd) prs db;
          previous = find_last_confirmed_merged_at repository branch (rd_epoch rd) (rd_head_seq rd) evidence in
      plan_merge_numbers (rd_head_seq rd) (rd_head_number rd) previous (\<lambda>n. n \<in> already) late rows)"

definition checkpoint_of :: "plan_result \<Rightarrow> number_checkpoint" where
  "checkpoint_of plan =
     \<lparr>ck_head_seq = next_head_seq plan, ck_head_number = next_head_number plan,
      ck_blocked = map_option (\<lambda>(seq, reason). (seq, reason_text reason)) (blocked plan)\<rparr>"

text \<open>The numbers do not fit the rows: the transaction is undone and the space blocked.\<close>

definition block_mismatch :: "int \<Rightarrow> jstr \<Rightarrow> round \<Rightarrow> plan_result \<Rightarrow> number_world \<Rightarrow> (number_world \<times> reconcile_outcome) option" where
  "block_mismatch repository branch rd plan w =
     (let first_seq = (case assignments plan of [] \<Rightarrow> rd_head_seq rd + 1 | a # _ \<Rightarrow> pa_seq a) in
      case advance_merge_number_checkpoint repository branch (rd_epoch rd)
             \<lparr>ck_head_seq = rd_head_seq rd, ck_head_number = rd_head_number rd,
              ck_blocked = Some (first_seq, js ''canonical_mismatch'')\<rparr> (nw_db w) of
        None \<Rightarrow> None
      | Some (db, applied) \<Rightarrow>
          Some (on_nw_db db w, Reconcile_done (rd_epoch rd) 0 0 (Some (first_seq, Canonical_mismatch, None)) False))"

definition commit_numbers ::
    "int \<Rightarrow> jstr \<Rightarrow> jstr \<Rightarrow> round \<Rightarrow> plan_result \<Rightarrow> seq_db \<Rightarrow> evidence_row list \<Rightarrow> number_world \<Rightarrow> number_world \<times> reconcile_outcome" where
  "commit_numbers repository branch correlation rd plan db evidence w =
     (let requests = concat (map (assignment_requests repository branch (rd_epoch rd) (rd_rows rd)) (assignments plan)) @
            announcement repository branch (rd_epoch rd) correlation (assignments plan);
          worker = fold request_queue requests ((nw_worker w)\<lparr>wk_seq := db\<rparr>);
          blocked_row = map_option (\<lambda>(seq, reason).
            (seq, reason, case rd_grace rd of Some (g, ready) \<Rightarrow> if g = seq then Some ready else None | None \<Rightarrow> None)) (blocked plan) in
      (w\<lparr>nw_worker := worker, nw_evidence := evidence\<rparr>,
       Reconcile_done (rd_epoch rd) (length (assignments plan)) (rd_attested rd) blocked_row
         (budget_exhausted plan \<and> blocked plan = None)))"

definition write_round ::
    "(plan_row \<Rightarrow> bool) \<Rightarrow> int \<Rightarrow> jstr \<Rightarrow> jstr \<Rightarrow> round \<Rightarrow> number_world \<Rightarrow> (number_world \<times> reconcile_outcome) option" where
  "write_round late repository branch correlation rd w =
     (case store_evidence (nw_db w) (rd_existing rd) (rd_decisions rd) (nw_evidence w) of
        None \<Rightarrow> None
      | Some (decisions, evidence) \<Rightarrow>
          (case plan_round late repository branch rd decisions evidence (nw_db w) of
             Inl e \<Rightarrow> None
           | Inr plan \<Rightarrow>
               (case assign_merge_numbers repository branch (rd_epoch rd) (map to_assignment (assignments plan)) (nw_db w) of
                  None \<Rightarrow> None
                | Some (db1, written) \<Rightarrow>
                    if written \<noteq> length (assignments plan) then block_mismatch repository branch rd plan w
                    else (case advance_merge_number_checkpoint repository branch (rd_epoch rd) (checkpoint_of plan) db1 of
                            None \<Rightarrow> None
                          | Some (db2, applied) \<Rightarrow>
                              if \<not> applied then Some (w, Reconcile_retry (js ''epoch_moved''))
                              else Some (commit_numbers repository branch correlation rd plan db2 evidence w)))))"

definition commit_round ::
    "(plan_row \<Rightarrow> bool) \<Rightarrow> bool \<Rightarrow> int \<Rightarrow> jstr \<Rightarrow> jstr \<Rightarrow> round \<Rightarrow> number_world \<Rightarrow> (number_world \<times> reconcile_outcome) option" where
  "commit_round late locked repository branch correlation rd w =
     (if \<not> locked then Some (w, Reconcile_locked)
      else (case find_sequence_space repository branch (nw_db w) of
              None \<Rightarrow> Some (w, Reconcile_retry (js ''checkpoint_moved''))
            | Some current \<Rightarrow>
                if sp_epoch current \<noteq> rd_epoch rd \<or> sp_number_seq current \<noteq> rd_head_seq rd
                then Some (w, Reconcile_retry (js ''checkpoint_moved''))
                else if evidence_moved repository branch rd (nw_evidence w) then Some (w, Reconcile_retry (js ''evidence_moved''))
                else write_round late repository branch correlation rd w))"

section \<open>A round\<close>

datatype round_start = Start_outcome reconcile_outcome | Start_raised | Start_round round

definition start_round :: "evidence_deps \<Rightarrow> nat \<Rightarrow> bool \<Rightarrow> int \<Rightarrow> jstr \<Rightarrow> number_world \<Rightarrow> round_start" where
  "start_round deps batch force repository branch seen =
     (case find_repository_by_id repository (nw_db seen) of
        None \<Rightarrow> Start_outcome (Reconcile_skipped (js ''repository_unregistered''))
      | Some rp \<Rightarrow>
          if rp_status rp \<noteq> js ''active'' then Start_outcome (Reconcile_skipped (js ''repository_archived''))
          else if branch \<notin> set (rp_branches rp) then Start_outcome (Reconcile_skipped (js ''not_sequence_branch''))
          else (case find_sequence_space repository branch (nw_db seen) of
                  None \<Rightarrow> Start_outcome (Reconcile_skipped (js ''sequence_space_missing''))
                | Some sp \<Rightarrow>
                    if sp_state sp = Space_reassigning then Start_outcome (Reconcile_retry (js ''space_reassigning''))
                    else
                      let epoch = sp_epoch sp;
                          rows = list_candidates_after repository branch epoch (sp_number_seq sp) batch (nw_db seen);
                          existing = list_evidence repository branch epoch (map cd_seq rows) (nw_evidence seen) in
                      if rows = []
                      then Start_outcome (Reconcile_done epoch 0 0
                             (case (sp_blocked_seq sp, sp_blocked_reason sp) of
                                (Some seq, Some reason) \<Rightarrow>
                                  map_option (\<lambda>r. (seq, r, None)) (map_of MERGE_NUMBER_BLOCK_REASONS reason)
                              | _ \<Rightarrow> None) False)
                      else (case decide_rows deps force repository branch epoch existing
                                   (find_active_attestation repository branch epoch (nw_attest seen)) rows of
                              None \<Rightarrow> Start_raised
                            | Some (ds, attested, grace) \<Rightarrow>
                                Start_round \<lparr>rd_epoch = epoch, rd_head_seq = sp_number_seq sp, rd_head_number = sp_number sp,
                                  rd_rows = rows, rd_existing = existing, rd_decisions = ds, rd_attested = attested, rd_grace = grace\<rparr>)))"

definition reconcile_merge_numbers ::
    "evidence_deps \<Rightarrow> nat \<Rightarrow> (plan_row \<Rightarrow> bool) \<Rightarrow> bool \<Rightarrow> bool \<Rightarrow> int \<Rightarrow> jstr \<Rightarrow> jstr \<Rightarrow> number_world \<Rightarrow> number_world \<Rightarrow>
     (number_world \<times> reconcile_outcome) option" where
  "reconcile_merge_numbers deps batch late force locked repository branch correlation seen w =
     (case start_round deps batch force repository branch seen of
        Start_outcome out \<Rightarrow> Some (w, out)
      | Start_raised \<Rightarrow> None
      | Start_round rd \<Rightarrow> commit_round late locked repository branch correlation rd w)"

end
