(* ===== verification/Worker_Covered.thy ===== *)
theory Worker_Covered
  imports Worker_Reconcile
begin

text \<open>
  What the merge numbers of a space satisfy (\<open>numbers_ok\<close>, \<open>world_inv\<close>), and that every operation on the numbers of
  commits keeps it: assignments, new epochs and repairs change no number, write no old row, and give a new epoch an
  empty checkpoint (\<open>chain_change_numbers\<close>).
\<close>

section \<open>What the numbers of a space satisfy\<close>

text \<open>The evidence of a row that the numbering has passed: it says why the row has a number, or none.\<close>

definition covered :: "evidence_row list \<Rightarrow> merge_row \<Rightarrow> bool" where
  "covered evidence r \<longleftrightarrow>
     (\<exists>e \<in> set evidence. evidence_key e = pk_of r \<and> ev_sha e = to_lower (ms_sha r) \<and>
        (case ms_number r of
           Some n \<Rightarrow> ev_state e = Evidence_pr \<and> ev_pr e = ms_pr r
         | None \<Rightarrow> ev_state e = Evidence_direct))"

definition numbers_ok :: "evidence_row list \<Rightarrow> seq_db \<Rightarrow> space_row \<Rightarrow> bool" where
  "numbers_ok evidence db sp \<longleftrightarrow>
     (let rows = set (space_rows (sp_repository sp) (sp_branch sp) (sp_epoch sp) db) in
      {n. \<exists>r \<in> rows. ms_number r = Some n} = {1..sp_number sp} \<and>
      (\<forall>r \<in> rows. \<forall>r' \<in> rows. \<forall>n n'. ms_number r = Some n \<longrightarrow> ms_number r' = Some n' \<longrightarrow> ms_seq r < ms_seq r' \<longrightarrow> n < n') \<and>
      (\<forall>r \<in> rows. is_numbered r \<longrightarrow> ms_seq r \<le> sp_number_seq sp) \<and>
      (\<forall>r \<in> rows. ms_seq r \<le> sp_number_seq sp \<longrightarrow> covered evidence r) \<and>
      0 \<le> sp_number sp \<and> 0 \<le> sp_number_seq sp \<and> sp_number_seq sp \<le> sp_head_seq sp)"

text \<open>Evidence is about a row of the sequence, one for each.\<close>

definition evidence_ok :: "seq_db \<Rightarrow> evidence_row list \<Rightarrow> bool" where
  "evidence_ok db evidence \<longleftrightarrow>
     distinct (map evidence_key evidence) \<and>
     (\<forall>e \<in> set evidence. \<exists>r \<in> set (merges db). pk_of r = evidence_key e \<and> ev_sha e = to_lower (ms_sha r))"

definition world_inv :: "(jstr \<Rightarrow> jstr list option) \<Rightarrow> number_world \<Rightarrow> bool" where
  "world_inv history w \<longleftrightarrow>
     seq_inv history (nw_db w) \<and> evidence_ok (nw_db w) (nw_evidence w) \<and>
     (\<forall>repository branch sp. find_sequence_space repository branch (nw_db w) = Some sp \<longrightarrow> numbers_ok (nw_evidence w) (nw_db w) sp)"

lemma find_space_key:
  "find_sequence_space repository branch db = Some sp \<Longrightarrow> sp_repository sp = repository \<and> sp_branch sp = branch"
  by (auto simp: find_sequence_space_def find_Some_iff space_key_def)

text \<open>The positions of the current epoch are exactly those up to the head.\<close>

lemma space_seqs:
  assumes "seq_inv history db" "find_sequence_space repository branch db = Some sp"
  shows "ms_seq ` set (space_rows repository branch (sp_epoch sp) db) = {1..sp_head_seq sp}"
proof -
  have "ms_seq ` set (space_rows repository branch (sp_epoch sp) db) = fst ` entries_of repository branch (sp_epoch sp) db"
    by (simp add: entries_of_def entry_of_def image_image)
  also have "\<dots> = {1..sp_head_seq sp}"
  proof (cases "sp_head sp")
    case None
    with space_okD(1)[OF assms] show ?thesis by (simp add: chain_ok_def)
  next
    case (Some h)
    with space_okD(1)[OF assms] obtain xs where "entries_of repository branch (sp_epoch sp) db = numbered_from 0 xs"
      "sp_head_seq sp = int (length xs)" by (auto simp: chain_ok_def)
    then show ?thesis by (simp only: fst_numbered_from) simp
  qed
  finally show ?thesis .
qed

lemma head_seq_nonneg: "seq_inv history db \<Longrightarrow> find_sequence_space repository branch db = Some sp \<Longrightarrow> 0 \<le> sp_head_seq sp"
  using space_okD(1)[of history db repository branch sp] by (auto simp: chain_ok_def split: option.splits)

lemma pk_of_in_space: "in_space repository branch epoch r \<Longrightarrow> pk_of r = (repository, branch, epoch, ms_seq r)"
  by (simp add: in_space_def pk_of_def)

section \<open>Changes of the chain\<close>

lemma chain_change_rows:
  assumes inv: "seq_inv history db" and inv': "seq_inv history db'" and change: "chain_change db db'"
    and sp: "find_sequence_space repository branch db = Some sp" and sp': "find_sequence_space repository branch db' = Some sp'"
    and epoch: "sp_epoch sp' = sp_epoch sp"
  defines "rows \<equiv> set (space_rows repository branch (sp_epoch sp) db)"
    and "rows' \<equiv> set (space_rows repository branch (sp_epoch sp) db')"
  shows "r \<in> rows \<Longrightarrow> \<exists>r' \<in> rows'. row_written r r'"
    and "r' \<in> rows' \<Longrightarrow> (\<exists>r \<in> rows. row_written r r') \<or> (\<not> is_numbered r' \<and> sp_head_seq sp < ms_seq r')"
    and "sp_head_seq sp \<le> sp_head_seq sp'"
proof -
  from change obtain f new where f: "merges db' = map f (merges db) @ new" "\<And>r. row_written r (f r)"
    "\<And>r. r \<in> set new \<Longrightarrow> \<not> is_numbered r"
    by (auto simp: chain_change_def rows_written_def)
  have kept: "f r \<in> rows'" if "r \<in> rows" for r
    using that f(1) row_written_same(5)[OF f(2)] by (auto simp: rows_def rows'_def space_rows_iff)
  show "\<exists>r' \<in> rows'. row_written r r'" if "r \<in> rows" using kept[OF that] f(2) by blast
  have seqs: "ms_seq ` rows = {1..sp_head_seq sp}" "ms_seq ` rows' = {1..sp_head_seq sp'}"
    using space_seqs[OF inv sp] space_seqs[OF inv' sp'] epoch by (simp_all add: rows_def rows'_def)
  have "ms_seq ` rows \<subseteq> ms_seq ` rows'"
    using kept row_written_same(4)[OF f(2)] by (metis (no_types, lifting) image_eqI image_subsetI)
  with seqs head_seq_nonneg[OF inv sp] head_seq_nonneg[OF inv' sp'] show "sp_head_seq sp \<le> sp_head_seq sp'"
    by (cases "sp_head_seq sp = 0") auto
  show "(\<exists>r \<in> rows. row_written r r') \<or> (\<not> is_numbered r' \<and> sp_head_seq sp < ms_seq r')" if r': "r' \<in> rows'"
  proof (cases "r' \<in> set new")
    case True
    have "sp_head_seq sp < ms_seq r'"
    proof (rule ccontr)
      assume "\<not> sp_head_seq sp < ms_seq r'"
      moreover have "1 \<le> ms_seq r'" using seqs(2) r' by auto
      ultimately have "ms_seq r' \<in> ms_seq ` rows" using seqs(1) by simp
      then obtain r where r: "r \<in> rows" "ms_seq r = ms_seq r'" by auto
      have "pk_of (f r) = pk_of r'"
        using r r' kept[OF r(1)] row_written_same(4)[OF f(2)[of r]] by (auto simp: rows'_def space_rows_iff pk_of_in_space)
      moreover have "f r \<in> set (map f (merges db))" using r(1) by (auto simp: rows_def space_rows_iff)
      ultimately have "pk_of r' \<in> pk_of ` set (map f (merges db)) \<inter> pk_of ` set new" using True by (metis IntI image_eqI)
      moreover have "pk_of ` set (map f (merges db)) \<inter> pk_of ` set new = {}"
        using table_okD(1)[OF seq_invD(1)[OF inv']] unfolding f(1) map_append distinct_append by (simp add: image_image)
      ultimately show False by blast
    qed
    with f(3)[OF True] show ?thesis by blast
  next
    case False
    with r' f(1) obtain r where "r \<in> set (merges db)" "r' = f r" by (auto simp: rows'_def space_rows_iff)
    with r' row_written_same(5)[OF f(2)[of r]] f(2)[of r] show ?thesis by (auto simp: rows_def rows'_def space_rows_iff)
  qed
qed

lemma covered_written:
  assumes "covered evidence r" "row_written r r'" "row_checks r"
  shows "covered evidence r'"
proof -
  have "ms_pr r' = ms_pr r" if "ms_number r \<noteq> None"
    using assms(2,3) that by (auto simp: row_written_def row_checks_def is_numbered_def)
  with assms(1) row_written_same[OF assms(2)] show ?thesis by (fastforce simp: covered_def split: option.splits)
qed

lemma chain_change_fresh_epoch:
  assumes "chain_change db db'" "space_rows repository branch epoch db = []" "r' \<in> set (space_rows repository branch epoch db')"
  shows "\<not> is_numbered r'"
proof -
  from assms(1) obtain f new where f: "merges db' = map f (merges db) @ new" "\<And>r. row_written r (f r)"
    "\<And>r. r \<in> set new \<Longrightarrow> \<not> is_numbered r"
    by (auto simp: chain_change_def rows_written_def)
  have "r' \<notin> f ` set (merges db)"
  proof
    assume "r' \<in> f ` set (merges db)"
    then obtain r where r: "r \<in> set (merges db)" "r' = f r" by auto
    with assms(3) row_written_same(5)[OF f(2)[of r]] have "r \<in> set (space_rows repository branch epoch db)" by (simp add: space_rows_iff)
    with assms(2) show False by simp
  qed
  with assms(3) f(1,3) show ?thesis by (auto simp: space_rows_iff)
qed

lemma chain_change_numbers:
  assumes inv: "seq_inv history db" and inv': "seq_inv history db'" and change: "chain_change db db'"
    and ok: "\<And>sp. find_sequence_space repository branch db = Some sp \<Longrightarrow> numbers_ok evidence db sp"
    and sp': "find_sequence_space repository branch db' = Some sp'"
  shows "numbers_ok evidence db' sp'"
proof -
  note key' = find_space_key[OF sp']
  have kept: "checkpoint_kept (find_sequence_space repository branch db) (Some sp')"
    using change unfolding chain_change_def checkpoints_kept_def sp'[symmetric] by blast
  show ?thesis
  proof (cases "\<exists>sp. find_sequence_space repository branch db = Some sp \<and> sp_epoch sp' = sp_epoch sp \<and>
      sp_number_seq sp' = sp_number_seq sp \<and> sp_number sp' = sp_number sp")
    case True
    then obtain sp where sp: "find_sequence_space repository branch db = Some sp" "sp_epoch sp' = sp_epoch sp"
      "sp_number_seq sp' = sp_number_seq sp" "sp_number sp' = sp_number sp" by blast
    let ?rows = "set (space_rows repository branch (sp_epoch sp) db)"
    let ?rows' = "set (space_rows repository branch (sp_epoch sp) db')"
    note rows = chain_change_rows[OF inv inv' change sp(1) sp' sp(2)]
    have old: "{n. \<exists>r \<in> ?rows. ms_number r = Some n} = {1..sp_number sp}"
      "\<And>r r' n n'. r \<in> ?rows \<Longrightarrow> r' \<in> ?rows \<Longrightarrow> ms_number r = Some n \<Longrightarrow> ms_number r' = Some n' \<Longrightarrow> ms_seq r < ms_seq r' \<Longrightarrow> n < n'"
      "\<And>r. r \<in> ?rows \<Longrightarrow> is_numbered r \<Longrightarrow> ms_seq r \<le> sp_number_seq sp"
      "\<And>r. r \<in> ?rows \<Longrightarrow> ms_seq r \<le> sp_number_seq sp \<Longrightarrow> covered evidence r"
      "0 \<le> sp_number sp" "0 \<le> sp_number_seq sp" "sp_number_seq sp \<le> sp_head_seq sp"
      using ok[OF sp(1)] find_space_key[OF sp(1)] unfolding numbers_ok_def Let_def by blast+
    have from_old: "\<exists>r \<in> ?rows. row_written r r'" if "r' \<in> ?rows'" "is_numbered r' \<or> ms_seq r' \<le> sp_number_seq sp" for r'
      using rows(2)[OF that(1)] that(2) old(7) by auto
    have "{n. \<exists>r \<in> ?rows'. ms_number r = Some n} = {n. \<exists>r \<in> ?rows. ms_number r = Some n}"
    proof (intro set_eqI iffI; clarify)
      fix n r' assume r': "r' \<in> ?rows'" "ms_number r' = Some n"
      with from_old[OF r'(1)] obtain r where "r \<in> ?rows" "row_written r r'" by (auto simp: is_numbered_def)
      with r'(2) row_written_same(1) show "\<exists>r \<in> ?rows. ms_number r = Some n" by metis
    next
      fix n r assume r: "r \<in> ?rows" "ms_number r = Some n"
      with rows(1)[OF r(1)] obtain r' where "r' \<in> ?rows'" "row_written r r'" by blast
      with r(2) row_written_same(1) show "\<exists>r \<in> ?rows'. ms_number r = Some n" by metis
    qed
    moreover have "n < n'" if r: "r \<in> ?rows'" "r' \<in> ?rows'" "ms_number r = Some n" "ms_number r' = Some n'" "ms_seq r < ms_seq r'"
      for r r' n n'
    proof -
      obtain q where q: "q \<in> ?rows" "row_written q r" using from_old[OF r(1)] r(3) by (auto simp: is_numbered_def)
      obtain q' where q': "q' \<in> ?rows" "row_written q' r'" using from_old[OF r(2)] r(4) by (auto simp: is_numbered_def)
      from old(2)[OF q(1) q'(1)] r(3-5) row_written_same[OF q(2)] row_written_same[OF q'(2)] show ?thesis by auto
    qed
    moreover have "ms_seq r' \<le> sp_number_seq sp" if n: "r' \<in> ?rows'" "is_numbered r'" for r'
    proof -
      obtain r where r: "r \<in> ?rows" "row_written r r'" using from_old[OF n(1)] n(2) by auto
      with old(3)[OF r(1)] n(2) row_written_same[OF r(2)] show ?thesis by (simp add: is_numbered_def)
    qed
    moreover have "covered evidence r'" if r': "r' \<in> ?rows'" "ms_seq r' \<le> sp_number_seq sp" for r'
    proof -
      obtain r where r: "r \<in> ?rows" "row_written r r'" using from_old[OF r'(1)] r'(2) by auto
      have "row_checks r" using table_okD(5)[OF seq_invD(1)[OF inv]] r(1) by (simp add: space_rows_iff)
      with covered_written[OF old(4)[OF r(1)] r(2)] r'(2) row_written_same[OF r(2)] show ?thesis by simp
    qed
    ultimately show ?thesis unfolding numbers_ok_def Let_def
      using key' sp(2-4) old(1,5-7) rows(3) by auto
  next
    case False
    with kept have zero: "sp_number_seq sp' = 0" "sp_number sp' = 0"
      by (auto simp: checkpoint_kept_def split: option.splits)
    have "entries_of repository branch (sp_epoch sp') db = {}"
    proof (cases "find_sequence_space repository branch db")
      case None
      with seq_invD(2)[OF inv, of repository branch] show ?thesis by (simp add: space_ok_def)
    next
      case (Some sp)
      with False kept have "sp_epoch sp' > sp_epoch sp" by (auto simp: checkpoint_kept_def)
      with space_okD(2)[OF inv Some] show ?thesis by simp
    qed
    then have "space_rows repository branch (sp_epoch sp') db = []" by (simp add: entries_of_def)
    note unnumbered = chain_change_fresh_epoch[OF change this]
    have "1 \<le> ms_seq r" if "r \<in> set (space_rows repository branch (sp_epoch sp') db')" for r
      using space_seqs[OF inv' sp'] that by auto
    with unnumbered zero key' head_seq_nonneg[OF inv' sp'] show ?thesis
      unfolding numbers_ok_def Let_def by (fastforce simp: is_numbered_def)
  qed
qed

end
