(* ===== verification/Worker_Rounds.thy ===== *)
theory Worker_Rounds
  imports Worker_Covered
begin

text \<open>
  The parts of a round of the numbering, each on its own: what the decisions rest on, what the stored evidence
  is, which rows the plan passes, and what the statement that writes the numbers writes.
\<close>

section \<open>What a plan passes\<close>

text \<open>
  The rows a plan passes are consecutive and decided; those with a pull request get an assignment each,
  in their order.
\<close>

lemma plan_loop_passed:
  "plan_loop already late st rows = Inr r \<Longrightarrow>
   \<exists>passed rest new. rows = passed @ rest \<and> assignments r = assigned st @ new \<and>
     map row_seq passed = map (\<lambda>i. head_seq st + 1 + int i) [0..<length passed] \<and>
     next_head_seq r = head_seq st + int (length passed) \<and>
     (\<forall>row \<in> set passed. decision row \<noteq> Unresolved) \<and>
     map (\<lambda>a. (pa_seq a, Some (pa_pr a))) new =
       map (\<lambda>row. (row_seq row, pr_number row)) (filter (\<lambda>row. decision row = Pr_confirmed) passed)"
proof (induction rows arbitrary: st)
  case Nil
  then show ?case by (intro exI[of _ "[]"]) (auto simp: finish_plan_def)
next
  case (Cons row rows)
  let ?stop = "\<lambda>blk. \<exists>b. r = finish_plan st blk b"
  have seq: "row_seq row = head_seq st + 1" using Cons.prems by (auto split: if_splits)
  have stop: ?case if "?stop blk" for blk
    using that by (intro exI[of _ "[]"] exI[of _ "row # rows"]) (auto simp: finish_plan_def)
  have shift: "map row_seq (row # passed) = map (\<lambda>i. head_seq st + 1 + int i) [0..<length (row # passed)]"
    if "map row_seq passed = map (\<lambda>i. head_seq st' + 1 + int i) [0..<length passed]" "head_seq st' = head_seq st + 1" for passed st'
    using that seq by (simp add: map_Suc_upt[symmetric] upt_conv_Cons o_def del: upt_Suc)
  show ?case
  proof (cases "row_outcome_of already st row")
    case (Row_error e)
    with Cons.prems stop show ?thesis by (auto split: if_splits)
  next
    case (Row_blocked reason)
    with Cons.prems stop show ?thesis by (auto split: if_splits)
  next
    case Row_passed
    then have direct: "decision row = Direct_confirmed"
      by (auto simp: row_outcome_of_def split: if_splits plan_decision.splits option.splits)
    let ?st = "st\<lparr>head_seq := row_seq row\<rparr>"
    show ?thesis
    proof (cases "late row")
      case True
      with Cons.prems stop show ?thesis by (auto split: if_splits)
    next
      case False
      with Cons.prems Row_passed have "plan_loop already late ?st rows = Inr r" by (auto split: if_splits)
      from Cons.IH[OF this] obtain passed rest new where "rows = passed @ rest" "assignments r = assigned st @ new"
        "map row_seq passed = map (\<lambda>i. head_seq ?st + 1 + int i) [0..<length passed]"
        "next_head_seq r = row_seq row + int (length passed)" "\<forall>row \<in> set passed. decision row \<noteq> Unresolved"
        "map (\<lambda>a. (pa_seq a, Some (pa_pr a))) new =
           map (\<lambda>row. (row_seq row, pr_number row)) (filter (\<lambda>row. decision row = Pr_confirmed) passed)" by auto
      with direct seq shift[of passed ?st] show ?thesis
        by (intro exI[of _ "row # passed"] exI[of _ rest] exI[of _ new]) auto
    qed
  next
    case (Row_numbered pr)
    then have confirmed: "decision row = Pr_confirmed" "pr_number row = Some pr"
      by (auto simp: row_outcome_of_def split: if_splits plan_decision.splits option.splits)
    let ?st = "number_row row pr st"
    show ?thesis
    proof (cases "late row")
      case True
      with Cons.prems stop show ?thesis by (auto split: if_splits)
    next
      case False
      with Cons.prems Row_numbered have "plan_loop already late ?st rows = Inr r" by (auto split: if_splits)
      from Cons.IH[OF this] obtain passed rest new where p: "rows = passed @ rest" "assignments r = assigned ?st @ new"
        "map row_seq passed = map (\<lambda>i. head_seq ?st + 1 + int i) [0..<length passed]"
        "next_head_seq r = head_seq ?st + int (length passed)" "\<forall>row \<in> set passed. decision row \<noteq> Unresolved"
        "map (\<lambda>a. (pa_seq a, Some (pa_pr a))) new =
           map (\<lambda>row. (row_seq row, pr_number row)) (filter (\<lambda>row. decision row = Pr_confirmed) passed)" by auto
      have st: "head_seq ?st = row_seq row" by (simp add: number_row_def Let_def)
      obtain a where a: "assigned ?st = assigned st @ [a]" "pa_seq a = row_seq row" "pa_pr a = pr"
        by (simp add: number_row_def Let_def)
      from p st a confirmed seq shift[of passed ?st] show ?thesis
        by (intro exI[of _ "row # passed"] exI[of _ rest] exI[of _ "a # new"]) auto
    qed
  qed
qed

section \<open>What is stored of a decision\<close>

definition upsert_for :: "evidence_subject \<Rightarrow> evidence_upsert \<Rightarrow> bool" where
  "upsert_for s u \<longleftrightarrow> upsert_key u = (es_repository s, es_branch s, es_epoch s, es_seq s) \<and> eu_sha u = es_sha s"

definition decision_ok :: "evidence_subject \<Rightarrow> evidence_decision \<Rightarrow> bool" where
  "decision_ok s d \<longleftrightarrow>
     (case d of
        Pr_decision n merged u \<Rightarrow> upsert_for s u \<and> eu_state u = Evidence_pr \<and> eu_pr u = Some n
      | Direct_decision None \<Rightarrow> \<exists>e. es_existing s = Some e \<and> ev_state e = Evidence_direct
      | Direct_decision (Some u) \<Rightarrow> upsert_for s u \<and> eu_state u = Evidence_direct
      | Unresolved_decision reason u \<Rightarrow> upsert_for s u \<and> eu_state u = Evidence_unresolved)"

lemma decision_ok_simps [simp]:
  "decision_ok s (unresolved s reason p)" "decision_ok s (confirmed s n merged source version p)"
  by (simp_all add: decision_ok_def unresolved_def confirmed_def evidence_of_def upsert_for_def upsert_key_def)

lemma decide_matches_ok: "decision_ok s (decide_matches w s ms pages complete p)"
  by (auto simp: decide_matches_def Let_def split: list.split)

lemma failed_lookup_ok: "failed_lookup w s e = Some d \<Longrightarrow> decision_ok s d"
  by (cases e; cases "fst e") (auto simp: failed_lookup_def)

lemma search_commit_ok: "search_commit w s p = Some d \<Longrightarrow> decision_ok s d"
  by (auto simp: search_commit_def Let_def decide_matches_ok dest: failed_lookup_ok split: sum.splits option.splits if_splits)

lemma resolve_evidence_ok: "resolve_evidence w force s = Some d \<Longrightarrow> decision_ok s d"
  by (auto simp: resolve_evidence_def settled_def Let_def dest: search_commit_ok split: option.splits if_splits)
    (auto simp: decision_ok_def)

lemma with_attestation_ok: "decision_ok s d \<Longrightarrow> decision_ok s (fst (with_attestation w a r d))"
  by (auto simp: with_attestation_def apply_attestation_def decision_ok_def upsert_for_def upsert_key_def
      split: option.splits evidence_decision.splits if_splits)

definition is_open :: "evidence_decision \<Rightarrow> bool" where
  "is_open d \<longleftrightarrow> (case d of Unresolved_decision reason u \<Rightarrow> True | _ \<Rightarrow> False)"

text \<open>The decisions are on the first rows, in their order.\<close>

lemma decide_rows_ok:
  "decide_rows w force repository branch epoch existing a rs = Some (ds, n, g) \<Longrightarrow>
   \<exists>rs1 rs2. rs = rs1 @ rs2 \<and>
     list_all2 (\<lambda>r x. fst x = cd_seq r \<and> decision_ok (subject_of repository branch epoch (existing (cd_seq r)) r) (snd x)) rs1 ds"
proof (induction rs arbitrary: ds n g)
  case (Cons r rs)
  let ?s = "subject_of repository branch epoch (existing (cd_seq r)) r"
  from Cons.prems obtain d0 where d0: "resolve_evidence w force ?s = Some d0" by (auto split: option.splits)
  obtain d attested grace where d: "with_attestation w a r d0 = (d, attested, grace)" by (cases "with_attestation w a r d0")
  with with_attestation_ok[OF resolve_evidence_ok[OF d0], of w a r] have ok: "decision_ok ?s d" by simp
  have go_on: ?case if "decide_rows w force repository branch epoch existing a rs = Some (ds', n', g')" "ds = (cd_seq r, d) # ds'" for ds' n' g'
  proof -
    from Cons.IH[OF that(1)] obtain rs1 rs2 where "rs = rs1 @ rs2"
      "list_all2 (\<lambda>r x. fst x = cd_seq r \<and> decision_ok (subject_of repository branch epoch (existing (cd_seq r)) r) (snd x)) rs1 ds'" by blast
    with ok that(2) show ?thesis by (intro exI[of _ "r # rs1"] exI[of _ rs2]) simp
  qed
  show ?case
  proof (cases d)
    case (Unresolved_decision reason u)
    with Cons.prems d0 d have "ds = [(cd_seq r, d)]" by simp
    with ok show ?thesis by (intro exI[of _ "[r]"] exI[of _ rs]) simp
  qed (use Cons.prems d0 d go_on in \<open>auto split: option.splits prod.splits\<close>)
qed simp

section \<open>Storing evidence\<close>

text \<open>Evidence grows: a row keeps its place and commit, and has a higher version once it changes.\<close>

definition evidence_grows :: "evidence_row list \<Rightarrow> evidence_row list \<Rightarrow> bool" where
  "evidence_grows rows out \<longleftrightarrow>
     (\<forall>e \<in> set rows. \<exists>e' \<in> set out. evidence_key e' = evidence_key e \<and> (e' = e \<or> ev_version e < ev_version e'))"

lemma evidence_grows_refl [simp]: "evidence_grows rows rows"
  by (auto simp: evidence_grows_def)

lemma evidence_grows_trans: "evidence_grows a b \<Longrightarrow> evidence_grows b c \<Longrightarrow> evidence_grows a c"
  unfolding evidence_grows_def by (metis order.strict_trans)

lemma renewed_key [simp]: "evidence_key (renewed_evidence now u r) = evidence_key r" "ev_sha (renewed_evidence now u r) = ev_sha r"
  "ev_state (renewed_evidence now u r) = eu_state u" "ev_pr (renewed_evidence now u r) = eu_pr u"
  "ev_version (renewed_evidence now u r) = ev_version r + 1"
  by (simp_all add: renewed_evidence_def evidence_key_def)

lemma new_evidence_key [simp]: "evidence_key (new_evidence now u) = upsert_key u" "ev_sha (new_evidence now u) = to_lower (eu_sha u)"
  "ev_state (new_evidence now u) = eu_state u" "ev_pr (new_evidence now u) = eu_pr u"
  by (simp_all add: new_evidence_def evidence_key_def upsert_key_def)

text \<open>What a statement leaves: the row of its key, and the other rows as they were.\<close>

lemma upsert_evidence_rows:
  assumes "upsert_evidence db u rows = Inr out" and "distinct (map evidence_key rows)"
  shows "distinct (map evidence_key out)" and "evidence_grows rows out"
    and "\<exists>e \<in> set out. evidence_key e = upsert_key u \<and> ev_sha e = to_lower (eu_sha u) \<and> ev_state e = eu_state u \<and> ev_pr e = eu_pr u"
    and "evidence_key e \<noteq> upsert_key u \<Longrightarrow> e \<in> set out \<longleftrightarrow> e \<in> set rows"
    and "e \<in> set out \<Longrightarrow> evidence_key e = upsert_key u \<Longrightarrow> ev_sha e = to_lower (eu_sha u)"
proof -
  let ?f = "\<lambda>x. if evidence_key x = upsert_key u then renewed_evidence (db_now db) u x else x"
  have same: "map evidence_key (map ?f rows) = map evidence_key rows" by simp
  have out: "distinct (map evidence_key out) \<and> evidence_grows rows out \<and>
      (\<exists>e \<in> set out. evidence_key e = upsert_key u \<and> ev_sha e = to_lower (eu_sha u) \<and> ev_state e = eu_state u \<and> ev_pr e = eu_pr u) \<and>
      (\<forall>e. evidence_key e \<noteq> upsert_key u \<longrightarrow> e \<in> set out \<longleftrightarrow> e \<in> set rows)"
  proof (cases "find (\<lambda>r. evidence_key r = upsert_key u) rows")
    case None
    with assms(1) have o: "out = rows @ [new_evidence (db_now db) u]" by (auto simp: upsert_evidence_def split: if_splits)
    from None have "upsert_key u \<notin> evidence_key ` set rows" by (auto simp: find_None_iff)
    with assms(2) show ?thesis unfolding o evidence_grows_def by auto
  next
    case (Some r)
    then have r: "r \<in> set rows" "evidence_key r = upsert_key u" by (auto simp: find_Some_iff)
    from Some assms(1) have o: "out = map ?f rows" "ev_sha r = to_lower (eu_sha u)"
      by (auto simp: upsert_evidence_def split: if_splits)
    have "?f r \<in> set out" unfolding o(1) set_map by (rule imageI) (rule r(1))
    then have "\<exists>e \<in> set out. evidence_key e = upsert_key u \<and> ev_sha e = to_lower (eu_sha u) \<and> ev_state e = eu_state u \<and> ev_pr e = eu_pr u"
      using r o(2) by (intro bexI[of _ "?f r"]) auto
    moreover have "evidence_grows rows out" unfolding evidence_grows_def
    proof
      fix e assume "e \<in> set rows"
      then have "?f e \<in> set out" unfolding o(1) set_map by (rule imageI)
      then show "\<exists>e' \<in> set out. evidence_key e' = evidence_key e \<and> (e' = e \<or> ev_version e < ev_version e')"
        by (intro bexI[of _ "?f e"]) auto
    qed
    moreover have "\<forall>e. evidence_key e \<noteq> upsert_key u \<longrightarrow> e \<in> set out \<longleftrightarrow> e \<in> set rows"
      unfolding o(1) by (auto split: if_splits simp: image_iff)
    moreover have "distinct (map evidence_key out)" unfolding o(1) same by (rule assms(2))
    ultimately show ?thesis by blast
  qed
  then show "distinct (map evidence_key out)" and "evidence_grows rows out"
    and here: "\<exists>e \<in> set out. evidence_key e = upsert_key u \<and> ev_sha e = to_lower (eu_sha u) \<and> ev_state e = eu_state u \<and> ev_pr e = eu_pr u"
    and "evidence_key e \<noteq> upsert_key u \<Longrightarrow> e \<in> set out \<longleftrightarrow> e \<in> set rows"
    by blast+
  show "ev_sha e = to_lower (eu_sha u)" if "e \<in> set out" "evidence_key e = upsert_key u"
    using here that out by (metis distinct_map inj_onD)
qed

text \<open>What the evidence says of a position for a decision that was stored.\<close>

definition stored_as :: "evidence_row list \<Rightarrow> int \<times> jstr \<times> int \<times> int \<Rightarrow> jstr \<Rightarrow> evidence_decision \<Rightarrow> bool" where
  "stored_as rows key sha d \<longleftrightarrow>
     (\<exists>e \<in> set rows. evidence_key e = key \<and> ev_sha e = to_lower sha \<and>
        (case d of
           Pr_decision n merged u \<Rightarrow> ev_state e = Evidence_pr \<and> ev_pr e = Some n
         | Direct_decision u \<Rightarrow> ev_state e = Evidence_direct
         | Unresolved_decision reason u \<Rightarrow> False))"

text \<open>Rows that change only at a set of keys, and there only with the commits given.\<close>

definition evidence_changed :: "(int \<times> jstr \<times> int \<times> int) set \<Rightarrow> evidence_row list \<Rightarrow> evidence_row list \<Rightarrow> bool" where
  "evidence_changed keys rows out \<longleftrightarrow>
     distinct (map evidence_key out) \<and> evidence_grows rows out \<and> (\<forall>e. evidence_key e \<notin> keys \<longrightarrow> e \<in> set out \<longleftrightarrow> e \<in> set rows)"

lemma evidence_changed_refl: "distinct (map evidence_key rows) \<Longrightarrow> evidence_changed keys rows rows"
  by (simp add: evidence_changed_def)

lemma evidence_changed_trans:
  "evidence_changed k a b \<Longrightarrow> evidence_changed l b c \<Longrightarrow> k \<subseteq> m \<Longrightarrow> l \<subseteq> m \<Longrightarrow> evidence_changed m a c"
  unfolding evidence_changed_def using evidence_grows_trans by blast

lemma stored_as_other:
  "evidence_changed keys rows out \<Longrightarrow> key \<notin> keys \<Longrightarrow> stored_as rows key sha d \<Longrightarrow> stored_as out key sha d"
  unfolding stored_as_def evidence_changed_def by metis

text \<open>One decision.\<close>

lemma store_one:
  assumes "decision_ok s d" and "distinct (map evidence_key rows)"
    and "(case upsert_of d of None \<Rightarrow> Inr rows | Some u \<Rightarrow> upsert_evidence db u rows) = Inr out"
    and "\<And>e. es_existing s = Some e \<Longrightarrow> e \<in> set rows \<and> evidence_key e = (es_repository s, es_branch s, es_epoch s, es_seq s) \<and>
      ev_sha e = to_lower (es_sha s)"
  defines "key \<equiv> (es_repository s, es_branch s, es_epoch s, es_seq s)"
  shows "evidence_changed {key} rows out" and "\<not> is_open d \<Longrightarrow> stored_as out key (es_sha s) d"
    and "e \<in> set out \<Longrightarrow> evidence_key e = key \<Longrightarrow> ev_sha e = to_lower (es_sha s) \<or> e \<in> set rows"
proof -
  have "evidence_changed {key} rows out \<and> (\<not> is_open d \<longrightarrow> stored_as out key (es_sha s) d) \<and>
      (\<forall>e \<in> set out. evidence_key e = key \<longrightarrow> ev_sha e = to_lower (es_sha s) \<or> e \<in> set rows)"
  proof (cases "upsert_of d")
    case None
    with assms(3) have "out = rows" by simp
    moreover from None assms(1) obtain e where "d = Direct_decision None" "es_existing s = Some e" "ev_state e = Evidence_direct"
      by (auto simp: upsert_of_def decision_ok_def split: evidence_decision.splits)
    ultimately show ?thesis using assms(4)[of e] evidence_changed_refl[OF assms(2)] by (auto simp: stored_as_def key_def)
  next
    case (Some u)
    with assms(3) have up: "upsert_evidence db u rows = Inr out" by simp
    from Some assms(1) have u: "upsert_for s u"
      by (auto simp: upsert_of_def decision_ok_def split: evidence_decision.splits option.splits)
    then have key: "upsert_key u = key" "eu_sha u = es_sha s" by (auto simp: upsert_for_def key_def)
    note rows = upsert_evidence_rows[OF up assms(2)]
    have "evidence_changed {key} rows out" using rows(1,2,4) key(1) by (auto simp: evidence_changed_def)
    moreover have "stored_as out key (es_sha s) d" if "\<not> is_open d"
      using that Some assms(1) rows(3) key
      by (fastforce simp: upsert_of_def decision_ok_def is_open_def stored_as_def split: evidence_decision.splits option.splits)
    ultimately show ?thesis using rows(5) key by auto
  qed
  then show "evidence_changed {key} rows out" "\<not> is_open d \<Longrightarrow> stored_as out key (es_sha s) d"
    "e \<in> set out \<Longrightarrow> evidence_key e = key \<Longrightarrow> ev_sha e = to_lower (es_sha s) \<or> e \<in> set rows" by blast+
qed

lemma store_evidence_rows:
  assumes "store_evidence db existing ds rows = Some (ds', out)"
    and "\<And>seq d. (seq, d) \<in> set ds \<Longrightarrow> decision_ok (subj seq) d \<and> es_seq (subj seq) = seq \<and> es_repository (subj seq) = repository \<and>
      es_branch (subj seq) = branch \<and> es_epoch (subj seq) = epoch"
    and "distinct (map fst ds)" "distinct (map evidence_key rows)"
    and "\<And>seq e. seq \<in> fst ` set ds \<Longrightarrow> es_existing (subj seq) = Some e \<Longrightarrow> e \<in> set rows \<and>
      evidence_key e = (repository, branch, epoch, seq) \<and> ev_sha e = to_lower (es_sha (subj seq))"
  shows "map fst ds' = map fst ds \<and> evidence_changed ((\<lambda>seq. (repository, branch, epoch, seq)) ` fst ` set ds) rows out \<and>
    (\<forall>e \<in> set out. e \<in> set rows \<or> (\<exists>seq \<in> fst ` set ds. evidence_key e = (repository, branch, epoch, seq) \<and>
        ev_sha e = to_lower (es_sha (subj seq)))) \<and>
    (\<forall>pre seq d post. ds' = pre @ (seq, d) # post \<longrightarrow> (\<forall>x \<in> set pre. \<not> is_open (snd x)) \<longrightarrow> \<not> is_open d \<longrightarrow>
       stored_as out (repository, branch, epoch, seq) (es_sha (subj seq)) d)"
  using assms
proof (induction ds arbitrary: rows ds' out)
  case Nil
  then show ?case by (simp add: evidence_changed_refl)
next
  case (Cons x ds)
  obtain seq d where x: "x = (seq, d)" by (cases x)
  let ?s = "subj seq" and ?key = "(repository, branch, epoch, seq)"
  have s: "decision_ok ?s d" "(es_repository ?s, es_branch ?s, es_epoch ?s, es_seq ?s) = ?key"
    using Cons.prems(2)[of seq d] x by auto
  have ex: "\<And>e. es_existing ?s = Some e \<Longrightarrow> e \<in> set rows \<and> evidence_key e = (es_repository ?s, es_branch ?s, es_epoch ?s, es_seq ?s) \<and>
      ev_sha e = to_lower (es_sha ?s)"
    using Cons.prems(5)[of seq] x s(2) by simp
  let ?stored = "case upsert_of d of None \<Rightarrow> Inr rows | Some u \<Rightarrow> upsert_evidence db u rows"
  consider (conflict) d' where "ds' = (seq, d') # ds" "out = rows" "is_open d'"
    | (open_row) "ds' = (seq, d) # ds" "?stored = Inr out" "is_open d"
    | (go_on) mid ds2 where "?stored = Inr mid" "store_evidence db existing ds mid = Some (ds2, out)" "ds' = (seq, d) # ds2"
    using Cons.prems(1) x
    by (auto simp: Let_def is_open_def split: evidence_decision.splits option.splits if_splits sum.splits)
  then show ?case
  proof cases
    case conflict
    then show ?thesis using x evidence_changed_refl[OF Cons.prems(4)] by (auto simp: Cons_eq_append_conv)
  next
    case open_row
    note one = store_one[OF s(1) Cons.prems(4) open_row(2) ex, unfolded s(2)]
    have "evidence_changed ((\<lambda>seq. (repository, branch, epoch, seq)) ` fst ` set (x # ds)) rows out"
      by (rule evidence_changed_trans[OF evidence_changed_refl[OF Cons.prems(4)] one(1), of "{}"]) (auto simp: x)
    moreover have "\<forall>e \<in> set out. e \<in> set rows \<or> (\<exists>seq \<in> fst ` set (x # ds). evidence_key e = (repository, branch, epoch, seq) \<and>
        ev_sha e = to_lower (es_sha (subj seq)))"
      using one(1,3) x by (auto simp: evidence_changed_def)
    ultimately show ?thesis using open_row(1,3) x by (auto simp: Cons_eq_append_conv)
  next
    case go_on
    note one = store_one[OF s(1) Cons.prems(4) go_on(1) ex, unfolded s(2)]
    have mid: "distinct (map evidence_key mid)" using one(1) by (simp add: evidence_changed_def)
    have new: "seq \<notin> fst ` set ds" using Cons.prems(3) x by auto
    have ex': "e \<in> set mid \<and> evidence_key e = (repository, branch, epoch, seq') \<and> ev_sha e = to_lower (es_sha (subj seq'))"
      if "seq' \<in> fst ` set ds" "es_existing (subj seq') = Some e" for seq' e
    proof -
      from that new have "seq' \<noteq> seq" by auto
      with that Cons.prems(5)[of seq' e] one(1) show ?thesis by (auto simp: evidence_changed_def)
    qed
    have ds: "distinct (map fst ds)" using Cons.prems(3) by simp
    have ok: "decision_ok (subj seq) d \<and> es_seq (subj seq) = seq \<and> es_repository (subj seq) = repository \<and>
        es_branch (subj seq) = branch \<and> es_epoch (subj seq) = epoch" if "(seq, d) \<in> set ds" for seq d
      using Cons.prems(2)[of seq d] that by simp
    note ih = Cons.IH[OF go_on(2) ok ds mid ex']
    have IH: "map fst ds2 = map fst ds" "evidence_changed ((\<lambda>seq. (repository, branch, epoch, seq)) ` fst ` set ds) mid out"
      "\<forall>e \<in> set out. e \<in> set mid \<or> (\<exists>seq \<in> fst ` set ds. evidence_key e = (repository, branch, epoch, seq) \<and>
        ev_sha e = to_lower (es_sha (subj seq)))"
      using ih by blast+
    have IH4: "stored_as out (repository, branch, epoch, seq) (es_sha (subj seq)) d"
      if "ds2 = pre @ (seq, d) # post" "\<forall>x \<in> set pre. \<not> is_open (snd x)" "\<not> is_open d" for pre seq d post
      using ih that by blast
    have "evidence_changed ((\<lambda>seq. (repository, branch, epoch, seq)) ` fst ` set (x # ds)) rows out"
      by (rule evidence_changed_trans[OF one(1) IH(2)]) (auto simp: x)
    moreover have "\<forall>e \<in> set out. e \<in> set rows \<or> (\<exists>seq \<in> fst ` set (x # ds). evidence_key e = (repository, branch, epoch, seq) \<and>
        ev_sha e = to_lower (es_sha (subj seq)))"
      using IH(3) one(1,3) x by (fastforce simp: evidence_changed_def)
    moreover have "stored_as out (repository, branch, epoch, seq') (es_sha (subj seq')) d'"
      if "ds' = pre @ (seq', d') # post" "\<forall>x \<in> set pre. \<not> is_open (snd x)" "\<not> is_open d'" for pre seq' d' post
    proof (cases pre)
      case Nil
      with that go_on(3) have eq: "seq' = seq" "d' = d" by auto
      from stored_as_other[OF IH(2) _ one(2)] that(3) new eq show ?thesis by auto
    next
      case (Cons y pre')
      with that go_on(3) show ?thesis by (intro IH4) auto
    qed
    ultimately show ?thesis using IH(1) go_on(3) x by auto
  qed
qed

section \<open>Writing numbers\<close>

lemma numbered_row_space: "in_space repository branch epoch (numbered_row now a r) = in_space repository branch epoch r"
  by (simp add: numbered_row_def in_space_def)

lemma assigned_row_space:
  "in_space repository' branch' epoch' (case assign_row repository branch epoch now as r of None \<Rightarrow> r | Some r' \<Rightarrow> r') =
   in_space repository' branch' epoch' r"
  by (auto simp: assign_row_def numbered_row_space split: option.splits)

text \<open>When as many rows were written as there are assignments, each one found its row.\<close>

lemma assign_all:
  assumes run: "assign_merge_numbers repository branch epoch as db = Some (db', length as)"
    and once: "distinct (map na_seq as)" and ok: "table_ok (merges db)"
  shows "a \<in> set as \<Longrightarrow> \<exists>r \<in> set (space_rows repository branch epoch db). ms_seq r = na_seq a \<and> accepts r a"
    and "space_rows repository branch epoch db' =
      map (\<lambda>r. case find (\<lambda>a. na_seq a = ms_seq r) as of None \<Rightarrow> r | Some a \<Rightarrow> numbered_row (db_now db) a r)
        (space_rows repository branch epoch db)"
    and "(repository', branch', epoch') \<noteq> (repository, branch, epoch) \<Longrightarrow>
      space_rows repository' branch' epoch' db' = space_rows repository' branch' epoch' db"
proof -
  let ?assign = "assign_row repository branch epoch (db_now db) as"
  let ?F = "\<lambda>r. case ?assign r of None \<Rightarrow> r | Some r' \<Rightarrow> r'"
  let ?rows = "space_rows repository branch epoch db"
  let ?hit = "filter (\<lambda>r. find (accepts r) as \<noteq> None) ?rows"
  have seqs: "distinct (map ms_seq ?rows)" by (rule space_keys_distinct(1)[OF ok])
  have db': "merges db' = map ?F (merges db)" "length ?hit = length as"
  proof -
    have "?F = (\<lambda>r. r)" if "as = []" using that by (auto simp: assign_row_def split: option.splits)
    moreover have "filter (\<lambda>r. ?assign r \<noteq> None) (merges db) = ?hit"
      unfolding space_rows_def filter_filter by (rule filter_cong) (auto simp: assign_row_def)
    ultimately show "merges db' = map ?F (merges db)" "length ?hit = length as"
      using run by (auto simp: assign_merge_numbers_def Let_def with_merges_Some_iff split: if_splits)
  qed
  have hit: "\<exists>a \<in> set as. accepts r a \<and> na_seq a = ms_seq r" if "r \<in> set ?hit" for r
    using that by (auto simp: find_Some_iff accepts_def)
  have "distinct (map ms_seq ?hit)" by (rule distinct_map_filter_sub[OF seqs])
  moreover have "ms_seq ` set ?hit \<subseteq> na_seq ` set as" using hit by (metis (no_types, lifting) image_eqI image_subsetI)
  ultimately have all: "ms_seq ` set ?hit = na_seq ` set as"
  proof (intro card_subset_eq)
    assume "distinct (map ms_seq ?hit)"
    from distinct_card[OF this] distinct_card[OF once] db'(2)
    show "card (ms_seq ` set ?hit) = card (na_seq ` set as)" by simp
  qed simp_all
  show here: "\<exists>r \<in> set ?rows. ms_seq r = na_seq a \<and> accepts r a" if a: "a \<in> set as" for a
  proof -
    from a all have "na_seq a \<in> ms_seq ` set ?hit" by blast
    then obtain r where r: "r \<in> set ?hit" "ms_seq r = na_seq a" by (elim imageE) simp
    obtain b where "b \<in> set as" "accepts r b" "na_seq b = ms_seq r" using hit[OF r(1)] by blast
    with r a once have "accepts r a" by (metis distinct_map inj_onD)
    with r show ?thesis by auto
  qed
  have same: "?F r = (case find (\<lambda>a. na_seq a = ms_seq r) as of None \<Rightarrow> r | Some a \<Rightarrow> numbered_row (db_now db) a r)"
    if r: "r \<in> set ?rows" for r
  proof (cases "find (\<lambda>a. na_seq a = ms_seq r) as")
    case None
    then have "find (accepts r) as = None" by (auto simp: find_None_iff accepts_def)
    with None show ?thesis by (simp add: assign_row_def split: option.splits)
  next
    case (Some a)
    then have a: "a \<in> set as" "na_seq a = ms_seq r" by (auto simp: find_Some_iff)
    obtain r2 where "r2 \<in> set ?rows" "ms_seq r2 = na_seq a" "accepts r2 a" using here[OF a(1)] by blast
    with r a(2) seqs have "accepts r a" by (metis distinct_map inj_onD)
    then have "find (accepts r) as = Some a"
      by (intro find_unique a(1)) (use a once in \<open>auto simp: accepts_def distinct_map dest: inj_onD\<close>)
    with Some r show ?thesis by (simp add: assign_row_def space_rows_iff)
  qed
  have "space_rows repository branch epoch db' = map ?F ?rows"
    by (simp add: space_rows_def db'(1) filter_map o_def assigned_row_space)
  then show "space_rows repository branch epoch db' =
      map (\<lambda>r. case find (\<lambda>a. na_seq a = ms_seq r) as of None \<Rightarrow> r | Some a \<Rightarrow> numbered_row (db_now db) a r) ?rows"
    using same by simp
  show "space_rows repository' branch' epoch' db' = space_rows repository' branch' epoch' db"
    if "(repository', branch', epoch') \<noteq> (repository, branch, epoch)"
  proof -
    have "?F r = r" if "in_space repository' branch' epoch' r" for r
      using that \<open>(repository', branch', epoch') \<noteq> (repository, branch, epoch)\<close> by (auto simp: assign_row_def in_space_def split: option.splits)
    then have "map ?F (filter (in_space repository' branch' epoch') (merges db)) = filter (in_space repository' branch' epoch') (merges db)"
      by (intro map_idI) auto
    then show ?thesis by (simp add: space_rows_def db'(1) filter_map o_def assigned_row_space)
  qed
qed

section \<open>What a round has read\<close>

lemma candidates_in_space:
  assumes "c \<in> set (list_candidates_after repository branch epoch after limit db)"
  obtains r where "r \<in> set (space_rows repository branch epoch db)" "ms_seq r = cd_seq c" "ms_sha r = cd_sha c" "after < cd_seq c"
  using assms by (auto simp: list_candidates_after_def candidate_of_def dest!: in_set_takeD)

lemma candidates_distinct:
  assumes "table_ok (merges db)"
  shows "distinct (map cd_seq (list_candidates_after repository branch epoch after limit db))"
proof -
  have "distinct (map ms_seq (ordered_rows repository branch epoch db))"
    using space_keys_distinct(1)[OF assms] by (simp add: ordered_rows_def distinct_map)
  then have "distinct (map ms_seq (take limit (filter (\<lambda>r. after < ms_seq r) (ordered_rows repository branch epoch db))))"
    by (simp add: distinct_map_filter_sub distinct_take flip: take_map)
  then show ?thesis by (simp add: list_candidates_after_def candidate_of_def o_def)
qed

lemma to_plan_row_simps [simp]: "row_seq (to_plan_row r d) = cd_seq r"
  by (auto simp: to_plan_row_def Let_def split: option.split evidence_decision.split)

lemma to_plan_row_decision:
  "decision (to_plan_row r d) = Pr_confirmed \<longleftrightarrow> (\<exists>n merged u. d = Some (Pr_decision n merged u))"
  "decision (to_plan_row r d) \<noteq> Unresolved \<longleftrightarrow> (\<exists>x. d = Some x \<and> \<not> is_open x)"
  "pr_number (to_plan_row r d) = (case d of Some (Pr_decision n merged u) \<Rightarrow> Some n | _ \<Rightarrow> None)"
  by (auto simp: to_plan_row_def Let_def is_open_def split: option.split evidence_decision.split)

lemma passed_decided:
  assumes keys: "map fst ds = map cd_seq (take m cs)" and distinct: "distinct (map cd_seq cs)"
    and open_rows: "\<forall>c \<in> set (take k cs). decision (to_plan_row c (map_of ds (cd_seq c))) \<noteq> Unresolved" and i: "i < k" "k \<le> length cs"
  shows "\<exists>pre d post. ds = pre @ (cd_seq (cs ! i), d) # post \<and> (\<forall>x \<in> set pre. \<not> is_open (snd x)) \<and> \<not> is_open d \<and>
    map_of ds (cd_seq (cs ! i)) = Some d"
proof -
  have dd: "distinct (map fst ds)" unfolding keys using distinct by (simp add: take_map[symmetric])
  have at: "j < length ds \<and> fst (ds ! j) = cd_seq (cs ! j) \<and> map_of ds (cd_seq (cs ! j)) = Some (snd (ds ! j)) \<and> \<not> is_open (snd (ds ! j))"
    if j: "j < k" for j
  proof -
    have "cs ! j \<in> set (take k cs)" using j i(2) by (metis in_set_conv_nth length_take min.absorb2 nth_take)
    with open_rows obtain d where d: "map_of ds (cd_seq (cs ! j)) = Some d" "\<not> is_open d"
      by (auto simp: to_plan_row_decision(2))
    then have "cd_seq (cs ! j) \<in> set (map fst ds)" using map_of_SomeD[OF d(1)] by (force simp: image_iff)
    then obtain l where l: "l < length (take m cs)" "cd_seq (take m cs ! l) = cd_seq (cs ! j)"
      unfolding keys by (auto simp: in_set_conv_nth)
    then have "map cd_seq cs ! l = map cd_seq cs ! j" using j i(2) by simp
    with l(1) j i(2) have lj: "l = j" using nth_eq_iff_index_eq[OF distinct, of l j] by simp
    have len: "length ds = length (take m cs)" using arg_cong[OF keys, of length] by simp
    with l(1) lj have jd: "j < length ds" by simp
    moreover have "fst (ds ! j) = cd_seq (cs ! j)" using arg_cong[OF keys, of "\<lambda>l. l ! j"] jd len by simp
    moreover from this have "map_of ds (cd_seq (cs ! j)) = Some (snd (ds ! j))"
      using dd jd by (metis map_of_is_SomeI nth_mem prod.collapse)
    ultimately show ?thesis using d by simp
  qed
  have "ds = take i ds @ (cd_seq (cs ! i), snd (ds ! i)) # drop (Suc i) ds"
    using at[OF i(1)] id_take_nth_drop[of i ds] by (metis prod.collapse)
  moreover have "\<not> is_open (snd x)" if "x \<in> set (take i ds)" for x
  proof -
    from that obtain j where "j < i" "x = ds ! j" by (auto simp: in_set_conv_nth)
    with at[of j] i(1) show ?thesis by simp
  qed
  ultimately show ?thesis using at[OF i(1)] by blast
qed

section \<open>The order of the numbers\<close>

lemma numbers_in_order:
  assumes "map pa_number as = map (\<lambda>i. n + 1 + int i) [0..<length as]" "sorted_wrt (<) (map pa_seq as)"
    and "a \<in> set as" "b \<in> set as" "pa_seq a < pa_seq b"
  shows "pa_number a < pa_number b"
proof -
  obtain i j where i: "i < length as" "as ! i = a" "j < length as" "as ! j = b" using assms(3,4) by (auto simp: in_set_conv_nth)
  have "i < j"
  proof (rule ccontr)
    assume "\<not> i < j"
    then consider "i = j" | "j < i" by linarith
    then show False
    proof cases
      case 2
      with assms(2) i have "pa_seq b < pa_seq a" by (auto simp: sorted_wrt_iff_nth_less)
      with assms(5) show False by simp
    qed (use i assms(5) in auto)
  qed
  moreover have "pa_number (as ! l) = n + 1 + int l" if "l < length as" for l
    using arg_cong[OF assms(1), of "\<lambda>xs. xs ! l"] that by simp
  ultimately show ?thesis using i by auto
qed

end
