(* ===== verification/Worker_Commits.thy ===== *)
theory Worker_Commits
  imports Worker_Rounds
begin

text \<open>
  A whole round (\<open>reconcile_merge_numbers\<close>) keeps the invariant of the merge numbers, whatever happened between the
  state that it read and its transaction (\<open>world_grows\<close>): \<open>round_numbers_ok\<close> for the round that writes, \<open>reconcile_inv\<close> for
  every end of a round.
\<close>

section \<open>A round keeps the invariant\<close>

text \<open>Between what a round saw and the state of its transaction, rows, evidence and checkpoints have only grown.\<close>

definition world_grows :: "number_world \<Rightarrow> number_world \<Rightarrow> bool" where
  "world_grows v w \<longleftrightarrow>
     rows_kept (nw_db v) (nw_db w) \<and> evidence_grows (nw_evidence v) (nw_evidence w) \<and>
     (\<forall>repository branch sp. find_sequence_space repository branch (nw_db v) = Some sp \<longrightarrow>
        (\<exists>sp'. find_sequence_space repository branch (nw_db w) = Some sp' \<and>
           (sp_epoch sp < sp_epoch sp' \<or>
            sp_epoch sp' = sp_epoch sp \<and>
              (sp_number_seq sp < sp_number_seq sp' \<or> sp_number_seq sp' = sp_number_seq sp \<and> sp_number sp' = sp_number sp))))"

lemma world_grows_refl [simp]: "world_grows w w"
  by (simp add: world_grows_def)

lemma world_grows_trans:
  assumes "world_grows a b" "world_grows b c"
  shows "world_grows a c"
  unfolding world_grows_def
proof (intro conjI allI impI)
  show "rows_kept (nw_db a) (nw_db c)" "evidence_grows (nw_evidence a) (nw_evidence c)"
    using assms rows_kept_trans evidence_grows_trans unfolding world_grows_def by blast+
  fix repository branch sp assume "find_sequence_space repository branch (nw_db a) = Some sp"
  with assms(1) obtain sp1 where sp1: "find_sequence_space repository branch (nw_db b) = Some sp1"
    "sp_epoch sp < sp_epoch sp1 \<or> sp_epoch sp1 = sp_epoch sp \<and>
      (sp_number_seq sp < sp_number_seq sp1 \<or> sp_number_seq sp1 = sp_number_seq sp \<and> sp_number sp1 = sp_number sp)"
    unfolding world_grows_def by blast
  from assms(2) sp1(1) obtain sp2 where sp2: "find_sequence_space repository branch (nw_db c) = Some sp2"
    "sp_epoch sp1 < sp_epoch sp2 \<or> sp_epoch sp2 = sp_epoch sp1 \<and>
      (sp_number_seq sp1 < sp_number_seq sp2 \<or> sp_number_seq sp2 = sp_number_seq sp1 \<and> sp_number sp2 = sp_number sp1)"
    unfolding world_grows_def by blast
  from sp2(1) have "find_sequence_space repository branch (nw_db c) = Some sp2 \<and> (sp_epoch sp < sp_epoch sp2 \<or> sp_epoch sp2 = sp_epoch sp \<and>
      (sp_number_seq sp < sp_number_seq sp2 \<or> sp_number_seq sp2 = sp_number_seq sp \<and> sp_number sp2 = sp_number sp))"
    using sp1(2) sp2(2) by auto
  then show "\<exists>sp'. find_sequence_space repository branch (nw_db c) = Some sp' \<and> (sp_epoch sp < sp_epoch sp' \<or> sp_epoch sp' = sp_epoch sp \<and>
      (sp_number_seq sp < sp_number_seq sp' \<or> sp_number_seq sp' = sp_number_seq sp \<and> sp_number sp' = sp_number sp))" by blast
qed

lemma world_invD:
  assumes "world_inv history w"
  shows "seq_inv history (nw_db w)" "table_ok (merges (nw_db w))" "distinct (map evidence_key (nw_evidence w))"
    "e \<in> set (nw_evidence w) \<Longrightarrow> \<exists>r \<in> set (merges (nw_db w)). pk_of r = evidence_key e \<and> ev_sha e = to_lower (ms_sha r)"
    "find_sequence_space repository branch (nw_db w) = Some sp \<Longrightarrow> numbers_ok (nw_evidence w) (nw_db w) sp"
  using assms seq_invD(1) unfolding world_inv_def evidence_ok_def by blast+

text \<open>What a round has read.\<close>

definition round_of :: "evidence_deps \<Rightarrow> bool \<Rightarrow> nat \<Rightarrow> int \<Rightarrow> jstr \<Rightarrow> number_world \<Rightarrow> round \<Rightarrow> bool" where
  "round_of deps force batch repository branch seen rd \<longleftrightarrow>
     (\<exists>sp a. find_sequence_space repository branch (nw_db seen) = Some sp \<and>
        rd_epoch rd = sp_epoch sp \<and> rd_head_seq rd = sp_number_seq sp \<and> rd_head_number rd = sp_number sp \<and>
        rd_rows rd = list_candidates_after repository branch (rd_epoch rd) (rd_head_seq rd) batch (nw_db seen) \<and>
        rd_existing rd = list_evidence repository branch (rd_epoch rd) (map cd_seq (rd_rows rd)) (nw_evidence seen) \<and>
        decide_rows deps force repository branch (rd_epoch rd) (rd_existing rd) a (rd_rows rd) =
          Some (rd_decisions rd, rd_attested rd, rd_grace rd))"

lemma start_round_of: "start_round deps batch force repository branch seen = Start_round rd \<Longrightarrow> round_of deps force batch repository branch seen rd"
  by (auto simp: start_round_def round_of_def Let_def split: option.splits if_splits)

lemma round_rows:
  assumes seen: "world_inv history seen" and grows: "world_grows seen w" and rd: "round_of deps force batch repository branch seen rd"
  shows "c \<in> set (rd_rows rd) \<Longrightarrow> \<exists>r \<in> set (space_rows repository branch (rd_epoch rd) (nw_db w)).
      ms_seq r = cd_seq c \<and> ms_sha r = cd_sha c"
    and "c \<in> set (rd_rows rd) \<Longrightarrow> rd_head_seq rd < cd_seq c"
    and "distinct (map cd_seq (rd_rows rd))"
proof -
  from rd have rows: "rd_rows rd = list_candidates_after repository branch (rd_epoch rd) (rd_head_seq rd) batch (nw_db seen)"
    by (auto simp: round_of_def)
  show "distinct (map cd_seq (rd_rows rd))" unfolding rows by (rule candidates_distinct[OF world_invD(2)[OF seen]])
  assume "c \<in> set (rd_rows rd)"
  then obtain r where r: "r \<in> set (space_rows repository branch (rd_epoch rd) (nw_db seen))" "ms_seq r = cd_seq c" "ms_sha r = cd_sha c"
    "rd_head_seq rd < cd_seq c"
    unfolding rows by (rule candidates_in_space)
  from grows r(1) obtain r' where "r' \<in> set (merges (nw_db w))" "kept_row r r'"
    unfolding world_grows_def rows_kept_def by (auto simp: space_rows_iff)
  with r show "\<exists>r \<in> set (space_rows repository branch (rd_epoch rd) (nw_db w)). ms_seq r = cd_seq c \<and> ms_sha r = cd_sha c"
    by (intro bexI[of _ r']) (auto simp: space_rows_iff kept_row_def pk_of_def in_space_def)
  show "rd_head_seq rd < cd_seq c" by (rule r(4))
qed

lemma find_evidence_in:
  assumes "distinct (map evidence_key rows)" "y \<in> set rows" "evidence_key y = (repository, branch, epoch, seq)"
  shows "find_evidence repository branch epoch seq rows = Some y"
  unfolding find_evidence_def
  by (rule find_unique) (use assms in \<open>simp_all, metis distinct_map inj_onD\<close>)

text \<open>The evidence after a round that found nothing moved.\<close>

lemma round_evidence:
  assumes seen: "world_inv history seen" and w: "world_inv history w" and grows: "world_grows seen w"
    and rd: "round_of deps force batch repository branch seen rd"
    and still: "\<not> evidence_moved repository branch rd (nw_evidence w)"
    and store: "store_evidence (nw_db w) (rd_existing rd) (rd_decisions rd) (nw_evidence w) = Some (ds, evidence)"
  shows "\<exists>m. map fst ds = map cd_seq (take m (rd_rows rd))"
    and "evidence_changed ((\<lambda>c. (repository, branch, rd_epoch rd, cd_seq c)) ` set (rd_rows rd)) (nw_evidence w) evidence"
    and "evidence_ok (nw_db w) evidence"
    and "c \<in> set (rd_rows rd) \<Longrightarrow> ds = pre @ (cd_seq c, d) # post \<Longrightarrow> (\<And>x. x \<in> set pre \<Longrightarrow> \<not> is_open (snd x)) \<Longrightarrow> \<not> is_open d \<Longrightarrow>
      stored_as evidence (repository, branch, rd_epoch rd, cd_seq c) (cd_sha c) d"
proof -
  let ?e = "rd_epoch rd" and ?cs = "rd_rows rd"
  let ?cand = "\<lambda>seq. the (find (\<lambda>c. cd_seq c = seq) ?cs)"
  let ?subj = "\<lambda>seq. subject_of repository branch ?e (rd_existing rd seq) (?cand seq)"
  note rows = round_rows[OF seen grows rd]
  have cand: "?cand (cd_seq c) = c" if "c \<in> set ?cs" for c
  proof -
    have "find (\<lambda>x. cd_seq x = cd_seq c) ?cs = Some c"
      by (rule find_unique) (use that rows(3) in \<open>auto simp: distinct_map dest: inj_onD\<close>)
    then show ?thesis by simp
  qed
  from rd obtain a where decided: "decide_rows deps force repository branch ?e (rd_existing rd) a ?cs =
      Some (rd_decisions rd, rd_attested rd, rd_grace rd)" by (auto simp: round_of_def)
  from decide_rows_ok[OF decided] obtain rs1 rs2 where rs: "?cs = rs1 @ rs2"
    "list_all2 (\<lambda>r x. fst x = cd_seq r \<and> decision_ok (subject_of repository branch ?e (rd_existing rd (cd_seq r)) r) (snd x))
      rs1 (rd_decisions rd)" by blast
  have fst_ds: "map fst (rd_decisions rd) = map cd_seq rs1" using rs(2) by (induction rule: list_all2_induct) auto
  have from_row: "\<exists>c \<in> set rs1. cd_seq c = seq \<and> decision_ok (subject_of repository branch ?e (rd_existing rd seq) c) d"
    if "(seq, d) \<in> set (rd_decisions rd)" for seq d
    using rs(2) that by (induction rule: list_all2_induct) auto
  have ok: "decision_ok (?subj seq) d \<and> es_seq (?subj seq) = seq \<and> es_repository (?subj seq) = repository \<and>
      es_branch (?subj seq) = branch \<and> es_epoch (?subj seq) = ?e" if "(seq, d) \<in> set (rd_decisions rd)" for seq d
  proof -
    from from_row[OF that] obtain c where c: "c \<in> set rs1" "cd_seq c = seq"
      "decision_ok (subject_of repository branch ?e (rd_existing rd seq) c) d" by blast
    with cand[of c] rs(1) have "?cand seq = c" by auto
    with c show ?thesis by (simp add: subject_of_def)
  qed
  have once: "distinct (map fst (rd_decisions rd))" using rows(3) unfolding fst_ds rs(1) by simp
  have ex: "x \<in> set (nw_evidence w) \<and> evidence_key x = (repository, branch, ?e, seq) \<and> ev_sha x = to_lower (es_sha (?subj seq))"
    if "seq \<in> fst ` set (rd_decisions rd)" "es_existing (?subj seq) = Some x" for seq x
  proof -
    have "seq \<in> set (map cd_seq rs1)" using that(1) unfolding fst_ds[symmetric] by simp
    then obtain c where c: "c \<in> set ?cs" "cd_seq c = seq" using rs(1) by auto
    from that(2) have "rd_existing rd seq = Some x" by (simp add: subject_of_def)
    with rd c have x: "find_evidence repository branch ?e seq (nw_evidence seen) = Some x"
      by (auto simp: round_of_def list_evidence_def)
    then have xs: "x \<in> set (nw_evidence seen)" "evidence_key x = (repository, branch, ?e, seq)"
      by (auto simp: find_evidence_def find_Some_iff)
    from grows xs(1) obtain y where y: "y \<in> set (nw_evidence w)" "evidence_key y = evidence_key x" "y = x \<or> ev_version x < ev_version y"
      unfolding world_grows_def evidence_grows_def by blast
    have "find_evidence repository branch ?e seq (nw_evidence w) = Some y"
      by (rule find_evidence_in[OF world_invD(3)[OF w] y(1)]) (use y(2) xs(2) in simp)
    moreover have "(case rd_existing rd seq of None \<Rightarrow> 0 | Some e \<Rightarrow> ev_version e) =
        (case lock_evidence repository branch ?e (map fst (rd_decisions rd)) (nw_evidence w) seq of None \<Rightarrow> 0 | Some e \<Rightarrow> ev_version e)"
      using still that(1) by (auto simp: evidence_moved_def Let_def list_ex_iff)
    ultimately have "ev_version x = ev_version y"
      using \<open>rd_existing rd seq = Some x\<close> that(1) by (simp add: lock_evidence_def)
    with y have xw: "x \<in> set (nw_evidence w)" by auto
    from world_invD(4)[OF w xw] obtain r where r: "r \<in> set (merges (nw_db w))" "pk_of r = evidence_key x" "ev_sha x = to_lower (ms_sha r)" by blast
    from rows(1)[OF c(1)] obtain r2 where r2: "r2 \<in> set (merges (nw_db w))" "pk_of r2 = (repository, branch, ?e, seq)" "ms_sha r2 = cd_sha c"
      using c(2) by (auto simp: space_rows_iff pk_of_in_space)
    have "r = r2"
      using table_okD(1)[OF world_invD(2)[OF w]] r(1,2) r2(1,2) xs(2) by (metis distinct_map inj_onD)
    with r(3) r2(3) cand[OF c(1)] c(2) xw xs(2) show ?thesis by (simp add: subject_of_def)
  qed
  note stored = store_evidence_rows[where subj = ?subj, OF store ok once world_invD(3)[OF w] ex]
  have sub: "(\<lambda>seq. (repository, branch, ?e, seq)) ` fst ` set (rd_decisions rd) \<subseteq> (\<lambda>c. (repository, branch, ?e, cd_seq c)) ` set ?cs"
    using arg_cong[OF fst_ds, of set] rs(1) by auto
  show "\<exists>m. map fst ds = map cd_seq (take m ?cs)"
    using stored fst_ds rs(1) by (intro exI[of _ "length rs1"]) simp
  have changed: "evidence_changed ((\<lambda>seq. (repository, branch, ?e, seq)) ` fst ` set (rd_decisions rd)) (nw_evidence w) evidence"
    using stored by blast
  show "evidence_changed ((\<lambda>c. (repository, branch, ?e, cd_seq c)) ` set ?cs) (nw_evidence w) evidence"
    by (rule evidence_changed_trans[OF evidence_changed_refl[OF world_invD(3)[OF w]] changed _ sub, of "{}"]) simp
  show "evidence_ok (nw_db w) evidence" unfolding evidence_ok_def
  proof (intro conjI ballI)
    show "distinct (map evidence_key evidence)" using changed by (simp add: evidence_changed_def)
    fix e assume e: "e \<in> set evidence"
    then consider "e \<in> set (nw_evidence w)" | seq where "seq \<in> fst ` set (rd_decisions rd)" "evidence_key e = (repository, branch, ?e, seq)"
      "ev_sha e = to_lower (es_sha (?subj seq))"
      using stored by blast
    then show "\<exists>r \<in> set (merges (nw_db w)). pk_of r = evidence_key e \<and> ev_sha e = to_lower (ms_sha r)"
    proof cases
      case 2
      have "seq \<in> set (map cd_seq rs1)" using 2(1) unfolding fst_ds[symmetric] by simp
      then obtain c where c: "c \<in> set ?cs" "cd_seq c = seq" using rs(1) by auto
      from rows(1)[OF c(1)] obtain r where "r \<in> set (space_rows repository branch ?e (nw_db w))" "ms_seq r = seq" "ms_sha r = cd_sha c"
        using c(2) by auto
      with 2(2,3) cand[OF c(1)] c(2) show ?thesis
        by (intro bexI[of _ r]) (auto simp: space_rows_iff pk_of_in_space subject_of_def)
    qed (rule world_invD(4)[OF w])
  qed
  show "stored_as evidence (repository, branch, ?e, cd_seq c) (cd_sha c) d"
    if c: "c \<in> set ?cs" and split: "ds = pre @ (cd_seq c, d) # post" "\<And>x. x \<in> set pre \<Longrightarrow> \<not> is_open (snd x)" "\<not> is_open d"
  proof -
    have "stored_as evidence (repository, branch, ?e, cd_seq c) (es_sha (?subj (cd_seq c))) d"
      using stored split by blast
    then show ?thesis by (simp add: subject_of_def cand[OF c])
  qed
qed

lemma checkpoint_space:
  assumes "advance_merge_number_checkpoint repository branch epoch ck db = Some (db', applied)"
  shows "merges db' = merges db"
    and "find_sequence_space repository branch db' =
      map_option (\<lambda>sp. if sp_epoch sp = epoch then checkpointed (db_now db) ck sp else sp) (find_sequence_space repository branch db)"
    and "(repository', branch') \<noteq> (repository, branch) \<Longrightarrow>
      find_sequence_space repository' branch' db' = find_sequence_space repository' branch' db"
proof -
  from assms have up: "update_space repository branch (\<lambda>sp. if sp_epoch sp = epoch then checkpointed (db_now db) ck sp else sp) db = Some db'"
    by (auto simp: advance_merge_number_checkpoint_def)
  note same = update_space_same[OF up]
  show "merges db' = merges db" by (rule same(2)) (simp add: checkpointed_def space_key_def)
  show "find_sequence_space repository branch db' =
      map_option (\<lambda>sp. if sp_epoch sp = epoch then checkpointed (db_now db) ck sp else sp) (find_sequence_space repository branch db)"
    by (rule same(4)) (simp add: checkpointed_def space_key_def)
  have "same_elsewhere repository branch db db'" by (rule same(1)) (simp add: checkpointed_def space_key_def)
  then show "(repository', branch') \<noteq> (repository, branch) \<Longrightarrow>
      find_sequence_space repository' branch' db' = find_sequence_space repository' branch' db"
    by (simp add: same_elsewhere_def)
qed

lemma checkpointed_simps [simp]:
  "sp_repository (checkpointed now ck sp) = sp_repository sp" "sp_branch (checkpointed now ck sp) = sp_branch sp"
  "sp_epoch (checkpointed now ck sp) = sp_epoch sp" "sp_head_seq (checkpointed now ck sp) = sp_head_seq sp"
  "sp_number_seq (checkpointed now ck sp) = ck_head_seq ck" "sp_number (checkpointed now ck sp) = ck_head_number ck"
  by (simp_all add: checkpointed_def)

text \<open>The plan of a round passes the next positions, each with stored evidence.\<close>

lemma round_plan:
  assumes plan: "plan_round late repository branch rd ds evidence db = Inr plan"
    and keys: "map fst ds = map cd_seq (take m (rd_rows rd))" and once: "distinct (map cd_seq (rd_rows rd))"
    and stored: "\<forall>c pre d post. c \<in> set (rd_rows rd) \<longrightarrow> ds = pre @ (cd_seq c, d) # post \<longrightarrow>
      (\<forall>x \<in> set pre. \<not> is_open (snd x)) \<longrightarrow> \<not> is_open d \<longrightarrow>
      stored_as evidence (repository, branch, rd_epoch rd, cd_seq c) (cd_sha c) d"
  shows "rd_head_seq rd \<le> next_head_seq plan"
    and "rd_head_seq rd < n \<Longrightarrow> n \<le> next_head_seq plan \<Longrightarrow>
      \<exists>c \<in> set (rd_rows rd). \<exists>d. cd_seq c = n \<and> stored_as evidence (repository, branch, rd_epoch rd, n) (cd_sha c) d \<and>
        (case d of
           Pr_decision pr merged u \<Rightarrow> \<exists>a \<in> set (assignments plan). pa_seq a = n \<and> pa_pr a = pr
         | Direct_decision u \<Rightarrow> n \<notin> pa_seq ` set (assignments plan)
         | Unresolved_decision reason u \<Rightarrow> False)"
    and "map pa_number (assignments plan) = map (\<lambda>i. rd_head_number rd + 1 + int i) [0..<length (assignments plan)]"
    and "sorted_wrt (<) (map pa_seq (assignments plan))"
    and "a \<in> set (assignments plan) \<Longrightarrow> rd_head_seq rd < pa_seq a \<and> pa_seq a \<le> next_head_seq plan"
    and "next_head_number plan = rd_head_number rd + int (length (assignments plan))"
proof -
  let ?cs = "rd_rows rd"
  let ?row = "\<lambda>c. to_plan_row c (map_of ds (cd_seq c))"
  from plan obtain already previous where
    "plan_merge_numbers (rd_head_seq rd) (rd_head_number rd) previous already late (map ?row ?cs) = Inr plan"
    by (auto simp: plan_round_def Let_def)
  then obtain st where st: "plan_inv (rd_head_seq rd) (rd_head_number rd) already st" "assignments plan = assigned st"
    "next_head_seq plan = head_seq st" "next_head_number plan = head_number st"
    and loop: "plan_loop already late (start_plan (rd_head_seq rd) (rd_head_number rd) previous) (map ?row ?cs) = Inr plan"
    by (rule plan_merge_numbers_inv)
  from st show "map pa_number (assignments plan) = map (\<lambda>i. rd_head_number rd + 1 + int i) [0..<length (assignments plan)]"
    "sorted_wrt (<) (map pa_seq (assignments plan))" "rd_head_seq rd \<le> next_head_seq plan"
    "next_head_number plan = rd_head_number rd + int (length (assignments plan))"
    by (simp_all add: plan_inv_def)
  from st show "a \<in> set (assignments plan) \<Longrightarrow> rd_head_seq rd < pa_seq a \<and> pa_seq a \<le> next_head_seq plan"
    by (auto simp: plan_inv_def list_all_iff)
  from plan_loop_passed[OF loop] obtain passed rest where p: "map ?row ?cs = passed @ rest"
    "map row_seq passed = map (\<lambda>i. rd_head_seq rd + 1 + int i) [0..<length passed]"
    "next_head_seq plan = rd_head_seq rd + int (length passed)" "\<forall>row \<in> set passed. decision row \<noteq> Unresolved"
    "map (\<lambda>a. (pa_seq a, Some (pa_pr a))) (assignments plan) =
       map (\<lambda>row. (row_seq row, pr_number row)) (filter (\<lambda>row. decision row = Pr_confirmed) passed)"
    by (auto simp: start_plan_def)
  define k where "k = length passed"
  have k: "k \<le> length ?cs" using arg_cong[OF p(1), of length] by (simp add: k_def)
  have passed: "passed = map ?row (take k ?cs)" using arg_cong[OF p(1), of "take k"] by (simp add: k_def take_map)
  have seq_at: "cd_seq (?cs ! i) = rd_head_seq rd + 1 + int i" if "i < k" for i
    using arg_cong[OF p(2), of "\<lambda>l. l ! i"] that k by (simp add: passed)
  have assigned: "(pa_seq a, Some (pa_pr a)) \<in> (\<lambda>row. (row_seq row, pr_number row)) ` {row \<in> set passed. decision row = Pr_confirmed}"
    if "a \<in> set (assignments plan)" for a
    using arg_cong[OF p(5), of set] that by auto
  show "\<exists>c \<in> set ?cs. \<exists>d. cd_seq c = n \<and> stored_as evidence (repository, branch, rd_epoch rd, n) (cd_sha c) d \<and>
      (case d of
         Pr_decision pr merged u \<Rightarrow> \<exists>a \<in> set (assignments plan). pa_seq a = n \<and> pa_pr a = pr
       | Direct_decision u \<Rightarrow> n \<notin> pa_seq ` set (assignments plan)
       | Unresolved_decision reason u \<Rightarrow> False)"
    if n: "rd_head_seq rd < n" "n \<le> next_head_seq plan"
  proof -
    define i where "i = nat (n - rd_head_seq rd - 1)"
    have i: "i < k" "cd_seq (?cs ! i) = n" using n p(3) seq_at[of i] by (auto simp: i_def k_def)
    let ?c = "?cs ! i"
    have c: "?c \<in> set (take k ?cs)" using i(1) k by (metis in_set_conv_nth length_take min.absorb2 nth_take)
    have "\<forall>c \<in> set (take k ?cs). decision (?row c) \<noteq> Unresolved" using p(4) by (auto simp: passed)
    from passed_decided[OF keys once this i(1) k] obtain pre d post where d: "ds = pre @ (n, d) # post"
      "\<And>x. x \<in> set pre \<Longrightarrow> \<not> is_open (snd x)" "\<not> is_open d" "map_of ds n = Some d" unfolding i(2) by blast
    have cin: "?c \<in> set ?cs" using c by (rule in_set_takeD)
    have s: "stored_as evidence (repository, branch, rd_epoch rd, n) (cd_sha ?c) d"
      using stored cin d(1-3) unfolding i(2)[symmetric] by blast
    have row: "?row ?c \<in> set passed" unfolding passed set_map by (rule imageI[OF c])
    have row2: "?row ?c = to_plan_row ?c (Some d)" using d(4) i(2) by simp
    have "case d of
        Pr_decision pr merged u \<Rightarrow> \<exists>a \<in> set (assignments plan). pa_seq a = n \<and> pa_pr a = pr
      | Direct_decision u \<Rightarrow> n \<notin> pa_seq ` set (assignments plan)
      | Unresolved_decision reason u \<Rightarrow> False"
    proof (cases d)
      case (Pr_decision pr merged u)
      then have "decision (?row ?c) = Pr_confirmed" "pr_number (?row ?c) = Some pr" "row_seq (?row ?c) = n"
        using row2 i(2) by (simp_all add: to_plan_row_decision)
      with row have "(n, Some pr) \<in> set (map (\<lambda>row. (row_seq row, pr_number row)) (filter (\<lambda>row. decision row = Pr_confirmed) passed))"
        by force
      then have "(n, Some pr) \<in> set (map (\<lambda>a. (pa_seq a, Some (pa_pr a))) (assignments plan))" unfolding p(5) .
      with Pr_decision show ?thesis by auto
    next
      case (Direct_decision u)
      have "n \<noteq> pa_seq a" if a: "a \<in> set (assignments plan)" for a
      proof
        assume "n = pa_seq a"
        with assigned[OF a] obtain row' where r: "row' \<in> set passed" "decision row' = Pr_confirmed" "row_seq row' = n" by auto
        then obtain c' where c': "c' \<in> set ?cs" "row' = ?row c'" by (auto simp: passed dest: in_set_takeD)
        with r(3) cin i(2) once have "c' = ?c" by (simp add: distinct_map inj_on_def)
        with c'(2) r(2) row2 Direct_decision show False by (simp add: to_plan_row_decision)
      qed
      with Direct_decision show ?thesis by auto
    next
      case (Unresolved_decision reason u)
      with d(3) show ?thesis by (simp add: is_open_def)
    qed
    with s cin i(2) show ?thesis by blast
  qed
qed

section \<open>The numbers after a round\<close>

lemma covered_other:
  "evidence_changed keys rows out \<Longrightarrow> pk_of r \<notin> keys \<Longrightarrow> covered rows r \<Longrightarrow> covered out r"
  unfolding covered_def evidence_changed_def by metis

lemma numbers_ok_other:
  assumes "numbers_ok evidence db sp" "evidence_changed keys evidence evidence'"
    and rows: "space_rows (sp_repository sp) (sp_branch sp) (sp_epoch sp) db' = space_rows (sp_repository sp) (sp_branch sp) (sp_epoch sp) db"
    and keys: "\<And>n. (sp_repository sp, sp_branch sp, sp_epoch sp, n) \<notin> keys"
  shows "numbers_ok evidence' db' sp"
proof -
  have "covered evidence' r" if "r \<in> set (space_rows (sp_repository sp) (sp_branch sp) (sp_epoch sp) db)" "covered evidence r" for r
    using covered_other[OF assms(2) _ that(2)] keys that(1) by (auto simp: space_rows_iff pk_of_in_space)
  with assms(1) show ?thesis unfolding numbers_ok_def rows Let_def by blast
qed

lemma numbers_okD:
  assumes "numbers_ok evidence db sp" "sp_repository sp = repository" "sp_branch sp = branch" "sp_epoch sp = epoch"
  defines "rows \<equiv> set (space_rows repository branch epoch db)"
  shows "{n. \<exists>r \<in> rows. ms_number r = Some n} = {1..sp_number sp}"
    and "r \<in> rows \<Longrightarrow> r' \<in> rows \<Longrightarrow> ms_number r = Some n \<Longrightarrow> ms_number r' = Some n' \<Longrightarrow> ms_seq r < ms_seq r' \<Longrightarrow> n < n'"
    and "r \<in> rows \<Longrightarrow> is_numbered r \<Longrightarrow> ms_seq r \<le> sp_number_seq sp"
    and "r \<in> rows \<Longrightarrow> ms_seq r \<le> sp_number_seq sp \<Longrightarrow> covered evidence r"
    and "0 \<le> sp_number sp" and "0 \<le> sp_number_seq sp" and "sp_number_seq sp \<le> sp_head_seq sp"
  using assms(1) unfolding numbers_ok_def Let_def assms(2-4) rows_def by blast+

lemma find_map: "find P (map f xs) = map_option f (find (\<lambda>x. P (f x)) xs)"
  by (induction xs) auto

text \<open>A plan that fits the rows of a space, and the rows with its numbers: those up to the old checkpoint keep theirs.\<close>

definition plan_fits :: "merge_row list \<Rightarrow> int \<Rightarrow> int \<Rightarrow> plan_assignment list \<Rightarrow> bool" where
  "plan_fits rows old old_number planned \<longleftrightarrow>
     (\<forall>r \<in> set rows. is_numbered r \<longrightarrow> ms_seq r \<le> old) \<and>
     {n. \<exists>r \<in> set rows. ms_number r = Some n} = {1..old_number} \<and>
     (\<forall>r \<in> set rows. \<forall>r' \<in> set rows. \<forall>n n'. ms_number r = Some n \<longrightarrow> ms_number r' = Some n' \<longrightarrow> ms_seq r < ms_seq r' \<longrightarrow> n < n') \<and>
     map pa_number planned = map (\<lambda>i. old_number + 1 + int i) [0..<length planned] \<and>
     sorted_wrt (<) (map pa_seq planned) \<and>
     (\<forall>a \<in> set planned. old < pa_seq a \<and> (\<exists>r \<in> set rows. ms_seq r = pa_seq a)) \<and>
     0 \<le> old_number"

definition with_plan :: "int \<Rightarrow> plan_assignment list \<Rightarrow> merge_row \<Rightarrow> merge_row" where
  "with_plan now planned r =
     (case find (\<lambda>a. na_seq a = ms_seq r) (map to_assignment planned) of None \<Rightarrow> r | Some a \<Rightarrow> numbered_row now a r)"

lemma with_plan_find:
  "with_plan now planned r =
     (case find (\<lambda>a. pa_seq a = ms_seq r) planned of None \<Rightarrow> r | Some a \<Rightarrow> numbered_row now (to_assignment a) r)"
  by (simp add: with_plan_def find_map to_assignment_def split: option.split)

lemma planned_unique:
  "sorted_wrt (<) (map pa_seq planned) \<Longrightarrow> a \<in> set planned \<Longrightarrow> b \<in> set planned \<Longrightarrow> pa_seq a = pa_seq b \<Longrightarrow> a = b"
  by (metis distinct_map inj_onD strict_sorted_iff)

lemma with_plan_new:
  assumes "a \<in> set planned" "pa_seq a = ms_seq r" "sorted_wrt (<) (map pa_seq planned)"
  shows "ms_number (with_plan now planned r) = Some (pa_number a)" "ms_pr (with_plan now planned r) = Some (pa_pr a)"
proof -
  have "b = a" if "b \<in> set planned" "pa_seq b = ms_seq r" for b using planned_unique[OF assms(3) that(1) assms(1)] that(2) assms(2) by simp
  then have "find (\<lambda>a. pa_seq a = ms_seq r) planned = Some a" using assms(1,2) by (intro find_unique)
  then show "ms_number (with_plan now planned r) = Some (pa_number a)" "ms_pr (with_plan now planned r) = Some (pa_pr a)"
    by (simp_all add: with_plan_find numbered_row_def to_assignment_def)
qed

lemma with_plan_same:
  assumes "ms_seq r \<notin> pa_seq ` set planned"
  shows "with_plan now planned r = r"
proof -
  have "find (\<lambda>a. pa_seq a = ms_seq r) planned = None" using assms by (force simp: find_None_iff)
  then show ?thesis by (simp add: with_plan_find)
qed

lemma with_plan_keeps [simp]:
  "ms_seq (with_plan now planned r) = ms_seq r" "ms_sha (with_plan now planned r) = ms_sha r" "pk_of (with_plan now planned r) = pk_of r"
  by (simp_all add: with_plan_def numbered_row_def pk_of_def split: option.split)

lemma plan_fitsD:
  assumes "plan_fits rows old old_number planned"
  shows "r \<in> set rows \<Longrightarrow> is_numbered r \<Longrightarrow> ms_seq r \<le> old"
    and "{n. \<exists>r \<in> set rows. ms_number r = Some n} = {1..old_number}"
    and "r \<in> set rows \<Longrightarrow> r' \<in> set rows \<Longrightarrow> ms_number r = Some n \<Longrightarrow> ms_number r' = Some n' \<Longrightarrow> ms_seq r < ms_seq r' \<Longrightarrow> n < n'"
    and "map pa_number planned = map (\<lambda>i. old_number + 1 + int i) [0..<length planned]"
    and "sorted_wrt (<) (map pa_seq planned)"
    and "a \<in> set planned \<Longrightarrow> old < pa_seq a \<and> (\<exists>r \<in> set rows. ms_seq r = pa_seq a)"
    and "0 \<le> old_number"
proof -
  note all = assms[unfolded plan_fits_def]
  note c = conjunct1[OF all] conjunct1[OF conjunct2[OF all]] conjunct1[OF conjunct2[OF conjunct2[OF all]]]
    conjunct2[OF conjunct2[OF conjunct2[OF all]]]
  show "r \<in> set rows \<Longrightarrow> is_numbered r \<Longrightarrow> ms_seq r \<le> old" using c(1) by fast
  show "{n. \<exists>r \<in> set rows. ms_number r = Some n} = {1..old_number}" by (rule c(2))
  show "n < n'" if "r \<in> set rows" "r' \<in> set rows" "ms_number r = Some n" "ms_number r' = Some n'" "ms_seq r < ms_seq r'"
    by (rule c(3)[rule_format, OF that])
  from c(4) show "map pa_number planned = map (\<lambda>i. old_number + 1 + int i) [0..<length planned]"
    "sorted_wrt (<) (map pa_seq planned)" "0 \<le> old_number"
    "a \<in> set planned \<Longrightarrow> old < pa_seq a \<and> (\<exists>r \<in> set rows. ms_seq r = pa_seq a)" by (elim conjE, assumption | fast)+
qed

lemma with_plan_old:
  assumes "plan_fits rows old old_number planned" "ms_seq r \<le> old"
  shows "with_plan now planned r = r"
  using plan_fitsD(6)[OF assms(1)] assms(2) by (intro with_plan_same) force

lemma number_iff:
  assumes fits: "plan_fits rows old old_number planned" and r: "r \<in> set rows"
  shows "ms_number (with_plan now planned r) = Some n \<longleftrightarrow>
    ms_seq r \<le> old \<and> ms_number r = Some n \<or> (\<exists>a \<in> set planned. pa_seq a = ms_seq r \<and> pa_number a = n)"
proof (cases "ms_seq r \<in> pa_seq ` set planned")
  case True
  then obtain a where a: "a \<in> set planned" "pa_seq a = ms_seq r" by auto
  note order = plan_fitsD(5)[OF fits]
  have "b = a" if "b \<in> set planned" "pa_seq b = ms_seq r" for b
    using planned_unique[OF order that(1) a(1)] that(2) a(2) by simp
  with a have "(\<exists>b \<in> set planned. pa_seq b = ms_seq r \<and> pa_number b = n) \<longleftrightarrow> pa_number a = n" by blast
  moreover have "\<not> ms_seq r \<le> old" using plan_fitsD(6)[OF fits a(1)] a(2) by simp
  ultimately show ?thesis using with_plan_new(1)[OF a order, of now] by simp
next
  case False
  then have "\<not> (\<exists>a \<in> set planned. pa_seq a = ms_seq r \<and> pa_number a = n)" by force
  moreover have "ms_seq r \<le> old" if "ms_number r = Some n" using plan_fitsD(1)[OF fits r] that by (simp add: is_numbered_def)
  ultimately show ?thesis unfolding with_plan_same[OF False] by blast
qed

lemma numbers_after:
  assumes fits: "plan_fits rows old old_number planned"
  shows "{n. \<exists>r \<in> with_plan now planned ` set rows. ms_number r = Some n} = {1..old_number + int (length planned)}"
proof -
  note old_rows = plan_fitsD(1)[OF fits] and old_numbers = plan_fitsD(2)[OF fits] and new_numbers = plan_fitsD(4)[OF fits]
    and new_rows = plan_fitsD(6)[OF fits] and nonneg = plan_fitsD(7)[OF fits] and number_iff = number_iff[OF fits]
  have "pa_number ` set planned = {old_number + 1..old_number + int (length planned)}"
  proof -
    have "pa_number ` set planned = (\<lambda>i. old_number + 1 + int i) ` {..<length planned}"
      using arg_cong[OF new_numbers, of set] by (simp add: lessThan_atLeast0)
    also have "\<dots> = {old_number + 1..old_number + int (length planned)}"
    proof (intro set_eqI iffI)
      fix x assume "x \<in> {old_number + 1..old_number + int (length planned)}"
      then show "x \<in> (\<lambda>i. old_number + 1 + int i) ` {..<length planned}"
        by (intro image_eqI[of _ _ "nat (x - old_number - 1)"]) auto
    qed auto
    finally show ?thesis .
  qed
  moreover have "{n. \<exists>r \<in> with_plan now planned ` set rows. ms_number r = Some n} = {n. \<exists>r \<in> set rows. ms_number r = Some n} \<union> pa_number ` set planned"
  proof (intro set_eqI iffI)
    fix n assume "n \<in> {n. \<exists>r \<in> with_plan now planned ` set rows. ms_number r = Some n}"
    then obtain r where r: "r \<in> set rows" "ms_number (with_plan now planned r) = Some n" by auto
    then have "ms_number r = Some n \<or> n \<in> pa_number ` set planned" unfolding number_iff[OF r(1)] by auto
    with r(1) show "n \<in> {n. \<exists>r \<in> set rows. ms_number r = Some n} \<union> pa_number ` set planned" by auto
  next
    fix n assume "n \<in> {n. \<exists>r \<in> set rows. ms_number r = Some n} \<union> pa_number ` set planned"
    then consider r where "r \<in> set rows" "ms_number r = Some n" | a where "a \<in> set planned" "pa_number a = n" by auto
    then show "n \<in> {n. \<exists>r \<in> with_plan now planned ` set rows. ms_number r = Some n}"
    proof cases
      case 1
      then have "ms_number (with_plan now planned r) = Some n" using old_rows number_iff by (simp add: is_numbered_def)
      with 1 show ?thesis by blast
    next
      case 2
      with new_rows obtain r where r: "r \<in> set rows" "ms_seq r = pa_seq a" by blast
      with 2 have "ms_number (with_plan now planned r) = Some n" using number_iff by auto
      with r show ?thesis by blast
    qed
  qed
  ultimately show ?thesis using old_numbers nonneg by auto
qed

lemma order_after:
  assumes fits: "plan_fits rows old old_number planned"
    and "r \<in> with_plan now planned ` set rows" "r' \<in> with_plan now planned ` set rows" "ms_number r = Some n" "ms_number r' = Some n'" "ms_seq r < ms_seq r'"
  shows "n < n'"
proof -
  note old_numbers = plan_fitsD(2)[OF fits] and old_order = plan_fitsD(3)[OF fits] and new_numbers = plan_fitsD(4)[OF fits]
    and new_order = plan_fitsD(5)[OF fits] and new_rows = plan_fitsD(6)[OF fits] and number_iff = number_iff[OF fits]
  from assms obtain q q' where q: "q \<in> set rows" "r = with_plan now planned q" "q' \<in> set rows" "r' = with_plan now planned q'" by auto
  have seqs: "ms_seq q < ms_seq q'" using assms(6) q by simp
  have bound: "pa_number a > old_number" if "a \<in> set planned" for a
  proof -
    from that have "pa_number a \<in> set (map pa_number planned)" by simp
    then show ?thesis unfolding new_numbers by auto
  qed
  consider "ms_seq q \<le> old" "ms_number q = Some n" | a where "a \<in> set planned" "pa_seq a = ms_seq q" "pa_number a = n"
    using assms(4) number_iff[OF q(1)] q(2) by auto
  then show ?thesis
  proof cases
    case 1
    have "n \<in> {1..old_number}" unfolding old_numbers[symmetric] using q(1) 1 by blast
    with bound show ?thesis using assms(5) number_iff[OF q(3)] q(4) old_order[OF q(1,3) 1(2) _ seqs] by force
  next
    case 2
    then have "\<not> ms_seq q' \<le> old" using new_rows[of a] seqs by auto
    then obtain b where "b \<in> set planned" "pa_seq b = ms_seq q'" "pa_number b = n'"
      using assms(5) number_iff[OF q(3)] q(4) by auto
    with 2 numbers_in_order[OF new_numbers new_order] seqs show ?thesis by metis
  qed
qed

lemma round_head_number:
  assumes grows: "world_grows seen w" and rd: "round_of deps force batch repository branch seen rd"
    and sp: "find_sequence_space repository branch (nw_db w) = Some sp" "sp_epoch sp = rd_epoch rd" "sp_number_seq sp = rd_head_seq rd"
  shows "sp_number sp = rd_head_number rd"
proof -
  from rd obtain sp0 where sp0: "find_sequence_space repository branch (nw_db seen) = Some sp0" "rd_epoch rd = sp_epoch sp0"
    "rd_head_seq rd = sp_number_seq sp0" "rd_head_number rd = sp_number sp0" by (auto simp: round_of_def)
  from grows sp0(1) obtain sp' where "find_sequence_space repository branch (nw_db w) = Some sp'"
    "sp_epoch sp0 < sp_epoch sp' \<or> sp_epoch sp' = sp_epoch sp0 \<and>
      (sp_number_seq sp0 < sp_number_seq sp' \<or> sp_number_seq sp' = sp_number_seq sp0 \<and> sp_number sp' = sp_number sp0)"
    unfolding world_grows_def by blast
  with sp sp0(2-4) show ?thesis by simp
qed

lemma round_numbers_ok:
  assumes seen: "world_inv history seen" and w: "world_inv history w" and grows: "world_grows seen w"
    and rd: "round_of deps force batch repository branch seen rd"
    and still: "\<not> evidence_moved repository branch rd (nw_evidence w)"
    and store: "store_evidence (nw_db w) (rd_existing rd) (rd_decisions rd) (nw_evidence w) = Some (ds, evidence)"
    and sp: "find_sequence_space repository branch (nw_db w) = Some sp" "sp_epoch sp = rd_epoch rd" "sp_number_seq sp = rd_head_seq rd"
    and plan: "plan_round late repository branch rd ds evidence (nw_db w) = Inr plan"
    and run: "assign_merge_numbers repository branch (rd_epoch rd) (map to_assignment (assignments plan)) (nw_db w) =
      Some (db1, length (assignments plan))"
    and same: "merges db2 = merges db1"
  shows "numbers_ok evidence db2 (checkpointed now (checkpoint_of plan) sp)"
    and "sp_number_seq sp < next_head_seq plan \<or> next_head_seq plan = sp_number_seq sp \<and> next_head_number plan = sp_number sp"
    and "(repository', branch', epoch') \<noteq> (repository, branch, rd_epoch rd) \<Longrightarrow>
      space_rows repository' branch' epoch' db2 = space_rows repository' branch' epoch' (nw_db w)"
proof -
  let ?e = "rd_epoch rd"
  let ?planned = "assignments plan"
  let ?rows = "space_rows repository branch ?e (nw_db w)"
  let ?number = "with_plan (db_now (nw_db w)) ?planned"
  note key = find_space_key[OF sp(1)]
  note round = round_evidence[OF seen w grows rd still store]
  note old = numbers_okD[OF world_invD(5)[OF w sp(1)] conjunct1[OF key] conjunct2[OF key] sp(2), unfolded sp(3) round_head_number[OF grows rd sp]]
  note read = round_rows[OF seen grows rd]
  from round(1) obtain m where m: "map fst ds = map cd_seq (take m (rd_rows rd))" by blast
  have stored: "\<forall>c pre d post. c \<in> set (rd_rows rd) \<longrightarrow> ds = pre @ (cd_seq c, d) # post \<longrightarrow>
      (\<forall>x \<in> set pre. \<not> is_open (snd x)) \<longrightarrow> \<not> is_open d \<longrightarrow>
      stored_as evidence (repository, branch, ?e, cd_seq c) (cd_sha c) d"
    using round(4) by blast
  note planned = round_plan[OF plan m read(3) stored]
  have once: "distinct (map na_seq (map to_assignment ?planned))"
    using planned(4) by (simp add: to_assignment_def o_def strict_sorted_iff)
  note all = assign_all[OF _ once world_invD(2)[OF w], of repository branch ?e db1, simplified length_map, OF run]
  have fits: "plan_fits ?rows (rd_head_seq rd) (rd_head_number rd) ?planned"
    unfolding plan_fits_def
  proof (intro conjI)
    show "\<forall>a \<in> set ?planned. rd_head_seq rd < pa_seq a \<and> (\<exists>r \<in> set ?rows. ms_seq r = pa_seq a)"
    proof
      fix a assume a: "a \<in> set ?planned"
      then have "to_assignment a \<in> set (map to_assignment ?planned)" by simp
      from all(1)[OF this] obtain r where "r \<in> set ?rows" "ms_seq r = na_seq (to_assignment a)" by blast
      with planned(5)[OF a] show "rd_head_seq rd < pa_seq a \<and> (\<exists>r \<in> set ?rows. ms_seq r = pa_seq a)"
        by (auto simp: to_assignment_def)
    qed
  qed (use old(1-3,5) planned(3,4) in blast)+
  have rows2: "space_rows repository branch ?e db2 = map ?number ?rows"
    using all(2) same by (simp add: space_rows_def with_plan_def[abs_def])
  have rowset: "set (space_rows repository branch ?e db2) = ?number ` set ?rows" unfolding rows2 by simp
  have beyond: "r \<in> set ?rows \<Longrightarrow> rd_head_seq rd < ms_seq r \<Longrightarrow> ms_seq r \<le> next_head_seq plan \<Longrightarrow> covered evidence (?number r)" for r
  proof -
    assume r: "r \<in> set ?rows" "rd_head_seq rd < ms_seq r" "ms_seq r \<le> next_head_seq plan"
    from planned(2)[OF r(2,3)] obtain c d where c: "c \<in> set (rd_rows rd)" "cd_seq c = ms_seq r"
      "stored_as evidence (repository, branch, ?e, ms_seq r) (cd_sha c) d"
      "case d of
         Pr_decision pr merged u \<Rightarrow> \<exists>a \<in> set ?planned. pa_seq a = ms_seq r \<and> pa_pr a = pr
       | Direct_decision u \<Rightarrow> ms_seq r \<notin> pa_seq ` set ?planned
       | Unresolved_decision reason u \<Rightarrow> False" by blast
    from read(1)[OF c(1)] obtain r2 where "r2 \<in> set ?rows" "ms_seq r2 = cd_seq c" "ms_sha r2 = cd_sha c" by blast
    with r(1) c(2) space_keys_distinct(1)[OF world_invD(2)[OF w]] have sha: "cd_sha c = ms_sha r" by (metis distinct_map inj_onD)
    have pk: "pk_of (?number r) = (repository, branch, ?e, ms_seq r)" using r(1) by (simp add: space_rows_iff pk_of_in_space)
    show "covered evidence (?number r)"
    proof (cases d)
      case (Pr_decision pr merged u)
      with c(4) obtain a where a: "a \<in> set ?planned" "pa_seq a = ms_seq r" "pa_pr a = pr" by auto
      with with_plan_new[OF a(1,2) planned(4)] c(3) Pr_decision sha pk show ?thesis by (simp add: covered_def stored_as_def)
    next
      case (Direct_decision u)
      have "\<not> is_numbered r" using old(3)[OF r(1)] r(2) by auto
      with with_plan_same[of r ?planned] c(3,4) Direct_decision sha pk show ?thesis
        by (simp add: covered_def stored_as_def is_numbered_def)
    qed (use c(4) in simp)
  qed
  have here: "covered evidence (?number r)" if r: "r \<in> set ?rows" "ms_seq r \<le> next_head_seq plan" for r
  proof (cases "ms_seq r \<le> rd_head_seq rd")
    case True
    have "pk_of r \<notin> (\<lambda>c. (repository, branch, ?e, cd_seq c)) ` set (rd_rows rd)"
      using r(1) True read(2) by (force simp: space_rows_iff pk_of_in_space)
    from covered_other[OF round(2) this old(4)[OF r(1) True]] show ?thesis by (simp add: with_plan_old[OF fits True])
  qed (use beyond r in simp)
  have bound: "next_head_seq plan \<le> sp_head_seq sp"
  proof (cases "rd_head_seq rd < next_head_seq plan")
    case True
    from planned(2)[OF this] obtain c where "c \<in> set (rd_rows rd)" "cd_seq c = next_head_seq plan" by blast
    with read(1) obtain r where "r \<in> set ?rows" "ms_seq r = next_head_seq plan" by metis
    then have "next_head_seq plan \<in> ms_seq ` set ?rows" by (metis image_eqI)
    with space_seqs[OF world_invD(1)[OF w] sp(1)] sp(2) show ?thesis by simp
  qed (use old(7) in simp)
  have late_numbers: "ms_seq r \<le> next_head_seq plan" if r: "r \<in> set ?rows" "is_numbered (?number r)" for r
  proof -
    from r(2) obtain n where "ms_number (?number r) = Some n" by (auto simp: is_numbered_def)
    then consider "ms_seq r \<le> rd_head_seq rd" | a where "a \<in> set ?planned" "pa_seq a = ms_seq r"
      unfolding number_iff[OF fits r(1)] by blast
    then show ?thesis using planned(1) planned(5) by cases force+
  qed
  show "sp_number_seq sp < next_head_seq plan \<or> next_head_seq plan = sp_number_seq sp \<and> next_head_number plan = sp_number sp"
  proof (cases "?planned = []")
    case True
    with planned(1,6) sp(3) round_head_number[OF grows rd sp] show ?thesis by auto
  next
    case False
    with planned(5)[of "hd ?planned"] sp(3) show ?thesis by simp
  qed
  show "(repository', branch', epoch') \<noteq> (repository, branch, ?e) \<Longrightarrow>
      space_rows repository' branch' epoch' db2 = space_rows repository' branch' epoch' (nw_db w)"
    using all(3) same by (simp add: space_rows_def)
  show "numbers_ok evidence db2 (checkpointed now (checkpoint_of plan) sp)"
    unfolding numbers_ok_def Let_def checkpointed_simps conjunct1[OF key] conjunct2[OF key] sp(2) rowset
      checkpoint_of_def number_checkpoint.simps planned(6)
  proof (intro conjI)
    show "{n. \<exists>r \<in> ?number ` set ?rows. ms_number r = Some n} = {1..rd_head_number rd + int (length ?planned)}"
      by (rule numbers_after[OF fits])
    show "\<forall>r \<in> ?number ` set ?rows. \<forall>r' \<in> ?number ` set ?rows. \<forall>n n'. ms_number r = Some n \<longrightarrow> ms_number r' = Some n' \<longrightarrow>
        ms_seq r < ms_seq r' \<longrightarrow> n < n'"
      using order_after[OF fits] by blast
    show "\<forall>r \<in> ?number ` set ?rows. is_numbered r \<longrightarrow> ms_seq r \<le> next_head_seq plan" using late_numbers by auto
    show "\<forall>r \<in> ?number ` set ?rows. ms_seq r \<le> next_head_seq plan \<longrightarrow> covered evidence r" using here by auto
    show "0 \<le> rd_head_number rd + int (length ?planned)" "0 \<le> next_head_seq plan" using old(5,6) planned(1) by auto
    show "next_head_seq plan \<le> sp_head_seq sp" by (rule bound)
  qed
qed

section \<open>The state after a round\<close>

lemma numbers_ok_cong:
  assumes "numbers_ok evidence db sp" "merges db' = merges db"
    and "sp_repository sp' = sp_repository sp" "sp_branch sp' = sp_branch sp" "sp_epoch sp' = sp_epoch sp"
      "sp_number_seq sp' = sp_number_seq sp" "sp_number sp' = sp_number sp" "sp_head_seq sp' = sp_head_seq sp"
  shows "numbers_ok evidence db' sp'"
  using assms(1) unfolding numbers_ok_def space_rows_def assms(2-) .

lemma evidence_ok_kept:
  assumes "evidence_ok db evidence" "rows_kept db db'"
  shows "evidence_ok db' evidence"
  unfolding evidence_ok_def
proof (intro conjI ballI)
  show "distinct (map evidence_key evidence)" using assms(1) by (simp add: evidence_ok_def)
  fix e assume "e \<in> set evidence"
  with assms(1) obtain r where r: "r \<in> set (merges db)" "pk_of r = evidence_key e" "ev_sha e = to_lower (ms_sha r)"
    unfolding evidence_ok_def by blast
  with assms(2) obtain r' where "r' \<in> set (merges db')" "kept_row r r'" unfolding rows_kept_def by blast
  with r show "\<exists>r \<in> set (merges db'). pk_of r = evidence_key e \<and> ev_sha e = to_lower (ms_sha r)"
    by (intro bexI[of _ r']) (simp_all add: kept_row_def)
qed

lemma requests_seq [simp]: "wk_seq (fold request_queue qs w) = wk_seq w"
  by (induction qs arbitrary: w) (simp_all add: request_queue_def)

text \<open>How a transaction ends.\<close>

lemma commit_round_cases [consumes 1, case_names same mismatch numbered]:
  assumes "commit_round late locked repository branch correlation rd w = Some (w', out)"
  obtains "w' = w"
  | sp ck db applied where "find_sequence_space repository branch (nw_db w) = Some sp" "sp_epoch sp = rd_epoch rd"
      "sp_number_seq sp = rd_head_seq rd" "ck_head_seq ck = rd_head_seq rd" "ck_head_number ck = rd_head_number rd"
      "advance_merge_number_checkpoint repository branch (rd_epoch rd) ck (nw_db w) = Some (db, applied)" "w' = on_nw_db db w"
  | sp ds evidence plan db1 db2 where "find_sequence_space repository branch (nw_db w) = Some sp" "sp_epoch sp = rd_epoch rd"
      "sp_number_seq sp = rd_head_seq rd" "\<not> evidence_moved repository branch rd (nw_evidence w)"
      "store_evidence (nw_db w) (rd_existing rd) (rd_decisions rd) (nw_evidence w) = Some (ds, evidence)"
      "plan_round late repository branch rd ds evidence (nw_db w) = Inr plan"
      "assign_merge_numbers repository branch (rd_epoch rd) (map to_assignment (assignments plan)) (nw_db w) =
        Some (db1, length (assignments plan))"
      "advance_merge_number_checkpoint repository branch (rd_epoch rd) (checkpoint_of plan) db1 = Some (db2, True)"
      "nw_db w' = db2" "nw_evidence w' = evidence" "nw_attest w' = nw_attest w"
proof -
  from assms consider "w' = w" | sp where "find_sequence_space repository branch (nw_db w) = Some sp" "sp_epoch sp = rd_epoch rd"
      "sp_number_seq sp = rd_head_seq rd" "\<not> evidence_moved repository branch rd (nw_evidence w)"
      "write_round late repository branch correlation rd w = Some (w', out)"
    by (auto simp: commit_round_def split: if_splits option.splits)
  then show thesis
  proof cases
    case 1
    then show ?thesis by (rule that(1))
  next
    case (2 sp)
    from 2(5) obtain ds evidence plan db1 written where w: "store_evidence (nw_db w) (rd_existing rd) (rd_decisions rd) (nw_evidence w) = Some (ds, evidence)"
      "plan_round late repository branch rd ds evidence (nw_db w) = Inr plan"
      "assign_merge_numbers repository branch (rd_epoch rd) (map to_assignment (assignments plan)) (nw_db w) = Some (db1, written)"
      by (auto simp: write_round_def split: option.splits sum.splits)
    show ?thesis
    proof (cases "written = length (assignments plan)")
      case False
      with 2(5) w have "block_mismatch repository branch rd plan w = Some (w', out)" by (simp add: write_round_def)
      then obtain db applied blocking where "advance_merge_number_checkpoint repository branch (rd_epoch rd)
          \<lparr>ck_head_seq = rd_head_seq rd, ck_head_number = rd_head_number rd, ck_blocked = blocking\<rparr> (nw_db w) = Some (db, applied)"
        "w' = on_nw_db db w"
        by (auto simp: block_mismatch_def Let_def split: option.splits)
      then show ?thesis by (intro that(2)[OF 2(1-3)]) simp_all
    next
      case True
      with 2(5) w obtain db2 applied where "advance_merge_number_checkpoint repository branch (rd_epoch rd) (checkpoint_of plan) db1 = Some (db2, applied)"
        "if applied then (w', out) = commit_numbers repository branch correlation rd plan db2 evidence w else w' = w"
        by (auto simp: write_round_def split: option.splits if_splits)
      with that(1) that(3)[OF 2(1-4) w(1,2)] w(3) True show ?thesis
        by (cases applied) (simp_all add: commit_numbers_def Let_def nw_db_def)
    qed
  qed
qed

lemma checkpoint_other:
  assumes "advance_merge_number_checkpoint repository branch epoch ck db = Some (db', applied)"
    and "find_sequence_space repository' branch' db' = Some sp'"
    and "find_sequence_space repository branch db = Some sp" "sp_epoch sp = epoch"
  shows "(repository', branch') = (repository, branch) \<Longrightarrow> sp' = checkpointed (db_now db) ck sp"
    and "(repository', branch') \<noteq> (repository, branch) \<Longrightarrow> find_sequence_space repository' branch' db = Some sp'"
  using checkpoint_space[OF assms(1)] assms(2-4) by auto

lemma world_grows_space:
  assumes "rows_kept (nw_db w) (nw_db w')" "evidence_grows (nw_evidence w) (nw_evidence w')"
    and "find_sequence_space repository branch (nw_db w) = Some sp" "find_sequence_space repository branch (nw_db w') = Some sp'"
    and "sp_epoch sp' = sp_epoch sp"
      "sp_number_seq sp < sp_number_seq sp' \<or> sp_number_seq sp' = sp_number_seq sp \<and> sp_number sp' = sp_number sp"
    and others: "\<And>repository' branch'. (repository', branch') \<noteq> (repository, branch) \<Longrightarrow>
      find_sequence_space repository' branch' (nw_db w') = find_sequence_space repository' branch' (nw_db w)"
  shows "world_grows w w'"
  unfolding world_grows_def
proof (intro conjI allI impI)
  fix r b q assume q: "find_sequence_space r b (nw_db w) = Some q"
  show "\<exists>q'. find_sequence_space r b (nw_db w') = Some q' \<and> (sp_epoch q < sp_epoch q' \<or>
      sp_epoch q' = sp_epoch q \<and> (sp_number_seq q < sp_number_seq q' \<or> sp_number_seq q' = sp_number_seq q \<and> sp_number q' = sp_number q))"
  proof (cases "(r, b) = (repository, branch)")
    case True
    with q assms(3-6) show ?thesis by auto
  next
    case False
    with others[OF False] q show ?thesis by simp
  qed
qed (use assms(1,2) in simp_all)

lemma commit_round_inv:
  assumes seen: "world_inv history seen" and w: "world_inv history w" and grows: "world_grows seen w"
    and rd: "round_of deps force batch repository branch seen rd"
    and run: "commit_round late locked repository branch correlation rd w = Some (w', out)"
  shows "world_inv history w' \<and> world_grows w w'"
  using run
proof (cases rule: commit_round_cases)
  case same
  with w show ?thesis by simp
next
  case (mismatch sp ck db applied)
  note number = round_head_number[OF grows rd mismatch(1-3)] and cs = checkpoint_space[OF mismatch(6)]
  have w': "nw_db w' = db" "nw_evidence w' = nw_evidence w" by (simp_all add: mismatch(7) on_nw_db_def nw_db_def)
  have kept: "rows_kept (nw_db w) db" by (rule checkpoint_keeps_rows[OF mismatch(6)])
  have "numbers_ok (nw_evidence w) db sp'" if sp': "find_sequence_space repository' branch' db = Some sp'" for repository' branch' sp'
  proof (cases "(repository', branch') = (repository, branch)")
    case True
    from checkpoint_other(1)[OF mismatch(6) sp' mismatch(1,2) True] show ?thesis
      by (intro numbers_ok_cong[OF world_invD(5)[OF w mismatch(1)] cs(1)]) (simp_all add: mismatch(3-5) number)
  next
    case False
    from world_invD(5)[OF w checkpoint_other(2)[OF mismatch(6) sp' mismatch(1,2) False]] show ?thesis
      by (rule numbers_ok_cong[OF _ cs(1)]) simp_all
  qed
  moreover have "evidence_ok db (nw_evidence w)" using w evidence_ok_kept[OF _ kept] by (simp add: world_inv_def)
  ultimately have "world_inv history w'"
    using checkpoint_inv[OF world_invD(1)[OF w] mismatch(6)] by (simp add: world_inv_def w')
  moreover have "world_grows w w'"
  proof (rule world_grows_space[OF _ _ mismatch(1)])
    show "find_sequence_space repository branch (nw_db w') = Some (checkpointed (db_now (nw_db w)) ck sp)"
      using cs(2) mismatch(1,2) by (simp add: w')
  qed (use kept cs(3) mismatch(3-5) number in \<open>simp_all add: w'\<close>)
  ultimately show ?thesis by blast
next
  case (numbered sp ds evidence plan db1 db2)
  note cs = checkpoint_space[OF numbered(8)]
  note sp1 = assign_merge_numbers_space[OF numbered(7)]
  have find1: "find_sequence_space r b db1 = find_sequence_space r b (nw_db w)" for r b
    by (simp add: find_sequence_space_def sp1(2))
  note ok = round_numbers_ok[OF seen w grows rd numbered(4,5,1-3,6,7) cs(1)]
  note ev = round_evidence[OF seen w grows rd numbered(4,5)]
  have kept: "rows_kept (nw_db w) db2"
    using numbering_keeps_rows[OF numbered(7)] checkpoint_keeps_rows[OF numbered(8)] by (rule rows_kept_trans)
  have seq: "seq_inv history db2"
  proof (rule checkpoint_inv[OF _ numbered(8)])
    show "seq_inv history db1"
      by (rule seq_inv_same_view[OF world_invD(1)[OF w] sp1(2) sp1(3)[OF world_invD(2)[OF w]] sp1(1)])
  qed
  have numbers: "numbers_ok evidence db2 sp'" if sp': "find_sequence_space repository' branch' db2 = Some sp'" for repository' branch' sp'
  proof (cases "(repository', branch') = (repository, branch)")
    case True
    from checkpoint_other(1)[OF numbered(8) sp' _ numbered(2) True] numbered(1) find1 ok(1) show ?thesis by simp
  next
    case False
    have old: "find_sequence_space repository' branch' (nw_db w) = Some sp'"
      using checkpoint_other(2)[OF numbered(8) sp' _ numbered(2) False] numbered(1) find1 by simp
    from numbers_ok_other[OF world_invD(5)[OF w old] ev(2)] find_space_key[OF old] ok(3) False show ?thesis by auto
  qed
  have "world_inv history w'"
    using seq evidence_ok_kept[OF ev(3) kept] numbers by (simp add: world_inv_def numbered(9,10))
  moreover have "world_grows w w'"
  proof (rule world_grows_space[OF _ _ numbered(1)])
    show "find_sequence_space repository branch (nw_db w') = Some (checkpointed (db_now db1) (checkpoint_of plan) sp)"
      using cs(2) find1 numbered(1,2) by (simp add: numbered(9))
  qed (use kept ev(2) ok(2) cs(3) find1 in \<open>simp_all add: numbered(9,10) evidence_changed_def checkpoint_of_def\<close>)
  ultimately show ?thesis by blast
qed

lemma reconcile_inv:
  assumes "world_inv history seen" "world_inv history w" "world_grows seen w"
    and "reconcile_merge_numbers deps batch late force locked repository branch correlation seen w = Some (w', out)"
  shows "world_inv history w'" "world_grows w w'"
  using commit_round_inv[OF assms(1-3)] assms(2,4)
  by (auto simp: reconcile_merge_numbers_def dest!: start_round_of split: round_start.splits)

end
