(* ===== verification/Worker_Numbers.thy ===== *)
theory Worker_Numbers
  imports Worker_Commits
begin

text \<open>
  Runs of the numbering of pull requests together with the operations on the numbers of commits: the step relation,
  its invariant, and the theorem on the numbers of every state reached.
\<close>

section \<open>Runs with numbering\<close>

record number_system =
  ns_world :: number_world
  ns_analysed :: "seq_db list"
  ns_seen :: "number_world list"

text \<open>Every operation on the numbers of commits, rounds that read a state seen before, attestations, and work on the queue.\<close>

inductive number_step :: "commit_links \<Rightarrow> number_system \<Rightarrow> number_system \<Rightarrow> bool" for objects where
  Chained: "chain_step objects \<lparr>working = nw_worker (ns_world s), analysed = ns_analysed s\<rparr> t \<Longrightarrow>
    number_step objects s (s\<lparr>ns_world := (ns_world s)\<lparr>nw_worker := working t\<rparr>, ns_analysed := analysed t\<rparr>)"
| Look: "number_step objects s (s\<lparr>ns_seen := ns_world s # ns_seen s\<rparr>)"
| Reconcile: "seen \<in> set (ns_seen s) \<Longrightarrow>
    reconcile_merge_numbers deps batch late force locked repository branch correlation seen (ns_world s) = Some (w, out) \<Longrightarrow>
    number_step objects s (s\<lparr>ns_world := w\<rparr>)"
| Attest: "create_attestation (nw_db (ns_world s)) given (nw_attest (ns_world s)) = (a, row) \<Longrightarrow>
    number_step objects s (s\<lparr>ns_world := (ns_world s)\<lparr>nw_attest := a\<rparr>\<rparr>)"
| Revoke: "revoke_attestation now uuid actor reason (nw_attest (ns_world s)) = Some (a, row) \<Longrightarrow>
    number_step objects s (s\<lparr>ns_world := (ns_world s)\<lparr>nw_attest := a\<rparr>\<rparr>)"
| Queue: "wk_seq w = wk_seq (nw_worker (ns_world s)) \<Longrightarrow>
    number_step objects s (s\<lparr>ns_world := (ns_world s)\<lparr>nw_worker := w\<rparr>\<rparr>)"

inductive_cases number_stepE: "number_step objects s s'"

definition new_number_system :: "int \<Rightarrow> number_system" where
  "new_number_system now =
     \<lparr>ns_world = \<lparr>nw_worker = working (new_system now), nw_evidence = [], nw_attest = \<lparr>attestations = [], next_attestation = 1\<rparr>\<rparr>,
      ns_analysed = [], ns_seen = []\<rparr>"

definition numbers_inv :: "commit_links \<Rightarrow> number_system \<Rightarrow> bool" where
  "numbers_inv objects s \<longleftrightarrow>
     world_inv (history_of objects) (ns_world s) \<and> list_all (seq_inv (history_of objects)) (ns_analysed s) \<and>
     list_all (\<lambda>v. world_inv (history_of objects) v \<and> world_grows v (ns_world s)) (ns_seen s)"

lemma world_inv_cong: "nw_db w' = nw_db w \<Longrightarrow> nw_evidence w' = nw_evidence w \<Longrightarrow> world_inv history w' = world_inv history w"
  by (simp add: world_inv_def)

lemma world_grows_cong: "nw_db w' = nw_db w \<Longrightarrow> nw_evidence w' = nw_evidence w \<Longrightarrow> world_grows w w'"
  by (simp add: world_grows_def)

lemma numbers_inv_world:
  assumes "numbers_inv objects s" "world_inv (history_of objects) w" "world_grows (ns_world s) w"
    and "list_all (seq_inv (history_of objects)) dbs"
  shows "numbers_inv objects (s\<lparr>ns_world := w, ns_analysed := dbs\<rparr>)"
  using assms world_grows_trans by (fastforce simp: numbers_inv_def list_all_iff)

lemma numbers_inv_same:
  assumes "numbers_inv objects s" "nw_db w = nw_db (ns_world s)" "nw_evidence w = nw_evidence (ns_world s)"
  shows "numbers_inv objects (s\<lparr>ns_world := w\<rparr>)"
  using numbers_inv_world[OF assms(1), of w "ns_analysed s"] assms(1) world_grows_cong[OF assms(2,3)]
    world_inv_cong[OF assms(2,3)] by (simp add: numbers_inv_def)

lemma chain_world:
  assumes w: "world_inv history w" and change: "chain_change (nw_db w) (nw_db w')" and same: "nw_evidence w' = nw_evidence w"
    and inv': "seq_inv history (nw_db w')"
  shows "world_inv history w'" "world_grows w w'"
proof -
  note kept = chain_change_keeps_rows[OF change]
  show "world_inv history w'" unfolding world_inv_def same
  proof (intro conjI allI impI)
    show "evidence_ok (nw_db w') (nw_evidence w)" using w evidence_ok_kept[OF _ kept] by (simp add: world_inv_def)
    fix repository branch sp' assume sp': "find_sequence_space repository branch (nw_db w') = Some sp'"
    show "numbers_ok (nw_evidence w) (nw_db w') sp'"
      by (rule chain_change_numbers[OF world_invD(1)[OF w] inv' change world_invD(5)[OF w] sp'])
  qed (rule inv')
  show "world_grows w w'" unfolding world_grows_def same
  proof (intro conjI allI impI)
    fix repository branch sp assume sp: "find_sequence_space repository branch (nw_db w) = Some sp"
    have "checkpoint_kept (Some sp) (find_sequence_space repository branch (nw_db w'))"
      using change sp unfolding chain_change_def checkpoints_kept_def by metis
    then show "\<exists>sp'. find_sequence_space repository branch (nw_db w') = Some sp' \<and> (sp_epoch sp < sp_epoch sp' \<or>
        sp_epoch sp' = sp_epoch sp \<and>
          (sp_number_seq sp < sp_number_seq sp' \<or> sp_number_seq sp' = sp_number_seq sp \<and> sp_number sp' = sp_number sp))"
      by (auto simp: checkpoint_kept_def split: option.splits)
  qed (use kept in simp_all)
qed

lemma numbers_inv_step:
  assumes "number_step objects s s'" and inv: "numbers_inv objects s"
  shows "numbers_inv objects s'"
  using assms(1)
proof cases
  case (Chained t)
  let ?t = "\<lparr>working = nw_worker (ns_world s), analysed = ns_analysed s\<rparr>"
  let ?w = "(ns_world s)\<lparr>nw_worker := working t\<rparr>"
  have w: "world_inv (history_of objects) (ns_world s)" using inv by (simp add: numbers_inv_def)
  have "system_inv objects ?t" using inv world_invD(1)[OF w] by (simp add: system_inv_def numbers_inv_def nw_db_def)
  from system_inv_chain[OF Chained(2) this] have t: "seq_inv (history_of objects) (nw_db ?w)" "list_all (seq_inv (history_of objects)) (analysed t)"
    by (simp_all add: system_inv_def nw_db_def)
  have "chain_change (nw_db (ns_world s)) (nw_db ?w)" using chain_step_change[OF Chained(2)] by (simp add: nw_db_def)
  from chain_world[OF w this _ t(1)] show ?thesis unfolding Chained(1) by (intro numbers_inv_world[OF inv]) (simp_all add: t(2))
next
  case Look
  with inv show ?thesis by (simp add: numbers_inv_def)
next
  case (Reconcile seen deps batch late force locked repository branch correlation w out)
  have "world_inv (history_of objects) seen" "world_inv (history_of objects) (ns_world s)" "world_grows seen (ns_world s)"
    using inv Reconcile(2) by (auto simp: numbers_inv_def list_all_iff)
  from reconcile_inv[OF this Reconcile(3)] numbers_inv_world[OF inv, of w "ns_analysed s"] inv show ?thesis
    unfolding Reconcile(1) by (simp add: numbers_inv_def)
next
  case (Attest given a row)
  show ?thesis unfolding Attest(1) by (rule numbers_inv_same[OF inv]) (simp_all add: nw_db_def)
next
  case (Revoke now uuid actor reason a row)
  show ?thesis unfolding Revoke(1) by (rule numbers_inv_same[OF inv]) (simp_all add: nw_db_def)
next
  case (Queue w)
  show ?thesis unfolding Queue(1) by (rule numbers_inv_same[OF inv]) (simp_all add: nw_db_def Queue(2))
qed

interpretation number_runs: invariant_system "\<lambda>s. \<exists>now. s = new_number_system now" "number_step objects" "numbers_inv objects" for objects
proof
  fix s assume "\<exists>now. s = new_number_system now"
  then show "numbers_inv objects s"
    by (auto simp: numbers_inv_def new_number_system_def world_inv_def nw_db_def new_system_def evidence_ok_def seq_inv_def table_ok_def
        space_ok_def find_sequence_space_def entries_of_def space_rows_def)
qed (rule numbers_inv_step)

lemma numbers_listed:
  assumes "table_ok (merges db)" "numbers_ok evidence db sp" "sp_repository sp = repository" "sp_branch sp = branch"
  shows "map ms_number (filter is_numbered (ordered_rows repository branch (sp_epoch sp) db)) = map Some [1..sp_number sp]"
proof -
  let ?rows = "ordered_rows repository branch (sp_epoch sp) db"
  let ?numbers = "map (\<lambda>r. the (ms_number r)) (filter is_numbered ?rows)"
  note ok = numbers_okD[OF assms(2-4) refl]
  have rows: "set ?rows = set (space_rows repository branch (sp_epoch sp) db)" by (simp add: ordered_rows_def)
  have "distinct (map ms_seq ?rows)" using space_keys_distinct(1)[OF assms(1)] by (simp add: ordered_rows_def distinct_map)
  moreover have "sorted (map ms_seq ?rows)" by (simp add: ordered_rows_def)
  ultimately have "sorted_wrt (\<lambda>r r'. ms_seq r < ms_seq r') ?rows" by (simp add: strict_sorted_iff flip: sorted_wrt_map)
  then have "sorted_wrt (\<lambda>r r'. ms_seq r < ms_seq r') (filter is_numbered ?rows)" by (rule sorted_wrt_filter)
  then have "sorted_wrt (\<lambda>r r'. the (ms_number r) < the (ms_number r')) (filter is_numbered ?rows)"
    by (rule sorted_wrt_mono_rel[rotated]) (use ok(2) rows in \<open>auto simp: is_numbered_def\<close>)
  then have "sorted_wrt (<) ?numbers" by (simp add: sorted_wrt_map)
  then have "sorted ?numbers" "distinct ?numbers" by (simp_all add: strict_sorted_iff)
  moreover have "set ?numbers = {n. \<exists>r \<in> set (space_rows repository branch (sp_epoch sp) db). ms_number r = Some n}"
    unfolding set_map set_filter rows by (force simp: is_numbered_def image_iff)
  ultimately have "?numbers = [1..sp_number sp]" by (intro sorted_distinct_set_unique) (simp_all add: sorted_upto ok(1))
  moreover have "map ms_number (filter is_numbered ?rows) = map Some ?numbers" by (auto simp: is_numbered_def)
  ultimately show ?thesis by simp
qed

text \<open>C7: Merge numbers count the merged pull requests of a branch, one by one: in every state reached
  by workers that assign, renumber and repair the numbers of commits and by rounds of the
  numbering whose first part may have read any earlier state, with whatever answers of the API
  and whatever attestations, the numbers of the commits of the current epoch, in the order of
  the history, are 1, 2, ... up to the number of the checkpoint; a commit up to the checkpoint
  has evidence for its number, of its own pull request, or, without a number, for having come
  directly; a commit after it has no number.\<close>

theorem merge_numbers_count_merges:
  assumes "reaches (\<lambda>s. \<exists>now. s = new_number_system now) (number_step objects) s"
    and "find_sequence_space repository branch (nw_db (ns_world s)) = Some sp"
  shows "map ms_number (filter is_numbered (ordered_rows repository branch (sp_epoch sp) (nw_db (ns_world s)))) =
      map Some [1..sp_number sp] \<and>
    (\<forall>r \<in> set (ordered_rows repository branch (sp_epoch sp) (nw_db (ns_world s))).
       if ms_seq r \<le> sp_number_seq sp then covered (nw_evidence (ns_world s)) r else \<not> is_numbered r)"
proof -
  have w: "world_inv (history_of objects) (ns_world s)" using number_runs.reaches_inv[OF assms(1)] by (simp add: numbers_inv_def)
  note ok = world_invD(5)[OF w assms(2)] and key = find_space_key[OF assms(2)]
  from numbers_listed[OF world_invD(2)[OF w] ok] numbers_okD(3,4)[OF ok, of repository branch, OF _ _ refl] key show ?thesis
    by (force simp: ordered_rows_def)
qed

section \<open>A run\<close>

text \<open>Of the two commits of the sample, the first merged the pull request 7, and an operator attests the other one.\<close>

definition assigned_world :: number_world where
  "assigned_world = (ns_world (new_number_system 0))\<lparr>nw_worker := working assigned_system,
     nw_attest := fst (create_attestation (wk_seq (working assigned_system))
       \<lparr>ai_repository = 1, ai_branch = js ''main'', ai_epoch = 1, ai_through = None, ai_grace = 0, ai_actor = js ''a'', ai_reason = js ''r''\<rparr>
       (nw_attest (ns_world (new_number_system 0))))\<rparr>"

definition numbered_world :: number_world where
  "numbered_world = fst (the (reconcile_merge_numbers (sample_deps (sample_sha CHR ''1'')) 10 (\<lambda>_. False) False True 1 (js ''main'') [] assigned_world assigned_world))"

definition assigned_numbers :: number_system where
  "assigned_numbers = (new_number_system 0)\<lparr>ns_world := assigned_world, ns_seen := [assigned_world]\<rparr>"

lemma assigned_numbers_reachable: "reaches (\<lambda>s. \<exists>now. s = new_number_system now) (number_step sample_objects) assigned_numbers"
proof -
  let ?s0 = "new_number_system 0"
  let ?s1 = "?s0\<lparr>ns_world := (ns_world ?s0)\<lparr>nw_worker := working sample_system\<rparr>\<rparr>"
  let ?s2 = "?s0\<lparr>ns_world := (ns_world ?s0)\<lparr>nw_worker := working assigned_system\<rparr>\<rparr>"
  let ?s3 = "?s0\<lparr>ns_world := assigned_world\<rparr>"
  have sys: "analysed (new_system 0) = []" "nw_worker (ns_world ?s0) = working (new_system 0)" "ns_analysed ?s0 = []"
    "analysed sample_system = []" "analysed assigned_system = []"
    by (simp_all add: new_system_def new_number_system_def sample_system_def on_db_def assigned_system_def)
  have "reaches (\<lambda>s. \<exists>now. s = new_number_system now) (number_step sample_objects) ?s0" by (blast intro: reaches.start)
  moreover have "number_step sample_objects ?s0 ?s1"
  proof -
    have "chain_step sample_objects (new_system 0) sample_system" unfolding sample_system_def by (rule Register)
    moreover have "\<lparr>working = nw_worker (ns_world ?s0), analysed = ns_analysed ?s0\<rparr> = new_system 0"
      by (rule system.equality) (simp_all add: sys)
    ultimately have "chain_step sample_objects \<lparr>working = nw_worker (ns_world ?s0), analysed = ns_analysed ?s0\<rparr> sample_system" by (simp only:)
    from Chained[OF this] show ?thesis by (simp add: new_number_system_def sys(4,5))
  qed
  ultimately have "reaches (\<lambda>s. \<exists>now. s = new_number_system now) (number_step sample_objects) ?s1" by (rule reaches.step)
  moreover have "number_step sample_objects ?s1 ?s2"
  proof -
    have "chain_step sample_objects sample_system assigned_system"
      unfolding assigned_system_def by (rule Assign[OF _ prod.collapse[symmetric]]) (simp add: sample_graph_def api_graph_serves)
    moreover have "\<lparr>working = nw_worker (ns_world ?s1), analysed = ns_analysed ?s1\<rparr> = sample_system"
      by (rule system.equality) (simp_all add: sys)
    ultimately have "chain_step sample_objects \<lparr>working = nw_worker (ns_world ?s1), analysed = ns_analysed ?s1\<rparr> assigned_system" by (simp only:)
    from Chained[OF this] show ?thesis by (simp add: new_number_system_def sys(4,5))
  qed
  ultimately have "reaches (\<lambda>s. \<exists>now. s = new_number_system now) (number_step sample_objects) ?s2" by (rule reaches.step)
  moreover have "number_step sample_objects ?s2 ?s3"
    using Attest[OF prod.collapse[symmetric], of sample_objects ?s2] by (simp add: assigned_world_def nw_db_def)
  ultimately have "reaches (\<lambda>s. \<exists>now. s = new_number_system now) (number_step sample_objects) ?s3" by (rule reaches.step)
  moreover have "number_step sample_objects ?s3 assigned_numbers"
    using Look[of sample_objects ?s3] by (simp add: assigned_numbers_def new_number_system_def)
  ultimately show ?thesis by (rule reaches.step)
qed

lemma sample_round:
  "map_option (\<lambda>(w, out). map ms_number (ordered_rows 1 (js ''main'') 1 (nw_db w)))
     (reconcile_merge_numbers (sample_deps (sample_sha CHR ''1'')) 10 (\<lambda>_. False) False True 1 (js ''main'') [] assigned_world assigned_world) = Some [Some 1, None]"
  by code_simp

lemma sample_round_space:
  "map_option (\<lambda>(w, out). map_option (\<lambda>sp. (sp_epoch sp, sp_number_seq sp, sp_number sp)) (find_sequence_space 1 (js ''main'') (nw_db w)))
     (reconcile_merge_numbers (sample_deps (sample_sha CHR ''1'')) 10 (\<lambda>_. False) False True 1 (js ''main'') [] assigned_world assigned_world) = Some (Some (1, 2, 1))"
  by code_simp

lemma numbered_reachable:
  "reaches (\<lambda>s. \<exists>now. s = new_number_system now) (number_step sample_objects) (assigned_numbers\<lparr>ns_world := numbered_world\<rparr>)"
proof -
  obtain w out where run: "reconcile_merge_numbers (sample_deps (sample_sha CHR ''1'')) 10 (\<lambda>_. False) False True 1 (js ''main'') [] assigned_world assigned_world = Some (w, out)"
    using sample_round by auto
  have "number_step sample_objects assigned_numbers (assigned_numbers\<lparr>ns_world := w\<rparr>)"
    by (rule Reconcile[where seen = assigned_world]) (use run in \<open>simp_all add: assigned_numbers_def\<close>)
  moreover have "w = numbered_world" unfolding numbered_world_def run by simp
  ultimately show ?thesis using assigned_numbers_reachable by (blast intro: reaches.step)
qed

theorem merge_numbers_count_merges_witness:
  "map ms_number (filter is_numbered (ordered_rows 1 (js ''main'') 1 (nw_db numbered_world))) = [Some 1] \<and>
   list_all (\<lambda>r. if ms_seq r \<le> 2 then covered (nw_evidence numbered_world) r else True)
     (ordered_rows 1 (js ''main'') 1 (nw_db numbered_world))"
proof -
  obtain sp where sp: "find_sequence_space 1 (js ''main'') (nw_db numbered_world) = Some sp" "sp_epoch sp = 1" "sp_number_seq sp = 2" "sp_number sp = 1"
    using sample_round_space by (auto simp: numbered_world_def)
  from merge_numbers_count_merges[OF numbered_reachable, of 1 "js ''main''" sp] sp show ?thesis by (auto simp: list_all_iff split: if_splits)
qed

end
