(* ===== verification/Domain_Anchor.thy ===== *)
theory Domain_Anchor
  imports PRS_Prelude
begin

text \<open>
  The two ends of a range as a user writes them (\<open>packages/domain/src/anchor.ts\<close>): a sequence
  number, a pull request, a commit, an instant or a release. Reading and printing of dates are
  parameters; an invalid anchor carries its problem in place of the message, an ambiguous one its readings.
\<close>

definition MIN_ANCHOR_SHA_LENGTH :: nat where
  "MIN_ANCHOR_SHA_LENGTH = 7"

definition MAX_ANCHOR_NUMBER :: nat where
  "MAX_ANCHOR_NUMBER = 2147483647"

datatype anchor_position = From_anchor | To_anchor

datatype anchor_reading = As_pull_request | As_sequence | As_commit_prefix

datatype anchor_problem = Empty_anchor | Sequence_out_of_range | Pull_request_out_of_range | Sha_too_long nat | Sha_too_short nat | Not_a_time

datatype anchor_expression =
    Sequence_anchor int
  | Pull_request_anchor int
  | Commit_anchor jstr bool
  | Time_anchor int
  | Release_anchor jstr
  | Ambiguous_anchor "anchor_reading list"
  | Invalid_anchor anchor_problem

definition positive_within :: "jstr \<Rightarrow> int option" where
  "positive_within s = (let n = dec_value s in if 1 \<le> n \<and> n \<le> MAX_ANCHOR_NUMBER then Some (int n) else None)"

text \<open>\<open>/^(?:seq:|@)(\d+)$/i\<close> and \<open>/^#(\d+)$/\<close>: the digits, if the text has the form.\<close>

definition sequence_expression :: "jstr \<Rightarrow> jstr option" where
  "sequence_expression s =
     (if to_lower (take 4 s) = js ''seq:'' \<and> all_digits (drop 4 s) then Some (drop 4 s)
      else case s of [] \<Rightarrow> None | c # d \<Rightarrow> if c = ch CHR ''@'' \<and> all_digits d then Some d else None)"

definition pr_expression :: "jstr \<Rightarrow> jstr option" where
  "pr_expression s = (case s of [] \<Rightarrow> None | c # d \<Rightarrow> if c = ch CHR ''#'' \<and> all_digits d then Some d else None)"

definition line_end :: "unit16 \<Rightarrow> bool" where
  "line_end c \<longleftrightarrow> c = 10 \<or> c = 13 \<or> c = 8232 \<or> c = 8233"

text \<open>\<open>/^\d{4}-\d{2}-\d{2}(?:[T ].*)?$/\<close>.\<close>

definition date_like :: "jstr \<Rightarrow> bool" where
  "date_like s \<longleftrightarrow>
     digits_of_length 4 (take 4 s) \<and> take 1 (drop 4 s) = js ''-'' \<and> digits_of_length 2 (take 2 (drop 5 s)) \<and>
     take 1 (drop 7 s) = js ''-'' \<and> digits_of_length 2 (take 2 (drop 8 s)) \<and>
     (case drop 10 s of [] \<Rightarrow> True | c # rest \<Rightarrow> (c = ch CHR ''T'' \<or> c = 32) \<and> \<not> list_ex line_end rest)"

definition classify_anchor :: "(jstr \<Rightarrow> int option) \<Rightarrow> jstr \<Rightarrow> anchor_expression" where
  "classify_anchor parse_date s =
     (let input = trim s in
      if input = [] then Invalid_anchor Empty_anchor
      else case sequence_expression input of
        Some d \<Rightarrow> (case positive_within d of None \<Rightarrow> Invalid_anchor Sequence_out_of_range | Some n \<Rightarrow> Sequence_anchor n)
      | None \<Rightarrow>
          (case pr_expression input of
             Some d \<Rightarrow> (case positive_within d of None \<Rightarrow> Invalid_anchor Pull_request_out_of_range | Some n \<Rightarrow> Pull_request_anchor n)
           | None \<Rightarrow>
               if all_digits input
               then Ambiguous_anchor ([As_pull_request, As_sequence] @ (if length input \<ge> MIN_ANCHOR_SHA_LENGTH then [As_commit_prefix] else []))
               else if list_all is_hex_any input
               then (if length input > 40 then Invalid_anchor (Sha_too_long (length input))
                     else if length input < MIN_ANCHOR_SHA_LENGTH then Invalid_anchor (Sha_too_short (length input))
                     else Commit_anchor (to_lower input) (length input = 40))
               else if date_like input
               then (case parse_date input of None \<Rightarrow> Invalid_anchor Not_a_time | Some t \<Rightarrow> Time_anchor t)
               else Release_anchor input))"

fun inclusive_boundary :: "anchor_position \<Rightarrow> bool" where
  "inclusive_boundary From_anchor = False"
| "inclusive_boundary To_anchor = True"

section \<open>An anchor is not guessed\<close>

lemma hex_to_lower: "list_all is_hex_any s \<Longrightarrow> list_all is_hex_lower (to_lower s)"
  by (induction s) (auto simp: to_lower_def lower_unit_def is_hex_any_def is_hex_lower_def is_upper_def is_digit_def word_le_nat_alt unat_word_ariths(1))

lemma positive_within_bounds: "positive_within d = Some n \<Longrightarrow> 1 \<le> n \<and> n \<le> int MAX_ANCHOR_NUMBER"
  by (auto simp: positive_within_def Let_def split: if_splits)

lemma positive_within_show: "1 \<le> n \<Longrightarrow> n \<le> MAX_ANCHOR_NUMBER \<Longrightarrow> positive_within (show_nat n) = Some (int n)"
  by (simp add: positive_within_def)

text \<open>An anchor is read in one way only, and a bare number in none: each reading fixes the form of the text, with
  numbers between 1 and the largest one of the database, commits as 7 to 40 lower-case hexadecimal digits, complete or
  not, and a text of digits alone is reported with its possible readings.\<close>

theorem anchor_reading_exact:
  "case classify_anchor parse_date s of
     Sequence_anchor n \<Rightarrow> sequence_expression (trim s) \<noteq> None \<and> 1 \<le> n \<and> n \<le> int MAX_ANCHOR_NUMBER
   | Pull_request_anchor n \<Rightarrow> pr_expression (trim s) \<noteq> None \<and> 1 \<le> n \<and> n \<le> int MAX_ANCHOR_NUMBER
   | Commit_anchor sha complete \<Rightarrow>
       sha = to_lower (trim s) \<and> list_all is_hex_lower sha \<and> \<not> all_digits (trim s) \<and> 7 \<le> length sha \<and> length sha \<le> 40 \<and>
       complete = (length sha = 40)
   | Time_anchor t \<Rightarrow> date_like (trim s) \<and> parse_date (trim s) = Some t
   | Release_anchor tag \<Rightarrow> tag = trim s \<and> tag \<noteq> [] \<and> \<not> list_all is_hex_any tag \<and> \<not> date_like tag
   | Ambiguous_anchor readings \<Rightarrow> all_digits (trim s) \<and> length readings \<ge> 2
   | Invalid_anchor problem \<Rightarrow> True"
  by (auto simp: classify_anchor_def Let_def MIN_ANCHOR_SHA_LENGTH_def hex_to_lower dest: positive_within_bounds
      split: option.splits)

end
