(* ===== verification/Db_Bisect.thy ===== *)
theory Db_Bisect
  imports Db_SequenceSpace
begin

text \<open>
  Sessions that look for the commit that broke a branch, kept by user and branch
  (\<open>packages/db/src/repositories/bisect-session.ts\<close>). The function runs in one transaction under a lock of the
  user and the branch; it reads the sequence and writes the sessions. The identifiers come from a sequence of the
  database and are compared as text.
\<close>

section \<open>Sessions\<close>

record bisect_row =
  bs_id :: nat
  bs_user :: jstr
  bs_repository :: int
  bs_branch :: jstr
  bs_epoch :: int
  bs_good :: int
  bs_bad :: int
  bs_updated :: int

record bisect_db =
  bx_sessions :: "bisect_row list"
  bx_next :: nat

record bisect_point =
  bp_seq :: int
  bp_sha :: jstr
  bp_pr :: "int option"

record bisect_view =
  bv_id :: jstr
  bv_epoch :: int
  bv_good :: int
  bv_bad :: int
  bv_stale :: bool
  bv_remaining :: "nat option"
  bv_steps :: "nat option"
  bv_next :: "bisect_point option"
  bv_result :: "bisect_point option"
  bv_converged :: bool

datatype mark_verdict = Good | Bad

datatype bisect_action =
    Read_session
  | Start_session int int int
  | Mark_session int jstr int mark_verdict
  | Reset_session jstr

datatype bisect_refusal = Empty_interval | No_endpoints | No_point

datatype bisect_outcome =
    Bisect_ok int "bisect_view option"
  | Bisect_missing
  | Bisect_stale int
  | Session_missing
  | Bisect_invalid bisect_refusal
  | Bisect_contradiction int int

definition bisect_key :: "bisect_row \<Rightarrow> jstr \<times> int \<times> jstr" where
  "bisect_key b = (bs_user b, bs_repository b, bs_branch b)"

definition session_text :: "bisect_row \<Rightarrow> jstr" where
  "session_text b = show_nat (bs_id b)"

section \<open>The view of a session\<close>

text \<open>The positions after the last good one, up to the first bad one.\<close>

definition suspects :: "int \<Rightarrow> jstr \<Rightarrow> bisect_row \<Rightarrow> seq_db \<Rightarrow> merge_row list" where
  "suspects repository branch b db =
     filter (\<lambda>r. bs_good b < ms_seq r \<and> ms_seq r \<le> bs_bad b) (space_rows repository branch (bs_epoch b) db)"

text \<open>Twice the distance from the middle of the interval, then the position.\<close>

definition middle_key :: "bisect_row \<Rightarrow> merge_row \<Rightarrow> int \<times> int" where
  "middle_key b r = (\<bar>2 * ms_seq r - (bs_good b + bs_bad b)\<bar>, ms_seq r)"

definition middle_point :: "bool \<Rightarrow> bisect_row \<Rightarrow> merge_row list \<Rightarrow> bisect_point option" where
  "middle_point final b rows =
     map_option (\<lambda>r. \<lparr>bp_seq = ms_seq r, bp_sha = ms_sha r, bp_pr = ms_pr r\<rparr>)
       (first_of (sort_key (middle_key b) (filter (\<lambda>r. final \<or> ms_seq r < bs_bad b) rows)))"

text \<open>\<open>Math.ceil(Math.log2(n))\<close> for a positive \<open>n\<close>.\<close>

fun ceil_log2 :: "nat \<Rightarrow> nat" where
  "ceil_log2 n = (if n \<le> 1 then 0 else Suc (ceil_log2 ((n + 1) div 2)))"

declare ceil_log2.simps [simp del]

definition bisect_view_of :: "int \<Rightarrow> jstr \<Rightarrow> bisect_row \<Rightarrow> int \<Rightarrow> bool \<Rightarrow> seq_db \<Rightarrow> bisect_view" where
  "bisect_view_of repository branch b epoch reassigning db =
     (if bs_epoch b \<noteq> epoch \<or> reassigning
      then \<lparr>bv_id = session_text b, bv_epoch = bs_epoch b, bv_good = bs_good b, bv_bad = bs_bad b, bv_stale = True,
            bv_remaining = None, bv_steps = None, bv_next = None, bv_result = None, bv_converged = False\<rparr>
      else
        (let rows = suspects repository branch b db;
             remaining = length rows;
             point = middle_point (remaining = 1) b rows
         in \<lparr>bv_id = session_text b, bv_epoch = bs_epoch b, bv_good = bs_good b, bv_bad = bs_bad b, bv_stale = False,
             bv_remaining = Some remaining, bv_steps = Some (if remaining > 0 then ceil_log2 remaining else 0),
             bv_next = (if remaining > 1 then point else None), bv_result = (if remaining = 1 then point else None),
             bv_converged = (remaining = 1)\<rparr>))"

section \<open>Actions\<close>

definition find_session :: "jstr \<Rightarrow> int \<Rightarrow> jstr \<Rightarrow> bisect_db \<Rightarrow> bisect_row option" where
  "find_session user repository branch bx = find (\<lambda>b. bisect_key b = (user, repository, branch)) (bx_sessions bx)"

definition reset_session :: "jstr \<Rightarrow> int \<Rightarrow> jstr \<Rightarrow> jstr \<Rightarrow> bisect_db \<Rightarrow> bisect_db" where
  "reset_session user repository branch session bx =
     bx\<lparr>bx_sessions := filter (\<lambda>b. \<not> (bisect_key b = (user, repository, branch) \<and> session_text b = session)) (bx_sessions bx)\<rparr>"

definition rows_at :: "int \<Rightarrow> jstr \<Rightarrow> int \<Rightarrow> int list \<Rightarrow> seq_db \<Rightarrow> nat" where
  "rows_at repository branch epoch seqs db =
     length (filter (\<lambda>r. ms_seq r \<in> set seqs) (space_rows repository branch epoch db))"

definition add_session :: "jstr \<Rightarrow> int \<Rightarrow> jstr \<Rightarrow> int \<Rightarrow> int \<Rightarrow> int \<Rightarrow> int \<Rightarrow> bisect_db \<Rightarrow> bisect_db \<times> bisect_row" where
  "add_session user repository branch epoch from_seq to_seq now bx =
     (let b = \<lparr>bs_id = bx_next bx, bs_user = user, bs_repository = repository, bs_branch = branch, bs_epoch = epoch,
               bs_good = from_seq, bs_bad = to_seq, bs_updated = now\<rparr>
      in (bx\<lparr>bx_sessions := bx_sessions bx @ [b], bx_next := Suc (bx_next bx)\<rparr>, b))"

definition marked :: "bisect_row \<Rightarrow> int \<Rightarrow> mark_verdict \<Rightarrow> bisect_row" where
  "marked b seq v =
     (case v of Good \<Rightarrow> b\<lparr>bs_good := max (bs_good b) seq\<rparr> | Bad \<Rightarrow> b\<lparr>bs_bad := min (bs_bad b) seq\<rparr>)"

definition store_session :: "bisect_row \<Rightarrow> bisect_db \<Rightarrow> bisect_db" where
  "store_session b bx =
     bx\<lparr>bx_sessions := map (\<lambda>c. if bisect_key c = bisect_key b then b else c) (bx_sessions bx)\<rparr>"

text \<open>What a request of a user leaves: the outcome that stops it, or the session to show.\<close>

definition run_start ::
    "jstr \<Rightarrow> int \<Rightarrow> jstr \<Rightarrow> int \<Rightarrow> int \<Rightarrow> int \<Rightarrow> seq_db \<Rightarrow> bisect_db \<Rightarrow> (bisect_outcome, bisect_db \<times> bisect_row option) result" where
  "run_start user repository branch epoch from_seq to_seq db bx =
     (if from_seq \<ge> to_seq then Inl (Bisect_invalid Empty_interval)
      else if rows_at repository branch epoch (filter (\<lambda>n. n \<noteq> 0) [from_seq, to_seq]) db \<noteq> (if from_seq = 0 then 1 else 2)
      then Inl (Bisect_invalid No_endpoints)
      else Inr (map_prod id Some (add_session user repository branch epoch from_seq to_seq (db_now db) bx)))"

definition run_mark ::
    "int \<Rightarrow> jstr \<Rightarrow> int \<Rightarrow> bisect_row \<Rightarrow> int \<Rightarrow> mark_verdict \<Rightarrow> seq_db \<Rightarrow> bisect_db \<Rightarrow> (bisect_outcome, bisect_db \<times> bisect_row option) result" where
  "run_mark repository branch epoch b seq v db bx =
     (let b' = (marked b seq v)\<lparr>bs_updated := db_now db\<rparr> in
      if bs_good b' \<ge> bs_bad b' then Inl (Bisect_contradiction (bs_good b') (bs_bad b'))
      else if rows_at repository branch epoch [seq] db \<noteq> 1 then Inl (Bisect_invalid No_point)
      else Inr (store_session b' bx, Some b'))"

definition run_action ::
    "jstr \<Rightarrow> int \<Rightarrow> jstr \<Rightarrow> bisect_action \<Rightarrow> space_row \<Rightarrow> seq_db \<Rightarrow> bisect_db \<Rightarrow> (bisect_outcome, bisect_db \<times> bisect_row option) result" where
  "run_action user repository branch action sp db bx =
     (let stored = find_session user repository branch bx;
          stale = (\<lambda>epoch. epoch \<noteq> sp_epoch sp \<or> sp_state sp = Space_reassigning \<or>
                    (case stored of None \<Rightarrow> False | Some b \<Rightarrow> bs_epoch b \<noteq> sp_epoch sp))
      in case action of
           Reset_session session \<Rightarrow>
             if (case stored of None \<Rightarrow> False | Some b \<Rightarrow> session_text b \<noteq> session) then Inl Session_missing
             else Inr (reset_session user repository branch session bx, None)
         | Read_session \<Rightarrow> Inr (bx, stored)
         | Start_session epoch from_seq to_seq \<Rightarrow>
             if stale epoch then Inl (Bisect_stale (sp_epoch sp))
             else (case stored of
                 None \<Rightarrow> run_start user repository branch (sp_epoch sp) from_seq to_seq db bx
               | Some b \<Rightarrow> Inr (bx, Some b))
         | Mark_session epoch session seq v \<Rightarrow>
             if stale epoch then Inl (Bisect_stale (sp_epoch sp))
             else (case stored of
                 None \<Rightarrow> Inl Session_missing
               | Some b \<Rightarrow>
                   if session_text b \<noteq> session then Inl Session_missing
                   else run_mark repository branch (sp_epoch sp) b seq v db bx))"

definition apply_bisect_action ::
    "jstr \<Rightarrow> int \<Rightarrow> jstr \<Rightarrow> bisect_action \<Rightarrow> seq_db \<Rightarrow> bisect_db \<Rightarrow> bisect_outcome \<times> bisect_db" where
  "apply_bisect_action user repository branch action db bx =
     (case find_sequence_space repository branch db of
        None \<Rightarrow> (Bisect_missing, bx)
      | Some sp \<Rightarrow>
          (case run_action user repository branch action sp db bx of
             Inl out \<Rightarrow> (out, bx)
           | Inr (bx', stored) \<Rightarrow>
               (Bisect_ok (sp_epoch sp)
                  (map_option (\<lambda>b. bisect_view_of repository branch b (sp_epoch sp) (sp_state sp = Space_reassigning) db) stored),
                bx')))"

section \<open>Intervals without gaps\<close>

definition gapless :: "int \<Rightarrow> jstr \<Rightarrow> int \<Rightarrow> int \<Rightarrow> seq_db \<Rightarrow> bool" where
  "gapless repository branch epoch head db \<longleftrightarrow>
     distinct (map ms_seq (space_rows repository branch epoch db)) \<and> ms_seq ` set (space_rows repository branch epoch db) = {1..head}"

lemma length_by_seqs:
  assumes "distinct (map ms_seq rows)" "ms_seq ` set rows = S"
  shows "length rows = card S"
  using distinct_card[OF assms(1)] assms(2) by simp

lemma suspects_gapless:
  assumes "gapless repository branch (bs_epoch b) head db" "0 \<le> bs_good b" "bs_bad b \<le> head"
  shows "ms_seq ` set (suspects repository branch b db) = {bs_good b + 1..bs_bad b}"
    and "length (suspects repository branch b db) = nat (bs_bad b - bs_good b)"
proof -
  let ?rows = "space_rows repository branch (bs_epoch b) db"
  have seqs: "ms_seq ` set ?rows = {1..head}" and dist: "distinct (map ms_seq ?rows)"
    using assms(1) by (simp_all add: gapless_def)
  have "ms_seq ` set (suspects repository branch b db) = {n \<in> ms_seq ` set ?rows. bs_good b < n \<and> n \<le> bs_bad b}"
    by (auto simp: suspects_def)
  also have "\<dots> = {bs_good b + 1..bs_bad b}" unfolding seqs using assms(2,3) by auto
  finally show *: "ms_seq ` set (suspects repository branch b db) = {bs_good b + 1..bs_bad b}" .
  have "distinct (map ms_seq (suspects repository branch b db))" using dist by (simp add: suspects_def distinct_map_filter)
  from length_by_seqs[OF this *] show "length (suspects repository branch b db) = nat (bs_bad b - bs_good b)" by simp
qed

lemma rows_at_gapless:
  assumes "gapless repository branch epoch head db"
  shows "rows_at repository branch epoch seqs db = card (set seqs \<inter> {1..head})"
proof -
  let ?rows = "space_rows repository branch epoch db"
  have seqs: "ms_seq ` set ?rows = {1..head}" and dist: "distinct (map ms_seq ?rows)" using assms by (simp_all add: gapless_def)
  have "distinct (map ms_seq (filter (\<lambda>r. ms_seq r \<in> set seqs) ?rows))" using dist by (simp add: distinct_map_filter)
  moreover have "ms_seq ` set (filter (\<lambda>r. ms_seq r \<in> set seqs) ?rows) = set seqs \<inter> ms_seq ` set ?rows" by auto
  ultimately show ?thesis unfolding rows_at_def using length_by_seqs seqs by metis
qed

text \<open>The proposal is the middle of the interval, rounded down, and the only suspect left is the first bad position.\<close>

lemma middle_point_gapless:
  assumes "gapless repository branch (bs_epoch b) head db" "0 \<le> bs_good b" "bs_bad b \<le> head" "bs_good b + 1 < bs_bad b"
  shows "map_option bp_seq (middle_point False b (suspects repository branch b db)) = Some ((bs_good b + bs_bad b) div 2)"
proof -
  let ?rows = "filter (\<lambda>r. ms_seq r < bs_bad b) (suspects repository branch b db)"
  let ?m = "(bs_good b + bs_bad b) div 2"
  have seqs: "ms_seq ` set ?rows = {bs_good b + 1..<bs_bad b}"
  proof -
    have "ms_seq ` set ?rows = {n \<in> ms_seq ` set (suspects repository branch b db). n < bs_bad b}" by auto
    also have "\<dots> = {bs_good b + 1..<bs_bad b}" unfolding suspects_gapless(1)[OF assms(1-3)] by auto
    finally show ?thesis .
  qed
  have "?rows \<noteq> []" using seqs assms(4) by fastforce
  then obtain r where r: "first_of (sort_key (middle_key b) ?rows) = Some r" using first_of_sort_key_exists by blast
  have "?m \<in> ms_seq ` set ?rows" unfolding seqs using assms(4) by auto
  then obtain m where m: "m \<in> set ?rows" "ms_seq m = ?m" by auto
  from first_of_sort_key(2)[OF r m(1)]
  have "\<bar>2 * ms_seq r - (bs_good b + bs_bad b)\<bar> < \<bar>2 * ?m - (bs_good b + bs_bad b)\<bar> \<or>
      \<bar>2 * ms_seq r - (bs_good b + bs_bad b)\<bar> = \<bar>2 * ?m - (bs_good b + bs_bad b)\<bar> \<and> ms_seq r \<le> ?m"
    by (auto simp: middle_key_def less_eq_prod_def m(2))
  then have "ms_seq r = ?m" by (cases "even (bs_good b + bs_bad b)") (auto elim!: evenE oddE)
  with r show ?thesis by (simp add: middle_point_def)
qed

lemma last_point_gapless:
  assumes "gapless repository branch (bs_epoch b) head db" "0 \<le> bs_good b" "bs_bad b \<le> head" "bs_good b + 1 = bs_bad b"
  shows "map_option bp_seq (middle_point True b (suspects repository branch b db)) = Some (bs_bad b)"
proof -
  have seqs: "ms_seq ` set (suspects repository branch b db) = {bs_bad b}"
    using suspects_gapless(1)[OF assms(1-3)] assms(4) by simp
  then have "suspects repository branch b db \<noteq> []" by auto
  then obtain r where r: "first_of (sort_key (middle_key b) (suspects repository branch b db)) = Some r"
    using first_of_sort_key_exists by blast
  have "ms_seq r = bs_bad b" using first_of_sort_key(1)[OF r] seqs by auto
  with r show ?thesis by (simp add: middle_point_def)
qed

lemma ceil_log2_le: "n \<le> 2 ^ k \<longleftrightarrow> ceil_log2 n \<le> k"
proof (induction n arbitrary: k rule: ceil_log2.induct)
  case (1 n)
  show ?case
  proof (cases "n \<le> 1")
    case True
    then have "n \<le> 2 ^ k" using one_le_power[of 2 k] by (meson le_trans one_le_numeral)
    then show ?thesis using True by (simp add: ceil_log2.simps)
  next
    case False
    show ?thesis
    proof (cases k)
      case (Suc j)
      have "n \<le> 2 ^ Suc j \<longleftrightarrow> (n + 1) div 2 \<le> 2 ^ j" by auto
      with 1[OF False, of j] Suc False show ?thesis by (simp add: ceil_log2.simps[of n])
    qed (use False in \<open>simp add: ceil_log2.simps[of n]\<close>)
  qed
qed

end
