(* ===== verification/Bisect_Runs.thy ===== *)
theory Bisect_Runs
  imports Worker_Rows Worker_Covered Db_Bisect
begin

text \<open>
  Users look for the commit that broke a branch (\<open>packages/db/src/repositories/bisect-session.ts\<close>) while the workers
  number and renumber it. A step is a step of the workers or one action of one user, which is one transaction.
\<close>

record bisect_system =
  bz_system :: system
  bz_sessions :: bisect_db

definition bz_db :: "bisect_system \<Rightarrow> seq_db" where
  "bz_db s = wk_seq (working (bz_system s))"

inductive bisect_step :: "commit_links \<Rightarrow> bisect_system \<Rightarrow> bisect_system \<Rightarrow> bool" for objects where
  Worker_step: "seq_step objects (bz_system s) sys \<Longrightarrow> bisect_step objects s (s\<lparr>bz_system := sys\<rparr>)"
| User_action:
    "bisect_step objects s (s\<lparr>bz_sessions := snd (apply_bisect_action user repository branch action (bz_db s) (bz_sessions s))\<rparr>)"

inductive_cases bisect_stepE: "bisect_step objects s s'"

definition new_bisect_system :: "int \<Rightarrow> bisect_system" where
  "new_bisect_system now = \<lparr>bz_system = new_system now, bz_sessions = \<lparr>bx_sessions = [], bx_next = 1\<rparr>\<rparr>"

section \<open>What a session keeps\<close>

text \<open>The interval of a session is not empty and ends at a commit of its epoch.\<close>

definition session_ok :: "seq_db \<Rightarrow> bisect_row \<Rightarrow> bool" where
  "session_ok db b \<longleftrightarrow>
     0 \<le> bs_good b \<and> bs_good b < bs_bad b \<and>
     (bs_repository b, bs_branch b, bs_epoch b, bs_bad b) \<in> pk_of ` set (merges db)"

definition sessions_ok :: "seq_db \<Rightarrow> bisect_db \<Rightarrow> bool" where
  "sessions_ok db bx \<longleftrightarrow> distinct (map bisect_key (bx_sessions bx)) \<and> (\<forall>b \<in> set (bx_sessions bx). session_ok db b)"

definition bisect_inv :: "commit_links \<Rightarrow> bisect_system \<Rightarrow> bool" where
  "bisect_inv objects s \<longleftrightarrow> system_inv objects (bz_system s) \<and> sessions_ok (bz_db s) (bz_sessions s)"

lemma find_session_Some:
  "find_session user repository branch bx = Some b \<Longrightarrow> b \<in> set (bx_sessions bx) \<and> bisect_key b = (user, repository, branch)"
  by (auto simp: find_session_def find_Some_iff)

lemma find_session_None: "find_session user repository branch bx = None \<Longrightarrow> (user, repository, branch) \<notin> bisect_key ` set (bx_sessions bx)"
  by (auto simp: find_session_def find_None_iff)

lemma session_ok_rows:
  assumes "session_ok db b" "rows_kept db db'"
  shows "session_ok db' b"
proof -
  from assms(1) obtain r where "r \<in> set (merges db)" "pk_of r = (bs_repository b, bs_branch b, bs_epoch b, bs_bad b)"
    by (auto simp: session_ok_def)
  with assms(2) obtain r' where "r' \<in> set (merges db')" "pk_of r' = (bs_repository b, bs_branch b, bs_epoch b, bs_bad b)"
    unfolding rows_kept_def kept_row_def by metis
  then have "(bs_repository b, bs_branch b, bs_epoch b, bs_bad b) \<in> pk_of ` set (merges db')" by (metis imageI)
  with assms(1) show ?thesis by (simp add: session_ok_def)
qed

lemma sessions_ok_rows: "sessions_ok db bx \<Longrightarrow> rows_kept db db' \<Longrightarrow> sessions_ok db' bx"
  by (auto simp: sessions_ok_def intro: session_ok_rows)

lemma space_gapless:
  assumes "seq_inv history db" "find_sequence_space repository branch db = Some sp"
  shows "gapless repository branch (sp_epoch sp) (sp_head_seq sp) db"
  using space_keys_distinct(1)[OF seq_invD(1)[OF assms(1)]] space_seqs[OF assms] by (simp add: gapless_def)

lemma rows_at_present:
  assumes "rows_at repository branch epoch [seq] db > 0"
  shows "(repository, branch, epoch, seq) \<in> pk_of ` set (merges db)"
proof -
  from assms obtain r where "r \<in> set (space_rows repository branch epoch db)" "ms_seq r = seq"
    by (auto simp: rows_at_def filter_empty_conv)
  then show ?thesis by (auto simp: space_rows_def in_space_def pk_of_def intro!: image_eqI[of _ _ r])
qed

lemma started_ok:
  assumes "gapless repository branch epoch head db" "run_start user repository branch epoch from_seq to_seq db bx = Inr (bx', stored)"
    and "sessions_ok db bx" "find_session user repository branch bx = None"
  shows "sessions_ok db bx'"
proof -
  have bounds: "from_seq < to_seq" "card (set (filter (\<lambda>n. n \<noteq> 0) [from_seq, to_seq]) \<inter> {1..head}) = (if from_seq = 0 then 1 else 2)"
    and bx': "bx' = fst (add_session user repository branch epoch from_seq to_seq (db_now db) bx)"
    using assms(2) by (auto simp: run_start_def rows_at_gapless[OF assms(1)] prod_eq_iff split: if_splits)
  have "0 \<le> from_seq \<and> to_seq \<in> {1..head}"
  proof (cases "from_seq = 0")
    case False
    have "card (set (filter (\<lambda>n. n \<noteq> 0) [from_seq, to_seq]) \<inter> {1..head}) = 2" using bounds(2) False by simp
    moreover have "set (filter (\<lambda>n. n \<noteq> 0) [from_seq, to_seq]) \<inter> {1..head} \<subseteq> {from_seq, to_seq} \<inter> {1..head}" by auto
    ultimately have "2 \<le> card ({from_seq, to_seq} \<inter> {1..head})" by (metis card_mono finite_Int finite.emptyI finite_insert)
    moreover have "card ({from_seq, to_seq} \<inter> {1..head}) \<le> 1" if "from_seq \<notin> {1..head} \<or> to_seq \<notin> {1..head}"
    proof -
      have "{from_seq, to_seq} \<inter> {1..head} \<subseteq> {to_seq} \<or> {from_seq, to_seq} \<inter> {1..head} \<subseteq> {from_seq}" using that by auto
      then show ?thesis by (metis card_mono card.empty card_insert_disjoint empty_iff finite.emptyI finite_insert One_nat_def)
    qed
    ultimately show ?thesis by fastforce
  next
    case True
    with bounds have "card ({to_seq} \<inter> {1..head}) = 1" by simp
    then show ?thesis using True by (cases "to_seq \<in> {1..head}") auto
  qed
  moreover from this assms(1) obtain r where "r \<in> set (space_rows repository branch epoch db)" "ms_seq r = to_seq"
    unfolding gapless_def by (metis imageE)
  then have "(repository, branch, epoch, to_seq) \<in> pk_of ` set (merges db)"
    by (auto simp: space_rows_def in_space_def pk_of_def intro!: image_eqI[of _ _ r])
  ultimately show ?thesis using assms(3) bounds(1) find_session_None[OF assms(4)] bx'
    by (auto simp: sessions_ok_def session_ok_def add_session_def Let_def bisect_key_def)
qed

lemma store_session_ok:
  assumes "sessions_ok db bx" "session_ok db b"
  shows "sessions_ok db (store_session b bx)"
proof -
  have keys: "map bisect_key (bx_sessions (store_session b bx)) = map bisect_key (bx_sessions bx)" by (simp add: store_session_def)
  show ?thesis unfolding sessions_ok_def keys using assms by (auto simp: sessions_ok_def store_session_def)
qed

lemma mark_ok:
  assumes "run_mark repository branch epoch b seq v db bx = Inr (bx', stored)" "sessions_ok db bx"
    and "find_session user repository branch bx = Some b" "bs_epoch b = epoch"
  shows "sessions_ok db bx'"
proof -
  let ?b = "(marked b seq v)\<lparr>bs_updated := db_now db\<rparr>"
  from assms(1) have b': "bx' = store_session ?b bx" "bs_good ?b < bs_bad ?b" "rows_at repository branch epoch [seq] db = 1"
    by (auto simp: run_mark_def Let_def split: if_splits)
  from find_session_Some[OF assms(3)] assms(2) have ok: "session_ok db b" and key: "bisect_key b = (user, repository, branch)"
    by (auto simp: sessions_ok_def)
  from b'(3) have "(repository, branch, epoch, seq) \<in> pk_of ` set (merges db)" by (intro rows_at_present) simp
  then have "session_ok db ?b" using ok b'(2) key assms(4)
    by (cases v) (auto simp: session_ok_def marked_def bisect_key_def min_def max_def)
  then show ?thesis unfolding b'(1) by (rule store_session_ok[OF assms(2)])
qed

lemma reset_ok: "sessions_ok db bx \<Longrightarrow> sessions_ok db (reset_session user repository branch session bx)"
  by (auto simp: sessions_ok_def reset_session_def distinct_map_filter)

lemma action_ok:
  assumes "seq_inv history db" "sessions_ok db bx"
  shows "sessions_ok db (snd (apply_bisect_action user repository branch action db bx))"
proof (cases "find_sequence_space repository branch db")
  case (Some sp)
  show ?thesis
  proof (cases "run_action user repository branch action sp db bx")
    case (Inr x)
    then obtain bx' stored where x: "run_action user repository branch action sp db bx = Inr (bx', stored)" by (metis prod.collapse)
    have "sessions_ok db bx'"
    proof (cases action)
      case (Start_session epoch from_seq to_seq)
      with x assms(2) show ?thesis
        by (auto simp: run_action_def Let_def split: if_splits option.splits
            intro: started_ok[OF space_gapless[OF assms(1) Some] _ assms(2)])
    next
      case (Mark_session epoch session seq v)
      with x assms(2) show ?thesis
        by (auto simp: run_action_def Let_def split: if_splits option.splits intro: mark_ok)
    qed (use x assms(2) in \<open>auto simp: run_action_def Let_def reset_ok split: if_splits option.splits\<close>)
    with Some x show ?thesis by (simp add: apply_bisect_action_def)
  qed (use Some assms(2) in \<open>simp add: apply_bisect_action_def\<close>)
qed (use assms(2) in \<open>simp add: apply_bisect_action_def\<close>)

lemma worker_step_inv:
  assumes "bisect_inv objects s" "seq_step objects (bz_system s) sys"
  shows "bisect_inv objects (s\<lparr>bz_system := sys\<rparr>)"
  using assms(1) system_inv_step[OF assms(2)] sessions_ok_rows[OF _ step_keeps_rows[OF assms(2)]]
  by (simp add: bisect_inv_def bz_db_def)

lemma user_action_inv:
  assumes "bisect_inv objects s"
  shows "bisect_inv objects (s\<lparr>bz_sessions := snd (apply_bisect_action user repository branch action (bz_db s) (bz_sessions s))\<rparr>)"
proof -
  from assms have "seq_inv (history_of objects) (bz_db s)" by (simp add: bisect_inv_def system_inv_def bz_db_def)
  from action_ok[OF this] assms show ?thesis by (simp add: bisect_inv_def bz_db_def)
qed

lemma bisect_inv_step: "bisect_inv objects s \<Longrightarrow> bisect_step objects s s' \<Longrightarrow> bisect_inv objects s'"
  by (auto elim!: bisect_stepE intro: worker_step_inv user_action_inv)

interpretation bisect_runs: invariant_system "\<lambda>s. \<exists>now. s = new_bisect_system now" "bisect_step objects" "bisect_inv objects" for objects
proof
  fix s assume "\<exists>now. s = new_bisect_system now"
  then obtain now where s: "s = new_bisect_system now" ..
  have "system_inv objects (new_system now)" by (rule sequence_runs.init_inv) blast
  then show "bisect_inv objects s" by (simp add: s bisect_inv_def new_bisect_system_def sessions_ok_def)
qed (rule bisect_inv_step)

section \<open>Following the proposals\<close>

text \<open>A user who marks every proposal as it is, at most \<open>k\<close> of them.\<close>

fun follow_proposals :: "(int \<Rightarrow> bool) \<Rightarrow> jstr \<Rightarrow> int \<Rightarrow> jstr \<Rightarrow> seq_db \<Rightarrow> nat \<Rightarrow> bisect_db \<Rightarrow> bisect_db" where
  "follow_proposals broken user repository branch db 0 bx = bx"
| "follow_proposals broken user repository branch db (Suc k) bx =
     (case fst (apply_bisect_action user repository branch Read_session db bx) of
        Bisect_ok epoch (Some v) \<Rightarrow>
          (case bv_next v of
             None \<Rightarrow> bx
           | Some p \<Rightarrow>
               follow_proposals broken user repository branch db k
                 (snd (apply_bisect_action user repository branch
                   (Mark_session epoch (bv_id v) (bp_seq p) (if broken (bp_seq p) then Bad else Good)) db bx)))
      | _ \<Rightarrow> bx)"

text \<open>A session of the current epoch whose interval holds the first bad position.\<close>

definition hunting :: "(int \<Rightarrow> bool) \<Rightarrow> space_row \<Rightarrow> bisect_row \<Rightarrow> bool" where
  "hunting broken sp b \<longleftrightarrow>
     bs_epoch b = sp_epoch sp \<and> 0 \<le> bs_good b \<and> bs_good b < bs_bad b \<and> bs_bad b \<le> sp_head_seq sp \<and>
     \<not> broken (bs_good b) \<and> broken (bs_bad b)"

lemma find_session_store:
  assumes "find_session user repository branch bx = Some b" "bisect_key b' = bisect_key b"
  shows "find_session user repository branch (store_session b' bx) = Some b'"
proof -
  have key: "bisect_key b' = (user, repository, branch)" using find_session_Some[OF assms(1)] assms(2) by simp
  have "find (\<lambda>c. bisect_key c = k) xs = Some b \<Longrightarrow> bisect_key b' = k \<Longrightarrow>
      find (\<lambda>c. bisect_key c = k) (map (\<lambda>c. if bisect_key c = k then b' else c) xs) = Some b'" for xs k
    by (induction xs) (auto split: if_splits)
  from this[OF assms(1)[unfolded find_session_def] key] show ?thesis by (simp add: find_session_def store_session_def key)
qed

lemma read_session:
  assumes "find_sequence_space repository branch db = Some sp" "find_session user repository branch bx = Some b"
  shows "fst (apply_bisect_action user repository branch Read_session db bx) =
    Bisect_ok (sp_epoch sp) (Some (bisect_view_of repository branch b (sp_epoch sp) (sp_state sp = Space_reassigning) db))"
  using assms by (simp add: apply_bisect_action_def run_action_def)

lemma truthful_mark:
  assumes "gapless repository branch (sp_epoch sp) (sp_head_seq sp) db" "find_sequence_space repository branch db = Some sp"
    and "sp_state sp \<noteq> Space_reassigning" "find_session user repository branch bx = Some b" "hunting broken sp b"
    and "bs_good b < seq" "seq < bs_bad b"
  obtains b' where "find_session user repository branch (snd (apply_bisect_action user repository branch
      (Mark_session (sp_epoch sp) (session_text b) seq (if broken seq then Bad else Good)) db bx)) = Some b'"
    "hunting broken sp b'" "if broken seq then bs_good b' = bs_good b \<and> bs_bad b' = seq else bs_good b' = seq \<and> bs_bad b' = bs_bad b"
proof -
  let ?b = "(marked b seq (if broken seq then Bad else Good))\<lparr>bs_updated := db_now db\<rparr>"
  have new: "if broken seq then bs_good ?b = bs_good b \<and> bs_bad ?b = seq else bs_good ?b = seq \<and> bs_bad ?b = bs_bad b"
    using assms(6,7) by (simp add: marked_def)
  have hunt: "hunting broken sp ?b" using assms(5-7) by (auto simp: hunting_def marked_def)
  have "{seq} \<inter> {1..sp_head_seq sp} = {seq}" using assms(5-7) by (auto simp: hunting_def)
  then have "rows_at repository branch (sp_epoch sp) [seq] db = 1" unfolding rows_at_gapless[OF assms(1)] by simp
  moreover have "\<not> bs_good ?b \<ge> bs_bad ?b" using hunt by (simp add: hunting_def)
  ultimately have "snd (apply_bisect_action user repository branch
      (Mark_session (sp_epoch sp) (session_text b) seq (if broken seq then Bad else Good)) db bx) = store_session ?b bx"
    using assms(2-5) by (simp add: apply_bisect_action_def run_action_def run_mark_def hunting_def Let_def)
  moreover have "find_session user repository branch (store_session ?b bx) = Some ?b"
    by (rule find_session_store[OF assms(4)]) (simp add: marked_def bisect_key_def split: mark_verdict.split)
  ultimately show thesis using that hunt new by metis
qed

lemma follow_converges:
  assumes "gapless repository branch (sp_epoch sp) (sp_head_seq sp) db" "find_sequence_space repository branch db = Some sp"
    and "sp_state sp \<noteq> Space_reassigning"
  shows "find_session user repository branch bx = Some b \<Longrightarrow> hunting broken sp b \<Longrightarrow> nat (bs_bad b - bs_good b) \<le> 2 ^ k \<Longrightarrow>
    \<exists>b'. find_session user repository branch (follow_proposals broken user repository branch db k bx) = Some b' \<and>
      hunting broken sp b' \<and> bs_bad b' = bs_good b' + 1"
proof (induction k arbitrary: bx b)
  case 0
  then have "bs_bad b = bs_good b + 1" by (auto simp: hunting_def)
  with 0 show ?case by auto
next
  case (Suc k)
  let ?v = "bisect_view_of repository branch b (sp_epoch sp) (sp_state sp = Space_reassigning) db"
  have b: "bs_epoch b = sp_epoch sp" "0 \<le> bs_good b" "bs_good b < bs_bad b" "bs_bad b \<le> sp_head_seq sp"
    using Suc.prems(2) by (auto simp: hunting_def)
  note gap = assms(1)[folded b(1)]
  note len = suspects_gapless(2)[OF gap b(2,4)] and read = read_session[OF assms(2) Suc.prems(1)]
  show ?case
  proof (cases "bs_bad b = bs_good b + 1")
    case True
    then have "bv_next ?v = None" using len b(1) assms(3) by (simp add: bisect_view_of_def Let_def)
    then have "follow_proposals broken user repository branch db (Suc k) bx = bx" by (simp add: read)
    with True Suc.prems show ?thesis by auto
  next
    case False
    let ?m = "(bs_good b + bs_bad b) div 2"
    have m: "bs_good b < ?m" "?m < bs_bad b" using False b(3) by auto
    have many: "bs_good b + 1 < bs_bad b" using False b(3) by simp
    from middle_point_gapless[OF gap b(2,4) many] obtain p where p: "middle_point False b (suspects repository branch b db) = Some p" "bp_seq p = ?m"
      by auto
    have one: "(length (suspects repository branch b db) = 1) = False" "length (suspects repository branch b db) > 1"
      using len many by auto
    have v: "bv_next ?v = Some p" "bv_id ?v = session_text b"
      using one b(1) assms(3) p(1) by (auto simp: bisect_view_of_def Let_def)
    obtain b' where b': "find_session user repository branch (snd (apply_bisect_action user repository branch
        (Mark_session (sp_epoch sp) (session_text b) ?m (if broken ?m then Bad else Good)) db bx)) = Some b'"
      "hunting broken sp b'" "if broken ?m then bs_good b' = bs_good b \<and> bs_bad b' = ?m else bs_good b' = ?m \<and> bs_bad b' = bs_bad b"
      by (rule truthful_mark[OF assms Suc.prems(1,2) m])
    have small: "bs_bad b - bs_good b \<le> 2 * 2 ^ k" using Suc.prems(3) by (simp add: nat_le_iff)
    have "nat (bs_bad b' - bs_good b') \<le> 2 ^ k"
      using b'(3) small by (cases "broken ?m") (auto simp: nat_le_iff)
    from Suc.IH[OF b'(1,2) this] show ?thesis by (simp add: read v p(2))
  qed
qed

text \<open>C10: A search for the commit that broke a branch ends where it should. In every state reached by
  the workers and the users, whoever reads a session that is not stale, marks each proposed
  commit truthfully and does so as often as the session estimates, sees it converge, and its
  result is a broken commit whose predecessor is not broken. The ends the session was started
  with are truthful too, and the table does not move while the marks are made.\<close>

theorem bisect_finds_first_bad:
  assumes "reaches (\<lambda>s. \<exists>now. s = new_bisect_system now) (bisect_step objects) s"
    and "fst (apply_bisect_action user repository branch Read_session (bz_db s) (bz_sessions s)) = Bisect_ok epoch (Some v)"
    and "\<not> bv_stale v" "\<not> broken (bv_good v)" "broken (bv_bad v)"
  shows "\<exists>w f. fst (apply_bisect_action user repository branch Read_session (bz_db s)
      (follow_proposals broken user repository branch (bz_db s) (the (bv_steps v)) (bz_sessions s))) = Bisect_ok epoch (Some w) \<and>
      bv_converged w \<and> map_option bp_seq (bv_result w) = Some f \<and> broken f \<and> \<not> broken (f - 1)"
proof -
  let ?db = "bz_db s"
  from bisect_runs.reaches_inv[OF assms(1)] have inv: "seq_inv (history_of objects) ?db" "sessions_ok ?db (bz_sessions s)"
    by (simp_all add: bisect_inv_def system_inv_def bz_db_def)
  from assms(2) obtain sp b where sp: "find_sequence_space repository branch ?db = Some sp" "epoch = sp_epoch sp"
    and b: "find_session user repository branch (bz_sessions s) = Some b"
    and v: "v = bisect_view_of repository branch b (sp_epoch sp) (sp_state sp = Space_reassigning) ?db"
    by (auto simp: apply_bisect_action_def run_action_def split: option.splits)
  from v assms(3) have live: "sp_state sp \<noteq> Space_reassigning" "bs_epoch b = sp_epoch sp"
    by (auto simp: bisect_view_of_def split: if_splits)
  note gap = space_gapless[OF inv(1) sp(1)]
  from find_session_Some[OF b] inv(2) have ok: "session_ok ?db b" and key: "bisect_key b = (user, repository, branch)"
    by (auto simp: sessions_ok_def)
  from ok key live(2) obtain r where "r \<in> set (merges ?db)" "pk_of r = (repository, branch, sp_epoch sp, bs_bad b)"
    by (auto simp: session_ok_def bisect_key_def)
  then have "bs_bad b \<in> ms_seq ` set (space_rows repository branch (sp_epoch sp) ?db)"
    by (auto simp: space_rows_def in_space_def pk_of_def intro!: image_eqI[of _ _ r])
  then have "bs_bad b \<le> sp_head_seq sp" using gap by (auto simp: gapless_def)
  with ok live(2) assms(4,5) v have hunt: "hunting broken sp b"
    by (auto simp: hunting_def session_ok_def bisect_view_of_def Let_def split: if_splits)
  have len: "length (suspects repository branch b ?db) = nat (bs_bad b - bs_good b)"
    by (rule suspects_gapless(2)[OF gap[folded live(2)]]) (use hunt in \<open>auto simp: hunting_def\<close>)
  moreover have "suspects repository branch b ?db \<noteq> []" using len hunt by (auto simp: hunting_def)
  ultimately have "the (bv_steps v) = ceil_log2 (nat (bs_bad b - bs_good b))"
    using live by (simp add: v bisect_view_of_def Let_def)
  then have "nat (bs_bad b - bs_good b) \<le> 2 ^ the (bv_steps v)" by (simp add: ceil_log2_le)
  from follow_converges[OF gap sp(1) live(1) b hunt this] obtain b' where
    b': "find_session user repository branch (follow_proposals broken user repository branch ?db (the (bv_steps v)) (bz_sessions s)) = Some b'"
      "hunting broken sp b'" "bs_bad b' = bs_good b' + 1" by blast
  from b'(2) have hb: "bs_epoch b' = sp_epoch sp" "0 \<le> bs_good b'" "bs_bad b' \<le> sp_head_seq sp" "broken (bs_bad b')" "\<not> broken (bs_bad b' - 1)"
    using b'(3) by (auto simp: hunting_def)
  note gap' = gap[folded hb(1)]
  have "length (suspects repository branch b' ?db) = 1" using suspects_gapless(2)[OF gap' hb(2,3)] b'(3) by simp
  with last_point_gapless[OF gap' hb(2,3) b'(3)[symmetric]] hb(1,4,5) live(1) read_session[OF sp(1) b'(1)] sp(2)
  show ?thesis by (auto simp: bisect_view_of_def Let_def)
qed

text \<open>A user of the sample looks for the second commit.\<close>

definition hunted_system :: bisect_system where
  "hunted_system =
     \<lparr>bz_system = assigned_system,
      bz_sessions = snd (apply_bisect_action (js ''u'') 1 (js ''main'') (Start_session 1 0 2) (wk_seq (working assigned_system))
        \<lparr>bx_sessions = [], bx_next = 1\<rparr>)\<rparr>"

lemma workers_reach_bisect:
  "reaches (\<lambda>s. \<exists>now. s = new_system now) (seq_step objects) sys \<Longrightarrow>
    reaches (\<lambda>s. \<exists>now. s = new_bisect_system now) (bisect_step objects)
      \<lparr>bz_system = sys, bz_sessions = \<lparr>bx_sessions = [], bx_next = 1\<rparr>\<rparr>"
proof (induction rule: reaches.induct)
  case (start s)
  then obtain now where "s = new_system now" by blast
  then show ?case by (intro reaches.start) (auto simp: new_bisect_system_def)
next
  case (step s t)
  have "bisect_step objects \<lparr>bz_system = s, bz_sessions = \<lparr>bx_sessions = [], bx_next = 1\<rparr>\<rparr>
      (\<lparr>bz_system = s, bz_sessions = \<lparr>bx_sessions = [], bx_next = 1\<rparr>\<rparr>\<lparr>bz_system := t\<rparr>)"
    by (rule Worker_step) (simp add: step.hyps)
  then have "bisect_step objects \<lparr>bz_system = s, bz_sessions = \<lparr>bx_sessions = [], bx_next = 1\<rparr>\<rparr>
      \<lparr>bz_system = t, bz_sessions = \<lparr>bx_sessions = [], bx_next = 1\<rparr>\<rparr>" by simp
  with step.IH show ?case by (rule reaches.step)
qed

lemma hunted_reachable: "reaches (\<lambda>s. \<exists>now. s = new_bisect_system now) (bisect_step sample_objects) hunted_system"
proof -
  let ?s = "\<lparr>bz_system = assigned_system, bz_sessions = \<lparr>bx_sessions = [], bx_next = 1\<rparr>\<rparr>"
  have "hunted_system = ?s\<lparr>bz_sessions := snd (apply_bisect_action (js ''u'') 1 (js ''main'') (Start_session 1 0 2) (bz_db ?s) (bz_sessions ?s))\<rparr>"
    by (simp add: hunted_system_def bz_db_def)
  moreover have "bisect_step sample_objects ?s
      (?s\<lparr>bz_sessions := snd (apply_bisect_action (js ''u'') 1 (js ''main'') (Start_session 1 0 2) (bz_db ?s) (bz_sessions ?s))\<rparr>)"
    by (rule User_action)
  ultimately have "bisect_step sample_objects ?s hunted_system" by (simp only:)
  with workers_reach_bisect[OF assigned_reachable] show ?thesis by (rule reaches.step)
qed

lemma hunted_session:
  "map_option (\<lambda>b. (bs_epoch b, bs_good b, bs_bad b)) (find_session (js ''u'') 1 (js ''main'') (bz_sessions hunted_system)) = Some (1, 0, 2)"
proof -
  let ?db = "wk_seq (working assigned_system)"
  obtain sp where sp: "find_sequence_space 1 (js ''main'') ?db = Some sp" "sp_epoch sp = 1" "sp_head_seq sp = 2" "sp_state sp = Space_ok"
    using assigned_space by auto
  have "seq_inv (history_of sample_objects) ?db" using sequence_runs.reaches_inv[OF assigned_reachable] by (simp add: system_inv_def)
  from rows_at_gapless[OF space_gapless[OF this sp(1)], of "[2]"] have "rows_at 1 (js ''main'') 1 [2] ?db = 1" by (simp add: sp(2,3))
  then show ?thesis
    using sp by (simp add: hunted_system_def apply_bisect_action_def run_action_def run_start_def add_session_def find_session_def bisect_key_def Let_def
        del: js_Cons)
qed

theorem bisect_finds_first_bad_witness:
  "\<exists>k w. fst (apply_bisect_action (js ''u'') 1 (js ''main'') Read_session (bz_db hunted_system)
      (follow_proposals (\<lambda>n. 2 \<le> n) (js ''u'') 1 (js ''main'') (bz_db hunted_system) k (bz_sessions hunted_system))) = Bisect_ok 1 (Some w) \<and>
      bv_converged w \<and> map_option bp_seq (bv_result w) = Some 2"
proof -
  obtain sp where sp: "find_sequence_space 1 (js ''main'') (bz_db hunted_system) = Some sp" "sp_epoch sp = 1" "sp_state sp = Space_ok"
    using assigned_space by (auto simp: bz_db_def hunted_system_def)
  obtain b where b: "find_session (js ''u'') 1 (js ''main'') (bz_sessions hunted_system) = Some b" "bs_epoch b = 1" "bs_good b = 0" "bs_bad b = 2"
    using hunted_session by auto
  have "\<exists>w f. fst (apply_bisect_action (js ''u'') 1 (js ''main'') Read_session (bz_db hunted_system)
      (follow_proposals (\<lambda>n. 2 \<le> n) (js ''u'') 1 (js ''main'') (bz_db hunted_system)
        (the (bv_steps (bisect_view_of 1 (js ''main'') b (sp_epoch sp) (sp_state sp = Space_reassigning) (bz_db hunted_system))))
        (bz_sessions hunted_system))) = Bisect_ok (sp_epoch sp) (Some w) \<and>
      bv_converged w \<and> map_option bp_seq (bv_result w) = Some f \<and> 2 \<le> f \<and> \<not> 2 \<le> f - 1"
    by (rule bisect_finds_first_bad[OF hunted_reachable read_session[OF sp(1) b(1)]])
      (simp_all add: bisect_view_of_def Let_def sp(2,3) b(2-4))
  then obtain w f k where "fst (apply_bisect_action (js ''u'') 1 (js ''main'') Read_session (bz_db hunted_system)
      (follow_proposals (\<lambda>n. 2 \<le> n) (js ''u'') 1 (js ''main'') (bz_db hunted_system) k (bz_sessions hunted_system))) = Bisect_ok 1 (Some w)"
      "bv_converged w" "map_option bp_seq (bv_result w) = Some f" "f = 2" unfolding sp(2) by fastforce
  then show ?thesis by blast
qed

end
