(* ===== verification/Api_Space.thy ===== *)
theory Api_Space
  imports Db_SequenceSpace Es_Scoped_Query JSON_Value
begin

text \<open>
  Which repository and which sequence space a request of the search API is about
  (\<open>apps/search-api/src/sequence/space.ts\<close>), with the epoch it names. The conversion \<open>Number\<close> of a
  text is a parameter: its value when that is an integer.
\<close>

definition parse_repository_slug :: "json option \<Rightarrow> (jstr \<times> jstr) option" where
  "parse_repository_slug v =
     (case v of
        Some (J_string s) \<Rightarrow>
          (case split_on (ch CHR ''/'') (trim s) of
             [owner, name] \<Rightarrow> if owner = [] \<or> name = [] then None else Some (owner, name)
           | _ \<Rightarrow> None)
      | _ \<Rightarrow> None)"

record resolved_space =
  rs_repository :: int
  rs_branch :: jstr
  rs_epoch :: int
  rs_state :: space_state
  rs_head_seq :: int
  rs_label :: jstr

datatype 'a access = Accessible 'a | Not_found | Forbidden

definition find_repository_by_slug :: "jstr \<Rightarrow> jstr \<Rightarrow> seq_db \<Rightarrow> repository_row option" where
  "find_repository_by_slug owner name db = find (\<lambda>rp. rp_owner rp = owner \<and> rp_name rp = name) (repos db)"

definition scoped_of :: "repository_row \<Rightarrow> scoped_repository" where
  "scoped_of rp = \<lparr>sr_id = rp_id rp, sr_org = rp_org rp, sr_visibility = rp_visibility rp, sr_teams = rp_teams rp\<rparr>"

definition resolve_repository :: "jstr \<times> jstr \<Rightarrow> access_scope \<Rightarrow> seq_db \<Rightarrow> repository_row access" where
  "resolve_repository slug scope db =
     (case find_repository_by_slug (fst slug) (snd slug) db of
        None \<Rightarrow> Not_found
      | Some rp \<Rightarrow> if is_repository_in_scope (scoped_of rp) scope then Accessible rp else Forbidden)"

definition slug_label :: "jstr \<times> jstr \<Rightarrow> jstr \<Rightarrow> jstr" where
  "slug_label slug branch = fst slug @ js ''/'' @ snd slug @ js ''@'' @ branch"

definition resolve_space :: "jstr \<times> jstr \<Rightarrow> jstr \<Rightarrow> access_scope \<Rightarrow> seq_db \<Rightarrow> resolved_space access" where
  "resolve_space slug branch scope db =
     (case resolve_repository slug scope db of
        Not_found \<Rightarrow> Not_found
      | Forbidden \<Rightarrow> Forbidden
      | Accessible rp \<Rightarrow>
          (case find_sequence_space (rp_id rp) branch db of
             None \<Rightarrow> Not_found
           | Some sp \<Rightarrow>
               Accessible \<lparr>rs_repository = rp_id rp, rs_branch = branch, rs_epoch = sp_epoch sp, rs_state = sp_state sp,
                 rs_head_seq = sp_head_seq sp, rs_label = slug_label slug branch\<rparr>))"

definition is_epoch_stale :: "resolved_space \<Rightarrow> int option \<Rightarrow> bool" where
  "is_epoch_stale space requested \<longleftrightarrow> requested \<noteq> None \<and> requested \<noteq> Some (rs_epoch space)"

datatype epoch_param = Epoch_absent | Epoch_value int | Epoch_invalid

definition read_epoch_param :: "(jstr \<Rightarrow> int option) \<Rightarrow> json option \<Rightarrow> epoch_param" where
  "read_epoch_param number v =
     (case v of
        None \<Rightarrow> Epoch_absent
      | Some J_null \<Rightarrow> Epoch_absent
      | Some (J_string s) \<Rightarrow>
          if trim s = [] then Epoch_invalid
          else (case number s of Some n \<Rightarrow> if n < 1 then Epoch_invalid else Epoch_value n | None \<Rightarrow> Epoch_invalid)
      | _ \<Rightarrow> Epoch_invalid)"

lemma resolve_spaceD:
  assumes "resolve_space slug branch scope db = Accessible space"
  obtains rp sp where "rp \<in> set (repos db)" "is_repository_in_scope (scoped_of rp) scope" "rs_repository space = rp_id rp"
    "rs_branch space = branch" "find_sequence_space (rp_id rp) branch db = Some sp" "rs_epoch space = sp_epoch sp"
    "rs_head_seq space = sp_head_seq sp"
proof -
  from assms obtain rp sp where rp: "find_repository_by_slug (fst slug) (snd slug) db = Some rp" "is_repository_in_scope (scoped_of rp) scope"
    and sp: "find_sequence_space (rp_id rp) branch db = Some sp" "rs_repository space = rp_id rp" "rs_branch space = branch"
      "rs_epoch space = sp_epoch sp" "rs_head_seq space = sp_head_seq sp"
    by (auto simp: resolve_space_def resolve_repository_def split: access.splits option.splits if_splits)
  from rp(1) have "rp \<in> set (repos db)" by (auto simp: find_repository_by_slug_def find_Some_iff)
  with that rp(2) sp show thesis by blast
qed

end
