(* ===== verification/Db_SafeMarker.thy ===== *)
theory Db_SafeMarker
  imports Db_SequenceSpace Api_Space
begin

text \<open>
  The position of a branch that a user has marked as safe (\<open>packages/db/src/repositories/safe-marker.ts\<close>) and the
  requests that read and replace it (\<open>apps/search-api/src/sequence/safe-marker.ts\<close>). A marker is never changed, only
  superseded. The replacement is one transaction under a lock of the branch; the existence of the position is checked
  before it, in a transaction of its own.
\<close>

section \<open>The table\<close>

record marker_row =
  mk_id :: nat
  mk_repository :: int
  mk_branch :: jstr
  mk_epoch :: int
  mk_seq :: int
  mk_note :: "jstr option"
  mk_by :: jstr
  mk_at :: int
  mk_superseded :: "int option"

record marker_db =
  mx_rows :: "marker_row list"
  mx_next :: nat

definition SAFE_MARKER_NOTE_LIMIT :: nat where
  "SAFE_MARKER_NOTE_LIMIT = 500"

definition marker_space :: "marker_row \<Rightarrow> int \<times> jstr" where
  "marker_space m = (mk_repository m, mk_branch m)"

definition is_current :: "marker_row \<Rightarrow> bool" where
  "is_current m \<longleftrightarrow> mk_superseded m = None"

text \<open>The unique index on the markers that are not superseded, and the check of the notes.\<close>

definition markers_ok :: "marker_row list \<Rightarrow> bool" where
  "markers_ok rows \<longleftrightarrow> distinct (map marker_space (filter is_current rows)) \<and> list_all (\<lambda>m. at_most SAFE_MARKER_NOTE_LIMIT (mk_note m)) rows"

definition find_current_marker :: "int \<Rightarrow> jstr \<Rightarrow> marker_db \<Rightarrow> marker_row option" where
  "find_current_marker repository branch mx = find (\<lambda>m. marker_space m = (repository, branch) \<and> is_current m) (mx_rows mx)"

section \<open>Replacing the marker\<close>

record marker_input =
  mi_repository :: int
  mi_branch :: jstr
  mi_seq :: int
  mi_epoch :: int
  mi_note :: "jstr option"
  mi_by :: jstr
  mi_expected :: "int option"

datatype replace_outcome =
    Marker_unchanged marker_row
  | Marker_created marker_row "int option"
  | Marker_conflict "int option"
  | Marker_epoch_stale int
  | Marker_space_missing

definition superseded_rows :: "nat \<Rightarrow> int \<Rightarrow> marker_row list \<Rightarrow> marker_row list" where
  "superseded_rows marker now rows = map (\<lambda>m. if mk_id m = marker \<and> is_current m then m\<lparr>mk_superseded := Some now\<rparr> else m) rows"

definition new_marker :: "marker_input \<Rightarrow> nat \<Rightarrow> int \<Rightarrow> marker_row" where
  "new_marker i marker now =
     \<lparr>mk_id = marker, mk_repository = mi_repository i, mk_branch = mi_branch i, mk_epoch = mi_epoch i, mk_seq = mi_seq i,
      mk_note = mi_note i, mk_by = mi_by i, mk_at = now, mk_superseded = None\<rparr>"

definition is_same_marker :: "marker_input \<Rightarrow> marker_row \<Rightarrow> bool" where
  "is_same_marker i m \<longleftrightarrow> mk_seq m = mi_seq i \<and> mk_epoch m = mi_epoch i \<and> mk_note m = mi_note i"

text \<open>\<open>None\<close> raises: the new row violates a constraint, and the transaction is rolled back.\<close>

definition replace_marker :: "marker_input \<Rightarrow> seq_db \<Rightarrow> marker_db \<Rightarrow> (replace_outcome \<times> marker_db) option" where
  "replace_marker i db mx =
     (case find_sequence_space (mi_repository i) (mi_branch i) db of
        None \<Rightarrow> Some (Marker_space_missing, mx)
      | Some sp \<Rightarrow>
          if sp_epoch sp \<noteq> mi_epoch i then Some (Marker_epoch_stale (sp_epoch sp), mx)
          else
            (let current = find_current_marker (mi_repository i) (mi_branch i) mx;
                 current_seq = map_option mk_seq current
             in case current of
                  Some m \<Rightarrow>
                    if is_same_marker i m then Some (Marker_unchanged m, mx)
                    else if current_seq \<noteq> mi_expected i then Some (Marker_conflict current_seq, mx)
                    else
                      (let row = new_marker i (mx_next mx) (db_now db);
                           rows = superseded_rows (mk_id m) (db_now db) (mx_rows mx) @ [row]
                       in if markers_ok rows then Some (Marker_created row current_seq, mx\<lparr>mx_rows := rows, mx_next := Suc (mx_next mx)\<rparr>)
                          else None)
                | None \<Rightarrow>
                    if mi_expected i \<noteq> None then Some (Marker_conflict None, mx)
                    else
                      (let row = new_marker i (mx_next mx) (db_now db); rows = mx_rows mx @ [row]
                       in if markers_ok rows then Some (Marker_created row None, mx\<lparr>mx_rows := rows, mx_next := Suc (mx_next mx)\<rparr>)
                          else None)))"

section \<open>Requests\<close>

record marker_view =
  mw_seq :: int
  mw_epoch :: int
  mw_note :: "jstr option"
  mw_by :: jstr
  mw_at :: int
  mw_stale :: bool

definition to_marker_view :: "marker_row \<Rightarrow> int \<Rightarrow> marker_view" where
  "to_marker_view m epoch =
     \<lparr>mw_seq = mk_seq m, mw_epoch = mk_epoch m, mw_note = mk_note m, mw_by = mk_by m, mw_at = mk_at m,
      mw_stale = (mk_epoch m \<noteq> epoch)\<rparr>"

definition read_safe_marker :: "resolved_space \<Rightarrow> marker_db \<Rightarrow> jstr \<times> int \<times> marker_view option" where
  "read_safe_marker space mx =
     (rs_label space, rs_epoch space,
      map_option (\<lambda>m. to_marker_view m (rs_epoch space)) (find_current_marker (rs_repository space) (rs_branch space) mx))"

record write_input =
  wr_seq :: int
  wr_epoch :: int
  wr_note :: "jstr option"
  wr_expected :: "int option"
  wr_by :: jstr

datatype write_outcome =
    Write_epoch_stale int int
  | Write_space_missing
  | Write_sequence_not_found int int
  | Write_conflict "int option" "int option"
  | Write_unchanged marker_view
  | Write_created marker_view "int option"

definition marker_input_of :: "resolved_space \<Rightarrow> write_input \<Rightarrow> marker_input" where
  "marker_input_of space w =
     \<lparr>mi_repository = rs_repository space, mi_branch = rs_branch space, mi_seq = wr_seq w, mi_epoch = wr_epoch w,
      mi_note = wr_note w, mi_by = wr_by w, mi_expected = wr_expected w\<rparr>"

text \<open>The checks before the transaction: the outcome that stops the request, if there is one.\<close>

definition check_write :: "resolved_space \<Rightarrow> write_input \<Rightarrow> seq_db \<Rightarrow> write_outcome option" where
  "check_write space w db =
     (if wr_epoch w \<noteq> rs_epoch space then Some (Write_epoch_stale (rs_epoch space) (wr_epoch w))
      else if find_point_by_seq (rs_repository space) (rs_branch space) (rs_epoch space) (wr_seq w) db = None
      then Some (Write_sequence_not_found (wr_seq w) (wr_epoch w))
      else None)"

definition write_outcome_of :: "resolved_space \<Rightarrow> write_input \<Rightarrow> replace_outcome \<Rightarrow> write_outcome" where
  "write_outcome_of space w out =
     (case out of
        Marker_space_missing \<Rightarrow> Write_space_missing
      | Marker_epoch_stale e \<Rightarrow> Write_epoch_stale e (wr_epoch w)
      | Marker_unchanged m \<Rightarrow> Write_unchanged (to_marker_view m (rs_epoch space))
      | Marker_conflict current \<Rightarrow> Write_conflict current (wr_expected w)
      | Marker_created m replaced \<Rightarrow> Write_created (to_marker_view m (rs_epoch space)) replaced)"

text \<open>The point is looked up in \<open>before\<close>, and the transaction sees \<open>db\<close>.\<close>

definition write_safe_marker ::
    "resolved_space \<Rightarrow> write_input \<Rightarrow> seq_db \<Rightarrow> seq_db \<Rightarrow> marker_db \<Rightarrow> (write_outcome \<times> marker_db) option" where
  "write_safe_marker space w before db mx =
     (case check_write space w before of
        Some out \<Rightarrow> Some (out, mx)
      | None \<Rightarrow> map_option (\<lambda>(out, mx'). (write_outcome_of space w out, mx')) (replace_marker (marker_input_of space w) db mx))"

definition marker_audit_target :: "resolved_space \<Rightarrow> int \<Rightarrow> jstr" where
  "marker_audit_target space seq = rs_label space @ js ''@'' @ show_int seq"

section \<open>What a replacement does\<close>

lemma superseded_rows_spaces [simp]: "map marker_space (superseded_rows marker now rows) = map marker_space rows"
  by (simp add: superseded_rows_def marker_space_def)

lemma replace_marker_cases [consumes 1, case_names same added]:
  assumes "replace_marker i db mx = Some (out, mx')"
  obtains "mx' = mx"
  | rows where "mx_rows mx' = rows @ [new_marker i (mx_next mx) (db_now db)]"
      "rows = mx_rows mx \<or> (\<exists>c. rows = superseded_rows c (db_now db) (mx_rows mx))" "markers_ok (mx_rows mx')"
  using assms by (auto simp: replace_marker_def Let_def split: option.splits if_splits) blast

text \<open>A replacement is refused unless the current marker is the one that the request has seen.\<close>

lemma created_expected:
  assumes "replace_marker i db mx = Some (Marker_created m replaced, mx')"
  shows "map_option mk_seq (find_current_marker (mi_repository i) (mi_branch i) mx) = mi_expected i" "replaced = mi_expected i"
  using assms by (auto simp: replace_marker_def Let_def split: option.splits if_splits)

lemma created_current:
  assumes "replace_marker i db mx = Some (Marker_created m replaced, mx')"
  shows "find_current_marker (mi_repository i) (mi_branch i) mx' = Some m" "is_same_marker i m"
proof -
  from assms have m: "m = new_marker i (mx_next mx) (db_now db)" and ok: "markers_ok (mx_rows mx')"
    and "\<exists>rows. mx_rows mx' = rows @ [m]"
    by (auto simp: replace_marker_def Let_def split: option.splits if_splits)
  then obtain rows where rows: "mx_rows mx' = rows @ [m]" by blast
  have cur: "is_current m" and sp: "marker_space m = (mi_repository i, mi_branch i)" by (simp_all add: m new_marker_def is_current_def marker_space_def)
  have "\<not> (marker_space x = (mi_repository i, mi_branch i) \<and> is_current x)" if "x \<in> set rows" for x
    using ok that cur sp by (auto simp: markers_ok_def rows image_iff)
  then have "find (\<lambda>m. marker_space m = (mi_repository i, mi_branch i) \<and> is_current m) rows = None" by (auto simp: find_None_iff)
  then show "find_current_marker (mi_repository i) (mi_branch i) mx' = Some m"
    by (simp add: find_current_marker_def rows find_append cur sp)
  show "is_same_marker i m" by (simp add: m new_marker_def is_same_marker_def)
qed

end
