(* ===== verification/Marker_Runs.thy ===== *)
theory Marker_Runs
  imports Worker_Rows Db_SafeMarker
begin

text \<open>
  Users mark safe positions (\<open>apps/search-api/src/sequence/safe-marker.ts\<close>) while the workers number and renumber the
  branches. A request checks its position in one step and writes in a later one, with any steps of others in between.
\<close>

record marker_system =
  mz_system :: system
  mz_markers :: marker_db
  mz_checked :: "(resolved_space \<times> write_input) list"

definition mz_db :: "marker_system \<Rightarrow> seq_db" where
  "mz_db s = wk_seq (working (mz_system s))"

inductive marker_step :: "commit_links \<Rightarrow> marker_system \<Rightarrow> marker_system \<Rightarrow> bool" for objects where
  Worker_moves: "seq_step objects (mz_system s) sys \<Longrightarrow> marker_step objects s (s\<lparr>mz_system := sys\<rparr>)"
| Request_checked:
    "check_write space w (mz_db s) = None \<Longrightarrow> marker_step objects s (s\<lparr>mz_checked := (space, w) # mz_checked s\<rparr>)"
| Marker_written:
    "(space, w) \<in> set (mz_checked s) \<Longrightarrow>
     replace_marker (marker_input_of space w) (mz_db s) (mz_markers s) = Some (out, mx) \<Longrightarrow>
     marker_step objects s (s\<lparr>mz_markers := mx\<rparr>)"

inductive_cases marker_stepE: "marker_step objects s s'"

definition new_marker_system :: "int \<Rightarrow> marker_system" where
  "new_marker_system now = \<lparr>mz_system = new_system now, mz_markers = \<lparr>mx_rows = [], mx_next = 1\<rparr>, mz_checked = []\<rparr>"

section \<open>Markers designate commits\<close>

definition position_known :: "seq_db \<Rightarrow> int \<Rightarrow> jstr \<Rightarrow> int \<Rightarrow> int \<Rightarrow> bool" where
  "position_known db repository branch epoch seq \<longleftrightarrow> (\<exists>r \<in> set (space_rows repository branch epoch db). ms_seq r = seq)"

definition markers_inv :: "seq_db \<Rightarrow> marker_db \<Rightarrow> bool" where
  "markers_inv db mx \<longleftrightarrow>
     markers_ok (mx_rows mx) \<and> (\<forall>m \<in> set (mx_rows mx). position_known db (mk_repository m) (mk_branch m) (mk_epoch m) (mk_seq m))"

definition requests_inv :: "seq_db \<Rightarrow> (resolved_space \<times> write_input) list \<Rightarrow> bool" where
  "requests_inv db qs \<longleftrightarrow> (\<forall>(space, w) \<in> set qs. position_known db (rs_repository space) (rs_branch space) (wr_epoch w) (wr_seq w))"

definition marker_system_inv :: "commit_links \<Rightarrow> marker_system \<Rightarrow> bool" where
  "marker_system_inv objects s \<longleftrightarrow>
     system_inv objects (mz_system s) \<and> markers_inv (mz_db s) (mz_markers s) \<and> requests_inv (mz_db s) (mz_checked s)"

lemma position_known_kept:
  assumes "rows_kept db db'" "position_known db repository branch epoch seq"
  shows "position_known db' repository branch epoch seq"
proof -
  from assms(2) obtain r where r: "r \<in> set (space_rows repository branch epoch db)" "ms_seq r = seq" by (auto simp: position_known_def)
  with assms(1) obtain r' where "r' \<in> set (merges db')" "kept_row r r'" by (auto simp: rows_kept_def space_rows_iff)
  with r show ?thesis
    by (auto simp: position_known_def space_rows_iff in_space_def kept_row_def pk_of_def intro!: bexI[of _ r'])
qed

lemma check_write_known:
  "check_write space w db = None \<Longrightarrow> position_known db (rs_repository space) (rs_branch space) (wr_epoch w) (wr_seq w)"
  by (auto simp: check_write_def position_known_def find_point_by_seq_def find_Some_iff split: if_splits)

lemma superseded_rows_in:
  "m \<in> set (superseded_rows marker now rows) \<Longrightarrow>
    \<exists>m' \<in> set rows. mk_repository m = mk_repository m' \<and> mk_branch m = mk_branch m' \<and> mk_epoch m = mk_epoch m' \<and> mk_seq m = mk_seq m'"
  by (auto simp: superseded_rows_def)

lemma written_inv:
  assumes "replace_marker i db mx = Some (out, mx')" "markers_inv db mx"
    and "position_known db (mi_repository i) (mi_branch i) (mi_epoch i) (mi_seq i)"
  shows "markers_inv db mx'"
  using assms(1)
proof (cases rule: replace_marker_cases)
  case (added rows)
  have "position_known db (mk_repository m) (mk_branch m) (mk_epoch m) (mk_seq m)" if "m \<in> set rows" for m
  proof -
    from added(2) that superseded_rows_in[of m] obtain m' where "m' \<in> set (mx_rows mx)" "mk_repository m = mk_repository m'"
      "mk_branch m = mk_branch m'" "mk_epoch m = mk_epoch m'" "mk_seq m = mk_seq m'" by blast
    with assms(2) show ?thesis by (simp add: markers_inv_def)
  qed
  with added assms(3) show ?thesis by (auto simp: markers_inv_def new_marker_def)
qed (use assms(2) in simp)

lemma worker_moves_inv:
  assumes "marker_system_inv objects s" "seq_step objects (mz_system s) sys"
  shows "marker_system_inv objects (s\<lparr>mz_system := sys\<rparr>)"
  using assms(1) system_inv_step[OF assms(2)] position_known_kept[OF step_keeps_rows[OF assms(2)]]
  by (auto simp: marker_system_inv_def markers_inv_def requests_inv_def mz_db_def)

lemma request_checked_inv:
  "marker_system_inv objects s \<Longrightarrow> check_write space w (mz_db s) = None \<Longrightarrow> marker_system_inv objects (s\<lparr>mz_checked := (space, w) # mz_checked s\<rparr>)"
  using check_write_known[of space w "mz_db s"] by (auto simp: marker_system_inv_def requests_inv_def mz_db_def)

lemma marker_written_inv:
  assumes "marker_system_inv objects s" "(space, w) \<in> set (mz_checked s)"
    and "replace_marker (marker_input_of space w) (mz_db s) (mz_markers s) = Some (out, mx)"
  shows "marker_system_inv objects (s\<lparr>mz_markers := mx\<rparr>)"
proof -
  have "position_known (mz_db s) (rs_repository space) (rs_branch space) (wr_epoch w) (wr_seq w)"
    using assms(1,2) by (auto simp: marker_system_inv_def requests_inv_def)
  with written_inv[OF assms(3)] assms(1) show ?thesis by (simp add: marker_system_inv_def marker_input_of_def mz_db_def)
qed

lemma marker_inv_step: "marker_system_inv objects s \<Longrightarrow> marker_step objects s s' \<Longrightarrow> marker_system_inv objects s'"
  by (auto elim!: marker_stepE intro: worker_moves_inv request_checked_inv marker_written_inv)

interpretation marker_runs: invariant_system "\<lambda>s. \<exists>now. s = new_marker_system now" "marker_step objects" "marker_system_inv objects" for objects
proof
  fix s assume "\<exists>now. s = new_marker_system now"
  then obtain now where s: "s = new_marker_system now" ..
  have "system_inv objects (new_system now)" by (rule sequence_runs.init_inv) blast
  then show "marker_system_inv objects s"
    by (simp add: s marker_system_inv_def new_marker_system_def markers_inv_def requests_inv_def markers_ok_def)
qed (rule marker_inv_step)

section \<open>History\<close>

text \<open>What is left of a marker later: itself, or itself superseded.\<close>

definition marker_later :: "marker_row \<Rightarrow> marker_row \<Rightarrow> bool" where
  "marker_later m m' \<longleftrightarrow> m' = m \<or> (is_current m \<and> (\<exists>t. m' = m\<lparr>mk_superseded := Some t\<rparr>))"

lemma marker_later_refl [simp]: "marker_later m m"
  by (simp add: marker_later_def)

lemma marker_later_trans: "marker_later m m' \<Longrightarrow> marker_later m' m'' \<Longrightarrow> marker_later m m''"
  by (auto simp: marker_later_def is_current_def)

lemma written_later:
  assumes "replace_marker i db mx = Some (out, mx')" "m \<in> set (mx_rows mx)"
  shows "\<exists>m' \<in> set (mx_rows mx'). marker_later m m'"
  using assms(1)
proof (cases rule: replace_marker_cases)
  case (added rows)
  have "\<exists>m' \<in> set rows. marker_later m m'"
  proof (cases "rows = mx_rows mx")
    case False
    with added(2) obtain c where c: "rows = superseded_rows c (db_now db) (mx_rows mx)" by blast
    let ?m = "if mk_id m = c \<and> is_current m then m\<lparr>mk_superseded := Some (db_now db)\<rparr> else m"
    have "?m \<in> set rows" unfolding c superseded_rows_def set_map using assms(2) by (rule imageI)
    moreover have "marker_later m ?m" by (auto simp: marker_later_def)
    ultimately show ?thesis by blast
  qed (use assms(2) in \<open>auto simp: marker_later_def\<close>)
  then show ?thesis by (auto simp: added(1))
qed (use assms(2) in \<open>auto simp: marker_later_def\<close>)

lemma marker_step_rows: "marker_step objects s s' \<Longrightarrow> rows_kept (mz_db s) (mz_db s')"
  by (auto elim!: marker_stepE simp: mz_db_def step_keeps_rows)

lemma marker_step_later:
  assumes "marker_step objects s s'" "m \<in> set (mx_rows (mz_markers s))"
  shows "\<exists>m' \<in> set (mx_rows (mz_markers s')). marker_later m m'"
  using assms by (auto elim!: marker_stepE dest: written_later intro: bexI[of _ m])

lemma marker_run_later:
  assumes "rtranclp (marker_step objects) s s'"
  shows "rows_kept (mz_db s) (mz_db s') \<and> (\<forall>m \<in> set (mx_rows (mz_markers s)). \<exists>m' \<in> set (mx_rows (mz_markers s')). marker_later m m')"
  using assms
proof induction
  case base
  show ?case by (auto simp: marker_later_def)
next
  case (step t u)
  from step.IH rows_kept_trans[OF _ marker_step_rows[OF step(2)]] marker_step_later[OF step(2)] marker_later_trans
  show ?case by meson
qed

text \<open>C11: A safe marker is never lost and never comes to mean another commit. In every state reached
  by the workers and by any number of users, whose requests check a position in one
  transaction and write the marker in a later one, each marker, current or superseded, stands
  at a position of its epoch that has a commit; it is the current one of its branch exactly
  when it is not superseded; and after any further steps it is still recorded, unchanged or
  superseded once, with the same commit at its position.\<close>

theorem safe_markers_keep_their_commit:
  assumes "reaches (\<lambda>s. \<exists>now. s = new_marker_system now) (marker_step objects) s" and "rtranclp (marker_step objects) s s'"
    and "m \<in> set (mx_rows (mz_markers s))"
  shows "(\<exists>sha. map_option pt_sha (find_point_by_seq (mk_repository m) (mk_branch m) (mk_epoch m) (mk_seq m) (mz_db s)) = Some sha \<and>
      map_option pt_sha (find_point_by_seq (mk_repository m) (mk_branch m) (mk_epoch m) (mk_seq m) (mz_db s')) = Some sha) \<and>
    (is_current m \<longleftrightarrow> find_current_marker (mk_repository m) (mk_branch m) (mz_markers s) = Some m) \<and>
    (\<exists>m' \<in> set (mx_rows (mz_markers s')). marker_later m m')"
proof (intro conjI)
  from marker_runs.reaches_inv[OF assms(1)] have inv: "table_ok (merges (mz_db s))" "markers_inv (mz_db s) (mz_markers s)"
    by (simp_all add: marker_system_inv_def system_inv_def seq_inv_def mz_db_def)
  have ok': "table_ok (merges (mz_db s'))" using marker_runs.reaches_inv[OF run_reaches[OF assms(1,2)]]
    by (simp add: marker_system_inv_def system_inv_def seq_inv_def mz_db_def)
  from inv(2) assms(3) obtain r where
    r: "r \<in> set (space_rows (mk_repository m) (mk_branch m) (mk_epoch m) (mz_db s))" "ms_seq r = mk_seq m"
    by (auto simp: markers_inv_def position_known_def)
  note later = marker_run_later[OF assms(2)]
  with r(1) obtain r' where r': "r' \<in> set (merges (mz_db s'))" "kept_row r r'" by (auto simp: rows_kept_def space_rows_iff)
  with r have in': "r' \<in> set (space_rows (mk_repository m) (mk_branch m) (mk_epoch m) (mz_db s'))" "ms_seq r' = mk_seq m" "ms_sha r' = ms_sha r"
    by (auto simp: space_rows_iff in_space_def kept_row_def pk_of_def)
  from find_row_in_table(1)[OF inv(1) r(1)] find_row_in_table(1)[OF ok' in'(1)] r(2) in'(2,3)
  show "\<exists>sha. map_option pt_sha (find_point_by_seq (mk_repository m) (mk_branch m) (mk_epoch m) (mk_seq m) (mz_db s)) = Some sha \<and>
      map_option pt_sha (find_point_by_seq (mk_repository m) (mk_branch m) (mk_epoch m) (mk_seq m) (mz_db s')) = Some sha"
    by (simp add: find_point_by_seq_def to_point_def)
  have dist: "distinct (map marker_space (filter is_current (mx_rows (mz_markers s))))" using inv(2) by (simp add: markers_inv_def markers_ok_def)
  show "is_current m \<longleftrightarrow> find_current_marker (mk_repository m) (mk_branch m) (mz_markers s) = Some m"
  proof
    assume cur: "is_current m"
    show "find_current_marker (mk_repository m) (mk_branch m) (mz_markers s) = Some m"
      unfolding find_current_marker_def
    proof (rule find_unique[OF assms(3)])
      fix y assume "y \<in> set (mx_rows (mz_markers s))" "marker_space y = (mk_repository m, mk_branch m) \<and> is_current y"
      moreover have "inj_on marker_space (set (filter is_current (mx_rows (mz_markers s))))" using dist by (simp add: distinct_map)
      ultimately show "y = m" using cur assms(3) by (auto simp: marker_space_def elim!: inj_onD)
    qed (simp add: cur marker_space_def)
  qed (auto simp: find_current_marker_def find_Some_iff)
  show "\<exists>m' \<in> set (mx_rows (mz_markers s')). marker_later m m'" using later assms(3) by blast
qed

text \<open>In the sample a user marks the second commit, and then the branch is pushed over.\<close>

definition sample_space :: resolved_space where
  "sample_space = \<lparr>rs_repository = 1, rs_branch = js ''main'', rs_epoch = 1, rs_state = Space_ok, rs_head_seq = 2, rs_label = js ''o/n@main''\<rparr>"

definition sample_write :: write_input where
  "sample_write = \<lparr>wr_seq = 2, wr_epoch = 1, wr_note = None, wr_expected = None, wr_by = js ''u''\<rparr>"

definition asked_markers :: marker_system where
  "asked_markers = \<lparr>mz_system = assigned_system, mz_markers = \<lparr>mx_rows = [], mx_next = 1\<rparr>, mz_checked = [(sample_space, sample_write)]\<rparr>"

definition sample_marker :: marker_row where
  "sample_marker = new_marker (marker_input_of sample_space sample_write) 1 (db_now (wk_seq (working assigned_system)))"

definition marked_system :: marker_system where
  "marked_system = asked_markers\<lparr>mz_markers := \<lparr>mx_rows = [sample_marker], mx_next = 2\<rparr>\<rparr>"

lemma workers_reach_markers:
  "reaches (\<lambda>s. \<exists>now. s = new_system now) (seq_step objects) sys \<Longrightarrow>
    reaches (\<lambda>s. \<exists>now. s = new_marker_system now) (marker_step objects)
      \<lparr>mz_system = sys, mz_markers = \<lparr>mx_rows = [], mx_next = 1\<rparr>, mz_checked = []\<rparr>"
proof (induction rule: reaches.induct)
  case (start s)
  then obtain now where "s = new_system now" by blast
  then show ?case by (intro reaches.start) (auto simp: new_marker_system_def)
next
  case (step s t)
  have "marker_step objects \<lparr>mz_system = s, mz_markers = \<lparr>mx_rows = [], mx_next = 1\<rparr>, mz_checked = []\<rparr>
      (\<lparr>mz_system = s, mz_markers = \<lparr>mx_rows = [], mx_next = 1\<rparr>, mz_checked = []\<rparr>\<lparr>mz_system := t\<rparr>)"
    by (rule Worker_moves) (simp add: step.hyps)
  then have "marker_step objects \<lparr>mz_system = s, mz_markers = \<lparr>mx_rows = [], mx_next = 1\<rparr>, mz_checked = []\<rparr>
      \<lparr>mz_system = t, mz_markers = \<lparr>mx_rows = [], mx_next = 1\<rparr>, mz_checked = []\<rparr>" by simp
  with step.IH show ?case by (rule reaches.step)
qed

lemma sample_checked: "check_write sample_space sample_write (wk_seq (working assigned_system)) = None"
proof -
  let ?db = "wk_seq (working assigned_system)"
  have "table_ok (merges ?db)" using sequence_runs.reaches_inv[OF assigned_reachable] by (simp add: system_inv_def seq_inv_def)
  from assigned_rows have "2 \<in> ms_seq ` set (ordered_rows 1 (js ''main'') 1 ?db)"
    by (auto simp: entry_of_def dest!: arg_cong[of _ _ "\<lambda>l. 2 \<in> fst ` set l"])
  then obtain r where "r \<in> set (space_rows 1 (js ''main'') 1 ?db)" "ms_seq r = 2" by (auto simp: ordered_rows_def)
  then show ?thesis
    by (auto simp: check_write_def sample_space_def sample_write_def find_point_by_seq_def find_None_iff)
qed

lemma marked_reachable: "reaches (\<lambda>s. \<exists>now. s = new_marker_system now) (marker_step sample_objects) marked_system"
proof -
  let ?s = "\<lparr>mz_system = assigned_system, mz_markers = \<lparr>mx_rows = [], mx_next = 1\<rparr>, mz_checked = []\<rparr>"
  have "asked_markers = ?s\<lparr>mz_checked := (sample_space, sample_write) # mz_checked ?s\<rparr>" by (simp add: asked_markers_def)
  moreover have "marker_step sample_objects ?s (?s\<lparr>mz_checked := (sample_space, sample_write) # mz_checked ?s\<rparr>)"
    by (rule Request_checked) (simp add: mz_db_def sample_checked)
  ultimately have "marker_step sample_objects ?s asked_markers" by (simp only:)
  with workers_reach_markers[OF assigned_reachable]
  have "reaches (\<lambda>s. \<exists>now. s = new_marker_system now) (marker_step sample_objects) asked_markers" by (rule reaches.step)
  moreover obtain sp where "find_sequence_space 1 (js ''main'') (mz_db asked_markers) = Some sp" "sp_epoch sp = 1"
    using assigned_space by (auto simp: mz_db_def asked_markers_def)
  then have "replace_marker (marker_input_of sample_space sample_write) (mz_db asked_markers) (mz_markers asked_markers) =
      Some (Marker_created sample_marker None, \<lparr>mx_rows = [sample_marker], mx_next = 2\<rparr>)"
    by (simp add: replace_marker_def marker_input_of_def sample_space_def sample_write_def asked_markers_def find_current_marker_def
        sample_marker_def markers_ok_def new_marker_def is_current_def marker_space_def at_most_def mz_db_def Let_def)
  then have "marker_step sample_objects asked_markers marked_system"
    unfolding marked_system_def by (rule Marker_written[rotated]) (simp add: asked_markers_def)
  ultimately show ?thesis by (rule reaches.step)
qed

theorem safe_markers_keep_their_commit_witness:
  "map_option pt_sha (find_point_by_seq 1 (js ''main'') 1 2 (wk_seq (working rewritten_system))) =
     map_option pt_sha (find_point_by_seq 1 (js ''main'') 1 2 (wk_seq (working assigned_system))) \<and>
   find_current_marker 1 (js ''main'') (mz_markers marked_system) = Some sample_marker"
proof -
  have "rtranclp (marker_step sample_objects) marked_system (marked_system\<lparr>mz_system := rewritten_system\<rparr>)"
    by (rule r_into_rtranclp, rule Worker_moves) (simp add: marked_system_def asked_markers_def rewritten_step)
  from safe_markers_keep_their_commit[OF marked_reachable this, of sample_marker] show ?thesis
    by (auto simp: marked_system_def asked_markers_def sample_marker_def new_marker_def marker_input_of_def sample_space_def
        sample_write_def is_current_def mz_db_def)
qed

end
