(* ===== verification/Api_Cursor.thy ===== *)
theory Api_Cursor
  imports Es_Scoped_Query JSON_Value "HOL-Library.List_Lexorder"
begin

text \<open>
  Cursors of the search API: the signed envelope (\<open>apps/search-api/src/cursor/envelope.ts\<close>) and the cursor of a
  range (\<open>sequence/range-cursor.ts\<close>). The text of a payload in base64url, its reading and the HMAC of the key are
  parameters; an error carries its kind in place of the message.
\<close>

record cursor_codec =
  cc_body :: "json \<Rightarrow> jstr"
  cc_read :: "jstr \<Rightarrow> json option"
  cc_sign :: "jstr \<Rightarrow> jstr"

datatype cursor_error = Cursor_invalid jstr | Cursor_query_mismatch jstr

definition CURSOR_TTL_MS :: int where
  "CURSOR_TTL_MS = 300000"

definition encode_envelope :: "cursor_codec \<Rightarrow> json \<Rightarrow> jstr" where
  "encode_envelope c payload = (let body = cc_body c payload in body @ js ''.'' @ cc_sign c body)"

definition decode_envelope :: "cursor_codec \<Rightarrow> jstr \<Rightarrow> (cursor_error, (jstr \<times> json) list) result" where
  "decode_envelope c cursor =
     (case find_index (\<lambda>u. u = ch CHR ''.'') cursor of
        None \<Rightarrow> Inl (Cursor_invalid (js ''envelope''))
      | Some i \<Rightarrow>
          if i = 0 \<or> i = length cursor - 1 then Inl (Cursor_invalid (js ''envelope''))
          else if cc_sign c (take i cursor) \<noteq> drop (Suc i) cursor then Inl (Cursor_invalid (js ''signature''))
          else case cc_read c (take i cursor) of
            None \<Rightarrow> Inl (Cursor_invalid (js ''body''))
          | Some v \<Rightarrow> (case as_record v of None \<Rightarrow> Inl (Cursor_invalid (js ''object'')) | Some ms \<Rightarrow> Inr ms))"

definition assert_not_expired :: "json option \<Rightarrow> int \<Rightarrow> (cursor_error, unit) result" where
  "assert_not_expired expires now =
     (case expires of
        Some (J_int t) \<Rightarrow> if t \<le> now then Inl (Cursor_invalid (js ''expired'')) else Inr ()
      | Some (J_fraction m k) \<Rightarrow> if m \<le> now * 10 ^ k then Inl (Cursor_invalid (js ''expired'')) else Inr ()
      | _ \<Rightarrow> Inl (Cursor_invalid (js ''expiry'')))"

section \<open>The cursor of a range\<close>

definition RANGE_CURSOR_VERSION :: int where
  "RANGE_CURSOR_VERSION = 1"

record range_anchor =
  ra_repository :: int
  ra_branch :: jstr
  ra_epoch :: int
  ra_from :: int
  ra_to :: int

definition sorted_texts :: "jstr list \<Rightarrow> jstr" where
  "sorted_texts xs = join_with (js '','') (sort xs)"

definition scope_material :: "access_scope \<Rightarrow> jstr" where
  "scope_material scope =
     (case scope of
        Explicit_scope repositories \<Rightarrow> js ''explicit|'' @ sorted_texts (map show_int repositories)
      | Org_team_scope orgs teams visibilities \<Rightarrow>
          js ''org_team|'' @ sorted_texts (map show_int orgs) @ js ''|'' @ sorted_texts (map show_int teams) @ js ''|'' @
          sorted_texts visibilities)"

text \<open>\<open>hash\<close> is the first 22 characters of the SHA-256 in base64url.\<close>

definition compute_range_fingerprint :: "(jstr \<Rightarrow> jstr) \<Rightarrow> jstr \<Rightarrow> access_scope \<Rightarrow> int \<Rightarrow> jstr" where
  "compute_range_fingerprint hash query scope version =
     hash (join_with (js '' '') [query, scope_material scope, show_int version])"

definition range_payload :: "int \<Rightarrow> range_anchor \<Rightarrow> jstr \<Rightarrow> int \<Rightarrow> json" where
  "range_payload complete a fingerprint now =
     J_object [(js ''v'', J_int RANGE_CURSOR_VERSION), (js ''r'', J_int (ra_repository a)), (js ''b'', J_string (ra_branch a)),
       (js ''e'', J_int (ra_epoch a)), (js ''f'', J_int (ra_from a)), (js ''t'', J_int (ra_to a)), (js ''q'', J_string fingerprint),
       (js ''c'', J_int complete), (js ''x'', J_int (now + CURSOR_TTL_MS))]"

definition encode_range_cursor :: "cursor_codec \<Rightarrow> int \<Rightarrow> range_anchor \<Rightarrow> jstr \<Rightarrow> int \<Rightarrow> jstr" where
  "encode_range_cursor cdc complete a fingerprint now = encode_envelope cdc (range_payload complete a fingerprint now)"

definition check_range_payload :: "(jstr \<times> json) list \<Rightarrow> range_anchor \<Rightarrow> jstr \<Rightarrow> (cursor_error, int) result" where
  "check_range_payload p a fingerprint =
     (case member p (js ''c'') of
        Some (J_int c) \<Rightarrow>
          if \<not> is_safe_integer c then Inl (Cursor_invalid (js ''complete''))
          else if member p (js ''r'') \<noteq> Some (J_int (ra_repository a)) \<or> member p (js ''b'') \<noteq> Some (J_string (ra_branch a))
          then Inl (Cursor_query_mismatch (js ''space''))
          else if member p (js ''e'') \<noteq> Some (J_int (ra_epoch a)) then Inl (Cursor_query_mismatch (js ''epoch''))
          else if member p (js ''f'') \<noteq> Some (J_int (ra_from a)) \<or> member p (js ''t'') \<noteq> Some (J_int (ra_to a))
          then Inl (Cursor_query_mismatch (js ''bounds''))
          else if member p (js ''q'') \<noteq> Some (J_string fingerprint) then Inl (Cursor_query_mismatch (js ''query''))
          else if c < ra_from a \<or> c > ra_to a then Inl (Cursor_invalid (js ''outside''))
          else Inr c
      | _ \<Rightarrow> Inl (Cursor_invalid (js ''complete'')))"

definition decode_range_cursor :: "cursor_codec \<Rightarrow> jstr \<Rightarrow> range_anchor \<Rightarrow> jstr \<Rightarrow> int \<Rightarrow> (cursor_error, int) result" where
  "decode_range_cursor cdc cursor a fingerprint now =
     bind_result (decode_envelope cdc cursor) (\<lambda>p.
       if member p (js ''v'') \<noteq> Some (J_int RANGE_CURSOR_VERSION) then Inl (Cursor_invalid (js ''version''))
       else bind_result (assert_not_expired (member p (js ''x'')) now) (\<lambda>_. check_range_payload p a fingerprint))"

section \<open>A cursor is read back\<close>

text \<open>
  What the code relies on of JSON, base64url and HMAC: the body of a payload is read back, is not empty and has no dot; a
  signature is not empty.
\<close>

definition reads_back :: "cursor_codec \<Rightarrow> json \<Rightarrow> bool" where
  "reads_back c p \<longleftrightarrow> cc_read c (cc_body c p) = Some p \<and> cc_body c p \<noteq> [] \<and> ch CHR ''.'' \<notin> set (cc_body c p)"

definition codec_ok :: "cursor_codec \<Rightarrow> range_anchor \<Rightarrow> jstr \<Rightarrow> bool" where
  "codec_ok c a fingerprint \<longleftrightarrow> (\<forall>complete now. reads_back c (range_payload complete a fingerprint now)) \<and> (\<forall>b. cc_sign c b \<noteq> [])"

lemma decode_encode_envelope:
  assumes "reads_back c (J_object ms)" "\<And>b. cc_sign c b \<noteq> []"
  shows "decode_envelope c (encode_envelope c (J_object ms)) = Inr ms"
proof -
  let ?b = "cc_body c (J_object ms)"
  have b: "?b \<noteq> []" "ch CHR ''.'' \<notin> set ?b" "cc_read c ?b = Some (J_object ms)"
    using assms(1) by (auto simp: reads_back_def)
  have "find_index (\<lambda>u. u = ch CHR ''.'') (?b @ ch CHR ''.'' # cc_sign c ?b) = Some (length ?b)"
    by (rule find_index_append) (use b(2) in auto)
  with b assms(2) show ?thesis by (auto simp: decode_envelope_def encode_envelope_def Let_def)
qed

lemma decode_encode_range:
  assumes "codec_ok c a fingerprint" "is_safe_integer complete" "ra_from a \<le> complete" "complete \<le> ra_to a" "now' < now + CURSOR_TTL_MS"
  shows "decode_range_cursor c (encode_range_cursor c complete a fingerprint now) a fingerprint now' = Inr complete"
proof -
  obtain ms where ms: "range_payload complete a fingerprint now = J_object ms" by (simp add: range_payload_def)
  have "reads_back c (J_object ms)" "cc_sign c b \<noteq> []" for b using assms(1) by (simp_all add: codec_ok_def ms[symmetric])
  from decode_encode_envelope[OF this]
  have "decode_envelope c (encode_range_cursor c complete a fingerprint now) = Inr ms" by (simp add: encode_range_cursor_def ms)
  moreover have "member ms (js ''v'') = Some (J_int RANGE_CURSOR_VERSION)" "member ms (js ''x'') = Some (J_int (now + CURSOR_TTL_MS))"
    "check_range_payload ms a fingerprint = Inr complete"
    using ms assms(2-4) by (auto simp: range_payload_def check_range_payload_def member_def)
  ultimately show ?thesis using assms(5) by (simp add: decode_range_cursor_def assert_not_expired_def)
qed

lemma find_index_nth: "find_index P xs = Some i \<Longrightarrow> i < length xs \<and> P (xs ! i)"
  by (induction xs arbitrary: i) (auto split: if_splits)

lemma decode_envelopeD:
  assumes "decode_envelope c cursor = Inr ms"
  obtains body where "cursor = body @ js ''.'' @ cc_sign c body" "cc_read c body = Some (J_object ms)"
proof -
  from assms obtain i where i: "find_index (\<lambda>u. u = ch CHR ''.'') cursor = Some i" "cc_sign c (take i cursor) = drop (Suc i) cursor"
    "cc_read c (take i cursor) = Some (J_object ms)"
    by (auto simp: decode_envelope_def split: option.splits if_splits elim!: as_record.elims)
  from find_index_nth[OF i(1)] have "cursor = take i cursor @ ch CHR ''.'' # drop (Suc i) cursor" by (metis id_take_nth_drop)
  with that[of "take i cursor"] i show ?thesis by simp
qed

end
