(* ===== verification/Api_MergeNumbers.thy ===== *)
theory Api_MergeNumbers
  imports Api_Space Domain_MNumber
begin

text \<open>
  The merge number shown with a pull request (\<open>merge-number-view.ts\<close>, \<open>merge-number-batch.ts\<close>) and the
  resolution of a merge number or a pull request (\<open>merge-numbers.ts\<close>, all in \<open>apps/search-api/src/sequence\<close>). A read of
  the database that fails is \<open>None\<close>, and so is the projection in the index that could not be read.
\<close>

section \<open>The fields of an item\<close>

datatype number_state = Assigned_number | Pending_number | No_number_applies | Number_unavailable

datatype projection_state = In_sync | Projection_pending | Projection_unknown

record number_fields =
  nf_number :: "jstr option"
  nf_state :: number_state
  nf_reason :: "jstr option"
  nf_epoch :: "int option"
  nf_projection :: projection_state

record number_subject =
  su_repository :: int
  su_branch :: "jstr option"
  su_pr :: int
  su_name :: "jstr option"
  su_state :: "jstr option"
  su_indexed :: "(int option \<times> int option) option"

type_synonym canonical_numbers = "number_space_state list \<times> number_lookup list"

definition prefer_row :: "number_lookup \<Rightarrow> number_lookup \<Rightarrow> bool" where
  "prefer_row candidate held =
     (if (nl_number candidate \<noteq> None) \<noteq> (nl_number held \<noteq> None) then nl_number candidate \<noteq> None
      else nl_seq candidate < nl_seq held)"

definition space_of_canonical :: "canonical_numbers \<Rightarrow> int \<Rightarrow> jstr \<Rightarrow> number_space_state option" where
  "space_of_canonical canonical repository branch =
     find (\<lambda>s. ns_repository s = repository \<and> ns_branch s = branch) (rev (fst canonical))"

definition row_of_canonical :: "canonical_numbers \<Rightarrow> int \<Rightarrow> jstr \<Rightarrow> int \<Rightarrow> number_lookup option" where
  "row_of_canonical canonical repository branch pr =
     fold (\<lambda>r held. if nl_repository r = repository \<and> nl_branch r = branch \<and> nl_pr r = pr
                    then (case held of None \<Rightarrow> Some r | Some h \<Rightarrow> if prefer_row r h then Some r else held)
                    else held) (snd canonical) None"

definition block_reason_of :: "jstr option \<Rightarrow> jstr" where
  "block_reason_of v =
     (case v of None \<Rightarrow> js ''pr_evidence_pending''
      | Some s \<Rightarrow> if is_merge_number_block_reason s then s else js ''pr_evidence_pending'')"

definition fields_without :: "number_state \<Rightarrow> jstr \<Rightarrow> int option \<Rightarrow> number_fields" where
  "fields_without st reason epoch =
     \<lparr>nf_number = None, nf_state = st, nf_reason = Some reason, nf_epoch = epoch, nf_projection = Projection_unknown\<rparr>"

definition projection_state_of :: "int \<Rightarrow> int \<Rightarrow> (int option \<times> int option) option \<Rightarrow> projection_state" where
  "projection_state_of number epoch indexed =
     (case indexed of
        None \<Rightarrow> Projection_unknown
      | Some (n, e) \<Rightarrow> if n = Some number \<and> e = Some epoch then In_sync else Projection_pending)"

text \<open>A number that cannot be printed raises.\<close>

definition merge_number_fields_of ::
    "number_subject \<Rightarrow> canonical_numbers option \<Rightarrow> (int \<Rightarrow> jstr list option) \<Rightarrow> (format_error, number_fields) result" where
  "merge_number_fields_of subject canonical tracked =
     (if su_state subject \<noteq> None \<and> su_state subject \<noteq> Some (js ''merged'')
      then Inr (fields_without No_number_applies (js ''not_merged'') None)
      else case su_branch subject of
        None \<Rightarrow> Inr (fields_without Pending_number (js ''not_sequenced'') None)
      | Some branch \<Rightarrow>
          if (case tracked (su_repository subject) of None \<Rightarrow> False | Some bs \<Rightarrow> branch \<notin> set bs)
          then Inr (fields_without No_number_applies (js ''branch_not_tracked'') None)
          else case canonical of
            None \<Rightarrow> Inr (fields_without Number_unavailable (js ''mnumber_read_failed'') None)
          | Some known \<Rightarrow>
              (case space_of_canonical known (su_repository subject) branch of
                 None \<Rightarrow> Inr (fields_without Pending_number (js ''not_sequenced'') None)
               | Some space \<Rightarrow>
                   (case row_of_canonical known (su_repository subject) branch (su_pr subject) of
                      None \<Rightarrow> Inr (fields_without Pending_number (js ''not_sequenced'') (Some (ns_epoch space)))
                    | Some row \<Rightarrow>
                        (case nl_number row of
                           None \<Rightarrow>
                             Inr (fields_without Pending_number
                               (case ns_blocked_seq space of
                                  None \<Rightarrow> js ''pr_evidence_pending''
                                | Some b \<Rightarrow>
                                    if b = nl_seq row then block_reason_of (ns_blocked_reason space)
                                    else if nl_seq row > b then js ''predecessor_pending''
                                    else js ''pr_evidence_pending'') (Some (ns_epoch space)))
                         | Some number \<Rightarrow>
                             (case su_name subject of
                                None \<Rightarrow> Inr (fields_without Number_unavailable (js ''repository_code_unavailable'') None)
                              | Some name \<Rightarrow>
                                  (case repository_code_of name of
                                     Inl problem \<Rightarrow> Inr (fields_without Number_unavailable (js ''repository_code_unavailable'') None)
                                   | Inr code \<Rightarrow>
                                       bind_result (format_merge_number code number) (\<lambda>label.
                                         Inr \<lparr>nf_number = Some label, nf_state = Assigned_number, nf_reason = None,
                                              nf_epoch = Some (nl_epoch row),
                                              nf_projection = projection_state_of number (nl_epoch row) (su_indexed subject)\<rparr>)))))))"

definition repository_name_of :: "jstr option \<Rightarrow> jstr option" where
  "repository_name_of slug =
     (case slug of
        None \<Rightarrow> None
      | Some s \<Rightarrow>
          (case find_index (\<lambda>c. c = ch CHR ''/'') s of
             None \<Rightarrow> None
           | Some i \<Rightarrow> if drop (Suc i) s = [] then None else Some (drop (Suc i) s)))"

record number_input =
  ni_repository :: "int option"
  ni_slug :: "jstr option"
  ni_branch :: "jstr option"
  ni_pr :: "int option"
  ni_state :: "jstr option"
  ni_indexed :: "(int option \<times> int option) option"

definition subject_of_input :: "number_input \<Rightarrow> number_subject option" where
  "subject_of_input i =
     (case (ni_repository i, ni_pr i) of
        (Some repository, Some pr) \<Rightarrow>
          Some \<lparr>su_repository = repository, su_branch = ni_branch i, su_pr = pr, su_name = repository_name_of (ni_slug i),
                su_state = ni_state i, su_indexed = ni_indexed i\<rparr>
      | _ \<Rightarrow> None)"

definition tuples_of :: "number_subject option list \<Rightarrow> (int \<times> jstr \<times> int) list" where
  "tuples_of subjects =
     List.map_filter (\<lambda>s. case s of
         None \<Rightarrow> None
       | Some x \<Rightarrow> map_option (\<lambda>branch. (su_repository x, branch, su_pr x)) (su_branch x)) subjects"

text \<open>The state of the database is the one of a snapshot; \<open>None\<close> when the read failed.\<close>

definition resolve_merge_number_fields ::
    "bool \<Rightarrow> number_input list \<Rightarrow> seq_db option \<Rightarrow> (format_error, number_fields) result option list" where
  "resolve_merge_number_fields enabled inputs snapshot =
     (if \<not> enabled then map (\<lambda>_. None) inputs
      else
        (let subjects = map subject_of_input inputs;
             tuples = tuples_of subjects;
             known = (if tuples = [] then Some ([], [], \<lambda>_. None) else map_option (lookup_merge_numbers tuples) snapshot) in
         map (map_option (\<lambda>s. case known of
                 None \<Rightarrow> merge_number_fields_of s None (\<lambda>_. None)
               | Some (ss, rows, tracked) \<Rightarrow> merge_number_fields_of s (Some (ss, rows)) tracked)) subjects))"

section \<open>Resolution\<close>

definition single_string :: "json option \<Rightarrow> jstr option" where
  "single_string v = (case v of Some (J_string s) \<Rightarrow> if trim s = [] then None else Some (trim s) | _ \<Rightarrow> None)"

definition exact_string :: "json option \<Rightarrow> jstr option" where
  "exact_string v = (case v of Some (J_string s) \<Rightarrow> if s = [] then None else Some s | _ \<Rightarrow> None)"

definition decimal_int :: "json option \<Rightarrow> int \<Rightarrow> int option" where
  "decimal_int v bound =
     (case exact_string v of
        None \<Rightarrow> None
      | Some s \<Rightarrow>
          if \<not> all_digits s \<or> length s > 19 then None
          else let n = int (dec_value s) in if n < 1 \<or> n > bound then None else Some n)"

definition INT4_MAX :: int where
  "INT4_MAX = 2147483647"

record resolve_request =
  mq_repository :: "json option"
  mq_branch :: "json option"
  mq_pr :: "json option"
  mq_number :: "json option"
  mq_epoch :: "json option"
  mq_scope :: access_scope

record resolved_number =
  rn_label :: jstr
  rn_epoch :: int
  rn_state :: space_state
  rn_pr :: int
  rn_seq :: int
  rn_fields :: number_fields

datatype resolve_outcome =
    Resolve_ok resolved_number
  | Resolve_epoch_stale jstr int int
  | Resolve_invalid jstr "jstr option"
  | Resolve_not_found
  | Resolve_no_sequence jstr
  | Resolve_disabled

datatype number_target = By_pull_request int | By_merge_number jstr int

definition given :: "json option \<Rightarrow> bool" where
  "given v \<longleftrightarrow> v \<noteq> None \<and> v \<noteq> Some J_null"

definition read_target :: "resolve_request \<Rightarrow> (jstr, number_target) result" where
  "read_target q =
     (let by_pr = given (mq_pr q); by_number = given (mq_number q) in
      if by_pr = by_number then Inl (if by_pr then js ''pr_number'' else js ''merge_number'')
      else if by_pr
      then (case decimal_int (mq_pr q) INT4_MAX of
              None \<Rightarrow> Inl (js ''pr_number'')
            | Some n \<Rightarrow> Inr (By_pull_request n))
      else (case exact_string (mq_number q) of
              None \<Rightarrow> Inl (js ''merge_number'')
            | Some s \<Rightarrow>
                (case parse_merge_number s of
                   None \<Rightarrow> Inl (js ''merge_number'')
                 | Some (code, n) \<Rightarrow> Inr (By_merge_number code n))))"

record canonical_read =
  cr_repository :: repository_row
  cr_space :: space_row
  cr_pr :: int
  cr_known :: "number_space_state list \<times> number_lookup list \<times> (int \<Rightarrow> jstr list option)"
  cr_row :: number_lookup

text \<open>What the target is in the space: the pull request it names.\<close>

definition target_pull_request :: "number_target \<Rightarrow> int \<Rightarrow> jstr \<Rightarrow> int \<Rightarrow> seq_db \<Rightarrow> (resolve_outcome, int) result" where
  "target_pull_request target repository branch epoch db =
     (case target of
        By_merge_number code n \<Rightarrow>
          (case find_row_by_merge_number repository branch epoch n db of
             None \<Rightarrow> Inl Resolve_not_found
           | Some r \<Rightarrow> (case ms_pr r of None \<Rightarrow> Inl Resolve_not_found | Some pr \<Rightarrow> Inr pr))
      | By_pull_request pr \<Rightarrow>
          if find_point_by_pull_request repository branch epoch pr db = None
          then Inl (Resolve_no_sequence (js ''not_sequenced'')) else Inr pr)"

definition check_code :: "number_target \<Rightarrow> jstr \<Rightarrow> resolve_outcome option" where
  "check_code target name =
     (case target of
        By_pull_request pr \<Rightarrow> None
      | By_merge_number code n \<Rightarrow>
          (case repository_code_of name of
             Inl problem \<Rightarrow> Some (Resolve_invalid (js ''merge_number'') (Some (js ''repository_code_unavailable'')))
           | Inr c \<Rightarrow> if c = code then None else Some (Resolve_invalid (js ''merge_number'') (Some (js ''repository_code_mismatch'')))))"

definition resolve_in_space ::
    "number_target \<Rightarrow> int option \<Rightarrow> jstr \<times> jstr \<Rightarrow> jstr \<Rightarrow> repository_row \<Rightarrow> seq_db \<Rightarrow> (resolve_outcome, canonical_read) result" where
  "resolve_in_space target requested slug branch rp db =
     (if branch \<notin> set (rp_branches rp) then Inl (Resolve_no_sequence (js ''branch_not_tracked''))
      else case find_sequence_space (rp_id rp) branch db of
        None \<Rightarrow> Inl (Resolve_no_sequence (js ''not_sequenced''))
      | Some sp \<Rightarrow>
          if requested \<noteq> None \<and> requested \<noteq> Some (sp_epoch sp)
          then Inl (Resolve_epoch_stale (slug_label slug branch) (sp_epoch sp) (the requested))
          else bind_result (target_pull_request target (rp_id rp) branch (sp_epoch sp) db) (\<lambda>pr.
            (case lookup_merge_numbers [(rp_id rp, branch, pr)] db of
               (ss, [], tracked) \<Rightarrow> Inl (Resolve_no_sequence (js ''not_sequenced''))
             | (ss, row # rows, tracked) \<Rightarrow>
                 Inr \<lparr>cr_repository = rp, cr_space = sp, cr_pr = pr, cr_known = (ss, row # rows, tracked), cr_row = row\<rparr>)))"

definition resolve_in_snapshot ::
    "number_target \<Rightarrow> int option \<Rightarrow> access_scope \<Rightarrow> jstr \<times> jstr \<Rightarrow> jstr \<Rightarrow> seq_db \<Rightarrow> (resolve_outcome, canonical_read) result" where
  "resolve_in_snapshot target requested scope slug branch db =
     (case find_repository_by_slug (fst slug) (snd slug) db of
        None \<Rightarrow> Inl Resolve_not_found
      | Some rp \<Rightarrow>
          if \<not> is_repository_in_scope (scoped_of rp) scope then Inl Resolve_not_found
          else case check_code target (rp_name rp) of
            Some refused \<Rightarrow> Inl refused
          | None \<Rightarrow> resolve_in_space target requested slug branch rp db)"

text \<open>\<open>projection\<close> is what the index holds of a pull request: \<open>None\<close> when the read fails or finds no document.\<close>

definition with_projection ::
    "(int \<Rightarrow> int \<Rightarrow> (int option \<times> int option) option) \<Rightarrow> jstr \<times> jstr \<Rightarrow> jstr \<Rightarrow> canonical_read \<Rightarrow> (format_error, resolve_outcome) result" where
  "with_projection projection slug branch r =
     (let indexed = (if nl_number (cr_row r) = None then None else projection (rp_id (cr_repository r)) (cr_pr r)) in
      case cr_known r of
        (ss, rows, tracked) \<Rightarrow>
          bind_result (merge_number_fields_of
              \<lparr>su_repository = rp_id (cr_repository r), su_branch = Some branch, su_pr = cr_pr r, su_name = Some (rp_name (cr_repository r)),
               su_state = Some (js ''merged''), su_indexed = indexed\<rparr> (Some (ss, rows)) tracked) (\<lambda>fields.
            Inr (Resolve_ok \<lparr>rn_label = slug_label slug branch, rn_epoch = sp_epoch (cr_space r), rn_state = sp_state (cr_space r),
                   rn_pr = cr_pr r, rn_seq = nl_seq (cr_row r), rn_fields = fields\<rparr>)))"

definition resolve_merge_number ::
    "(jstr \<Rightarrow> int option) \<Rightarrow> (int \<Rightarrow> int \<Rightarrow> (int option \<times> int option) option) \<Rightarrow> bool \<Rightarrow> resolve_request \<Rightarrow> seq_db \<Rightarrow>
     (format_error, resolve_outcome) result" where
  "resolve_merge_number number projection enabled q db =
     (if \<not> enabled then Inr Resolve_disabled
      else case parse_repository_slug (mq_repository q) of
        None \<Rightarrow> Inr (Resolve_invalid (js ''repository'') None)
      | Some slug \<Rightarrow>
          (case single_string (mq_branch q) of
             None \<Rightarrow> Inr (Resolve_invalid (js ''base_branch'') None)
           | Some branch \<Rightarrow>
               (case read_target q of
                  Inl bad \<Rightarrow> Inr (Resolve_invalid bad None)
                | Inr target \<Rightarrow>
                    (case (read_epoch_param number (mq_epoch q), target) of
                       (Epoch_invalid, _) \<Rightarrow> Inr (Resolve_invalid (js ''seq_epoch'') None)
                     | (Epoch_absent, By_merge_number code n) \<Rightarrow> Inr (Resolve_invalid (js ''seq_epoch'') None)
                     | (epoch, _) \<Rightarrow>
                         (case resolve_in_snapshot target (case epoch of Epoch_value e \<Rightarrow> Some e | _ \<Rightarrow> None) (mq_scope q) slug branch db of
                            Inl outcome \<Rightarrow> Inr outcome
                          | Inr r \<Rightarrow> with_projection projection slug branch r)))))"

section \<open>A number names its pull request\<close>

lemma find_row_by_merge_numberD:
  "find_row_by_merge_number repository branch epoch n db = Some r \<Longrightarrow>
   r \<in> set (space_rows repository branch epoch db) \<and> ms_number r = Some n"
  by (auto simp: find_row_by_merge_number_def find_Some_iff)

lemma spaces_of_key:
  assumes "distinct (map space_key (spaces db))" "find_sequence_space repository branch db = Some sp"
  shows "filter (\<lambda>sp. sp_repository sp = repository \<and> sp_branch sp = branch) (spaces db) = [sp]"
proof -
  have sp: "sp \<in> set (spaces db)" "space_key sp = (repository, branch)"
    using assms(2) by (auto simp: find_sequence_space_def find_Some_iff)
  have "filter (\<lambda>x. space_key x = space_key sp) xs = [sp]" if "distinct (map space_key xs)" "sp \<in> set xs" for xs
    using that by (induction xs) (auto simp: image_iff filter_empty_conv)
  from this[OF assms(1) sp(1)] sp(2) show ?thesis by (simp add: space_key_def)
qed

text \<open>The rows that the lookup of one pull request returns are its rows in the current epoch, the first commit first.\<close>

definition lookup_of :: "int \<Rightarrow> merge_row \<Rightarrow> number_lookup" where
  "lookup_of pr r =
     \<lparr>nl_repository = ms_repository r, nl_branch = ms_branch r, nl_pr = pr, nl_seq = ms_seq r, nl_sha = ms_sha r,
      nl_number = ms_number r, nl_epoch = ms_epoch r\<rparr>"

lemma lookup_single:
  assumes "distinct (map space_key (spaces db))" "find_sequence_space repository branch db = Some sp"
  shows "lookup_rows [(repository, branch, pr)] db =
    sort_key (\<lambda>l. (nl_repository l, nl_branch l, nl_pr l, nl_seq l))
      (map (lookup_of pr) (filter (\<lambda>r. ms_pr r = Some pr) (space_rows repository branch (sp_epoch sp) db)))"
proof -
  have key: "sp_repository sp = repository" "sp_branch sp = branch"
    using assms(2) by (auto simp: find_sequence_space_def find_Some_iff space_key_def)
  show ?thesis
    by (simp add: lookup_rows_def spaces_of_key[OF assms] current_row_def key space_rows_def filter_filter conj_commute lookup_of_def[abs_def])
qed

lemma row_of_canonical_in:
  assumes "row_of_canonical (ss, rows) repository branch pr = Some l"
  shows "l \<in> set rows \<and> nl_repository l = repository \<and> nl_branch l = branch \<and> nl_pr l = pr"
proof -
  have "fold (\<lambda>r held. if nl_repository r = repository \<and> nl_branch r = branch \<and> nl_pr r = pr
      then (case held of None \<Rightarrow> Some r | Some h \<Rightarrow> if prefer_row r h then Some r else held) else held) rows held = Some l \<Longrightarrow>
    held = Some l \<or> l \<in> set rows \<and> nl_repository l = repository \<and> nl_branch l = branch \<and> nl_pr l = pr" for held
    by (induction rows arbitrary: held) (auto split: if_splits option.splits)
  from this[of None] assms show ?thesis by (simp add: row_of_canonical_def)
qed

text \<open>A row with a number is preferred.\<close>

lemma row_of_canonical_numbered:
  assumes "\<exists>r \<in> set rows. nl_repository r = repository \<and> nl_branch r = branch \<and> nl_pr r = pr \<and> nl_number r \<noteq> None"
  shows "\<exists>l. row_of_canonical (ss, rows) repository branch pr = Some l \<and> nl_number l \<noteq> None"
proof -
  let ?step = "\<lambda>r held. if nl_repository r = repository \<and> nl_branch r = branch \<and> nl_pr r = pr
      then (case held of None \<Rightarrow> Some r | Some h \<Rightarrow> if prefer_row r h then Some r else held) else held"
  have keep: "\<exists>l. fold ?step xs held = Some l \<and> nl_number l \<noteq> None" if "\<exists>h. held = Some h \<and> nl_number h \<noteq> None" for xs held
    using that by (induction xs arbitrary: held) (auto simp: prefer_row_def split: if_splits)
  have "\<exists>l. fold ?step rows held = Some l \<and> nl_number l \<noteq> None" for held
    using assms
  proof (induction rows arbitrary: held)
    case (Cons r rows)
    show ?case
    proof (cases "nl_repository r = repository \<and> nl_branch r = branch \<and> nl_pr r = pr \<and> nl_number r \<noteq> None")
      case True
      then have "\<exists>h. ?step r held = Some h \<and> nl_number h \<noteq> None" by (auto simp: prefer_row_def split: option.splits)
      from keep[OF this, of rows] show ?thesis by simp
    next
      case False
      with Cons.prems have "\<exists>r \<in> set rows. nl_repository r = repository \<and> nl_branch r = branch \<and> nl_pr r = pr \<and> nl_number r \<noteq> None" by auto
      from Cons.IH[OF this] show ?thesis by simp
    qed
  qed simp
  then show ?thesis by (simp add: row_of_canonical_def)
qed

text \<open>The constraints of the tables.\<close>

definition tables_ok :: "seq_db \<Rightarrow> bool" where
  "tables_ok db \<longleftrightarrow> table_ok (merges db) \<and> spaces_ok (spaces db) \<and> distinct (map rp_id (repos db))"

lemma tables_okD:
  assumes "tables_ok db"
  shows "table_ok (merges db)" "distinct (map space_key (spaces db))" "distinct (map rp_id (repos db))"
  using assms by (auto simp: tables_ok_def spaces_ok_def)

lemma numbered_row_unique:
  assumes "table_ok (merges db)" "r \<in> set (space_rows repository branch epoch db)" "r' \<in> set (space_rows repository branch epoch db)"
    and "is_numbered r" "is_numbered r'" "ms_pr r' = ms_pr r"
  shows "r' = r"
proof -
  have "r \<in> set (filter is_numbered (merges db))" "r' \<in> set (filter is_numbered (merges db))" "pr_key r' = pr_key r"
    using assms(2-6) by (auto simp: space_rows_iff in_space_def pr_key_def)
  with table_okD(4)[OF assms(1)] show ?thesis by (metis distinct_map inj_onD)
qed

lemma resolve_in_spaceD:
  assumes "resolve_in_space target requested slug branch rp db = Inr r"
  obtains sp pr ss row rows tracked where "branch \<in> set (rp_branches rp)" "find_sequence_space (rp_id rp) branch db = Some sp"
    "target_pull_request target (rp_id rp) branch (sp_epoch sp) db = Inr pr"
    "lookup_merge_numbers [(rp_id rp, branch, pr)] db = (ss, row # rows, tracked)"
    "r = \<lparr>cr_repository = rp, cr_space = sp, cr_pr = pr, cr_known = (ss, row # rows, tracked), cr_row = row\<rparr>"
proof -
  from assms obtain sp where sp: "branch \<in> set (rp_branches rp)" "find_sequence_space (rp_id rp) branch db = Some sp"
    "bind_result (target_pull_request target (rp_id rp) branch (sp_epoch sp) db) (\<lambda>pr.
       (case lookup_merge_numbers [(rp_id rp, branch, pr)] db of
          (ss, [], tracked) \<Rightarrow> Inl (Resolve_no_sequence (js ''not_sequenced''))
        | (ss, row # rows, tracked) \<Rightarrow>
            Inr \<lparr>cr_repository = rp, cr_space = sp, cr_pr = pr, cr_known = (ss, row # rows, tracked), cr_row = row\<rparr>)) = Inr r"
    by (simp add: resolve_in_space_def split: option.splits if_splits)
  from sp(3) obtain pr where pr: "target_pull_request target (rp_id rp) branch (sp_epoch sp) db = Inr pr"
    "(case lookup_merge_numbers [(rp_id rp, branch, pr)] db of
        (ss, [], tracked) \<Rightarrow> Inl (Resolve_no_sequence (js ''not_sequenced''))
      | (ss, row # rows, tracked) \<Rightarrow>
          Inr \<lparr>cr_repository = rp, cr_space = sp, cr_pr = pr, cr_known = (ss, row # rows, tracked), cr_row = row\<rparr>) = Inr r"
    by (cases "target_pull_request target (rp_id rp) branch (sp_epoch sp) db") simp_all
  obtain ss known tracked where l: "lookup_merge_numbers [(rp_id rp, branch, pr)] db = (ss, known, tracked)" by (metis prod_cases3)
  with pr(2) that[OF sp(1,2) pr(1)] show thesis by (cases known) auto
qed

lemma resolve_okD:
  assumes "resolve_merge_number number projection True q db = Inr (Resolve_ok b)"
  obtains slug branch target requested where "read_target q = Inr target"
    "(case resolve_in_snapshot target requested (mq_scope q) slug branch db of
        Inl outcome \<Rightarrow> Inr outcome
      | Inr r \<Rightarrow> with_projection projection slug branch r) = Inr (Resolve_ok b)"
proof -
  from assms obtain slug where "parse_repository_slug (mq_repository q) = Some slug"
    by (cases "parse_repository_slug (mq_repository q)") (simp_all add: resolve_merge_number_def)
  moreover from this assms obtain branch where "single_string (mq_branch q) = Some branch"
    by (cases "single_string (mq_branch q)") (simp_all add: resolve_merge_number_def)
  moreover from calculation assms obtain target where "read_target q = Inr target"
    by (cases "read_target q") (simp_all add: resolve_merge_number_def)
  ultimately show thesis using assms that
    by (cases "read_epoch_param number (mq_epoch q)"; cases target) (auto simp: resolve_merge_number_def)
qed

lemma snapshot_not_ok: "resolve_in_snapshot target requested scope slug branch db \<noteq> Inl (Resolve_ok b)"
proof -
  have "target_pull_request target repository branch epoch db \<noteq> Inl (Resolve_ok b)" for repository epoch
    by (auto simp: target_pull_request_def split: number_target.split option.split)
  then have "resolve_in_space target requested slug branch rp db \<noteq> Inl (Resolve_ok b)" for rp
    by (auto simp: resolve_in_space_def bind_result_Inl_iff split: option.splits prod.splits list.splits)
  then show ?thesis
    by (auto simp: resolve_in_snapshot_def check_code_def split: option.splits number_target.splits sum.splits if_splits)
qed

lemma resolve_by_numberD:
  assumes "resolve_merge_number number projection True q db = Inr (Resolve_ok b)" "\<not> given (mq_pr q)"
  obtains slug branch label code n requested rp r where "mq_number q = Some (J_string label)" "parse_merge_number label = Some (code, n)"
    "find_repository_by_slug (fst slug) (snd slug) db = Some rp" "is_repository_in_scope (scoped_of rp) (mq_scope q)"
    "repository_code_of (rp_name rp) = Inr code" "resolve_in_space (By_merge_number code n) requested slug branch rp db = Inr r"
    "with_projection projection slug branch r = Inr (Resolve_ok b)"
proof -
  obtain slug branch target requested where t: "read_target q = Inr target"
    "(case resolve_in_snapshot target requested (mq_scope q) slug branch db of
        Inl outcome \<Rightarrow> Inr outcome
      | Inr r \<Rightarrow> with_projection projection slug branch r) = Inr (Resolve_ok b)"
    by (rule resolve_okD[OF assms(1)])
  from t(1) assms(2) obtain label code n where target: "mq_number q = Some (J_string label)" "parse_merge_number label = Some (code, n)"
    "target = By_merge_number code n"
    by (auto simp: read_target_def exact_string_def Let_def split: option.splits if_splits json.splits)
  from t(2) snapshot_not_ok obtain r where r: "resolve_in_snapshot target requested (mq_scope q) slug branch db = Inr r"
    "with_projection projection slug branch r = Inr (Resolve_ok b)" by (auto split: sum.splits)
  from r(1) target(3) obtain rp where "find_repository_by_slug (fst slug) (snd slug) db = Some rp"
    "is_repository_in_scope (scoped_of rp) (mq_scope q)" "repository_code_of (rp_name rp) = Inr code"
    "resolve_in_space (By_merge_number code n) requested slug branch rp db = Inr r"
    by (auto simp: resolve_in_snapshot_def check_code_def split: option.splits if_splits sum.splits)
  with that target r(2) show thesis by blast
qed

lemma known_spaces:
  assumes "lookup_merge_numbers [(repository, branch, pr)] db = (ss, rows, tracked)" "find_sequence_space repository branch db = Some sp"
    and "distinct (map space_key (spaces db))"
  shows "ss = [number_space_of sp]" "rows = lookup_rows [(repository, branch, pr)] db"
    "tracked = map_of (map (\<lambda>rp. (rp_id rp, rp_branches rp)) (filter (\<lambda>rp. rp_id rp = repository) (repos db)))"
proof -
  have "filter (\<lambda>sp. repository = sp_repository sp \<and> branch = sp_branch sp) (spaces db) = [sp]"
  proof -
    have "(\<lambda>sp :: space_row. repository = sp_repository sp \<and> branch = sp_branch sp) = (\<lambda>sp. sp_repository sp = repository \<and> sp_branch sp = branch)" by auto
    then show ?thesis using spaces_of_key[OF assms(3,2)] by (simp only:)
  qed
  then have "lookup_merge_numbers [(repository, branch, pr)] db = ([number_space_of sp], lookup_rows [(repository, branch, pr)] db,
      map_of (map (\<lambda>rp. (rp_id rp, rp_branches rp)) (filter (\<lambda>rp. rp_id rp = repository) (repos db))))"
    by (simp add: lookup_merge_numbers_def)
  with assms(1) show "ss = [number_space_of sp]" "rows = lookup_rows [(repository, branch, pr)] db"
    "tracked = map_of (map (\<lambda>rp. (rp_id rp, rp_branches rp)) (filter (\<lambda>rp. rp_id rp = repository) (repos db)))"
    by simp_all
qed

lemma tracked_of:
  assumes "distinct (map rp_id (repos db))" "rp \<in> set (repos db)"
  shows "map_of (map (\<lambda>rp. (rp_id rp, rp_branches rp)) (filter (\<lambda>r. rp_id r = rp_id rp) (repos db))) (rp_id rp) = Some (rp_branches rp)"
proof (rule map_of_is_SomeI)
  show "distinct (map fst (map (\<lambda>rp. (rp_id rp, rp_branches rp)) (filter (\<lambda>r. rp_id r = rp_id rp) (repos db))))"
    using distinct_map_filter_sub[OF assms(1)] by (simp add: o_def)
qed (use assms(2) in auto)

text \<open>A merge number names its pull request and its commit: when the resolution of a merge number succeeds, the number
  was written in its one spelling, the repository is in the user's scope, and the answer is the pull request of the commit
  that has the number in the current epoch of the branch, with the number assigned and printed as it was asked for; and when
  no other commit of the epoch names that pull request, the sequence number of the answer is the one of that commit.\<close>

theorem merge_number_names_its_pull_request:
  assumes "tables_ok db" and "\<not> given (mq_pr q)"
    and "resolve_merge_number number projection True q db = Inr (Resolve_ok b)"
  shows "\<exists>label code n rp branch sp r. mq_number q = Some (J_string label) \<and> format_merge_number code n = Inr label \<and>
    rp \<in> set (repos db) \<and> is_repository_in_scope (scoped_of rp) (mq_scope q) \<and> repository_code_of (rp_name rp) = Inr code \<and>
    find_sequence_space (rp_id rp) branch db = Some sp \<and> rn_epoch b = sp_epoch sp \<and>
    r \<in> set (space_rows (rp_id rp) branch (sp_epoch sp) db) \<and> ms_number r = Some n \<and> ms_pr r = Some (rn_pr b) \<and>
    nf_state (rn_fields b) = Assigned_number \<and> nf_number (rn_fields b) = Some label \<and> nf_epoch (rn_fields b) = Some (sp_epoch sp) \<and>
    (filter (\<lambda>r. ms_pr r = Some (rn_pr b)) (space_rows (rp_id rp) branch (sp_epoch sp) db) = [r] \<longrightarrow> rn_seq b = ms_seq r)"
proof -
  note ok = tables_okD[OF assms(1)]
  obtain slug branch label code n requested rp c where q: "mq_number q = Some (J_string label)" "parse_merge_number label = Some (code, n)"
    "find_repository_by_slug (fst slug) (snd slug) db = Some rp" "is_repository_in_scope (scoped_of rp) (mq_scope q)"
    "repository_code_of (rp_name rp) = Inr code" "resolve_in_space (By_merge_number code n) requested slug branch rp db = Inr c"
    "with_projection projection slug branch c = Inr (Resolve_ok b)"
    by (rule resolve_by_numberD[OF assms(3,2)])
  obtain sp pr ss row rows tracked where c: "branch \<in> set (rp_branches rp)" "find_sequence_space (rp_id rp) branch db = Some sp"
    "target_pull_request (By_merge_number code n) (rp_id rp) branch (sp_epoch sp) db = Inr pr"
    "lookup_merge_numbers [(rp_id rp, branch, pr)] db = (ss, row # rows, tracked)"
    "c = \<lparr>cr_repository = rp, cr_space = sp, cr_pr = pr, cr_known = (ss, row # rows, tracked), cr_row = row\<rparr>"
    by (rule resolve_in_spaceD[OF q(6)])
  let ?rows = "space_rows (rp_id rp) branch (sp_epoch sp) db"
  have rp: "rp \<in> set (repos db)" using q(3) by (auto simp: find_repository_by_slug_def find_Some_iff)
  from c(3) obtain r where r: "r \<in> set ?rows" "ms_number r = Some n" "ms_pr r = Some pr"
    by (auto simp: target_pull_request_def split: option.splits dest: find_row_by_merge_numberD)
  note known = known_spaces[OF c(4,2) ok(2)] and single = lookup_single[OF ok(2) c(2), of pr]
  have rowset: "set (row # rows) = lookup_of pr ` {r \<in> set ?rows. ms_pr r = Some pr}" unfolding known(2) single by simp
  have in_rows: "nl_repository (lookup_of pr x) = rp_id rp \<and> nl_branch (lookup_of pr x) = branch \<and> nl_pr (lookup_of pr x) = pr \<and>
      nl_epoch (lookup_of pr x) = sp_epoch sp" if "x \<in> set ?rows" for x
    using that by (simp add: lookup_of_def space_rows_iff in_space_def)
  have "\<exists>l \<in> set (row # rows). nl_repository l = rp_id rp \<and> nl_branch l = branch \<and> nl_pr l = pr \<and> nl_number l \<noteq> None"
  proof (intro bexI conjI)
    show "lookup_of pr r \<in> set (row # rows)" unfolding rowset using r by blast
    show "nl_number (lookup_of pr r) \<noteq> None" using r(2) by (simp add: lookup_of_def)
  qed (simp_all add: in_rows[OF r(1)])
  from row_of_canonical_numbered[OF this, of ss] obtain l where l: "row_of_canonical (ss, row # rows) (rp_id rp) branch pr = Some l"
    "nl_number l \<noteq> None" by blast
  from row_of_canonical_in[OF l(1)] obtain x where x: "x \<in> set ?rows" "ms_pr x = Some pr" "l = lookup_of pr x" unfolding rowset by blast
  have "x = r" by (rule numbered_row_unique[OF ok(1) r(1) x(1)]) (use r x l(2) in \<open>simp_all add: is_numbered_def lookup_of_def\<close>)
  then have ln: "nl_number l = Some n" "nl_epoch l = sp_epoch sp" using x(3) r(2) in_rows[OF r(1)] by (simp_all add: lookup_of_def)
  have track: "tracked (rp_id rp) = Some (rp_branches rp)" unfolding known(3) by (rule tracked_of[OF ok(3) rp])
  have key: "sp_repository sp = rp_id rp" "sp_branch sp = branch"
    using c(2) by (auto simp: find_sequence_space_def find_Some_iff space_key_def)
  have space: "space_of_canonical (ss, row # rows) (rp_id rp) branch = Some (number_space_of sp)"
    by (simp add: space_of_canonical_def known(1) number_space_of_def key)
  have fmt: "format_merge_number code n = Inr label"
    using parse_merge_number_SomeD[OF q(2)] by (simp add: format_merge_number_iff)
  define indexed where "indexed = (if nl_number row = None then None else projection (rp_id rp) pr)"
  have fields: "merge_number_fields_of \<lparr>su_repository = rp_id rp, su_branch = Some branch, su_pr = pr, su_name = Some (rp_name rp),
      su_state = Some (js ''merged''), su_indexed = indexed\<rparr> (Some (ss, row # rows)) tracked =
    Inr \<lparr>nf_number = Some label, nf_state = Assigned_number, nf_reason = None, nf_epoch = Some (sp_epoch sp),
      nf_projection = projection_state_of n (sp_epoch sp) indexed\<rparr>"
    by (simp add: merge_number_fields_of_def track c(1) space l(1) ln q(5) fmt)
  have b: "b = \<lparr>rn_label = slug_label slug branch, rn_epoch = sp_epoch sp, rn_state = sp_state sp, rn_pr = pr, rn_seq = nl_seq row,
      rn_fields = \<lparr>nf_number = Some label, nf_state = Assigned_number, nf_reason = None, nf_epoch = Some (sp_epoch sp),
        nf_projection = projection_state_of n (sp_epoch sp) indexed\<rparr>\<rparr>"
  proof -
    have "with_projection projection slug branch c = bind_result (merge_number_fields_of \<lparr>su_repository = rp_id rp, su_branch = Some branch,
        su_pr = pr, su_name = Some (rp_name rp), su_state = Some (js ''merged''), su_indexed = indexed\<rparr> (Some (ss, row # rows)) tracked)
      (\<lambda>fields. Inr (Resolve_ok \<lparr>rn_label = slug_label slug branch, rn_epoch = sp_epoch sp, rn_state = sp_state sp, rn_pr = pr,
         rn_seq = nl_seq row, rn_fields = fields\<rparr>))"
      unfolding with_projection_def c(5) indexed_def by (simp only: Let_def prod.case canonical_read.simps)
    from q(7)[unfolded this fields] show ?thesis by simp
  qed
  have "rn_seq b = ms_seq r" if "filter (\<lambda>r. ms_pr r = Some (rn_pr b)) ?rows = [r]"
  proof -
    have "row # rows = [lookup_of pr r]" unfolding known(2) single using that by (simp add: b)
    then show ?thesis by (simp add: b lookup_of_def)
  qed
  with q(1,4,5) fmt rp c(2) r show ?thesis by (intro exI conjI) (assumption | simp add: b)+
qed

end
