(* ===== verification/Api_Range.thy ===== *)
theory Api_Range
  imports Api_Cursor Api_MergeNumbers Domain_Sequence
begin

text \<open>
  The commits between two positions of a branch (\<open>apps/search-api/src/sequence/range.ts\<close>): the guard, the scan that
  fills a page chunk by chunk, the summary and the items. Every query sees a state of the database of its own,
  \<open>rg_db\<close> by the number of the query; the search engine, the resolution of names, the facets and the clock are parameters.
\<close>

definition RANGE_LIMIT :: nat where
  "RANGE_LIMIT = 50000"

definition DEFAULT_RANGE_SIZE :: int where
  "DEFAULT_RANGE_SIZE = 50"

definition MAX_RANGE_SIZE :: int where
  "MAX_RANGE_SIZE = 200"

definition RANGE_SCAN_CHUNK :: nat where
  "RANGE_SCAN_CHUNK = 300"

definition clamp_range_size :: "(jstr \<Rightarrow> int option) \<Rightarrow> json option \<Rightarrow> int" where
  "clamp_range_size number v =
     (case v of
        Some (J_string s) \<Rightarrow>
          if trim s = [] then DEFAULT_RANGE_SIZE
          else (case number s of
                  None \<Rightarrow> DEFAULT_RANGE_SIZE
                | Some n \<Rightarrow> if n < 1 then DEFAULT_RANGE_SIZE else min n MAX_RANGE_SIZE)
      | _ \<Rightarrow> DEFAULT_RANGE_SIZE)"

datatype range_guard = Range_ok nat | Range_inverted | Range_too_large nat

definition guard_range :: "resolved_space \<Rightarrow> int \<Rightarrow> int \<Rightarrow> seq_db \<Rightarrow> range_guard" where
  "guard_range space from_excl to_incl db =
     (if from_excl > to_incl then Range_inverted
      else
        (let total = count_range (rs_repository space) (rs_branch space) (rs_epoch space) from_excl to_incl db in
         if total > RANGE_LIMIT then Range_too_large total else Range_ok total))"

section \<open>Requests and answers\<close>

record pull_source =
  pu_number :: "int option"
  pu_title :: "jstr option"
  pu_author :: "jstr option"
  pu_merged_at :: "jstr option"
  pu_files :: "int option"
  pu_additions :: "int option"
  pu_deletions :: "int option"
  pu_merge_number :: "int option"
  pu_merge_epoch :: "int option"

text \<open>The answer to the query of the summary; \<open>None\<close> for a sum without values. The sums are rounded.\<close>

record summary_answer =
  sa_total :: int
  sa_authors :: "int option"
  sa_files :: "int option"
  sa_additions :: "int option"
  sa_deletions :: "int option"
  sa_truncated :: "int option"
  sa_reverted :: "int option"
  sa_paths :: "(jstr \<times> int) list"

record range_request =
  ro_space :: resolved_space
  ro_scope :: access_scope
  ro_from :: int
  ro_to :: int
  ro_size :: nat
  ro_ast :: "query_ast option"
  ro_total :: nat
  ro_scope_version :: int
  ro_cursor :: "jstr option"
  ro_facets :: bool

text \<open>
  \<open>rg_search\<close> answers a query with a limit, \<open>rg_totals\<close> a query for its totals; \<open>None\<close> raises, and an inner
  \<open>None\<close> is the error of one query of several.
\<close>

record 'f range_deps =
  rg_db :: "nat \<Rightarrow> seq_db"
  rg_zones :: "jstr \<Rightarrow> formatter option"
  rg_names :: "jstr list \<times> jstr list \<Rightarrow> name_resolution option"
  rg_search :: "es_query \<Rightarrow> nat \<Rightarrow> pull_source list option"
  rg_totals :: "es_query list \<Rightarrow> summary_answer option list option"
  rg_distribution :: "es_query \<Rightarrow> 'f option"
  rg_signing :: cursor_codec
  rg_hash :: "jstr \<Rightarrow> jstr"
  rg_chunk :: nat
  rg_now :: int
  rg_numbers :: bool
  rg_snapshot :: "seq_db option"

datatype range_failure =
    Names_failed
  | Query_refused build_error
  | Cursor_refused cursor_error
  | Scope_empty scope_unavailable
  | Search_failed
  | Number_refused format_error

record range_item =
  ri_seq :: int
  ri_is_pull :: bool
  ri_pr :: "int option"
  ri_sha :: jstr
  ri_title :: "jstr option"
  ri_author :: "jstr option"
  ri_merged_at :: "jstr option"
  ri_files :: "int option"
  ri_additions :: "int option"
  ri_deletions :: "int option"
  ri_indexed :: bool
  ri_url :: "jstr option"
  ri_number :: "number_fields option"

definition pr_numbers_query :: "resolved_space \<Rightarrow> int list \<Rightarrow> es_query option \<Rightarrow> es_query" where
  "pr_numbers_query space numbers extra =
     Bool_query []
       ([Term (js ''repository_id'') (Es_number (rs_repository space)), Terms (js ''pr_number'') (map Es_number numbers)] @
        (case extra of None \<Rightarrow> [] | Some q \<Rightarrow> [q])) []"

definition scoped_numbers ::
    "range_request \<Rightarrow> es_query option \<Rightarrow> int list \<Rightarrow> (range_failure, es_query) result" where
  "scoped_numbers q extra numbers =
     (case apply_mandatory_scope_filter (pr_numbers_query (ro_space q) numbers extra) (ro_scope q) of
        Inl e \<Rightarrow> Inl (Scope_empty e)
      | Inr s \<Rightarrow> Inr s)"

definition search_numbers ::
    "'f range_deps \<Rightarrow> range_request \<Rightarrow> es_query option \<Rightarrow> int list \<Rightarrow> (range_failure, pull_source list) result" where
  "search_numbers deps q extra numbers =
     bind_result (scoped_numbers q extra numbers) (\<lambda>s.
       (case rg_search deps s (length numbers) of None \<Rightarrow> Inl Search_failed | Some hits \<Rightarrow> Inr hits))"

section \<open>The scan\<close>

text \<open>\<open>[...new Set(...)]\<close>.\<close>

definition unique :: "'a list \<Rightarrow> 'a list" where
  "unique xs = rev (remdups (rev xs))"

definition numbers_of_rows :: "merge_row list \<Rightarrow> int list" where
  "numbers_of_rows rows = unique (List.map_filter ms_pr rows)"

text \<open>The documents found, by pull request; a later one replaces an earlier one.\<close>

definition add_sources :: "pull_source list \<Rightarrow> (int \<rightharpoonup> pull_source) \<Rightarrow> (int \<rightharpoonup> pull_source)" where
  "add_sources hits m = fold (\<lambda>h m. case pu_number h of None \<Rightarrow> m | Some n \<Rightarrow> m(n \<mapsto> h)) hits m"

definition row_matched :: "es_query option \<Rightarrow> (int \<rightharpoonup> pull_source) \<Rightarrow> merge_row \<Rightarrow> bool" where
  "row_matched extra sources r \<longleftrightarrow> extra = None \<or> (case ms_pr r of None \<Rightarrow> False | Some n \<Rightarrow> sources n \<noteq> None)"

text \<open>The rows of a chunk go to the page until one more matches than fits: the page, the last position looked at, and that event.\<close>

fun fill_page :: "nat \<Rightarrow> (merge_row \<Rightarrow> bool) \<Rightarrow> merge_row list \<Rightarrow> merge_row list \<Rightarrow> int \<Rightarrow> merge_row list \<times> int \<times> bool" where
  "fill_page limit matched [] page scanned = (page, scanned, False)"
| "fill_page limit matched (r # rs) page scanned =
     (if matched r
      then if length page \<ge> limit then (page, scanned, True)
           else fill_page limit matched rs (page @ [r]) (ms_seq r)
      else fill_page limit matched rs page (ms_seq r))"

record scanned_page =
  sg_rows :: "merge_row list"
  sg_sources :: "int \<rightharpoonup> pull_source"
  sg_complete :: "int option"

definition chunk_sources ::
    "'f range_deps \<Rightarrow> range_request \<Rightarrow> es_query option \<Rightarrow> merge_row list \<Rightarrow> (int \<rightharpoonup> pull_source) \<Rightarrow>
     (range_failure, int \<rightharpoonup> pull_source) result" where
  "chunk_sources deps q extra rows sources =
     (let numbers = numbers_of_rows rows in
      if extra = None \<or> numbers = [] then Inr sources
      else bind_result (search_numbers deps q extra numbers) (\<lambda>hits. Inr (add_sources hits sources)))"

definition next_chunk :: "'f range_deps \<Rightarrow> range_request \<Rightarrow> nat \<Rightarrow> int \<Rightarrow> merge_row list" where
  "next_chunk deps q k scanned =
     find_range_page (rs_repository (ro_space q)) (rs_branch (ro_space q)) (rs_epoch (ro_space q)) scanned (ro_to q) (rg_chunk deps)
       (rg_db deps k)"

lemma chunk_bounds: "r \<in> set (next_chunk deps q k scanned) \<Longrightarrow> scanned < ms_seq r \<and> ms_seq r \<le> ro_to q"
  by (auto simp: next_chunk_def find_range_page_def find_range_def dest!: in_set_takeD)

lemma fill_page_scanned:
  "fill_page limit matched rs page scanned = (page', scanned', False) \<Longrightarrow> rs \<noteq> [] \<Longrightarrow> scanned' = ms_seq (last rs)"
proof (induction limit matched rs page scanned rule: fill_page.induct)
  case (2 limit matched r rs page scanned)
  then show ?case by (cases "rs = []") (auto split: if_splits)
qed simp

function scan_chunks ::
    "'f range_deps \<Rightarrow> range_request \<Rightarrow> es_query option \<Rightarrow> nat \<Rightarrow> int \<Rightarrow> merge_row list \<Rightarrow> (int \<rightharpoonup> pull_source) \<Rightarrow>
     (range_failure, scanned_page) result" where
  "scan_chunks deps q extra k scanned page sources =
     (if length page > ro_size q then Inr \<lparr>sg_rows = page, sg_sources = sources, sg_complete = None\<rparr>
      else
        (let rows = next_chunk deps q k scanned in
         if rows = [] then Inr \<lparr>sg_rows = page, sg_sources = sources, sg_complete = None\<rparr>
         else
           (case chunk_sources deps q extra rows sources of
              Inl e \<Rightarrow> Inl e
            | Inr found \<Rightarrow>
                (case fill_page (ro_size q) (row_matched extra found) rows page scanned of
                   (page', scanned', full) \<Rightarrow>
                     if full
                     then Inr \<lparr>sg_rows = page', sg_sources = found,
                            sg_complete = (if page' = [] then None else Some (ms_seq (last page')))\<rparr>
                     else if length rows < rg_chunk deps
                     then Inr \<lparr>sg_rows = page', sg_sources = found, sg_complete = None\<rparr>
                     else scan_chunks deps q extra (Suc k) scanned' page' found))))"
  by pat_completeness auto

termination
proof (relation "measure (\<lambda>(deps, q, extra, k, scanned, page, sources). nat (ro_to q - scanned))")
  fix deps :: "'f range_deps" and q extra k scanned page sources rows found page' rest scanned' full
  assume a: "rows = next_chunk deps q k scanned" "rows \<noteq> []" "(page', rest) = fill_page (ro_size q) (row_matched extra found) rows page scanned"
    "(scanned', full) = rest" "\<not> full"
  then have "scanned' = ms_seq (last rows)"
    using fill_page_scanned[of "ro_size q" "row_matched extra found" rows page scanned page' scanned'] by (metis prod.collapse)
  with a chunk_bounds[of "last rows" deps q k scanned]
  show "((deps, q, extra, Suc k, scanned', page', found), (deps, q, extra, k, scanned, page, sources))
      \<in> measure (\<lambda>(deps, q, extra, k, scanned, page, sources). nat (ro_to q - scanned))" by simp
qed simp

declare scan_chunks.simps [simp del]

definition scan_page ::
    "'f range_deps \<Rightarrow> range_request \<Rightarrow> es_query option \<Rightarrow> int \<Rightarrow> (range_failure, scanned_page) result" where
  "scan_page deps q extra start = scan_chunks deps q extra 1 start [] Map.empty"

section \<open>The whole answer\<close>

definition build_url :: "resolved_space \<Rightarrow> merge_row \<Rightarrow> jstr option" where
  "build_url space r =
     (case split_on (ch CHR ''/'') (rs_label space) of
        owner # rest # _ \<Rightarrow>
          (let name = hd (split_on (ch CHR ''@'') rest) in
           if name = [] then None
           else Some (case ms_pr r of
               None \<Rightarrow> js ''/commit/'' @ owner @ js ''/'' @ name @ js ''/'' @ ms_sha r
             | Some n \<Rightarrow> js ''/pr/'' @ owner @ js ''/'' @ name @ js ''/'' @ show_int n))
      | _ \<Rightarrow> None)"

definition to_unindexed_item :: "resolved_space \<Rightarrow> merge_row \<Rightarrow> range_item" where
  "to_unindexed_item space r =
     \<lparr>ri_seq = ms_seq r, ri_is_pull = (ms_pr r \<noteq> None), ri_pr = ms_pr r, ri_sha = ms_sha r, ri_title = None, ri_author = None,
      ri_merged_at = None, ri_files = None, ri_additions = None, ri_deletions = None, ri_indexed = False,
      ri_url = build_url space r, ri_number = None\<rparr>"

definition to_item :: "resolved_space \<Rightarrow> (int \<rightharpoonup> pull_source) \<Rightarrow> merge_row \<Rightarrow> range_item" where
  "to_item space sources r =
     (case (case ms_pr r of None \<Rightarrow> None | Some n \<Rightarrow> sources n) of
        None \<Rightarrow> to_unindexed_item space r
      | Some s \<Rightarrow>
          \<lparr>ri_seq = ms_seq r, ri_is_pull = True, ri_pr = ms_pr r, ri_sha = ms_sha r, ri_title = pu_title s, ri_author = pu_author s,
           ri_merged_at = pu_merged_at s, ri_files = pu_files s, ri_additions = pu_additions s, ri_deletions = pu_deletions s,
           ri_indexed = True, ri_url = build_url space r, ri_number = None\<rparr>)"

definition number_input_of :: "resolved_space \<Rightarrow> (int \<rightharpoonup> pull_source) \<Rightarrow> range_item \<Rightarrow> number_input" where
  "number_input_of space sources item =
     (case (if ri_is_pull item then ri_pr item else None) of
        None \<Rightarrow> \<lparr>ni_repository = None, ni_slug = None, ni_branch = None, ni_pr = None, ni_state = None, ni_indexed = None\<rparr>
      | Some n \<Rightarrow>
          \<lparr>ni_repository = Some (rs_repository space),
           ni_slug = map_option (\<lambda>(owner, name, branch). owner @ js ''/'' @ name) (parse_sequence_space_label (rs_label space)),
           ni_branch = Some (rs_branch space), ni_pr = Some n, ni_state = Some (js ''merged''),
           ni_indexed = Some (case sources n of None \<Rightarrow> (None, None) | Some s \<Rightarrow> (pu_merge_number s, pu_merge_epoch s))\<rparr>)"

fun with_numbers :: "range_item list \<Rightarrow> (format_error, number_fields) result option list \<Rightarrow> (range_failure, range_item list) result" where
  "with_numbers (item # items) (f # fs) =
     (case f of
        None \<Rightarrow> bind_result (with_numbers items fs) (\<lambda>rest. Inr (item # rest))
      | Some (Inl e) \<Rightarrow> Inl (Number_refused e)
      | Some (Inr x) \<Rightarrow> bind_result (with_numbers items fs) (\<lambda>rest. Inr (item\<lparr>ri_number := Some x\<rparr> # rest)))"
| "with_numbers items fs = Inr items"

definition attach_range_merge_numbers ::
    "'f range_deps \<Rightarrow> resolved_space \<Rightarrow> (int \<rightharpoonup> pull_source) \<Rightarrow> range_item list \<Rightarrow> (range_failure, range_item list) result" where
  "attach_range_merge_numbers deps space sources items =
     (if \<not> rg_numbers deps then Inr items
      else with_numbers items (resolve_merge_number_fields True (map (number_input_of space sources) items) (rg_snapshot deps)))"

record range_summary =
  rsu_pulls :: int
  rsu_commits :: int
  rsu_authors :: int
  rsu_files :: int
  rsu_additions :: int
  rsu_deletions :: int
  rsu_truncated :: int
  rsu_reverted :: int
  rsu_paths :: "(jstr \<times> int) list"

record 'f range_result =
  rx_summary :: range_summary
  rx_items :: "range_item list"
  rx_missing :: int
  rx_unresolved :: "(query_key \<times> jstr) list"
  rx_next :: "jstr option"
  rx_facets :: "'f option"

definition or_zero :: "int option \<Rightarrow> int" where
  "or_zero v = (case v of None \<Rightarrow> 0 | Some n \<Rightarrow> n)"

definition total_of :: "summary_answer option \<Rightarrow> int" where
  "total_of a = (case a of None \<Rightarrow> 0 | Some x \<Rightarrow> sa_total x)"

definition summary_of :: "int \<Rightarrow> int \<Rightarrow> summary_answer option \<Rightarrow> range_summary" where
  "summary_of pulls commits a =
     (case a of
        None \<Rightarrow>
          \<lparr>rsu_pulls = pulls, rsu_commits = commits, rsu_authors = 0, rsu_files = 0, rsu_additions = 0, rsu_deletions = 0,
           rsu_truncated = 0, rsu_reverted = 0, rsu_paths = []\<rparr>
      | Some x \<Rightarrow>
          \<lparr>rsu_pulls = pulls, rsu_commits = commits, rsu_authors = or_zero (sa_authors x), rsu_files = or_zero (sa_files x),
           rsu_additions = or_zero (sa_additions x), rsu_deletions = or_zero (sa_deletions x), rsu_truncated = or_zero (sa_truncated x),
           rsu_reverted = or_zero (sa_reverted x), rsu_paths = sa_paths x\<rparr>)"

text \<open>The query of the request, if it has one: its clause, and the names that were not resolved.\<close>

definition build_extra ::
    "'f range_deps \<Rightarrow> range_request \<Rightarrow> (range_failure, es_query option \<times> (query_key \<times> jstr) list) result" where
  "build_extra deps q =
     (case ro_ast q of
        None \<Rightarrow> Inr (None, [])
      | Some ast \<Rightarrow>
          (case rg_names deps (collect_names ast) of
             None \<Rightarrow> Inl Names_failed
           | Some res \<Rightarrow>
               (case build_query (rg_zones deps) ast res
                      \<lparr>sequence_epoch = Some (rs_epoch (ro_space q)), merge_number_epoch = None, merge_number_base_branch = None\<rparr> of
                  Inl e \<Rightarrow> Inl (Query_refused e)
                | Inr built \<Rightarrow> Inr (Some (query_of built), unresolved_of built))))"

definition anchor_of :: "range_request \<Rightarrow> range_anchor" where
  "anchor_of q =
     \<lparr>ra_repository = rs_repository (ro_space q), ra_branch = rs_branch (ro_space q), ra_epoch = rs_epoch (ro_space q),
      ra_from = ro_from q, ra_to = ro_to q\<rparr>"

definition fingerprint_of :: "'f range_deps \<Rightarrow> range_request \<Rightarrow> jstr" where
  "fingerprint_of deps q =
     compute_range_fingerprint (rg_hash deps) (case ro_ast q of None \<Rightarrow> [] | Some ast \<Rightarrow> serialize_query ast) (ro_scope q) (ro_scope_version q)"

definition start_after :: "'f range_deps \<Rightarrow> range_request \<Rightarrow> (range_failure, int) result" where
  "start_after deps q =
     (case ro_cursor q of
        None \<Rightarrow> Inr (ro_from q)
      | Some c \<Rightarrow>
          (case decode_range_cursor (rg_signing deps) c (anchor_of q) (fingerprint_of deps q) (rg_now deps) of
             Inl e \<Rightarrow> Inl (Cursor_refused e)
           | Inr seq \<Rightarrow> Inr seq))"

definition next_cursor :: "'f range_deps \<Rightarrow> range_request \<Rightarrow> scanned_page \<Rightarrow> jstr option" where
  "next_cursor deps q pg =
     map_option (\<lambda>seq. encode_range_cursor (rg_signing deps) seq (anchor_of q) (fingerprint_of deps q) (rg_now deps)) (sg_complete pg)"

definition empty_page :: scanned_page where
  "empty_page = \<lparr>sg_rows = [], sg_sources = Map.empty, sg_complete = None\<rparr>"

text \<open>A range without pull requests asks nothing of the index.\<close>

definition run_bare ::
    "'f range_deps \<Rightarrow> range_request \<Rightarrow> es_query option \<Rightarrow> (query_key \<times> jstr) list \<Rightarrow> int \<Rightarrow> 'f \<Rightarrow> (range_failure, 'f range_result) result" where
  "run_bare deps q extra unresolved start no_facets =
     bind_result (if ro_size q = 0 \<or> extra \<noteq> None then Inr empty_page else scan_page deps q None start) (\<lambda>bare.
     bind_result (attach_range_merge_numbers deps (ro_space q) Map.empty (map (to_unindexed_item (ro_space q)) (sg_rows bare))) (\<lambda>items.
       Inr \<lparr>rx_summary = summary_of 0 (if extra = None then int (ro_total q) else 0) None, rx_items = items, rx_missing = 0,
            rx_unresolved = unresolved, rx_next = next_cursor deps q bare, rx_facets = if ro_facets q then Some no_facets else None\<rparr>))"

text \<open>Without a query the documents of the page are read once it is known.\<close>

definition page_sources ::
    "'f range_deps \<Rightarrow> range_request \<Rightarrow> es_query option \<Rightarrow> scanned_page \<Rightarrow> (range_failure, int \<rightharpoonup> pull_source) result" where
  "page_sources deps q extra pg =
     (let numbers = numbers_of_rows (sg_rows pg) in
      if extra \<noteq> None \<or> numbers = [] then Inr (sg_sources pg)
      else bind_result (search_numbers deps q None numbers) (\<lambda>hits. Inr (add_sources hits (sg_sources pg))))"

definition ask_totals ::
    "'f range_deps \<Rightarrow> range_request \<Rightarrow> es_query option \<Rightarrow> int list \<Rightarrow> (range_failure, summary_answer option \<times> int) result" where
  "ask_totals deps q extra numbers =
     bind_result (scoped_numbers q None numbers) (\<lambda>plain.
     bind_result (scoped_numbers q extra numbers) (\<lambda>s.
       (case rg_totals deps (if extra = None then [s] else [plain, s]) of
          None \<Rightarrow> Inl Search_failed
        | Some answers \<Rightarrow>
            (let summary = (if extra = None then answers ! 0 else answers ! 1) in
             Inr (summary, if extra = None then total_of summary else total_of (answers ! 0))))))"

definition run_indexed ::
    "'f range_deps \<Rightarrow> range_request \<Rightarrow> es_query option \<Rightarrow> (query_key \<times> jstr) list \<Rightarrow> int \<Rightarrow> int list \<Rightarrow> (range_failure, 'f range_result) result" where
  "run_indexed deps q extra unresolved start numbers =
     bind_result (ask_totals deps q extra numbers) (\<lambda>(summary, indexed).
     bind_result (if ro_size q = 0 then Inr empty_page else scan_page deps q extra start) (\<lambda>pg.
     bind_result (if \<not> ro_facets q then Inr None
                  else bind_result (scoped_numbers q extra numbers) (\<lambda>s.
                    (case rg_distribution deps s of None \<Rightarrow> Inl Search_failed | Some f \<Rightarrow> Inr (Some f)))) (\<lambda>facets.
     bind_result (page_sources deps q extra pg) (\<lambda>sources.
     bind_result (attach_range_merge_numbers deps (ro_space q) sources (map (to_item (ro_space q) sources) (sg_rows pg))) (\<lambda>items.
       Inr \<lparr>rx_summary = summary_of (if extra = None then int (length numbers) else total_of summary)
              (if extra = None then int (ro_total q) else total_of summary) summary,
            rx_items = items, rx_missing = max 0 (int (length numbers) - indexed), rx_unresolved = unresolved,
            rx_next = next_cursor deps q pg, rx_facets = facets\<rparr>)))))"

definition run_range :: "'f range_deps \<Rightarrow> 'f \<Rightarrow> range_request \<Rightarrow> (range_failure, 'f range_result) result" where
  "run_range deps no_facets q =
     bind_result (build_extra deps q) (\<lambda>(extra, unresolved).
     bind_result (start_after deps q) (\<lambda>start.
       (let numbers = list_pull_request_numbers_in_range (rs_repository (ro_space q)) (rs_branch (ro_space q)) (rs_epoch (ro_space q))
                        (ro_from q) (ro_to q) (rg_db deps 0) in
        if numbers = [] then run_bare deps q extra unresolved start no_facets
        else run_indexed deps q extra unresolved start numbers)))"

end
