(* ===== verification/Api_Pages.thy ===== *)
theory Api_Pages
  imports Api_Range
begin

text \<open>
  Reading a range page by page (\<open>apps/search-api/src/sequence/range.ts\<close>): a client asks again with the cursor of
  the answer until there is none. Between two pages, and between two queries of one page, others write; the range itself
  does not change within its epoch.
\<close>

section \<open>The client\<close>

text \<open>At most so many pages; \<open>None\<close> when there are more. The \<open>i\<close>-th page is answered with its own dependencies.\<close>

fun read_range :: "(nat \<Rightarrow> 'f range_deps) \<Rightarrow> 'f \<Rightarrow> range_request \<Rightarrow> nat \<Rightarrow> nat \<Rightarrow> (range_failure, range_item list) result option" where
  "read_range deps no_facets q 0 i = None"
| "read_range deps no_facets q (Suc n) i =
     (case run_range (deps i) no_facets q of
        Inl e \<Rightarrow> Some (Inl e)
      | Inr page \<Rightarrow>
          (case rx_next page of
             None \<Rightarrow> Some (Inr (rx_items page))
           | Some c \<Rightarrow>
               map_option (\<lambda>r. bind_result r (\<lambda>items. Inr (rx_items page @ items)))
                 (read_range deps no_facets (q\<lparr>ro_cursor := Some c\<rparr>) n (Suc i))))"

section \<open>One scan\<close>

definition row_pair :: "merge_row \<Rightarrow> int \<times> int option" where
  "row_pair r = (ms_seq r, ms_pr r)"

text \<open>A row is wanted when there is no query or the index has its pull request among the answers to the query.\<close>

definition pair_wanted :: "es_query option \<Rightarrow> (int \<Rightarrow> bool) \<Rightarrow> int \<times> int option \<Rightarrow> bool" where
  "pair_wanted extra found p \<longleftrightarrow> extra = None \<or> (case snd p of None \<Rightarrow> False | Some n \<Rightarrow> found n)"

definition pairs_after :: "int \<Rightarrow> (int \<times> int option) list \<Rightarrow> (int \<times> int option) list" where
  "pairs_after scanned ps = filter (\<lambda>p. scanned < fst p) ps"

text \<open>What the code relies on: the range stays as it is, and the index answers a query for some pull requests the same way each time.\<close>

definition range_stable :: "'f range_deps \<Rightarrow> range_request \<Rightarrow> (int \<times> int option) list \<Rightarrow> bool" where
  "range_stable deps q ps \<longleftrightarrow>
     (\<forall>k. map row_pair (find_range (rs_repository (ro_space q)) (rs_branch (ro_space q)) (rs_epoch (ro_space q)) (ro_from q) (ro_to q)
       (rg_db deps k)) = ps)"

definition index_stable :: "'f range_deps \<Rightarrow> range_request \<Rightarrow> es_query option \<Rightarrow> (int \<Rightarrow> bool) \<Rightarrow> bool" where
  "index_stable deps q extra found \<longleftrightarrow>
     (\<forall>numbers s hits. scoped_numbers q extra numbers = Inr s \<longrightarrow> rg_search deps s (length numbers) = Some hits \<longrightarrow>
        (\<forall>n. Some n \<in> pu_number ` set hits \<longleftrightarrow> n \<in> set numbers \<and> found n))"

lemma fill_page_spec:
  "fill_page limit matched rs page scanned = (page', scanned', full) \<Longrightarrow> length page \<le> limit \<Longrightarrow>
    page' = take limit (page @ filter matched rs) \<and> (full \<longleftrightarrow> limit < length (page @ filter matched rs))"
proof (induction limit matched rs page scanned rule: fill_page.induct)
  case (2 limit matched r rs page scanned)
  show ?case
  proof (cases "matched r \<and> limit \<le> length page")
    case False
    with 2 show ?thesis by (cases "matched r") auto
  qed (use 2 in auto)
qed simp

lemma add_sources_dom: "add_sources hits m n \<noteq> None \<longleftrightarrow> Some n \<in> pu_number ` set hits \<or> m n \<noteq> None"
proof (induction hits arbitrary: m)
  case (Cons h hits)
  have "add_sources (h # hits) m = add_sources hits (case pu_number h of None \<Rightarrow> m | Some k \<Rightarrow> m(k \<mapsto> h))"
    by (simp add: add_sources_def)
  with Cons show ?case by (auto split: option.splits)
qed (simp add: add_sources_def)

lemma set_numbers_of_rows [simp]: "set (numbers_of_rows rows) = {n. \<exists>r \<in> set rows. ms_pr r = Some n}"
  by (force simp: numbers_of_rows_def unique_def map_filter_def)

text \<open>The sources known so far are right, and after a chunk they decide each of its rows.\<close>

definition sources_right :: "es_query option \<Rightarrow> (int \<Rightarrow> bool) \<Rightarrow> (int \<rightharpoonup> pull_source) \<Rightarrow> bool" where
  "sources_right extra found sources \<longleftrightarrow> extra = None \<or> (\<forall>n. sources n \<noteq> None \<longrightarrow> found n)"

lemma chunk_sources_found:
  assumes "index_stable deps q extra found" "chunk_sources deps q extra rows sources = Inr known" "sources_right extra found sources"
  shows "sources_right extra found known"
    and "extra \<noteq> None \<Longrightarrow> r \<in> set rows \<Longrightarrow> ms_pr r = Some n \<Longrightarrow> known n \<noteq> None \<longleftrightarrow> found n"
proof -
  have *: "(known n \<noteq> None \<longrightarrow> found n) \<and> (n \<in> set (numbers_of_rows rows) \<longrightarrow> (known n \<noteq> None \<longleftrightarrow> found n))"
    if extra: "extra \<noteq> None" for n
  proof (cases "numbers_of_rows rows = []")
    case True
    with assms(2) extra have "known = sources" by (simp add: chunk_sources_def)
    with True assms(3) extra show ?thesis by (simp add: sources_right_def)
  next
    case False
    with assms(2) extra obtain s hits where s: "scoped_numbers q extra (numbers_of_rows rows) = Inr s"
      "rg_search deps s (length (numbers_of_rows rows)) = Some hits" "known = add_sources hits sources"
      by (auto simp: chunk_sources_def Let_def search_numbers_def bind_result_Inr_iff split: option.splits)
    from assms(1) s(1,2) have "Some n \<in> pu_number ` set hits \<longleftrightarrow> n \<in> set (numbers_of_rows rows) \<and> found n"
      unfolding index_stable_def by blast
    then show ?thesis unfolding s(3) add_sources_dom using assms(3) extra by (auto simp: sources_right_def)
  qed
  then show "sources_right extra found known" by (auto simp: sources_right_def)
  show "extra \<noteq> None \<Longrightarrow> r \<in> set rows \<Longrightarrow> ms_pr r = Some n \<Longrightarrow> known n \<noteq> None \<longleftrightarrow> found n" using *[of n] by auto
qed

lemma row_matched_wanted:
  assumes "index_stable deps q extra found" "chunk_sources deps q extra rows sources = Inr known"
    and "sources_right extra found sources" "r \<in> set rows"
  shows "row_matched extra known r \<longleftrightarrow> pair_wanted extra found (row_pair r)"
proof (cases "extra = None")
  case False
  from chunk_sources_found(2)[OF assms(1-3) False assms(4)] False show ?thesis
    by (auto simp: row_matched_def pair_wanted_def row_pair_def split: option.splits)
qed (simp add: row_matched_def pair_wanted_def)

lemma next_chunk_pairs:
  assumes "range_stable deps q ps" "ro_from q \<le> scanned"
  shows "map row_pair (next_chunk deps q k scanned) = take (rg_chunk deps) (pairs_after scanned ps)"
proof -
  let ?range = "\<lambda>low. find_range (rs_repository (ro_space q)) (rs_branch (ro_space q)) (rs_epoch (ro_space q)) low (ro_to q) (rg_db deps k)"
  have "?range scanned = filter (\<lambda>r. scanned < ms_seq r) (?range (ro_from q))"
    using assms(2) by (auto simp: find_range_def intro!: filter_cong)
  then have "map row_pair (?range scanned) = pairs_after scanned (map row_pair (?range (ro_from q)))"
    by (simp add: pairs_after_def filter_map o_def row_pair_def)
  also have "map row_pair (?range (ro_from q)) = ps" using assms(1) by (simp add: range_stable_def)
  finally show ?thesis by (simp add: next_chunk_def find_range_page_def take_map[symmetric])
qed

lemma pairs_after_last:
  assumes "sorted_wrt (<) (map fst ps)" "take c (pairs_after scanned ps) = xs" "xs \<noteq> []"
  shows "pairs_after (fst (last xs)) ps = drop c (pairs_after scanned ps)"
proof -
  let ?L = "pairs_after scanned ps"
  have sorted: "sorted_wrt (<) (map fst ?L)" using assms(1) by (simp add: pairs_after_def sorted_wrt_map sorted_wrt_filter)
  have low: "scanned < fst (last xs)" using last_in_set[OF assms(3)] assms(2) by (auto simp: pairs_after_def dest!: in_set_takeD)
  then have "pairs_after (fst (last xs)) ps = pairs_after (fst (last xs)) ?L"
    by (auto simp: pairs_after_def intro!: filter_cong)
  also have "\<dots> = pairs_after (fst (last xs)) (xs @ drop c ?L)" by (simp add: assms(2)[symmetric])
  also have "\<dots> = drop c ?L"
  proof -
    have split: "sorted_wrt (<) (map fst (xs @ drop c ?L))" using sorted by (simp add: assms(2)[symmetric])
    have "pairs_after (fst (last xs)) xs = []"
    proof -
      have "sorted_wrt (<) (map fst (butlast xs @ [last xs]))" using split assms(3) by (simp add: sorted_wrt_append)
      then have "\<forall>x \<in> set (butlast xs). fst x < fst (last xs)" by (simp add: sorted_wrt_append)
      then have "\<forall>x \<in> set (butlast xs @ [last xs]). \<not> fst (last xs) < fst x" by auto
      then show ?thesis unfolding append_butlast_last_id[OF assms(3)] by (simp add: pairs_after_def filter_empty_conv)
    qed
    moreover have "\<forall>x \<in> set (drop c ?L). fst (last xs) < fst x" using split assms(3) by (auto simp: sorted_wrt_append)
    then have "pairs_after (fst (last xs)) (drop c ?L) = drop c ?L" by (simp add: pairs_after_def)
    ultimately show ?thesis by (simp add: pairs_after_def)
  qed
  finally show ?thesis .
qed

lemma append_take_more: "take n (xs @ ys @ zs) = take n (xs @ ys)" if "n < length (xs @ ys)"
  using that by (simp flip: append_assoc)

text \<open>The page of a scan: the wanted rows after the start, as many as fit, and the last of them when there are more.\<close>

definition page_spec :: "nat \<Rightarrow> (int \<times> int option) list \<Rightarrow> scanned_page \<Rightarrow> bool" where
  "page_spec limit wanted pg \<longleftrightarrow>
     map row_pair (sg_rows pg) = take limit wanted \<and>
     sg_complete pg = (if limit < length wanted then Some (fst (last (take limit wanted))) else None)"

text \<open>How a scan goes on after a chunk.\<close>

lemma scan_chunks_cases [consumes 2, case_names empty full short again]:
  fixes deps :: "'f range_deps"
  assumes "scan_chunks deps q extra k scanned page sources = Inr pg" "length page \<le> ro_size q"
  obtains "next_chunk deps q k scanned = []" "pg = \<lparr>sg_rows = page, sg_sources = sources, sg_complete = None\<rparr>"
  | known page' scanned' where "chunk_sources deps q extra (next_chunk deps q k scanned) sources = Inr known"
      "fill_page (ro_size q) (row_matched extra known) (next_chunk deps q k scanned) page scanned = (page', scanned', True)"
      "pg = \<lparr>sg_rows = page', sg_sources = known, sg_complete = (if page' = [] then None else Some (ms_seq (last page')))\<rparr>"
  | known page' scanned' where "chunk_sources deps q extra (next_chunk deps q k scanned) sources = Inr known"
      "fill_page (ro_size q) (row_matched extra known) (next_chunk deps q k scanned) page scanned = (page', scanned', False)"
      "length (next_chunk deps q k scanned) < rg_chunk deps" "pg = \<lparr>sg_rows = page', sg_sources = known, sg_complete = None\<rparr>"
  | known page' scanned' where "next_chunk deps q k scanned \<noteq> []"
      "chunk_sources deps q extra (next_chunk deps q k scanned) sources = Inr known"
      "fill_page (ro_size q) (row_matched extra known) (next_chunk deps q k scanned) page scanned = (page', scanned', False)"
      "\<not> length (next_chunk deps q k scanned) < rg_chunk deps"
      "scan_chunks deps q extra (Suc k) scanned' page' known = Inr pg"
  using assms(1)[unfolded scan_chunks.simps[of deps q extra k scanned page sources] Let_def] assms(2)
  by (simp split: if_splits sum.splits prod.splits)

text \<open>The wanted rows of a chunk, and what is on the page after it.\<close>

lemma chunk_page:
  assumes "range_stable deps q ps" "index_stable deps q extra found" "ro_from q \<le> scanned" "length page \<le> ro_size q"
    and "sources_right extra found sources"
    and "chunk_sources deps q extra (next_chunk deps q k scanned) sources = Inr known"
    and "fill_page (ro_size q) (row_matched extra known) (next_chunk deps q k scanned) page scanned = (page', scanned', full)"
  defines "wanted \<equiv> filter (pair_wanted extra found) (take (rg_chunk deps) (pairs_after scanned ps))"
  shows "map row_pair page' = take (ro_size q) (map row_pair page @ wanted)"
    and "full \<longleftrightarrow> ro_size q < length (map row_pair page @ wanted)"
proof -
  let ?rows = "next_chunk deps q k scanned"
  have matched: "row_matched extra known r \<longleftrightarrow> pair_wanted extra found (row_pair r)" if "r \<in> set ?rows" for r
    by (rule row_matched_wanted[OF assms(2,6,5) that])
  have filtered: "map row_pair (filter (row_matched extra known) ?rows) = wanted"
    unfolding wanted_def next_chunk_pairs[OF assms(1,3), symmetric, of k]
    by (auto simp: filter_map o_def matched intro!: arg_cong[of _ _ "map row_pair"] filter_cong)
  note spec = fill_page_spec[OF assms(7,4)]
  show "map row_pair page' = take (ro_size q) (map row_pair page @ wanted)"
    unfolding filtered[symmetric] using spec by (simp only: take_map[symmetric] map_append[symmetric])
  show "full \<longleftrightarrow> ro_size q < length (map row_pair page @ wanted)"
    unfolding filtered[symmetric] using spec by simp
qed

lemma scan_chunks_spec:
  fixes deps :: "'f range_deps"
  assumes "range_stable deps q ps" "index_stable deps q extra found" "sorted_wrt (<) (map fst ps)" "0 < rg_chunk deps" "0 < ro_size q"
    and "scan_chunks deps q extra k scanned page sources = Inr pg" "ro_from q \<le> scanned" "length page \<le> ro_size q"
    and "sources_right extra found sources"
  shows "page_spec (ro_size q) (map row_pair page @ filter (pair_wanted extra found) (pairs_after scanned ps)) pg"
  using assms(6-9)
proof (induction "nat (ro_to q - scanned)" arbitrary: k scanned page sources rule: less_induct)
  case less
  let ?rows = "next_chunk deps q k scanned" and ?W = "filter (pair_wanted extra found)"
  let ?first = "take (rg_chunk deps) (pairs_after scanned ps)" and ?rest = "drop (rg_chunk deps) (pairs_after scanned ps)"
  note pairs = next_chunk_pairs[OF assms(1) less.prems(2), of k] and page = chunk_page[OF assms(1,2) less.prems(2-4)]
  have split: "?W (pairs_after scanned ps) = ?W ?first @ ?W ?rest" by (metis append_take_drop_id filter_append)
  from less.prems(1,3) show ?case
  proof (cases rule: scan_chunks_cases)
    case empty
    with pairs assms(4) have "pairs_after scanned ps = []" by simp
    with empty less.prems(3) show ?thesis by (simp add: page_spec_def)
  next
    case (full known page' scanned')
    note page' = page[OF full(1,2)]
    from page' assms(5) have nonempty: "page' \<noteq> []" by (auto dest: arg_cong[of _ _ length])
    then have "ms_seq (last page') = fst (last (map row_pair page'))" by (simp add: last_map row_pair_def)
    with page' nonempty show ?thesis
      by (simp add: full(3) page_spec_def split append_take_more[of "ro_size q" "map row_pair page"])
  next
    case (short known page' scanned')
    have "?rest = []" using arg_cong[OF pairs, of length] short(3) by (simp add: min_def split: if_splits)
    with split page[OF short(1,2)] show ?thesis by (simp add: short(4) page_spec_def)
  next
    case (again known page' scanned')
    note page' = page[OF again(2,3)]
    have scanned': "scanned' = ms_seq (last ?rows)" by (rule fill_page_scanned[OF again(3,1)])
    then have low: "scanned' = fst (last (map row_pair ?rows))" using again(1) by (simp add: last_map row_pair_def)
    have rest: "pairs_after scanned' ps = ?rest"
      unfolding low by (rule pairs_after_last[OF assms(3) pairs[symmetric]]) (use again(1) in simp)
    have bounds: "scanned < scanned'" "scanned' \<le> ro_to q" using chunk_bounds[of "last ?rows" deps q k scanned] again(1) scanned' by simp_all
    have "length page' \<le> ro_size q" using arg_cong[OF page'(1), of length] by simp
    from less.hyps[OF _ again(5) _ this chunk_sources_found(1)[OF assms(2) again(2) less.prems(4)]] bounds less.prems(2)
    have "page_spec (ro_size q) (map row_pair page' @ ?W (pairs_after scanned' ps)) pg" by auto
    with page' show ?thesis by (simp add: rest split)
  qed
qed

section \<open>One page\<close>

lemma scan_page_spec:
  assumes "range_stable deps q ps" "index_stable deps q extra found" "sorted_wrt (<) (map fst ps)" "0 < rg_chunk deps" "0 < ro_size q"
    and "scan_page deps q extra start = Inr pg" "ro_from q \<le> start"
  shows "page_spec (ro_size q) (filter (pair_wanted extra found) (pairs_after start ps)) pg"
  using scan_chunks_spec[OF assms(1-5) assms(6)[unfolded scan_page_def] assms(7)] by (simp add: sources_right_def)

lemma with_numbers_seqs: "with_numbers items fs = Inr items' \<Longrightarrow> map ri_seq items' = map ri_seq items"
  by (induction items fs arbitrary: items' rule: with_numbers.induct) (auto split: option.splits sum.splits)

lemma attach_seqs: "attach_range_merge_numbers deps space sources items = Inr items' \<Longrightarrow> map ri_seq items' = map ri_seq items"
  by (auto simp: attach_range_merge_numbers_def with_numbers_seqs split: if_splits)

lemma item_seqs [simp]: "ri_seq (to_item space sources r) = ms_seq r" "ri_seq (to_unindexed_item space r) = ms_seq r"
  by (simp_all add: to_item_def to_unindexed_item_def split: option.split)

text \<open>A page of the whole answer: the positions of its items, and its cursor when there are more.\<close>

definition answer_spec :: "'f range_deps \<Rightarrow> range_request \<Rightarrow> (int \<times> int option) list \<Rightarrow> 'f range_result \<Rightarrow> bool" where
  "answer_spec deps q wanted page \<longleftrightarrow>
     map ri_seq (rx_items page) = map fst (take (ro_size q) wanted) \<and>
     rx_next page =
       (if ro_size q < length wanted
        then Some (encode_range_cursor (rg_signing deps) (fst (last (take (ro_size q) wanted))) (anchor_of q) (fingerprint_of deps q) (rg_now deps))
        else None)"

lemma page_answers:
  assumes "page_spec (ro_size q) wanted pg" "map ri_seq (rx_items page) = map ms_seq (sg_rows pg)" "rx_next page = next_cursor deps q pg"
  shows "answer_spec deps q wanted page"
proof -
  have "map ms_seq (sg_rows pg) = map fst (map row_pair (sg_rows pg))" by (simp add: row_pair_def)
  with assms show ?thesis by (simp add: answer_spec_def page_spec_def next_cursor_def)
qed

lemma run_indexed_spec:
  assumes "range_stable deps q ps" "index_stable deps q extra found" "sorted_wrt (<) (map fst ps)" "0 < rg_chunk deps" "0 < ro_size q"
    and "run_indexed deps q extra unresolved start numbers = Inr page" "ro_from q \<le> start"
  shows "answer_spec deps q (filter (pair_wanted extra found) (pairs_after start ps)) page"
proof -
  from assms(5,6) obtain pg sources where pg: "scan_page deps q extra start = Inr pg" and
    items: "attach_range_merge_numbers deps (ro_space q) sources (map (to_item (ro_space q) sources) (sg_rows pg)) = Inr (rx_items page)" and
    cursor: "rx_next page = next_cursor deps q pg"
    by (clarsimp simp: run_indexed_def)
  show ?thesis
    by (rule page_answers[OF scan_page_spec[OF assms(1-5) pg assms(7)] _ cursor]) (use attach_seqs[OF items] in \<open>simp add: o_def\<close>)
qed

lemma no_pull_requests:
  assumes "range_stable deps q ps" "p \<in> set ps"
    and "list_pull_request_numbers_in_range (rs_repository (ro_space q)) (rs_branch (ro_space q)) (rs_epoch (ro_space q)) (ro_from q) (ro_to q)
      (rg_db deps k) = []"
  shows "snd p = None"
proof -
  let ?rows = "find_range (rs_repository (ro_space q)) (rs_branch (ro_space q)) (rs_epoch (ro_space q)) (ro_from q) (ro_to q) (rg_db deps k)"
  from assms(1,2) obtain r where r: "r \<in> set ?rows" "p = row_pair r" unfolding range_stable_def by (metis imageE set_map)
  have "\<forall>n. ms_pr r \<noteq> Some n"
  proof (intro allI notI)
    fix n assume n: "ms_pr r = Some n"
    have "n \<in> set (list_pull_request_numbers_in_range (rs_repository (ro_space q)) (rs_branch (ro_space q)) (rs_epoch (ro_space q)) (ro_from q)
        (ro_to q) (rg_db deps k))"
      using r(1) n by (force simp: list_pull_request_numbers_in_range_def find_range_def ordered_rows_def map_filter_def)
    then show False by (simp add: assms(3))
  qed
  then show ?thesis by (simp add: r(2) row_pair_def)
qed

lemma run_bare_spec:
  assumes "range_stable deps q ps" "index_stable deps q extra found" "sorted_wrt (<) (map fst ps)" "0 < rg_chunk deps" "0 < ro_size q"
    and "run_bare deps q extra unresolved start no_facets = Inr page" "ro_from q \<le> start" "\<forall>p \<in> set ps. snd p = None"
  shows "answer_spec deps q (filter (pair_wanted extra found) (pairs_after start ps)) page"
proof -
  from assms(6) obtain pg where
    pg: "(if ro_size q = 0 \<or> extra \<noteq> None then Inr empty_page else scan_page deps q None start) = Inr pg" and
    items: "attach_range_merge_numbers deps (ro_space q) Map.empty (map (to_unindexed_item (ro_space q)) (sg_rows pg)) = Inr (rx_items page)" and
    cursor: "rx_next page = next_cursor deps q pg"
    by (auto simp: run_bare_def)
  have "page_spec (ro_size q) (filter (pair_wanted extra found) (pairs_after start ps)) pg"
  proof (cases "extra = None")
    case True
    with pg assms(5) have "scan_page deps q extra start = Inr pg" by simp
    from scan_page_spec[OF assms(1-5) this assms(7)] show ?thesis .
  next
    case False
    with assms(8) have "filter (pair_wanted extra found) (pairs_after start ps) = []"
      by (auto simp: filter_empty_conv pair_wanted_def pairs_after_def)
    with False pg show ?thesis by (auto simp: page_spec_def empty_page_def)
  qed
  then show ?thesis by (rule page_answers[OF _ _ cursor]) (use attach_seqs[OF items] in \<open>simp add: o_def\<close>)
qed

section \<open>The whole range\<close>

text \<open>The failures of the services a page relies on; a refused cursor is none of them.\<close>

fun service_failure :: "range_failure \<Rightarrow> bool" where
  "service_failure (Cursor_refused c) = False"
| "service_failure e = True"

lemma scoped_numbers_failure: "scoped_numbers q extra numbers = Inl e \<Longrightarrow> service_failure e"
  by (auto simp: scoped_numbers_def split: sum.splits)

lemma search_numbers_failure: "search_numbers deps q extra numbers = Inl e \<Longrightarrow> service_failure e"
  by (auto simp: search_numbers_def bind_result_Inl_iff scoped_numbers_failure split: option.splits)

lemma scan_chunks_failure: "scan_chunks deps q extra k scanned page sources = Inl e \<Longrightarrow> service_failure e"
proof (induction deps q extra k scanned page sources rule: scan_chunks.induct)
  case (1 deps q extra k scanned page sources)
  note unfolded = "1.prems"[unfolded scan_chunks.simps[of deps q extra k scanned page sources] Let_def]
  show ?case
  proof (cases "chunk_sources deps q extra (next_chunk deps q k scanned) sources")
    case (Inl e')
    with unfolded have "e' = e" by (simp split: if_splits)
    with Inl show ?thesis by (auto simp: chunk_sources_def Let_def bind_result_Inl_iff search_numbers_failure split: if_splits)
  next
    case (Inr known)
    with unfolded "1.IH"[OF _ refl _ Inr] show ?thesis by (simp split: if_splits prod.splits)
  qed
qed

lemma attach_failure: "attach_range_merge_numbers deps space sources items = Inl e \<Longrightarrow> service_failure e"
proof -
  have "with_numbers items fs = Inl e \<Longrightarrow> service_failure e" for fs
    by (induction items fs rule: with_numbers.induct) (auto simp: bind_result_Inl_iff split: option.splits sum.splits)
  then show "attach_range_merge_numbers deps space sources items = Inl e \<Longrightarrow> service_failure e"
    by (auto simp: attach_range_merge_numbers_def split: if_splits)
qed

lemma scan_page_failure: "scan_page deps q extra start = Inl e \<Longrightarrow> service_failure e"
  by (simp add: scan_page_def scan_chunks_failure)

lemma ask_totals_failure: "ask_totals deps q extra numbers = Inl e \<Longrightarrow> service_failure e"
  by (auto simp: ask_totals_def bind_result_Inl_iff Let_def dest: scoped_numbers_failure split: option.splits)

lemma page_sources_failure: "page_sources deps q extra pg = Inl e \<Longrightarrow> service_failure e"
  by (auto simp: page_sources_def bind_result_Inl_iff Let_def dest: search_numbers_failure split: if_splits)

lemma run_indexed_failure: "run_indexed deps q extra unresolved start numbers = Inl e \<Longrightarrow> service_failure e"
  by (auto simp: run_indexed_def bind_result_Inl_iff split: option.splits if_splits
      dest: scoped_numbers_failure scan_page_failure attach_failure ask_totals_failure page_sources_failure)

lemma run_bare_failure: "run_bare deps q extra unresolved start no_facets = Inl e \<Longrightarrow> service_failure e"
  by (auto simp: run_bare_def bind_result_Inl_iff split: if_splits dest: scan_page_failure attach_failure)

lemma build_extra_failure: "build_extra deps q = Inl e \<Longrightarrow> service_failure e"
  by (auto simp: build_extra_def split: option.splits sum.splits)

section \<open>Reading all of it\<close>

text \<open>
  The clauses of the query, the key of the cursors and the hash stay the same; a page is asked for before the cursor of
  the one before it expires.
\<close>

definition reading_ok :: "(nat \<Rightarrow> 'f range_deps) \<Rightarrow> range_request \<Rightarrow> es_query option \<Rightarrow> (int \<Rightarrow> bool) \<Rightarrow> (int \<times> int option) list \<Rightarrow> bool" where
  "reading_ok deps q extra found ps \<longleftrightarrow>
     (\<forall>i. range_stable (deps i) q ps \<and> index_stable (deps i) q extra found \<and> 0 < rg_chunk (deps i) \<and>
        (\<forall>extra' unresolved. build_extra (deps i) q = Inr (extra', unresolved) \<longrightarrow> extra' = extra) \<and>
        rg_signing (deps i) = rg_signing (deps 0) \<and> rg_hash (deps i) = rg_hash (deps 0) \<and>
        rg_now (deps (Suc i)) < rg_now (deps i) + CURSOR_TTL_MS) \<and>
     codec_ok (rg_signing (deps 0)) (anchor_of q) (fingerprint_of (deps 0) q)"

lemma cursor_simps:
  "ro_space (q\<lparr>ro_cursor := c\<rparr>) = ro_space q" "ro_scope (q\<lparr>ro_cursor := c\<rparr>) = ro_scope q" "ro_ast (q\<lparr>ro_cursor := c\<rparr>) = ro_ast q"
  "ro_from (q\<lparr>ro_cursor := c\<rparr>) = ro_from q" "ro_to (q\<lparr>ro_cursor := c\<rparr>) = ro_to q"
  "ro_scope_version (q\<lparr>ro_cursor := c\<rparr>) = ro_scope_version q"
  by simp_all

lemma cursor_irrelevant [simp]:
  "build_extra deps (q\<lparr>ro_cursor := c\<rparr>) = build_extra deps q" "anchor_of (q\<lparr>ro_cursor := c\<rparr>) = anchor_of q"
  "fingerprint_of deps (q\<lparr>ro_cursor := c\<rparr>) = fingerprint_of deps q"
  "range_stable deps (q\<lparr>ro_cursor := c\<rparr>) ps = range_stable deps q ps"
  "index_stable deps (q\<lparr>ro_cursor := c\<rparr>) extra found = index_stable deps q extra found"
  unfolding build_extra_def anchor_of_def fingerprint_of_def range_stable_def index_stable_def scoped_numbers_def cursor_simps by (rule refl)+

lemma reading_ok_cursor [simp]: "reading_ok deps (q\<lparr>ro_cursor := c\<rparr>) extra found ps = reading_ok deps q extra found ps"
  by (simp add: reading_ok_def)

lemma sorted_pairs:
  assumes "range_stable deps q ps" "table_ok (merges (rg_db deps 0))"
  shows "sorted_wrt (<) (map fst ps)" "p \<in> set ps \<Longrightarrow> ro_from q < fst p \<and> fst p \<le> ro_to q"
proof -
  let ?rows = "find_range (rs_repository (ro_space q)) (rs_branch (ro_space q)) (rs_epoch (ro_space q)) (ro_from q) (ro_to q) (rg_db deps 0)"
  have ps: "ps = map row_pair ?rows" using assms(1) by (simp add: range_stable_def)
  have fst: "map fst ps = map ms_seq ?rows" by (simp add: ps row_pair_def)
  have "distinct (map ms_seq (ordered_rows repository branch epoch (rg_db deps 0)))" for repository branch epoch
    using space_keys_distinct(1)[OF assms(2)] by (simp add: ordered_rows_def distinct_map)
  then have "distinct (map ms_seq ?rows)" by (simp add: find_range_def distinct_map_filter)
  moreover have "sorted (map ms_seq ?rows)" by (simp add: find_range_def ordered_rows_def sorted_filter)
  ultimately show "sorted_wrt (<) (map fst ps)" unfolding fst by (simp add: strict_sorted_iff)
  show "p \<in> set ps \<Longrightarrow> ro_from q < fst p \<and> fst p \<le> ro_to q" by (auto simp: ps row_pair_def find_range_def)
qed

lemma run_range_spec:
  assumes "reading_ok deps q extra found ps" "sorted_wrt (<) (map fst ps)" "0 < ro_size q"
    and "start_after (deps i) q = Inr start" "ro_from q \<le> start"
  shows "case run_range (deps i) no_facets q of
      Inl e \<Rightarrow> service_failure e
    | Inr page \<Rightarrow> answer_spec (deps i) q (filter (pair_wanted extra found) (pairs_after start ps)) page"
proof (cases "build_extra (deps i) q")
  case (Inl e)
  then show ?thesis by (simp add: run_range_def build_extra_failure)
next
  case (Inr x)
  with assms(1) obtain unresolved where extra: "build_extra (deps i) q = Inr (extra, unresolved)"
    by (cases x) (auto simp: reading_ok_def)
  let ?numbers = "list_pull_request_numbers_in_range (rs_repository (ro_space q)) (rs_branch (ro_space q)) (rs_epoch (ro_space q)) (ro_from q)
    (ro_to q) (rg_db (deps i) 0)"
  from assms(1) have ok: "range_stable (deps i) q ps" "index_stable (deps i) q extra found" "0 < rg_chunk (deps i)"
    by (auto simp: reading_ok_def)
  have run: "run_range (deps i) no_facets q =
      (if ?numbers = [] then run_bare (deps i) q extra unresolved start no_facets
       else run_indexed (deps i) q extra unresolved start ?numbers)"
    by (simp add: run_range_def extra assms(4) Let_def)
  show ?thesis
  proof (cases "?numbers = []")
    case True
    with no_pull_requests[OF ok(1)] have "\<forall>p \<in> set ps. snd p = None" by blast
    with run_bare_spec[OF ok(1,2) assms(2) ok(3) assms(3) _ assms(5)] run_bare_failure show ?thesis
      by (auto simp: run True split: sum.split)
  next
    case False
    with run_indexed_spec[OF ok(1,2) assms(2) ok(3) assms(3) _ assms(5)] run_indexed_failure show ?thesis
      by (auto simp: run split: sum.split)
  qed
qed

lemma read_range_spec:
  assumes "sorted_wrt (<) (map fst ps)" "0 < ro_size q" "\<forall>p \<in> set ps. ro_from q < fst p \<and> fst p \<le> ro_to q \<and> is_safe_integer (fst p)"
  shows "reading_ok deps q extra found ps \<Longrightarrow> start_after (deps i) q = Inr start \<Longrightarrow> ro_from q \<le> start \<Longrightarrow>
    length (filter (pair_wanted extra found) (pairs_after start ps)) < n \<Longrightarrow>
    \<exists>r. read_range deps no_facets q n i = Some r \<and>
      (case r of
         Inl e \<Rightarrow> service_failure e
       | Inr items \<Rightarrow> map ri_seq items = map fst (filter (pair_wanted extra found) (pairs_after start ps)))"
  using assms(2,3)
proof (induction n arbitrary: q i start)
  case (Suc n)
  let ?W = "filter (pair_wanted extra found) (pairs_after start ps)"
  note spec = run_range_spec[OF Suc.prems(1) assms(1) Suc.prems(5,2,3), of no_facets]
  show ?case
  proof (cases "run_range (deps i) no_facets q")
    case (Inl e)
    with spec show ?thesis by simp
  next
    case (Inr page)
    with spec have page: "answer_spec (deps i) q ?W page" by simp
    show ?thesis
    proof (cases "ro_size q < length ?W")
      case False
      with page Inr show ?thesis by (simp add: answer_spec_def)
    next
      case True
      let ?first = "take (ro_size q) ?W"
      let ?next = "fst (last ?first)"
      let ?c = "encode_range_cursor (rg_signing (deps i)) ?next (anchor_of q) (fingerprint_of (deps i) q) (rg_now (deps i))"
      have nonempty: "?first \<noteq> []" using True Suc.prems(5) by auto
      have "last ?first \<in> set ?W" using last_in_set[OF nonempty] by (meson in_set_takeD)
      then have last: "last ?first \<in> set ps" "start < ?next" by (auto simp: pairs_after_def)
      have keys: "fingerprint_of (deps j) q = fingerprint_of (deps 0) q" "rg_signing (deps j) = rg_signing (deps 0)" for j
        using Suc.prems(1) unfolding reading_ok_def fingerprint_of_def by metis+
      have "codec_ok (rg_signing (deps 0)) (anchor_of q) (fingerprint_of (deps 0) q)" "rg_now (deps (Suc i)) < rg_now (deps i) + CURSOR_TTL_MS"
        using Suc.prems(1) by (auto simp: reading_ok_def)
      then have "decode_range_cursor (rg_signing (deps 0)) ?c (anchor_of q) (fingerprint_of (deps 0) q) (rg_now (deps (Suc i))) = Inr ?next"
        using last(1) Suc.prems(6) unfolding keys[of i] by (intro decode_encode_range) (auto simp: anchor_of_def)
      then have start': "start_after (deps (Suc i)) (q\<lparr>ro_cursor := Some ?c\<rparr>) = Inr ?next"
        by (simp add: start_after_def keys[of "Suc i"])
      have split: "?W = ?first @ filter (pair_wanted extra found) (pairs_after ?next ps)"
      proof -
        have "sorted_wrt (<) (map fst (filter (pair_wanted extra found) ps))" using assms(1) by (simp add: sorted_wrt_map sorted_wrt_filter)
        moreover have "pairs_after k (filter (pair_wanted extra found) ps) = filter (pair_wanted extra found) (pairs_after k ps)" for k
          by (simp add: pairs_after_def conj_commute)
        ultimately show ?thesis using pairs_after_last[of "filter (pair_wanted extra found) ps" "ro_size q" start ?first] nonempty
          by (metis append_take_drop_id)
      qed
      have "length ?W = length ?first + length (filter (pair_wanted extra found) (pairs_after ?next ps))"
        using arg_cong[OF split, of length] by (simp only: length_append)
      moreover have "length ?first = ro_size q" using True by simp
      ultimately have small: "length (filter (pair_wanted extra found) (pairs_after ?next ps)) < n"
        using Suc.prems(4,5) by linarith
      have "\<exists>r. read_range deps no_facets (q\<lparr>ro_cursor := Some ?c\<rparr>) n (Suc i) = Some r \<and>
          (case r of
             Inl e \<Rightarrow> service_failure e
           | Inr items \<Rightarrow> map ri_seq items = map fst (filter (pair_wanted extra found) (pairs_after ?next ps)))"
      proof (rule Suc.IH[OF _ start' _ small])
        show "reading_ok deps (q\<lparr>ro_cursor := Some ?c\<rparr>) extra found ps" using Suc.prems(1) by simp
        show "ro_from (q\<lparr>ro_cursor := Some ?c\<rparr>) \<le> ?next" using Suc.prems(3) last(2) by simp
        show "0 < ro_size (q\<lparr>ro_cursor := Some ?c\<rparr>)" using Suc.prems(5) by simp
        show "\<forall>p \<in> set ps. ro_from (q\<lparr>ro_cursor := Some ?c\<rparr>) < fst p \<and> fst p \<le> ro_to (q\<lparr>ro_cursor := Some ?c\<rparr>) \<and> is_safe_integer (fst p)"
          using Suc.prems(6) by simp
      qed
      then obtain r where r: "read_range deps no_facets (q\<lparr>ro_cursor := Some ?c\<rparr>) n (Suc i) = Some r"
        "case r of Inl e \<Rightarrow> service_failure e | Inr items \<Rightarrow> map ri_seq items = map fst (filter (pair_wanted extra found) (pairs_after ?next ps))"
        by blast
      from page True have "map ri_seq (rx_items page) = map fst ?first" "rx_next page = Some ?c" by (simp_all add: answer_spec_def)
      moreover have "map fst ?W = map fst ?first @ map fst (filter (pair_wanted extra found) (pairs_after ?next ps))"
        unfolding map_append[symmetric] by (rule arg_cong[OF split])
      ultimately show ?thesis using Inr r by (cases r) simp_all
    qed
  qed
qed simp

text \<open>C9: Reading a range page by page gives the range. Whatever the size of the pages and of the
  chunks, as long as the range itself and the answers of the index to the query stay as they
  are and no cursor is left to expire, a client that follows the cursors is done after at most
  one page more than there are commits: its cursors are never refused, and unless a service
  fails it has seen the position of each commit of the range that is wanted, once and in
  order. Without a query each commit is wanted, with one those whose pull request is found.\<close>

theorem pages_cover_the_range:
  assumes "reading_ok deps q extra found ps" "table_ok (merges (rg_db (deps 0) 0))" "0 < ro_size q" "ro_cursor q = None"
    and "- max_safe_integer \<le> ro_from q" "ro_to q \<le> max_safe_integer"
  shows "\<exists>r. read_range deps no_facets q (Suc (length ps)) 0 = Some r \<and>
    (case r of
       Inl e \<Rightarrow> service_failure e
     | Inr items \<Rightarrow> map ri_seq items = map fst (filter (pair_wanted extra found) ps))"
proof -
  from assms(1) have stable: "range_stable (deps 0) q ps" by (simp add: reading_ok_def)
  note ps = sorted_pairs[OF stable assms(2)]
  have all: "pairs_after (ro_from q) ps = ps" using ps(2) by (auto simp: pairs_after_def)
  have "start_after (deps 0) q = Inr (ro_from q)" by (simp add: start_after_def assms(4))
  moreover have "length (filter (pair_wanted extra found) (pairs_after (ro_from q) ps)) < Suc (length ps)" by (simp add: all less_Suc_eq_le)
  moreover have "\<forall>p \<in> set ps. ro_from q < fst p \<and> fst p \<le> ro_to q \<and> is_safe_integer (fst p)"
  proof
    fix p assume "p \<in> set ps"
    from ps(2)[OF this] assms(5,6) show "ro_from q < fst p \<and> fst p \<le> ro_to q \<and> is_safe_integer (fst p)" by (simp add: is_safe_integer_def)
  qed
  ultimately show ?thesis using read_range_spec[OF ps(1) assms(3) _ assms(1), of 0 "ro_from q"] unfolding all by blast
qed

text \<open>A range of three commits, one of them without a pull request, read in pages of two; a cursor is its position in unary.\<close>

definition sample_codec :: cursor_codec where
  "sample_codec =
     \<lparr>cc_body = (\<lambda>p. case p of
          J_object ms \<Rightarrow> (case member ms (js ''c'') of Some (J_int n) \<Rightarrow> (case member ms (js ''x'') of
            Some (J_int x) \<Rightarrow> replicate (nat n) (ch CHR ''1'') @ ch CHR '';'' # replicate (nat (- n)) (ch CHR ''2'') @ ch CHR '';'' #
              replicate (nat x) (ch CHR ''3'') @ ch CHR '';'' # replicate (nat (- x)) (ch CHR ''4'')
          | _ \<Rightarrow> js '';'') | _ \<Rightarrow> js '';'')
        | _ \<Rightarrow> js '';''),
      cc_read = (\<lambda>b. let count = (\<lambda>c. int (length (filter (\<lambda>u. u = ch c) b))) in
          Some (range_payload (count CHR ''1'' - count CHR ''2'')
            \<lparr>ra_repository = 1, ra_branch = js ''main'', ra_epoch = 1, ra_from = 0, ra_to = 3\<rparr> []
            (count CHR ''3'' - count CHR ''4'' - CURSOR_TTL_MS))),
      cc_sign = (\<lambda>b. js ''s'')\<rparr>"

definition sample_row :: "int \<Rightarrow> int option \<Rightarrow> merge_row" where
  "sample_row n pr = new_merge_row \<lparr>in_repository = 1, in_branch = js ''main'', in_epoch = 1, in_seq = n, in_sha = show_int n, in_pr = pr, in_committed = n\<rparr>"

definition sample_range_deps :: "unit range_deps" where
  "sample_range_deps =
     \<lparr>rg_db = (\<lambda>_. \<lparr>db_now = 0, merges = [sample_row 2 None, sample_row 1 (Some 7), sample_row 3 (Some 8)], spaces = [], repos = []\<rparr>),
      rg_zones = (\<lambda>_. None), rg_names = (\<lambda>_. None), rg_search = (\<lambda>_ _. Some []), rg_totals = (\<lambda>_. Some [None]),
      rg_distribution = (\<lambda>_. None), rg_signing = sample_codec, rg_hash = (\<lambda>_. []), rg_chunk = 1, rg_now = - CURSOR_TTL_MS,
      rg_numbers = False, rg_snapshot = None\<rparr>"

definition sample_range :: range_request where
  "sample_range =
     \<lparr>ro_space = \<lparr>rs_repository = 1, rs_branch = js ''main'', rs_epoch = 1, rs_state = Space_ok, rs_head_seq = 3, rs_label = js ''o/n@main''\<rparr>,
      ro_scope = Explicit_scope [1], ro_from = 0, ro_to = 3, ro_size = 2, ro_ast = None, ro_total = 3, ro_scope_version = 1,
      ro_cursor = None, ro_facets = False\<rparr>"

lemma sample_codec_ok: "codec_ok sample_codec (anchor_of sample_range) (fingerprint_of sample_range_deps sample_range)"
  unfolding codec_ok_def reads_back_def
  by (auto simp: sample_codec_def anchor_of_def sample_range_def fingerprint_of_def compute_range_fingerprint_def sample_range_deps_def
      range_payload_def member_def Let_def filter_replicate)

lemma sample_pages_ok: "reading_ok (\<lambda>_. sample_range_deps) sample_range None (\<lambda>_. False) [(1, Some 7), (2, None), (3, Some 8)]"
proof -
  have "range_stable sample_range_deps sample_range [(1, Some 7), (2, None), (3, Some 8)]"
    by (simp add: range_stable_def sample_range_deps_def sample_range_def find_range_def ordered_rows_def space_rows_def sample_row_def
        new_merge_row_def in_space_def row_pair_def sort_key_simps insort_key.simps)
  then show ?thesis
    using sample_codec_ok
    by (simp add: reading_ok_def index_stable_def build_extra_def sample_range_deps_def sample_range_def CURSOR_TTL_MS_def)
qed

theorem pages_cover_the_range_witness:
  "\<exists>items. read_range (\<lambda>_. sample_range_deps) () sample_range 4 0 = Some (Inr items) \<and> map ri_seq items = [1, 2, 3]"
proof -
  have "table_ok (merges (rg_db sample_range_deps 0))" by code_simp
  moreover have "0 < ro_size sample_range" "ro_cursor sample_range = None" "- max_safe_integer \<le> ro_from sample_range"
    "ro_to sample_range \<le> max_safe_integer" by (simp_all add: sample_range_def max_safe_integer_def)
  moreover have four: "Suc (length [(1 :: int, Some (7 :: int)), (2, None), (3, Some 8)]) = 4" by simp
  ultimately obtain r where r: "read_range (\<lambda>_. sample_range_deps) () sample_range 4 0 = Some r"
    "case r of Inl e \<Rightarrow> service_failure e
     | Inr items \<Rightarrow> map ri_seq items = map fst (filter (pair_wanted None (\<lambda>_. False)) [(1, Some 7), (2, None), (3, Some 8)])"
    using pages_cover_the_range[OF sample_pages_ok, of "()", unfolded four] by blast
  have "(case read_range (\<lambda>_. sample_range_deps) () sample_range 4 0 of Some (Inr items) \<Rightarrow> True | _ \<Rightarrow> False)" by code_simp
  with r show ?thesis by (auto simp: pair_wanted_def split: sum.splits)
qed

end
