(* ===== verification/Api_Neighbors.thy ===== *)
theory Api_Neighbors
  imports Api_Range
begin

text \<open>
  The commits around a pull request or a commit of a branch (\<open>apps/search-api/src/sequence/neighbors.ts\<close>). The search
  engine and the printing of dates are parameters; every query sees a state of the database of its own.
\<close>

definition DEFAULT_NEIGHBOR_COUNT :: int where
  "DEFAULT_NEIGHBOR_COUNT = 10"

definition MAX_NEIGHBOR_COUNT :: int where
  "MAX_NEIGHBOR_COUNT = 50"

definition clamp_neighbor_count :: "(jstr \<Rightarrow> int option) \<Rightarrow> json option \<Rightarrow> int" where
  "clamp_neighbor_count number v =
     (case v of
        Some (J_string s) \<Rightarrow>
          if trim s = [] then DEFAULT_NEIGHBOR_COUNT
          else (case number s of
                  None \<Rightarrow> DEFAULT_NEIGHBOR_COUNT
                | Some n \<Rightarrow> if n < 1 then DEFAULT_NEIGHBOR_COUNT else min n MAX_NEIGHBOR_COUNT)
      | _ \<Rightarrow> DEFAULT_NEIGHBOR_COUNT)"

section \<open>Requests and answers\<close>

record commit_source =
  cm_sha :: "jstr option"
  cm_message :: "jstr option"
  cm_author :: "jstr option"

record neighbor_source =
  np_number :: "int option"
  np_title :: "jstr option"
  np_author :: "jstr option"
  np_merged_at :: "jstr option"
  np_state :: "jstr option"

record neighbor_item =
  nb_seq :: int
  nb_is_pull :: bool
  nb_sha :: jstr
  nb_pr :: "int option"
  nb_title :: "jstr option"
  nb_author :: "jstr option"
  nb_merged_at :: "jstr option"
  nb_is_anchor :: bool
  nb_indexed :: bool
  nb_url :: jstr

record neighbors_ok =
  nk_branch :: jstr
  nk_epoch :: int
  nk_state :: space_state
  nk_anchor :: sequence_point
  nk_items :: "neighbor_item list"
  nk_at_start :: bool
  nk_at_end :: bool

datatype no_sequence_reason = Not_merged_yet "jstr option" | Pull_not_sequenced | Commit_not_sequenced

datatype neighbors_outcome = Neighbors neighbors_ok | No_sequence no_sequence_reason | Neighbor_not_found

datatype neighbor_target = Around_pull_request int | Around_commit jstr

record neighbors_request =
  nq_repository :: int
  nq_slug :: jstr
  nq_scope :: access_scope
  nq_count :: nat
  nq_branch :: jstr
  nq_epoch :: int
  nq_state :: space_state
  nq_target :: neighbor_target

text \<open>\<open>nd_pulls\<close> and \<open>nd_commits\<close> answer a query with a limit; \<open>None\<close> raises.\<close>

record neighbor_deps =
  nd_db :: "nat \<Rightarrow> seq_db"
  nd_pulls :: "es_query \<Rightarrow> nat \<Rightarrow> neighbor_source list option"
  nd_commits :: "es_query \<Rightarrow> nat \<Rightarrow> commit_source list option"
  nd_iso :: "int \<Rightarrow> jstr"

datatype lookup_failure = Search_raised | No_scope scope_unavailable

section \<open>Queries of the index\<close>

definition repository_query :: "int \<Rightarrow> es_query list \<Rightarrow> es_query" where
  "repository_query repository clauses = Bool_query [] (Term (js ''repository_id'') (Es_number repository) # clauses) []"

text \<open>A query of one repository within the scope of the user.\<close>

definition scoped_search ::
    "(es_query \<Rightarrow> nat \<Rightarrow> 'a list option) \<Rightarrow> access_scope \<Rightarrow> int \<Rightarrow> es_query list \<Rightarrow> nat \<Rightarrow> (lookup_failure, 'a list) result" where
  "scoped_search engine scope repository clauses limit =
     (case apply_mandatory_scope_filter (repository_query repository clauses) scope of
        Inl e \<Rightarrow> Inl (No_scope e)
      | Inr s \<Rightarrow> (case engine s limit of None \<Rightarrow> Inl Search_raised | Some hits \<Rightarrow> Inr hits))"

definition reason_for_pull_request :: "neighbor_deps \<Rightarrow> neighbors_request \<Rightarrow> int \<Rightarrow> (lookup_failure, neighbors_outcome) result" where
  "reason_for_pull_request deps q pr =
     bind_result (scoped_search (nd_pulls deps) (nq_scope q) (nq_repository q) [Term (js ''pr_number'') (Es_number pr)] 1) (\<lambda>hits.
       Inr (case hits of
          [] \<Rightarrow> Neighbor_not_found
        | h # _ \<Rightarrow> if np_state h \<noteq> Some (js ''merged'') then No_sequence (Not_merged_yet (np_state h)) else No_sequence Pull_not_sequenced))"

definition reason_for_commit :: "neighbor_deps \<Rightarrow> neighbors_request \<Rightarrow> jstr \<Rightarrow> (lookup_failure, neighbors_outcome) result" where
  "reason_for_commit deps q sha =
     bind_result (scoped_search (nd_commits deps) (nq_scope q) (nq_repository q) [Term (js ''commit_sha'') (Es_text sha)] 1) (\<lambda>hits.
       Inr (case hits of [] \<Rightarrow> Neighbor_not_found | _ \<Rightarrow> No_sequence Commit_not_sequenced))"

definition neighbor_pulls :: "neighbor_deps \<Rightarrow> neighbors_request \<Rightarrow> merge_row list \<Rightarrow> (lookup_failure, int \<rightharpoonup> neighbor_source) result" where
  "neighbor_pulls deps q rows =
     (let numbers = numbers_of_rows rows in
      if numbers = [] then Inr Map.empty
      else bind_result (scoped_search (nd_pulls deps) (nq_scope q) (nq_repository q)
             [Terms (js ''pr_number'') (map Es_number numbers)] (length numbers)) (\<lambda>hits.
        Inr (fold (\<lambda>h m. case np_number h of None \<Rightarrow> m | Some n \<Rightarrow> m(n \<mapsto> h)) hits Map.empty)))"

definition bare_shas :: "merge_row list \<Rightarrow> jstr list" where
  "bare_shas rows = unique (map (\<lambda>r. to_lower (ms_sha r)) (filter (\<lambda>r. ms_pr r = None) rows))"

definition neighbor_commits :: "neighbor_deps \<Rightarrow> neighbors_request \<Rightarrow> merge_row list \<Rightarrow> (lookup_failure, jstr \<rightharpoonup> commit_source) result" where
  "neighbor_commits deps q rows =
     (let shas = bare_shas rows in
      if shas = [] then Inr Map.empty
      else bind_result (scoped_search (nd_commits deps) (nq_scope q) (nq_repository q)
             [Terms (js ''commit_sha'') (map Es_text shas)] (length shas)) (\<lambda>hits.
        Inr (fold (\<lambda>h m. case cm_sha h of None \<Rightarrow> m | Some s \<Rightarrow> m(to_lower s \<mapsto> h)) hits Map.empty)))"

section \<open>Items\<close>

definition neighbor_url :: "jstr \<Rightarrow> merge_row \<Rightarrow> jstr" where
  "neighbor_url slug r =
     (let parts = split_on (ch CHR ''/'') slug;
          owner = hd parts;
          name = (case tl parts of [] \<Rightarrow> [] | n # _ \<Rightarrow> n)
      in case ms_pr r of
           Some n \<Rightarrow> js ''/pr/'' @ owner @ js ''/'' @ name @ js ''/'' @ show_int n
         | None \<Rightarrow> js ''/commit/'' @ owner @ js ''/'' @ name @ js ''/'' @ ms_sha r)"

definition first_line :: "jstr \<Rightarrow> jstr" where
  "first_line s = hd (split_on 10 s)"

definition neighbor_item_of ::
    "neighbor_deps \<Rightarrow> jstr \<Rightarrow> int \<Rightarrow> (int \<rightharpoonup> neighbor_source) \<Rightarrow> (jstr \<rightharpoonup> commit_source) \<Rightarrow> merge_row \<Rightarrow> neighbor_item" where
  "neighbor_item_of deps slug anchor pulls commits r =
     (case ms_pr r of
        None \<Rightarrow>
          (let c = commits (to_lower (ms_sha r)) in
           \<lparr>nb_seq = ms_seq r, nb_is_pull = False, nb_sha = ms_sha r, nb_pr = None,
            nb_title = (case c of None \<Rightarrow> None | Some x \<Rightarrow> map_option first_line (cm_message x)),
            nb_author = (case c of None \<Rightarrow> None | Some x \<Rightarrow> cm_author x), nb_merged_at = Some (nd_iso deps (ms_committed r)),
            nb_is_anchor = (ms_seq r = anchor), nb_indexed = (c \<noteq> None), nb_url = neighbor_url slug r\<rparr>)
      | Some n \<Rightarrow>
          (let p = pulls n in
           \<lparr>nb_seq = ms_seq r, nb_is_pull = True, nb_sha = ms_sha r, nb_pr = Some n,
            nb_title = (case p of None \<Rightarrow> None | Some x \<Rightarrow> np_title x), nb_author = (case p of None \<Rightarrow> None | Some x \<Rightarrow> np_author x),
            nb_merged_at = (case p of None \<Rightarrow> None | Some x \<Rightarrow> np_merged_at x), nb_is_anchor = (ms_seq r = anchor),
            nb_indexed = (p \<noteq> None), nb_url = neighbor_url slug r\<rparr>))"

section \<open>The request\<close>

definition neighbor_anchor :: "neighbors_request \<Rightarrow> seq_db \<Rightarrow> sequence_point option" where
  "neighbor_anchor q db =
     (case nq_target q of
        Around_pull_request pr \<Rightarrow> find_point_by_pull_request (nq_repository q) (nq_branch q) (nq_epoch q) pr db
      | Around_commit sha \<Rightarrow> find_point_by_commit (nq_repository q) (nq_branch q) (nq_epoch q) sha db)"

definition neighbors_answer :: "neighbor_deps \<Rightarrow> neighbors_request \<Rightarrow> sequence_point \<Rightarrow> merge_row list \<Rightarrow>
    (int \<rightharpoonup> neighbor_source) \<Rightarrow> (jstr \<rightharpoonup> commit_source) \<Rightarrow> neighbors_ok" where
  "neighbors_answer deps q anchor rows pulls commits =
     \<lparr>nk_branch = nq_branch q, nk_epoch = nq_epoch q, nk_state = nq_state q, nk_anchor = anchor,
      nk_items = map (neighbor_item_of deps (nq_slug q) (pt_seq anchor) pulls commits) rows,
      nk_at_start = (length (filter (\<lambda>r. ms_seq r < pt_seq anchor) rows) < nq_count q),
      nk_at_end = (length (filter (\<lambda>r. pt_seq anchor < ms_seq r) rows) < nq_count q)\<rparr>"

definition run_neighbors :: "neighbor_deps \<Rightarrow> neighbors_request \<Rightarrow> (lookup_failure, neighbors_outcome) result" where
  "run_neighbors deps q =
     (case neighbor_anchor q (nd_db deps 0) of
        None \<Rightarrow>
          (case nq_target q of
             Around_pull_request pr \<Rightarrow> reason_for_pull_request deps q pr
           | Around_commit sha \<Rightarrow> reason_for_commit deps q sha)
      | Some anchor \<Rightarrow>
          (let rows = find_neighbors (nq_repository q) (nq_branch q) (nq_epoch q) (pt_seq anchor) (nq_count q) (nd_db deps 1) in
           bind_result (neighbor_pulls deps q rows) (\<lambda>pulls.
           bind_result (neighbor_commits deps q rows) (\<lambda>commits.
             Inr (Neighbors (neighbors_answer deps q anchor rows pulls commits))))))"

end
