(* ===== verification/Db_Release.thy ===== *)
theory Db_Release
  imports Db_SequenceSpace
begin

text \<open>
  The releases of a repository, which are tags on commits (\<open>packages/db/src/repositories/release.ts\<close>), as functions of
  the rows. The positions stored with a release are not read: a release stands where the sequence has its commit.
\<close>

datatype release_source = Git_tag | Github_release | Ci_deployment

record release_row =
  rl_repository :: int
  rl_tag :: jstr
  rl_sha :: jstr
  rl_branch :: "jstr option"
  rl_epoch :: "int option"
  rl_seq :: "int option"
  rl_released :: int
  rl_source :: release_source
  rl_synced :: int

definition release_key :: "release_row \<Rightarrow> int \<times> jstr" where
  "release_key r = (rl_repository r, rl_tag r)"

text \<open>A release is known by its repository and its tag; storing it again replaces the other columns.\<close>

definition upsert_release :: "release_row \<Rightarrow> int \<Rightarrow> release_row list \<Rightarrow> release_row list" where
  "upsert_release r now rows =
     (let new = r\<lparr>rl_synced := now\<rparr> in
      if release_key r \<in> release_key ` set rows then map (\<lambda>x. if release_key x = release_key r then new else x) rows
      else rows @ [new])"

definition is_dropped :: "int \<Rightarrow> jstr list \<Rightarrow> release_row \<Rightarrow> bool" where
  "is_dropped repository keep r \<longleftrightarrow> rl_repository r = repository \<and> rl_source r \<noteq> Ci_deployment \<and> rl_tag r \<notin> set keep"

definition delete_releases_not_in :: "int \<Rightarrow> jstr list \<Rightarrow> release_row list \<Rightarrow> release_row list \<times> jstr list" where
  "delete_releases_not_in repository keep rows =
     (filter (\<lambda>r. \<not> is_dropped repository keep r) rows, map rl_tag (filter (is_dropped repository keep) rows))"

definition list_releases :: "int \<Rightarrow> release_row list \<Rightarrow> release_row list" where
  "list_releases repository rows = sort_key (\<lambda>r. (rl_released r, rl_tag r)) (filter (\<lambda>r. rl_repository r = repository) rows)"

definition find_release_by_tag :: "int \<Rightarrow> jstr \<Rightarrow> release_row list \<Rightarrow> release_row option" where
  "find_release_by_tag repository tag rows = find (\<lambda>r. release_key r = (repository, tag)) rows"

definition has_any_release :: "int \<Rightarrow> release_row list \<Rightarrow> bool" where
  "has_any_release repository rows = list_ex (\<lambda>r. rl_repository r = repository) rows"

text \<open>The releases joined with the positions of their commits in an epoch of a branch.\<close>

definition placed_releases :: "int \<Rightarrow> jstr \<Rightarrow> int \<Rightarrow> release_row list \<Rightarrow> seq_db \<Rightarrow> (release_row \<times> int) list" where
  "placed_releases repository branch epoch rows db =
     concat (map (\<lambda>r. map (\<lambda>m. (r, ms_seq m)) (filter (\<lambda>m. ms_sha m = rl_sha r) (space_rows repository branch epoch db)))
       (filter (\<lambda>r. rl_repository r = repository) rows))"

definition find_containing_releases :: "int \<Rightarrow> jstr \<Rightarrow> int \<Rightarrow> int \<Rightarrow> release_row list \<Rightarrow> seq_db \<Rightarrow> release_row list" where
  "find_containing_releases repository branch epoch seq rows db =
     sort_key (\<lambda>r. (rl_released r, rl_tag r))
       (map (\<lambda>(r, n). r\<lparr>rl_branch := Some branch, rl_epoch := Some epoch, rl_seq := Some n\<rparr>)
         (filter (\<lambda>(r, n). n \<ge> seq) (placed_releases repository branch epoch rows db)))"

definition find_latest_release :: "int \<Rightarrow> jstr \<Rightarrow> int \<Rightarrow> release_row list \<Rightarrow> seq_db \<Rightarrow> (jstr \<times> int) option" where
  "find_latest_release repository branch epoch rows db =
     first_of (sort_key (\<lambda>(tag, n). - n) (map (\<lambda>(r, n). (rl_tag r, n)) (placed_releases repository branch epoch rows db)))"

definition find_latest_release_seq :: "int \<Rightarrow> jstr \<Rightarrow> int \<Rightarrow> release_row list \<Rightarrow> seq_db \<Rightarrow> int option" where
  "find_latest_release_seq repository branch epoch rows db = map_option snd (find_latest_release repository branch epoch rows db)"

end
