(* ===== verification/Api_Anchors.thy ===== *)
theory Api_Anchors
  imports Api_Neighbors Db_Release Domain_Anchor
begin

text \<open>
  The ends of a range, resolved to commits of a branch (\<open>apps/search-api/src/sequence/anchors.ts\<close>), and the plan of a
  comparison of two of them (\<open>apps/search-api/src/sequence/release-comparison.ts\<close>). The queries of one request see one
  state of the tables; the search engine and the reading of dates are parameters.
\<close>

definition MAX_ANCHORS :: nat where
  "MAX_ANCHORS = 8"

record anchor_input =
  ai_position :: anchor_position
  ai_expression :: jstr

datatype anchor_kind = Is_sequence | Is_pull_request | Is_commit | Is_time | Is_release

record resolved_anchor =
  rv_input :: anchor_input
  rv_kind :: anchor_kind
  rv_seq :: int
  rv_sha :: jstr
  rv_inclusive :: bool
  rv_occurred :: int

datatype anchor_code = ANCHOR_NOT_ON_BRANCH | ANCHOR_NOT_MERGED | ANCHOR_UNRESOLVABLE | SEQUENCE_SPACE_MISMATCH

text \<open>A failure with its details in place of its message.\<close>

datatype anchor_failure =
    Unknown_position int
  | Pull_request_elsewhere jstr
  | Pull_request_not_merged int
  | Ambiguous_prefix jstr nat
  | Commit_not_on_branch "jstr option"
  | Nothing_before int
  | Tag_not_found jstr
  | Release_not_indexed jstr
  | Release_elsewhere jstr
  | Release_not_on_branch "jstr option"
  | Several_readings "anchor_reading list"
  | Unreadable anchor_problem

fun failure_code :: "anchor_failure \<Rightarrow> anchor_code" where
  "failure_code (Pull_request_elsewhere b) = SEQUENCE_SPACE_MISMATCH"
| "failure_code (Release_elsewhere b) = SEQUENCE_SPACE_MISMATCH"
| "failure_code (Pull_request_not_merged n) = ANCHOR_NOT_MERGED"
| "failure_code (Commit_not_on_branch s) = ANCHOR_NOT_ON_BRANCH"
| "failure_code (Release_not_on_branch s) = ANCHOR_NOT_ON_BRANCH"
| "failure_code f = ANCHOR_UNRESOLVABLE"

datatype anchor_outcome = Anchor_resolved resolved_anchor | Anchor_failed anchor_failure

text \<open>\<open>ad_merge_commits\<close> and \<open>ad_branches\<close> answer a query with the merge commits and the branches of the documents.\<close>

record anchor_deps =
  ad_db :: seq_db
  ad_releases :: "release_row list"
  ad_merge_commits :: "es_query \<Rightarrow> nat \<Rightarrow> jstr option list option"
  ad_branches :: "es_query \<Rightarrow> nat \<Rightarrow> jstr option list option"
  ad_parse_date :: "jstr \<Rightarrow> int option"

section \<open>Anchors\<close>

definition suggest_merge_commit :: "anchor_deps \<Rightarrow> resolved_space \<Rightarrow> access_scope \<Rightarrow> jstr \<Rightarrow> (lookup_failure, jstr option) result" where
  "suggest_merge_commit deps space scope sha =
     bind_result (scoped_search (ad_merge_commits deps) scope (rs_repository space)
       [Term (js ''base_branch'') (Es_text (rs_branch space)), Term (js ''source_commit_shas'') (Es_text (to_lower sha))] 1) (\<lambda>hits.
     (case hits of
        Some m # _ \<Rightarrow>
          if m = [] then Inr None
          else (case find_point_by_commit (rs_repository space) (rs_branch space) (rs_epoch space) m (ad_db deps) of
                  None \<Rightarrow> Inr None
                | Some p \<Rightarrow> Inr (Some (to_lower m)))
      | _ \<Rightarrow> Inr None))"

definition anchor_at :: "anchor_input \<Rightarrow> anchor_kind \<Rightarrow> sequence_point \<Rightarrow> anchor_outcome" where
  "anchor_at i k p =
     Anchor_resolved \<lparr>rv_input = i, rv_kind = k, rv_seq = pt_seq p, rv_sha = pt_sha p, rv_inclusive = inclusive_boundary (ai_position i),
       rv_occurred = pt_committed p\<rparr>"

text \<open>Why a pull request has no position here: it goes to another branch, or it is not merged.\<close>

definition pull_request_failure :: "anchor_deps \<Rightarrow> resolved_space \<Rightarrow> access_scope \<Rightarrow> int \<Rightarrow> (lookup_failure, anchor_failure) result" where
  "pull_request_failure deps space scope pr =
     bind_result (scoped_search (ad_branches deps) scope (rs_repository space) [Term (js ''pr_number'') (Es_number pr)] 1) (\<lambda>hits.
     Inr (case hits of
        Some b # _ \<Rightarrow> if b \<noteq> [] \<and> b \<noteq> rs_branch space then Pull_request_elsewhere b else Pull_request_not_merged pr
      | _ \<Rightarrow> Pull_request_not_merged pr))"

definition exact_commit :: "anchor_deps \<Rightarrow> resolved_space \<Rightarrow> jstr \<Rightarrow> sequence_point list" where
  "exact_commit deps space sha =
     (case find_point_by_commit (rs_repository space) (rs_branch space) (rs_epoch space) sha (ad_db deps) of None \<Rightarrow> [] | Some p \<Rightarrow> [p])"

definition resolve_commit :: "anchor_deps \<Rightarrow> resolved_space \<Rightarrow> access_scope \<Rightarrow> anchor_input \<Rightarrow> jstr \<Rightarrow> bool \<Rightarrow> (lookup_failure, anchor_outcome) result" where
  "resolve_commit deps space scope i sha exact =
     (case (if exact then exact_commit deps space sha
            else find_points_by_commit_prefix (rs_repository space) (rs_branch space) (rs_epoch space) sha (ad_db deps)) of
        [] \<Rightarrow> bind_result (suggest_merge_commit deps space scope sha) (\<lambda>s. Inr (Anchor_failed (Commit_not_on_branch s)))
      | [p] \<Rightarrow> Inr (anchor_at i Is_commit p)
      | _ \<Rightarrow> Inr (Anchor_failed (Ambiguous_prefix sha (length sha + 1))))"

definition resolve_release :: "anchor_deps \<Rightarrow> resolved_space \<Rightarrow> access_scope \<Rightarrow> anchor_input \<Rightarrow> jstr \<Rightarrow> (lookup_failure, anchor_outcome) result" where
  "resolve_release deps space scope i tag =
     (case find_release_by_tag (rs_repository space) tag (ad_releases deps) of
        None \<Rightarrow> Inr (Anchor_failed (if has_any_release (rs_repository space) (ad_releases deps) then Tag_not_found tag else Release_not_indexed tag))
      | Some r \<Rightarrow>
          (case find_point_by_commit (rs_repository space) (rs_branch space) (rs_epoch space) (rl_sha r) (ad_db deps) of
             Some p \<Rightarrow> Inr (anchor_at i Is_release (p\<lparr>pt_committed := rl_released r\<rparr>))
           | None \<Rightarrow>
               (case rl_branch r of
                  Some b \<Rightarrow>
                    if b \<noteq> rs_branch space then Inr (Anchor_failed (Release_elsewhere b))
                    else bind_result (suggest_merge_commit deps space scope (rl_sha r)) (\<lambda>s. Inr (Anchor_failed (Release_not_on_branch s)))
                | None \<Rightarrow> bind_result (suggest_merge_commit deps space scope (rl_sha r)) (\<lambda>s. Inr (Anchor_failed (Release_not_on_branch s))))))"

definition resolve_anchor :: "anchor_deps \<Rightarrow> resolved_space \<Rightarrow> access_scope \<Rightarrow> anchor_input \<Rightarrow> (lookup_failure, anchor_outcome) result" where
  "resolve_anchor deps space scope i =
     (case classify_anchor (ad_parse_date deps) (ai_expression i) of
        Sequence_anchor n \<Rightarrow>
          Inr (case find_point_by_seq (rs_repository space) (rs_branch space) (rs_epoch space) n (ad_db deps) of
             None \<Rightarrow> Anchor_failed (Unknown_position n)
           | Some p \<Rightarrow> anchor_at i Is_sequence p)
      | Pull_request_anchor pr \<Rightarrow>
          (case find_point_by_pull_request (rs_repository space) (rs_branch space) (rs_epoch space) pr (ad_db deps) of
             Some p \<Rightarrow> Inr (anchor_at i Is_pull_request p)
           | None \<Rightarrow> bind_result (pull_request_failure deps space scope pr) (\<lambda>f. Inr (Anchor_failed f)))
      | Commit_anchor sha exact \<Rightarrow> resolve_commit deps space scope i sha exact
      | Time_anchor t \<Rightarrow>
          Inr (case find_point_at_or_before (rs_repository space) (rs_branch space) (rs_epoch space) t (ad_db deps) of
             None \<Rightarrow> Anchor_failed (Nothing_before t)
           | Some p \<Rightarrow> anchor_at i Is_time p)
      | Release_anchor tag \<Rightarrow> resolve_release deps space scope i tag
      | Ambiguous_anchor readings \<Rightarrow> Inr (Anchor_failed (Several_readings readings))
      | Invalid_anchor p \<Rightarrow> Inr (Anchor_failed (Unreadable p)))"

fun resolve_anchors :: "anchor_deps \<Rightarrow> resolved_space \<Rightarrow> access_scope \<Rightarrow> anchor_input list \<Rightarrow> (lookup_failure, anchor_outcome list) result" where
  "resolve_anchors deps space scope [] = Inr []"
| "resolve_anchors deps space scope (i # is) =
     bind_result (resolve_anchor deps space scope i) (\<lambda>o1.
     bind_result (resolve_anchors deps space scope is) (\<lambda>os. Inr (o1 # os)))"

section \<open>Comparisons\<close>

definition UNRELEASED :: jstr where
  "UNRELEASED = js ''unreleased''"

definition DEFAULT_COMPARISON_SIZE :: int where
  "DEFAULT_COMPARISON_SIZE = 50"

definition MAX_COMPARISON_SIZE :: int where
  "MAX_COMPARISON_SIZE = 200"

definition clamp_comparison_size :: "(jstr \<Rightarrow> int option) \<Rightarrow> json option \<Rightarrow> int" where
  "clamp_comparison_size number v =
     (case v of
        Some (J_string s) \<Rightarrow>
          if trim s = [] then DEFAULT_COMPARISON_SIZE
          else (case number s of
                  None \<Rightarrow> DEFAULT_COMPARISON_SIZE
                | Some n \<Rightarrow> if n < 0 then DEFAULT_COMPARISON_SIZE else min n MAX_COMPARISON_SIZE)
      | _ \<Rightarrow> DEFAULT_COMPARISON_SIZE)"

text \<open>An end of a comparison: what it is called, and its position.\<close>

datatype end_label = Named_end jstr | Branch_head jstr | No_release_yet

record comparison_plan =
  cp_from_label :: end_label
  cp_from :: int
  cp_to_label :: end_label
  cp_to :: int
  cp_unreleased :: bool

definition normalize_ends :: "end_label \<times> int \<Rightarrow> end_label \<times> int \<Rightarrow> bool \<Rightarrow> comparison_plan" where
  "normalize_ends a b unreleased =
     (let (l, u) = (if snd a \<le> snd b then (a, b) else (b, a)) in
      \<lparr>cp_from_label = fst l, cp_from = snd l, cp_to_label = fst u, cp_to = snd u, cp_unreleased = unreleased\<rparr>)"

datatype plan_outcome = Plan_ok comparison_plan | Plan_failed anchor_failure

definition anchor_end :: "resolved_anchor \<Rightarrow> end_label \<times> int" where
  "anchor_end a = (Named_end (ai_expression (rv_input a)), rv_seq a)"

definition plan_unreleased :: "anchor_deps \<Rightarrow> resolved_space \<Rightarrow> access_scope \<Rightarrow> jstr option \<Rightarrow> (lookup_failure, plan_outcome) result" where
  "plan_unreleased deps space scope from_text =
     (let head = (Branch_head (rs_branch space), rs_head_seq space) in
      case from_text of
        None \<Rightarrow>
          Inr (Plan_ok (normalize_ends
            (case find_latest_release (rs_repository space) (rs_branch space) (rs_epoch space) (ad_releases deps) (ad_db deps) of
               None \<Rightarrow> (No_release_yet, 0)
             | Some (tag, n) \<Rightarrow> (Named_end tag, n)) head True))
      | Some e \<Rightarrow>
          bind_result (resolve_anchor deps space scope \<lparr>ai_position = From_anchor, ai_expression = e\<rparr>) (\<lambda>out.
            Inr (case out of Anchor_failed f \<Rightarrow> Plan_failed f | Anchor_resolved a \<Rightarrow> Plan_ok (normalize_ends (anchor_end a) head True))))"

definition plan_comparison ::
    "anchor_deps \<Rightarrow> resolved_space \<Rightarrow> access_scope \<Rightarrow> jstr option \<Rightarrow> jstr \<Rightarrow> (lookup_failure, plan_outcome) result" where
  "plan_comparison deps space scope from_text to_text =
     (if to_text = UNRELEASED then plan_unreleased deps space scope from_text
      else
        bind_result (resolve_anchor deps space scope \<lparr>ai_position = From_anchor, ai_expression = (case from_text of None \<Rightarrow> [] | Some e \<Rightarrow> e)\<rparr>) (\<lambda>a.
        bind_result (resolve_anchor deps space scope \<lparr>ai_position = To_anchor, ai_expression = to_text\<rparr>) (\<lambda>b.
          Inr (case (a, b) of
             (Anchor_failed f, _) \<Rightarrow> Plan_failed f
           | (_, Anchor_failed f) \<Rightarrow> Plan_failed f
           | (Anchor_resolved x, Anchor_resolved y) \<Rightarrow> Plan_ok (normalize_ends (anchor_end x) (anchor_end y) False)))))"

text \<open>\<open>None\<close> is the code \<open>RELEASE_NOT_INDEXED\<close>.\<close>

fun comparison_failure_code :: "anchor_failure \<Rightarrow> anchor_code option" where
  "comparison_failure_code (Tag_not_found t) = None"
| "comparison_failure_code (Release_not_indexed t) = None"
| "comparison_failure_code f = Some (failure_code f)"

section \<open>What an anchor stands for\<close>

text \<open>The commit of a resolved anchor is a row of the space it was asked for.\<close>

definition stands_at :: "seq_db \<Rightarrow> resolved_space \<Rightarrow> int \<Rightarrow> jstr \<Rightarrow> bool" where
  "stands_at db space seq sha \<longleftrightarrow>
     (\<exists>r \<in> set (space_rows (rs_repository space) (rs_branch space) (rs_epoch space) db). ms_seq r = seq \<and> ms_sha r = sha)"

lemma found_stands:
  assumes "map_option to_point (find P rows) = Some p" "set rows = set (space_rows (rs_repository space) (rs_branch space) (rs_epoch space) db)"
  shows "stands_at db space (pt_seq p) (pt_sha p)"
proof -
  from assms(1) obtain r where "find P rows = Some r" "p = to_point r" by auto
  moreover from this have "r \<in> set rows" by (auto simp: find_Some_iff)
  ultimately show ?thesis unfolding stands_at_def assms(2)[symmetric] by (auto simp: to_point_def)
qed

lemma point_stands:
  "find_point_by_seq (rs_repository space) (rs_branch space) (rs_epoch space) n db = Some p \<Longrightarrow> stands_at db space (pt_seq p) (pt_sha p)"
  "find_point_by_pull_request (rs_repository space) (rs_branch space) (rs_epoch space) pr db = Some p \<Longrightarrow> stands_at db space (pt_seq p) (pt_sha p)"
  "find_point_by_commit (rs_repository space) (rs_branch space) (rs_epoch space) sha db = Some p \<Longrightarrow> stands_at db space (pt_seq p) (pt_sha p)"
  "find_point_at_or_before (rs_repository space) (rs_branch space) (rs_epoch space) t db = Some p \<Longrightarrow> stands_at db space (pt_seq p) (pt_sha p)"
  unfolding find_point_by_seq_def find_point_by_pull_request_def find_point_by_commit_def find_point_at_or_before_def
  by (erule found_stands, simp add: ordered_rows_def)+

lemma prefix_stands:
  "p \<in> set (find_points_by_commit_prefix (rs_repository space) (rs_branch space) (rs_epoch space) sha db) \<Longrightarrow> stands_at db space (pt_seq p) (pt_sha p)"
  by (auto simp: stands_at_def find_points_by_commit_prefix_def to_point_def ordered_rows_def dest!: in_set_takeD)

lemma resolve_commit_stands:
  assumes "resolve_commit deps space scope i sha exact = Inr (Anchor_resolved a)"
  shows "stands_at (ad_db deps) space (rv_seq a) (rv_sha a)"
proof -
  let ?points = "if exact then exact_commit deps space sha
    else find_points_by_commit_prefix (rs_repository space) (rs_branch space) (rs_epoch space) sha (ad_db deps)"
  from assms obtain p where p: "?points = [p]" "Anchor_resolved a = anchor_at i Is_commit p"
    by (auto simp: resolve_commit_def split: list.splits)
  then have "stands_at (ad_db deps) space (pt_seq p) (pt_sha p)"
    using prefix_stands[of p space sha] point_stands(3)[of space sha] by (auto simp: exact_commit_def split: if_splits option.splits)
  with p(2) show ?thesis by (simp add: anchor_at_def)
qed

lemma resolve_anchor_stands:
  assumes "resolve_anchor deps space scope i = Inr (Anchor_resolved a)"
  shows "stands_at (ad_db deps) space (rv_seq a) (rv_sha a)"
  using assms
  by (auto simp: resolve_anchor_def resolve_release_def anchor_at_def dest: point_stands resolve_commit_stands
      split: anchor_expression.splits option.splits if_splits)

end
