(* ===== verification/Spec2Isabelle.thy ===== *)
theory Spec2Isabelle
  imports Query_Edits Query_Binding Es_Query_Meaning Domain_MNumber Domain_Sequence Github_Scheduler
    Github_RateLimit Github_Graph Worker_Sequence GhCli_Pointer GhCli_Invocation GhCli_Ref GhCli_Binding
    Bus_Topics Bus_Memory Domain_Text Domain_Links
    Es_Scoped_Query Authz_Scope Authz_Invalidation Authz_Session Authz_Source Domain_Release JSON_Text
    Gateway_Ingest Db_SequenceWork
    Worker_Repairs Worker_Numbers Domain_Anchor Bisect_Runs Marker_Runs Api_Pages Api_Anchors
begin

text \<open>
  A verification library for pr-search, a search service over the pull requests and commits of a GitHub
  server. File names are those below \<open>src/\<close>.

  \<^bold>\<open>The program.\<close> Webhooks of GitHub arrive at \<open>apps/ingest-gateway\<close>, which checks their signature, stores
  each delivery once with the work it asks for, and publishes events on the bus (\<open>packages/bus\<close>). The
  pipeline worker (\<open>apps/pipeline-worker\<close>) takes work from the table \<open>sequence_work\<close>
  (\<open>packages/db\<close>), reads the commit graph of a branch (\<open>packages/github\<close>) and gives the commits of its
  first-parent chain the sequence numbers 1, 2, 3 and so on; a rewritten history opens a new epoch in
  which the numbers start anew from the common part, and the old epoch stays for what was cited. A second
  kind of work gives merge numbers to the pull requests behind these commits, on evidence. The search API
  (\<open>apps/search-api\<close>) parses a query (\<open>packages/query\<close>), turns it into a query of Elasticsearch
  (\<open>packages/es\<close>), restricts it to the access scope of the user (\<open>packages/authz\<close>), and serves the numbers:
  ranges, neighbours, anchors, comparisons, safe markers and searches for a breaking commit. Commands of
  the GitHub CLI are built from checked parts (\<open>packages/gh-cli\<close>).

  \<^bold>\<open>Conventions\<close> (\<open>PRS_Prelude\<close>, \<open>JSON_Value\<close>, \<open>JSON_Text\<close>, \<open>JS_Date\<close>). A string of the program is a list of UTF-16
  units (\<open>jstr\<close>), integers are \<open>int\<close> with the range checks the code makes, a result that may fail is a
  sum with the error on the left, an exception is an error value or \<open>None\<close>. A table is a list of rows in
  a record, with the clock of the database; a statement is a function of the tables that answers \<open>None\<close>
  when a constraint rejects it. Regular expressions are matchers over units. What concurrent code does
  between two awaits, or a transaction does as a whole, is one step of a step relation; \<open>reaches\<close> is
  reachability, and the locale \<open>invariant_system\<close> carries every proof by invariant. It is interpreted
  for the runs of each component. \<open>codec\<close> and \<open>canonical_codec\<close> are the interface of printers and readers,
  \<open>search_engine\<close> of what a query means to Elasticsearch, \<open>commit_graph\<close> and \<open>strict_commit_graph\<close> of a commit
  graph; each is interpreted on the model's own definitions.

  \<^bold>\<open>The search query\<close> (\<open>packages/query/src\<close>, \<open>packages/es/src\<close>). \<open>Query_Syntax\<close>: keys, tree and errors.
  \<open>Query_Tokenizer\<close>, \<open>Query_Parse\<close>, \<open>Query_Serialize\<close>: \<open>tokenizer.ts\<close>, \<open>parse.ts\<close>, \<open>serialize.ts\<close> in full.
  \<open>Query_Calendar\<close>: days, months and the start of a day in a time zone (\<open>calendar.ts\<close>); the formatter of
  the platform is a parameter. \<open>Query_Roundtrip\<close> and \<open>Query_Edits\<close>: what is printed is read back, what the
  parser returns is well formed, edits keep it so. \<open>Query_Binding\<close>: the repository and branch a range of
  numbers belongs to. \<open>Es_Query_Builder\<close>, \<open>Es_Query_Meaning\<close>, \<open>Es_Scoped_Query\<close>: the built query, its meaning in
  any engine that evaluates the documented clauses, and the access scope.

  \<^bold>\<open>Access\<close> (\<open>packages/authz/src\<close>). \<open>Authz_Source\<close>: the scope computed from GitHub's answers. \<open>Authz_Scope\<close>: its caches
  in the database and in Redis under concurrent resolvers, invalidations and forgets; one clock stands for
  those of the application and the database. \<open>Authz_Invalidation\<close>: from a webhook to the users whose caches
  are dropped, with a failure after any call. \<open>Authz_Session\<close>: roles, cookies and sessions; a load is one step
  of the runs, and the section on lost logouts takes it apart.

  \<^bold>\<open>Ingestion and the bus.\<close> \<open>Gateway_Ingest\<close>: from the raw body of a webhook to the response. \<open>Domain_Release\<close>,
  \<open>Domain_Sequence\<close>, \<open>Domain_MNumber\<close>, \<open>Domain_Anchor\<close>, \<open>Domain_Text\<close>, \<open>Domain_Links\<close>: the rules of
  \<open>packages/domain/src\<close> on release signals, push targets and labels, M numbers, anchors, masked text,
  cherry-picks and reverts. \<open>Bus_Topics\<close>, \<open>Bus_Memory\<close>: topics, partitions and delays, and the in-memory bus
  with its message objects in an explicit store.

  \<^bold>\<open>GitHub\<close> (\<open>packages/github/src\<close>). \<open>Github_Scheduler\<close>: the request scheduler at its awaits. \<open>Github_RateLimit\<close>: limits and
  the token pool. \<open>Github_Graph\<close>: arguments and output of git, and the first-parent chain. \<open>Github_ApiGraph\<close>: the
  graph over the API, an interpretation of \<open>strict_commit_graph\<close> whatever part of the objects a page shows.

  \<^bold>\<open>The numbers.\<close> \<open>Db_MergeSequence\<close>, \<open>Db_SequenceSpace\<close>, \<open>Db_MergeEvidence\<close>, \<open>Db_SequenceWork\<close>, \<open>Db_Release\<close>: the tables of
  \<open>packages/db/src/repositories\<close> with their constraints and statements. \<open>Worker_Sequence\<close>: the pure plans.
  \<open>Worker_Assign\<close>: \<open>assignSequence\<close>, \<open>reassignSequence\<close> and \<open>repairSequence\<close> of \<open>sequence.ts\<close> with every way out.
  \<open>Worker_Chain\<close>: each of them keeps the rows of a space equal to the history of its head. \<open>Worker_Runs\<close>: runs of
  many workers, where a repair may rest on an analysis of any earlier state. \<open>Worker_Rows\<close>: rows are added and
  completed, never changed. \<open>Worker_Repairs\<close>: repairs on other tables, and the ways in which the workers leave
  a space in disorder. \<open>Worker_Evidence\<close>: what decides which pull request a commit merged. \<open>Worker_Reconcile\<close>: a
  round of the numbering of pull requests in its two transactions. \<open>Worker_Covered\<close>, \<open>Worker_Rounds\<close>, \<open>Worker_Commits\<close>,
  \<open>Worker_Numbers\<close>: the invariant of the merge numbers, for rounds whose first part read any earlier state.

  \<^bold>\<open>Serving the numbers\<close> (\<open>apps/search-api/src/sequence\<close>). \<open>Api_Space\<close>, \<open>Api_MergeNumbers\<close>: lookups within the scope
  of a user. \<open>Api_Cursor\<close>, \<open>Api_Range\<close>, \<open>Api_Pages\<close>: signed cursors, the scan of a range by chunks, and a client that
  follows the cursors. \<open>Api_Neighbors\<close>, \<open>Api_Anchors\<close>: the commits around one, and the ends of a range. \<open>Db_Bisect\<close>
  and \<open>Bisect_Runs\<close>, \<open>Db_SafeMarker\<close> and \<open>Marker_Runs\<close>: sessions and markers of users while the workers go on.

  \<^bold>\<open>Commands\<close> (\<open>packages/gh-cli/src\<close>). \<open>GhCli_Pointer\<close>, \<open>GhCli_Invocation\<close>, \<open>GhCli_Ref\<close>, \<open>GhCli_Binding\<close>: JSON pointers, the
  arguments of an accepted invocation, references to resources, and results passed from one command to
  the next.

  \<^bold>\<open>Loops and bounds.\<close> Loops over lists are structural recursions. The walk along first parents
  (\<open>chain_loop\<close>) may run forever in a cyclic graph and is a partial function into \<open>option\<close>; it is shown to
  return on graphs whose parents are older. The bisection of a day and the scan of a range by chunks
  terminate by measures. The search over pages of pull requests (\<open>scan_pages\<close>) recurses on the number of
  pages the code allows. A client that reads pages (\<open>read_range\<close>) or follows the proposals of a session
  (\<open>follow_proposals\<close>) has a number of rounds; the theorems say that one more page than commits, and the
  rounds the session estimates, are enough.

  \<^bold>\<open>Parameters.\<close> Code outside the repository is an argument of the definitions: the answers of GitHub and of
  git, Elasticsearch, HMAC, hashes and base64, \<open>JSON.parse\<close>, \<open>Intl\<close>, the URL parser, the size of a stored
  document, clocks. Hypotheses on them state documented behaviour: a page shows objects of a
  repository that never change (\<open>github_listing\<close>), git follows all parents for ancestry and the first ones for a log
  (\<open>reads_git\<close>), names of time zones resolve to themselves (\<open>stable_zones\<close>), an engine evaluates a clause
  as documented (\<open>search_engine\<close>), a cursor that is decoded is the one that was encoded.

  \<^bold>\<open>Not modelled.\<close> The web application, routes and servers, the index of documents and its rebuilding,
  enrichment, links between pull requests, annotations and tags written back to GitHub, jobs, exports
  and analytics, the executor of commands, metrics and configuration: they move data between services
  with little state of their own. Log lines, messages in natural language and audit records are left out
  of the parts that are modelled. \<open>PROJECT.json\<close> lists every part with what is left out of it.
\<close>

end
